(* ===== verification/Prelude.thy ===== *)
theory Prelude
  imports Main
begin

text \<open>
  Shared vocabulary of the development. JavaScript's \<open>Map\<close> keeps its keys in insertion
  order, and overwriting a key keeps its place, so a map is an association list with
  distinct keys (\<open>jm_get\<close>, \<open>jm_set\<close>, \<open>jm_delete\<close>) and "the oldest key" is the head.
  A \<open>Set\<close> is a list without duplicates in insertion order (\<open>js_add\<close>).
  The locale \<open>keyed_map\<close> is the contract of a map, interpreted here on the association lists;
  \<open>session_book\<close> is that of state kept per session or partition, interpreted by the components. The collections \<open>jm\<close> (rewrite rules of the maps) and \<open>shape\<close>
  (well-formedness of maps) carry most of the component proofs.
\<close>

named_theorems jm
named_theorems shape

section \<open>JavaScript maps in insertion order\<close>

type_synonym ('k, 'v) jsmap = "('k \<times> 'v) list"

definition jm_get :: "('k, 'v) jsmap \<Rightarrow> 'k \<Rightarrow> 'v option" where
  "jm_get m k = map_of m k"

fun jm_set :: "'k \<Rightarrow> 'v \<Rightarrow> ('k, 'v) jsmap \<Rightarrow> ('k, 'v) jsmap" where
  "jm_set k v [] = [(k, v)]"
| "jm_set k v ((a, b) # m) = (if a = k then (k, v) # m else (a, b) # jm_set k v m)"

definition jm_delete :: "'k \<Rightarrow> ('k, 'v) jsmap \<Rightarrow> ('k, 'v) jsmap" where
  "jm_delete k m = filter (\<lambda>p. fst p \<noteq> k) m"

definition jm_keys :: "('k, 'v) jsmap \<Rightarrow> 'k list" where
  "jm_keys m = map fst m"

definition jm_has :: "('k, 'v) jsmap \<Rightarrow> 'k \<Rightarrow> bool" where
  "jm_has m k = (jm_get m k \<noteq> None)"

definition jm_ok :: "('k, 'v) jsmap \<Rightarrow> bool" where
  "jm_ok m \<longleftrightarrow> distinct (map fst m)"

text \<open>\<open>if (map.size > cap) map.delete(map.keys().next().value)\<close>: evict the oldest key.\<close>

definition jm_evict :: "nat \<Rightarrow> ('k, 'v) jsmap \<Rightarrow> ('k, 'v) jsmap" where
  "jm_evict cap m = (if cap < length m then jm_delete (fst (hd m)) m else m)"

lemma jm_get_Nil [simp, jm]: "jm_get [] k = None"
  by (simp add: jm_get_def)

lemma jm_get_Cons [jm]: "jm_get ((a, b) # m) k = (if k = a then Some b else jm_get m k)"
  by (simp add: jm_get_def)

lemma jm_get_set [simp, jm]: "jm_get (jm_set k v m) k' = (if k' = k then Some v else jm_get m k')"
  by (induction k v m rule: jm_set.induct) (auto simp: jm_get_def)

lemma jm_get_delete [simp, jm]: "jm_get (jm_delete k m) k' = (if k' = k then None else jm_get m k')"
  by (induction m) (auto simp: jm_delete_def jm_get_def)

lemma jm_get_Some_in: "jm_get m k = Some v \<Longrightarrow> (k, v) \<in> set m"
  by (simp add: jm_get_def map_of_SomeD)

lemma jm_get_None_iff: "jm_get m k = None \<longleftrightarrow> k \<notin> fst ` set m"
  by (simp add: jm_get_def map_of_eq_None_iff)

lemma jm_get_in: "jm_ok m \<Longrightarrow> (k, v) \<in> set m \<Longrightarrow> jm_get m k = Some v"
  by (simp add: jm_get_def jm_ok_def)

lemma jm_ok_Nil [simp, shape]: "jm_ok []"
  by (simp add: jm_ok_def)

lemma jm_ok_single [simp, shape]: "jm_ok [(k, v)]"
  by (simp add: jm_ok_def)

lemma jm_set_keys: "fst ` set (jm_set k v m) = insert k (fst ` set m)"
  by (induction k v m rule: jm_set.induct) auto

lemma jm_ok_set [simp, shape]: "jm_ok m \<Longrightarrow> jm_ok (jm_set k v m)"
  by (induction k v m rule: jm_set.induct) (auto simp: jm_ok_def jm_set_keys)

lemma jm_ok_filter [simp, shape]: "jm_ok m \<Longrightarrow> jm_ok (filter P m)"
  by (simp add: jm_ok_def distinct_map_filter)

lemma jm_ok_delete [simp, shape]: "jm_ok m \<Longrightarrow> jm_ok (jm_delete k m)"
  by (simp add: jm_delete_def)

lemma jm_ok_evict [simp, shape]: "jm_ok m \<Longrightarrow> jm_ok (jm_evict cap m)"
  by (simp add: jm_evict_def)

lemma jm_get_map_of: "jm_get m = map_of m"
  by (rule ext) (simp add: jm_get_def)

lemma dom_jm_get: "dom (jm_get m) = fst ` set m"
  by (simp add: jm_get_map_of dom_map_of_conv_image_fst)

lemma jm_length_card: "jm_ok m \<Longrightarrow> length m = card (dom (jm_get m))"
  by (metis dom_jm_get jm_ok_def distinct_card length_map list.set_map)

lemma jm_delete_hd: "jm_ok ((a, b) # m) \<Longrightarrow> jm_delete a ((a, b) # m) = m"
  by (auto simp: jm_ok_def jm_delete_def filter_id_conv)

lemma jm_evict_tl: "jm_ok m \<Longrightarrow> jm_evict cap m = (if cap < length m then tl m else m)"
  by (cases m) (auto simp: jm_evict_def jm_delete_hd)

lemma jm_set_length: "length (jm_set k v m) = (if jm_has m k then length m else Suc (length m))"
  by (induction k v m rule: jm_set.induct) (auto simp: jm_has_def jm_get_def)

lemma jm_delete_length_le: "length (jm_delete k m) \<le> length m"
  by (simp add: jm_delete_def)

text \<open>Replacing a key and evicting at most one entry keeps a bounded map bounded.\<close>

lemma jm_insert_evict_bound:
  assumes "jm_ok m" and "length m \<le> cap"
  shows "length (jm_evict cap (jm_set k v (jm_delete k' m))) \<le> cap"
proof -
  have "length (jm_set k v (jm_delete k' m)) \<le> Suc cap"
    using jm_set_length [of k v "jm_delete k' m"] jm_delete_length_le [of k' m] assms(2)
    by (auto split: if_splits)
  moreover have "jm_ok (jm_set k v (jm_delete k' m))" using assms(1) by simp
  ultimately show ?thesis by (auto simp: jm_evict_tl)
qed

section \<open>The contract of a keyed map\<close>

locale keyed_map =
  fixes get :: "'m \<Rightarrow> 'k \<Rightarrow> 'v option"
    and put :: "'k \<Rightarrow> 'v \<Rightarrow> 'm \<Rightarrow> 'm"
    and del :: "'k \<Rightarrow> 'm \<Rightarrow> 'm"
    and size_of :: "'m \<Rightarrow> nat"
    and wf :: "'m \<Rightarrow> bool"
  assumes get_put: "get (put k v m) k' = (if k' = k then Some v else get m k')"
    and get_del: "get (del k m) k' = (if k' = k then None else get m k')"
    and wf_put: "wf m \<Longrightarrow> wf (put k v m)"
    and wf_del: "wf m \<Longrightarrow> wf (del k m)"
    and size_dom: "wf m \<Longrightarrow> size_of m = card (dom (get m))"
begin

lemma get_put_same: "get (put k v m) k = Some v"
  by (simp add: get_put)

lemma get_put_other: "k' \<noteq> k \<Longrightarrow> get (put k v m) k' = get m k'"
  by (simp add: get_put)

lemma put_idem: "get (put k v (put k w m)) = get (put k v m)"
  by (rule ext) (simp add: get_put)

lemma del_put: "get (del k (put k v m)) = get (del k m)"
  by (rule ext) (simp add: get_del get_put)

lemma reinsert: "get (put k v (del k m)) = get (put k v m)"
  by (rule ext) (simp add: get_del get_put)

lemma size_cong: "wf m \<Longrightarrow> wf n \<Longrightarrow> get m = get n \<Longrightarrow> size_of m = size_of n"
  by (simp add: size_dom)

end

interpretation js_map: keyed_map jm_get jm_set jm_delete length jm_ok
  by unfold_locales (auto simp: jm_length_card)

section \<open>The contract of state kept per key\<close>

text \<open>
  The contract of state kept per key (per session, per partition): an operation that does not
  touch a key leaves the key's view as it was.
\<close>

locale session_book =
  fixes step :: "'op \<Rightarrow> 'g \<Rightarrow> 'g"
    and view :: "'g \<Rightarrow> 's \<Rightarrow> 'v"
    and touched :: "'op \<Rightarrow> 'g \<Rightarrow> 's \<Rightarrow> bool"
  assumes untouched: "\<not> touched op g s \<Longrightarrow> view (step op g) s = view g s"
begin

primrec quiet :: "'op list \<Rightarrow> 'g \<Rightarrow> 's \<Rightarrow> bool" where
  "quiet [] g s = True"
| "quiet (op # ops) g s = (\<not> touched op g s \<and> quiet ops (step op g) s)"

lemma quiet_view: "quiet ops g s \<Longrightarrow> view (fold step ops g) s = view g s"
  by (induction ops arbitrary: g) (simp_all add: untouched)

lemma view_changes:
  "view (fold step ops g) s \<noteq> view g s \<Longrightarrow>
     \<exists>ops1 op ops2. ops = ops1 @ op # ops2 \<and> touched op (fold step ops1 g) s"
proof (induction ops arbitrary: g)
  case (Cons op ops)
  show ?case
  proof (cases "touched op g s")
    case True
    then show ?thesis by (intro exI [of _ "[]"]) auto
  next
    case False
    then have "view (fold step ops (step op g)) s \<noteq> view (step op g) s"
      using Cons.prems untouched by simp
    from Cons.IH [OF this] obtain ops1 op' ops2 where
      "ops = ops1 @ op' # ops2 \<and> touched op' (fold step ops1 (step op g)) s" by blast
    then show ?thesis by (intro exI [of _ "op # ops1"]) auto
  qed
qed simp

end

section \<open>JavaScript sets in insertion order\<close>

definition js_add :: "'a \<Rightarrow> 'a list \<Rightarrow> 'a list" where
  "js_add x xs = (if x \<in> set xs then xs else xs @ [x])"

lemma set_js_add [simp]: "set (js_add x xs) = insert x (set xs)"
  by (auto simp: js_add_def)

lemma distinct_js_add [simp]: "distinct xs \<Longrightarrow> distinct (js_add x xs)"
  by (simp add: js_add_def)

section \<open>JavaScript arrays\<close>

text \<open>\<open>findIndex\<close> (none where the code has -1), \<open>filter((_, i) => i !== k)\<close>, and the values that are there.\<close>

fun findIndex :: "('a \<Rightarrow> bool) \<Rightarrow> 'a list \<Rightarrow> nat option" where
  "findIndex P [] = None"
| "findIndex P (x # xs) = (if P x then Some 0 else map_option Suc (findIndex P xs))"

definition drop_nth :: "nat \<Rightarrow> 'a list \<Rightarrow> 'a list" where
  "drop_nth k xs = take k xs @ drop (Suc k) xs"

definition somes :: "'a option list \<Rightarrow> 'a list" where
  "somes xs = map the (filter (\<lambda>x. x \<noteq> None) xs)"

lemma findIndex_Some: "findIndex P xs = Some k \<Longrightarrow> k < length xs \<and> P (xs ! k) \<and> (\<forall>j < k. \<not> P (xs ! j))"
proof (induction xs arbitrary: k)
  case (Cons x xs)
  show ?case
  proof (cases "P x")
    case False
    then obtain j where "findIndex P xs = Some j" "k = Suc j" using Cons.prems by auto
    then show ?thesis using Cons.IH False by (auto simp: nth_Cons split: nat.splits)
  qed (use Cons.prems in simp)
qed simp

lemma findIndex_None: "findIndex P xs = None \<longleftrightarrow> (\<forall>x \<in> set xs. \<not> P x)"
  by (induction xs) auto

lemma somes_Nil [simp]: "somes [] = []"
  by (simp add: somes_def)

lemma somes_Cons [simp]: "somes (x # xs) = (case x of None \<Rightarrow> somes xs | Some y \<Rightarrow> y # somes xs)"
  by (auto simp: somes_def split: option.splits)

lemma set_somes: "y \<in> set (somes xs) \<longleftrightarrow> Some y \<in> set xs"
  by (induction xs) (auto split: option.splits)

lemma somes_append [simp]: "somes (xs @ ys) = somes xs @ somes ys"
  by (simp add: somes_def)

lemma drop_nth_length: "k < length xs \<Longrightarrow> length (drop_nth k xs) = length xs - 1"
  by (simp add: drop_nth_def)

lemma set_drop_nth: "set (drop_nth k xs) \<subseteq> set xs"
  by (auto simp: drop_nth_def dest: in_set_takeD in_set_dropD)

section \<open>JavaScript strings\<close>

text \<open>
  Strings are lists of \<open>char\<close>. Only ASCII text matters to the functions below: \<open>startsWith\<close>,
  \<open>endsWith\<close>, \<open>split\<close> and \<open>join\<close> on a one-character separator, and \<open>toLowerCase\<close>, which
  is modelled on the ASCII letters.
\<close>

definition js_starts_with :: "string \<Rightarrow> string \<Rightarrow> bool" where
  "js_starts_with p s = (take (length p) s = p)"

definition js_ends_with :: "string \<Rightarrow> string \<Rightarrow> bool" where
  "js_ends_with p s = (length p \<le> length s \<and> drop (length s - length p) s = p)"

fun js_split :: "char \<Rightarrow> string \<Rightarrow> string list" where
  "js_split c [] = [[]]"
| "js_split c (x # xs) =
     (if x = c then [] # js_split c xs
      else (case js_split c xs of [] \<Rightarrow> [[x]] | s # ss \<Rightarrow> (x # s) # ss))"

fun js_join :: "char \<Rightarrow> string list \<Rightarrow> string" where
  "js_join c [] = []"
| "js_join c [s] = s"
| "js_join c (s # ss) = s @ c # js_join c ss"

definition to_lower_char :: "char \<Rightarrow> char" where
  "to_lower_char c =
     (let n = of_char c :: nat in if 65 \<le> n \<and> n \<le> 90 then char_of (n + 32) else c)"

definition to_lower :: "string \<Rightarrow> string" where
  "to_lower s = map to_lower_char s"

lemma js_split_not_Nil [simp]: "js_split c s \<noteq> []"
  by (induction s) (auto split: list.splits)

lemma js_join_split: "js_join c (js_split c s) = s"
proof (induction s)
  case Nil
  show ?case by simp
next
  case (Cons x xs)
  obtain t ts where t: "js_split c xs = t # ts"
    by (cases "js_split c xs") auto
  with Cons.IH show ?case by (cases ts) auto
qed

lemma js_ends_with_iff: "js_ends_with p s \<longleftrightarrow> (\<exists>u. s = u @ p)"
  by (auto simp: js_ends_with_def) (metis append_take_drop_id)

lemma length_to_lower [simp]: "length (to_lower s) = length s"
  by (simp add: to_lower_def)

lemma to_lower_char_idem [simp]: "to_lower_char (to_lower_char c) = to_lower_char c"
proof (cases "65 \<le> (of_char c :: nat) \<and> (of_char c :: nat) \<le> 90")
  case True
  then have "(of_char (char_of ((of_char c :: nat) + 32)) :: nat) = of_char c + 32"
    by (simp add: of_char_of)
  with True show ?thesis by (simp add: to_lower_char_def Let_def)
next
  case False
  then show ?thesis by (auto simp: to_lower_char_def Let_def)
qed

lemma to_lower_idem [simp]: "to_lower (to_lower s) = to_lower s"
  by (simp add: to_lower_def)

section \<open>Decimal numerals\<close>

fun show_nat :: "nat \<Rightarrow> string" where
  "show_nat n =
     (if n < 10 then [char_of (48 + n)] else show_nat (n div 10) @ [char_of (48 + n mod 10)])"

declare show_nat.simps [simp del]

definition show_int :: "int \<Rightarrow> string" where
  "show_int i = (if i < 0 then CHR ''-'' # show_nat (nat (- i)) else show_nat (nat i))"

definition is_digit :: "char \<Rightarrow> bool" where
  "is_digit c = (48 \<le> (of_char c :: nat) \<and> (of_char c :: nat) \<le> 57)"

lemma show_nat_digits: "show_nat n \<noteq> [] \<and> (\<forall>c \<in> set (show_nat n). is_digit c)"
proof (induction n rule: show_nat.induct)
  case (1 n)
  have "is_digit (char_of (48 + k :: nat))" if "k < 10" for k
    using that by (simp add: is_digit_def)
  then show ?case using 1 by (subst (1 2) show_nat.simps) auto
qed

text \<open>\<open>ELLIPSIS\<close> stands for one character, U+2026, \<open>EM_DASH\<close> for U+2014.\<close>

definition ELLIPSIS :: char where
  "ELLIPSIS = CHR 0x85"

definition EM_DASH :: char where
  "EM_DASH = CHR 0x97"

end
