(* ===== verification/Read_Coverage.thy ===== *)
theory Read_Coverage
  imports Prelude
begin

text \<open>
  \<open>src/src/agent/progress/read-coverage.ts\<close>: which lines of a file version a turn has already
  read. A coverage set is a list of 1-based inclusive line ranges, kept sorted, disjoint and
  non-adjacent (\<open>cov_ok\<close>) by \<open>mergeRange\<close>; \<open>newlyCoveredCount\<close> counts the lines of a read
  that are not in it. Both are related to the sets of line numbers they denote.
\<close>

section \<open>Ranges and coverage\<close>

record line_range =
  rstart :: int
  rend :: int

record read_observation =
  ro_path :: string
  ro_contentHash :: string
  ro_span :: "line_range option"
  ro_totalLines :: int
  ro_numbered :: bool
  ro_truncated :: bool

fun newly_covered_loop :: "line_range list \<Rightarrow> line_range \<Rightarrow> int \<Rightarrow> int" where
  "newly_covered_loop [] span fresh = fresh"
| "newly_covered_loop (r # rs) span fresh =
     (if rend r < rstart span then newly_covered_loop rs span fresh
      else if rstart r > rend span then fresh
      else newly_covered_loop rs span
             (fresh - (min (rend r) (rend span) - max (rstart r) (rstart span) + 1)))"

definition newlyCoveredCount :: "line_range list \<Rightarrow> line_range \<Rightarrow> int" where
  "newlyCoveredCount covered span =
     max 0 (newly_covered_loop covered span (rend span - rstart span + 1))"

text \<open>The loop of \<open>mergeRange\<close>: the ranges pushed so far, the current range, \<open>inserted\<close>.\<close>

fun merge_range_loop ::
  "line_range list \<Rightarrow> line_range list \<Rightarrow> line_range \<Rightarrow> bool \<Rightarrow> line_range list" where
  "merge_range_loop [] merged current inserted =
     (if inserted then merged else merged @ [current])"
| "merge_range_loop (r # rs) merged current inserted =
     (if rend r + 1 < rstart current then merge_range_loop rs (merged @ [r]) current inserted
      else if rstart r > rend current + 1 then
        (if inserted then merge_range_loop rs (merged @ [r]) current True
         else merge_range_loop rs (merged @ [current, r]) current True)
      else merge_range_loop rs merged
             \<lparr>rstart = min (rstart current) (rstart r), rend = max (rend current) (rend r)\<rparr>
             inserted)"

definition mergeRange :: "line_range list \<Rightarrow> line_range \<Rightarrow> line_range list" where
  "mergeRange covered span = sort_key rstart (merge_range_loop covered [] span False)"

text \<open>The ellipsis of \<open>describeCoverage\<close> is one character, here its UTF-8 bytes.\<close>

definition ellipsis :: string where
  "ellipsis = [CHR 0xE2, CHR 0x80, CHR 0xA6]"

definition show_range :: "line_range \<Rightarrow> string" where
  "show_range r =
     (if rstart r = rend r then show_int (rstart r)
      else show_int (rstart r) @ ''-'' @ show_int (rend r))"

fun join_comma :: "string list \<Rightarrow> string" where
  "join_comma [] = []"
| "join_comma [s] = s"
| "join_comma (s # ss) = s @ '', '' @ join_comma ss"

definition describeCoverage :: "line_range list \<Rightarrow> nat \<Rightarrow> string" where
  "describeCoverage covered maxRanges =
     (if covered = [] then []
      else let shown = join_comma (map show_range (take maxRanges covered))
           in if maxRanges < length covered
              then shown @ '', '' @ ellipsis @ '' ('' @
                   show_nat (length covered - maxRanges) @ '' more)''
              else shown)"

section \<open>The sets of lines they denote\<close>

definition lines_of :: "line_range \<Rightarrow> int set" where
  "lines_of r = {rstart r .. rend r}"

definition covered_lines :: "line_range list \<Rightarrow> int set" where
  "covered_lines rs = (\<Union>r \<in> set rs. lines_of r)"

definition range_ok :: "line_range \<Rightarrow> bool" where
  "range_ok r \<longleftrightarrow> rstart r \<le> rend r"

definition before_gap :: "line_range \<Rightarrow> line_range \<Rightarrow> bool" where
  "before_gap a b \<longleftrightarrow> rend a + 1 < rstart b"

definition cov_ok :: "line_range list \<Rightarrow> bool" where
  "cov_ok rs \<longleftrightarrow> (\<forall>r \<in> set rs. range_ok r) \<and> sorted_wrt before_gap rs"

lemma covered_lines_simps [simp]:
  "covered_lines [] = {}"
  "covered_lines (r # rs) = lines_of r \<union> covered_lines rs"
  "covered_lines (xs @ ys) = covered_lines xs \<union> covered_lines ys"
  by (auto simp: covered_lines_def)

lemma cov_ok_simps [simp]:
  "cov_ok []"
  "cov_ok (r # rs) \<longleftrightarrow> range_ok r \<and> (\<forall>x \<in> set rs. before_gap r x) \<and> cov_ok rs"
  by (auto simp: cov_ok_def)

lemma cov_ok_append:
  "cov_ok (xs @ ys) \<longleftrightarrow> cov_ok xs \<and> cov_ok ys \<and> (\<forall>x \<in> set xs. \<forall>y \<in> set ys. before_gap x y)"
  by (auto simp: cov_ok_def sorted_wrt_append)

lemma finite_lines_of [simp]: "finite (lines_of r)"
  by (simp add: lines_of_def)

lemma finite_covered_lines [simp]: "finite (covered_lines rs)"
  by (simp add: covered_lines_def)

lemma cov_ok_sorted: "cov_ok rs \<Longrightarrow> sorted (map rstart rs)"
proof (induction rs)
  case (Cons r rs)
  then have "\<forall>x \<in> set rs. rstart r \<le> rstart x"
    by (force simp: before_gap_def range_ok_def)
  with Cons show ?case by simp
qed simp

subsection \<open>Merging\<close>

lemma lines_of_hull:
  assumes "range_ok a" and "range_ok b"
    and "\<not> rend b + 1 < rstart a" and "\<not> rstart b > rend a + 1"
  shows "lines_of \<lparr>rstart = min (rstart a) (rstart b), rend = max (rend a) (rend b)\<rparr>
           = lines_of a \<union> lines_of b"
  using assms by (auto simp: lines_of_def range_ok_def min_def max_def)

lemma merge_loop_tail:
  assumes "cov_ok rs" and "\<forall>x \<in> set rs. before_gap c x" and "range_ok c"
  shows "merge_range_loop rs m c True = m @ rs"
  using assms
proof (induction rs arbitrary: m)
  case (Cons r rs)
  then have "\<not> rend r + 1 < rstart c" and "rstart r > rend c + 1"
    by (auto simp: before_gap_def range_ok_def)
  with Cons show ?case by auto
qed simp

text \<open>
  While nothing is inserted, what is pushed lies before the current range with a gap; the
  loop then gives a well-formed list that denotes the union.
\<close>

lemma merge_loop_spec:
  assumes "cov_ok (m @ rs)" and "range_ok c" and "\<forall>x \<in> set m. before_gap x c"
  shows "cov_ok (merge_range_loop rs m c False) \<and>
         covered_lines (merge_range_loop rs m c False) =
           covered_lines m \<union> lines_of c \<union> covered_lines rs"
  using assms
proof (induction rs arbitrary: m c)
  case Nil
  then show ?case by (auto simp: cov_ok_append)
next
  case (Cons r rs)
  from Cons.prems have r: "range_ok r" and gap: "\<forall>x \<in> set rs. before_gap r x"
    and ok: "cov_ok m" "cov_ok rs" and mr: "\<forall>x \<in> set m. before_gap x r"
    and mrs: "\<forall>x \<in> set m. \<forall>y \<in> set rs. before_gap x y"
    by (auto simp: cov_ok_append)
  consider (below) "rend r + 1 < rstart c"
    | (above) "\<not> rend r + 1 < rstart c" "rstart r > rend c + 1"
    | (touch) "\<not> rend r + 1 < rstart c" "\<not> rstart r > rend c + 1"
    by blast
  then show ?case
  proof cases
    case below
    have "cov_ok ((m @ [r]) @ rs)" using Cons.prems(1) by simp
    moreover have "\<forall>x \<in> set (m @ [r]). before_gap x c"
      using Cons.prems(3) below by (auto simp: before_gap_def)
    ultimately have "cov_ok (merge_range_loop rs (m @ [r]) c False) \<and>
        covered_lines (merge_range_loop rs (m @ [r]) c False) =
          covered_lines (m @ [r]) \<union> lines_of c \<union> covered_lines rs"
      using Cons.IH [of "m @ [r]" c] Cons.prems(2) by blast
    with below show ?thesis by auto
  next
    case above
    have cgap: "\<forall>x \<in> set rs. before_gap c x"
      using above gap r by (force simp: before_gap_def range_ok_def)
    have eq: "merge_range_loop (r # rs) m c False = m @ [c, r] @ rs"
      using above merge_loop_tail [OF ok(2) cgap Cons.prems(2), of "m @ [c, r]"] by simp
    have "before_gap c r" using above by (simp add: before_gap_def)
    then show ?thesis
      unfolding eq using Cons.prems cgap gap ok r mr mrs by (auto simp: cov_ok_append)
  next
    case touch
    let ?h = "\<lparr>rstart = min (rstart c) (rstart r), rend = max (rend c) (rend r)\<rparr>"
    have "range_ok ?h" using Cons.prems(2) r by (auto simp: range_ok_def)
    moreover have "\<forall>x \<in> set m. before_gap x ?h"
      using Cons.prems(3) mr by (auto simp: before_gap_def)
    moreover have "cov_ok (m @ rs)" using ok mrs by (simp add: cov_ok_append)
    ultimately have "cov_ok (merge_range_loop rs m ?h False) \<and>
        covered_lines (merge_range_loop rs m ?h False) =
          covered_lines m \<union> lines_of ?h \<union> covered_lines rs"
      using Cons.IH [of m ?h] by blast
    with touch show ?thesis
      using lines_of_hull [OF Cons.prems(2) r touch] by auto
  qed
qed

lemma mergeRange_spec:
  assumes "cov_ok covered" and "range_ok span"
  shows "cov_ok (mergeRange covered span)"
    and "covered_lines (mergeRange covered span) = covered_lines covered \<union> lines_of span"
proof -
  let ?m = "merge_range_loop covered [] span False"
  have *: "cov_ok ?m" "covered_lines ?m = lines_of span \<union> covered_lines covered"
    using merge_loop_spec [of "[]" covered span] assms by auto
  have "mergeRange covered span = ?m"
    by (simp add: mergeRange_def sort_key_id_if_sorted cov_ok_sorted [OF *(1)])
  with * show "cov_ok (mergeRange covered span)"
    and "covered_lines (mergeRange covered span) = covered_lines covered \<union> lines_of span"
    by auto
qed

subsection \<open>Counting\<close>

lemma lines_of_disjoint: "before_gap a b \<Longrightarrow> range_ok a \<Longrightarrow> range_ok b \<Longrightarrow> lines_of a \<inter> lines_of b = {}"
  by (auto simp: lines_of_def before_gap_def range_ok_def)

lemma card_lines_of: "rstart r \<le> rend r + 1 \<Longrightarrow> int (card (lines_of r)) = rend r - rstart r + 1"
  by (simp add: lines_of_def)

lemma newly_covered_loop_spec:
  assumes "cov_ok rs" and "range_ok span"
  shows "newly_covered_loop rs span n = n - int (card (lines_of span \<inter> covered_lines rs))"
  using assms(1)
proof (induction rs arbitrary: n)
  case Nil
  then show ?case by simp
next
  case (Cons r rs)
  from Cons.prems have r: "range_ok r" and gap: "\<forall>x \<in> set rs. before_gap r x"
    and ok: "cov_ok rs" by auto
  have disj: "lines_of r \<inter> covered_lines rs = {}"
    using gap r ok by (fastforce simp: covered_lines_def cov_ok_def dest: lines_of_disjoint)
  have split: "card (lines_of span \<inter> covered_lines (r # rs)) =
      card (lines_of span \<inter> lines_of r) + card (lines_of span \<inter> covered_lines rs)"
    using disj by (subst card_Un_disjoint [symmetric]) (auto simp: Int_Un_distrib)
  consider (below) "rend r < rstart span" | (above) "rend r \<ge> rstart span" "rstart r > rend span"
    | (overlap) "rend r \<ge> rstart span" "rstart r \<le> rend span" by linarith
  then show ?case
  proof cases
    case below
    then have "lines_of span \<inter> lines_of r = {}" by (auto simp: lines_of_def)
    with below Cons.IH [OF ok] split show ?thesis by simp
  next
    case above
    then have "lines_of span \<inter> lines_of r = {}" by (auto simp: lines_of_def)
    moreover have "lines_of span \<inter> covered_lines rs = {}"
      using above gap r by (fastforce simp: lines_of_def covered_lines_def before_gap_def range_ok_def)
    ultimately show ?thesis using above split by simp
  next
    case overlap
    have "lines_of span \<inter> lines_of r =
        {max (rstart r) (rstart span) .. min (rend r) (rend span)}"
      by (auto simp: lines_of_def)
    moreover have "max (rstart r) (rstart span) \<le> min (rend r) (rend span) + 1"
      using overlap r assms(2) by (auto simp: range_ok_def)
    ultimately have "int (card (lines_of span \<inter> lines_of r)) =
        min (rend r) (rend span) - max (rstart r) (rstart span) + 1" by (simp add: max_def)
    with overlap Cons.IH [OF ok] split show ?thesis by simp
  qed
qed

lemma newlyCoveredCount_card:
  assumes "cov_ok covered" and "range_ok span"
  shows "newlyCoveredCount covered span = int (card (lines_of span - covered_lines covered))"
proof -
  have "card (lines_of span) = card (lines_of span \<inter> covered_lines covered) +
      card (lines_of span - covered_lines covered)"
    by (subst card_Un_disjoint [symmetric]) (auto simp: Int_Diff_Un)
  then show ?thesis
    using newly_covered_loop_spec [OF assms] card_lines_of [of span] assms(2)
    by (simp add: newlyCoveredCount_def range_ok_def)
qed

lemma newlyCoveredCount_zero_iff:
  assumes "cov_ok covered" and "range_ok span"
  shows "newlyCoveredCount covered span = 0 \<longleftrightarrow> lines_of span \<subseteq> covered_lines covered"
  by (simp add: newlyCoveredCount_card [OF assms] card_eq_0_iff)

lemma newlyCoveredCount_nonneg: "0 \<le> newlyCoveredCount covered span"
  by (simp add: newlyCoveredCount_def)

end
