(* ===== verification/Wandering_Spread.thy ===== *)
theory Wandering_Spread
  imports Prelude "HOL-Library.Multiset"
begin

text \<open>
  \<open>src/src/agent/progress/wandering-spread.ts\<close>: the probe runs of the wandering detector. A run
  holds the distinct call signatures of one probing tool since a successful call of another
  family settled it, each tagged with the model step (round) that made it. The round key is the
  string \<open>solo:n\<close> or \<open>step:n\<close> in the code, a datatype here.
\<close>

datatype round_key = Solo nat | Step nat

definition probeFamily :: "string \<Rightarrow> string option" where
  "probeFamily tool =
     (if tool = ''os.web.search'' then Some ''search''
      else if tool = ''os.web.fetch'' \<or> tool = ''os.http.request'' then Some ''fetch''
      else if js_starts_with ''browser.'' tool then Some ''browser''
      else None)"

type_synonym run = "(string, round_key) jsmap"

record probe_runs =
  pr_runs :: "(string, run) jsmap"
  pr_nextSoloRound :: nat
  pr_progress :: "string list"

definition emptyProbeRuns :: probe_runs where
  "emptyProbeRuns = \<lparr>pr_runs = [], pr_nextSoloRound = 0, pr_progress = []\<rparr>"

definition probe_record ::
  "string \<Rightarrow> string \<Rightarrow> bool \<Rightarrow> nat option \<Rightarrow> probe_runs \<Rightarrow> probe_runs" where
  "probe_record tool argsHash ok round p =
     (let p1 = (if ok then p\<lparr>pr_progress := js_add tool (pr_progress p)\<rparr> else p)
      in if probeFamily tool = None then p1
         else let roundKey = (case round of None \<Rightarrow> Solo (pr_nextSoloRound p1) | Some r \<Rightarrow> Step r);
                  p2 = (if round = None then p1\<lparr>pr_nextSoloRound := Suc (pr_nextSoloRound p1)\<rparr>
                        else p1)
              in (case jm_get (pr_runs p2) tool of
                    None \<Rightarrow> p2\<lparr>pr_runs := jm_set tool [(argsHash, roundKey)] (pr_runs p2)\<rparr>
                  | Some run \<Rightarrow>
                      if jm_has run argsHash then p2
                      else p2\<lparr>pr_runs := jm_set tool (jm_set argsHash roundKey run) (pr_runs p2)\<rparr>))"

definition applyProgress :: "probe_runs \<Rightarrow> probe_runs" where
  "applyProgress p =
     (if pr_progress p = [] then p
      else p\<lparr>pr_runs := filter (\<lambda>q. \<not> (\<exists>done \<in> set (pr_progress p).
                                         probeFamily done \<noteq> probeFamily (fst q))) (pr_runs p),
             pr_progress := []\<rparr>)"

definition run_spread :: "run option \<Rightarrow> string \<Rightarrow> nat" where
  "run_spread r argsHash =
     (case r of None \<Rightarrow> 1
      | Some run \<Rightarrow> if jm_has run argsHash then length run else length run + 1)"

definition run_rounds :: "run option \<Rightarrow> string \<Rightarrow> nat option \<Rightarrow> nat" where
  "run_rounds r argsHash round =
     (case r of None \<Rightarrow> 1
      | Some run \<Rightarrow>
          let seen = remdups (map snd run)
          in if jm_has run argsHash then length seen
             else (case round of
                     Some n \<Rightarrow> if Step n \<in> set seen then length seen else length seen + 1
                   | None \<Rightarrow> length seen + 1))"

text \<open>\<open>spread\<close> and \<open>rounds\<close> settle the finished runs first, so each returns the new state.\<close>

definition probe_spread :: "string \<Rightarrow> string \<Rightarrow> probe_runs \<Rightarrow> probe_runs \<times> nat" where
  "probe_spread tool argsHash p =
     (let p' = applyProgress p in (p', run_spread (jm_get (pr_runs p') tool) argsHash))"

definition probe_rounds :: "string \<Rightarrow> string \<Rightarrow> nat option \<Rightarrow> probe_runs \<Rightarrow> probe_runs \<times> nat" where
  "probe_rounds tool argsHash round p =
     (let p' = applyProgress p in (p', run_rounds (jm_get (pr_runs p') tool) argsHash round))"

section \<open>Well-formed runs\<close>

definition runs_ok :: "probe_runs \<Rightarrow> bool" where
  "runs_ok p \<longleftrightarrow> jm_ok (pr_runs p) \<and> (\<forall>q \<in> set (pr_runs p). jm_ok (snd q) \<and> snd q \<noteq> []) \<and>
     distinct (pr_progress p)"

lemma set_jm_set_subset: "set (jm_set k v m) \<subseteq> insert (k, v) (set m)"
  by (induction k v m rule: jm_set.induct) auto

lemma jm_set_not_Nil [simp]: "jm_set k v m \<noteq> []"
  by (induction k v m rule: jm_set.induct) auto

lemma runs_ok_empty: "runs_ok emptyProbeRuns"
  by (simp add: runs_ok_def emptyProbeRuns_def)

lemma runs_ok_set:
  assumes "runs_ok p" and "jm_ok run" and "run \<noteq> []"
  shows "runs_ok (p\<lparr>pr_runs := jm_set tool run (pr_runs p)\<rparr>)"
  using assms set_jm_set_subset [of tool run "pr_runs p"] by (auto simp: runs_ok_def)

lemma runs_ok_get: "runs_ok p \<Longrightarrow> jm_get (pr_runs p) t = Some run \<Longrightarrow> jm_ok run \<and> run \<noteq> []"
  by (auto simp: runs_ok_def dest!: jm_get_Some_in)

lemma runs_ok_record:
  assumes "runs_ok p"
  shows "runs_ok (probe_record tool h ok round p)"
proof -
  let ?p1 = "if ok then p\<lparr>pr_progress := js_add tool (pr_progress p)\<rparr> else p"
  let ?p2 = "if round = None then ?p1\<lparr>pr_nextSoloRound := Suc (pr_nextSoloRound ?p1)\<rparr> else ?p1"
  have 1: "runs_ok ?p1" and 2: "runs_ok ?p2" using assms by (auto simp: runs_ok_def)
  have fresh: "runs_ok (?p2\<lparr>pr_runs := jm_set tool [(h, rk)] (pr_runs ?p2)\<rparr>)" for rk
    by (rule runs_ok_set [OF 2]) auto
  have more: "runs_ok (?p2\<lparr>pr_runs := jm_set tool (jm_set h rk run) (pr_runs ?p2)\<rparr>)"
    if "jm_get (pr_runs ?p2) tool = Some run" for rk run
    by (rule runs_ok_set [OF 2]) (use runs_ok_get [OF 2 that] in auto)
  show ?thesis
    using 1 2 fresh more
    by (auto simp: probe_record_def Let_def split: option.splits if_splits)
qed

lemma runs_ok_applyProgress: "runs_ok p \<Longrightarrow> runs_ok (applyProgress p)"
  by (auto simp: runs_ok_def applyProgress_def)

lemma applyProgress_idem: "applyProgress (applyProgress p) = applyProgress p"
  by (simp add: applyProgress_def)

lemma jm_get_filter_key:
  "jm_get (filter (\<lambda>q. P (fst q)) m) k = (if P k then jm_get m k else None)"
  by (induction m) (auto simp: jm_get_def)

text \<open>A run is dropped exactly when some successful call of another family came in.\<close>

lemma applyProgress_get:
  "jm_get (pr_runs (applyProgress p)) t =
     (if \<exists>done \<in> set (pr_progress p). probeFamily done \<noteq> probeFamily t then None
      else jm_get (pr_runs p) t)"
proof (cases "pr_progress p = []")
  case True
  then show ?thesis by (simp add: applyProgress_def)
next
  case False
  let ?P = "\<lambda>k. \<not> (\<exists>done \<in> set (pr_progress p). probeFamily done \<noteq> probeFamily k)"
  have "pr_runs (applyProgress p) = filter (\<lambda>q. ?P (fst q)) (pr_runs p)"
    using False by (simp add: applyProgress_def)
  then show ?thesis using jm_get_filter_key [of ?P "pr_runs p" t] by (simp only: if_not_P if_P) auto
qed

section \<open>Rounds never exceed the spread\<close>

lemma length_remdups_snd: "length (remdups (map snd run)) \<le> length run"
  by (metis length_map length_remdups_leq)

lemma run_rounds_le_spread: "run_rounds r h round \<le> run_spread r h"
  using length_remdups_snd
  by (auto simp: run_rounds_def run_spread_def Let_def le_SucI split: option.splits)

section \<open>The order a batch resolves in does not matter\<close>

text \<open>
  Two states are alike when they hold the same runs and the same progress as maps and sets;
  the readings depend on nothing else.
\<close>

definition run_view :: "probe_runs \<Rightarrow> string \<Rightarrow> (string \<rightharpoonup> round_key) option" where
  "run_view p t = map_option jm_get (jm_get (pr_runs p) t)"

definition alike :: "probe_runs \<Rightarrow> probe_runs \<Rightarrow> bool" where
  "alike p q \<longleftrightarrow> run_view p = run_view q \<and> set (pr_progress p) = set (pr_progress q)"

lemma alike_refl: "alike p p"
  by (simp add: alike_def)

lemma alike_sym: "alike p q \<Longrightarrow> alike q p"
  by (simp add: alike_def)

lemma alike_trans: "alike p q \<Longrightarrow> alike q r \<Longrightarrow> alike p r"
  by (simp add: alike_def)

text \<open>What recording does to the view, for a call made in a known round.\<close>

lemma map_add_singleton: "[h \<mapsto> x] ++ m = (if m h = None then m(h \<mapsto> x) else m)"
  by (auto simp: fun_eq_iff map_add_def split: option.splits)

lemma jm_get_map_add: "(if jm_has run h then jm_get run else jm_get (jm_set h x run)) = [h \<mapsto> x] ++ jm_get run"
  by (auto simp: map_add_singleton jm_has_def fun_eq_iff)

definition view_add :: "string \<Rightarrow> nat \<Rightarrow> (string \<rightharpoonup> round_key) option \<Rightarrow> (string \<rightharpoonup> round_key) option" where
  "view_add h r v = Some ([h \<mapsto> Step r] ++ (case v of None \<Rightarrow> Map.empty | Some m \<Rightarrow> m))"

lemma view_add_commute: "view_add h r (view_add h' r v) = view_add h' r (view_add h r v)"
  by (auto simp: view_add_def fun_eq_iff map_add_def split: option.splits)

lemma run_view_record:
  "run_view (probe_record tool h ok (Some r) p) =
     (if probeFamily tool = None then run_view p
      else (run_view p)(tool := view_add h r (run_view p tool)))"
proof (rule ext)
  fix t
  show "run_view (probe_record tool h ok (Some r) p) t =
     (if probeFamily tool = None then run_view p
      else (run_view p)(tool := view_add h r (run_view p tool))) t"
  proof (cases "jm_get (pr_runs p) tool")
    case None
    then show ?thesis
      by (simp add: run_view_def probe_record_def Let_def view_add_def jm_get_Cons [abs_def])
         (auto simp: fun_eq_iff jm_get_Cons)
  next
    case (Some run)
    then show ?thesis
      using jm_get_map_add [of run h "Step r"]
      by (auto simp: run_view_def probe_record_def Let_def view_add_def split: if_splits)
  qed
qed

lemma progress_record:
  "set (pr_progress (probe_record tool h ok round p)) =
     (if ok then insert tool (set (pr_progress p)) else set (pr_progress p))"
  by (auto simp: probe_record_def Let_def split: option.splits)

lemma alike_record: "alike p q \<Longrightarrow> alike (probe_record t h ok (Some r) p) (probe_record t h ok (Some r) q)"
  by (simp add: alike_def run_view_record progress_record)

lemma alike_swap:
  "alike (probe_record t h ok (Some r) (probe_record t' h' ok' (Some r) p))
         (probe_record t' h' ok' (Some r) (probe_record t h ok (Some r) p))"
proof -
  have "run_view (probe_record t h ok (Some r) (probe_record t' h' ok' (Some r) p)) =
        run_view (probe_record t' h' ok' (Some r) (probe_record t h ok (Some r) p))"
    by (cases "t = t'") (simp_all add: run_view_record view_add_commute fun_upd_twist)
  then show ?thesis by (auto simp: alike_def progress_record)
qed

fun record_batch :: "nat \<Rightarrow> (string \<times> string \<times> bool) list \<Rightarrow> probe_runs \<Rightarrow> probe_runs" where
  "record_batch r [] p = p"
| "record_batch r ((t, h, ok) # cs) p = record_batch r cs (probe_record t h ok (Some r) p)"

lemma alike_batch: "alike p q \<Longrightarrow> alike (record_batch r cs p) (record_batch r cs q)"
  by (induction r cs p arbitrary: q rule: record_batch.induct) (simp_all add: alike_record)

lemma record_batch_append: "record_batch r (cs @ ds) p = record_batch r ds (record_batch r cs p)"
  by (induction r cs p rule: record_batch.induct) auto

lemma batch_move: "alike (record_batch r (cs @ [c]) p) (record_batch r (c # cs) p)"
proof (induction cs arbitrary: p)
  case Nil
  show ?case by (simp add: alike_refl)
next
  case (Cons d cs)
  obtain t h ok t' h' ok' where c: "c = (t, h, ok)" and d: "d = (t', h', ok')"
    by (cases c, cases d) auto
  have "alike (record_batch r ((d # cs) @ [c]) p)
          (record_batch r (c # cs) (probe_record t' h' ok' (Some r) p))"
    using Cons.IH [of "probe_record t' h' ok' (Some r) p"] d by simp
  moreover have "alike (record_batch r (c # cs) (probe_record t' h' ok' (Some r) p))
          (record_batch r (c # d # cs) p)"
    using c d by (auto intro!: alike_batch alike_swap)
  ultimately show ?case by (rule alike_trans)
qed

lemma batch_perm: "mset cs = mset ds \<Longrightarrow> alike (record_batch r cs p) (record_batch r ds p)"
proof (induction cs arbitrary: ds p)
  case Nil
  then show ?case by (simp add: alike_refl)
next
  case (Cons c cs)
  then have "c \<in> set ds" by (metis list.set_intros(1) set_mset_mset)
  then obtain d1 d2 where ds: "ds = d1 @ c # d2" by (meson split_list)
  with Cons.prems have "mset cs = mset (d1 @ d2)" by simp
  obtain t h ok where c: "c = (t, h, ok)" by (cases c) auto
  have "alike (record_batch r (c # cs) p) (record_batch r (c # d1 @ d2) p)"
    using Cons.IH [OF \<open>mset cs = mset (d1 @ d2)\<close>] c by simp
  moreover have "alike (record_batch r (c # d1) p) (record_batch r (d1 @ [c]) p)"
    by (rule alike_sym [OF batch_move])
  then have "alike (record_batch r (c # d1 @ d2) p) (record_batch r ds p)"
    using alike_batch [of _ _ r d2] record_batch_append [of r "c # d1" d2 p]
      record_batch_append [of r "d1 @ [c]" d2 p] ds by simp
  ultimately show ?case by (rule alike_trans)
qed

lemma alike_applyProgress: "alike p q \<Longrightarrow> run_view (applyProgress p) = run_view (applyProgress q)"
  by (auto simp: alike_def run_view_def applyProgress_get fun_eq_iff)

text \<open>The readings only look at the view of the run.\<close>

lemma run_spread_view:
  assumes "jm_ok r1" and "jm_ok r2" and "jm_get r1 = jm_get r2"
  shows "run_spread (Some r1) h = run_spread (Some r2) h"
  using js_map.size_cong [OF assms] assms(3) by (simp add: run_spread_def jm_has_def)

lemma rounds_set: "jm_ok r \<Longrightarrow> set (map snd r) = ran (jm_get r)"
  by (simp add: jm_get_map_of jm_ok_def ran_distinct)

lemma run_rounds_view:
  assumes "jm_ok r1" and "jm_ok r2" and "jm_get r1 = jm_get r2"
  shows "run_rounds (Some r1) h n = run_rounds (Some r2) h n"
proof -
  have "set (map snd r1) = set (map snd r2)"
    using assms by (simp add: rounds_set del: set_map)
  then have "length (remdups (map snd r1)) = length (remdups (map snd r2))"
    by (metis length_remdups_card_conv)
  moreover have "set (remdups (map snd r1)) = set (remdups (map snd r2))"
    using \<open>set (map snd r1) = set (map snd r2)\<close> by simp
  ultimately show ?thesis
    using assms(3) unfolding run_rounds_def Let_def jm_has_def by (simp split: option.splits)
qed

lemma alike_runs:
  assumes "alike p q" and "runs_ok p" and "runs_ok q"
  shows "(jm_get (pr_runs (applyProgress p)) t = None \<and> jm_get (pr_runs (applyProgress q)) t = None)
    \<or> (\<exists>r1 r2. jm_get (pr_runs (applyProgress p)) t = Some r1 \<and>
          jm_get (pr_runs (applyProgress q)) t = Some r2 \<and>
          jm_ok r1 \<and> jm_ok r2 \<and> jm_get r1 = jm_get r2)"
proof -
  have v: "map_option jm_get (jm_get (pr_runs (applyProgress p)) t) =
      map_option jm_get (jm_get (pr_runs (applyProgress q)) t)"
    using alike_applyProgress [OF assms(1)] by (simp add: run_view_def fun_eq_iff)
  then show ?thesis
    using runs_ok_get [OF runs_ok_applyProgress [OF assms(2)]]
      runs_ok_get [OF runs_ok_applyProgress [OF assms(3)]]
    by (cases "jm_get (pr_runs (applyProgress p)) t";
        cases "jm_get (pr_runs (applyProgress q)) t") auto
qed

lemma alike_readings:
  assumes "alike p q" and "runs_ok p" and "runs_ok q"
  shows "snd (probe_spread t h p) = snd (probe_spread t h q)"
    and "snd (probe_rounds t h n p) = snd (probe_rounds t h n q)"
proof -
  let ?p = "jm_get (pr_runs (applyProgress p)) t" and ?q = "jm_get (pr_runs (applyProgress q)) t"
  have "run_spread ?p h = run_spread ?q h \<and> run_rounds ?p h n = run_rounds ?q h n"
    using alike_runs [OF assms, of t]
  proof (elim disjE exE conjE)
    fix r1 r2
    assume "?p = Some r1" "?q = Some r2" "jm_ok r1" "jm_ok r2" "jm_get r1 = jm_get r2"
    then show ?thesis by (simp add: run_spread_view [of r1 r2] run_rounds_view [of r1 r2])
  qed simp
  then show "snd (probe_spread t h p) = snd (probe_spread t h q)"
    and "snd (probe_rounds t h n p) = snd (probe_rounds t h n q)"
    by (simp_all add: probe_spread_def probe_rounds_def Let_def)
qed

lemma runs_ok_batch: "runs_ok p \<Longrightarrow> runs_ok (record_batch r cs p)"
  by (induction r cs p rule: record_batch.induct) (auto simp: runs_ok_record)

end
