(* ===== verification/Fingerprints.thy ===== *)
theory Fingerprints
  imports Prelude "HOL-Library.Multiset" "HOL-Library.List_Lexorder" "HOL-Library.Char_ord"
begin

text \<open>
  JSON values as the tool calls carry them, tool results, and
  \<open>src/src/agent/progress/loop-fingerprints.ts\<close>: the canonical serialisation and the hashes the
  loop detectors compare. Numbers are the integers (a fractional number is not represented).
  \<open>sha\<close> stands for the truncated SHA-1 digest of \<open>node:crypto\<close>, a parameter throughout:
  nothing here relies on more than that it is a function.
\<close>

datatype json =
    JUndefined
  | JNull
  | JBool bool
  | JNum int
  | JStr string
  | JArr "json list"
  | JObj "(string \<times> json) list"

datatype result_status = StOk | StError

record compressed_result =
  cr_tool :: string
  cr_status :: result_status
  cr_summary :: string
  cr_details :: "(string \<times> json) list"
  cr_truncated :: bool

definition json_field :: "json \<Rightarrow> string \<Rightarrow> json" where
  "json_field v key =
     (case v of JObj es \<Rightarrow> (case map_of es key of None \<Rightarrow> JUndefined | Some w \<Rightarrow> w) | _ \<Rightarrow> JUndefined)"

definition stringField :: "json \<Rightarrow> string \<Rightarrow> string option" where
  "stringField v key =
     (case json_field v key of JStr s \<Rightarrow> if s = [] then None else Some s | _ \<Rightarrow> None)"

section \<open>Strings and their JSON form\<close>

definition hex_digit :: "nat \<Rightarrow> char" where
  "hex_digit n = (if n < 10 then char_of (48 + n) else char_of (87 + n))"

definition json_escape :: "char \<Rightarrow> string" where
  "json_escape c =
     (let n = of_char c :: nat in
      if n = 34 then [char_of (92 :: nat), char_of (34 :: nat)]
      else if n = 92 then [char_of (92 :: nat), char_of (92 :: nat)]
      else if n = 8 then [char_of (92 :: nat), CHR ''b'']
      else if n = 12 then [char_of (92 :: nat), CHR ''f'']
      else if n = 10 then [char_of (92 :: nat), CHR ''n'']
      else if n = 13 then [char_of (92 :: nat), CHR ''r'']
      else if n = 9 then [char_of (92 :: nat), CHR ''t'']
      else if n < 32 then
        [char_of (92 :: nat), CHR ''u'', CHR ''0'', CHR ''0'', hex_digit (n div 16), hex_digit (n mod 16)]
      else [c])"

definition json_quote :: "string \<Rightarrow> string" where
  "json_quote s = char_of (34 :: nat) # concat (map json_escape s) @ [char_of (34 :: nat)]"

definition is_space :: "char \<Rightarrow> bool" where
  "is_space c = ((of_char c :: nat) \<in> {9, 10, 11, 12, 13, 32})"

definition js_trim :: "string \<Rightarrow> string" where
  "js_trim s = rev (dropWhile is_space (rev (dropWhile is_space s)))"

text \<open>\<open>replace(/\s+/g, " ")\<close>: the flag says the previous character was white space.\<close>

fun collapse_ws :: "bool \<Rightarrow> string \<Rightarrow> string" where
  "collapse_ws inWs [] = []"
| "collapse_ws inWs (c # cs) =
     (if is_space c then (if inWs then collapse_ws True cs else CHR '' '' # collapse_ws True cs)
      else c # collapse_ws False cs)"

section \<open>Canonical JSON\<close>

definition joined :: "string \<Rightarrow> string list \<Rightarrow> string" where
  "joined sep ss = (case ss of [] \<Rightarrow> [] | s # rest \<Rightarrow> s @ concat (map (\<lambda>t. sep @ t) rest))"

fun canonicalJson :: "json \<Rightarrow> string" where
  "canonicalJson JUndefined = ''null''"
| "canonicalJson JNull = ''null''"
| "canonicalJson (JBool b) = (if b then ''true'' else ''false'')"
| "canonicalJson (JNum n) = show_int n"
| "canonicalJson (JStr s) = json_quote s"
| "canonicalJson (JArr vs) = ''['' @ joined '','' (map canonicalJson vs) @ '']''"
| "canonicalJson (JObj es) =
     (let entries = filter (\<lambda>(k, u, t). \<not> u) (map (\<lambda>(k, v). (k, v = JUndefined, canonicalJson v)) es);
          body = map (\<lambda>(k, u, t). json_quote k @ '':'' @ t) (sort_key fst entries)
      in ''{'' @ joined '','' body @ ''}'')"

definition hashCanonical :: "(string \<Rightarrow> string) \<Rightarrow> json \<Rightarrow> string" where
  "hashCanonical sha v = sha (canonicalJson v)"

definition hashToolCall :: "(string \<Rightarrow> string) \<Rightarrow> string \<Rightarrow> json \<Rightarrow> string" where
  "hashToolCall sha tool args = tool @ '':'' @ hashCanonical sha args"

section \<open>Outcomes\<close>

definition LOOP_VETO_DENIED_REASON :: string where
  "LOOP_VETO_DENIED_REASON = ''tool-loop''"

definition OUTCOME_FINGERPRINT_CHARS :: nat where
  "OUTCOME_FINGERPRINT_CHARS = 200"

definition WRITE_TOOLS :: "string list" where
  "WRITE_TOOLS =
     [''os.fs.write'', ''os.fs.edit'', ''os.fs.patch'', ''os.fs.restore'', ''os.fs.move'']"

definition isSuccessfulWrite :: "string \<Rightarrow> compressed_result \<Rightarrow> bool" where
  "isSuccessfulWrite tool result = (tool \<in> set WRITE_TOOLS \<and> cr_status result = StOk)"

definition status_text :: "result_status \<Rightarrow> string" where
  "status_text s = (case s of StOk \<Rightarrow> ''ok'' | StError \<Rightarrow> ''error'')"

definition fingerprintToolOutcome :: "string \<Rightarrow> compressed_result \<Rightarrow> string" where
  "fingerprintToolOutcome tool result =
     (let head = take OUTCOME_FINGERPRINT_CHARS (js_trim (collapse_ws False (cr_summary result)))
      in tool @ ''|'' @ status_text (cr_status result) @ ''|'' @ head)"

definition isLoopVetoResult :: "compressed_result \<Rightarrow> bool" where
  "isLoopVetoResult result =
     (cr_status result = StError \<and>
      json_field (JObj (cr_details result)) ''deniedReason'' = JStr LOOP_VETO_DENIED_REASON)"

definition VOLATILE_RESULT_KEYS :: "string list" where
  "VOLATILE_RESULT_KEYS =
     [''timestamp'', ''ts'', ''date'', ''time'', ''timeTotal'', ''timeTotalSeconds'', ''durationMs'',
      ''sizeDownload'', ''requestId'', ''request_id'', ''id'', ''traceId'', ''trace_id'', ''sentAt'',
      ''createdAt'', ''deliveredAt'']"

fun stripVolatile :: "json \<Rightarrow> json" where
  "stripVolatile (JArr vs) = JArr (map stripVolatile vs)"
| "stripVolatile (JObj es) =
     JObj (filter (\<lambda>(k, v). k \<notin> set VOLATILE_RESULT_KEYS) (map (\<lambda>(k, v). (k, stripVolatile v)) es))"
| "stripVolatile v = v"

definition hashToolOutcome ::
  "(string \<Rightarrow> string) \<Rightarrow> string \<Rightarrow> json \<Rightarrow> compressed_result \<Rightarrow> string option" where
  "hashToolOutcome sha tool args result =
     (if isLoopVetoResult result then None
      else let details = JObj (cr_details result) in
        if cr_status result = StError then
          (let errorName = (case json_field details ''errorName'' of JStr s \<Rightarrow> s | _ \<Rightarrow> ''error'')
           in Some (''error:'' @ sha (errorName @ '':'' @ cr_summary result)))
        else if tool = ''os.shell.run'' then
          (let exitCode = (case json_field details ''exitCode'' of JNum n \<Rightarrow> show_int n | _ \<Rightarrow> ''null'')
           in Some (sha (''shell:'' @ exitCode @ '':'' @ cr_summary result)))
        else Some (sha (cr_summary result @ '':'' @ hashCanonical sha (stripVolatile details))))"

definition hashBatchCompositeArgs :: "(string \<Rightarrow> string) \<Rightarrow> (string \<times> json) list \<Rightarrow> string" where
  "hashBatchCompositeArgs sha calls =
     hashCanonical sha (JArr (map (\<lambda>(tool, args). JArr [JStr tool, args]) calls))"

text \<open>\<open>results[i]?.summary ?? ""\<close>: a call without a result reads as an empty error.\<close>

fun composite_rows :: "(string \<times> json) list \<Rightarrow> compressed_result list \<Rightarrow> json list" where
  "composite_rows [] rs = []"
| "composite_rows ((tool, args) # cs) [] =
     JObj [(''tool'', JStr tool), (''summary'', JStr []), (''status'', JStr ''error'')]
       # composite_rows cs []"
| "composite_rows ((tool, args) # cs) (r # rs) =
     JObj [(''tool'', JStr tool), (''summary'', JStr (cr_summary r)),
           (''status'', JStr (status_text (cr_status r)))]
       # composite_rows cs rs"

definition hashBatchCompositeResults ::
  "(string \<Rightarrow> string) \<Rightarrow> (string \<times> json) list \<Rightarrow> compressed_result list \<Rightarrow> string" where
  "hashBatchCompositeResults sha calls results = hashCanonical sha (JArr (composite_rows calls results))"

section \<open>The serialisation ignores key order and volatile fields\<close>

lemma sort_key_fst_perm:
  fixes xs ys :: "('a :: linorder \<times> 'b) list"
  assumes "mset xs = mset ys" and "distinct (map fst xs)"
  shows "sort_key fst xs = sort_key fst ys"
proof (rule map_sorted_distinct_set_unique [where f = fst])
  have "mset (map fst ys) = mset (map fst xs)" using assms(1) by simp
  then have d: "distinct (map fst ys)" using assms(2) mset_eq_imp_distinct_iff by blast
  have s: "set xs = set ys" using assms(1) by (rule mset_eq_setD)
  show "inj_on fst (set (sort_key fst xs) \<union> set (sort_key fst ys))"
    using assms(2) s by (simp add: distinct_map)
  have "mset (map fst (sort_key fst zs)) = mset (map fst zs)" for zs :: "('a \<times> 'b) list"
    by simp
  then show "distinct (map fst (sort_key fst xs))" "distinct (map fst (sort_key fst ys))"
    using assms(2) d mset_eq_imp_distinct_iff by blast+
  show "set (sort_key fst xs) = set (sort_key fst ys)" using s by simp
qed simp_all

lemma distinct_map_fst_filter: "distinct (map fst xs) \<Longrightarrow> distinct (map fst (filter P xs))"
  by (simp add: distinct_map_filter)

lemma canonicalJson_key_order:
  assumes "mset es = mset fs" and "distinct (map fst es)"
  shows "canonicalJson (JObj es) = canonicalJson (JObj fs)"
proof -
  let ?f = "map (\<lambda>(k, v). (k, v = JUndefined, canonicalJson v))"
  let ?g = "filter (\<lambda>(k :: string, u, t :: string). \<not> u)"
  have "mset (?g (?f es)) = mset (?g (?f fs))" using assms(1) by simp
  moreover have "map fst (?f es) = map fst es" by (induction es) auto
  then have "distinct (map fst (?f es))" using assms(2) by (simp only:)
  then have "distinct (map fst (?g (?f es)))" by (rule distinct_map_fst_filter)
  ultimately have "sort_key fst (?g (?f es)) = sort_key fst (?g (?f fs))"
    by (rule sort_key_fst_perm)
  then show ?thesis by (simp add: Let_def)
qed

lemma hashToolCall_key_order:
  "mset es = mset fs \<Longrightarrow> distinct (map fst es) \<Longrightarrow>
     hashToolCall sha tool (JObj es) = hashToolCall sha tool (JObj fs)"
  using canonicalJson_key_order by (metis hashToolCall_def hashCanonical_def)

text \<open>An undefined member is the same as a missing one.\<close>

lemma canonicalJson_undefined: "canonicalJson (JObj ((k, JUndefined) # es)) = canonicalJson (JObj es)"
  by simp

text \<open>A volatile member of the details never reaches the hash of a successful call.\<close>

lemma stripVolatile_drop:
  "k \<in> set VOLATILE_RESULT_KEYS \<Longrightarrow> stripVolatile (JObj ((k, v) # es)) = stripVolatile (JObj es)"
  by simp

lemma stripVolatile_idem: "stripVolatile (stripVolatile v) = stripVolatile v"
proof (induction v rule: stripVolatile.induct)
  case (2 es)
  have "filter P (map f (filter P (map f es))) = filter P (map f es)"
    if "\<And>e. e \<in> set es \<Longrightarrow> f (f e) = f e" and "\<And>e. P (f e) = P e"
    for P and f :: "string \<times> json \<Rightarrow> string \<times> json"
    using that by (induction es) auto
  from this [of "\<lambda>(k, v). (k, stripVolatile v)" "\<lambda>(k, v). k \<notin> set VOLATILE_RESULT_KEYS"] 2
  show ?case by (auto simp: case_prod_beta)
qed auto

lemma hashToolOutcome_None_iff:
  "hashToolOutcome sha tool args r = None \<longleftrightarrow> isLoopVetoResult r"
  by (simp add: hashToolOutcome_def Let_def)

end
