(* ===== verification/Mutation_Epochs.thy ===== *)
theory Mutation_Epochs
  imports Fingerprints
begin

text \<open>
  \<open>src/src/agent/progress/mutation-epochs.ts\<close>: which mutation epoch of a path a read is made
  in. Paths are compared after normalisation; the book keeps, per path, the sequence number of
  the latest attempt that opened an epoch and the failed attempts in a row. Both maps are capped
  at 200 entries, and the sequence number of an evicted path becomes a floor for every path.
\<close>

section \<open>Paths\<close>

definition MAX_TRACKED_PATHS :: nat where
  "MAX_TRACKED_PATHS = 200"

definition MAX_FAILED_EPOCHS :: nat where
  "MAX_FAILED_EPOCHS = 3"

definition MUTATING_TOOLS :: "string list" where
  "MUTATING_TOOLS =
     [''os.fs.write'', ''os.fs.edit'', ''os.fs.patch'', ''os.fs.restore'', ''os.fs.move'']"

abbreviation slash :: char where
  "slash \<equiv> CHR ''/''"

abbreviation backslash :: char where
  "backslash \<equiv> CHR 0x5C"

definition keep_tail_segment :: "string \<Rightarrow> bool" where
  "keep_tail_segment s \<longleftrightarrow> s \<noteq> ''.'' \<and> s \<noteq> []"

definition normal_segments :: "string list \<Rightarrow> string list" where
  "normal_segments segs =
     (case segs of [] \<Rightarrow> []
      | s # rest \<Rightarrow> (if s \<noteq> ''.'' then [s] else []) @ filter keep_tail_segment rest)"

definition normalizeLoopPath :: "string \<Rightarrow> string" where
  "normalizeLoopPath raw =
     (let unified = map (\<lambda>c. if c = backslash then slash else c) raw
      in to_lower (js_join slash (normal_segments (js_split slash unified))))"

definition samePathTarget :: "string \<Rightarrow> string \<Rightarrow> bool" where
  "samePathTarget a b =
     (if a = b then True
      else if a = [] \<or> b = [] then False
      else if length a < length b then js_ends_with (slash # a) b else js_ends_with (slash # b) a)"

definition readTargetPath :: "string \<Rightarrow> json \<Rightarrow> string option" where
  "readTargetPath tool args =
     (if tool \<noteq> ''os.fs.read'' then None
      else map_option normalizeLoopPath (stringField args ''path''))"

section \<open>Targets of a mutating call\<close>

datatype targets = AnyPath | Paths "string list"

text \<open>\<open>split(/\r?\n/)\<close>: a carriage return before the line feed belongs to the separator.\<close>

definition strip_cr :: "string \<Rightarrow> string" where
  "strip_cr l = (if l \<noteq> [] \<and> last l = CHR 0x0D then butlast l else l)"

definition split_lines :: "string \<Rightarrow> string list" where
  "split_lines s =
     (let ls = js_split (CHR 0x0A) s in map strip_cr (butlast ls) @ [last ls])"

text \<open>\<open>/^(?:---|\+\+\+) (.+)$/\<close>, whose dot matches no line terminator.\<close>

definition header_rest :: "string \<Rightarrow> string option" where
  "header_rest line =
     (if (js_starts_with ''--- '' line \<or> js_starts_with ''+++ '' line) \<and> drop 4 line \<noteq> [] \<and>
         CHR 0x0D \<notin> set (drop 4 line) \<and> CHR 0x0A \<notin> set (drop 4 line)
      then Some (drop 4 line) else None)"

definition is_letter :: "char \<Rightarrow> bool" where
  "is_letter c = (let n = of_char c :: nat in (65 \<le> n \<and> n \<le> 90) \<or> (97 \<le> n \<and> n \<le> 122))"

definition is_absolute :: "string \<Rightarrow> bool" where
  "is_absolute rel =
     (js_starts_with ''/'' rel \<or>
      (case rel of c # d # _ \<Rightarrow> is_letter c \<and> d = CHR '':'' | _ \<Rightarrow> False))"

definition patch_header_path :: "nat \<Rightarrow> string option \<Rightarrow> string \<Rightarrow> string option" where
  "patch_header_path strip root line =
     (case header_rest line of None \<Rightarrow> None
      | Some rest \<Rightarrow>
          let name = js_trim (hd (js_split (CHR 0x09) rest))
          in if name = [] \<or> name = ''/dev/null'' then None
             else let parts = js_split slash (map (\<lambda>c. if c = backslash then slash else c) name);
                      rel = js_join slash (drop (min strip (length parts - 1)) parts)
                  in Some (normalizeLoopPath
                       (case root of Some r \<Rightarrow> if is_absolute rel then rel else r @ ''/'' @ rel
                        | None \<Rightarrow> rel)))"

definition patchTargets :: "json \<Rightarrow> targets option" where
  "patchTargets args =
     (case args of
        JObj es \<Rightarrow>
          if json_field args ''apply'' \<noteq> JBool True then None
          else (case (stringField args ''patch'', stringField args ''patchPath'') of
                  (Some patch, None) \<Rightarrow>
                    let strip = (case json_field args ''stripComponents'' of
                                   JNum n \<Rightarrow> if 0 \<le> n then nat n else 1 | _ \<Rightarrow> 1);
                        root = stringField args ''rootDir'';
                        found = fold (\<lambda>line acc. case patch_header_path strip root line of
                                        None \<Rightarrow> acc | Some p \<Rightarrow> js_add p acc) (split_lines patch) []
                    in Some (if found = [] then AnyPath else Paths found)
                | _ \<Rightarrow> Some AnyPath)
      | JArr _ \<Rightarrow> None
      | _ \<Rightarrow> Some AnyPath)"

definition fields_of :: "string list \<Rightarrow> json \<Rightarrow> string list" where
  "fields_of keys v = List.map_filter (stringField v) keys"

definition mutationTargets :: "string \<Rightarrow> json \<Rightarrow> targets option" where
  "mutationTargets tool args =
     (if tool \<notin> set MUTATING_TOOLS then None
      else if tool = ''os.fs.patch'' then patchTargets args
      else let own = fields_of [''path'', ''from'', ''to''] args;
               moved = (case json_field args ''moves'' of
                          JArr ms \<Rightarrow> concat (map (fields_of [''from'', ''to'']) ms) | _ \<Rightarrow> []);
               raw = own @ moved
           in Some (if raw = [] then AnyPath else Paths (map normalizeLoopPath raw)))"

section \<open>The epoch book\<close>

record mutation_epochs =
  me_seq :: nat
  me_anySeq :: nat
  me_evictedFloor :: nat
  me_anyFailures :: nat
  me_latest :: "(string, nat) jsmap"
  me_failures :: "(string, nat) jsmap"

definition emptyEpochs :: mutation_epochs where
  "emptyEpochs = \<lparr>me_seq = 0, me_anySeq = 0, me_evictedFloor = 0, me_anyFailures = 0,
                  me_latest = [], me_failures = []\<rparr>"

fun count_attempts ::
  "bool \<Rightarrow> string list \<Rightarrow> (string, nat) jsmap \<Rightarrow> string list \<Rightarrow> (string, nat) jsmap \<times> string list" where
  "count_attempts landed [] failures opened = (failures, opened)"
| "count_attempts landed (p # ps) failures opened =
     (let failed = (if landed then 0
                    else (case jm_get failures p of None \<Rightarrow> 0 | Some n \<Rightarrow> n) + 1);
          failures' = jm_set p failed failures
      in count_attempts landed ps failures'
           (if failed > MAX_FAILED_EPOCHS then opened else opened @ [p]))"

definition stamp_all :: "string list \<Rightarrow> nat \<Rightarrow> (string, nat) jsmap \<Rightarrow> (string, nat) jsmap" where
  "stamp_all opened sq latest = fold (\<lambda>p m. jm_set p sq (jm_delete p m)) opened latest"

function evict_latest ::
  "(string, nat) jsmap \<Rightarrow> nat \<Rightarrow> (string, nat) jsmap \<Rightarrow>
     (string, nat) jsmap \<times> nat \<times> (string, nat) jsmap" where
  "evict_latest latest floor failures =
     (if length latest \<le> MAX_TRACKED_PATHS then (latest, floor, failures)
      else (case latest of [] \<Rightarrow> (latest, floor, failures)
            | (path, sq) # rest \<Rightarrow>
                evict_latest (jm_delete path latest) (max floor sq) (jm_delete path failures)))"
  by pat_completeness auto
termination
  by (relation "measure (\<lambda>(l, f, fs). length l)") (auto simp: jm_delete_def le_imp_less_Suc)

function evict_failures :: "(string, nat) jsmap \<Rightarrow> (string, nat) jsmap" where
  "evict_failures failures =
     (if length failures \<le> MAX_TRACKED_PATHS then failures
      else (case failures of [] \<Rightarrow> failures
            | (path, n) # rest \<Rightarrow> evict_failures (jm_delete path failures)))"
  by pat_completeness auto
termination
  by (relation "measure length") (auto simp: jm_delete_def le_imp_less_Suc)

declare evict_latest.simps [simp del] evict_failures.simps [simp del]

definition note_mutation ::
  "string \<Rightarrow> json \<Rightarrow> bool \<Rightarrow> mutation_epochs \<Rightarrow> mutation_epochs \<times> targets option" where
  "note_mutation tool args landed m =
     (case mutationTargets tool args of
        None \<Rightarrow> (m, None)
      | Some AnyPath \<Rightarrow>
          let m1 = m\<lparr>me_anyFailures := (if landed then 0 else me_anyFailures m + 1)\<rparr>
          in if me_anyFailures m1 > MAX_FAILED_EPOCHS then (m1, None)
             else (m1\<lparr>me_seq := me_seq m1 + 1, me_anySeq := me_seq m1 + 1\<rparr>, Some AnyPath)
      | Some (Paths ps) \<Rightarrow>
          let (failures, opened) = count_attempts landed ps (me_failures m) []
          in if opened = [] then (m\<lparr>me_failures := failures\<rparr>, None)
             else let sq = me_seq m + 1;
                      (latest, floor, failures') =
                        evict_latest (stamp_all opened sq (me_latest m)) (me_evictedFloor m) failures
                  in (m\<lparr>me_seq := sq, me_latest := latest, me_evictedFloor := floor,
                        me_failures := evict_failures failures'\<rparr>, Some (Paths opened)))"

fun epoch_loop :: "(string, nat) jsmap \<Rightarrow> string \<Rightarrow> nat \<Rightarrow> nat" where
  "epoch_loop [] path epoch = epoch"
| "epoch_loop ((touched, sq) # rest) path epoch =
     epoch_loop rest path (if sq > epoch \<and> samePathTarget touched path then sq else epoch)"

definition epochFor :: "mutation_epochs \<Rightarrow> string \<Rightarrow> nat" where
  "epochFor m path = epoch_loop (me_latest m) path (max (me_anySeq m) (me_evictedFloor m))"

section \<open>Paths: normal forms and matching\<close>

lemma samePathTarget_refl [simp]: "samePathTarget a a"
  by (simp add: samePathTarget_def)

lemma samePathTarget_sym: "samePathTarget a b = samePathTarget b a"
  by (auto simp: samePathTarget_def js_ends_with_def)

lemma samePathTarget_suffix: "a \<noteq> [] \<Longrightarrow> samePathTarget a (d @ slash # a)"
  by (auto simp: samePathTarget_def js_ends_with_iff)

lemma samePathTarget_iff:
  assumes "a \<noteq> []" and "b \<noteq> []"
  shows "samePathTarget a b \<longleftrightarrow>
    a = b \<or> (\<exists>d. b = d @ slash # a) \<or> (\<exists>d. a = d @ slash # b)"
  using assms by (auto simp: samePathTarget_def js_ends_with_iff)

section \<open>The epoch of a path\<close>

lemma Max_insert_step:
  fixes S :: "nat set"
  assumes "finite S"
  shows "Max (insert (if e < sq then sq else e) S) = Max (insert e (insert sq S))"
  using assms by (cases "S = {}") (auto simp: max_def)

lemma epoch_loop_Max:
  "epoch_loop m path e = Max (insert e {sq. \<exists>t. (t, sq) \<in> set m \<and> samePathTarget t path})"
proof (induction m path e rule: epoch_loop.induct)
  case (1 path e)
  show ?case by simp
next
  case (2 t sq rest path e)
  let ?S = "{s. \<exists>u. (u, s) \<in> set rest \<and> samePathTarget u path}"
  have fin: "finite ?S"
    by (rule finite_subset [of _ "snd ` set rest"]) force+
  have eq: "{s. \<exists>u. (u, s) \<in> set ((t, sq) # rest) \<and> samePathTarget u path} =
      (if samePathTarget t path then insert sq ?S else ?S)" by auto
  show ?case
    unfolding eq using "2.IH" Max_insert_step [OF fin, of e sq]
    by (cases "samePathTarget t path") (simp_all only: epoch_loop.simps if_True if_False simp_thms)
qed

definition epoch_candidates :: "mutation_epochs \<Rightarrow> string \<Rightarrow> nat set" where
  "epoch_candidates m path =
     insert (max (me_anySeq m) (me_evictedFloor m))
       {sq. \<exists>t. jm_get (me_latest m) t = Some sq \<and> samePathTarget t path}"

definition epochs_ok :: "mutation_epochs \<Rightarrow> bool" where
  "epochs_ok m \<longleftrightarrow> jm_ok (me_latest m) \<and> jm_ok (me_failures m) \<and>
     me_anySeq m \<le> me_seq m \<and> me_evictedFloor m \<le> me_seq m \<and>
     (\<forall>t sq. jm_get (me_latest m) t = Some sq \<longrightarrow> sq \<le> me_seq m) \<and>
     length (me_latest m) \<le> MAX_TRACKED_PATHS"

lemma epochFor_Max: "jm_ok (me_latest m) \<Longrightarrow> epochFor m path = Max (epoch_candidates m path)"
  by (auto simp: epochFor_def epoch_candidates_def epoch_loop_Max jm_get_map_of jm_ok_def
           intro!: arg_cong [where f = Max])

lemma finite_candidates: "finite (epoch_candidates m path)"
proof -
  have "{sq. \<exists>t. jm_get (me_latest m) t = Some sq \<and> samePathTarget t path} \<subseteq> snd ` set (me_latest m)"
    by (force dest: jm_get_Some_in)
  then show ?thesis by (simp add: epoch_candidates_def finite_subset)
qed

lemma epochFor_le_seq: "epochs_ok m \<Longrightarrow> epochFor m path \<le> me_seq m"
proof -
  assume ok: "epochs_ok m"
  then have "\<forall>e \<in> epoch_candidates m path. e \<le> me_seq m"
    by (auto simp: epochs_ok_def epoch_candidates_def)
  moreover have "epoch_candidates m path \<noteq> {}" by (simp add: epoch_candidates_def)
  ultimately show ?thesis
    using ok by (simp add: epochFor_Max finite_candidates epochs_ok_def)
qed

lemma epochFor_ge:
  assumes "jm_ok (me_latest m)" and "e \<in> epoch_candidates m path"
  shows "e \<le> epochFor m path"
  using assms by (simp add: epochFor_Max finite_candidates)

lemma epochFor_mono:
  assumes "jm_ok (me_latest m)" and "jm_ok (me_latest m')"
    and "\<And>e. e \<in> epoch_candidates m path \<Longrightarrow> \<exists>e' \<in> epoch_candidates m' path. e \<le> e'"
  shows "epochFor m path \<le> epochFor m' path"
proof -
  have "epochFor m path \<in> epoch_candidates m path"
    using Max_in [OF finite_candidates, of m path] assms(1)
    by (simp add: epochFor_Max) (simp add: epoch_candidates_def)
  then show ?thesis using assms(3) epochFor_ge [OF assms(2)] le_trans by blast
qed

section \<open>Stamping and evicting\<close>

lemma stamp_all_get [simp]:
  "jm_get (stamp_all opened sq l) t = (if t \<in> set opened then Some sq else jm_get l t)"
proof (induction opened arbitrary: l)
  case (Cons p ps)
  have "stamp_all (p # ps) sq l = stamp_all ps sq (jm_set p sq (jm_delete p l))"
    by (simp add: stamp_all_def)
  with Cons.IH show ?case by simp
qed (simp add: stamp_all_def)

lemma stamp_all_ok [simp]: "jm_ok l \<Longrightarrow> jm_ok (stamp_all opened sq l)"
  by (induction opened arbitrary: l) (simp_all add: stamp_all_def)

lemma evict_latest_spec:
  assumes "jm_ok l" and "evict_latest l f fs = (l', f', fs')"
  shows "jm_ok l' \<and> length l' \<le> MAX_TRACKED_PATHS \<and> f \<le> f' \<and>
    (\<forall>t sq. jm_get l t = Some sq \<longrightarrow> jm_get l' t = Some sq \<or> sq \<le> f') \<and>
    (\<forall>t sq. jm_get l' t = Some sq \<longrightarrow> jm_get l t = Some sq) \<and>
    (\<forall>B. f \<le> B \<and> (\<forall>t sq. jm_get l t = Some sq \<longrightarrow> sq \<le> B) \<longrightarrow> f' \<le> B) \<and>
    (jm_ok fs \<longrightarrow> jm_ok fs')"
  using assms
proof (induction l f fs rule: evict_latest.induct)
  case (1 l f fs)
  show ?case
  proof (cases "length l \<le> MAX_TRACKED_PATHS")
    case True
    with "1.prems" show ?thesis by (simp add: evict_latest.simps [of l f fs])
  next
    case False
    then obtain p sq rest where l: "l = (p, sq) # rest" by (cases l) auto
    have ev: "evict_latest (jm_delete p l) (max f sq) (jm_delete p fs) = (l', f', fs')"
      using "1.prems"(2) False by (subst (asm) evict_latest.simps) (simp add: l)
    have hd: "jm_get l p = Some sq" by (simp add: l jm_get_Cons)
    have IH: "jm_ok l' \<and> length l' \<le> MAX_TRACKED_PATHS \<and> max f sq \<le> f' \<and>
      (\<forall>t q. jm_get (jm_delete p l) t = Some q \<longrightarrow> jm_get l' t = Some q \<or> q \<le> f') \<and>
      (\<forall>t q. jm_get l' t = Some q \<longrightarrow> jm_get (jm_delete p l) t = Some q) \<and>
      (\<forall>B. max f sq \<le> B \<and> (\<forall>t q. jm_get (jm_delete p l) t = Some q \<longrightarrow> q \<le> B) \<longrightarrow> f' \<le> B) \<and>
      (jm_ok (jm_delete p fs) \<longrightarrow> jm_ok fs')"
      using "1.IH" [OF False l refl _ ev] "1.prems"(1) by simp
    have "jm_get l t = Some q \<Longrightarrow> jm_get l' t = Some q \<or> q \<le> f'" for t q
      using IH hd by (cases "t = p") auto
    moreover have "jm_get l t = Some q" if "jm_get l' t = Some q" for t q
    proof -
      have "jm_get (jm_delete p l) t = Some q" using IH that by blast
      then show ?thesis by (simp split: if_splits)
    qed
    moreover have "f' \<le> B" if "f \<le> B \<and> (\<forall>t q. jm_get l t = Some q \<longrightarrow> q \<le> B)" for B
      using IH that hd by auto
    ultimately show ?thesis using IH by auto
  qed
qed

lemma evict_failures_ok: "jm_ok fs \<Longrightarrow> jm_ok (evict_failures fs)"
proof (induction fs rule: evict_failures.induct)
  case (1 fs)
  show ?case
    by (subst evict_failures.simps) (use 1 in \<open>auto split: list.splits\<close>)
qed

lemma count_attempts_ok: "jm_ok fs \<Longrightarrow> jm_ok (fst (count_attempts landed ps fs opened))"
  by (induction landed ps fs opened rule: count_attempts.induct) (simp_all add: Let_def)

lemma count_attempts_landed:
  "snd (count_attempts True ps fs opened) = opened @ ps"
  by (induction ps arbitrary: fs opened) (simp_all add: MAX_FAILED_EPOCHS_def)

section \<open>Noting an attempt\<close>

text \<open>The state after an attempt that opened an epoch for some paths.\<close>

lemma note_paths:
  assumes "mutationTargets tool args = Some (Paths ps)"
    and "count_attempts landed ps (me_failures m) [] = (failures, opened)" and "opened \<noteq> []"
    and "evict_latest (stamp_all opened (me_seq m + 1) (me_latest m)) (me_evictedFloor m) failures
           = (latest, floor, failures')"
  shows "note_mutation tool args landed m =
    (m\<lparr>me_seq := me_seq m + 1, me_latest := latest, me_evictedFloor := floor,
       me_failures := evict_failures failures'\<rparr>, Some (Paths opened))"
  using assms by (simp add: note_mutation_def)

lemma note_cases:
  obtains (none) "mutationTargets tool args = None" "note_mutation tool args landed m = (m, None)"
  | (any) n where "mutationTargets tool args = Some AnyPath"
      "note_mutation tool args landed m = (m\<lparr>me_anyFailures := n, me_seq := me_seq m + 1,
         me_anySeq := me_seq m + 1\<rparr>, Some AnyPath)"
  | (anycap) n where "mutationTargets tool args = Some AnyPath"
      "note_mutation tool args landed m = (m\<lparr>me_anyFailures := n\<rparr>, None)"
  | (cap) ps fs where "mutationTargets tool args = Some (Paths ps)"
      "count_attempts landed ps (me_failures m) [] = (fs, [])"
      "note_mutation tool args landed m = (m\<lparr>me_failures := fs\<rparr>, None)"
  | (opened) ps fs opened l f fs' where "mutationTargets tool args = Some (Paths ps)"
      "count_attempts landed ps (me_failures m) [] = (fs, opened)" "opened \<noteq> []"
      "evict_latest (stamp_all opened (me_seq m + 1) (me_latest m)) (me_evictedFloor m) fs = (l, f, fs')"
      "note_mutation tool args landed m =
         (m\<lparr>me_seq := me_seq m + 1, me_latest := l, me_evictedFloor := f,
            me_failures := evict_failures fs'\<rparr>, Some (Paths opened))"
proof (cases "mutationTargets tool args")
  case None
  then show ?thesis by (intro none) (auto simp: note_mutation_def)
next
  case (Some ts)
  show ?thesis
  proof (cases ts)
    case AnyPath
    with Some show ?thesis
      by (cases "(if landed then 0 else me_anyFailures m + 1) > MAX_FAILED_EPOCHS")
         (auto simp: note_mutation_def Let_def intro: any anycap)
  next
    case (Paths ps)
    obtain fs op where ca: "count_attempts landed ps (me_failures m) [] = (fs, op)"
      by (cases "count_attempts landed ps (me_failures m) []") auto
    obtain l f fs' where ev: "evict_latest (stamp_all op (me_seq m + 1) (me_latest m))
        (me_evictedFloor m) fs = (l, f, fs')"
      by (metis prod_cases3)
    show ?thesis
    proof (cases "op = []")
      case True
      with Some Paths ca show ?thesis by (intro cap) (auto simp: note_mutation_def)
    next
      case False
      show ?thesis
        by (rule opened) (use Some Paths ca ev False note_paths [OF _ ca False ev] in auto)
    qed
  qed
qed

lemma opened_evict_facts:
  assumes "epochs_ok m"
    and "evict_latest (stamp_all op (me_seq m + 1) (me_latest m)) (me_evictedFloor m) fs = (l, f, fs')"
  shows "jm_ok l" and "length l \<le> MAX_TRACKED_PATHS" and "me_evictedFloor m \<le> f"
    and "f \<le> me_seq m + 1" and "jm_ok fs \<Longrightarrow> jm_ok fs'"
    and "\<And>t sq. jm_get l t = Some sq \<Longrightarrow> sq \<le> me_seq m + 1"
    and "\<And>t. t \<in> set op \<Longrightarrow> jm_get l t = Some (me_seq m + 1) \<or> f = me_seq m + 1"
    and "\<And>t sq. t \<notin> set op \<Longrightarrow> jm_get (me_latest m) t = Some sq \<Longrightarrow> jm_get l t = Some sq \<or> sq \<le> f"
proof -
  note ok = assms(1) [unfolded epochs_ok_def]
  note spec = evict_latest_spec [OF _ assms(2)]
  have stamped: "jm_ok (stamp_all op (me_seq m + 1) (me_latest m))" using ok by simp
  have bnd: "jm_get (stamp_all op (me_seq m + 1) (me_latest m)) t = Some sq \<Longrightarrow> sq \<le> me_seq m + 1"
    for t sq using ok by (auto split: if_splits intro: le_SucI)
  show le: "f \<le> me_seq m + 1" using spec [OF stamped] bnd ok by (auto intro: le_SucI)
  show "jm_ok l" "length l \<le> MAX_TRACKED_PATHS" "me_evictedFloor m \<le> f" "jm_ok fs \<Longrightarrow> jm_ok fs'"
    using spec [OF stamped] by auto
  show "sq \<le> me_seq m + 1" if "jm_get l t = Some sq" for t sq
    using spec [OF stamped] bnd that by blast
  show "jm_get l t = Some (me_seq m + 1) \<or> f = me_seq m + 1" if "t \<in> set op" for t
  proof -
    have "jm_get (stamp_all op (me_seq m + 1) (me_latest m)) t = Some (me_seq m + 1)"
      using that by simp
    then have "jm_get l t = Some (me_seq m + 1) \<or> me_seq m + 1 \<le> f"
      using spec [OF stamped] by blast
    with le show ?thesis by auto
  qed
  show "jm_get l t = Some sq \<or> sq \<le> f" if "t \<notin> set op" "jm_get (me_latest m) t = Some sq" for t sq
  proof -
    have "jm_get (stamp_all op (me_seq m + 1) (me_latest m)) t = Some sq" using that by simp
    then show ?thesis using spec [OF stamped] by blast
  qed
qed

lemma note_epochs_ok:
  assumes "epochs_ok m"
  shows "epochs_ok (fst (note_mutation tool args landed m))"
proof (cases rule: note_cases [of tool args landed m])
  case (cap ps fs)
  then show ?thesis
    using assms count_attempts_ok [of "me_failures m" landed ps "[]"] by (auto simp: epochs_ok_def)
next
  case (opened ps fs op l f fs')
  have "jm_ok fs"
    using assms count_attempts_ok [of "me_failures m" landed ps "[]"] opened(2)
    by (auto simp: epochs_ok_def)
  then show ?thesis
    using opened_evict_facts [OF assms opened(4)] assms opened(5)
    by (auto simp: epochs_ok_def evict_failures_ok)
qed (use assms in \<open>auto simp: epochs_ok_def intro: le_SucI\<close>)

lemma note_epoch_mono:
  assumes "epochs_ok m"
  shows "epochFor m path \<le> epochFor (fst (note_mutation tool args landed m)) path"
proof (cases rule: note_cases [of tool args landed m])
  case (any n)
  have "epochFor m path \<le> me_seq m" by (rule epochFor_le_seq [OF assms])
  moreover have "me_seq m + 1 \<le> epochFor (fst (note_mutation tool args landed m)) path"
    using assms any(2)
    by (intro epochFor_ge) (auto simp: epochs_ok_def epoch_candidates_def max_def)
  ultimately show ?thesis by simp
next
  case (opened ps fs op l f fs')
  note facts = opened_evict_facts [OF assms opened(4)]
  show ?thesis
  proof (rule epochFor_mono)
    show "jm_ok (me_latest m)" using assms by (simp add: epochs_ok_def)
    show "jm_ok (me_latest (fst (note_mutation tool args landed m)))" using facts(1) opened(5) by simp
    fix e
    assume e: "e \<in> epoch_candidates m path"
    let ?m' = "fst (note_mutation tool args landed m)"
    have top: "max (me_anySeq m) f \<in> epoch_candidates ?m' path"
      using opened(5) by (simp add: epoch_candidates_def)
    show "\<exists>e' \<in> epoch_candidates ?m' path. e \<le> e'"
    proof (cases "e = max (me_anySeq m) (me_evictedFloor m)")
      case True
      with top facts(3) show ?thesis by (intro bexI [OF _ top]) auto
    next
      case False
      then obtain t where t: "jm_get (me_latest m) t = Some e" "samePathTarget t path"
        using e by (auto simp: epoch_candidates_def)
      have le: "e \<le> me_seq m + 1" using assms t(1) by (auto simp: epochs_ok_def intro: le_SucI)
      consider "jm_get l t = Some e" | "jm_get l t = Some (me_seq m + 1)" | "e \<le> f"
        using facts(7) [of t] facts(8) [of t e] t(1) le by (cases "t \<in> set op") auto
      then show ?thesis
      proof cases
        case 1
        then have "e \<in> epoch_candidates ?m' path"
          using t(2) opened(5) by (auto simp: epoch_candidates_def)
        then show ?thesis by blast
      next
        case 2
        then have "me_seq m + 1 \<in> epoch_candidates ?m' path"
          using t(2) opened(5) by (auto simp: epoch_candidates_def)
        with le show ?thesis by blast
      next
        case 3
        then show ?thesis using top by (meson max.cobounded2 le_trans)
      qed
    qed
  qed
qed (simp_all add: epochFor_def)

text \<open>An attempt that opens an epoch for a path opens a strictly newer one.\<close>

lemma note_opened_fresh:
  assumes "epochs_ok m"
    and "note_mutation tool args landed m = (m', Some (Paths op))" and "p \<in> set op"
  shows "epochFor m' p = me_seq m + 1"
proof (cases rule: note_cases [of tool args landed m])
  case (opened ps fs op' l f fs')
  then have eq: "op' = op" and m': "m' = fst (note_mutation tool args landed m)"
    using assms(2) by auto
  have ok': "epochs_ok m'" using note_epochs_ok [OF assms(1)] m' by simp
  have "me_seq m' = me_seq m + 1" using opened(5) m' by simp
  then have "epochFor m' p \<le> me_seq m + 1" using epochFor_le_seq [OF ok', of p] by simp
  moreover have "me_seq m + 1 \<le> epochFor m' p"
    using opened_evict_facts(7) [OF assms(1) opened(4), of p, unfolded eq, OF assms(3)]
  proof
    assume "jm_get l p = Some (me_seq m + 1)"
    then have "me_seq m + 1 \<in> epoch_candidates m' p"
      using opened(5) m' by (auto simp: epoch_candidates_def)
    then show ?thesis using ok' by (intro epochFor_ge) (auto simp: epochs_ok_def)
  next
    assume "f = me_seq m + 1"
    then have "max (me_anySeq m) (me_seq m + 1) \<in> epoch_candidates m' p"
      using opened(5) m' by (auto simp: epoch_candidates_def)
    then have "max (me_anySeq m) (me_seq m + 1) \<le> epochFor m' p"
      using ok' by (intro epochFor_ge) (auto simp: epochs_ok_def)
    then show ?thesis by simp
  qed
  ultimately show ?thesis by simp
qed (use assms(2) in auto)

end
