(* ===== verification/Loop_Detector.thy ===== *)
theory Loop_Detector
  imports Read_Coverage Wandering_Spread Mutation_Epochs
begin

text \<open>
  \<open>src/src/agent/loop-detector.ts\<close>: the per-turn tool loop tracker. Its private fields are the
  record \<open>tracker\<close>, its constructor is \<open>mk_loop_config\<close>, and every method that mutates it returns
  the new tracker. \<open>sha\<close> is the digest of \<open>Fingerprints\<close>. The constructor's
  \<open>Math.ceil(n * 0.6)\<close> and \<open>Math.round(c * t / e)\<close> are exact on the integers in use, hence
  the integer divisions. \<open>fileVersions\<close> (owned by the file tools) is not part of the model.
\<close>

section \<open>Options and thresholds\<close>

record loop_options =
  lo_warningThreshold :: "int option"
  lo_criticalThreshold :: "int option"
  lo_breakerVetoStreak :: "int option"
  lo_historySize :: "int option"
  lo_warningBucketSize :: "int option"
  lo_wanderingThreshold :: "int option"
  lo_wanderingEscalation :: "int option"

record loop_config =
  warningThreshold :: nat
  criticalThreshold :: nat
  breakerVetoStreak :: nat
  historySize :: nat
  warningBucketSize :: nat
  wanderingThreshold :: nat
  wanderingEscalation :: nat
  wanderingCeiling :: nat
  wanderingWindowWarning :: nat

definition LOOP_WARNING_BUCKET_SIZE :: int where
  "LOOP_WARNING_BUCKET_SIZE = 10"

definition TEST_REPEAT_WARNING_THRESHOLD :: nat where
  "TEST_REPEAT_WARNING_THRESHOLD = 2"

definition READ_REPEAT_WARNING_THRESHOLD :: nat where
  "READ_REPEAT_WARNING_THRESHOLD = 2"

definition OUTCOME_REPEAT_WARNING_THRESHOLD :: nat where
  "OUTCOME_REPEAT_WARNING_THRESHOLD = 3"

definition MAX_TRACKED_OUTCOMES :: nat where
  "MAX_TRACKED_OUTCOMES = 200"

definition MAX_TRACKED_READ_FILES :: nat where
  "MAX_TRACKED_READ_FILES = 200"

definition BATCH_LOOP_LABEL :: string where
  "BATCH_LOOP_LABEL = ''<batch>''"

definition orElse :: "'a option \<Rightarrow> 'a \<Rightarrow> 'a" where
  "orElse x d = (case x of None \<Rightarrow> d | Some v \<Rightarrow> v)"

text \<open>\<open>Math.ceil(historySize * WANDERING_CEILING_SHARE)\<close> with the share 0.6.\<close>

definition ceil_share :: "nat \<Rightarrow> nat" where
  "ceil_share n = (3 * n + 4) div 5"

text \<open>\<open>Math.round(a / b)\<close>: halves round up.\<close>

definition round_div :: "nat \<Rightarrow> nat \<Rightarrow> nat" where
  "round_div a b = (2 * a + b) div (2 * b)"

definition mk_loop_config :: "loop_options \<Rightarrow> loop_config" where
  "mk_loop_config o' =
     (let warning = max 2 (orElse (lo_warningThreshold o') 3);
          critical = max warning (orElse (lo_criticalThreshold o') 5);
          breaker = max 1 (orElse (lo_breakerVetoStreak o') 3);
          wandering = max 2 (orElse (lo_wanderingThreshold o') 6);
          escalation = max wandering (orElse (lo_wanderingEscalation o') 12);
          history = max (max critical escalation) (orElse (lo_historySize o') 30);
          ceiling = max 2 (ceil_share (nat history));
          window = min (ceiling - 1)
                     (max 2 (round_div (ceiling * nat wandering) (nat escalation)));
          bucket = max 1 (orElse (lo_warningBucketSize o') LOOP_WARNING_BUCKET_SIZE)
      in \<lparr>warningThreshold = nat warning, criticalThreshold = nat critical,
          breakerVetoStreak = nat breaker, historySize = nat history,
          warningBucketSize = nat bucket, wanderingThreshold = nat wandering,
          wanderingEscalation = nat escalation, wanderingCeiling = ceiling,
          wanderingWindowWarning = window\<rparr>)"

section \<open>The tracker's state\<close>

record history_entry =
  he_tool :: string
  he_argsHash :: string
  he_resultHash :: "string option"
  he_vetoed :: bool
  he_round :: "nat option"
  he_epoch :: "nat option"

record test_run =
  tr_fingerprint :: string
  tr_count :: nat
  tr_lastSummary :: "string option"

record read_entry =
  re_contentHash :: string
  re_numbered :: bool
  re_covered :: "line_range list"
  re_noProgress :: nat

record tracker =
  tk_history :: "history_entry list"
  tk_warningBuckets :: "(string, int) jsmap"
  tk_vetoSignature :: "string option"
  tk_vetoCount :: nat
  tk_testRuns :: "(string, test_run) jsmap"
  tk_pendingTestKeys :: "(string, string) jsmap"
  tk_readCoverage :: "(string, read_entry) jsmap"
  tk_outcomeCounts :: "(string, nat) jsmap"
  tk_probeRuns :: probe_runs
  tk_mutations :: mutation_epochs
  tk_stepRound :: "nat option"
  tk_lastStepIndex :: "int option"

definition newTracker :: tracker where
  "newTracker = \<lparr>tk_history = [], tk_warningBuckets = [], tk_vetoSignature = None, tk_vetoCount = 0,
     tk_testRuns = [], tk_pendingTestKeys = [], tk_readCoverage = [], tk_outcomeCounts = [],
     tk_probeRuns = emptyProbeRuns, tk_mutations = emptyEpochs, tk_stepRound = None,
     tk_lastStepIndex = None\<rparr>"

definition isWanderingProneTool :: "string \<Rightarrow> bool" where
  "isWanderingProneTool tool = (probeFamily tool \<noteq> None)"

section \<open>Reading the history\<close>

definition has_result :: "history_entry \<Rightarrow> bool" where
  "has_result e = (case he_resultHash e of None \<Rightarrow> False | Some h \<Rightarrow> h \<noteq> [])"

text \<open>The backward walk of \<open>getNoProgressStreak\<close>, on the reversed history.\<close>

fun streak_loop ::
  "history_entry list \<Rightarrow> string \<Rightarrow> string \<Rightarrow> nat option \<Rightarrow> nat \<Rightarrow> string option \<Rightarrow> nat \<times> string option" where
  "streak_loop [] tool argsHash epoch streak latest = (streak, latest)"
| "streak_loop (e # es) tool argsHash epoch streak latest =
     (if he_tool e \<noteq> tool \<or> he_argsHash e \<noteq> argsHash then
        streak_loop es tool argsHash epoch streak latest
      else if he_epoch e \<noteq> epoch then streak_loop es tool argsHash epoch streak latest
      else if \<not> has_result e then streak_loop es tool argsHash epoch streak latest
      else (case latest of
              None \<Rightarrow> streak_loop es tool argsHash epoch 1 (he_resultHash e)
            | Some l \<Rightarrow>
                if he_resultHash e \<noteq> Some l then (streak, latest)
                else streak_loop es tool argsHash epoch (streak + 1) latest))"

definition getNoProgressStreak ::
  "history_entry list \<Rightarrow> string \<Rightarrow> string \<Rightarrow> nat option \<Rightarrow> nat \<times> string option" where
  "getNoProgressStreak history tool argsHash epoch =
     streak_loop (rev history) tool argsHash epoch 0 None"

definition getRepeatCount :: "history_entry list \<Rightarrow> string \<Rightarrow> string \<Rightarrow> nat option \<Rightarrow> nat" where
  "getRepeatCount history tool argsHash epoch =
     length (filter (\<lambda>e. he_tool e = tool \<and> he_argsHash e = argsHash \<and> he_epoch e = epoch) history)"

definition trimHistory :: "loop_config \<Rightarrow> history_entry list \<Rightarrow> history_entry list" where
  "trimHistory cfg history = drop (length history - historySize cfg) history"

definition push_history :: "loop_config \<Rightarrow> history_entry \<Rightarrow> tracker \<Rightarrow> tracker" where
  "push_history cfg e t = t\<lparr>tk_history := trimHistory cfg (tk_history t @ [e])\<rparr>"

definition readEpoch :: "tracker \<Rightarrow> string \<Rightarrow> json \<Rightarrow> nat option" where
  "readEpoch t tool args = map_option (epochFor (tk_mutations t)) (readTargetPath tool args)"

definition effectiveSpread :: "tracker \<Rightarrow> string \<Rightarrow> string \<Rightarrow> nat" where
  "effectiveSpread t tool current =
     (let seen = remdups (map he_argsHash
                   (filter (\<lambda>e. he_tool e = tool \<and> has_result e \<and>
                       \<not> (tk_stepRound t \<noteq> None \<and> he_round e = tk_stepRound t)) (tk_history t)))
      in if current \<in> set seen then length seen else length seen + 1)"

definition runRounds :: "string \<Rightarrow> string \<Rightarrow> tracker \<Rightarrow> tracker \<times> nat" where
  "runRounds tool argsHash t =
     (let (p, n) = probe_rounds tool argsHash (tk_stepRound t) (tk_probeRuns t)
      in (t\<lparr>tk_probeRuns := p\<rparr>, n))"

definition runSpread :: "string \<Rightarrow> string \<Rightarrow> tracker \<Rightarrow> tracker \<times> nat" where
  "runSpread tool argsHash t =
     (let (p, n) = probe_spread tool argsHash (tk_probeRuns t) in (t\<lparr>tk_probeRuns := p\<rparr>, n))"

section \<open>Wandering\<close>

datatype stop_rule = RunRule | CeilingRule

record wandering_stop =
  ws_escalated :: bool
  ws_spread :: nat
  ws_rule :: "stop_rule option"

definition wanderingStop ::
  "loop_config \<Rightarrow> (string \<Rightarrow> string) \<Rightarrow> string \<Rightarrow> json \<Rightarrow> tracker \<Rightarrow> tracker \<times> wandering_stop" where
  "wanderingStop cfg sha tool args t =
     (if \<not> isWanderingProneTool tool then
        (t, \<lparr>ws_escalated = False, ws_spread = 0, ws_rule = None\<rparr>)
      else let argsHash = hashToolCall sha tool args;
               (t1, spread) = runSpread tool argsHash t;
               (t2, rounds) = runRounds tool argsHash t1
           in if rounds \<ge> wanderingEscalation cfg then
                (t2, \<lparr>ws_escalated = True, ws_spread = spread, ws_rule = Some RunRule\<rparr>)
              else let windowSpread = effectiveSpread t2 tool argsHash
                   in if windowSpread \<ge> wanderingCeiling cfg then
                        (t2, \<lparr>ws_escalated = True, ws_spread = windowSpread, ws_rule = Some CeilingRule\<rparr>)
                      else (t2, \<lparr>ws_escalated = False, ws_spread = spread, ws_rule = None\<rparr>))"

definition isWanderingEscalated ::
  "loop_config \<Rightarrow> (string \<Rightarrow> string) \<Rightarrow> string \<Rightarrow> json \<Rightarrow> tracker \<Rightarrow> tracker \<times> bool" where
  "isWanderingEscalated cfg sha tool args t =
     (let (t', s) = wanderingStop cfg sha tool args t in (t', ws_escalated s))"

definition wanderingSpread ::
  "loop_config \<Rightarrow> (string \<Rightarrow> string) \<Rightarrow> string \<Rightarrow> json \<Rightarrow> tracker \<Rightarrow> tracker \<times> nat" where
  "wanderingSpread cfg sha tool args t =
     (let (t', s) = wanderingStop cfg sha tool args t in (t', ws_spread s))"

definition wanderingWarning ::
  "loop_config \<Rightarrow> string \<Rightarrow> string \<Rightarrow> tracker \<Rightarrow> tracker \<times> nat option" where
  "wanderingWarning cfg tool argsHash t =
     (let (t1, spread) = runSpread tool argsHash t;
          (t2, rounds) = runRounds tool argsHash t1
      in if rounds \<ge> wanderingThreshold cfg then (t2, Some spread)
         else let windowSpread = effectiveSpread t2 tool argsHash
              in (t2, if windowSpread \<ge> wanderingWindowWarning cfg then Some windowSpread else None))"

section \<open>Checking a prospective call\<close>

datatype check_level = LvOk | LvWarn | LvCritical

datatype detector =
  GenericRepeat | NoProgress | Wandering | TestRepeat | ReadRepeat | OutcomeRepeat

record loop_verdict =
  lv_level :: check_level
  lv_count :: nat
  lv_detector :: detector
  lv_warningKey :: string
  lv_tool :: string
  lv_argsHash :: string

definition critical_key :: "string \<Rightarrow> string \<Rightarrow> string option \<Rightarrow> string" where
  "critical_key tool argsHash latest =
     ''critical:'' @ tool @ '':'' @ argsHash @ '':'' @ orElse latest ''none''"

definition check ::
  "loop_config \<Rightarrow> (string \<Rightarrow> string) \<Rightarrow> string \<Rightarrow> json \<Rightarrow> tracker \<Rightarrow> tracker \<times> loop_verdict" where
  "check cfg sha tool args t =
     (let argsHash = hashToolCall sha tool args;
          epoch = readEpoch t tool args;
          (streak, latest) = getNoProgressStreak (tk_history t) tool argsHash epoch
      in if streak \<ge> criticalThreshold cfg then
           (t, \<lparr>lv_level = LvCritical, lv_count = streak, lv_detector = NoProgress,
                lv_warningKey = critical_key tool argsHash latest, lv_tool = tool, lv_argsHash = argsHash\<rparr>)
         else
           let (t1, wandering) =
                 (if isWanderingProneTool tool then
                    (let repeatsEarlierCall = getRepeatCount (tk_history t) tool argsHash None > 0;
                         (t', warn) = wanderingWarning cfg tool argsHash t
                     in (t', if repeatsEarlierCall then None else warn))
                  else (t, None))
           in (case wandering of
                 Some n \<Rightarrow> (t1, \<lparr>lv_level = LvWarn, lv_count = n, lv_detector = Wandering,
                              lv_warningKey = ''wandering:'' @ tool, lv_tool = tool, lv_argsHash = argsHash\<rparr>)
               | None \<Rightarrow>
                   let repeatCount = getRepeatCount (tk_history t1) tool argsHash epoch
                   in if repeatCount \<ge> warningThreshold cfg then
                        (t1, \<lparr>lv_level = LvWarn, lv_count = repeatCount, lv_detector = GenericRepeat,
                              lv_warningKey = ''warn:'' @ tool @ '':'' @ argsHash, lv_tool = tool,
                              lv_argsHash = argsHash\<rparr>)
                      else (t1, \<lparr>lv_level = LvOk, lv_count = 0, lv_detector = GenericRepeat,
                                 lv_warningKey = ''ok:'' @ tool @ '':'' @ argsHash, lv_tool = tool,
                                 lv_argsHash = argsHash\<rparr>)))"

section \<open>Recording calls and outcomes\<close>

definition noteStep :: "int \<Rightarrow> tracker \<Rightarrow> tracker" where
  "noteStep stepIndex t =
     (if tk_lastStepIndex t = Some stepIndex then t
      else t\<lparr>tk_lastStepIndex := Some stepIndex, tk_stepRound := Some (orElse (tk_stepRound t) 0 + 1)\<rparr>)"

definition recordCall ::
  "loop_config \<Rightarrow> (string \<Rightarrow> string) \<Rightarrow> string \<Rightarrow> json \<Rightarrow> tracker \<Rightarrow> tracker" where
  "recordCall cfg sha tool args t =
     push_history cfg \<lparr>he_tool = tool, he_argsHash = hashToolCall sha tool args, he_resultHash = None,
       he_vetoed = False, he_round = tk_stepRound t, he_epoch = readEpoch t tool args\<rparr> t"

datatype entry_patch = PatchResult string | PatchVetoed

fun apply_patch :: "entry_patch \<Rightarrow> history_entry \<Rightarrow> history_entry" where
  "apply_patch (PatchResult h) e = e\<lparr>he_resultHash := Some h\<rparr>"
| "apply_patch PatchVetoed e = e\<lparr>he_vetoed := True\<rparr>"

text \<open>The latest pending entry of the call, on the reversed history.\<close>

fun patch_rev :: "string \<Rightarrow> string \<Rightarrow> entry_patch \<Rightarrow> history_entry list \<Rightarrow> history_entry list option" where
  "patch_rev tool argsHash patch [] = None"
| "patch_rev tool argsHash patch (e # es) =
     (if he_tool e = tool \<and> he_argsHash e = argsHash \<and> he_resultHash e = None \<and> \<not> he_vetoed e
      then Some (apply_patch patch e # es)
      else map_option (\<lambda>es'. e # es') (patch_rev tool argsHash patch es))"

definition patchLatestPending ::
  "loop_config \<Rightarrow> (string \<Rightarrow> string) \<Rightarrow> string \<Rightarrow> json \<Rightarrow> entry_patch \<Rightarrow> tracker \<Rightarrow> tracker" where
  "patchLatestPending cfg sha tool args patch t =
     (let argsHash = hashToolCall sha tool args
      in (case patch_rev tool argsHash patch (rev (tk_history t)) of
            Some es \<Rightarrow> t\<lparr>tk_history := rev es\<rparr>
          | None \<Rightarrow> push_history cfg
              (apply_patch patch \<lparr>he_tool = tool, he_argsHash = argsHash, he_resultHash = None,
                 he_vetoed = False, he_round = tk_stepRound t, he_epoch = readEpoch t tool args\<rparr>) t))"

definition noteVeto :: "(string \<Rightarrow> string) \<Rightarrow> string \<Rightarrow> json \<Rightarrow> tracker \<Rightarrow> tracker" where
  "noteVeto sha tool args t =
     (let signature = hashToolCall sha tool args
      in if tk_vetoSignature t = Some signature then t\<lparr>tk_vetoCount := tk_vetoCount t + 1\<rparr>
         else t\<lparr>tk_vetoSignature := Some signature, tk_vetoCount := 1\<rparr>)"

definition isBreakerTripped ::
  "loop_config \<Rightarrow> (string \<Rightarrow> string) \<Rightarrow> string \<Rightarrow> json \<Rightarrow> tracker \<Rightarrow> bool" where
  "isBreakerTripped cfg sha tool args t =
     (tk_vetoSignature t = Some (hashToolCall sha tool args) \<and> tk_vetoCount t \<ge> breakerVetoStreak cfg)"

definition breakerThreshold :: "loop_config \<Rightarrow> nat" where
  "breakerThreshold cfg = breakerVetoStreak cfg"

definition vetoStreak :: "(string \<Rightarrow> string) \<Rightarrow> string \<Rightarrow> json \<Rightarrow> tracker \<Rightarrow> nat" where
  "vetoStreak sha tool args t =
     (if tk_vetoSignature t = Some (hashToolCall sha tool args) then tk_vetoCount t else 0)"

definition touches :: "targets \<Rightarrow> string \<Rightarrow> bool" where
  "touches ts key = (case ts of AnyPath \<Rightarrow> True | Paths ps \<Rightarrow> \<exists>p \<in> set ps. samePathTarget p key)"

definition noteMutationAttempt :: "string \<Rightarrow> json \<Rightarrow> bool \<Rightarrow> tracker \<Rightarrow> tracker" where
  "noteMutationAttempt tool args landed t =
     (let (m, touched) = note_mutation tool args landed (tk_mutations t);
          t1 = t\<lparr>tk_mutations := m\<rparr>
      in (case touched of None \<Rightarrow> t1
          | Some ts \<Rightarrow> t1\<lparr>tk_readCoverage :=
              map (\<lambda>(path, entry).
                     if re_noProgress entry = 0 then (path, entry)
                     else if touches ts (normalizeLoopPath path) then (path, entry\<lparr>re_noProgress := 0\<rparr>)
                     else (path, entry)) (tk_readCoverage t1)\<rparr>))"

definition noteTestOutcome ::
  "(string \<Rightarrow> string) \<Rightarrow> string \<Rightarrow> json \<Rightarrow> compressed_result \<Rightarrow> tracker \<Rightarrow> tracker" where
  "noteTestOutcome sha tool args result t =
     (let signature = hashToolCall sha tool args
      in (case jm_get (tk_pendingTestKeys t) signature of
            None \<Rightarrow> t
          | Some key \<Rightarrow>
              let t1 = t\<lparr>tk_pendingTestKeys := jm_delete signature (tk_pendingTestKeys t)\<rparr>
              in if isLoopVetoResult result then t1
                 else (case jm_get (tk_testRuns t1) key of
                         None \<Rightarrow> t1
                       | Some r \<Rightarrow> t1\<lparr>tk_testRuns :=
                           jm_set key (r\<lparr>tr_lastSummary := Some (cr_summary result)\<rparr>) (tk_testRuns t1)\<rparr>)))"

record outcome_check =
  oc_repeat :: bool
  oc_count :: nat
  oc_fingerprint :: string

definition no_outcome :: outcome_check where
  "no_outcome = \<lparr>oc_repeat = False, oc_count = 0, oc_fingerprint = []\<rparr>"

definition noteOutcomeFingerprint ::
  "string \<Rightarrow> compressed_result \<Rightarrow> tracker \<Rightarrow> tracker \<times> outcome_check" where
  "noteOutcomeFingerprint tool result t =
     (if isSuccessfulWrite tool result then (t\<lparr>tk_outcomeCounts := []\<rparr>, no_outcome)
      else let fingerprint = fingerprintToolOutcome tool result;
               count = orElse (jm_get (tk_outcomeCounts t) fingerprint) 0 + 1;
               counts = jm_evict MAX_TRACKED_OUTCOMES
                          (jm_set fingerprint count (jm_delete fingerprint (tk_outcomeCounts t)))
           in (t\<lparr>tk_outcomeCounts := counts\<rparr>,
               \<lparr>oc_repeat = (count \<ge> OUTCOME_REPEAT_WARNING_THRESHOLD), oc_count = count,
                oc_fingerprint = fingerprint\<rparr>))"

definition recordOutcome ::
  "loop_config \<Rightarrow> (string \<Rightarrow> string) \<Rightarrow> string \<Rightarrow> json \<Rightarrow> compressed_result \<Rightarrow> tracker \<Rightarrow>
     tracker \<times> outcome_check" where
  "recordOutcome cfg sha tool args result t =
     (let t1 = noteTestOutcome sha tool args result t
      in if isLoopVetoResult result then
           (noteVeto sha tool args (patchLatestPending cfg sha tool args PatchVetoed t1), no_outcome)
         else
           let t2 = noteMutationAttempt tool args (cr_status result = StOk) t1
           in (case hashToolOutcome sha tool args result of
                 None \<Rightarrow> (t2, no_outcome)
               | Some resultHash \<Rightarrow>
                   let t3 = patchLatestPending cfg sha tool args (PatchResult resultHash) t2;
                       t4 = t3\<lparr>tk_probeRuns := probe_record tool (hashToolCall sha tool args)
                                  (cr_status result = StOk) (tk_stepRound t3) (tk_probeRuns t3)\<rparr>;
                       t5 = (if tk_vetoSignature t4 \<noteq> None \<and>
                                tk_vetoSignature t4 \<noteq> Some (hashToolCall sha tool args)
                             then t4\<lparr>tk_vetoSignature := None, tk_vetoCount := 0\<rparr> else t4)
                   in noteOutcomeFingerprint tool result t5))"

section \<open>Test and read repeats\<close>

record test_repeat =
  tp_repeat :: bool
  tp_count :: nat
  tp_previousSummary :: "string option"

definition checkTestRepeat :: "string \<Rightarrow> string \<Rightarrow> tracker \<Rightarrow> test_repeat" where
  "checkTestRepeat key fingerprint t =
     (case jm_get (tk_testRuns t) key of
        None \<Rightarrow> \<lparr>tp_repeat = False, tp_count = 1, tp_previousSummary = None\<rparr>
      | Some prev \<Rightarrow>
          if tr_fingerprint prev \<noteq> fingerprint then
            \<lparr>tp_repeat = False, tp_count = 1, tp_previousSummary = None\<rparr>
          else \<lparr>tp_repeat = True, tp_count = tr_count prev + 1,
                tp_previousSummary = tr_lastSummary prev\<rparr>)"

definition recordTestRun ::
  "(string \<Rightarrow> string) \<Rightarrow> string \<Rightarrow> string \<Rightarrow> string \<Rightarrow> json \<Rightarrow> tracker \<Rightarrow> tracker" where
  "recordTestRun sha key fingerprint tool args t =
     (let unchanged = (case jm_get (tk_testRuns t) key of
                         Some prev \<Rightarrow> if tr_fingerprint prev = fingerprint then Some prev else None
                       | None \<Rightarrow> None);
          entry = (case unchanged of
                     Some prev \<Rightarrow> \<lparr>tr_fingerprint = fingerprint, tr_count = tr_count prev + 1,
                                    tr_lastSummary = tr_lastSummary prev\<rparr>
                   | None \<Rightarrow> \<lparr>tr_fingerprint = fingerprint, tr_count = 1, tr_lastSummary = None\<rparr>)
      in t\<lparr>tk_testRuns := jm_set key entry (tk_testRuns t),
           tk_pendingTestKeys := jm_set (hashToolCall sha tool args) key (tk_pendingTestKeys t)\<rparr>)"

definition sameReadVersion :: "read_entry \<Rightarrow> read_observation \<Rightarrow> bool" where
  "sameReadVersion e obs = (re_contentHash e = ro_contentHash obs \<and> re_numbered e = ro_numbered obs)"

record read_repeat =
  rr_repeat :: bool
  rr_count :: nat
  rr_covered :: string
  rr_previousFingerprint :: "string option"

definition fresh_lines :: "line_range list \<Rightarrow> read_observation \<Rightarrow> int" where
  "fresh_lines covered obs =
     (case ro_span obs of None \<Rightarrow> 0 | Some span \<Rightarrow> newlyCoveredCount covered span)"

definition checkReadRepeat :: "read_observation \<Rightarrow> tracker \<Rightarrow> read_repeat" where
  "checkReadRepeat obs t =
     (case jm_get (tk_readCoverage t) (ro_path obs) of
        None \<Rightarrow> \<lparr>rr_repeat = False, rr_count = 0, rr_covered = [], rr_previousFingerprint = None\<rparr>
      | Some prev \<Rightarrow>
          let previousFingerprint = Some (re_contentHash prev)
          in if \<not> sameReadVersion prev obs \<or> fresh_lines (re_covered prev) obs > 0 then
               \<lparr>rr_repeat = False, rr_count = 0, rr_covered = [],
                rr_previousFingerprint = previousFingerprint\<rparr>
             else \<lparr>rr_repeat = True, rr_count = re_noProgress prev + 1,
                   rr_covered = describeCoverage (re_covered prev) 4,
                   rr_previousFingerprint = previousFingerprint\<rparr>)"

definition recordRead :: "read_observation \<Rightarrow> tracker \<Rightarrow> tracker" where
  "recordRead obs t =
     (let prev = (case jm_get (tk_readCoverage t) (ro_path obs) of
                    Some p \<Rightarrow> if sameReadVersion p obs then Some p else None | None \<Rightarrow> None);
          covered = (case prev of Some p \<Rightarrow> re_covered p | None \<Rightarrow> []);
          fresh = fresh_lines covered obs;
          entry = \<lparr>re_contentHash = ro_contentHash obs, re_numbered = ro_numbered obs,
                   re_covered = (case ro_span obs of None \<Rightarrow> covered | Some s \<Rightarrow> mergeRange covered s),
                   re_noProgress = (case prev of
                       Some p \<Rightarrow> if fresh = 0 then re_noProgress p + 1 else 0 | None \<Rightarrow> 0)\<rparr>
      in t\<lparr>tk_readCoverage := jm_evict MAX_TRACKED_READ_FILES
             (jm_set (ro_path obs) entry (jm_delete (ro_path obs) (tk_readCoverage t)))\<rparr>)"

section \<open>Warning buckets and batch composites\<close>

definition shouldEmitWarning ::
  "loop_config \<Rightarrow> string \<Rightarrow> nat \<Rightarrow> nat \<Rightarrow> tracker \<Rightarrow> tracker \<times> bool" where
  "shouldEmitWarning cfg warningKey seen minCount t =
     (let threshold = max 1 minCount
      in if seen < threshold then (t, False)
         else let bucket = int ((seen - threshold) div warningBucketSize cfg);
                  prev = orElse (jm_get (tk_warningBuckets t) warningKey) (-1)
              in if bucket \<le> prev then (t, False)
                 else (t\<lparr>tk_warningBuckets := jm_set warningKey bucket (tk_warningBuckets t)\<rparr>, True))"

definition observeBatchComposite ::
  "loop_config \<Rightarrow> (string \<Rightarrow> string) \<Rightarrow> (string \<times> json) list \<Rightarrow> compressed_result list \<Rightarrow>
     tracker \<Rightarrow> tracker \<times> loop_verdict" where
  "observeBatchComposite cfg sha calls results t =
     (let argsHash = hashBatchCompositeArgs sha calls;
          (streak, latest) = getNoProgressStreak (tk_history t) BATCH_LOOP_LABEL argsHash None;
          repeatCount = getRepeatCount (tk_history t) BATCH_LOOP_LABEL argsHash None;
          verdict =
            (if streak \<ge> criticalThreshold cfg then
               \<lparr>lv_level = LvCritical, lv_count = streak, lv_detector = NoProgress,
                lv_warningKey = critical_key BATCH_LOOP_LABEL argsHash latest,
                lv_tool = BATCH_LOOP_LABEL, lv_argsHash = argsHash\<rparr>
             else if repeatCount \<ge> warningThreshold cfg then
               \<lparr>lv_level = LvWarn, lv_count = repeatCount, lv_detector = GenericRepeat,
                lv_warningKey = ''warn:'' @ BATCH_LOOP_LABEL @ '':'' @ argsHash,
                lv_tool = BATCH_LOOP_LABEL, lv_argsHash = argsHash\<rparr>
             else
               \<lparr>lv_level = LvOk, lv_count = 0, lv_detector = GenericRepeat,
                lv_warningKey = ''ok:'' @ BATCH_LOOP_LABEL @ '':'' @ argsHash,
                lv_tool = BATCH_LOOP_LABEL, lv_argsHash = argsHash\<rparr>)
      in (push_history cfg \<lparr>he_tool = BATCH_LOOP_LABEL, he_argsHash = argsHash,
            he_resultHash = Some (hashBatchCompositeResults sha calls results),
            he_vetoed = False, he_round = None, he_epoch = None\<rparr> t, verdict))"

end
