(* ===== verification/Read_Observation.thy ===== *)
theory Read_Observation
  imports Read_Coverage Fingerprints
begin

text \<open>
  \<open>classifyReadResult\<close> of \<open>src/src/agent/progress/read-coverage.ts\<close> and \<open>parseReadCoverage\<close> of
  \<open>src/src/tools/os/fs/fs-read-coverage.ts\<close>: the read observation of a completed tool result, or
  none when the result carries no coherent range. \<open>obs_ok\<close> is what the detectors rely on.
\<close>

definition READ_COVERAGE_DETAIL_KEY :: string where
  "READ_COVERAGE_DETAIL_KEY = ''readCoverage''"

record read_coverage_detail =
  rd_path :: string
  rd_contentHash :: string
  rd_startLine :: int
  rd_endLine :: int
  rd_totalLines :: int
  rd_numbered :: bool
  rd_truncated :: bool

definition asLineNumber :: "json \<Rightarrow> int option" where
  "asLineNumber v = (case v of JNum n \<Rightarrow> if n < 0 then None else Some n | _ \<Rightarrow> None)"

definition parseReadCoverage :: "(string \<times> json) list \<Rightarrow> read_coverage_detail option" where
  "parseReadCoverage details =
     (let raw = json_field (JObj details) READ_COVERAGE_DETAIL_KEY
      in (case (stringField raw ''path'', stringField raw ''contentHash'') of
            (Some path, Some contentHash) \<Rightarrow>
              (case (asLineNumber (json_field raw ''startLine''), asLineNumber (json_field raw ''endLine''),
                     asLineNumber (json_field raw ''totalLines'')) of
                 (Some startLine, Some endLine, Some totalLines) \<Rightarrow>
                   let empty = (startLine = 0 \<and> endLine = 0)
                   in if \<not> empty \<and> (startLine < 1 \<or> startLine > endLine) then None
                      else Some \<lparr>rd_path = path, rd_contentHash = contentHash, rd_startLine = startLine,
                                 rd_endLine = endLine, rd_totalLines = totalLines,
                                 rd_numbered = (json_field raw ''numbered'' = JBool True),
                                 rd_truncated = (json_field raw ''truncated'' = JBool True)\<rparr>
               | _ \<Rightarrow> None)
          | _ \<Rightarrow> None))"

definition classifyReadResult :: "string \<Rightarrow> compressed_result \<Rightarrow> read_observation option" where
  "classifyReadResult tool result =
     (if tool \<noteq> ''os.fs.read'' then None
      else if cr_status result \<noteq> StOk then None
      else (case parseReadCoverage (cr_details result) of
              None \<Rightarrow> None
            | Some d \<Rightarrow> Some \<lparr>ro_path = rd_path d, ro_contentHash = rd_contentHash d,
                ro_span = (if rd_startLine d = 0 then None
                           else Some \<lparr>rstart = rd_startLine d, rend = rd_endLine d\<rparr>),
                ro_totalLines = rd_totalLines d, ro_numbered = rd_numbered d,
                ro_truncated = rd_truncated d\<rparr>))"

record read_turn_identity =
  ri_path :: string
  ri_contentHash :: string
  ri_startLine :: int
  ri_endLine :: int
  ri_numbered :: bool

definition readTurnIdentity :: "string \<Rightarrow> compressed_result \<Rightarrow> read_turn_identity option" where
  "readTurnIdentity tool result =
     (case classifyReadResult tool result of
        None \<Rightarrow> None
      | Some obs \<Rightarrow>
          (case ro_span obs of None \<Rightarrow> None
           | Some s \<Rightarrow> Some \<lparr>ri_path = ro_path obs, ri_contentHash = ro_contentHash obs,
               ri_startLine = rstart s, ri_endLine = rend s, ri_numbered = ro_numbered obs\<rparr>))"

definition obs_ok :: "read_observation \<Rightarrow> bool" where
  "obs_ok obs \<longleftrightarrow> (\<forall>s. ro_span obs = Some s \<longrightarrow> range_ok s)"

lemma parsed_range:
  assumes "parseReadCoverage details = Some d"
  shows "rd_startLine d = 0 \<and> rd_endLine d = 0 \<or> 1 \<le> rd_startLine d \<and> rd_startLine d \<le> rd_endLine d"
  using assms
  by (auto simp: parseReadCoverage_def Let_def split: option.splits prod.splits if_splits)

lemma classified_ok: "classifyReadResult tool r = Some obs \<Longrightarrow> obs_ok obs"
  by (auto simp: classifyReadResult_def obs_ok_def range_ok_def dest!: parsed_range
       split: if_splits option.splits)

end
