(* ===== verification/Loop_Invariant.thy ===== *)
theory Loop_Invariant
  imports Loop_Detector Read_Observation
begin

text \<open>
  The tracker of \<open>src/src/agent/loop-detector.ts\<close> stays well formed: the threshold ladders of the
  constructor are ordered, the history and the maps respect their caps, a vetoed entry carries no
  result, and the nested structures (coverage, probe runs, epochs) keep their own invariants
  along every sequence of public operations (\<open>tracker_step\<close>, \<open>tracker_reach\<close>).
\<close>


section \<open>The ladders\<close>

definition config_ok :: "loop_config \<Rightarrow> bool" where
  "config_ok cfg \<longleftrightarrow>
     2 \<le> warningThreshold cfg \<and> warningThreshold cfg \<le> criticalThreshold cfg \<and>
     criticalThreshold cfg \<le> historySize cfg \<and> 1 \<le> breakerVetoStreak cfg \<and>
     2 \<le> wanderingThreshold cfg \<and> wanderingThreshold cfg \<le> wanderingEscalation cfg \<and>
     wanderingEscalation cfg \<le> historySize cfg \<and> 1 \<le> wanderingWindowWarning cfg \<and>
     wanderingWindowWarning cfg < wanderingCeiling cfg \<and> wanderingCeiling cfg \<le> historySize cfg \<and>
     1 \<le> warningBucketSize cfg"

lemma ceil_share_le: "2 \<le> n \<Longrightarrow> ceil_share n \<le> n"
  by (simp add: ceil_share_def)

lemma ceil_share_ge: "2 \<le> n \<Longrightarrow> 2 \<le> ceil_share n"
  by (simp add: ceil_share_def)

lemma config_ok_intro:
  fixes w c b wt we h bk :: int
  assumes "2 \<le> w" "w \<le> c" "1 \<le> b" "2 \<le> wt" "wt \<le> we" "c \<le> h" "we \<le> h" "1 \<le> bk"
    and "ce = max 2 (ceil_share (nat h))" and "win = min (ce - 1) (max 2 x)"
  shows "config_ok \<lparr>warningThreshold = nat w, criticalThreshold = nat c, breakerVetoStreak = nat b,
     historySize = nat h, warningBucketSize = nat bk, wanderingThreshold = nat wt,
     wanderingEscalation = nat we, wanderingCeiling = ce, wanderingWindowWarning = win\<rparr>"
proof -
  have h: "2 \<le> nat h" using assms(1,2,6) by simp
  have ce: "ce = ceil_share (nat h)" "2 \<le> ce" "ce \<le> nat h"
    using ceil_share_ge [OF h] ceil_share_le [OF h] assms(9) by simp_all
  have win: "1 \<le> win" "win < ce" using ce(2) assms(10) by auto
  show ?thesis
    unfolding config_ok_def using assms(1-8) ce win by (simp add: nat_mono le_nat_iff)
qed

lemma config_ok_mk: "config_ok (mk_loop_config opts)"
  unfolding mk_loop_config_def Let_def
  by (rule config_ok_intro [OF _ _ _ _ _ _ _ _ refl refl])
     (rule max.cobounded1 max.cobounded2 order_trans [OF max.cobounded1 max.cobounded1]
        order_trans [OF max.cobounded2 max.cobounded1])+

section \<open>Well-formed trackers\<close>

definition entry_ok :: "history_entry \<Rightarrow> bool" where
  "entry_ok e \<longleftrightarrow> (he_vetoed e \<longrightarrow> he_resultHash e = None)"

definition coverage_ok :: "(string, read_entry) jsmap \<Rightarrow> bool" where
  "coverage_ok m \<longleftrightarrow> jm_ok m \<and> length m \<le> MAX_TRACKED_READ_FILES \<and>
     (\<forall>q \<in> set m. cov_ok (re_covered (snd q)))"

definition outcomes_ok :: "(string, nat) jsmap \<Rightarrow> bool" where
  "outcomes_ok m \<longleftrightarrow> jm_ok m \<and> length m \<le> MAX_TRACKED_OUTCOMES \<and> (\<forall>q \<in> set m. 0 < snd q)"

definition tracker_ok :: "loop_config \<Rightarrow> tracker \<Rightarrow> bool" where
  "tracker_ok cfg t \<longleftrightarrow>
     length (tk_history t) \<le> historySize cfg \<and> (\<forall>e \<in> set (tk_history t). entry_ok e) \<and>
     jm_ok (tk_warningBuckets t) \<and> jm_ok (tk_testRuns t) \<and> jm_ok (tk_pendingTestKeys t) \<and>
     coverage_ok (tk_readCoverage t) \<and> outcomes_ok (tk_outcomeCounts t) \<and>
     runs_ok (tk_probeRuns t) \<and> epochs_ok (tk_mutations t) \<and>
     (tk_vetoSignature t = None \<longleftrightarrow> tk_vetoCount t = 0)"

lemma set_jm_delete_subset: "set (jm_delete k m) \<subseteq> set m"
  by (auto simp: jm_delete_def)

lemma set_jm_evict_subset: "set (jm_evict cap m) \<subseteq> set m"
  by (auto simp: jm_evict_def jm_delete_def)

lemma set_reinsert_evict: "set (jm_evict cap (jm_set k v (jm_delete k' m))) \<subseteq> insert (k, v) (set m)"
  using set_jm_evict_subset set_jm_set_subset set_jm_delete_subset by fast

lemma length_trimHistory: "length (trimHistory cfg h) \<le> historySize cfg"
  by (simp add: trimHistory_def)

lemma set_trimHistory: "set (trimHistory cfg h) \<subseteq> set h"
  by (simp add: trimHistory_def set_drop_subset)

lemma tracker_ok_new: "tracker_ok cfg newTracker"
  by (simp add: tracker_ok_def newTracker_def coverage_ok_def outcomes_ok_def runs_ok_empty
        epochs_ok_def emptyEpochs_def)

lemma tracker_ok_push:
  assumes "tracker_ok cfg t" and "entry_ok e"
  shows "tracker_ok cfg (push_history cfg e t)"
  using assms set_trimHistory [of cfg "tk_history t @ [e]"]
  by (auto simp: tracker_ok_def push_history_def length_trimHistory)

lemma tracker_ok_runRounds: "tracker_ok cfg t \<Longrightarrow> tracker_ok cfg (fst (runRounds tool h t))"
  by (simp add: tracker_ok_def runRounds_def probe_rounds_def Let_def runs_ok_applyProgress)

lemma tracker_ok_runSpread: "tracker_ok cfg t \<Longrightarrow> tracker_ok cfg (fst (runSpread tool h t))"
  by (simp add: tracker_ok_def runSpread_def probe_spread_def Let_def runs_ok_applyProgress)

lemma fst_wanderingWarning:
  "fst (wanderingWarning cfg tool h t) = fst (runRounds tool h (fst (runSpread tool h t)))"
  by (simp add: wanderingWarning_def Let_def split: prod.splits)

lemma fst_wanderingStop:
  "fst (wanderingStop cfg sha tool args t) =
     (if isWanderingProneTool tool
      then fst (runRounds tool (hashToolCall sha tool args) (fst (runSpread tool (hashToolCall sha tool args) t)))
      else t)"
  by (simp add: wanderingStop_def Let_def split: prod.splits)

lemma tracker_ok_wanderingStop: "tracker_ok cfg t \<Longrightarrow> tracker_ok cfg (fst (wanderingStop cfg sha tool args t))"
  by (simp add: fst_wanderingStop tracker_ok_runRounds tracker_ok_runSpread)

lemma fst_check:
  "fst (check cfg sha tool args t) = t \<or>
   fst (check cfg sha tool args t) = fst (wanderingWarning cfg tool (hashToolCall sha tool args) t)"
  by (auto simp: check_def Let_def split: prod.splits option.splits if_splits)

lemma tracker_ok_check: "tracker_ok cfg t \<Longrightarrow> tracker_ok cfg (fst (check cfg sha tool args t))"
  using fst_check [of cfg sha tool args t]
  by (auto simp: fst_wanderingWarning tracker_ok_runRounds tracker_ok_runSpread)

lemma tracker_ok_noteStep: "tracker_ok cfg t \<Longrightarrow> tracker_ok cfg (noteStep i t)"
  by (simp add: tracker_ok_def noteStep_def)

lemma tracker_ok_recordCall: "tracker_ok cfg t \<Longrightarrow> tracker_ok cfg (recordCall cfg sha tool args t)"
  by (simp add: recordCall_def tracker_ok_push entry_ok_def)

lemma patch_rev_spec:
  assumes "patch_rev tool h patch es = Some es'"
  shows "\<exists>xs e ys. es = xs @ e # ys \<and> es' = xs @ apply_patch patch e # ys \<and>
    he_tool e = tool \<and> he_argsHash e = h \<and> he_resultHash e = None \<and> \<not> he_vetoed e"
  using assms
proof (induction es arbitrary: es')
  case (Cons a es)
  show ?case
  proof (cases "he_tool a = tool \<and> he_argsHash a = h \<and> he_resultHash a = None \<and> \<not> he_vetoed a")
    case True
    with Cons.prems have "a # es = [] @ a # es \<and> es' = [] @ apply_patch patch a # es" by simp
    with True show ?thesis by blast
  next
    case False
    then obtain z where z: "patch_rev tool h patch es = Some z" "es' = a # z"
      using Cons.prems by auto
    then obtain xs e ys where "es = xs @ e # ys" "z = xs @ apply_patch patch e # ys"
      "he_tool e = tool \<and> he_argsHash e = h \<and> he_resultHash e = None \<and> \<not> he_vetoed e"
      using Cons.IH by blast
    with z show ?thesis by (intro exI [of _ "a # xs"]) auto
  qed
qed simp

lemma entry_ok_patch: "he_resultHash e = None \<Longrightarrow> \<not> he_vetoed e \<Longrightarrow> entry_ok (apply_patch patch e)"
  by (cases patch) (auto simp: entry_ok_def)

lemma tracker_ok_patch:
  assumes "tracker_ok cfg t"
  shows "tracker_ok cfg (patchLatestPending cfg sha tool args patch t)"
proof (cases "patch_rev tool (hashToolCall sha tool args) patch (rev (tk_history t))")
  case None
  then show ?thesis
    using assms by (simp add: patchLatestPending_def tracker_ok_push entry_ok_patch)
next
  case (Some es)
  then obtain xs e ys where "rev (tk_history t) = xs @ e # ys" "es = xs @ apply_patch patch e # ys"
    and e: "he_resultHash e = None" "\<not> he_vetoed e"
    using patch_rev_spec by blast
  then have h: "tk_history t = rev ys @ e # rev xs" "rev es = rev ys @ apply_patch patch e # rev xs"
    by (metis append.assoc append_Cons append_Nil rev.simps(2) rev_append rev_rev_ident, simp)
  show ?thesis
    using assms h entry_ok_patch [OF e, of patch] Some
    by (auto simp: patchLatestPending_def tracker_ok_def)
qed

lemma tracker_ok_noteVeto: "tracker_ok cfg t \<Longrightarrow> tracker_ok cfg (noteVeto sha tool args t)"
  by (auto simp: tracker_ok_def noteVeto_def Let_def)

lemma map_fst_reset: "map fst (map (\<lambda>(p, e). if P p e then (p, f e) else (p, e)) m) = map fst m"
  by (induction m) auto

lemma tracker_ok_noteMutationAttempt:
  assumes "tracker_ok cfg t"
  shows "tracker_ok cfg (noteMutationAttempt tool args landed t)"
proof -
  obtain m ts where n: "note_mutation tool args landed (tk_mutations t) = (m, ts)" by fastforce
  have "epochs_ok m" using note_epochs_ok [of "tk_mutations t" tool args landed] assms n
    by (simp add: tracker_ok_def)
  moreover have "coverage_ok (map (\<lambda>(path, entry).
      if re_noProgress entry = 0 then (path, entry)
      else if touches x (normalizeLoopPath path) then (path, entry\<lparr>re_noProgress := 0\<rparr>)
      else (path, entry)) (tk_readCoverage t))" for x
  proof -
    have "map fst (map (\<lambda>(path, entry).
      if re_noProgress entry = 0 then (path, entry)
      else if touches x (normalizeLoopPath path) then (path, entry\<lparr>re_noProgress := 0\<rparr>)
      else (path, entry)) (tk_readCoverage t)) = map fst (tk_readCoverage t)"
      by (auto simp: comp_def case_prod_beta)
    then show ?thesis using assms
      by (auto simp: tracker_ok_def coverage_ok_def jm_ok_def simp del: map_map)
  qed
  ultimately show ?thesis
    using assms n by (cases ts) (simp_all add: noteMutationAttempt_def tracker_ok_def)
qed

lemma tracker_ok_noteTestOutcome:
  "tracker_ok cfg t \<Longrightarrow> tracker_ok cfg (noteTestOutcome sha tool args r t)"
  by (auto simp: noteTestOutcome_def Let_def tracker_ok_def split: option.splits)

lemma outcomes_ok_Nil [simp]: "outcomes_ok []"
  by (simp add: outcomes_ok_def)

lemma outcomes_ok_bump:
  assumes "outcomes_ok m"
  shows "outcomes_ok (jm_evict MAX_TRACKED_OUTCOMES (jm_set k (Suc n) (jm_delete k m)))"
  using assms set_reinsert_evict [of MAX_TRACKED_OUTCOMES k "Suc n" k m]
    jm_insert_evict_bound [of m MAX_TRACKED_OUTCOMES k "Suc n" k]
  by (auto simp: outcomes_ok_def)

lemma tracker_ok_noteOutcomeFingerprint:
  "tracker_ok cfg t \<Longrightarrow> tracker_ok cfg (fst (noteOutcomeFingerprint tool r t))"
  by (simp add: noteOutcomeFingerprint_def Let_def tracker_ok_def outcomes_ok_bump)

lemma tracker_ok_recordOutcome:
  assumes "tracker_ok cfg t"
  shows "tracker_ok cfg (fst (recordOutcome cfg sha tool args r t))"
proof -
  note step = tracker_ok_noteTestOutcome [OF assms, of sha tool args r]
  have joined: "tracker_ok cfg (u\<lparr>tk_probeRuns := probe_record tool h b n (tk_probeRuns u)\<rparr>)"
    if "tracker_ok cfg u" for u h b n
    using that by (simp add: tracker_ok_def runs_ok_record)
  have reset: "tracker_ok cfg (u\<lparr>tk_vetoSignature := None, tk_vetoCount := 0\<rparr>)"
    if "tracker_ok cfg u" for u
    using that by (simp add: tracker_ok_def)
  let ?t1 = "noteTestOutcome sha tool args r t"
  let ?t2 = "noteMutationAttempt tool args (cr_status r = StOk) ?t1"
  show ?thesis
  proof (cases "hashToolOutcome sha tool args r")
    case None
    then have v: "isLoopVetoResult r" by (simp add: hashToolOutcome_None_iff)
    have "tracker_ok cfg (noteVeto sha tool args (patchLatestPending cfg sha tool args PatchVetoed ?t1))"
      by (intro tracker_ok_noteVeto tracker_ok_patch step)
    then show ?thesis by (simp add: recordOutcome_def v)
  next
    case (Some h)
    then have v: "\<not> isLoopVetoResult r" using hashToolOutcome_None_iff by (metis option.simps(3))
    have t3: "tracker_ok cfg (patchLatestPending cfg sha tool args (PatchResult h) ?t2)" (is "tracker_ok cfg ?t3")
      by (intro tracker_ok_patch tracker_ok_noteMutationAttempt step)
    note t4 = joined [OF t3, of "hashToolCall sha tool args" "cr_status r = StOk" "tk_stepRound ?t3"]
    show ?thesis
      using tracker_ok_noteOutcomeFingerprint [OF t4, of tool r]
        tracker_ok_noteOutcomeFingerprint [OF reset [OF t4], of tool r]
      by (simp add: recordOutcome_def v Some Let_def)
  qed
qed

lemma tracker_ok_recordTestRun: "tracker_ok cfg t \<Longrightarrow> tracker_ok cfg (recordTestRun sha key fp tool args t)"
  by (simp add: recordTestRun_def Let_def tracker_ok_def)

lemma coverage_ok_get: "coverage_ok m \<Longrightarrow> jm_get m p = Some e \<Longrightarrow> cov_ok (re_covered e)"
  by (drule jm_get_Some_in) (force simp: coverage_ok_def)

lemma coverage_ok_insert:
  assumes "coverage_ok m" and "cov_ok (re_covered e)"
  shows "coverage_ok (jm_evict MAX_TRACKED_READ_FILES (jm_set p e (jm_delete p m)))"
  using assms set_reinsert_evict [of MAX_TRACKED_READ_FILES p e p m]
    jm_insert_evict_bound [of m MAX_TRACKED_READ_FILES p e p]
  by (auto simp: coverage_ok_def)

lemma tracker_ok_recordRead:
  assumes "tracker_ok cfg t" and "obs_ok obs"
  shows "tracker_ok cfg (recordRead obs t)"
proof -
  have prev: "cov_ok (re_covered p)" if "jm_get (tk_readCoverage t) (ro_path obs) = Some p" for p
    using assms(1) coverage_ok_get that by (auto simp: tracker_ok_def)
  have cov: "coverage_ok (tk_readCoverage t)" using assms(1) by (simp add: tracker_ok_def)
  have "cov_ok (case ro_span obs of None \<Rightarrow> c | Some s \<Rightarrow> mergeRange c s)" if "cov_ok c" for c
    using that assms(2) mergeRange_spec(1) by (auto simp: obs_ok_def split: option.splits)
  then have "coverage_ok (tk_readCoverage (recordRead obs t))"
    using prev by (auto simp: recordRead_def Let_def intro!: coverage_ok_insert cov split: option.splits)
  then show ?thesis using assms(1) by (simp add: tracker_ok_def recordRead_def Let_def)
qed

lemma tracker_ok_shouldEmitWarning:
  "tracker_ok cfg t \<Longrightarrow> tracker_ok cfg (fst (shouldEmitWarning cfg key n m t))"
  by (simp add: shouldEmitWarning_def Let_def tracker_ok_def)

lemma tracker_ok_observeBatchComposite:
  "tracker_ok cfg t \<Longrightarrow> tracker_ok cfg (fst (observeBatchComposite cfg sha calls rs t))"
  by (simp add: observeBatchComposite_def Let_def tracker_ok_push entry_ok_def split: prod.splits)

section \<open>Reachable trackers\<close>

inductive tracker_step :: "loop_config \<Rightarrow> (string \<Rightarrow> string) \<Rightarrow> tracker \<Rightarrow> tracker \<Rightarrow> bool"
  for cfg :: loop_config and sha :: "string \<Rightarrow> string" where
  check: "tracker_step cfg sha t (fst (check cfg sha tool args t))"
| wander: "tracker_step cfg sha t (fst (wanderingStop cfg sha tool args t))"
| step: "tracker_step cfg sha t (noteStep i t)"
| call: "tracker_step cfg sha t (recordCall cfg sha tool args t)"
| outcome: "tracker_step cfg sha t (fst (recordOutcome cfg sha tool args r t))"
| veto: "tracker_step cfg sha t (noteVeto sha tool args t)"
| test: "tracker_step cfg sha t (recordTestRun sha key fp tool args t)"
| read: "classifyReadResult tool r = Some obs \<Longrightarrow> tracker_step cfg sha t (recordRead obs t)"
| emit: "tracker_step cfg sha t (fst (shouldEmitWarning cfg key n m t))"
| batch: "tracker_step cfg sha t (fst (observeBatchComposite cfg sha calls rs t))"

inductive tracker_reach :: "loop_config \<Rightarrow> (string \<Rightarrow> string) \<Rightarrow> tracker \<Rightarrow> bool"
  for cfg :: loop_config and sha :: "string \<Rightarrow> string" where
  start: "tracker_reach cfg sha newTracker"
| more: "tracker_reach cfg sha t \<Longrightarrow> tracker_step cfg sha t t' \<Longrightarrow> tracker_reach cfg sha t'"

lemma tracker_ok_step: "tracker_step cfg sha t t' \<Longrightarrow> tracker_ok cfg t \<Longrightarrow> tracker_ok cfg t'"
  by (induction rule: tracker_step.induct)
     (simp_all add: tracker_ok_check tracker_ok_wanderingStop tracker_ok_noteStep tracker_ok_recordCall
        tracker_ok_recordOutcome tracker_ok_noteVeto tracker_ok_recordTestRun tracker_ok_recordRead classified_ok
        tracker_ok_shouldEmitWarning tracker_ok_observeBatchComposite)

lemma reach_ok: "tracker_reach cfg sha t \<Longrightarrow> tracker_ok cfg t"
  by (induction rule: tracker_reach.induct) (auto simp: tracker_ok_new intro: tracker_ok_step)

end
