(* ===== verification/Loop_Behaviour.thy ===== *)
theory Loop_Behaviour
  imports Loop_Invariant
begin

text \<open>
  What the detectors of \<open>src/src/agent/loop-detector.ts\<close> measure: the no-progress streak as a prefix
  of the results of the matching calls, the veto counter as a count over the latest outcomes, the
  replay of one call until it is critical, the epochs that keep a re-read after an edit out of
  the counts, the read coverage as a set of lines and the outcome counts since a write.
\<close>


section \<open>The no-progress streak\<close>

definition matches :: "string \<Rightarrow> string \<Rightarrow> nat option \<Rightarrow> history_entry \<Rightarrow> bool" where
  "matches tool h ep e \<longleftrightarrow> he_tool e = tool \<and> he_argsHash e = h \<and> he_epoch e = ep"

text \<open>The results of the completed calls that match, the latest first.\<close>

definition results_of :: "history_entry list \<Rightarrow> string \<Rightarrow> string \<Rightarrow> nat option \<Rightarrow> string list" where
  "results_of hist tool h ep =
     map (the \<circ> he_resultHash) (filter (\<lambda>e. matches tool h ep e \<and> has_result e) (rev hist))"

definition streak_of :: "string list \<Rightarrow> nat \<times> string option" where
  "streak_of rs = (case rs of [] \<Rightarrow> (0, None) | r # _ \<Rightarrow> (length (takeWhile (\<lambda>x. x = r) rs), Some r))"

lemma has_resultE: "has_result e \<Longrightarrow> (\<And>r. he_resultHash e = Some r \<Longrightarrow> thesis) \<Longrightarrow> thesis"
  by (cases "he_resultHash e") (simp_all add: has_result_def)

lemma length_filter_conj: "length (filter (\<lambda>x. P x \<and> Q x) xs) \<le> length (filter P xs)"
  by (induction xs) auto

lemma streak_loop_Some:
  "streak_loop es tool h ep n (Some l) =
     (n + length (takeWhile (\<lambda>x. x = l) (map (the \<circ> he_resultHash)
            (filter (\<lambda>e. matches tool h ep e \<and> has_result e) es))), Some l)"
proof (induction es arbitrary: n)
  case (Cons e es)
  show ?case
  proof (cases "matches tool h ep e \<and> has_result e")
    case True
    then obtain r where "he_resultHash e = Some r" by (auto elim: has_resultE)
    with True show ?thesis using Cons.IH by (simp add: matches_def)
  next
    case False
    then show ?thesis using Cons.IH by (auto simp: matches_def)
  qed
qed simp

lemma streak_loop_None:
  "streak_loop es tool h ep 0 None =
     streak_of (map (the \<circ> he_resultHash) (filter (\<lambda>e. matches tool h ep e \<and> has_result e) es))"
proof (induction es)
  case (Cons e es)
  show ?case
  proof (cases "matches tool h ep e \<and> has_result e")
    case True
    then obtain r where "he_resultHash e = Some r" by (auto elim: has_resultE)
    with True show ?thesis by (simp add: streak_loop_Some streak_of_def matches_def comp_def)
  next
    case False
    then show ?thesis using Cons.IH by (auto simp: matches_def)
  qed
qed (simp add: streak_of_def)

lemma streak_results: "getNoProgressStreak hist tool h ep = streak_of (results_of hist tool h ep)"
  by (simp add: getNoProgressStreak_def results_of_def streak_loop_None)

lemma streak_le: "fst (streak_of rs) \<le> length rs"
  by (auto simp: streak_of_def length_takeWhile_le split: list.splits)

lemma streak_replicate: "n \<le> fst (streak_of (replicate n r @ rs))"
  by (cases n) (auto simp: streak_of_def takeWhile_append)

lemma results_le_repeats: "length (results_of hist tool h ep) \<le> getRepeatCount hist tool h ep"
proof -
  have "length (results_of hist tool h ep) \<le> length (filter (matches tool h ep) (rev hist))"
    by (simp add: results_of_def length_filter_conj)
  also have "\<dots> = getRepeatCount hist tool h ep"
    by (simp add: getRepeatCount_def matches_def [abs_def] rev_filter [symmetric])
  finally show ?thesis .
qed

section \<open>Vetoes and the breaker\<close>

lemma patched_veto_streak:
  assumes "patch_rev tool (hashToolCall sha tool args) PatchVetoed (rev (tk_history t)) = Some es"
  shows "results_of (tk_history (patchLatestPending cfg sha tool args PatchVetoed t)) tool' h' ep' =
         results_of (tk_history t) tool' h' ep'"
proof -
  obtain xs e ys where r: "rev (tk_history t) = xs @ e # ys" "es = xs @ apply_patch PatchVetoed e # ys"
    and e: "he_resultHash e = None"
    using patch_rev_spec [OF assms] by blast
  have "\<not> has_result e" "\<not> has_result (apply_patch PatchVetoed e)" using e by (simp_all add: has_result_def)
  then show ?thesis using r assms by (simp add: results_of_def patchLatestPending_def)
qed

definition vetoes :: "tracker \<Rightarrow> string \<Rightarrow> nat" where
  "vetoes t sig = (if tk_vetoSignature t = Some sig then tk_vetoCount t else 0)"

lemma veto_fields_push [simp]:
  "tk_vetoSignature (push_history cfg e t) = tk_vetoSignature t"
  "tk_vetoCount (push_history cfg e t) = tk_vetoCount t"
  by (simp_all add: push_history_def)

lemma veto_fields_patch [simp]:
  "tk_vetoSignature (patchLatestPending cfg sha tool args p t) = tk_vetoSignature t"
  "tk_vetoCount (patchLatestPending cfg sha tool args p t) = tk_vetoCount t"
  by (simp_all add: patchLatestPending_def Let_def split: option.splits)

lemma veto_fields_mutation [simp]:
  "tk_vetoSignature (noteMutationAttempt tool args b t) = tk_vetoSignature t"
  "tk_vetoCount (noteMutationAttempt tool args b t) = tk_vetoCount t"
  by (simp_all add: noteMutationAttempt_def Let_def split: option.splits prod.splits)

lemma veto_fields_test [simp]:
  "tk_vetoSignature (noteTestOutcome sha tool args r t) = tk_vetoSignature t"
  "tk_vetoCount (noteTestOutcome sha tool args r t) = tk_vetoCount t"
  by (simp_all add: noteTestOutcome_def Let_def split: option.splits)

lemma veto_fields_fingerprint [simp]:
  "tk_vetoSignature (fst (noteOutcomeFingerprint tool r t)) = tk_vetoSignature t"
  "tk_vetoCount (fst (noteOutcomeFingerprint tool r t)) = tk_vetoCount t"
  by (simp_all add: noteOutcomeFingerprint_def Let_def)

lemma vetoes_recordOutcome:
  "vetoes (fst (recordOutcome cfg sha tool args r t)) sig =
     (if sig \<noteq> hashToolCall sha tool args then 0
      else if isLoopVetoResult r then Suc (vetoes t sig) else vetoes t sig)"
proof (cases "isLoopVetoResult r")
  case True
  then show ?thesis by (auto simp: recordOutcome_def vetoes_def noteVeto_def Let_def)
next
  case False
  then obtain x where "hashToolOutcome sha tool args r = Some x"
    using hashToolOutcome_None_iff by (metis not_None_eq)
  with False show ?thesis by (auto simp: recordOutcome_def vetoes_def Let_def)
qed

type_synonym outcome_event = "string \<times> json \<times> compressed_result"

definition record_outcomes ::
  "loop_config \<Rightarrow> (string \<Rightarrow> string) \<Rightarrow> outcome_event list \<Rightarrow> tracker \<Rightarrow> tracker" where
  "record_outcomes cfg sha = fold (\<lambda>(tool, args, r) t. fst (recordOutcome cfg sha tool args r t))"

text \<open>The reference: vetoes of a signature, the latest outcome first, up to the first outcome of
  another call.\<close>

fun trailing_vetoes :: "(string \<Rightarrow> string) \<Rightarrow> string \<Rightarrow> outcome_event list \<Rightarrow> nat" where
  "trailing_vetoes sha sig [] = 0"
| "trailing_vetoes sha sig ((tool, args, r) # es) =
     (if sig \<noteq> hashToolCall sha tool args then 0
      else if isLoopVetoResult r then Suc (trailing_vetoes sha sig es) else trailing_vetoes sha sig es)"

lemma vetoes_record_outcomes:
  "vetoes (record_outcomes cfg sha es newTracker) sig = trailing_vetoes sha sig (rev es)"
proof (induction es arbitrary: sig rule: rev_induct)
  case Nil
  show ?case by (simp add: record_outcomes_def vetoes_def newTracker_def)
next
  case (snoc e es)
  obtain tool args r where "e = (tool, args, r)" by (cases e)
  with snoc show ?case by (simp add: record_outcomes_def vetoes_recordOutcome)
qed

section \<open>Replaying one call\<close>

text \<open>
  One step that runs the same call again: the gate notes the step and checks, the call is
  recorded at dispatch and its outcome after it.
\<close>

definition replay_step ::
  "loop_config \<Rightarrow> (string \<Rightarrow> string) \<Rightarrow> string \<Rightarrow> json \<Rightarrow> compressed_result \<Rightarrow> int \<Rightarrow> tracker \<Rightarrow> tracker" where
  "replay_step cfg sha tool args r i t =
     fst (recordOutcome cfg sha tool args r
            (recordCall cfg sha tool args (fst (check cfg sha tool args (noteStep i t)))))"

definition replay ::
  "loop_config \<Rightarrow> (string \<Rightarrow> string) \<Rightarrow> string \<Rightarrow> json \<Rightarrow> compressed_result \<Rightarrow> int list \<Rightarrow> tracker \<Rightarrow> tracker" where
  "replay cfg sha tool args r = fold (replay_step cfg sha tool args r)"

lemma trimHistory_snoc:
  "0 < historySize cfg \<Longrightarrow> trimHistory cfg (h @ [e]) = drop (Suc (length h) - historySize cfg) h @ [e]"
  by (simp add: trimHistory_def)

lemma core_fields_check [simp]:
  "tk_history (fst (check cfg sha tool args t)) = tk_history t"
  "tk_mutations (fst (check cfg sha tool args t)) = tk_mutations t"
  "tk_stepRound (fst (check cfg sha tool args t)) = tk_stepRound t"
  using fst_check [of cfg sha tool args t]
  by (auto simp: fst_wanderingWarning runRounds_def runSpread_def Let_def probe_rounds_def probe_spread_def)

lemma core_fields_noteStep [simp]:
  "tk_history (noteStep i t) = tk_history t" "tk_mutations (noteStep i t) = tk_mutations t"
  by (simp_all add: noteStep_def)

lemma core_fields_push [simp]:
  "tk_history (push_history cfg e t) = trimHistory cfg (tk_history t @ [e])"
  "tk_mutations (push_history cfg e t) = tk_mutations t"
  by (simp_all add: push_history_def)

lemma core_fields_test [simp]:
  "tk_history (noteTestOutcome sha tool args r t) = tk_history t"
  "tk_mutations (noteTestOutcome sha tool args r t) = tk_mutations t"
  by (simp_all add: noteTestOutcome_def Let_def split: option.splits)

lemma core_fields_fingerprint [simp]:
  "tk_history (fst (noteOutcomeFingerprint tool r t)) = tk_history t"
  "tk_mutations (fst (noteOutcomeFingerprint tool r t)) = tk_mutations t"
  by (simp_all add: noteOutcomeFingerprint_def Let_def)

lemma core_fields_mutation [simp]:
  "tk_history (noteMutationAttempt tool args b t) = tk_history t"
  "tk_mutations (noteMutationAttempt tool args b t) = fst (note_mutation tool args b (tk_mutations t))"
  by (simp_all add: noteMutationAttempt_def Let_def split: option.splits prod.splits)

lemma mutations_patch [simp]:
  "tk_mutations (patchLatestPending cfg sha tool args p t) = tk_mutations t"
  by (simp add: patchLatestPending_def Let_def split: option.splits)

lemma history_recordOutcome:
  assumes "hashToolOutcome sha tool args r = Some h"
  shows "tk_history (fst (recordOutcome cfg sha tool args r t)) =
    tk_history (patchLatestPending cfg sha tool args (PatchResult h)
      (noteMutationAttempt tool args (cr_status r = StOk) (noteTestOutcome sha tool args r t)))"
  using assms hashToolOutcome_None_iff [of sha tool args r]
  by (simp add: recordOutcome_def Let_def)

lemma mutations_recordOutcome:
  "tk_mutations (fst (recordOutcome cfg sha tool args r t)) =
     (if isLoopVetoResult r then tk_mutations t
      else fst (note_mutation tool args (cr_status r = StOk) (tk_mutations t)))"
  using hashToolOutcome_None_iff [of sha tool args r]
  by (auto simp: recordOutcome_def Let_def noteVeto_def split: option.splits)

text \<open>The epoch of a read is unchanged by recording that read: a read is no mutation.\<close>

lemma readEpoch_cong: "tk_mutations t = tk_mutations u \<Longrightarrow> readEpoch t tool args = readEpoch u tool args"
  by (simp add: readEpoch_def)

lemma readEpoch_recordOutcome:
  "readEpoch (fst (recordOutcome cfg sha tool args r t)) tool args = readEpoch t tool args"
proof (cases "tool = ''os.fs.read''")
  case True
  then have "mutationTargets tool args = None"
    by (simp add: mutationTargets_def MUTATING_TOOLS_def)
  then have "fst (note_mutation tool args b m) = m" for b m by (simp add: note_mutation_def)
  then show ?thesis by (intro readEpoch_cong) (simp add: mutations_recordOutcome)
next
  case False
  then show ?thesis by (simp add: readEpoch_def readTargetPath_def)
qed

lemma history_replay_step:
  assumes "config_ok cfg" and "hashToolOutcome sha tool args r = Some x"
  shows "\<exists>rd. tk_history (replay_step cfg sha tool args r i t) =
    trimHistory cfg (tk_history t @ [\<lparr>he_tool = tool, he_argsHash = hashToolCall sha tool args,
      he_resultHash = Some x, he_vetoed = False, he_round = rd, he_epoch = readEpoch t tool args\<rparr>])"
    and "readEpoch (replay_step cfg sha tool args r i t) tool args = readEpoch t tool args"
proof -
  have hs: "0 < historySize cfg" using assms(1) by (simp add: config_ok_def)
  have ep: "readEpoch (fst (check cfg sha tool args (noteStep i t))) tool args = readEpoch t tool args"
    by (rule readEpoch_cong) simp
  show "\<exists>rd. tk_history (replay_step cfg sha tool args r i t) =
    trimHistory cfg (tk_history t @ [\<lparr>he_tool = tool, he_argsHash = hashToolCall sha tool args,
      he_resultHash = Some x, he_vetoed = False, he_round = rd, he_epoch = readEpoch t tool args\<rparr>])"
    by (simp add: replay_step_def history_recordOutcome [OF assms(2)] patchLatestPending_def
        recordCall_def trimHistory_snoc [OF hs] ep Let_def)
  show "readEpoch (replay_step cfg sha tool args r i t) tool args = readEpoch t tool args"
    using ep readEpoch_cong [of "recordCall cfg sha tool args (fst (check cfg sha tool args (noteStep i t)))"
       "fst (check cfg sha tool args (noteStep i t))"]
    by (simp add: replay_step_def readEpoch_recordOutcome recordCall_def)
qed

lemma results_of_snoc:
  "results_of (h @ [e]) tool hh ep =
     (if matches tool hh ep e \<and> has_result e then the (he_resultHash e) # results_of h tool hh ep
      else results_of h tool hh ep)"
  by (simp add: results_of_def)

text \<open>After \<open>n\<close> replays the last \<open>n\<close> entries (as far as the window reaches) are the call's.\<close>

lemma replay_history:
  assumes cfg: "config_ok cfg" and x: "hashToolOutcome sha tool args r = Some x"
  shows "\<exists>pre es. tk_history (replay cfg sha tool args r is t) = pre @ es \<and>
      length es = min (length is) (historySize cfg) \<and>
      (\<forall>e \<in> set es. matches tool (hashToolCall sha tool args) (readEpoch t tool args) e \<and>
                  he_resultHash e = Some x)"
    (is "\<exists>pre es. ?P is pre es")
    and "readEpoch (replay cfg sha tool args r is t) tool args = readEpoch t tool args"
proof (induction "is" rule: rev_induct)
  case Nil
  { case 1 show ?case by (simp add: replay_def) }
  { case 2 show ?case by (simp add: replay_def) }
next
  case (snoc i "is")
  let ?u = "replay cfg sha tool args r is t"
  have step: "replay cfg sha tool args r (is @ [i]) t = replay_step cfg sha tool args r i ?u"
    by (simp add: replay_def)
  { case 2 show ?case using snoc(2) history_replay_step(2) [OF cfg x] by (simp add: step) }
  { case 1
    obtain pre es where h: "tk_history ?u = pre @ es" and len: "length es = min (length is) (historySize cfg)"
      and all: "\<forall>e \<in> set es. matches tool (hashToolCall sha tool args) (readEpoch t tool args) e \<and>
          he_resultHash e = Some x" using snoc(1) by blast
    obtain e where h': "tk_history (replay_step cfg sha tool args r i ?u) = trimHistory cfg ((pre @ es) @ [e])"
      and e: "matches tool (hashToolCall sha tool args) (readEpoch t tool args) e" "he_resultHash e = Some x"
      using history_replay_step(1) [OF cfg x, of i ?u] snoc(2) h by (auto simp: matches_def)
    let ?k = "length pre + length es + 1 - historySize cfg"
    have "trimHistory cfg ((pre @ es) @ [e]) = drop ?k pre @ drop (?k - length pre) (es @ [e])"
      by (simp add: trimHistory_def)
    moreover have "length (drop (?k - length pre) (es @ [e])) = min (length (is @ [i])) (historySize cfg)"
      using len by simp
    moreover have "\<forall>e' \<in> set (drop (?k - length pre) (es @ [e])).
        matches tool (hashToolCall sha tool args) (readEpoch t tool args) e' \<and> he_resultHash e' = Some x"
      using all e by (auto dest: in_set_dropD)
    ultimately show ?case using step h' by metis }
qed

lemma results_of_all:
  assumes "\<forall>e \<in> set es. matches tool h ep e \<and> he_resultHash e = Some x" and "x \<noteq> []"
  shows "results_of (pre @ es) tool h ep = replicate (length es) x @ results_of pre tool h ep"
  using assms(1)
proof (induction es rule: rev_induct)
  case (snoc e es)
  have "has_result e" using snoc.prems assms(2) by (simp add: has_result_def)
  moreover have "pre @ es @ [e] = (pre @ es) @ [e]" by simp
  ultimately show ?case using snoc by (simp only: results_of_snoc) (simp add: replicate_append_same [symmetric])
qed simp

lemma check_critical_iff:
  "lv_level (snd (check cfg sha tool args t)) = LvCritical \<longleftrightarrow>
     criticalThreshold cfg \<le>
       fst (streak_of (results_of (tk_history t) tool (hashToolCall sha tool args) (readEpoch t tool args)))"
  by (auto simp: check_def Let_def streak_results split: prod.splits option.splits if_splits)

lemma replay_critical:
  assumes "config_ok cfg" and "hashToolOutcome sha tool args r = Some x" and "x \<noteq> []"
    and "criticalThreshold cfg \<le> length is"
  shows "lv_level (snd (check cfg sha tool args (replay cfg sha tool args r is t))) = LvCritical"
proof -
  obtain pre es where h: "tk_history (replay cfg sha tool args r is t) = pre @ es"
    and len: "length es = min (length is) (historySize cfg)"
    and all: "\<forall>e \<in> set es. matches tool (hashToolCall sha tool args) (readEpoch t tool args) e \<and>
        he_resultHash e = Some x"
    using replay_history(1) [OF assms(1,2)] by blast
  have "criticalThreshold cfg \<le> length es" using len assms(1,4) by (simp add: config_ok_def)
  then show ?thesis
    using results_of_all [OF all assms(3), of pre] streak_replicate
    by (simp add: check_critical_iff h replay_history(2) [OF assms(1,2)]) (meson le_trans)
qed

section \<open>Epochs in the history\<close>

definition epochs_behind :: "tracker \<Rightarrow> bool" where
  "epochs_behind t \<longleftrightarrow> (\<forall>e \<in> set (tk_history t). \<forall>n. he_epoch e = Some n \<longrightarrow> n \<le> me_seq (tk_mutations t))"

lemma note_seq_mono: "me_seq m \<le> me_seq (fst (note_mutation tool args b m))"
  by (cases rule: note_cases [of tool args b m]) simp_all

lemma readEpoch_le:
  "epochs_ok (tk_mutations t) \<Longrightarrow> readEpoch t tool args = Some n \<Longrightarrow> n \<le> me_seq (tk_mutations t)"
  by (auto simp: readEpoch_def epochFor_le_seq)

lemma epochs_behind_push:
  assumes "epochs_behind t" and "\<And>n. he_epoch e = Some n \<Longrightarrow> n \<le> me_seq (tk_mutations t)"
  shows "epochs_behind (push_history cfg e t)"
  using assms set_trimHistory [of cfg "tk_history t @ [e]"]
  unfolding epochs_behind_def by simp blast

lemma epoch_apply_patch [simp]: "he_epoch (apply_patch p e) = he_epoch e"
  by (cases p) simp_all

lemma epochs_behind_patch:
  assumes "epochs_behind t" and "epochs_ok (tk_mutations t)"
  shows "epochs_behind (patchLatestPending cfg sha tool args p t)"
proof (cases "patch_rev tool (hashToolCall sha tool args) p (rev (tk_history t))")
  case None
  then show ?thesis
    using assms by (auto simp: patchLatestPending_def intro!: epochs_behind_push dest: readEpoch_le)
next
  case (Some es)
  then obtain xs e ys where "rev (tk_history t) = xs @ e # ys" "es = xs @ apply_patch p e # ys"
    using patch_rev_spec by blast
  moreover from this(1) have "set (tk_history t) = set (xs @ e # ys)" by (metis set_rev)
  ultimately show ?thesis using assms(1) Some by (auto simp: patchLatestPending_def epochs_behind_def)
qed

lemma epochs_behind_seq:
  assumes "epochs_behind t" and "tk_history u = tk_history t"
    and "me_seq (tk_mutations t) \<le> me_seq (tk_mutations u)"
  shows "epochs_behind u"
  using assms unfolding epochs_behind_def by (metis le_trans)

lemma epochs_behind_recordOutcome:
  assumes "tracker_ok cfg t" and "epochs_behind t"
  shows "epochs_behind (fst (recordOutcome cfg sha tool args r t))"
proof (cases "hashToolOutcome sha tool args r")
  case None
  then have v: "isLoopVetoResult r" by (simp add: hashToolOutcome_None_iff)
  have "epochs_ok (tk_mutations t)" using assms(1) by (simp add: tracker_ok_def)
  then have "epochs_behind (patchLatestPending cfg sha tool args PatchVetoed (noteTestOutcome sha tool args r t))"
    using assms(2) by (intro epochs_behind_patch) (auto simp: epochs_behind_def)
  then show ?thesis by (simp add: recordOutcome_def v noteVeto_def Let_def epochs_behind_def)
next
  case (Some x)
  let ?u = "noteMutationAttempt tool args (cr_status r = StOk) (noteTestOutcome sha tool args r t)"
  have "epochs_behind ?u" using assms(2) by (rule epochs_behind_seq) (simp_all add: note_seq_mono)
  moreover have "epochs_ok (tk_mutations ?u)" using assms(1) note_epochs_ok by (simp add: tracker_ok_def)
  ultimately have "epochs_behind (patchLatestPending cfg sha tool args (PatchResult x) ?u)"
    by (rule epochs_behind_patch)
  moreover have "tk_mutations (fst (recordOutcome cfg sha tool args r t)) = tk_mutations ?u"
    using Some hashToolOutcome_None_iff [of sha tool args r] by (simp add: mutations_recordOutcome)
  ultimately show ?thesis by (simp add: epochs_behind_def history_recordOutcome [OF Some])
qed

lemma core_fields_wanderingStop [simp]:
  "tk_history (fst (wanderingStop cfg sha tool args t)) = tk_history t"
  "tk_mutations (fst (wanderingStop cfg sha tool args t)) = tk_mutations t"
  by (simp_all add: fst_wanderingStop runRounds_def runSpread_def Let_def probe_rounds_def probe_spread_def)

lemma epochs_behind_step:
  assumes "tracker_step cfg sha t t'" and "tracker_ok cfg t" and "epochs_behind t"
  shows "epochs_behind t'"
  using assms
proof (induction rule: tracker_step.induct)
  case (call t tool args)
  then show ?case
    unfolding recordCall_def
    by (intro epochs_behind_push) (auto simp: tracker_ok_def dest: readEpoch_le)
next
  case (outcome t tool args r)
  then show ?case by (simp add: epochs_behind_recordOutcome)
next
  case (batch t calls rs)
  then show ?case
    by (auto simp: observeBatchComposite_def Let_def intro!: epochs_behind_push split: prod.splits)
qed (simp_all add: epochs_behind_def noteVeto_def recordTestRun_def recordRead_def
       shouldEmitWarning_def Let_def)

lemma reach_epochs_behind: "tracker_reach cfg sha t \<Longrightarrow> epochs_behind t"
proof (induction rule: tracker_reach.induct)
  case start
  show ?case by (simp add: epochs_behind_def newTracker_def)
next
  case (more t t')
  then show ?case using epochs_behind_step reach_ok by blast
qed

lemma note_touched_fresh:
  assumes "epochs_ok m" and "note_mutation tool args b m = (m', Some ts)" and "touches ts p"
  shows "epochFor m' p = Suc (me_seq m)"
proof -
  have ok': "epochs_ok m'" using note_epochs_ok [OF assms(1), of tool args b] assms(2) by simp
  have "\<exists>e \<in> epoch_candidates m' p. Suc (me_seq m) \<le> e"
    and sq: "me_seq m' = Suc (me_seq m)"
  proof (atomize (full), cases rule: note_cases [of tool args b m])
    case (any n)
    then show "(\<exists>e \<in> epoch_candidates m' p. Suc (me_seq m) \<le> e) \<and> me_seq m' = Suc (me_seq m)"
      using assms(2) by (auto simp: epoch_candidates_def)
  next
    case (opened ps fs op l f fs')
    then have m': "m' = m\<lparr>me_seq := me_seq m + 1, me_latest := l, me_evictedFloor := f,
        me_failures := evict_failures fs'\<rparr>" and ts: "ts = Paths op"
      using assms(2) by auto
    obtain q where q: "q \<in> set op" "samePathTarget q p" using assms(3) ts by (auto simp: touches_def)
    have "jm_get l q = Some (me_seq m + 1) \<or> f = me_seq m + 1"
      by (rule opened_evict_facts(7) [OF assms(1) opened(4) q(1)])
    then show "(\<exists>e \<in> epoch_candidates m' p. Suc (me_seq m) \<le> e) \<and> me_seq m' = Suc (me_seq m)"
      using q(2) by (auto simp: epoch_candidates_def m')
  qed (use assms(2) in auto)
  then have "Suc (me_seq m) \<le> epochFor m' p"
    using epochFor_ge ok' unfolding epochs_ok_def by (meson le_trans)
  then show ?thesis using epochFor_le_seq [OF ok', of p] sq by simp
qed

lemma repeat_zero:
  "(\<And>e. e \<in> set hist \<Longrightarrow> he_epoch e \<noteq> ep) \<Longrightarrow> getRepeatCount hist tool h ep = 0"
  by (auto simp: getRepeatCount_def filter_empty_conv)

lemma streak_le_repeats:
  "fst (streak_of (results_of hist tool h ep)) \<le> getRepeatCount hist tool h ep"
  using streak_le results_le_repeats le_trans by blast

text \<open>With no earlier call of the epoch, a tool that is not wandering prone is let through.\<close>

lemma check_ok_no_repeat:
  assumes "config_ok cfg" and "\<not> isWanderingProneTool tool"
    and "getRepeatCount (tk_history t) tool (hashToolCall sha tool args) (readEpoch t tool args) = 0"
  shows "lv_level (snd (check cfg sha tool args t)) = LvOk"
proof -
  have "fst (streak_of (results_of (tk_history t) tool (hashToolCall sha tool args) (readEpoch t tool args))) = 0"
    using streak_le_repeats [of "tk_history t" tool "hashToolCall sha tool args" "readEpoch t tool args"]
      assms(3) by simp
  then show ?thesis
    using assms by (auto simp: check_def Let_def streak_results config_ok_def split: prod.splits)
qed

lemma reread_reopened:
  assumes "config_ok cfg" and "tracker_ok cfg t" and "epochs_behind t"
    and "snd (note_mutation tool args b (tk_mutations t)) = Some ts"
    and "touches ts (normalizeLoopPath p)" and "stringField rargs ''path'' = Some p"
  shows "lv_level (snd (check cfg sha ''os.fs.read'' rargs (noteMutationAttempt tool args b t))) = LvOk"
proof (rule check_ok_no_repeat [OF assms(1)])
  show "\<not> isWanderingProneTool ''os.fs.read''"
    by (simp add: isWanderingProneTool_def probeFamily_def js_starts_with_def)
  let ?t = "noteMutationAttempt tool args b t"
  obtain m' where m': "note_mutation tool args b (tk_mutations t) = (m', Some ts)"
    using assms(4) by (metis prod.collapse)
  have "epochFor m' (normalizeLoopPath p) = Suc (me_seq (tk_mutations t))"
    using assms(2,5) m' by (intro note_touched_fresh) (auto simp: tracker_ok_def)
  then have "readEpoch ?t ''os.fs.read'' rargs = Some (Suc (me_seq (tk_mutations t)))"
    using m' assms(6) by (simp add: readEpoch_def readTargetPath_def)
  then show "getRepeatCount (tk_history ?t) ''os.fs.read'' (hashToolCall sha ''os.fs.read'' rargs)
      (readEpoch ?t ''os.fs.read'' rargs) = 0"
    using assms(3) by (intro repeat_zero) (auto simp: epochs_behind_def)
qed

section \<open>Reads and outcomes\<close>

definition obs_lines :: "read_observation \<Rightarrow> int set" where
  "obs_lines obs = (case ro_span obs of None \<Rightarrow> {} | Some s \<Rightarrow> lines_of s)"

text \<open>The lines of a file the turn has read at the version of an observation.\<close>

definition lines_seen :: "tracker \<Rightarrow> read_observation \<Rightarrow> int set option" where
  "lines_seen t obs =
     (case jm_get (tk_readCoverage t) (ro_path obs) of
        None \<Rightarrow> None
      | Some e \<Rightarrow> if sameReadVersion e obs then Some (covered_lines (re_covered e)) else None)"

lemma fresh_lines_zero:
  assumes "cov_ok covered" and "obs_ok obs"
  shows "fresh_lines covered obs \<le> 0 \<longleftrightarrow> obs_lines obs \<subseteq> covered_lines covered"
proof (cases "ro_span obs")
  case (Some s)
  then have "range_ok s" using assms(2) by (simp add: obs_ok_def)
  then have "newlyCoveredCount covered s = 0 \<longleftrightarrow> lines_of s \<subseteq> covered_lines covered"
    by (rule newlyCoveredCount_zero_iff [OF assms(1)])
  then show ?thesis using Some newlyCoveredCount_nonneg [of covered s]
    by (auto simp: fresh_lines_def obs_lines_def)
qed (simp add: fresh_lines_def obs_lines_def)

lemma tracker_ok_cov:
  "tracker_ok cfg t \<Longrightarrow> jm_get (tk_readCoverage t) p = Some e \<Longrightarrow> cov_ok (re_covered e)"
  by (auto simp: tracker_ok_def intro: coverage_ok_get)

lemma read_repeat_iff:
  assumes "tracker_ok cfg t" and "obs_ok obs"
  shows "rr_repeat (checkReadRepeat obs t) \<longleftrightarrow> (\<exists>L. lines_seen t obs = Some L \<and> obs_lines obs \<subseteq> L)"
proof (cases "jm_get (tk_readCoverage t) (ro_path obs)")
  case (Some e)
  then show ?thesis
    using fresh_lines_zero [OF tracker_ok_cov [OF assms(1) Some] assms(2)]
    by (auto simp: checkReadRepeat_def lines_seen_def Let_def not_le)
qed (simp add: checkReadRepeat_def lines_seen_def)

lemma jm_set_append: "jm_get m k = None \<Longrightarrow> jm_set k v m = m @ [(k, v)]"
  by (induction k v m rule: jm_set.induct) (auto simp: jm_get_Cons split: if_splits)

lemma jm_reinsert_get:
  assumes "jm_ok m" and "0 < cap"
  shows "jm_get (jm_evict cap (jm_set k v (jm_delete k m))) k = Some v"
proof -
  show ?thesis
  proof (cases "jm_delete k m")
    case Nil
    with assms show ?thesis by (simp add: jm_evict_def jm_get_Cons)
  next
    case (Cons a xs)
    then have "fst a \<noteq> k" by (metis (mono_tags) jm_delete_def filter_eq_ConsD)
    with Cons show ?thesis by (cases a) (simp add: jm_evict_def jm_get_Cons)
  qed
qed

lemma recordRead_entry:
  assumes "tracker_ok cfg t" and "obs_ok obs"
  shows "\<exists>e. jm_get (tk_readCoverage (recordRead obs t)) (ro_path obs) = Some e \<and> sameReadVersion e obs \<and>
    covered_lines (re_covered e) = (case lines_seen t obs of None \<Rightarrow> {} | Some L \<Rightarrow> L) \<union> obs_lines obs"
proof -
  let ?p = "case jm_get (tk_readCoverage t) (ro_path obs) of
              Some p \<Rightarrow> if sameReadVersion p obs then Some p else None | None \<Rightarrow> None"
  let ?c = "case ?p of Some p \<Rightarrow> re_covered p | None \<Rightarrow> []"
  have c: "cov_ok ?c"
    using tracker_ok_cov [OF assms(1), of "ro_path obs"] by (auto split: option.splits)
  have lines: "covered_lines (case ro_span obs of None \<Rightarrow> ?c | Some s \<Rightarrow> mergeRange ?c s) =
      covered_lines ?c \<union> obs_lines obs"
    using mergeRange_spec(2) [OF c] assms(2) by (auto simp: obs_ok_def obs_lines_def split: option.splits)
  have seen: "covered_lines ?c = (case lines_seen t obs of None \<Rightarrow> {} | Some L \<Rightarrow> L)"
    by (auto simp: lines_seen_def split: option.splits)
  have ok: "jm_ok (tk_readCoverage t)" using assms(1) by (simp add: tracker_ok_def coverage_ok_def)
  have cap: "0 < MAX_TRACKED_READ_FILES" by (simp add: MAX_TRACKED_READ_FILES_def)
  show ?thesis
    using lines seen
    by (simp add: recordRead_def Let_def jm_reinsert_get [OF ok cap] sameReadVersion_def)
qed

text \<open>The outcome counts since the last successful write, over a list of outcomes.\<close>

definition outcome_run :: "(string \<times> compressed_result) list \<Rightarrow> tracker \<Rightarrow> tracker" where
  "outcome_run = fold (\<lambda>(tool, r) t. fst (noteOutcomeFingerprint tool r t))"

fun since_write :: "(string \<times> compressed_result) list \<Rightarrow> string list" where
  "since_write [] = []"
| "since_write ((tool, r) # es) =
     (if isSuccessfulWrite tool r then [] else fingerprintToolOutcome tool r # since_write es)"

lemma length_since_write: "length (since_write es) \<le> length es"
  by (induction es rule: since_write.induct) auto

lemma jm_set_length_le: "length (jm_set k v (jm_delete k m)) \<le> Suc (length m)"
  using jm_set_length [of k v "jm_delete k m"] jm_delete_length_le [of k m] by (auto split: if_splits)

lemma jm_bump_get:
  assumes "length m < cap"
  shows "jm_get (jm_evict cap (jm_set k v (jm_delete k m))) k' = (if k' = k then Some v else jm_get m k')"
  using assms jm_set_length_le [of k v m] by (simp add: jm_evict_def)

lemma outcome_counts_run:
  assumes "length es \<le> MAX_TRACKED_OUTCOMES"
  shows "length (tk_outcomeCounts (outcome_run es newTracker)) \<le> length es \<and>
    (\<forall>fp. orElse (jm_get (tk_outcomeCounts (outcome_run es newTracker)) fp) 0
         = count_list (since_write (rev es)) fp)"
  using assms
proof (induction es rule: rev_induct)
  case Nil
  show ?case by (simp add: outcome_run_def newTracker_def orElse_def)
next
  case (snoc e es)
  obtain tool r where e: "e = (tool, r)" by (cases e)
  let ?t = "outcome_run es newTracker"
  have IH: "length (tk_outcomeCounts ?t) \<le> length es"
    "orElse (jm_get (tk_outcomeCounts ?t) fp) 0 = count_list (since_write (rev es)) fp" for fp
    using snoc by simp_all
  have run: "outcome_run (es @ [e]) newTracker = fst (noteOutcomeFingerprint tool r ?t)"
    by (simp add: outcome_run_def e)
  show ?case
  proof (cases "isSuccessfulWrite tool r")
    case True
    then show ?thesis unfolding run by (simp add: e noteOutcomeFingerprint_def orElse_def)
  next
    case False
    have cap: "length (tk_outcomeCounts ?t) < MAX_TRACKED_OUTCOMES" using IH(1) snoc.prems by simp
    have bump: "length (jm_evict n (jm_set k v (jm_delete k m))) \<le> Suc (length m)"
      for n k v and m :: "(string, nat) jsmap"
      using jm_set_length_le [of k v m] jm_delete_length_le [of _ "jm_set k v (jm_delete k m)"]
      by (auto simp: jm_evict_def intro: le_trans)
    have "length (tk_outcomeCounts (fst (noteOutcomeFingerprint tool r ?t))) \<le> Suc (length es)"
      using False IH(1) by (simp add: noteOutcomeFingerprint_def Let_def order_trans [OF bump])
    then show ?thesis
      using False IH(2) unfolding run by (simp add: e noteOutcomeFingerprint_def Let_def jm_bump_get [OF cap])
         (simp add: orElse_def)
  qed
qed

end
