(* ===== verification/Loop_Properties.thy ===== *)
theory Loop_Properties
  imports Loop_Behaviour
begin

text \<open>
  The properties of the loop detector (\<open>src/src/agent/loop-detector.ts\<close> and the modules of
  \<open>src/src/agent/progress\<close>, \<open>read-coverage.ts\<close>, \<open>wandering-spread.ts\<close>), each a few steps over the
  lemmas of \<open>Loop_Behaviour\<close>. The samples at the top are the inputs of the witnesses.
\<close>


section \<open>Wandering: a stop is never the first word\<close>

lemma readings:
  "snd (runSpread tool h t) = run_spread (jm_get (pr_runs (applyProgress (tk_probeRuns t))) tool) h"
  "snd (runRounds tool h t) =
     run_rounds (jm_get (pr_runs (applyProgress (tk_probeRuns t))) tool) h (tk_stepRound t)"
  "snd (runRounds tool h (fst (runSpread tool h t))) =
     run_rounds (jm_get (pr_runs (applyProgress (tk_probeRuns t))) tool) h (tk_stepRound t)"
  by (simp_all add: runSpread_def runRounds_def probe_spread_def probe_rounds_def Let_def applyProgress_idem)

lemma runs_fields [simp]:
  "tk_history (fst (runSpread tool h t)) = tk_history t"
  "tk_stepRound (fst (runSpread tool h t)) = tk_stepRound t"
  "tk_history (fst (runRounds tool h t)) = tk_history t"
  "tk_stepRound (fst (runRounds tool h t)) = tk_stepRound t"
  by (simp_all add: runSpread_def runRounds_def Let_def split: prod.splits)

lemma effectiveSpread_runs [simp]:
  "effectiveSpread (fst (runSpread tool' h' t)) tool h = effectiveSpread t tool h"
  "effectiveSpread (fst (runRounds tool' h' t)) tool h = effectiveSpread t tool h"
  by (simp_all add: effectiveSpread_def)

lemma wanderingStop_snd:
  "snd (wanderingStop cfg sha tool args t) =
     (if \<not> isWanderingProneTool tool then \<lparr>ws_escalated = False, ws_spread = 0, ws_rule = None\<rparr>
      else let h = hashToolCall sha tool args;
               r = jm_get (pr_runs (applyProgress (tk_probeRuns t))) tool;
               w = effectiveSpread t tool h
           in if wanderingEscalation cfg \<le> run_rounds r h (tk_stepRound t) then
                \<lparr>ws_escalated = True, ws_spread = run_spread r h, ws_rule = Some RunRule\<rparr>
              else if wanderingCeiling cfg \<le> w then
                \<lparr>ws_escalated = True, ws_spread = w, ws_rule = Some CeilingRule\<rparr>
              else \<lparr>ws_escalated = False, ws_spread = run_spread r h, ws_rule = None\<rparr>)"
  using readings(1) [of tool "hashToolCall sha tool args" t] readings(3) [of tool "hashToolCall sha tool args" t]
  by (simp add: wanderingStop_def Let_def case_prod_beta)

lemma wanderingWarning_snd:
  "snd (wanderingWarning cfg tool h t) =
     (let r = jm_get (pr_runs (applyProgress (tk_probeRuns t))) tool; w = effectiveSpread t tool h
      in if wanderingThreshold cfg \<le> run_rounds r h (tk_stepRound t) then Some (run_spread r h)
         else if wanderingWindowWarning cfg \<le> w then Some w else None)"
  using readings(1) [of tool h t] readings(3) [of tool h t]
  by (simp add: wanderingWarning_def Let_def case_prod_beta)

lemma escalated_warns:
  assumes "config_ok cfg" and "ws_escalated (snd (wanderingStop cfg sha tool args t))"
  shows "snd (wanderingWarning cfg tool (hashToolCall sha tool args) t) \<noteq> None"
    and "isWanderingProneTool tool"
  using assms by (auto simp: wanderingStop_snd wanderingWarning_snd Let_def config_ok_def split: if_splits)

lemma check_wandering:
  assumes "isWanderingProneTool tool"
    and "lv_level (snd (check cfg sha tool args t)) \<noteq> LvCritical"
    and "getRepeatCount (tk_history t) tool (hashToolCall sha tool args) None = 0"
    and "snd (wanderingWarning cfg tool (hashToolCall sha tool args) t) \<noteq> None"
  shows "lv_level (snd (check cfg sha tool args t)) = LvWarn"
    and "lv_detector (snd (check cfg sha tool args t)) = Wandering"
  using assms by (auto simp: check_def Let_def split: prod.splits option.splits if_splits)

section \<open>The cap on failed attempts\<close>

definition failed_attempts :: "string \<Rightarrow> json \<Rightarrow> nat \<Rightarrow> mutation_epochs" where
  "failed_attempts tool args n = ((\<lambda>m. fst (note_mutation tool args False m)) ^^ n) emptyEpochs"

lemma evict_small [simp]:
  "length l \<le> MAX_TRACKED_PATHS \<Longrightarrow> evict_latest l f fs = (l, f, fs)"
  "length fs \<le> MAX_TRACKED_PATHS \<Longrightarrow> evict_failures fs = fs"
  by (simp_all add: evict_latest.simps [of l] evict_failures.simps [of fs])

lemma note_failed_single:
  assumes "mutationTargets tool args = Some (Paths [p])"
    and "me_failures m = (if n = 0 then [] else [(p, n)])"
    and "me_latest m = (if n = 0 then [] else [(p, k)])"
  shows "snd (note_mutation tool args False m) = (if n < MAX_FAILED_EPOCHS then Some (Paths [p]) else None)"
    and "me_failures (fst (note_mutation tool args False m)) = [(p, Suc n)]"
    and "n \<noteq> 0 \<or> 0 < MAX_FAILED_EPOCHS \<Longrightarrow> \<exists>k'. me_latest (fst (note_mutation tool args False m)) = [(p, k')]"
  using assms
  by (auto simp: note_mutation_def Let_def jm_get_Cons stamp_all_def jm_delete_def MAX_TRACKED_PATHS_def)

lemma failed_attempts_state:
  assumes "mutationTargets tool args = Some (Paths [p])"
  shows "me_failures (failed_attempts tool args n) = (if n = 0 then [] else [(p, n)]) \<and>
    (\<exists>k. me_latest (failed_attempts tool args n) = (if n = 0 then [] else [(p, k)]))"
proof (induction n)
  case 0
  show ?case by (simp add: failed_attempts_def emptyEpochs_def)
next
  case (Suc n)
  then obtain k where k: "me_latest (failed_attempts tool args n) = (if n = 0 then [] else [(p, k)])" by blast
  have step: "failed_attempts tool args (Suc n) = fst (note_mutation tool args False (failed_attempts tool args n))"
    by (simp add: failed_attempts_def)
  show ?case
    using note_failed_single(2,3) [OF assms _ k] Suc by (simp add: step MAX_FAILED_EPOCHS_def)
qed

lemma failed_attempt_opens:
  assumes "mutationTargets tool args = Some (Paths [p])"
  shows "snd (note_mutation tool args False (failed_attempts tool args n)) =
    (if n < MAX_FAILED_EPOCHS then Some (Paths [p]) else None)"
  using failed_attempts_state [OF assms, of n] note_failed_single(1) [OF assms] by blast

lemma patch_rev_found:
  assumes "\<exists>e \<in> set es. he_tool e = tool \<and> he_argsHash e = h \<and> he_resultHash e = None \<and> \<not> he_vetoed e"
  shows "\<exists>es'. patch_rev tool h p es = Some es'"
  using assms by (induction es) auto

section \<open>Sample inputs\<close>

definition default_options :: loop_options where
  "default_options = \<lparr>lo_warningThreshold = None, lo_criticalThreshold = None,
     lo_breakerVetoStreak = None, lo_historySize = None, lo_warningBucketSize = None,
     lo_wanderingThreshold = None, lo_wanderingEscalation = None\<rparr>"

definition sample_sha :: "string \<Rightarrow> string" where
  "sample_sha s = CHR ''h'' # s"

definition sample_result :: compressed_result where
  "sample_result = \<lparr>cr_tool = ''os.shell.run'', cr_status = StOk, cr_summary = ''done'',
     cr_details = [], cr_truncated = False\<rparr>"

definition vetoed_sample :: compressed_result where
  "vetoed_sample = \<lparr>cr_tool = ''os.shell.run'', cr_status = StError, cr_summary = ''vetoed'',
     cr_details = [(''deniedReason'', JStr LOOP_VETO_DENIED_REASON)], cr_truncated = False\<rparr>"

definition edit_args :: json where
  "edit_args = JObj [(''path'', JStr ''src/a.ts'')]"

definition read_result :: compressed_result where
  "read_result = \<lparr>cr_tool = ''os.fs.read'', cr_status = StOk, cr_summary = ''text'',
     cr_details = [(''readCoverage'', JObj [(''path'', JStr ''a.ts''), (''contentHash'', JStr ''c''),
        (''startLine'', JNum 1), (''endLine'', JNum 9), (''totalLines'', JNum 100)])],
     cr_truncated = False\<rparr>"

definition sample_obs :: "int \<Rightarrow> int \<Rightarrow> read_observation" where
  "sample_obs a b = \<lparr>ro_path = ''a.ts'', ro_contentHash = ''c'',
     ro_span = Some \<lparr>rstart = a, rend = b\<rparr>, ro_totalLines = 100, ro_numbered = False, ro_truncated = False\<rparr>"

lemma sample_classified: "classifyReadResult ''os.fs.read'' read_result = Some (sample_obs 1 9)"
  by code_simp

lemmas sample_defs = default_options_def sample_sha_def sample_result_def vetoed_sample_def
  edit_args_def sample_obs_def

section \<open>Properties\<close>

text \<open>Whatever options are passed, the constructor orders the ladders: warning below critical,
  critical within the window, and the two wandering ladders warn below the rung that stops.\<close>

theorem loop_ladders_ordered:
  "let c = mk_loop_config opts in
     2 \<le> warningThreshold c \<and> warningThreshold c \<le> criticalThreshold c \<and>
     criticalThreshold c \<le> historySize c \<and> 1 \<le> breakerVetoStreak c \<and>
     2 \<le> wanderingThreshold c \<and> wanderingThreshold c \<le> wanderingEscalation c \<and>
     wanderingEscalation c \<le> historySize c \<and> wanderingWindowWarning c < wanderingCeiling c \<and>
     wanderingCeiling c \<le> historySize c \<and> 1 \<le> warningBucketSize c"
  using config_ok_mk [of opts] by (simp add: config_ok_def Let_def)

text \<open>C2: along every sequence of the tracker's public operations the history stays within the
  window, the read and outcome maps within their caps, keys stay distinct, vetoed entries carry
  no result, and the coverage, probe-run and epoch books stay well formed.\<close>

theorem tracker_invariant:
  assumes "tracker_reach cfg sha t"
  shows "tracker_ok cfg t"
  by (rule reach_ok [OF assms])

theorem tracker_invariant_witness:
  "tracker_ok (mk_loop_config default_options)
     (recordRead (sample_obs 1 9) (noteStep 1 newTracker))"
proof (rule tracker_invariant [where sha = sample_sha])
  show "tracker_reach (mk_loop_config default_options) sample_sha
      (recordRead (sample_obs 1 9) (noteStep 1 newTracker))"
    by (rule tracker_reach.more [OF tracker_reach.more [OF tracker_reach.start tracker_step.step]
          tracker_step.read [OF sample_classified]])
qed

text \<open>The no-progress streak is the length of the longest prefix of equal results among the
  completed calls that match (same tool, arguments and epoch), the latest first.\<close>

theorem no_progress_streak_reference:
  "getNoProgressStreak hist tool h ep =
     (case map (the \<circ> he_resultHash)
             (filter (\<lambda>e. (he_tool e = tool \<and> he_argsHash e = h \<and> he_epoch e = ep) \<and> has_result e) (rev hist)) of
        [] \<Rightarrow> (0, None)
      | r # rs \<Rightarrow> (Suc (length (takeWhile (\<lambda>x. x = r) rs)), Some r))"
  unfolding streak_results results_of_def streak_of_def matches_def by (simp split: list.split)

text \<open>C1: a call repeated with the same result, on any step numbers and from any tracker, is
  classified critical once it has run \<open>criticalThreshold\<close> times.\<close>

theorem identical_call_becomes_critical:
  assumes "\<And>s. sha s \<noteq> []" and "\<not> isLoopVetoResult r"
    and "criticalThreshold (mk_loop_config opts) \<le> length steps"
  shows "lv_level (snd (check (mk_loop_config opts) sha tool args
           (replay (mk_loop_config opts) sha tool args r steps t))) = LvCritical"
proof -
  obtain x where x: "hashToolOutcome sha tool args r = Some x"
    using assms(2) hashToolOutcome_None_iff [of sha tool args r] by (cases "hashToolOutcome sha tool args r") auto
  then have "x \<noteq> []" using assms(1,2) by (auto simp: hashToolOutcome_def Let_def split: if_splits)
  then show ?thesis by (rule replay_critical [OF config_ok_mk x _ assms(3)])
qed

theorem identical_call_becomes_critical_witness:
  "lv_level (snd (check (mk_loop_config default_options) sample_sha ''os.shell.run'' JNull
     (replay (mk_loop_config default_options) sample_sha ''os.shell.run'' JNull sample_result
        [1, 2, 3, 4, 5] newTracker))) = LvCritical"
proof (rule identical_call_becomes_critical)
  show "criticalThreshold (mk_loop_config default_options) \<le> length [1::int, 2, 3, 4, 5]" by code_simp
qed (simp_all add: sample_defs isLoopVetoResult_def)

text \<open>A vetoed outcome, recorded for a call that was dispatched, changes no no-progress streak:
  once vetoing starts the streaks of all calls stand still.\<close>

theorem veto_leaves_streaks:
  assumes "isLoopVetoResult r"
    and "e \<in> set (tk_history t)" and "he_tool e = tool" and "he_argsHash e = hashToolCall sha tool args"
    and "he_resultHash e = None" and "\<not> he_vetoed e"
  shows "getNoProgressStreak (tk_history (fst (recordOutcome cfg sha tool args r t))) tool' h' ep' =
         getNoProgressStreak (tk_history t) tool' h' ep'"
proof -
  have "\<exists>es. patch_rev tool (hashToolCall sha tool args) PatchVetoed (rev (tk_history t)) = Some es"
    using assms(2-6) by (intro patch_rev_found) auto
  then obtain es where "patch_rev tool (hashToolCall sha tool args) PatchVetoed
      (rev (tk_history (noteTestOutcome sha tool args r t))) = Some es" by auto
  from patched_veto_streak [OF this, of cfg tool' h' ep'] show ?thesis
    by (simp add: streak_results recordOutcome_def assms(1) noteVeto_def Let_def)
qed

text \<open>The breaker counts exactly the vetoes of the call among the latest outcomes, back to the
  last outcome of another call, and trips when they reach \<open>breakerVetoStreak\<close>.\<close>

theorem breaker_counts_consecutive_vetoes:
  "vetoStreak sha tool args (record_outcomes cfg sha es newTracker) =
     trailing_vetoes sha (hashToolCall sha tool args) (rev es) \<and>
   isBreakerTripped (mk_loop_config opts) sha tool args (record_outcomes cfg sha es newTracker) =
     (breakerVetoStreak (mk_loop_config opts) \<le> trailing_vetoes sha (hashToolCall sha tool args) (rev es))"
proof -
  let ?t = "record_outcomes cfg sha es newTracker"
  have v: "vetoStreak sha tool args ?t = trailing_vetoes sha (hashToolCall sha tool args) (rev es)"
    using vetoes_record_outcomes [of cfg sha es] by (simp add: vetoStreak_def vetoes_def)
  moreover have "isBreakerTripped (mk_loop_config opts) sha tool args ?t =
      (breakerVetoStreak (mk_loop_config opts) \<le> vetoStreak sha tool args ?t)"
    using config_ok_mk [of opts] by (auto simp: isBreakerTripped_def vetoStreak_def config_ok_def)
  ultimately show ?thesis by simp
qed

text \<open>The wandering stop is never the first word: when a call is to be stopped and is neither
  critical nor a repeat of an earlier call, its check is a wandering warning.\<close>

theorem wandering_stop_warns:
  assumes "ws_escalated (snd (wanderingStop (mk_loop_config opts) sha tool args t))"
    and "lv_level (snd (check (mk_loop_config opts) sha tool args t)) \<noteq> LvCritical"
    and "getRepeatCount (tk_history t) tool (hashToolCall sha tool args) None = 0"
  shows "lv_level (snd (check (mk_loop_config opts) sha tool args t)) = LvWarn \<and>
         lv_detector (snd (check (mk_loop_config opts) sha tool args t)) = Wandering"
  using escalated_warns [OF config_ok_mk assms(1)] check_wandering [OF _ assms(2,3)] by blast

definition search_args :: "nat \<Rightarrow> json" where
  "search_args i = JObj [(''q'', JNum (int i))]"

definition strict_options :: loop_options where
  "strict_options = default_options\<lparr>lo_wanderingThreshold := Some 2, lo_wanderingEscalation := Some 2\<rparr>"

definition wandering_tracker :: tracker where
  "wandering_tracker = fst (recordOutcome (mk_loop_config strict_options) sample_sha
     ''os.web.search'' (search_args 0) sample_result newTracker)"

text \<open>After an attempt to mutate a path, landed or failed, that opened an epoch, the next read of
  the path passes the check however often it was read before.\<close>

theorem reread_after_attempt_allowed:
  assumes "tracker_reach (mk_loop_config opts) sha t"
    and "snd (note_mutation tool args landed (tk_mutations t)) = Some ts"
    and "touches ts (normalizeLoopPath p)" and "stringField rargs ''path'' = Some p"
  shows "lv_level (snd (check (mk_loop_config opts) sha ''os.fs.read'' rargs
           (noteMutationAttempt tool args landed t))) = LvOk"
  by (rule reread_reopened [OF config_ok_mk reach_ok [OF assms(1)] reach_epochs_behind [OF assms(1)]
        assms(2-4)])

text \<open>Of an unbroken sequence of failed attempts on one path the first three open an epoch for
  it and no later one does, so a stuck edit cannot keep the read detector off for ever.\<close>

theorem failed_attempts_open_three_epochs:
  assumes "mutationTargets tool args = Some (Paths [p])"
  shows "snd (note_mutation tool args False (failed_attempts tool args n)) =
    (if n < 3 then Some (Paths [p]) else None)"
  using failed_attempt_opens [OF assms, of n] by (simp add: MAX_FAILED_EPOCHS_def)

text \<open>Epochs only grow: no attempt moves the epoch of a path back, and no epoch passes the
  sequence number.\<close>

theorem epochs_monotone:
  assumes "tracker_reach cfg sha t"
  shows "epochFor (tk_mutations t) path \<le> epochFor (fst (note_mutation tool args landed (tk_mutations t))) path
    \<and> epochFor (tk_mutations t) path \<le> me_seq (tk_mutations t)"
  using reach_ok [OF assms] by (simp add: tracker_ok_def note_epoch_mono epochFor_le_seq)

text \<open>A completed read is a repeat exactly when the file was read before at the same version
  and rendering and every line it returned had been returned then.\<close>

theorem read_repeat_exact:
  assumes "tracker_reach cfg sha t" and "classifyReadResult tool r = Some obs"
  shows "rr_repeat (checkReadRepeat obs t) \<longleftrightarrow>
    (\<exists>e. jm_get (tk_readCoverage t) (ro_path obs) = Some e \<and> sameReadVersion e obs \<and>
         obs_lines obs \<subseteq> covered_lines (re_covered e))"
  using read_repeat_iff [OF reach_ok [OF assms(1)] classified_ok [OF assms(2)]]
  by (auto simp: lines_seen_def split: option.splits if_splits)

text \<open>Recording a read leaves the file's entry at the version read, covering the lines seen before
  at that version and the lines returned now, and nothing of another version.\<close>

theorem read_coverage_exact:
  assumes "tracker_reach cfg sha t" and "classifyReadResult tool r = Some obs"
  shows "\<exists>e. jm_get (tk_readCoverage (recordRead obs t)) (ro_path obs) = Some e \<and> sameReadVersion e obs \<and>
    covered_lines (re_covered e) =
      (case jm_get (tk_readCoverage t) (ro_path obs) of
         Some e0 \<Rightarrow> if sameReadVersion e0 obs then covered_lines (re_covered e0) else {} | None \<Rightarrow> {})
      \<union> obs_lines obs"
proof -
  have "(case lines_seen t obs of None \<Rightarrow> {} | Some L \<Rightarrow> L) =
      (case jm_get (tk_readCoverage t) (ro_path obs) of
         Some e0 \<Rightarrow> if sameReadVersion e0 obs then covered_lines (re_covered e0) else {} | None \<Rightarrow> {})"
    by (simp add: lines_seen_def split: option.splits)
  then show ?thesis using recordRead_entry [OF reach_ok [OF assms(1)] classified_ok [OF assms(2)]] by simp
qed

text \<open>Within the cap, the count of an outcome fingerprint is the number of times it came in
  since the last successful write.\<close>

theorem outcome_counts_since_write:
  assumes "length es \<le> MAX_TRACKED_OUTCOMES"
  shows "orElse (jm_get (tk_outcomeCounts (outcome_run es newTracker)) fp) 0 =
         count_list (since_write (rev es)) fp"
  using outcome_counts_run [OF assms] by blast

text \<open>C3: merging a span keeps the ranges ordered, disjoint and separated by a gap, and covers
  exactly the old lines and the span.\<close>

theorem merge_range_union:
  assumes "cov_ok covered" and "range_ok span"
  shows "cov_ok (mergeRange covered span) \<and>
         covered_lines (mergeRange covered span) = covered_lines covered \<union> lines_of span"
  using mergeRange_spec [OF assms] by blast

theorem merge_range_union_witness:
  "covered_lines (mergeRange [\<lparr>rstart = 1, rend = 4\<rparr>, \<lparr>rstart = 8, rend = 9\<rparr>] \<lparr>rstart = 5, rend = 6\<rparr>)
     = {1..6} \<union> {8..9}"
proof -
  have "cov_ok [\<lparr>rstart = 1, rend = 4\<rparr>, \<lparr>rstart = 8, rend = 9\<rparr>]" "range_ok \<lparr>rstart = 5, rend = 6\<rparr>"
    by (simp_all add: range_ok_def before_gap_def)
  from merge_range_union [OF this]
  have "covered_lines (mergeRange [\<lparr>rstart = 1, rend = 4\<rparr>, \<lparr>rstart = 8, rend = 9\<rparr>] \<lparr>rstart = 5, rend = 6\<rparr>)
      = ({1..4} \<union> {8..9}) \<union> {5..6 :: int}" by (simp add: lines_of_def)
  moreover have "({1..4} \<union> {8..9}) \<union> {5..6} = {1..6} \<union> {8..9 :: int}"
    by (rule set_eqI) (simp only: Un_iff atLeastAtMost_iff, arith)
  ultimately show ?thesis by (simp only:)
qed

text \<open>The number of newly covered lines is the number of lines of the span outside the coverage.\<close>

theorem newly_covered_is_card:
  assumes "cov_ok covered" and "range_ok span"
  shows "newlyCoveredCount covered span = int (card (lines_of span - covered_lines covered))"
  by (rule newlyCoveredCount_card [OF assms])

text \<open>The order in which the calls of one step resolve does not change any wandering reading.\<close>

theorem batch_order_irrelevant:
  assumes "mset cs = mset ds" and "runs_ok p"
  shows "snd (probe_spread tool h (record_batch r cs p)) = snd (probe_spread tool h (record_batch r ds p)) \<and>
         snd (probe_rounds tool h n (record_batch r cs p)) = snd (probe_rounds tool h n (record_batch r ds p))"
  using alike_readings [OF batch_perm [OF assms(1)] runs_ok_batch [OF assms(2)] runs_ok_batch [OF assms(2)]]
  by blast

text \<open>Two calls whose arguments differ only in the order of the object's keys have the same
  signature.\<close>

theorem call_signature_ignores_key_order:
  assumes "mset es = mset fs" and "distinct (map fst es)"
  shows "hashToolCall sha tool (JObj es) = hashToolCall sha tool (JObj fs)"
  by (rule hashToolCall_key_order [OF assms])

end
