(* ===== verification/Approval_Level.thy ===== *)
theory Approval_Level
  imports Complex_Main Prelude
begin

text \<open>
  \<open>src/src/approval/approval-level.ts\<close>: the five-step approval ladder. Levels are the numbers 1 to 5,
  categories a datatype with the source's union members, the tables functions by cases. A
  JavaScript number is a rational or one of the non-finite values.
\<close>

datatype approval_category =
    FsWriteWorkspace | FsWriteHome | FsTrash | Http | Shell | Script | ProcKill | GitRemote
  | BrowserNonweb | BrowserCommit | BrowserSecret | BrowserOffsite | TrustConfig | Publish | Email
  | FusionFanout | FsReadOutside | StateSecret | PaidGeneration | ScreenControl | ScreenCapture
  | LocalModelRestart | OtherCategory

datatype js_number = NonFinite | Finite rat

definition MIN_APPROVAL_LEVEL :: nat where
  "MIN_APPROVAL_LEVEL = 1"

definition MAX_APPROVAL_LEVEL :: nat where
  "MAX_APPROVAL_LEVEL = 5"

fun AUTO_APPROVE_FROM_LEVEL :: "approval_category \<Rightarrow> nat" where
  "AUTO_APPROVE_FROM_LEVEL FsWriteWorkspace = 2"
| "AUTO_APPROVE_FROM_LEVEL FsWriteHome = 3"
| "AUTO_APPROVE_FROM_LEVEL FsTrash = 3"
| "AUTO_APPROVE_FROM_LEVEL Http = 3"
| "AUTO_APPROVE_FROM_LEVEL PaidGeneration = 3"
| "AUTO_APPROVE_FROM_LEVEL BrowserOffsite = 3"
| "AUTO_APPROVE_FROM_LEVEL ScreenCapture = 3"
| "AUTO_APPROVE_FROM_LEVEL Shell = 4"
| "AUTO_APPROVE_FROM_LEVEL Script = 4"
| "AUTO_APPROVE_FROM_LEVEL ProcKill = 4"
| "AUTO_APPROVE_FROM_LEVEL Publish = 4"
| "AUTO_APPROVE_FROM_LEVEL GitRemote = 4"
| "AUTO_APPROVE_FROM_LEVEL FusionFanout = 4"
| "AUTO_APPROVE_FROM_LEVEL BrowserCommit = 4"
| "AUTO_APPROVE_FROM_LEVEL ScreenControl = 4"
| "AUTO_APPROVE_FROM_LEVEL BrowserNonweb = 5"
| "AUTO_APPROVE_FROM_LEVEL BrowserSecret = 5"
| "AUTO_APPROVE_FROM_LEVEL TrustConfig = 5"
| "AUTO_APPROVE_FROM_LEVEL StateSecret = 5"
| "AUTO_APPROVE_FROM_LEVEL Email = 5"
| "AUTO_APPROVE_FROM_LEVEL FsReadOutside = 5"
| "AUTO_APPROVE_FROM_LEVEL LocalModelRestart = 5"
| "AUTO_APPROVE_FROM_LEVEL OtherCategory = 5"

text \<open>\<open>Math.trunc\<close>.\<close>

definition js_trunc :: "rat \<Rightarrow> int" where
  "js_trunc r = (if r < 0 then - \<lfloor>- r\<rfloor> else \<lfloor>r\<rfloor>)"

definition clampApprovalLevel :: "js_number \<Rightarrow> nat" where
  "clampApprovalLevel raw =
     (case raw of NonFinite \<Rightarrow> MIN_APPROVAL_LEVEL
      | Finite r \<Rightarrow>
          let truncated = js_trunc r
          in if truncated < int MIN_APPROVAL_LEVEL then MIN_APPROVAL_LEVEL
             else if truncated > int MAX_APPROVAL_LEVEL then MAX_APPROVAL_LEVEL
             else nat truncated)"

definition isAutoApprovedAt :: "nat \<Rightarrow> approval_category \<Rightarrow> bool" where
  "isAutoApprovedAt level category = (level \<ge> AUTO_APPROVE_FROM_LEVEL category)"

fun GRANTABLE_CATEGORY :: "approval_category \<Rightarrow> bool" where
  "GRANTABLE_CATEGORY FsWriteWorkspace = True"
| "GRANTABLE_CATEGORY FsWriteHome = True"
| "GRANTABLE_CATEGORY FsTrash = True"
| "GRANTABLE_CATEGORY Http = True"
| "GRANTABLE_CATEGORY Shell = True"
| "GRANTABLE_CATEGORY Script = True"
| "GRANTABLE_CATEGORY ProcKill = True"
| "GRANTABLE_CATEGORY Publish = True"
| "GRANTABLE_CATEGORY GitRemote = True"
| "GRANTABLE_CATEGORY FusionFanout = False"
| "GRANTABLE_CATEGORY BrowserNonweb = True"
| "GRANTABLE_CATEGORY BrowserCommit = True"
| "GRANTABLE_CATEGORY BrowserSecret = False"
| "GRANTABLE_CATEGORY BrowserOffsite = True"
| "GRANTABLE_CATEGORY TrustConfig = False"
| "GRANTABLE_CATEGORY StateSecret = False"
| "GRANTABLE_CATEGORY Email = False"
| "GRANTABLE_CATEGORY FsReadOutside = True"
| "GRANTABLE_CATEGORY PaidGeneration = True"
| "GRANTABLE_CATEGORY ScreenControl = True"
| "GRANTABLE_CATEGORY ScreenCapture = True"
| "GRANTABLE_CATEGORY LocalModelRestart = False"
| "GRANTABLE_CATEGORY OtherCategory = True"

definition isGrantableCategory :: "approval_category \<Rightarrow> bool" where
  "isGrantableCategory category = GRANTABLE_CATEGORY category"

text \<open>The labels; the middle dot is its UTF-8 bytes.\<close>

definition dot_sep :: string where
  "dot_sep = [CHR '' '', CHR 0xC2, CHR 0xB7, CHR '' '']"

fun APPROVAL_CATEGORY_LABELS :: "approval_category \<Rightarrow> string" where
  "APPROVAL_CATEGORY_LABELS FsWriteWorkspace = ''file write'' @ dot_sep @ ''workspace''"
| "APPROVAL_CATEGORY_LABELS FsWriteHome = ''file write'' @ dot_sep @ ''home''"
| "APPROVAL_CATEGORY_LABELS FsTrash = ''move to Trash''"
| "APPROVAL_CATEGORY_LABELS Http = ''HTTP request''"
| "APPROVAL_CATEGORY_LABELS Shell = ''shell command''"
| "APPROVAL_CATEGORY_LABELS Script = ''skill script''"
| "APPROVAL_CATEGORY_LABELS ProcKill = ''process kill''"
| "APPROVAL_CATEGORY_LABELS Publish = ''publish'' @ dot_sep @ ''GitHub''"
| "APPROVAL_CATEGORY_LABELS GitRemote = ''git'' @ dot_sep @ ''remote''"
| "APPROVAL_CATEGORY_LABELS FusionFanout = ''fusion'' @ dot_sep @ ''fan-out''"
| "APPROVAL_CATEGORY_LABELS BrowserNonweb = ''browser'' @ dot_sep @ ''non-web URL''"
| "APPROVAL_CATEGORY_LABELS BrowserCommit = ''browser'' @ dot_sep @ ''submit / publish / delete''"
| "APPROVAL_CATEGORY_LABELS BrowserSecret = ''browser'' @ dot_sep @ ''password or payment''"
| "APPROVAL_CATEGORY_LABELS BrowserOffsite = ''browser'' @ dot_sep @ ''site outside the allow-list''"
| "APPROVAL_CATEGORY_LABELS TrustConfig = ''agent trust config''"
| "APPROVAL_CATEGORY_LABELS StateSecret = ''agent secret file''"
| "APPROVAL_CATEGORY_LABELS Email = ''e-mail send''"
| "APPROVAL_CATEGORY_LABELS FsReadOutside = ''read outside the working directory''"
| "APPROVAL_CATEGORY_LABELS PaidGeneration = ''paid generation'' @ dot_sep @ ''cloud''"
| "APPROVAL_CATEGORY_LABELS ScreenControl = ''screen'' @ dot_sep @ ''click / type''"
| "APPROVAL_CATEGORY_LABELS ScreenCapture = ''screen'' @ dot_sep @ ''screenshot''"
| "APPROVAL_CATEGORY_LABELS LocalModelRestart = ''local model'' @ dot_sep @ ''restart''"
| "APPROVAL_CATEGORY_LABELS OtherCategory = ''uncategorised''"

definition formatApprovalCategory :: "approval_category \<Rightarrow> string" where
  "formatApprovalCategory category = APPROVAL_CATEGORY_LABELS category"

definition formatNeverGrantedNote :: "approval_category \<Rightarrow> string" where
  "formatNeverGrantedNote category =
     formatApprovalCategory category @ '' is never granted for the session''"

definition APPROVAL_LEVEL_NAMES :: "nat \<Rightarrow> string" where
  "APPROVAL_LEVEL_NAMES level =
     (if level = 1 then ''paranoid'' else if level = 2 then ''workspace'' else if level = 3 then ''home''
      else if level = 4 then ''operator'' else ''full trust'')"

definition formatApprovalLevel :: "nat \<Rightarrow> string" where
  "formatApprovalLevel level = show_nat level @ '' ('' @ APPROVAL_LEVEL_NAMES level @ '')''"

definition resolveBootApprovalLevel :: "bool \<Rightarrow> js_number \<Rightarrow> nat" where
  "resolveBootApprovalLevel noApproval configuredLevel =
     (if noApproval then MAX_APPROVAL_LEVEL else clampApprovalLevel configuredLevel)"

section \<open>Lemmas\<close>

lemma table_range: "2 \<le> AUTO_APPROVE_FROM_LEVEL c \<and> AUTO_APPROVE_FROM_LEVEL c \<le> 5"
  by (cases c) simp_all

lemma clamp_range: "1 \<le> clampApprovalLevel raw \<and> clampApprovalLevel raw \<le> 5"
  by (auto simp: clampApprovalLevel_def MIN_APPROVAL_LEVEL_def MAX_APPROVAL_LEVEL_def Let_def
      split: js_number.splits)

lemma js_trunc_of_int [simp]: "js_trunc (of_int i) = i"
  by (simp add: js_trunc_def flip: of_int_minus)

lemma clamp_fixed: "1 \<le> n \<Longrightarrow> n \<le> 5 \<Longrightarrow> clampApprovalLevel (Finite (of_nat n)) = n"
  using js_trunc_of_int [of "int n"]
  by (simp add: clampApprovalLevel_def MIN_APPROVAL_LEVEL_def MAX_APPROVAL_LEVEL_def)

lemma js_trunc_mono: "r \<le> s \<Longrightarrow> js_trunc r \<le> js_trunc s"
proof (cases "r < 0 \<and> 0 \<le> s")
  case True
  then have "0 \<le> \<lfloor>- r\<rfloor>" "0 \<le> \<lfloor>s\<rfloor>" by simp_all
  then have "- \<lfloor>- r\<rfloor> \<le> \<lfloor>s\<rfloor>" by linarith
  with True show ?thesis by (simp add: js_trunc_def)
next
  case False
  assume "r \<le> s"
  with False show ?thesis by (auto simp: js_trunc_def floor_mono)
qed

lemma clamp_mono: "r \<le> s \<Longrightarrow> clampApprovalLevel (Finite r) \<le> clampApprovalLevel (Finite s)"
  using js_trunc_mono [of r s]
  by (auto simp: clampApprovalLevel_def MIN_APPROVAL_LEVEL_def MAX_APPROVAL_LEVEL_def Let_def)

lemma not_grantable_pinned: "\<not> isGrantableCategory c \<Longrightarrow> 4 \<le> AUTO_APPROVE_FROM_LEVEL c"
  by (cases c) (simp_all add: isGrantableCategory_def)

end
