(* ===== verification/Posix_Path.thy ===== *)
theory Posix_Path
  imports Prelude
begin

text \<open>
  What the approval code uses of \<open>node:path\<close> on a POSIX host: \<open>isAbsolute\<close>, \<open>resolve\<close> of one
  argument and \<open>relative\<close>. A resolved path is its list of segments; \<open>cwd\<close>, the segments of
  \<open>process.cwd()\<close>, is a parameter. \<open>isInside\<close> is the containment test of
  \<open>src/src/approval/fanout-scope.ts\<close>.
\<close>

abbreviation sep :: char where
  "sep \<equiv> CHR ''/''"

definition isAbsolute :: "string \<Rightarrow> bool" where
  "isAbsolute p = js_starts_with ''/'' p"

definition path_step :: "string \<Rightarrow> string list \<Rightarrow> string list" where
  "path_step s acc =
     (if s = [] \<or> s = ''.'' then acc else if s = ''..'' then butlast acc else acc @ [s])"

definition resolve_segs :: "string list \<Rightarrow> string \<Rightarrow> string list" where
  "resolve_segs cwd p = fold path_step (js_split sep p) (if isAbsolute p then [] else cwd)"

definition resolvePath :: "string list \<Rightarrow> string \<Rightarrow> string" where
  "resolvePath cwd p = sep # js_join sep (resolve_segs cwd p)"

fun strip_common :: "string list \<Rightarrow> string list \<Rightarrow> string list \<times> string list" where
  "strip_common (a # as) (b # bs) = (if a = b then strip_common as bs else (a # as, b # bs))"
| "strip_common as bs = (as, bs)"

definition relativePath :: "string list \<Rightarrow> string \<Rightarrow> string \<Rightarrow> string" where
  "relativePath cwd from_path to_path =
     (let (up, down) = strip_common (resolve_segs cwd from_path) (resolve_segs cwd to_path)
      in js_join sep (map (\<lambda>_. ''..'') up @ down))"

definition isInside :: "string list \<Rightarrow> string \<Rightarrow> string \<Rightarrow> bool" where
  "isInside cwd parent child =
     (let rel = relativePath cwd parent child
      in if rel = [] then True else \<not> js_starts_with ''..'' rel \<and> \<not> isAbsolute rel)"

section \<open>Segments of a resolved path\<close>

definition seg_ok :: "string \<Rightarrow> bool" where
  "seg_ok s \<longleftrightarrow> s \<noteq> [] \<and> s \<noteq> ''.'' \<and> s \<noteq> ''..'' \<and> sep \<notin> set s"

lemma js_split_no_sep: "s \<in> set (js_split c p) \<Longrightarrow> c \<notin> set s"
proof (induction p arbitrary: s)
  case (Cons x p)
  then show ?case by (cases "js_split c p") (auto split: if_splits)
qed simp

lemma path_step_ok:
  "c = sep \<Longrightarrow> sep \<notin> set s \<Longrightarrow> \<forall>x \<in> set acc. seg_ok x \<Longrightarrow> \<forall>x \<in> set (path_step s acc). seg_ok x"
  by (auto simp: path_step_def seg_ok_def dest: in_set_butlastD)

lemma fold_path_step_ok:
  "\<forall>s \<in> set ss. sep \<notin> set s \<Longrightarrow> \<forall>x \<in> set acc. seg_ok x \<Longrightarrow> \<forall>x \<in> set (fold path_step ss acc). seg_ok x"
proof (induction ss arbitrary: acc)
  case (Cons s ss)
  have "\<forall>x \<in> set (path_step s acc). seg_ok x" by (rule path_step_ok [OF refl]) (use Cons.prems in simp_all)
  then show ?case using Cons.IH [of "path_step s acc"] Cons.prems(1) by simp
qed simp

lemma resolve_segs_ok: "\<forall>x \<in> set cwd. seg_ok x \<Longrightarrow> \<forall>x \<in> set (resolve_segs cwd p). seg_ok x"
  unfolding resolve_segs_def by (rule fold_path_step_ok) (auto dest: js_split_no_sep)

lemma js_split_join:
  assumes "ss \<noteq> []" and "\<forall>s \<in> set ss. c \<notin> set s"
  shows "js_split c (js_join c ss) = ss"
  using assms
proof (induction ss rule: js_join.induct)
  case (2 c s)
  then show ?case by (induction s) auto
next
  case (3 c s t ts)
  have "c \<notin> set s \<Longrightarrow> js_split c (s @ c # r) = s # js_split c r" for s r
    by (induction s) auto
  with 3 show ?case by simp
qed simp

lemma fold_path_step_id: "\<forall>s \<in> set ss. seg_ok s \<Longrightarrow> fold path_step ss acc = acc @ ss"
  by (induction ss arbitrary: acc) (auto simp: path_step_def seg_ok_def)

text \<open>Resolving a resolved path changes nothing.\<close>

lemma resolve_resolved:
  assumes "\<forall>x \<in> set cwd. seg_ok x"
  shows "resolve_segs cwd (resolvePath cwd p) = resolve_segs cwd p"
proof (cases "resolve_segs cwd p = []")
  case True
  then show ?thesis
    by (simp add: resolvePath_def resolve_segs_def isAbsolute_def js_starts_with_def path_step_def)
next
  case False
  let ?ss = "resolve_segs cwd p"
  have ok: "\<forall>s \<in> set ?ss. seg_ok s" by (rule resolve_segs_ok [OF assms])
  have "js_split sep (sep # js_join sep ?ss) = [] # ?ss"
    using js_split_join [OF False, of sep] ok by (simp add: seg_ok_def)
  then have "resolve_segs cwd (resolvePath cwd p) = fold path_step ([] # ?ss) []"
    by (simp add: resolvePath_def resolve_segs_def [of cwd "sep # _"] isAbsolute_def js_starts_with_def)
  then show ?thesis using fold_path_step_id [OF ok] by (simp add: path_step_def)
qed

section \<open>Containment\<close>

lemma strip_common_spec:
  "strip_common as bs = (us, ds) \<Longrightarrow>
     \<exists>c. as = c @ us \<and> bs = c @ ds \<and> (us = [] \<or> ds = [] \<or> hd us \<noteq> hd ds)"
proof (induction as bs arbitrary: us ds rule: strip_common.induct)
  case (1 a as b bs)
  show ?case
  proof (cases "a = b")
    case True
    with 1 obtain c where "as = c @ us \<and> bs = c @ ds \<and> (us = [] \<or> ds = [] \<or> hd us \<noteq> hd ds)" by auto
    with True show ?thesis by (intro exI [of _ "a # c"]) simp
  next
    case False
    with 1 show ?thesis by auto
  qed
qed auto

lemma js_join_Nil_iff: "\<forall>s \<in> set ss. s \<noteq> [] \<Longrightarrow> js_join c ss = [] \<longleftrightarrow> ss = []"
  by (induction ss rule: js_join.induct) auto

lemma js_join_hd: "\<exists>r. js_join c (s # ss) = s @ r"
  by (cases ss) auto

text \<open>
  \<open>isInside\<close> is the prefix relation on resolved paths, except that a child whose first segment
  below the parent starts with two dots is taken to be outside.
\<close>

lemma isInside_iff:
  assumes "\<forall>x \<in> set cwd. seg_ok x"
  shows "isInside cwd parent child \<longleftrightarrow>
    (\<exists>rest. resolve_segs cwd child = resolve_segs cwd parent @ rest \<and>
            (rest = [] \<or> \<not> js_starts_with ''..'' (hd rest)))"
proof -
  let ?a = "resolve_segs cwd parent" and ?b = "resolve_segs cwd child"
  obtain us ds where sc: "strip_common ?a ?b = (us, ds)" by fastforce
  then obtain c where c: "?a = c @ us" "?b = c @ ds" "us = [] \<or> ds = [] \<or> hd us \<noteq> hd ds"
    using strip_common_spec by blast
  have ok: "\<forall>x \<in> set ds. seg_ok x" using resolve_segs_ok [OF assms, of child] c(2) by auto
  have rel: "relativePath cwd parent child = js_join sep (map (\<lambda>_. ''..'') us @ ds)"
    by (simp add: relativePath_def sc)
  show ?thesis
  proof (cases us)
    case (Cons u us')
    then obtain r where "relativePath cwd parent child = ''..'' @ r"
      using js_join_hd [of sep "''..''" "map (\<lambda>_. ''..'') us' @ ds"] rel by auto
    then have "\<not> isInside cwd parent child" by (simp add: isInside_def js_starts_with_def)
    moreover have "?b \<noteq> ?a @ rest" for rest using c Cons by auto
    ultimately show ?thesis by blast
  next
    case Nil
    show ?thesis
    proof (cases ds)
      case Nil
      then show ?thesis using \<open>us = []\<close> c rel by (simp add: isInside_def)
    next
      case (Cons d ds')
      then obtain r where r: "relativePath cwd parent child = d @ r"
        using js_join_hd [of sep d ds'] rel Nil by auto
      have d: "d \<noteq> []" "sep \<notin> set d" "d \<noteq> ''.''" "d \<noteq> ''..''" using ok Cons by (auto simp: seg_ok_def)
      have r': "r = [] \<or> (\<exists>q. r = sep # q)" using r rel Nil Cons by (cases ds') auto
      have "isAbsolute (d @ r) = False" using d by (cases d) (auto simp: isAbsolute_def js_starts_with_def)
      moreover have "js_starts_with ''..'' (d @ r) = js_starts_with ''..'' d"
      proof (cases "length d \<ge> 2")
        case True
        then show ?thesis by (simp add: js_starts_with_def)
      next
        case False
        then obtain x where "d = [x]" using d(1) by (cases d) (auto simp: not_le less_Suc_eq_le Suc_le_eq)
        then show ?thesis using r' d by (auto simp: js_starts_with_def)
      qed
      ultimately show ?thesis using r d c Nil Cons by (auto simp: isInside_def)
    qed
  qed
qed

end
