(* ===== verification/Approval_Gate.thy ===== *)
theory Approval_Gate
  imports Approval_Level Posix_Path Fingerprints
begin

text \<open>
  \<open>src/src/approval/approval-gate.ts\<close> with the two registries it owns (\<open>fanout-scope.ts\<close>,
  \<open>read-scope-grants.ts\<close>) and the ledger records of \<open>approval-ledger.ts\<close>. The gate's private
  fields are the record \<open>gate\<close>; every method returns the new gate. A parked promise is an entry of
  \<open>gt_pending\<close>; settling it appends to \<open>gt_answers\<close>, emitting appends to \<open>gt_emitted\<close>. A ledger
  (one per tool call, reached through the async context in the code) is a number, its records
  are in \<open>gt_ledgers\<close>; the wall clock is an argument. \<open>cwd\<close> is that of \<open>Posix_Path\<close>.
\<close>

section \<open>Data\<close>

record approval_request =
  aq_approvalId :: string
  aq_sessionId :: string
  aq_tool :: string
  aq_category :: approval_category
  aq_reason :: string
  aq_preview :: "string option"
  aq_affectedResources :: "string list option"
  aq_commandShape :: "string option"
  aq_redirectablePath :: "string option"
  aq_targetPaths :: "string list option"

datatype grant_scope = GrantCategory | GrantShape

record approval_decision =
  ad_approvalId :: string
  ad_approved :: bool
  ad_reason :: "string option"
  ad_automatic :: bool
  ad_declinedEarlier :: bool
  ad_grant :: "grant_scope option"
  ad_pathOverride :: "string option"

record session_grants =
  sg_categories :: "approval_category list"
  sg_shapes :: "string list"

record declined_in_turn =
  dt_calls :: "string list"
  dt_targets :: "(string, string) jsmap"

record tool_approval_record =
  ta_approved :: bool
  ta_category :: approval_category
  ta_at :: nat

record pending_entry =
  pe_request :: approval_request
  pe_ledger :: "nat option"

datatype gate_answer = Answered approval_decision | AbortedError string

record fanout_scopes =
  fo_dirs :: "(string, string list) jsmap"
  fo_turn :: "(string, string list) jsmap"

record gate =
  gt_pending :: "(string, pending_entry) jsmap"
  gt_level :: nat
  gt_grants :: "(string, session_grants) jsmap"
  gt_policies :: "(string, string) jsmap"
  gt_declined :: "(string, declined_in_turn) jsmap"
  gt_parents :: "(string, string) jsmap"
  gt_fanout :: fanout_scopes
  gt_readRoots :: "(string, string list) jsmap"
  gt_emitted :: "approval_request list"
  gt_answers :: "(string \<times> gate_answer) list"
  gt_ledgers :: "(nat, tool_approval_record list) jsmap"

definition newGate :: "nat option \<Rightarrow> gate" where
  "newGate level = \<lparr>gt_pending = [],
     gt_level = (case level of None \<Rightarrow> MIN_APPROVAL_LEVEL | Some l \<Rightarrow> l), gt_grants = [],
     gt_policies = [], gt_declined = [], gt_parents = [], gt_fanout = \<lparr>fo_dirs = [], fo_turn = []\<rparr>,
     gt_readRoots = [], gt_emitted = [], gt_answers = [], gt_ledgers = []\<rparr>"

section \<open>The registries\<close>

definition roots_or_empty :: "(string, string list) jsmap \<Rightarrow> string \<Rightarrow> string list" where
  "roots_or_empty m sid = (case jm_get m sid of None \<Rightarrow> [] | Some ds \<Rightarrow> ds)"

definition fanout_grant :: "string \<Rightarrow> string list \<Rightarrow> fanout_scopes \<Rightarrow> fanout_scopes" where
  "fanout_grant sid dirs f =
     (let absolute = filter isAbsolute dirs
      in if absolute = [] then f\<lparr>fo_dirs := jm_delete sid (fo_dirs f)\<rparr>
         else f\<lparr>fo_dirs := jm_set sid absolute (fo_dirs f)\<rparr>)"

definition fanout_clear :: "string \<Rightarrow> fanout_scopes \<Rightarrow> fanout_scopes" where
  "fanout_clear sid f = f\<lparr>fo_dirs := jm_delete sid (fo_dirs f)\<rparr>"

definition fanout_allows :: "string list \<Rightarrow> string \<Rightarrow> string list \<Rightarrow> fanout_scopes \<Rightarrow> bool" where
  "fanout_allows cwd sid paths f =
     (case jm_get (fo_dirs f) sid of None \<Rightarrow> False
      | Some dirs \<Rightarrow>
          if paths = [] then False
          else list_all (\<lambda>p. list_ex (\<lambda>d. isInside cwd d (resolvePath cwd p)) dirs) paths)"

definition fanout_scopeFor :: "string \<Rightarrow> fanout_scopes \<Rightarrow> string list" where
  "fanout_scopeFor sid f = roots_or_empty (fo_dirs f) sid"

definition grantForTurn :: "string \<Rightarrow> string list \<Rightarrow> fanout_scopes \<Rightarrow> fanout_scopes" where
  "grantForTurn sid dirs f =
     (let absolute = filter isAbsolute dirs
      in if absolute = [] then f
         else f\<lparr>fo_turn := jm_set sid (fold js_add (roots_or_empty (fo_turn f) sid @ absolute) []) (fo_turn f)\<rparr>)"

definition turnGrantCovers :: "string list \<Rightarrow> string \<Rightarrow> string list \<Rightarrow> fanout_scopes \<Rightarrow> bool" where
  "turnGrantCovers cwd sid dirs f =
     (case jm_get (fo_turn f) sid of None \<Rightarrow> False
      | Some approved \<Rightarrow>
          if dirs = [] then False
          else list_all (\<lambda>d. list_ex (\<lambda>root. isInside cwd root (resolvePath cwd d)) approved) dirs)"

definition clearTurnGrant :: "string \<Rightarrow> fanout_scopes \<Rightarrow> fanout_scopes" where
  "clearTurnGrant sid f = f\<lparr>fo_turn := jm_delete sid (fo_turn f)\<rparr>"

definition read_widen ::
  "string list \<Rightarrow> string \<Rightarrow> string \<Rightarrow> (string, string list) jsmap \<Rightarrow> (string, string list) jsmap" where
  "read_widen cwd sid dir m =
     (if \<not> isAbsolute dir then m
      else let root = resolvePath cwd dir; roots = roots_or_empty m sid
           in if list_ex (\<lambda>known. isInside cwd known root) roots then m
              else jm_set sid (filter (\<lambda>known. \<not> isInside cwd root known) roots @ [root]) m)"

definition read_rootsFor :: "string \<Rightarrow> (string, string list) jsmap \<Rightarrow> string list" where
  "read_rootsFor sid m = roots_or_empty m sid"

definition read_clear :: "string option \<Rightarrow> (string, string list) jsmap \<Rightarrow> (string, string list) jsmap" where
  "read_clear sid m = (case sid of None \<Rightarrow> [] | Some s \<Rightarrow> jm_delete s m)"

section \<open>Declined calls of the turn\<close>

definition normaliseTargets :: "string list \<Rightarrow> string list option \<Rightarrow> string list" where
  "normaliseTargets cwd paths =
     (case paths of None \<Rightarrow> [] | Some ps \<Rightarrow> fold js_add (map (resolvePath cwd) ps) [])"

definition or_nil :: "'a list option \<Rightarrow> 'a list" where
  "or_nil x = (case x of None \<Rightarrow> [] | Some v \<Rightarrow> v)"

text \<open>The wire name of a category, as \<open>callKey\<close> serialises it.\<close>

fun category_name :: "approval_category \<Rightarrow> string" where
  "category_name FsWriteWorkspace = ''fs_write_workspace''"
| "category_name FsWriteHome = ''fs_write_home''"
| "category_name FsTrash = ''fs_trash''"
| "category_name Http = ''http''"
| "category_name Shell = ''shell''"
| "category_name Script = ''script''"
| "category_name ProcKill = ''proc_kill''"
| "category_name GitRemote = ''git_remote''"
| "category_name BrowserNonweb = ''browser_nonweb''"
| "category_name BrowserCommit = ''browser_commit''"
| "category_name BrowserSecret = ''browser_secret''"
| "category_name BrowserOffsite = ''browser_offsite''"
| "category_name TrustConfig = ''trust_config''"
| "category_name Publish = ''publish''"
| "category_name Email = ''email''"
| "category_name FusionFanout = ''fusion_fanout''"
| "category_name FsReadOutside = ''fs_read_outside''"
| "category_name StateSecret = ''state_secret''"
| "category_name PaidGeneration = ''paid_generation''"
| "category_name ScreenControl = ''screen_control''"
| "category_name ScreenCapture = ''screen_capture''"
| "category_name LocalModelRestart = ''local_model_restart''"
| "category_name OtherCategory = ''other''"

definition callKey :: "string list \<Rightarrow> approval_request \<Rightarrow> string" where
  "callKey cwd r = canonicalJson (JArr
     [JStr (aq_tool r), JStr (category_name (aq_category r)), JStr (aq_reason r),
      JStr (js_trim (collapse_ws False (or_nil (aq_preview r)))),
      JArr (map JStr (sort (or_nil (aq_affectedResources r)))),
      JArr (map JStr (sort (normaliseTargets cwd (aq_targetPaths r))))])"

definition declinedRecords :: "string \<Rightarrow> gate \<Rightarrow> declined_in_turn list" where
  "declinedRecords sid g =
     (let own = (case jm_get (gt_declined g) sid of None \<Rightarrow> [] | Some d \<Rightarrow> [d]);
          inherited = (case jm_get (gt_parents g) sid of None \<Rightarrow> []
                       | Some p \<Rightarrow> (case jm_get (gt_declined g) p of None \<Rightarrow> [] | Some d \<Rightarrow> [d]))
      in own @ inherited)"

fun first_some :: "('a \<Rightarrow> 'b option) \<Rightarrow> 'a list \<Rightarrow> 'b option" where
  "first_some f [] = None"
| "first_some f (x # xs) = (case f x of None \<Rightarrow> first_some f xs | Some y \<Rightarrow> Some y)"

definition declined_target_text :: "string \<Rightarrow> string \<Rightarrow> string" where
  "declined_target_text tool target = tool @ '' on '' @ target @ '' (this call would change that file too)''"

definition declinedTarget ::
  "string list \<Rightarrow> string \<Rightarrow> string \<Rightarrow> approval_category \<Rightarrow> string list option \<Rightarrow> gate \<Rightarrow> string option" where
  "declinedTarget cwd sid tool category targetPaths g =
     first_some (\<lambda>declined.
       first_some (\<lambda>target.
         case jm_get (dt_targets declined) target of
           None \<Rightarrow> None
         | Some t \<Rightarrow> if category = Shell \<or> t = tool then Some (declined_target_text t target) else None)
       (normaliseTargets cwd targetPaths)) (declinedRecords sid g)"

definition declinedInTurn :: "string list \<Rightarrow> approval_request \<Rightarrow> gate \<Rightarrow> string option" where
  "declinedInTurn cwd r g =
     (if list_ex (\<lambda>d. callKey cwd r \<in> set (dt_calls d)) (declinedRecords (aq_sessionId r) g)
      then Some ''this same call''
      else declinedTarget cwd (aq_sessionId r) (aq_tool r) (aq_category r) (aq_targetPaths r) g)"

definition recordDeclined :: "string list \<Rightarrow> approval_request \<Rightarrow> string option \<Rightarrow> gate \<Rightarrow> gate" where
  "recordDeclined cwd r reason g =
     (if js_trim (or_nil reason) \<noteq> [] then g
      else let d = (case jm_get (gt_declined g) (aq_sessionId r) of
                      None \<Rightarrow> \<lparr>dt_calls = [], dt_targets = []\<rparr> | Some d \<Rightarrow> d);
               d1 = d\<lparr>dt_calls := js_add (callKey cwd r) (dt_calls d)\<rparr>;
               d2 = (if aq_category r = Shell then d1
                     else d1\<lparr>dt_targets := fold (\<lambda>t. jm_set t (aq_tool r))
                            (normaliseTargets cwd (aq_targetPaths r)) (dt_targets d1)\<rparr>)
           in g\<lparr>gt_declined := jm_set (aq_sessionId r) d2 (gt_declined g)\<rparr>)"

definition hasDeclinedTarget ::
  "string list \<Rightarrow> string \<Rightarrow> string \<Rightarrow> approval_category \<Rightarrow> string list option \<Rightarrow> gate \<Rightarrow> bool" where
  "hasDeclinedTarget cwd sid tool category targetPaths g =
     (declinedTarget cwd sid tool category targetPaths g \<noteq> None)"

definition under_dirs :: "string list \<Rightarrow> string list \<Rightarrow> string \<Rightarrow> bool" where
  "under_dirs cwd dirs target = list_ex (\<lambda>d. isInside cwd (resolvePath cwd d) target) dirs"

definition hasDeclinedUnder :: "string list \<Rightarrow> string \<Rightarrow> string list \<Rightarrow> gate \<Rightarrow> bool" where
  "hasDeclinedUnder cwd sid dirs g =
     (case jm_get (gt_declined g) sid of None \<Rightarrow> False
      | Some d \<Rightarrow> list_ex (under_dirs cwd dirs) (jm_keys (dt_targets d)))"

definition forgetDeclinedUnder :: "string list \<Rightarrow> string \<Rightarrow> string list \<Rightarrow> gate \<Rightarrow> gate" where
  "forgetDeclinedUnder cwd sid dirs g =
     (case jm_get (gt_declined g) sid of None \<Rightarrow> g
      | Some d \<Rightarrow> g\<lparr>gt_declined := jm_set sid
          (d\<lparr>dt_targets := filter (\<lambda>q. \<not> under_dirs cwd dirs (fst q)) (dt_targets d)\<rparr>) (gt_declined g)\<rparr>)"

definition followDeclined :: "string \<Rightarrow> string \<Rightarrow> gate \<Rightarrow> gate" where
  "followDeclined sid parent g = g\<lparr>gt_parents := jm_set sid parent (gt_parents g)\<rparr>"

definition forgetDeclined :: "string \<Rightarrow> gate \<Rightarrow> gate" where
  "forgetDeclined sid g = g\<lparr>gt_declined := jm_delete sid (gt_declined g)\<rparr>"

section \<open>Policies, level and grants\<close>

definition setSessionPolicy :: "string \<Rightarrow> string \<Rightarrow> gate \<Rightarrow> gate" where
  "setSessionPolicy sid reason g = g\<lparr>gt_policies := jm_set sid reason (gt_policies g)\<rparr>"

definition clearSessionPolicy :: "string \<Rightarrow> gate \<Rightarrow> gate" where
  "clearSessionPolicy sid g = g\<lparr>gt_policies := jm_delete sid (gt_policies g)\<rparr>"

definition setLevel :: "js_number \<Rightarrow> gate \<Rightarrow> gate" where
  "setLevel level g = g\<lparr>gt_level := clampApprovalLevel level\<rparr>"

definition clearSessionGrants :: "string option \<Rightarrow> gate \<Rightarrow> gate" where
  "clearSessionGrants sid g =
     (let g1 = g\<lparr>gt_readRoots := read_clear sid (gt_readRoots g)\<rparr>
      in (case sid of
            None \<Rightarrow> g1\<lparr>gt_grants := [], gt_declined := [], gt_parents := []\<rparr>
          | Some s \<Rightarrow> g1\<lparr>gt_grants := jm_delete s (gt_grants g1),
                          gt_declined := jm_delete s (gt_declined g1),
                          gt_parents := jm_delete s (gt_parents g1)\<rparr>))"

definition emptyGrants :: session_grants where
  "emptyGrants = \<lparr>sg_categories = [], sg_shapes = []\<rparr>"

definition sessionGrants :: "string option \<Rightarrow> gate \<Rightarrow> session_grants" where
  "sessionGrants sid g =
     (case sid of
        Some s \<Rightarrow> (case jm_get (gt_grants g) s of None \<Rightarrow> emptyGrants | Some e \<Rightarrow> e)
      | None \<Rightarrow> fold (\<lambda>(k, e) acc. acc\<lparr>sg_categories := fold js_add (sg_categories e) (sg_categories acc),
                                       sg_shapes := fold js_add (sg_shapes e) (sg_shapes acc)\<rparr>)
                    (gt_grants g) emptyGrants)"

definition grantsForSession :: "string \<Rightarrow> gate \<Rightarrow> session_grants" where
  "grantsForSession sid g = (case jm_get (gt_grants g) sid of None \<Rightarrow> emptyGrants | Some e \<Rightarrow> e)"

text \<open>A commandShape is truthy when it is present and not empty.\<close>

definition truthy :: "string option \<Rightarrow> bool" where
  "truthy s = (case s of None \<Rightarrow> False | Some t \<Rightarrow> t \<noteq> [])"

definition recordGrant :: "approval_request \<Rightarrow> grant_scope \<Rightarrow> gate \<Rightarrow> gate" where
  "recordGrant r scope g =
     (if \<not> isGrantableCategory (aq_category r) then g
      else let grants = grantsForSession (aq_sessionId r) g;
               grants' = (case scope of
                   GrantCategory \<Rightarrow> grants\<lparr>sg_categories := js_add (aq_category r) (sg_categories grants)\<rparr>
                 | GrantShape \<Rightarrow>
                     if aq_category r = Shell \<and> truthy (aq_commandShape r)
                     then grants\<lparr>sg_shapes := js_add (or_nil (aq_commandShape r)) (sg_shapes grants)\<rparr>
                     else grants)
           in g\<lparr>gt_grants := jm_set (aq_sessionId r) grants' (gt_grants g)\<rparr>)"

definition autoApproval :: "string \<Rightarrow> approval_category \<Rightarrow> string option \<Rightarrow> gate \<Rightarrow> string option" where
  "autoApproval sid category commandShape g =
     (if isAutoApprovedAt (gt_level g) category then
        Some (''auto-approved (level '' @ show_nat (gt_level g) @ '')'')
      else if \<not> isGrantableCategory category then None
      else (case jm_get (gt_grants g) sid of
              None \<Rightarrow> None
            | Some grants \<Rightarrow>
                if category \<in> set (sg_categories grants) then Some ''auto-approved (session grant)''
                else if category = Shell \<and> truthy commandShape \<and> or_nil commandShape \<in> set (sg_shapes grants)
                then Some (''auto-approved (session grant: '' @ or_nil commandShape @ '')'')
                else None))"

definition wouldPrompt :: "string \<Rightarrow> approval_category \<Rightarrow> gate \<Rightarrow> bool" where
  "wouldPrompt sid category g =
     (if autoApproval sid category None g \<noteq> None then False
      else jm_get (gt_policies g) sid = None)"

section \<open>Requests and decisions\<close>

datatype request_outcome = Settled approval_decision | AbortedNow | Waiting

text \<open>\<open>aborted\<close> is the state of the caller's signal, \<open>ledger\<close> that of its async context.\<close>

definition request ::
  "string list \<Rightarrow> approval_request \<Rightarrow> bool \<Rightarrow> nat option \<Rightarrow> gate \<Rightarrow> gate \<times> request_outcome" where
  "request cwd r aborted ledger g =
     (let answer = \<lparr>ad_approvalId = aq_approvalId r, ad_approved = False, ad_reason = None,
            ad_automatic = True, ad_declinedEarlier = False, ad_grant = None, ad_pathOverride = None\<rparr>
      in (case declinedInTurn cwd r g of
            Some declined \<Rightarrow>
              (g, Settled (answer\<lparr>ad_reason := Some declined, ad_declinedEarlier := True\<rparr>))
          | None \<Rightarrow>
              (case autoApproval (aq_sessionId r) (aq_category r) (aq_commandShape r) g of
                 Some auto \<Rightarrow>
                   (g, Settled (answer\<lparr>ad_approved := True, ad_reason := Some auto, ad_automatic := False\<rparr>))
               | None \<Rightarrow>
                   (case jm_get (gt_policies g) (aq_sessionId r) of
                      Some reason \<Rightarrow> (g, Settled (answer\<lparr>ad_reason := Some reason\<rparr>))
                    | None \<Rightarrow>
                        let g1 = g\<lparr>gt_pending := jm_set (aq_approvalId r)
                                     \<lparr>pe_request = r, pe_ledger = ledger\<rparr> (gt_pending g)\<rparr>
                        in if aborted then
                             (g1\<lparr>gt_pending := jm_delete (aq_approvalId r) (gt_pending g1)\<rparr>, AbortedNow)
                           else (g1\<lparr>gt_emitted := gt_emitted g1 @ [r]\<rparr>, Waiting)))))"

text \<open>The abort listener of a parked request.\<close>

definition abortRequest :: "string \<Rightarrow> gate \<Rightarrow> gate" where
  "abortRequest approvalId g =
     (if jm_has (gt_pending g) approvalId
      then g\<lparr>gt_pending := jm_delete approvalId (gt_pending g),
             gt_answers := gt_answers g @ [(approvalId, AbortedError ''approval aborted before a decision was made'')]\<rparr>
      else g)"

definition push_ledger :: "nat option \<Rightarrow> tool_approval_record \<Rightarrow> gate \<Rightarrow> gate" where
  "push_ledger ledger entry g =
     (case ledger of None \<Rightarrow> g
      | Some l \<Rightarrow> g\<lparr>gt_ledgers := jm_set l (or_nil (jm_get (gt_ledgers g) l) @ [entry]) (gt_ledgers g)\<rparr>)"

definition resolve :: "string list \<Rightarrow> nat \<Rightarrow> approval_decision \<Rightarrow> gate \<Rightarrow> gate \<times> bool" where
  "resolve cwd now decision g =
     (case jm_get (gt_pending g) (ad_approvalId decision) of
        None \<Rightarrow> (g, False)
      | Some entry \<Rightarrow>
          let g1 = g\<lparr>gt_pending := jm_delete (ad_approvalId decision) (gt_pending g)\<rparr>;
              g2 = push_ledger (pe_ledger entry)
                     \<lparr>ta_approved = ad_approved decision, ta_category = aq_category (pe_request entry),
                      ta_at = now\<rparr> g1;
              g3 = (case ad_grant decision of
                      Some scope \<Rightarrow> if ad_approved decision then recordGrant (pe_request entry) scope g2 else g2
                    | None \<Rightarrow> g2);
              g4 = (if \<not> ad_approved decision \<and> \<not> ad_automatic decision
                    then recordDeclined cwd (pe_request entry) (ad_reason decision) g3 else g3)
          in (g4\<lparr>gt_answers := gt_answers g4 @ [(ad_approvalId decision, Answered decision)]\<rparr>, True))"

definition denial :: "string \<Rightarrow> string \<Rightarrow> bool \<Rightarrow> approval_decision" where
  "denial approvalId reason automatic =
     \<lparr>ad_approvalId = approvalId, ad_approved = False, ad_reason = Some reason, ad_automatic = automatic,
      ad_declinedEarlier = False, ad_grant = None, ad_pathOverride = None\<rparr>"

definition reject :: "string list \<Rightarrow> nat \<Rightarrow> string \<Rightarrow> string \<Rightarrow> gate \<Rightarrow> gate \<times> bool" where
  "reject cwd now approvalId reason g = resolve cwd now (denial approvalId reason False) g"

definition pending_ids :: "string \<Rightarrow> gate \<Rightarrow> string list" where
  "pending_ids sid g =
     map fst (filter (\<lambda>q. aq_sessionId (pe_request (snd q)) = sid) (gt_pending g))"

definition denyPendingForSession :: "string list \<Rightarrow> nat \<Rightarrow> string \<Rightarrow> string \<Rightarrow> gate \<Rightarrow> gate \<times> nat" where
  "denyPendingForSession cwd now sid reason g =
     (let ids = pending_ids sid g
      in (fold (\<lambda>i h. fst (resolve cwd now (denial i reason True) h)) ids g, length ids))"

definition pendingRequestForSession :: "string \<Rightarrow> gate \<Rightarrow> approval_request option" where
  "pendingRequestForSession sid g =
     first_some (\<lambda>(k, e). if aq_sessionId (pe_request e) = sid then Some (pe_request e) else None)
       (gt_pending g)"

definition pendingRequest :: "string \<Rightarrow> gate \<Rightarrow> approval_request option" where
  "pendingRequest approvalId g = map_option pe_request (jm_get (gt_pending g) approvalId)"

definition isPending :: "string \<Rightarrow> gate \<Rightarrow> bool" where
  "isPending approvalId g = jm_has (gt_pending g) approvalId"

definition pendingCount :: "gate \<Rightarrow> nat" where
  "pendingCount g = length (gt_pending g)"

definition canGrantCategory :: "approval_request \<Rightarrow> bool" where
  "canGrantCategory r = isGrantableCategory (aq_category r)"

definition canGrantShape :: "approval_request \<Rightarrow> bool" where
  "canGrantShape r = (aq_category r = Shell \<and> truthy (aq_commandShape r))"

end
