(* ===== verification/Approval_Runs.thy ===== *)
theory Approval_Runs
  imports Approval_Gate
begin

text \<open>
  Sequences of operations on the approval gate: \<open>gate_op\<close> is one call of a public method,
  \<open>gate_run\<close> a sequence of them and \<open>gate_reach\<close> the gates such sequences produce. The lemmas say
  which fields each operation leaves alone, that no prompt is lost, and, through the locale
  \<open>session_book\<close>, that the grants and the declined calls of a session change only by operations on
  that session.
\<close>


section \<open>Runs of the gate\<close>

datatype gate_op =
    OpRequest approval_request bool "nat option"
  | OpAbort string
  | OpResolve nat approval_decision
  | OpDenyPending nat string string
  | OpSetPolicy string string
  | OpClearPolicy string
  | OpSetLevel js_number
  | OpClearGrants "string option"
  | OpForget string
  | OpForgetUnder string "string list"
  | OpFollow string string
  | OpReadWiden string string
  | OpFanoutGrant string "string list"
  | OpFanoutClear string
  | OpTurnGrant string "string list"
  | OpClearTurn string

fun gate_step :: "string list \<Rightarrow> gate_op \<Rightarrow> gate \<Rightarrow> gate" where
  "gate_step cwd (OpRequest r aborted ledger) g = fst (request cwd r aborted ledger g)"
| "gate_step cwd (OpAbort i) g = abortRequest i g"
| "gate_step cwd (OpResolve now d) g = fst (resolve cwd now d g)"
| "gate_step cwd (OpDenyPending now sid reason) g = fst (denyPendingForSession cwd now sid reason g)"
| "gate_step cwd (OpSetPolicy sid reason) g = setSessionPolicy sid reason g"
| "gate_step cwd (OpClearPolicy sid) g = clearSessionPolicy sid g"
| "gate_step cwd (OpSetLevel l) g = setLevel l g"
| "gate_step cwd (OpClearGrants sid) g = clearSessionGrants sid g"
| "gate_step cwd (OpForget sid) g = forgetDeclined sid g"
| "gate_step cwd (OpForgetUnder sid dirs) g = forgetDeclinedUnder cwd sid dirs g"
| "gate_step cwd (OpFollow sid parent) g = followDeclined sid parent g"
| "gate_step cwd (OpReadWiden sid dir) g = g\<lparr>gt_readRoots := read_widen cwd sid dir (gt_readRoots g)\<rparr>"
| "gate_step cwd (OpFanoutGrant sid dirs) g = g\<lparr>gt_fanout := fanout_grant sid dirs (gt_fanout g)\<rparr>"
| "gate_step cwd (OpFanoutClear sid) g = g\<lparr>gt_fanout := fanout_clear sid (gt_fanout g)\<rparr>"
| "gate_step cwd (OpTurnGrant sid dirs) g = g\<lparr>gt_fanout := grantForTurn sid dirs (gt_fanout g)\<rparr>"
| "gate_step cwd (OpClearTurn sid) g = g\<lparr>gt_fanout := clearTurnGrant sid (gt_fanout g)\<rparr>"

definition gate_run :: "string list \<Rightarrow> gate_op list \<Rightarrow> gate \<Rightarrow> gate" where
  "gate_run cwd ops g = fold (gate_step cwd) ops g"

lemma gate_run_simps [simp]:
  "gate_run cwd [] g = g"
  "gate_run cwd (op # ops) g = gate_run cwd ops (gate_step cwd op g)"
  "gate_run cwd (ops @ [op]) g = gate_step cwd op (gate_run cwd ops g)"
  by (simp_all add: gate_run_def)

section \<open>What an operation leaves alone\<close>

lemma jm_delete_absent: "jm_get m k = None \<Longrightarrow> jm_delete k m = m"
  by (auto simp: jm_delete_def filter_id_conv jm_get_None_iff)

lemma push_ledger_fields [simp]:
  "gt_pending (push_ledger l e g) = gt_pending g" "gt_level (push_ledger l e g) = gt_level g"
  "gt_grants (push_ledger l e g) = gt_grants g" "gt_policies (push_ledger l e g) = gt_policies g"
  "gt_declined (push_ledger l e g) = gt_declined g" "gt_parents (push_ledger l e g) = gt_parents g"
  "gt_emitted (push_ledger l e g) = gt_emitted g" "gt_answers (push_ledger l e g) = gt_answers g"
  by (simp_all add: push_ledger_def split: option.splits)

lemma recordGrant_fields [simp]:
  "gt_pending (recordGrant r sc g) = gt_pending g" "gt_level (recordGrant r sc g) = gt_level g"
  "gt_policies (recordGrant r sc g) = gt_policies g" "gt_declined (recordGrant r sc g) = gt_declined g"
  "gt_parents (recordGrant r sc g) = gt_parents g" "gt_emitted (recordGrant r sc g) = gt_emitted g"
  "gt_answers (recordGrant r sc g) = gt_answers g"
  by (simp_all add: recordGrant_def Let_def)

lemma recordDeclined_fields [simp]:
  "gt_pending (recordDeclined cwd r x g) = gt_pending g" "gt_level (recordDeclined cwd r x g) = gt_level g"
  "gt_policies (recordDeclined cwd r x g) = gt_policies g" "gt_grants (recordDeclined cwd r x g) = gt_grants g"
  "gt_parents (recordDeclined cwd r x g) = gt_parents g" "gt_emitted (recordDeclined cwd r x g) = gt_emitted g"
  "gt_answers (recordDeclined cwd r x g) = gt_answers g"
  by (simp_all add: recordDeclined_def Let_def)

lemma resolve_None [simp]: "jm_get (gt_pending g) (ad_approvalId d) = None \<Longrightarrow> resolve cwd now d g = (g, False)"
  by (simp add: resolve_def)

lemma resolve_fields [simp]:
  "gt_pending (fst (resolve cwd now d g)) = jm_delete (ad_approvalId d) (gt_pending g)"
  "gt_level (fst (resolve cwd now d g)) = gt_level g"
  "gt_policies (fst (resolve cwd now d g)) = gt_policies g"
  "gt_parents (fst (resolve cwd now d g)) = gt_parents g"
  "gt_emitted (fst (resolve cwd now d g)) = gt_emitted g"
proof -
  show "gt_pending (fst (resolve cwd now d g)) = jm_delete (ad_approvalId d) (gt_pending g)"
    by (cases "jm_get (gt_pending g) (ad_approvalId d)") (auto simp: resolve_def Let_def jm_delete_absent split: option.splits)
qed (auto simp: resolve_def Let_def split: option.splits)

lemma resolve_Some:
  assumes "jm_get (gt_pending g) (ad_approvalId d) = Some e"
  shows "gt_grants (fst (resolve cwd now d g)) =
      (case ad_grant d of Some sc \<Rightarrow> if ad_approved d then gt_grants (recordGrant (pe_request e) sc g) else gt_grants g
       | None \<Rightarrow> gt_grants g)"
    and "gt_declined (fst (resolve cwd now d g)) =
      (if \<not> ad_approved d \<and> \<not> ad_automatic d
       then gt_declined (recordDeclined cwd (pe_request e) (ad_reason d) g) else gt_declined g)"
    and "gt_answers (fst (resolve cwd now d g)) = gt_answers g @ [(ad_approvalId d, Answered d)]"
    and "snd (resolve cwd now d g)"
  using assms
  by (auto simp: resolve_def Let_def recordGrant_def recordDeclined_def grantsForSession_def split: option.splits)

lemma request_fields [simp]:
  "gt_level (fst (request cwd r ab l g)) = gt_level g" "gt_grants (fst (request cwd r ab l g)) = gt_grants g"
  "gt_policies (fst (request cwd r ab l g)) = gt_policies g" "gt_declined (fst (request cwd r ab l g)) = gt_declined g"
  "gt_parents (fst (request cwd r ab l g)) = gt_parents g" "gt_answers (fst (request cwd r ab l g)) = gt_answers g"
  by (simp_all add: request_def Let_def split: option.splits)

lemma abort_fields [simp]:
  "gt_pending (abortRequest i g) = jm_delete i (gt_pending g)"
  "gt_level (abortRequest i g) = gt_level g" "gt_grants (abortRequest i g) = gt_grants g"
  "gt_policies (abortRequest i g) = gt_policies g" "gt_declined (abortRequest i g) = gt_declined g"
  "gt_parents (abortRequest i g) = gt_parents g" "gt_emitted (abortRequest i g) = gt_emitted g"
proof -
  show "gt_pending (abortRequest i g) = jm_delete i (gt_pending g)"
    by (auto simp: abortRequest_def jm_has_def jm_delete_absent)
qed (auto simp: abortRequest_def)

text \<open>Denying a list of pending requests for nobody's decision.\<close>

definition deny_all :: "string list \<Rightarrow> nat \<Rightarrow> string \<Rightarrow> string list \<Rightarrow> gate \<Rightarrow> gate" where
  "deny_all cwd now reason ids g = fold (\<lambda>i h. fst (resolve cwd now (denial i reason True) h)) ids g"

lemma denyPending_eq:
  "denyPendingForSession cwd now sid reason g =
     (deny_all cwd now reason (pending_ids sid g) g, length (pending_ids sid g))"
  by (simp add: denyPendingForSession_def deny_all_def Let_def)

lemma denial_resolve:
  "gt_grants (fst (resolve cwd now (denial i reason True) g)) = gt_grants g"
  "gt_declined (fst (resolve cwd now (denial i reason True) g)) = gt_declined g"
  by (auto simp: resolve_def denial_def Let_def split: option.splits)

lemma deny_all_fields [simp]:
  "gt_pending (deny_all cwd now reason ids g) = filter (\<lambda>q. fst q \<notin> set ids) (gt_pending g)"
  "gt_grants (deny_all cwd now reason ids g) = gt_grants g"
  "gt_declined (deny_all cwd now reason ids g) = gt_declined g"
  "gt_level (deny_all cwd now reason ids g) = gt_level g"
  "gt_policies (deny_all cwd now reason ids g) = gt_policies g"
  "gt_parents (deny_all cwd now reason ids g) = gt_parents g"
  "gt_emitted (deny_all cwd now reason ids g) = gt_emitted g"
  by (induction ids arbitrary: g)
     (simp_all add: deny_all_def denial_resolve, simp_all add: denial_def jm_delete_def conj_commute)

lemma jm_delete_set: "jm_delete k (jm_set k v m) = jm_delete k m"
  by (induction k v m rule: jm_set.induct) (auto simp: jm_delete_def)

lemma request_cases:
  obtains (same) "fst (request cwd r ab l g) = g"
  | (dropped) "fst (request cwd r ab l g) = g\<lparr>gt_pending := jm_delete (aq_approvalId r) (gt_pending g)\<rparr>"
  | (parked) "fst (request cwd r ab l g) = g\<lparr>gt_pending := jm_set (aq_approvalId r)
        \<lparr>pe_request = r, pe_ledger = l\<rparr> (gt_pending g), gt_emitted := gt_emitted g @ [r]\<rparr>"
      "snd (request cwd r ab l g) = Waiting"
proof (cases "declinedInTurn cwd r g = None \<and> jm_get (gt_policies g) (aq_sessionId r) = None \<and>
    autoApproval (aq_sessionId r) (aq_category r) (aq_commandShape r) g = None")
  case True
  then show ?thesis using dropped parked by (cases ab) (simp_all add: request_def Let_def jm_delete_set)
next
  case False
  then have "fst (request cwd r ab l g) = g" by (auto simp: request_def Let_def split: option.splits)
  then show ?thesis by (rule same)
qed

section \<open>No prompt is lost\<close>

definition answered :: "gate \<Rightarrow> string \<Rightarrow> bool" where
  "answered g i \<longleftrightarrow> i \<in> fst ` set (gt_answers g)"

definition prompts_kept :: "gate \<Rightarrow> bool" where
  "prompts_kept g \<longleftrightarrow> (\<forall>r \<in> set (gt_emitted g). isPending (aq_approvalId r) g \<or> answered g (aq_approvalId r))"

lemma prompts_keptD:
  "prompts_kept g \<Longrightarrow> r \<in> set (gt_emitted g) \<Longrightarrow> isPending (aq_approvalId r) g \<or> answered g (aq_approvalId r)"
  by (simp add: prompts_kept_def)

lemma prompts_kept_same:
  assumes "prompts_kept g" and "gt_emitted h = gt_emitted g" and "gt_pending h = gt_pending g"
    and "gt_answers h = gt_answers g"
  shows "prompts_kept h"
  using assms by (simp add: prompts_kept_def isPending_def answered_def)

lemma prompts_kept_request:
  assumes "prompts_kept g" and "\<not> isPending (aq_approvalId r) g"
  shows "prompts_kept (fst (request cwd r ab l g))"
proof (cases rule: request_cases [of cwd r ab l g])
  case dropped
  then show ?thesis using assms by (simp add: jm_delete_absent isPending_def jm_has_def)
next
  case parked
  then show ?thesis using assms(1) by (auto simp: prompts_kept_def isPending_def jm_has_def answered_def)
qed (use assms in simp)

lemma prompts_kept_abort: "prompts_kept g \<Longrightarrow> prompts_kept (abortRequest i g)"
  by (auto simp: abortRequest_def prompts_kept_def isPending_def jm_has_def answered_def)

lemma prompts_kept_resolve:
  assumes "prompts_kept g"
  shows "prompts_kept (fst (resolve cwd now d g))"
proof (cases "jm_get (gt_pending g) (ad_approvalId d)")
  case None
  then show ?thesis using assms by simp
next
  case (Some e)
  then show ?thesis
    using assms resolve_Some(3) [OF Some, of cwd now]
    by (auto simp: prompts_kept_def isPending_def jm_has_def answered_def)
qed

lemma prompts_kept_deny_all: "prompts_kept g \<Longrightarrow> prompts_kept (deny_all cwd now reason ids g)"
  by (induction ids arbitrary: g) (simp_all add: deny_all_def prompts_kept_resolve)

text \<open>Approval ids are fresh: no request comes in under the id of one that is parked.\<close>

fun op_fresh :: "gate_op \<Rightarrow> gate \<Rightarrow> bool" where
  "op_fresh (OpRequest r aborted ledger) g = (\<not> isPending (aq_approvalId r) g)"
| "op_fresh op g = True"

inductive gate_reach :: "string list \<Rightarrow> nat option \<Rightarrow> gate \<Rightarrow> bool"
  for cwd :: "string list" and level :: "nat option" where
  start: "gate_reach cwd level (newGate level)"
| more: "gate_reach cwd level g \<Longrightarrow> op_fresh op g \<Longrightarrow> gate_reach cwd level (gate_step cwd op g)"

inductive_cases gate_reachE: "gate_reach cwd level g"

lemma prompts_kept_step: "prompts_kept g \<Longrightarrow> op_fresh op g \<Longrightarrow> prompts_kept (gate_step cwd op g)"
  by (cases op)
     (auto simp: prompts_kept_request prompts_kept_abort prompts_kept_resolve prompts_kept_deny_all denyPending_eq
        setSessionPolicy_def clearSessionPolicy_def setLevel_def clearSessionGrants_def forgetDeclined_def
        forgetDeclinedUnder_def followDeclined_def Let_def split: option.splits intro: prompts_kept_same)

lemma prompts_kept_reach: "gate_reach cwd level g \<Longrightarrow> prompts_kept g"
  by (induction rule: gate_reach.induct) (simp_all add: prompts_kept_step, simp add: prompts_kept_def newGate_def)

section \<open>The shape of a gate\<close>

definition pending_ok :: "gate \<Rightarrow> bool" where
  "pending_ok g \<longleftrightarrow> jm_ok (gt_pending g) \<and>
     (\<forall>q \<in> set (gt_pending g). aq_approvalId (pe_request (snd q)) = fst q) \<and>
     (\<forall>q \<in> set (gt_grants g). \<forall>c \<in> set (sg_categories (snd q)). isGrantableCategory c)"

lemma set_jm_set: "set (jm_set k v m) \<subseteq> insert (k, v) (set m)"
  by (induction k v m rule: jm_set.induct) auto

lemma pending_ok_request: "pending_ok g \<Longrightarrow> pending_ok (fst (request cwd r ab l g))"
proof (cases rule: request_cases [of cwd r ab l g])
  case dropped
  assume "pending_ok g"
  with dropped show ?thesis by (auto simp: pending_ok_def jm_delete_def)
next
  case parked
  assume ok: "pending_ok g"
  have "\<forall>q \<in> set (jm_set (aq_approvalId r) \<lparr>pe_request = r, pe_ledger = l\<rparr> (gt_pending g)).
      aq_approvalId (pe_request (snd q)) = fst q"
    using ok set_jm_set [of "aq_approvalId r" "\<lparr>pe_request = r, pe_ledger = l\<rparr>" "gt_pending g"]
    by (force simp: pending_ok_def)
  with parked ok show ?thesis by (simp add: pending_ok_def)
qed simp

lemma grants_ok_recordGrant:
  assumes "\<forall>q \<in> set (gt_grants g). \<forall>c \<in> set (sg_categories (snd q)). isGrantableCategory c"
  shows "\<forall>q \<in> set (gt_grants (recordGrant r sc g)). \<forall>c \<in> set (sg_categories (snd q)). isGrantableCategory c"
proof -
  have "\<forall>c \<in> set (sg_categories (grantsForSession s g)). isGrantableCategory c" for s
    using assms by (force simp: grantsForSession_def emptyGrants_def split: option.splits dest: jm_get_Some_in)
  then show ?thesis
    using assms set_jm_set [of "aq_sessionId r" _ "gt_grants g"]
    by (auto simp: recordGrant_def Let_def split: grant_scope.splits dest!: subsetD [OF set_jm_set])
qed

lemma pending_ok_resolve:
  assumes "pending_ok g"
  shows "pending_ok (fst (resolve cwd now d g))"
proof (cases "jm_get (gt_pending g) (ad_approvalId d)")
  case (Some e)
  have "\<forall>q \<in> set (gt_grants (fst (resolve cwd now d g))). \<forall>c \<in> set (sg_categories (snd q)). isGrantableCategory c"
    using assms grants_ok_recordGrant [of g "pe_request e"]
    by (auto simp: resolve_Some(1) [OF Some] pending_ok_def split: option.splits)
  then show ?thesis using assms by (auto simp: pending_ok_def jm_delete_def)
qed (use assms in simp)

lemma pending_ok_deny_all: "pending_ok g \<Longrightarrow> pending_ok (deny_all cwd now reason ids g)"
  by (induction ids arbitrary: g) (simp_all add: deny_all_def pending_ok_resolve)

lemma pending_ok_step: "pending_ok g \<Longrightarrow> pending_ok (gate_step cwd op g)"
proof (cases op)
  case (OpClearGrants s)
  assume "pending_ok g"
  with OpClearGrants show ?thesis
    by (auto simp: clearSessionGrants_def pending_ok_def Let_def jm_delete_def split: option.splits)
next
  case (OpAbort i)
  assume "pending_ok g"
  with OpAbort show ?thesis by (auto simp: pending_ok_def jm_delete_def)
next
  case (OpSetLevel l)
  assume "pending_ok g"
  with OpSetLevel show ?thesis by (auto simp: pending_ok_def setLevel_def)
qed (simp_all add: pending_ok_request pending_ok_resolve denyPending_eq pending_ok_deny_all,
     auto simp: pending_ok_def setSessionPolicy_def clearSessionPolicy_def forgetDeclined_def
       forgetDeclinedUnder_def followDeclined_def split: option.splits)

lemma pending_ok_new: "pending_ok (newGate l)"
  by (simp add: pending_ok_def newGate_def)

lemma pending_ok_reach: "gate_reach cwd level g \<Longrightarrow> pending_ok g"
  by (induction rule: gate_reach.induct) (simp_all add: pending_ok_new pending_ok_step)

section \<open>Per-session books\<close>

definition grants_view :: "gate \<Rightarrow> string \<Rightarrow> session_grants option" where
  "grants_view g s = jm_get (gt_grants g) s"

definition declined_view :: "gate \<Rightarrow> string \<Rightarrow> declined_in_turn option" where
  "declined_view g s = jm_get (gt_declined g) s"

definition clears :: "gate_op \<Rightarrow> string \<Rightarrow> bool" where
  "clears op s = (op = OpClearGrants None \<or> op = OpClearGrants (Some s))"

definition resolves_for :: "gate_op \<Rightarrow> gate \<Rightarrow> string \<Rightarrow> (approval_decision \<Rightarrow> bool) \<Rightarrow> bool" where
  "resolves_for op g s P \<longleftrightarrow> (\<exists>now d e. op = OpResolve now d \<and> P d \<and>
     jm_get (gt_pending g) (ad_approvalId d) = Some e \<and> aq_sessionId (pe_request e) = s)"

definition grants_touched :: "gate_op \<Rightarrow> gate \<Rightarrow> string \<Rightarrow> bool" where
  "grants_touched op g s \<longleftrightarrow> clears op s \<or> resolves_for op g s (\<lambda>d. ad_approved d \<and> ad_grant d \<noteq> None)"

definition declined_touched :: "gate_op \<Rightarrow> gate \<Rightarrow> string \<Rightarrow> bool" where
  "declined_touched op g s \<longleftrightarrow> clears op s \<or> op = OpForget s \<or> (\<exists>dirs. op = OpForgetUnder s dirs) \<or>
     resolves_for op g s (\<lambda>d. \<not> ad_approved d \<and> \<not> ad_automatic d \<and> js_trim (or_nil (ad_reason d)) = [])"

lemma recordGrant_other: "aq_sessionId r \<noteq> s \<Longrightarrow> jm_get (gt_grants (recordGrant r sc g)) s = jm_get (gt_grants g) s"
  by (simp add: recordGrant_def Let_def)

lemma recordDeclined_other:
  "aq_sessionId r \<noteq> s \<or> js_trim (or_nil x) \<noteq> [] \<Longrightarrow>
     jm_get (gt_declined (recordDeclined cwd r x g)) s = jm_get (gt_declined g) s"
  by (auto simp: recordDeclined_def Let_def)

lemma grants_untouched:
  assumes "\<not> grants_touched op g s"
  shows "grants_view (gate_step cwd op g) s = grants_view g s"
proof (cases op)
  case (OpResolve now d)
  show ?thesis
  proof (cases "jm_get (gt_pending g) (ad_approvalId d)")
    case None
    with OpResolve show ?thesis by simp
  next
    case (Some e)
    then have "\<not> (ad_approved d \<and> ad_grant d \<noteq> None) \<or> aq_sessionId (pe_request e) \<noteq> s"
      using assms OpResolve by (auto simp: grants_touched_def resolves_for_def)
    then show ?thesis
      using OpResolve resolve_Some(1) [OF Some] recordGrant_other [of "pe_request e" s _ g]
      by (auto simp: grants_view_def split: option.splits)
  qed
next
  case (OpClearGrants x)
  with assms show ?thesis
    by (cases x) (auto simp: grants_touched_def clears_def grants_view_def clearSessionGrants_def Let_def)
next
  case (OpForgetUnder s dirs)
  then show ?thesis by (simp add: grants_view_def forgetDeclinedUnder_def split: option.splits)
qed (simp_all add: grants_view_def denyPending_eq setSessionPolicy_def clearSessionPolicy_def setLevel_def
       forgetDeclined_def followDeclined_def)

lemma declined_untouched:
  assumes "\<not> declined_touched op g s"
  shows "declined_view (gate_step cwd op g) s = declined_view g s"
proof (cases op)
  case (OpResolve now d)
  show ?thesis
  proof (cases "jm_get (gt_pending g) (ad_approvalId d)")
    case None
    with OpResolve show ?thesis by simp
  next
    case (Some e)
    then have "\<not> (\<not> ad_approved d \<and> \<not> ad_automatic d) \<or> aq_sessionId (pe_request e) \<noteq> s \<or>
        js_trim (or_nil (ad_reason d)) \<noteq> []"
      using assms OpResolve by (auto simp: declined_touched_def resolves_for_def)
    then show ?thesis
      using OpResolve resolve_Some(2) [OF Some] recordDeclined_other [of "pe_request e" s "ad_reason d" cwd g]
      by (auto simp: declined_view_def)
  qed
next
  case (OpClearGrants x)
  with assms show ?thesis
    by (cases x) (auto simp: declined_touched_def clears_def declined_view_def clearSessionGrants_def Let_def)
next
  case (OpForgetUnder s' dirs)
  with assms have "s' \<noteq> s" by (auto simp: declined_touched_def)
  with OpForgetUnder show ?thesis
    by (simp add: declined_view_def forgetDeclinedUnder_def split: option.splits)
next
  case (OpForget s')
  with assms have "s' \<noteq> s" by (auto simp: declined_touched_def)
  with OpForget show ?thesis by (simp add: declined_view_def forgetDeclined_def)
qed (simp_all add: declined_view_def denyPending_eq setSessionPolicy_def clearSessionPolicy_def setLevel_def
       followDeclined_def)

interpretation grant_book: session_book "gate_step cwd" grants_view grants_touched
  by unfold_locales (rule grants_untouched)

interpretation declined_book: session_book "gate_step cwd" declined_view declined_touched
  by unfold_locales (rule declined_untouched)

end
