(* ===== verification/Approval_Properties.thy ===== *)
theory Approval_Properties
  imports Approval_Runs
begin

text \<open>
  The properties of the approval ladder and gate (\<open>src/src/approval\<close>): where a silent approval
  comes from, how a denial is remembered and inherited by fusion workers, that prompts are
  neither lost nor answered twice, and the path containment and read scope underneath.
\<close>


section \<open>Where a grant comes from\<close>

definition approves_with ::
  "gate_op \<Rightarrow> gate \<Rightarrow> string \<Rightarrow> (approval_request \<Rightarrow> grant_scope \<Rightarrow> bool) \<Rightarrow> bool" where
  "approves_with op g s P \<longleftrightarrow> (\<exists>now d e sc. op = OpResolve now d \<and> ad_approved d \<and> ad_grant d = Some sc \<and>
     jm_get (gt_pending g) (ad_approvalId d) = Some e \<and> aq_sessionId (pe_request e) = s \<and> P (pe_request e) sc)"

lemma approves_with_mono:
  "approves_with op g s P \<Longrightarrow> (\<And>q sc. P q sc \<Longrightarrow> Q q sc) \<Longrightarrow> approves_with op g s Q"
  by (auto simp: approves_with_def)

definition granted :: "gate \<Rightarrow> string \<Rightarrow> session_grants" where
  "granted g s = (case jm_get (gt_grants g) s of None \<Rightarrow> emptyGrants | Some e \<Rightarrow> e)"

lemma granted_view: "grants_view g s = grants_view h s \<Longrightarrow> granted g s = granted h s"
  by (simp add: granted_def grants_view_def)

lemma granted_recordGrant:
  "granted (recordGrant r sc g) s =
     (if aq_sessionId r = s \<and> isGrantableCategory (aq_category r) then
        (case sc of GrantCategory \<Rightarrow> granted g s\<lparr>sg_categories := js_add (aq_category r) (sg_categories (granted g s))\<rparr>
         | GrantShape \<Rightarrow> if aq_category r = Shell \<and> truthy (aq_commandShape r)
             then granted g s\<lparr>sg_shapes := js_add (or_nil (aq_commandShape r)) (sg_shapes (granted g s))\<rparr>
             else granted g s)
      else granted g s)"
  by (auto simp: recordGrant_def granted_def grantsForSession_def Let_def split: grant_scope.splits)

text \<open>What one operation can add to the grants of a session.\<close>

lemma granted_step:
  assumes "c \<in> set (sg_categories (granted (gate_step cwd op g) s))"
    and "c \<notin> set (sg_categories (granted g s))"
  shows "approves_with op g s (\<lambda>r sc. sc = GrantCategory \<and> aq_category r = c \<and> isGrantableCategory c)"
proof -
  have "grants_touched op g s" using assms granted_view [OF grants_untouched] by metis
  moreover have "\<not> clears op s"
    using assms(1) by (auto simp: clears_def granted_def clearSessionGrants_def emptyGrants_def Let_def)
  ultimately obtain now d e sc where op: "op = OpResolve now d" "ad_approved d" "ad_grant d = Some sc"
    and e: "jm_get (gt_pending g) (ad_approvalId d) = Some e" "aq_sessionId (pe_request e) = s"
    by (auto simp: grants_touched_def resolves_for_def)
  have "granted (gate_step cwd op g) s = granted (recordGrant (pe_request e) sc g) s"
    using op by (simp add: granted_def resolve_Some(1) [OF e(1)])
  then have "c \<in> set (sg_categories (granted (recordGrant (pe_request e) sc g) s))" using assms(1) by simp
  then show ?thesis using op e assms(2)
    by (auto simp: approves_with_def granted_recordGrant split: if_splits grant_scope.splits)
qed

lemma granted_step_shape:
  assumes "x \<in> set (sg_shapes (granted (gate_step cwd op g) s))" and "x \<notin> set (sg_shapes (granted g s))"
  shows "approves_with op g s (\<lambda>r sc. sc = GrantShape \<and> aq_category r = Shell \<and> aq_commandShape r = Some x)"
proof -
  have "grants_touched op g s" using assms granted_view [OF grants_untouched] by metis
  moreover have "\<not> clears op s"
    using assms(1) by (auto simp: clears_def granted_def clearSessionGrants_def emptyGrants_def Let_def)
  ultimately obtain now d e sc where op: "op = OpResolve now d" "ad_approved d" "ad_grant d = Some sc"
    and e: "jm_get (gt_pending g) (ad_approvalId d) = Some e" "aq_sessionId (pe_request e) = s"
    by (auto simp: grants_touched_def resolves_for_def)
  have "granted (gate_step cwd op g) s = granted (recordGrant (pe_request e) sc g) s"
    using op by (simp add: granted_def resolve_Some(1) [OF e(1)])
  then have "x \<in> set (sg_shapes (granted (recordGrant (pe_request e) sc g) s))" using assms(1) by simp
  then show ?thesis using op e assms(2)
    by (auto simp: approves_with_def granted_recordGrant truthy_def or_nil_def
        split: if_splits grant_scope.splits option.splits)
qed

text \<open>An element that entered a book along a run entered it by some step of the run.\<close>

lemma run_entered:
  assumes "x \<in> B (gate_run cwd ops g)" and "x \<notin> B g"
    and "\<And>op h. x \<in> B (gate_step cwd op h) \<Longrightarrow> x \<notin> B h \<Longrightarrow> Q op h"
  shows "\<exists>ops1 op ops2. ops = ops1 @ op # ops2 \<and> Q op (gate_run cwd ops1 g)"
  using assms(1)
proof (induction ops rule: rev_induct)
  case Nil
  with assms(2) show ?case by simp
next
  case (snoc op ops)
  show ?case
  proof (cases "x \<in> B (gate_run cwd ops g)")
    case True
    then obtain ops1 op' ops2 where "ops = ops1 @ op' # ops2" "Q op' (gate_run cwd ops1 g)"
      using snoc.IH by blast
    then show ?thesis by (intro exI [of _ ops1] exI [of _ op'] exI [of _ "ops2 @ [op]"]) simp
  next
    case False
    with snoc.prems have "Q op (gate_run cwd ops g)" by (intro assms(3)) simp_all
    then show ?thesis by (intro exI [of _ ops] exI [of _ op] exI [of _ "[]"]) simp
  qed
qed

lemma granted_new [simp]: "granted (newGate lv) s = emptyGrants"
  by (simp add: granted_def newGate_def)

lemma granted_run:
  assumes "c \<in> set (sg_categories (granted (gate_run cwd ops (newGate lv)) s))"
  shows "\<exists>ops1 op ops2. ops = ops1 @ op # ops2 \<and> approves_with op (gate_run cwd ops1 (newGate lv)) s
    (\<lambda>r sc. sc = GrantCategory \<and> aq_category r = c \<and> isGrantableCategory c)"
  by (rule run_entered [where B = "\<lambda>g. set (sg_categories (granted g s))"])
     (use assms granted_step in \<open>auto simp: emptyGrants_def\<close>)

lemma granted_run_shape:
  assumes "x \<in> set (sg_shapes (granted (gate_run cwd ops (newGate lv)) s))"
  shows "\<exists>ops1 op ops2. ops = ops1 @ op # ops2 \<and> approves_with op (gate_run cwd ops1 (newGate lv)) s
    (\<lambda>r sc. sc = GrantShape \<and> aq_category r = Shell \<and> aq_commandShape r = Some x)"
  by (rule run_entered [where B = "\<lambda>g. set (sg_shapes (granted g s))"])
     (use assms granted_step_shape in \<open>auto simp: emptyGrants_def\<close>)

lemma request_approved:
  assumes "request cwd r ab l g = (g', Settled d)" and "ad_approved d"
  shows "isAutoApprovedAt (gt_level g) (aq_category r) \<or>
    isGrantableCategory (aq_category r) \<and>
      (aq_category r \<in> set (sg_categories (granted g (aq_sessionId r))) \<or>
       (\<exists>x. aq_category r = Shell \<and> aq_commandShape r = Some x \<and> x \<in> set (sg_shapes (granted g (aq_sessionId r)))))"
  using assms
  by (auto simp: request_def Let_def autoApproval_def granted_def truthy_def or_nil_def
      split: option.splits if_splits)

section \<open>What the user declined\<close>

definition declined_call :: "gate \<Rightarrow> string \<Rightarrow> string \<Rightarrow> bool" where
  "declined_call g s k \<longleftrightarrow> (\<exists>d. jm_get (gt_declined g) s = Some d \<and> k \<in> set (dt_calls d))"

definition forgets :: "gate_op \<Rightarrow> string \<Rightarrow> bool" where
  "forgets op s = (op = OpForget s \<or> clears op s)"

lemma declined_call_view: "declined_view g s = declined_view h s \<Longrightarrow> declined_call g s k = declined_call h s k"
  by (simp add: declined_call_def declined_view_def)

lemma declined_call_recordDeclined:
  "declined_call g s k \<Longrightarrow> declined_call (recordDeclined cwd r x g) s k"
  by (auto simp: declined_call_def recordDeclined_def Let_def)

lemma declined_call_recorded:
  "js_trim (or_nil x) = [] \<Longrightarrow> declined_call (recordDeclined cwd r x g) (aq_sessionId r) (callKey cwd r)"
  by (auto simp: declined_call_def recordDeclined_def Let_def)

lemma declined_call_step:
  assumes "declined_call g s k" and "\<not> forgets op s"
  shows "declined_call (gate_step cwd op g) s k"
proof (cases "declined_touched op g s")
  case False
  from declined_call_view [OF declined_untouched [OF this]] assms(1) show ?thesis by simp
next
  case True
  then consider (under) dirs where "op = OpForgetUnder s dirs"
    | (deny) now d e where "op = OpResolve now d" "jm_get (gt_pending g) (ad_approvalId d) = Some e"
        "\<not> ad_approved d" "\<not> ad_automatic d"
    using assms(2) by (auto simp: declined_touched_def forgets_def resolves_for_def)
  then show ?thesis
  proof cases
    case under
    with assms(1) show ?thesis by (auto simp: declined_call_def forgetDeclinedUnder_def)
  next
    case deny
    have "gt_declined (gate_step cwd op g) = gt_declined (recordDeclined cwd (pe_request e) (ad_reason d) g)"
      using deny by (simp add: resolve_Some(2) [OF deny(2)])
    then show ?thesis using declined_call_recordDeclined [OF assms(1)] by (simp add: declined_call_def)
  qed
qed

lemma declined_call_run:
  "declined_call g s k \<Longrightarrow> \<forall>op \<in> set ops. \<not> forgets op s \<Longrightarrow> declined_call (gate_run cwd ops g) s k"
  by (induction ops arbitrary: g) (simp_all add: declined_call_step)

lemma declined_call_records:
  assumes "declined_call g s k"
  shows "\<exists>d \<in> set (declinedRecords s g). k \<in> set (dt_calls d)"
    and "jm_get (gt_parents g) w = Some s \<Longrightarrow> \<exists>d \<in> set (declinedRecords w g). k \<in> set (dt_calls d)"
  using assms by (auto simp: declined_call_def declinedRecords_def)

lemma request_declined:
  assumes "\<exists>d \<in> set (declinedRecords (aq_sessionId r) g). callKey cwd r \<in> set (dt_calls d)"
  shows "\<exists>d. request cwd r ab l g = (g, Settled d) \<and> \<not> ad_approved d \<and> ad_declinedEarlier d \<and>
    ad_automatic d \<and> ad_reason d = Some ''this same call''"
proof -
  have "declinedInTurn cwd r g = Some ''this same call''"
    using assms by (auto simp: declinedInTurn_def list_ex_iff)
  then show ?thesis by (simp add: request_def)
qed

text \<open>A declined file is refused to a shell command and to the tool that was declined.\<close>

definition declined_file :: "gate \<Rightarrow> string \<Rightarrow> string \<Rightarrow> string \<Rightarrow> bool" where
  "declined_file g s target tool \<longleftrightarrow>
     (\<exists>d. jm_get (gt_declined g) s = Some d \<and> jm_get (dt_targets d) target = Some tool)"

lemma first_some_None_iff: "first_some f xs = None \<longleftrightarrow> (\<forall>x \<in> set xs. f x = None)"
  by (induction xs) (auto split: option.splits)

lemma declinedTarget_found:
  assumes "d \<in> set (declinedRecords s g)" and "target \<in> set (normaliseTargets cwd paths)"
    and "jm_get (dt_targets d) target = Some t" and "c = Shell \<or> t = tool"
  shows "declinedTarget cwd s tool c paths g \<noteq> None"
proof
  assume "declinedTarget cwd s tool c paths g = None"
  then have "(case jm_get (dt_targets d) target of None \<Rightarrow> None
      | Some t \<Rightarrow> if c = Shell \<or> t = tool then Some (declined_target_text t target) else None) = None"
    using assms(1,2) unfolding declinedTarget_def first_some_None_iff by blast
  with assms(3,4) show False by auto
qed

lemma declined_file_records:
  assumes "declined_file g s target t"
  shows "\<exists>d \<in> set (declinedRecords s g). jm_get (dt_targets d) target = Some t"
    and "jm_get (gt_parents g) w = Some s \<Longrightarrow> \<exists>d \<in> set (declinedRecords w g). jm_get (dt_targets d) target = Some t"
  using assms by (auto simp: declined_file_def declinedRecords_def)

lemma request_declined_file:
  assumes "\<exists>d \<in> set (declinedRecords (aq_sessionId r) g). jm_get (dt_targets d) target = Some t"
    and "target \<in> set (normaliseTargets cwd (aq_targetPaths r))"
    and "aq_category r = Shell \<or> t = aq_tool r"
  shows "\<exists>d. request cwd r ab l g = (g, Settled d) \<and> \<not> ad_approved d \<and> ad_declinedEarlier d"
proof -
  have "declinedTarget cwd (aq_sessionId r) (aq_tool r) (aq_category r) (aq_targetPaths r) g \<noteq> None"
    using assms declinedTarget_found [of _ "aq_sessionId r" g target cwd "aq_targetPaths r" t] by blast
  then have "declinedInTurn cwd r g \<noteq> None" by (auto simp: declinedInTurn_def)
  then obtain x where "declinedInTurn cwd r g = Some x" by blast
  then show ?thesis by (simp add: request_def)
qed

lemma fold_set_get:
  "jm_get (fold (\<lambda>t. jm_set t v) ts m) k = (if k \<in> set ts then Some v else jm_get m k)"
  by (induction ts arbitrary: m) auto

lemma declined_file_recorded:
  "js_trim (or_nil x) = [] \<Longrightarrow> aq_category r \<noteq> Shell \<Longrightarrow> target \<in> set (normaliseTargets cwd (aq_targetPaths r)) \<Longrightarrow>
     declined_file (recordDeclined cwd r x g) (aq_sessionId r) target (aq_tool r)"
  by (auto simp: declined_file_def recordDeclined_def Let_def fold_set_get)

lemma set_normaliseTargets: "set (normaliseTargets cwd (Some ps)) = resolvePath cwd ` set ps"
proof -
  have "set (fold js_add xs ys) = set ys \<union> set xs" for xs ys :: "string list"
    by (induction xs arbitrary: ys) auto
  then show ?thesis by (simp add: normaliseTargets_def)
qed

section \<open>Read roots\<close>

lemma isInside_trans:
  assumes "\<forall>x \<in> set cwd. seg_ok x" and "isInside cwd a b" and "isInside cwd b c"
  shows "isInside cwd a c"
proof -
  obtain r1 where r1: "resolve_segs cwd b = resolve_segs cwd a @ r1" "r1 = [] \<or> \<not> js_starts_with ''..'' (hd r1)"
    using assms(2) isInside_iff [OF assms(1)] by blast
  obtain r2 where r2: "resolve_segs cwd c = resolve_segs cwd b @ r2" "r2 = [] \<or> \<not> js_starts_with ''..'' (hd r2)"
    using assms(3) isInside_iff [OF assms(1)] by blast
  have "r1 @ r2 = [] \<or> \<not> js_starts_with ''..'' (hd (r1 @ r2))" using r1(2) r2(2) by (cases r1) auto
  then show ?thesis using r1(1) r2(1) isInside_iff [OF assms(1)] by (metis append.assoc)
qed

lemma isInside_refl [simp]: "isInside cwd a a"
proof -
  have "strip_common xs xs = ([], [])" for xs by (induction xs) auto
  then show ?thesis by (simp add: isInside_def relativePath_def)
qed

lemma isInside_resolve:
  assumes "\<forall>x \<in> set cwd. seg_ok x"
  shows "isInside cwd (resolvePath cwd a) b = isInside cwd a b"
    and "isInside cwd a (resolvePath cwd b) = isInside cwd a b"
  by (simp_all add: isInside_def relativePath_def resolve_resolved [OF assms])

definition readable :: "string list \<Rightarrow> string list \<Rightarrow> string \<Rightarrow> bool" where
  "readable cwd roots p = (\<exists>root \<in> set roots. isInside cwd root p)"

lemma widen_readable:
  assumes "\<forall>x \<in> set cwd. seg_ok x" and "isAbsolute dir"
  shows "readable cwd (read_rootsFor s (read_widen cwd s dir m)) p \<longleftrightarrow>
    readable cwd (read_rootsFor s m) p \<or> isInside cwd dir p"
proof (cases "list_ex (\<lambda>known. isInside cwd known (resolvePath cwd dir)) (roots_or_empty m s)")
  case True
  then obtain known where "known \<in> set (roots_or_empty m s)" "isInside cwd known dir"
    by (auto simp: list_ex_iff isInside_resolve [OF assms(1)])
  then have "isInside cwd dir p \<Longrightarrow> readable cwd (read_rootsFor s m) p"
    using isInside_trans [OF assms(1)] by (auto simp: readable_def read_rootsFor_def)
  with True assms(2) show ?thesis by (auto simp: read_widen_def Let_def)
next
  case False
  have "isInside cwd root p \<Longrightarrow> isInside cwd (resolvePath cwd dir) root \<Longrightarrow> isInside cwd dir p" for root
    using isInside_trans [OF assms(1)] by (auto simp: isInside_resolve [OF assms(1)])
  then show ?thesis
    using False assms(2)
    by (auto simp: read_widen_def Let_def read_rootsFor_def readable_def isInside_resolve [OF assms(1)]
        roots_or_empty_def [of "jm_set s _ m"])
qed

lemma widen_other: "s' \<noteq> s \<Longrightarrow> read_rootsFor s' (read_widen cwd s dir m) = read_rootsFor s' m"
  by (simp add: read_widen_def read_rootsFor_def roots_or_empty_def Let_def)

section \<open>Sample requests\<close>

definition sample_request :: "string \<Rightarrow> string \<Rightarrow> string \<Rightarrow> approval_category \<Rightarrow> string list \<Rightarrow> approval_request" where
  "sample_request i sid tool category targets = \<lparr>aq_approvalId = i, aq_sessionId = sid, aq_tool = tool,
     aq_category = category, aq_reason = ''r'', aq_preview = None, aq_affectedResources = None,
     aq_commandShape = None, aq_redirectablePath = None, aq_targetPaths = Some targets\<rparr>"

definition write_request :: "string \<Rightarrow> approval_request" where
  "write_request i = sample_request i ''main'' ''os.fs.write'' FsWriteHome [''/tmp/a'']"

definition parked_gate :: gate where
  "parked_gate = fst (request [] (write_request ''1'') False None (newGate None))"

lemma parked_reach: "gate_reach [] None parked_gate"
proof -
  have "gate_reach [] None (gate_step [] (OpRequest (write_request ''1'') False None) (newGate None))"
    by (rule gate_reach.more [OF gate_reach.start]) (simp add: isPending_def jm_has_def newGate_def)
  then show ?thesis by (simp add: parked_gate_def)
qed

definition bare_deny :: "string \<Rightarrow> approval_decision" where
  "bare_deny i = \<lparr>ad_approvalId = i, ad_approved = False, ad_reason = None, ad_automatic = False,
     ad_declinedEarlier = False, ad_grant = None, ad_pathOverride = None\<rparr>"

section \<open>Properties\<close>

text \<open>The ladder is cumulative: what runs unasked at a level runs unasked at every higher one;
  level 1 always asks and level 5 never does.\<close>

theorem ladder_cumulative:
  "(isAutoApprovedAt l c \<longrightarrow> l \<le> l' \<longrightarrow> isAutoApprovedAt l' c) \<and> \<not> isAutoApprovedAt 1 c \<and> isAutoApprovedAt 5 c"
  using table_range [of c] by (auto simp: isAutoApprovedAt_def)

text \<open>Clamping lands in 1 to 5 whatever the input, keeps the five levels, is monotone on
  finite numbers and takes the strictest level for a non-finite one; the boot flag can only
  lower strictness.\<close>

theorem clamp_level_sound:
  "1 \<le> clampApprovalLevel raw \<and> clampApprovalLevel raw \<le> 5 \<and> clampApprovalLevel NonFinite = 1 \<and>
   (\<forall>n \<in> {1..5}. clampApprovalLevel (Finite (of_nat n)) = n) \<and>
   (\<forall>a b. a \<le> b \<longrightarrow> clampApprovalLevel (Finite a) \<le> clampApprovalLevel (Finite b)) \<and>
   resolveBootApprovalLevel False raw \<le> resolveBootApprovalLevel True raw"
  using clamp_range [of raw] clamp_fixed clamp_mono
  by (simp add: resolveBootApprovalLevel_def MAX_APPROVAL_LEVEL_def MIN_APPROVAL_LEVEL_def
      clampApprovalLevel_def [of NonFinite])

text \<open>C4: a call that the gate approves without asking, below the level that approves its category,
  rides a grant of its own session: some earlier decision approved a parked request of that
  session, of the same category, with the category grant, or of the same shell binary with the
  shape grant; and the category is a grantable one.\<close>

theorem silent_approval_has_a_grant:
  assumes "request cwd r ab l (gate_run cwd ops (newGate lv)) = (g', Settled d)" and "ad_approved d"
    and "\<not> isAutoApprovedAt (gt_level (gate_run cwd ops (newGate lv))) (aq_category r)"
  shows "isGrantableCategory (aq_category r) \<and>
    (\<exists>ops1 op ops2. ops = ops1 @ op # ops2 \<and>
       approves_with op (gate_run cwd ops1 (newGate lv)) (aq_sessionId r)
         (\<lambda>q sc. aq_category q = aq_category r \<and>
                 (sc = GrantCategory \<or>
                  sc = GrantShape \<and> aq_category r = Shell \<and> aq_commandShape q = aq_commandShape r)))"
proof -
  let ?g = "gate_run cwd ops (newGate lv)"
  have gr: "isGrantableCategory (aq_category r)"
    and src: "aq_category r \<in> set (sg_categories (granted ?g (aq_sessionId r))) \<or>
       (\<exists>x. aq_category r = Shell \<and> aq_commandShape r = Some x \<and> x \<in> set (sg_shapes (granted ?g (aq_sessionId r))))"
    using request_approved [OF assms(1,2)] assms(3) by blast+
  let ?Q = "\<lambda>q sc. aq_category q = aq_category r \<and>
      (sc = GrantCategory \<or> sc = GrantShape \<and> aq_category r = Shell \<and> aq_commandShape q = aq_commandShape r)"
  have "\<exists>ops1 op ops2. ops = ops1 @ op # ops2 \<and> approves_with op (gate_run cwd ops1 (newGate lv)) (aq_sessionId r) ?Q"
    using src
  proof (elim disjE exE conjE)
    assume "aq_category r \<in> set (sg_categories (granted ?g (aq_sessionId r)))"
    from granted_run [OF this] show ?thesis
      by (elim exE conjE) (intro exI conjI, assumption, erule approves_with_mono, simp)
  next
    fix x
    assume "aq_category r = Shell" "aq_commandShape r = Some x" "x \<in> set (sg_shapes (granted ?g (aq_sessionId r)))"
    with granted_run_shape [OF this(3)] show ?thesis
      by (elim exE conjE) (intro exI conjI, assumption, erule approves_with_mono, simp)
  qed
  with gr show ?thesis by simp
qed

definition granting :: "string \<Rightarrow> approval_decision" where
  "granting i = \<lparr>ad_approvalId = i, ad_approved = True, ad_reason = None, ad_automatic = False,
     ad_declinedEarlier = False, ad_grant = Some GrantCategory, ad_pathOverride = None\<rparr>"

definition grant_ops :: "gate_op list" where
  "grant_ops = [OpRequest (write_request ''1'') False None, OpResolve 0 (granting ''1'')]"

theorem silent_approval_has_a_grant_witness:
  "\<exists>ops1 op ops2. grant_ops = ops1 @ op # ops2 \<and>
     approves_with op (gate_run [] ops1 (newGate None)) ''main''
       (\<lambda>q sc. aq_category q = FsWriteHome \<and>
          (sc = GrantCategory \<or> sc = GrantShape \<and> FsWriteHome = Shell \<and> aq_commandShape q = None))"
proof -
  let ?r = "write_request ''2''"
  have "snd (request [] ?r False None (gate_run [] grant_ops (newGate None))) =
      Settled ((granting ''2'')\<lparr>ad_grant := None, ad_reason := Some ''auto-approved (session grant)''\<rparr>)"
    by code_simp
  then have "request [] ?r False None (gate_run [] grant_ops (newGate None)) =
      (fst (request [] ?r False None (gate_run [] grant_ops (newGate None))),
       Settled ((granting ''2'')\<lparr>ad_grant := None, ad_reason := Some ''auto-approved (session grant)''\<rparr>))"
    by (metis prod.collapse)
  moreover have "gt_level (gate_run [] grant_ops (newGate None)) = 1" by code_simp
  ultimately show ?thesis
    using silent_approval_has_a_grant [of "[]" ?r False None grant_ops None]
    by (simp add: granting_def write_request_def sample_request_def isAutoApprovedAt_def)
qed

text \<open>A category that is not grantable is asked about at every level below its own, whatever was
  granted before: the gate never settles such a request as approved.\<close>

theorem never_granted_always_asks:
  assumes "\<not> isGrantableCategory (aq_category r)"
    and "gt_level g < AUTO_APPROVE_FROM_LEVEL (aq_category r)"
    and "request cwd r ab l g = (g', Settled d)"
  shows "\<not> ad_approved d"
  using request_approved [OF assms(3)] assms(1,2) by (auto simp: isAutoApprovedAt_def)

text \<open>C5: once a person has denied a call without words, the same call of that session is refused
  without a prompt, through any operations, until the session's declined calls are forgotten or
  its grants cleared.\<close>

theorem bare_denial_sticks:
  assumes "jm_get (gt_pending g) (ad_approvalId d) = Some e" and "\<not> ad_approved d" and "\<not> ad_automatic d"
    and "js_trim (or_nil (ad_reason d)) = []"
    and "\<forall>op \<in> set ops. \<not> forgets op (aq_sessionId (pe_request e))"
    and "aq_sessionId r = aq_sessionId (pe_request e)" and "callKey cwd r = callKey cwd (pe_request e)"
  shows "\<exists>dec. request cwd r ab l (gate_run cwd ops (fst (resolve cwd now d g))) =
      (gate_run cwd ops (fst (resolve cwd now d g)), Settled dec) \<and>
    \<not> ad_approved dec \<and> ad_declinedEarlier dec \<and> ad_automatic dec \<and> ad_reason dec = Some ''this same call''"
proof -
  let ?s = "aq_sessionId (pe_request e)"
  have "gt_declined (fst (resolve cwd now d g)) = gt_declined (recordDeclined cwd (pe_request e) (ad_reason d) g)"
    using assms(2,3) by (simp add: resolve_Some(2) [OF assms(1)])
  then have "declined_call (fst (resolve cwd now d g)) ?s (callKey cwd r)"
    using declined_call_recorded [OF assms(4), of cwd "pe_request e" g] assms(7)
    by (simp add: declined_call_def)
  then have "declined_call (gate_run cwd ops (fst (resolve cwd now d g))) ?s (callKey cwd r)"
    using assms(5) by (rule declined_call_run)
  from declined_call_records(1) [OF this] show ?thesis using request_declined assms(6) by metis
qed

theorem bare_denial_sticks_witness:
  "\<exists>dec. request [] (write_request ''2'') False None
      (gate_run [] [OpSetLevel (Finite 5), OpForget ''other''] (fst (resolve [] 0 (bare_deny ''1'') parked_gate))) =
    (gate_run [] [OpSetLevel (Finite 5), OpForget ''other''] (fst (resolve [] 0 (bare_deny ''1'') parked_gate)),
       Settled dec) \<and> \<not> ad_approved dec \<and> ad_declinedEarlier dec \<and> ad_automatic dec \<and>
    ad_reason dec = Some ''this same call''"
proof (rule bare_denial_sticks [where e = "\<lparr>pe_request = write_request ''1'', pe_ledger = None\<rparr>"])
  show "jm_get (gt_pending parked_gate) (ad_approvalId (bare_deny ''1'')) =
      Some \<lparr>pe_request = write_request ''1'', pe_ledger = None\<rparr>" by code_simp
  show "callKey [] (write_request ''2'') =
      callKey [] (pe_request \<lparr>pe_request = write_request ''1'', pe_ledger = None\<rparr>)"
    by (simp add: callKey_def write_request_def sample_request_def)
qed (simp_all add: bare_deny_def write_request_def sample_request_def or_nil_def js_trim_def forgets_def clears_def)

text \<open>A file that a person declined as a whole in the orchestrator's turn is refused to its fusion
  worker too, to a shell command and to the same tool, at every level.\<close>

theorem worker_inherits_declined_file:
  assumes "jm_get (gt_pending g) (ad_approvalId d) = Some e" and "\<not> ad_approved d" and "\<not> ad_automatic d"
    and "js_trim (or_nil (ad_reason d)) = []" and "aq_category (pe_request e) \<noteq> Shell"
    and "aq_targetPaths (pe_request e) = Some ps" and "p \<in> set ps"
    and "aq_targetPaths r = Some qs" and "q \<in> set qs" and "resolvePath cwd q = resolvePath cwd p"
    and "aq_category r = Shell \<or> aq_tool r = aq_tool (pe_request e)"
  shows "\<exists>dec. request cwd r ab l (followDeclined (aq_sessionId r) (aq_sessionId (pe_request e))
             (fst (resolve cwd now d g))) =
      (followDeclined (aq_sessionId r) (aq_sessionId (pe_request e)) (fst (resolve cwd now d g)), Settled dec) \<and>
    \<not> ad_approved dec \<and> ad_declinedEarlier dec"
proof -
  let ?h = "followDeclined (aq_sessionId r) (aq_sessionId (pe_request e)) (fst (resolve cwd now d g))"
  have "declined_file (recordDeclined cwd (pe_request e) (ad_reason d) g) (aq_sessionId (pe_request e))
      (resolvePath cwd p) (aq_tool (pe_request e))"
    using assms(5-7) by (intro declined_file_recorded assms(4)) (simp_all add: set_normaliseTargets)
  then have "declined_file ?h (aq_sessionId (pe_request e)) (resolvePath cwd p) (aq_tool (pe_request e))"
    using assms(2,3) by (simp add: declined_file_def followDeclined_def resolve_Some(2) [OF assms(1)])
  from declined_file_records(2) [OF this, of "aq_sessionId r"]
  have "\<exists>x \<in> set (declinedRecords (aq_sessionId r) ?h).
      jm_get (dt_targets x) (resolvePath cwd p) = Some (aq_tool (pe_request e))"
    by (simp add: followDeclined_def)
  moreover have "resolvePath cwd p \<in> set (normaliseTargets cwd (aq_targetPaths r))"
    using assms(8-10) by (auto simp: set_normaliseTargets intro: image_eqI [OF sym])
  ultimately show ?thesis using request_declined_file assms(11) by metis
qed

text \<open>Only a person's wordless no is remembered: an approval, an automatic denial or a denial with
  words leaves what every session declined as it was, and no denial changes a grant.\<close>

theorem only_bare_denials_recorded:
  assumes "ad_approved d \<or> ad_automatic d \<or> js_trim (or_nil (ad_reason d)) \<noteq> []"
  shows "declined_view (fst (resolve cwd now d g)) s = declined_view g s \<and>
    (\<not> ad_approved d \<longrightarrow> grants_view (fst (resolve cwd now d g)) s = grants_view g s)"
proof -
  have "\<not> declined_touched (OpResolve now d) g s"
    using assms by (auto simp: declined_touched_def clears_def resolves_for_def)
  moreover have "\<not> ad_approved d \<Longrightarrow> \<not> grants_touched (OpResolve now d) g s"
    by (auto simp: grants_touched_def clears_def resolves_for_def)
  ultimately show ?thesis
    using declined_untouched [of "OpResolve now d" g s cwd] grants_untouched [of "OpResolve now d" g s cwd] by auto
qed

text \<open>Sessions are isolated: the grants of a session are the same after any operations none of
  which clears them or approves one of its own requests with a grant, and the calls it declined
  are the same after any operations none of which forgets them or denies one of its own requests.\<close>

theorem sessions_isolated:
  "(session_book.quiet (gate_step cwd) grants_touched ops g s \<longrightarrow>
      grants_view (gate_run cwd ops g) s = grants_view g s) \<and>
   (session_book.quiet (gate_step cwd) declined_touched ops g s \<longrightarrow>
      declined_view (gate_run cwd ops g) s = declined_view g s)"
  unfolding gate_run_def by (simp add: grant_book.quiet_view declined_book.quiet_view)

text \<open>C6: no prompt is lost: in every gate reached with fresh approval ids, each request that was
  shown to a surface is still parked or its promise has been answered or aborted.\<close>

theorem no_prompt_lost:
  assumes "gate_reach cwd level g" and "r \<in> set (gt_emitted g)"
  shows "isPending (aq_approvalId r) g \<or> aq_approvalId r \<in> fst ` set (gt_answers g)"
  using prompts_keptD [OF prompts_kept_reach [OF assms(1)] assms(2)] by (simp add: answered_def)

theorem no_prompt_lost_witness:
  "isPending ''1'' parked_gate \<or> ''1'' \<in> fst ` set (gt_answers parked_gate)"
proof -
  have "gt_emitted parked_gate = [write_request ''1'']" by code_simp
  then show ?thesis using no_prompt_lost [OF parked_reach, of "write_request ''1''"]
    by (simp add: write_request_def sample_request_def)
qed

text \<open>A decision is taken at most once: resolving a parked request answers it with that decision
  and unparks it, and a second decision on the same id changes nothing and returns false.\<close>

theorem resolve_settles_once:
  assumes "isPending (ad_approvalId d) g" and "ad_approvalId d' = ad_approvalId d"
  shows "snd (resolve cwd now d g) \<and> \<not> isPending (ad_approvalId d) (fst (resolve cwd now d g)) \<and>
    gt_answers (fst (resolve cwd now d g)) = gt_answers g @ [(ad_approvalId d, Answered d)] \<and>
    resolve cwd now' d' (fst (resolve cwd now d g)) = (fst (resolve cwd now d g), False)"
proof -
  obtain e where e: "jm_get (gt_pending g) (ad_approvalId d) = Some e"
    using assms(1) by (auto simp: isPending_def jm_has_def)
  show ?thesis
    using resolve_Some(3,4) [OF e, of cwd now] assms(2) by (simp add: isPending_def jm_has_def)
qed

text \<open>Denying what a session has pending leaves none of its requests parked, keeps exactly the
  requests of the other sessions, returns how many there were, and counts as nobody's decision:
  grants and declined calls are untouched.\<close>

theorem deny_pending_for_session:
  assumes "gate_reach cwd0 level g"
  shows "let g' = fst (denyPendingForSession cwd now sid reason g) in
    gt_pending g' = filter (\<lambda>q. aq_sessionId (pe_request (snd q)) \<noteq> sid) (gt_pending g) \<and>
    pendingRequestForSession sid g' = None \<and>
    snd (denyPendingForSession cwd now sid reason g) + pendingCount g' = pendingCount g \<and>
    gt_declined g' = gt_declined g \<and> gt_grants g' = gt_grants g"
proof -
  let ?ids = "pending_ids sid g" and ?own = "\<lambda>q. aq_sessionId (pe_request (snd q)) = sid"
  have ok: "jm_ok (gt_pending g)" using pending_ok_reach [OF assms] by (simp add: pending_ok_def)
  have "fst q \<in> set ?ids \<longleftrightarrow> ?own q" if "q \<in> set (gt_pending g)" for q
    using ok that unfolding pending_ids_def jm_ok_def by (cases q) (force dest: eq_key_imp_eq_value)
  then have p: "gt_pending (fst (denyPendingForSession cwd now sid reason g)) =
      filter (\<lambda>q. \<not> ?own q) (gt_pending g)"
    by (simp add: denyPending_eq cong: filter_cong)
  moreover have "pendingRequestForSession sid (fst (denyPendingForSession cwd now sid reason g)) = None"
    unfolding pendingRequestForSession_def first_some_None_iff p by auto
  moreover have "length ?ids + length (filter (\<lambda>q. \<not> ?own q) (gt_pending g)) = length (gt_pending g)"
    by (simp add: pending_ids_def sum_length_filter_compl)
  ultimately show ?thesis by (simp add: Let_def denyPending_eq pendingCount_def)
qed

text \<open>A session under a refuse policy never parks: its request is settled at once, no surface
  sees it, and when nothing else approves or declines it the policy's reason is the answer.\<close>

theorem refuse_policy_never_parks:
  assumes "jm_get (gt_policies g) (aq_sessionId r) = Some reason"
  shows "fst (request cwd r ab l g) = g \<and> (\<exists>d. snd (request cwd r ab l g) = Settled d \<and>
    (declinedInTurn cwd r g = None \<longrightarrow>
     autoApproval (aq_sessionId r) (aq_category r) (aq_commandShape r) g = None \<longrightarrow>
     d = denial (aq_approvalId r) reason True)) \<and> \<not> wouldPrompt (aq_sessionId r) (aq_category r) g"
  using assms by (auto simp: request_def Let_def denial_def wouldPrompt_def split: option.splits)

text \<open>Containment is the prefix relation on resolved paths, except that a path whose first
  segment below the directory starts with two dots is held to be outside it.\<close>

theorem containment_is_prefix:
  assumes "\<forall>x \<in> set cwd. seg_ok x"
  shows "isInside cwd parent child \<longleftrightarrow>
    (\<exists>rest. resolve_segs cwd child = resolve_segs cwd parent @ rest \<and>
            (rest = [] \<or> \<not> js_starts_with ''..'' (hd rest)))"
  by (rule isInside_iff [OF assms])

text \<open>Widening the read scope by a directory makes readable exactly what was readable before and
  what lies in the directory, for that session only.\<close>

theorem read_widen_exact:
  assumes "\<forall>x \<in> set cwd. seg_ok x" and "isAbsolute dir"
  shows "(\<exists>root \<in> set (read_rootsFor s' (read_widen cwd s dir m)). isInside cwd root p) \<longleftrightarrow>
    (\<exists>root \<in> set (read_rootsFor s' m). isInside cwd root p) \<or> s' = s \<and> isInside cwd dir p"
  using widen_readable [OF assms, of s m p] widen_other [of s' s cwd dir m]
  by (cases "s' = s") (simp_all add: readable_def)

end
