(* ===== verification/Fallback_Config.thy ===== *)
theory Fallback_Config
  imports Prelude "HOL-Library.Sublist"
begin

text \<open>
  \<open>src/src/llm/fallback/fallback-config.ts\<close>: the fallback chain resolved from the configuration (the
  active provider first, one class of provider before the other) and the filters that drop links
  at run time. Provider kinds are strings; only \<open>llama-server\<close> is local. The \<open>onDrop\<close> callbacks
  are the list of dropped ids, returned beside the chain.
\<close>

record fallback_timing =
  failureThreshold :: nat
  cooldownMs :: "nat list"
  probeThrottleMs :: nat
  failureWindowMs :: nat

definition DEFAULT_FALLBACK_TIMING :: fallback_timing where
  "DEFAULT_FALLBACK_TIMING = \<lparr>failureThreshold = 3, cooldownMs = [30000, 60000, 300000],
     probeThrottleMs = 300000, failureWindowMs = 86400000\<rparr>"

record resolved_chain =
  rc_chain :: "string list"
  rc_timing :: fallback_timing

record provider_entry =
  pv_id :: string
  pv_kind :: string

record fallback_options =
  fb_chain :: "string list option"
  fb_appendLocal :: "bool option"
  fb_failureThreshold :: "nat option"
  fb_cooldownMs :: "nat list option"
  fb_probeThrottleMs :: "nat option"
  fb_failureWindowMs :: "nat option"

record llm_config =
  lc_providers :: "provider_entry list"
  lc_activeTextProvider :: string
  lc_fallback :: "fallback_options option"

definition LOCAL_KIND :: string where
  "LOCAL_KIND = ''llama-server''"

datatype provider_class = LocalClass | CloudClass

definition providerClass :: "string option \<Rightarrow> provider_class" where
  "providerClass kind = (if kind = Some LOCAL_KIND then LocalClass else CloudClass)"

definition with_default :: "'a option \<Rightarrow> 'a \<Rightarrow> 'a" where
  "with_default x d = (case x of None \<Rightarrow> d | Some v \<Rightarrow> v)"

definition resolveTiming :: "fallback_options option \<Rightarrow> fallback_timing" where
  "resolveTiming fallback =
     (case fallback of None \<Rightarrow> DEFAULT_FALLBACK_TIMING
      | Some f \<Rightarrow>
          \<lparr>failureThreshold = with_default (fb_failureThreshold f) (failureThreshold DEFAULT_FALLBACK_TIMING),
           cooldownMs = (case fb_cooldownMs f of
               Some ms \<Rightarrow> if ms \<noteq> [] then ms else cooldownMs DEFAULT_FALLBACK_TIMING
             | None \<Rightarrow> cooldownMs DEFAULT_FALLBACK_TIMING),
           probeThrottleMs = with_default (fb_probeThrottleMs f) (probeThrottleMs DEFAULT_FALLBACK_TIMING),
           failureWindowMs = with_default (fb_failureWindowMs f) (failureWindowMs DEFAULT_FALLBACK_TIMING)\<rparr>)"

fun dedupe_loop :: "string list \<Rightarrow> string list \<Rightarrow> string list" where
  "dedupe_loop [] out = out"
| "dedupe_loop (i # ids) out = (if i \<in> set out then dedupe_loop ids out else dedupe_loop ids (out @ [i]))"

definition dedupe :: "string list \<Rightarrow> string list" where
  "dedupe ids = dedupe_loop ids []"

text \<open>\<open>new Map(providers.map((p) => [p.id, p.kind]))\<close>: the last entry of an id wins.\<close>

definition kind_by_id :: "provider_entry list \<Rightarrow> string \<Rightarrow> string option" where
  "kind_by_id providers i = map_of (rev (map (\<lambda>p. (pv_id p, pv_kind p)) providers)) i"

definition class_of :: "provider_entry list \<Rightarrow> string \<Rightarrow> provider_class" where
  "class_of providers i = providerClass (kind_by_id providers i)"

definition groupByPrimaryClass :: "string list \<Rightarrow> provider_entry list \<Rightarrow> string list" where
  "groupByPrimaryClass ids providers =
     (if length ids < 3 then ids
      else (case ids of [] \<Rightarrow> []
            | hd_id # rest \<Rightarrow>
                let primary = class_of providers hd_id
                in [hd_id] @ filter (\<lambda>i. class_of providers i = primary) rest
                     @ filter (\<lambda>i. class_of providers i \<noteq> primary) rest))"

definition with_primary :: "string \<Rightarrow> string list \<Rightarrow> string list" where
  "with_primary active filtered =
     (case filtered of
        x # _ \<Rightarrow> if x = active then filtered else active # filter (\<lambda>i. i \<noteq> active) filtered
      | [] \<Rightarrow> [active])"

definition append_local :: "provider_entry list \<Rightarrow> string list \<Rightarrow> string list" where
  "append_local providers chain =
     (case find (\<lambda>p. pv_kind p = LOCAL_KIND) providers of
        None \<Rightarrow> chain
      | Some p \<Rightarrow> if pv_id p \<noteq> [] \<and> pv_id p \<notin> set chain then chain @ [pv_id p] else chain)"

definition requested_chain :: "llm_config \<Rightarrow> string list" where
  "requested_chain c =
     (case lc_fallback c of
        Some f \<Rightarrow> (case fb_chain f of Some ids \<Rightarrow> if ids \<noteq> [] then ids else [lc_activeTextProvider c]
                   | None \<Rightarrow> [lc_activeTextProvider c])
      | None \<Rightarrow> [lc_activeTextProvider c])"

definition resolveFallbackChain :: "llm_config \<Rightarrow> resolved_chain" where
  "resolveFallbackChain c =
     (let configuredIds = map pv_id (lc_providers c);
          filtered = filter (\<lambda>i. i \<in> set configuredIds) (requested_chain c);
          withPrimary = with_primary (lc_activeTextProvider c) filtered;
          appendLocal = (case lc_fallback c of Some f \<Rightarrow> with_default (fb_appendLocal f) True | None \<Rightarrow> True);
          chain = (if appendLocal then append_local (lc_providers c) withPrimary else withPrimary)
      in \<lparr>rc_chain = groupByPrimaryClass (dedupe (filter (\<lambda>i. i \<in> set configuredIds) chain)) (lc_providers c),
          rc_timing = resolveTiming (lc_fallback c)\<rparr>)"

definition keepLinks :: "resolved_chain \<Rightarrow> (string \<Rightarrow> bool) \<Rightarrow> resolved_chain \<times> string list" where
  "keepLinks resolved keep =
     (let tagged = zip (rc_chain resolved) [0..<length (rc_chain resolved)];
          chain = map fst (filter (\<lambda>(i, n). n = 0 \<or> keep i) tagged);
          dropped = map fst (filter (\<lambda>(i, n). \<not> (n = 0 \<or> keep i)) tagged)
      in (if length chain = length (rc_chain resolved) then resolved else resolved\<lparr>rc_chain := chain\<rparr>, dropped))"

definition withoutUnbuiltLinks :: "resolved_chain \<Rightarrow> (string \<Rightarrow> bool) \<Rightarrow> resolved_chain \<times> string list" where
  "withoutUnbuiltLinks resolved isBuilt = keepLinks resolved isBuilt"

definition withoutKeylessLinks :: "resolved_chain \<Rightarrow> (string \<Rightarrow> bool) \<Rightarrow> resolved_chain \<times> string list" where
  "withoutKeylessLinks resolved lacksKey = keepLinks resolved (\<lambda>i. \<not> lacksKey i)"

definition withoutUnavailableLinks :: "resolved_chain \<Rightarrow> (string \<Rightarrow> bool) \<Rightarrow> resolved_chain \<times> string list" where
  "withoutUnavailableLinks resolved unavailable = keepLinks resolved (\<lambda>i. \<not> unavailable i)"

section \<open>Lemmas\<close>

lemma dedupe_loop_props:
  "distinct out \<Longrightarrow> distinct (dedupe_loop ids out) \<and> set (dedupe_loop ids out) = set out \<union> set ids \<and>
     (\<exists>more. dedupe_loop ids out = out @ more \<and> subseq more ids)"
proof (induction ids out rule: dedupe_loop.induct)
  case (2 i ids out)
  show ?case
  proof (cases "i \<in> set out")
    case True
    with 2 show ?thesis by auto
  next
    case False
    then have IH: "distinct (dedupe_loop ids (out @ [i]))"
      "set (dedupe_loop ids (out @ [i])) = set (out @ [i]) \<union> set ids"
      "\<exists>more. dedupe_loop ids (out @ [i]) = (out @ [i]) @ more \<and> subseq more ids" using 2 by auto
    from IH(3) obtain more where "dedupe_loop ids (out @ [i]) = (out @ [i]) @ more" "subseq more ids" by blast
    with False IH(1,2) show ?thesis by auto
  qed
qed simp

lemma distinct_dedupe: "distinct (dedupe ids)" and set_dedupe [simp]: "set (dedupe ids) = set ids"
  and subseq_dedupe: "subseq (dedupe ids) ids"
  using dedupe_loop_props [of "[]" ids] by (auto simp: dedupe_def)

lemma dedupe_hd: "dedupe (x # xs) = x # tl (dedupe (x # xs))"
  using dedupe_loop_props [of "[x]" xs] by (auto simp: dedupe_def)

lemma group_split:
  assumes "length ids \<ge> 3"
  shows "\<exists>x xs. ids = x # xs \<and> groupByPrimaryClass ids ps =
    x # filter (\<lambda>i. class_of ps i = class_of ps x) xs @ filter (\<lambda>i. class_of ps i \<noteq> class_of ps x) xs"
  using assms by (cases ids) (simp_all add: groupByPrimaryClass_def Let_def)

lemma set_group [simp]: "set (groupByPrimaryClass ids ps) = set ids"
  by (cases ids) (auto simp: groupByPrimaryClass_def Let_def split: list.splits)

lemma distinct_group: "distinct ids \<Longrightarrow> distinct (groupByPrimaryClass ids ps)"
  by (cases ids) (auto simp: groupByPrimaryClass_def Let_def split: list.splits)

lemma group_hd: "ids \<noteq> [] \<Longrightarrow> groupByPrimaryClass ids ps \<noteq> [] \<and> hd (groupByPrimaryClass ids ps) = hd ids"
  by (auto simp: groupByPrimaryClass_def Let_def split: list.splits)

lemma hd_with_primary: "\<exists>r. with_primary a xs = a # r"
  by (auto simp: with_primary_def split: list.splits)

lemma set_with_primary: "set (with_primary a xs) = insert a (set xs)"
  by (auto simp: with_primary_def split: list.splits)

lemma hd_append_local: "xs = a # r \<Longrightarrow> \<exists>r'. append_local ps xs = a # r'"
  by (auto simp: append_local_def split: option.splits)

lemma timing_nonempty: "cooldownMs (resolveTiming f) \<noteq> []"
  by (auto simp: resolveTiming_def DEFAULT_FALLBACK_TIMING_def split: option.splits)

text \<open>The chain before it is grouped by class.\<close>

definition plain_chain :: "llm_config \<Rightarrow> string list" where
  "plain_chain c =
     (let configuredIds = map pv_id (lc_providers c);
          withPrimary = with_primary (lc_activeTextProvider c)
            (filter (\<lambda>i. i \<in> set configuredIds) (requested_chain c));
          appendLocal = (case lc_fallback c of Some f \<Rightarrow> with_default (fb_appendLocal f) True | None \<Rightarrow> True)
      in dedupe (filter (\<lambda>i. i \<in> set configuredIds)
           (if appendLocal then append_local (lc_providers c) withPrimary else withPrimary)))"

lemma resolve_plain:
  "rc_chain (resolveFallbackChain c) = groupByPrimaryClass (plain_chain c) (lc_providers c)"
  by (simp add: resolveFallbackChain_def plain_chain_def Let_def)

lemma plain_chain_props:
  assumes "lc_activeTextProvider c \<in> set (map pv_id (lc_providers c))"
  shows "\<exists>r. plain_chain c = lc_activeTextProvider c # r" and "distinct (plain_chain c)"
    and "set (plain_chain c) \<subseteq> set (map pv_id (lc_providers c))"
    and "set (requested_chain c) \<inter> set (map pv_id (lc_providers c)) \<subseteq> set (plain_chain c)"
proof -
  let ?ids = "map pv_id (lc_providers c)"
  let ?w = "with_primary (lc_activeTextProvider c) (filter (\<lambda>i. i \<in> set ?ids) (requested_chain c))"
  let ?al = "case lc_fallback c of Some f \<Rightarrow> with_default (fb_appendLocal f) True | None \<Rightarrow> True"
  let ?ch = "if ?al then append_local (lc_providers c) ?w else ?w"
  have plain: "plain_chain c = dedupe (filter (\<lambda>i. i \<in> set ?ids) ?ch)"
    by (simp only: plain_chain_def Let_def)
  obtain r where r: "?ch = lc_activeTextProvider c # r"
    using hd_with_primary [of "lc_activeTextProvider c" "filter (\<lambda>i. i \<in> set ?ids) (requested_chain c)"]
      hd_append_local by (metis (no_types))
  then have f: "filter (\<lambda>i. i \<in> set ?ids) ?ch = lc_activeTextProvider c # filter (\<lambda>i. i \<in> set ?ids) r"
    using assms by (simp only: filter.simps if_True)
  show "\<exists>r. plain_chain c = lc_activeTextProvider c # r"
    unfolding plain f using dedupe_hd by blast
  show "distinct (plain_chain c)" unfolding plain by (rule distinct_dedupe)
  show "set (plain_chain c) \<subseteq> set ?ids" unfolding plain by auto
  have "set ?w \<subseteq> set ?ch" by (auto simp: append_local_def split: option.splits)
  moreover have "set (requested_chain c) \<inter> set ?ids \<subseteq> set ?w" by (auto simp: set_with_primary)
  ultimately show "set (requested_chain c) \<inter> set ?ids \<subseteq> set (plain_chain c)"
    unfolding plain by (simp only: set_dedupe set_filter) blast
qed

lemma group_tail_filter:
  "filter (\<lambda>i. class_of ps i = k) (tl (groupByPrimaryClass ids ps)) = filter (\<lambda>i. class_of ps i = k) (tl ids)"
proof (cases "length ids < 3")
  case True
  then show ?thesis by (simp add: groupByPrimaryClass_def)
next
  case False
  then obtain x xs where "ids = x # xs" by (cases ids) auto
  moreover have "filter (\<lambda>i. class_of ps i = k) (filter (\<lambda>i. class_of ps i = class_of ps x) xs @
      filter (\<lambda>i. class_of ps i \<noteq> class_of ps x) xs) = filter (\<lambda>i. class_of ps i = k) xs"
    by (cases "k = class_of ps x") (auto intro!: filter_cong)
  ultimately show ?thesis using False by (simp add: groupByPrimaryClass_def Let_def)
qed

lemma group_near_far:
  "ids = x # xs \<Longrightarrow> \<exists>near far. groupByPrimaryClass ids ps = x # near @ far \<and>
     (\<forall>i \<in> set near. class_of ps i = class_of ps x) \<and> (\<forall>i \<in> set far. class_of ps i \<noteq> class_of ps x)"
proof (cases "length ids < 3")
  case True
  assume ids: "ids = x # xs"
  with True consider "xs = []" | y where "xs = [y]" by (cases xs) auto
  then show ?thesis
  proof cases
    case 1
    then show ?thesis using ids by (simp add: groupByPrimaryClass_def)
  next
    case 2
    then have g: "groupByPrimaryClass ids ps = x # [y] @ []" "groupByPrimaryClass ids ps = x # [] @ [y]"
      using ids by (simp_all add: groupByPrimaryClass_def)
    then show ?thesis by (cases "class_of ps y = class_of ps x") (metis empty_iff empty_set set_ConsD)+
  qed
next
  case False
  assume ids: "ids = x # xs"
  with False show ?thesis
    by (intro exI [of _ "filter (\<lambda>i. class_of ps i = class_of ps x) xs"]
        exI [of _ "filter (\<lambda>i. class_of ps i \<noteq> class_of ps x) xs"])
       (simp add: groupByPrimaryClass_def Let_def)
qed

lemma zip_upt_tail:
  "filter (\<lambda>(i, n). n = 0 \<or> keep i) (zip xs [Suc k..<Suc k + length xs]) = filter (\<lambda>(i, n). keep i) (zip xs [Suc k..<Suc k + length xs])"
  by (rule filter_cong) (auto simp: set_zip simp del: upt_Suc)

lemma map_fst_filter_zip: "length ns = length xs \<Longrightarrow> map fst (filter (\<lambda>(i, n). keep i) (zip xs ns)) = filter keep xs"
proof (induction xs arbitrary: ns)
  case (Cons x xs)
  then show ?case by (cases ns) auto
qed simp

lemma keepLinks_chain:
  assumes "rc_chain r = x # xs"
  shows "rc_chain (fst (keepLinks r keep)) = x # filter keep xs"
    and "rc_timing (fst (keepLinks r keep)) = rc_timing r"
proof -
  let ?tag = "zip (rc_chain r) [0..<length (rc_chain r)]"
  have t: "?tag = (x, 0) # zip xs [Suc 0..<Suc 0 + length xs]"
    using assms by (simp add: upt_conv_Cons del: upt_Suc)
  have "map fst (filter (\<lambda>(i, n). n = 0 \<or> keep i) ?tag) =
      x # map fst (filter (\<lambda>(i, n). n = 0 \<or> keep i) (zip xs [Suc 0..<Suc 0 + length xs]))"
    unfolding t by simp
  also have "\<dots> = x # filter keep xs"
    unfolding zip_upt_tail by (simp add: map_fst_filter_zip del: upt_Suc)
  finally have c: "map fst (filter (\<lambda>(i, n). n = 0 \<or> keep i) ?tag) = x # filter keep xs" .
  have full: "filter keep xs = xs" if "length (filter keep xs) = length xs"
    using that by (metis filter_True filter_id_conv length_filter_less less_irrefl)
  show "rc_chain (fst (keepLinks r keep)) = x # filter keep xs"
    unfolding keepLinks_def Let_def c using assms full by auto
  show "rc_timing (fst (keepLinks r keep)) = rc_timing r"
    by (simp add: keepLinks_def Let_def)
qed

end
