(* ===== verification/Fallback_Chain.thy ===== *)
theory Fallback_Chain
  imports Fallback_Config
begin

text \<open>
  The circuit breaker of the provider fallback chain: the readings of an error
  (\<open>should-advance.ts\<close>, \<open>link-failure-kind.ts\<close>, \<open>reliability/classify-failure.ts\<close>), the state of one
  partition (\<open>partition-state.ts\<close>) and the methods of \<open>ProviderFallbackChain\<close>
  (\<open>provider-fallback-chain.ts\<close>). An error is a value of any type \<open>'e\<close>; what the code reads off
  its class, fields and text is the record \<open>readers\<close>, an argument. The live \<open>resolve()\<close> and the
  clock are arguments of every method: the chain and the time at that call. A notice or log line
  is appended to the state.
\<close>

section \<open>Reading an error\<close>

datatype failure_category = TransportFailure | GrammarFailure | ModelFailure | ToolFailure | CancelledFailure

text \<open>The classes the code tests with \<open>instanceof\<close>; \<open>ErrTransport\<close> is the failure class that carries
  a status, \<open>ErrLlmFailure\<close> every other one.\<close>

datatype error_class =
    ErrTransport | ErrLlmFailure failure_category | ErrToolCallParse | ErrLlamaServer | ErrOpenAiHttp
  | ErrCliNotInstalled | ErrCliAuth | ErrOther

record 'e readers =
  rd_class :: "'e \<Rightarrow> error_class"
  rd_status :: "'e \<Rightarrow> int option"
  rd_timedOut :: "'e \<Rightarrow> bool"
  rd_keyProblem :: "'e \<Rightarrow> bool"
  rd_abortError :: "'e \<Rightarrow> bool"
  rd_networkError :: "'e \<Rightarrow> bool"
  rd_requestSize :: "'e \<Rightarrow> bool"
  rd_creditExhausted :: "'e \<Rightarrow> bool"
  rd_credentialWording :: "'e \<Rightarrow> bool"
  rd_moderation :: "'e \<Rightarrow> bool"
  rd_cliSetup :: "'e \<Rightarrow> bool"
  rd_retryAfter :: "'e \<Rightarrow> bool"
  rd_reason :: "'e \<Rightarrow> string"

definition LLAMA_ENDPOINT_UNAVAILABLE_STATUSES :: "int list" where
  "LLAMA_ENDPOINT_UNAVAILABLE_STATUSES = [401, 402, 403, 404, 405, 408, 409, 429]"

definition classifyFailure :: "'e readers \<Rightarrow> 'e \<Rightarrow> failure_category" where
  "classifyFailure rd err =
     (case rd_class rd err of
        ErrTransport \<Rightarrow> TransportFailure
      | ErrLlmFailure c \<Rightarrow> c
      | ErrToolCallParse \<Rightarrow> GrammarFailure
      | ErrLlamaServer \<Rightarrow>
          (case rd_status rd err of None \<Rightarrow> TransportFailure
           | Some s \<Rightarrow> if s \<ge> 500 then TransportFailure
                       else if s \<in> set LLAMA_ENDPOINT_UNAVAILABLE_STATUSES then TransportFailure
                       else GrammarFailure)
      | ErrOpenAiHttp \<Rightarrow> TransportFailure
      | ErrCliNotInstalled \<Rightarrow> TransportFailure
      | ErrCliAuth \<Rightarrow> TransportFailure
      | ErrOther \<Rightarrow> if rd_abortError rd err then CancelledFailure
                    else if rd_networkError rd err then TransportFailure else ToolFailure)"

text \<open>\<open>statusOf\<close>: \<open>None\<close> is undefined (no typed status), \<open>Some None\<close> is null (no response).\<close>

definition statusOf :: "'e readers \<Rightarrow> 'e \<Rightarrow> int option option" where
  "statusOf rd err =
     (if rd_class rd err \<in> {ErrOpenAiHttp, ErrLlamaServer, ErrTransport} then Some (rd_status rd err) else None)"

definition timedOutOf :: "'e readers \<Rightarrow> 'e \<Rightarrow> bool" where
  "timedOutOf rd err = (rd_class rd err \<in> {ErrOpenAiHttp, ErrLlamaServer} \<and> rd_timedOut rd err)"

definition isImmediateSignal :: "'e readers \<Rightarrow> 'e \<Rightarrow> bool" where
  "isImmediateSignal rd err =
     (case statusOf rd err of None \<Rightarrow> False
      | Some None \<Rightarrow> \<not> timedOutOf rd err
      | Some (Some s) \<Rightarrow> s = 429 \<or> s = 408 \<or> s \<ge> 500)"

record advance_decision =
  av_advance :: bool
  av_immediate :: bool

definition shouldAdvance :: "'e readers \<Rightarrow> 'e \<Rightarrow> advance_decision" where
  "shouldAdvance rd err =
     (if rd_requestSize rd err then \<lparr>av_advance = False, av_immediate = False\<rparr>
      else if classifyFailure rd err \<noteq> TransportFailure \<and> classifyFailure rd err \<noteq> ModelFailure
      then \<lparr>av_advance = False, av_immediate = False\<rparr>
      else \<lparr>av_advance = True, av_immediate = isImmediateSignal rd err\<rparr>)"

definition isBillingRefusal :: "'e readers \<Rightarrow> 'e \<Rightarrow> bool" where
  "isBillingRefusal rd err =
     (rd_class rd err = ErrOpenAiHttp \<and> \<not> rd_timedOut rd err \<and> rd_creditExhausted rd err)"

definition isCredentialRejection :: "'e readers \<Rightarrow> 'e \<Rightarrow> bool" where
  "isCredentialRejection rd err =
     (if rd_class rd err \<noteq> ErrOpenAiHttp \<or> rd_timedOut rd err then False
      else if rd_status rd err = Some 401 then True
      else if rd_status rd err \<noteq> Some 403 then False
      else if rd_keyProblem rd err then True
      else if rd_creditExhausted rd err then False
      else rd_credentialWording rd err)"

datatype fallover_cause = CauseBilling | CauseAuth | CauseOther

definition falloverCause :: "'e readers \<Rightarrow> 'e \<Rightarrow> fallover_cause option" where
  "falloverCause rd err =
     (if rd_class rd err \<noteq> ErrOpenAiHttp then None
      else if isBillingRefusal rd err then Some CauseBilling
      else if rd_timedOut rd err then Some CauseOther
      else (case rd_status rd err of None \<Rightarrow> Some CauseOther
            | Some s \<Rightarrow>
                if s = 401 \<or> s = 403 then Some (if rd_moderation rd err then CauseOther else CauseAuth)
                else if s \<ge> 500 \<or> s = 408 \<or> s = 429 \<or> s = 404 then Some CauseOther
                else None))"

definition isCliSetupRefusal :: "'e readers \<Rightarrow> 'e \<Rightarrow> bool" where
  "isCliSetupRefusal rd err = rd_cliSetup rd err"

definition isOutageFailure :: "'e readers \<Rightarrow> 'e \<Rightarrow> bool" where
  "isOutageFailure rd err =
     (if isBillingRefusal rd err then False
      else if isCliSetupRefusal rd err then False
      else (case statusOf rd err of
              Some None \<Rightarrow> True
            | Some (Some s) \<Rightarrow> s \<ge> 500 \<or> s = 408 \<or> s = 429 \<or> rd_retryAfter rd err
            | None \<Rightarrow> rd_networkError rd err))"

section \<open>Partitions\<close>

record breaker_entry =
  bk_consecutiveFailures :: nat
  bk_cooldownUntil :: nat
  bk_cooldownStep :: nat
  bk_lastFailureAt :: nat
  bk_lastProbeAt :: nat

definition freshBreaker :: breaker_entry where
  "freshBreaker = \<lparr>bk_consecutiveFailures = 0, bk_cooldownUntil = 0, bk_cooldownStep = 0,
     bk_lastFailureAt = 0, bk_lastProbeAt = 0\<rparr>"

record 'e failed_attempt =
  fa_providerId :: string
  fa_error :: 'e

record 'e partition_state =
  pt_breakers :: "(string, breaker_entry) jsmap"
  pt_overrideId :: "string option"
  pt_announced :: bool
  pt_cause :: "'e failed_attempt option"
  pt_overrideServed :: bool
  pt_fallbackServed :: bool
  pt_servingId :: "string option"

definition freshPartition :: "'e partition_state" where
  "freshPartition = \<lparr>pt_breakers = [], pt_overrideId = None, pt_announced = False, pt_cause = None,
     pt_overrideServed = False, pt_fallbackServed = False, pt_servingId = None\<rparr>"

definition isStandIn :: "'e readers \<Rightarrow> 'e partition_state \<Rightarrow> bool" where
  "isStandIn rd p =
     (pt_overrideId p \<noteq> None \<and> \<not> pt_overrideServed p \<and>
      (case pt_cause p of None \<Rightarrow> False | Some c \<Rightarrow> \<not> isOutageFailure rd (fa_error c)))"

text \<open>\<open>timing.cooldownMs[step]\<close>; the ladder is never empty (\<open>timing_nonempty\<close>).\<close>

definition registerBreakerFailure ::
  "nat \<Rightarrow> bool \<Rightarrow> fallback_timing \<Rightarrow> breaker_entry \<Rightarrow> breaker_entry" where
  "registerBreakerFailure now immediate timing b =
     (let b1 = (if bk_lastFailureAt b > 0 \<and> int now - int (bk_lastFailureAt b) \<ge> int (failureWindowMs timing)
                then b\<lparr>bk_consecutiveFailures := 0, bk_cooldownStep := 0\<rparr> else b);
          b2 = b1\<lparr>bk_consecutiveFailures := bk_consecutiveFailures b1 + 1, bk_lastFailureAt := now\<rparr>
      in if immediate \<or> bk_consecutiveFailures b2 \<ge> failureThreshold timing then
           let last = length (cooldownMs timing) - 1; step = min (bk_cooldownStep b2) last
           in b2\<lparr>bk_cooldownUntil := now + cooldownMs timing ! step,
                 bk_cooldownStep := min (bk_cooldownStep b2 + 1) last\<rparr>
         else b2)"

definition clearOverride :: "'e partition_state \<Rightarrow> 'e partition_state" where
  "clearOverride p = p\<lparr>pt_overrideId := None, pt_announced := False, pt_cause := None,
     pt_overrideServed := False, pt_fallbackServed := False, pt_servingId := None\<rparr>"

section \<open>The chain\<close>

datatype switch_direction = Away | Back

record switch_notice =
  sn_direction :: switch_direction
  sn_from :: string
  sn_to :: string
  sn_reason :: string
  sn_cause :: "fallover_cause option"

record 'e chain_state =
  cs_partitions :: "(string, 'e partition_state) jsmap"
  cs_notices :: "switch_notice list"
  cs_log :: "(string \<times> string \<times> string) list"

definition newChainState :: "'e chain_state" where
  "newChainState = \<lparr>cs_partitions = [], cs_notices = [], cs_log = []\<rparr>"

definition DEFAULT_PARTITION :: string where
  "DEFAULT_PARTITION = []"

definition partition_of :: "string \<Rightarrow> 'e chain_state \<Rightarrow> 'e partition_state" where
  "partition_of key st = (case jm_get (cs_partitions st) key of None \<Rightarrow> freshPartition | Some p \<Rightarrow> p)"

definition put_partition :: "string \<Rightarrow> 'e partition_state \<Rightarrow> 'e chain_state \<Rightarrow> 'e chain_state" where
  "put_partition key p st = st\<lparr>cs_partitions := jm_set key p (cs_partitions st)\<rparr>"

definition breaker_of :: "string \<Rightarrow> 'e partition_state \<Rightarrow> breaker_entry" where
  "breaker_of i p = (case jm_get (pt_breakers p) i of None \<Rightarrow> freshBreaker | Some b \<Rightarrow> b)"

definition put_breaker :: "string \<Rightarrow> breaker_entry \<Rightarrow> 'e partition_state \<Rightarrow> 'e partition_state" where
  "put_breaker i b p = p\<lparr>pt_breakers := jm_set i b (pt_breakers p)\<rparr>"

definition emit_notice :: "switch_notice \<Rightarrow> 'e chain_state \<Rightarrow> 'e chain_state" where
  "emit_notice n st = st\<lparr>cs_notices := cs_notices st @ [n]\<rparr>"

record provider_pick =
  pp_providerId :: string
  pp_isProbe :: bool

text \<open>An id is truthy when it is not the empty string.\<close>

definition chain_primary :: "resolved_chain \<Rightarrow> string option" where
  "chain_primary rc = (case rc_chain rc of [] \<Rightarrow> None | x # _ \<Rightarrow> if x = [] then None else Some x)"

definition truthy_id :: "string option \<Rightarrow> bool" where
  "truthy_id i = (case i of None \<Rightarrow> False | Some x \<Rightarrow> x \<noteq> [])"

definition pickProvider ::
  "'e readers \<Rightarrow> resolved_chain \<Rightarrow> nat \<Rightarrow> string \<Rightarrow> 'e chain_state \<Rightarrow> 'e chain_state \<times> provider_pick" where
  "pickProvider rd rc now key st =
     (case chain_primary rc of
        None \<Rightarrow> (st, \<lparr>pp_providerId = [], pp_isProbe = False\<rparr>)
      | Some primary \<Rightarrow>
          let p0 = partition_of key st;
              p = (if truthy_id (pt_overrideId p0) \<and> the (pt_overrideId p0) \<notin> set (rc_chain rc)
                   then clearOverride p0 else p0)
          in if \<not> truthy_id (pt_overrideId p) then
               (put_partition key p st, \<lparr>pp_providerId = primary, pp_isProbe = False\<rparr>)
             else
               let b = breaker_of primary p;
                   probed = put_partition key (put_breaker primary (b\<lparr>bk_lastProbeAt := now\<rparr>) p) st
               in if isStandIn rd p then (probed, \<lparr>pp_providerId = primary, pp_isProbe = True\<rparr>)
                  else if now \<ge> bk_cooldownUntil b \<and>
                          int now - int (bk_lastProbeAt b) \<ge> int (probeThrottleMs (rc_timing rc))
                  then (probed, \<lparr>pp_providerId = primary, pp_isProbe = True\<rparr>)
                  else (put_partition key (put_breaker primary b p) st,
                        \<lparr>pp_providerId = the (pt_overrideId p), pp_isProbe = False\<rparr>))"

definition switchAwayTo ::
  "'e readers \<Rightarrow> string \<Rightarrow> string \<Rightarrow> string \<Rightarrow> string \<Rightarrow> 'e \<Rightarrow> 'e chain_state \<Rightarrow> 'e chain_state" where
  "switchAwayTo rd key primary fromId toId err st =
     (let p = partition_of key st;
          p1 = (if fromId = primary \<and> \<not> truthy_id (pt_overrideId p) then
                  p\<lparr>pt_overrideId := Some toId, pt_announced := False, pt_overrideServed := False,
                    pt_fallbackServed := False, pt_servingId := None\<rparr>
                else if truthy_id (pt_overrideId p) then
                  p\<lparr>pt_overrideId := Some toId, pt_overrideServed := False\<rparr>
                else p);
          p2 = (if fromId = primary \<and> truthy_id (pt_overrideId p1)
                then p1\<lparr>pt_cause := Some \<lparr>fa_providerId = fromId, fa_error = err\<rparr>\<rparr> else p1)
      in if \<not> pt_announced p2 then
           emit_notice \<lparr>sn_direction = Away, sn_from = fromId, sn_to = toId, sn_reason = rd_reason rd err,
                        sn_cause = falloverCause rd err\<rparr>
             (put_partition key (p2\<lparr>pt_announced := True\<rparr>) st)
         else put_partition key p2 st)"

text \<open>\<open>chain.indexOf(fromId)\<close> and the first later link that is not \<open>fromId\<close>.\<close>

fun index_of :: "string \<Rightarrow> string list \<Rightarrow> nat option" where
  "index_of x [] = None"
| "index_of x (y # ys) = (if x = y then Some 0 else map_option Suc (index_of x ys))"

definition next_link :: "string list \<Rightarrow> string \<Rightarrow> string option" where
  "next_link chain fromId =
     find (\<lambda>c. c \<noteq> fromId)
       (drop (case index_of fromId chain of None \<Rightarrow> 0 | Some i \<Rightarrow> i + 1) chain)"

definition advanceFrom ::
  "'e readers \<Rightarrow> resolved_chain \<Rightarrow> nat \<Rightarrow> string \<Rightarrow> string \<Rightarrow> 'e \<Rightarrow> 'e chain_state \<Rightarrow>
     'e chain_state \<times> string option" where
  "advanceFrom rd rc now key fromId err st =
     (let decision = shouldAdvance rd err
      in if \<not> av_advance decision then (st, None)
         else
           let p = partition_of key st;
               p1 = put_breaker fromId
                      (registerBreakerFailure now (av_immediate decision) (rc_timing rc) (breaker_of fromId p)) p;
               st1 = put_partition key p1 st
           in (case next_link (rc_chain rc) fromId of
                 None \<Rightarrow> (st1, None)
               | Some candidate \<Rightarrow>
                   (switchAwayTo rd key (hd (rc_chain rc)) fromId candidate err
                      (st1\<lparr>cs_log := cs_log st1 @ [(fromId, candidate, key)]\<rparr>), Some candidate)))"

definition recordSuccess ::
  "resolved_chain \<Rightarrow> string \<Rightarrow> string \<Rightarrow> bool \<Rightarrow> 'e chain_state \<Rightarrow> 'e chain_state" where
  "recordSuccess rc key i wasProbe st =
     (let p = partition_of key st;
          p1 = put_breaker i ((breaker_of i p)\<lparr>bk_consecutiveFailures := 0, bk_cooldownUntil := 0,
                 bk_cooldownStep := 0, bk_lastFailureAt := 0\<rparr>) p;
          p2 = (if pt_overrideId p1 = Some i
                then p1\<lparr>pt_overrideServed := True, pt_fallbackServed := True, pt_servingId := Some i\<rparr> else p1)
      in if wasProbe \<and> rc_chain rc \<noteq> [] \<and> i = hd (rc_chain rc) \<and> truthy_id (pt_overrideId p2) then
           emit_notice \<lparr>sn_direction = Back, sn_from = the (pt_overrideId p2), sn_to = i,
                        sn_reason = ''primary recovered'', sn_cause = None\<rparr>
             (put_partition key (clearOverride p2) st)
         else put_partition key p2 st)"

definition activeOverrideFor :: "string \<Rightarrow> 'e chain_state \<Rightarrow> string option" where
  "activeOverrideFor key st = (case jm_get (cs_partitions st) key of None \<Rightarrow> None | Some p \<Rightarrow> pt_overrideId p)"

definition overrideCause :: "string \<Rightarrow> 'e chain_state \<Rightarrow> 'e failed_attempt option" where
  "overrideCause key st = (case jm_get (cs_partitions st) key of None \<Rightarrow> None | Some p \<Rightarrow> pt_cause p)"

definition isPrimary :: "resolved_chain \<Rightarrow> string \<Rightarrow> bool" where
  "isPrimary rc i = (rc_chain rc \<noteq> [] \<and> hd (rc_chain rc) = i)"

definition hasFallbackServed :: "string \<Rightarrow> 'e chain_state \<Rightarrow> bool" where
  "hasFallbackServed key st = (case jm_get (cs_partitions st) key of None \<Rightarrow> False | Some p \<Rightarrow> pt_fallbackServed p)"

definition isServingFallback :: "string \<Rightarrow> string \<Rightarrow> 'e chain_state \<Rightarrow> bool" where
  "isServingFallback key i st =
     (case jm_get (cs_partitions st) key of None \<Rightarrow> False | Some p \<Rightarrow> pt_servingId p = Some i)"

definition standingOverrideFor :: "'e readers \<Rightarrow> string \<Rightarrow> 'e chain_state \<Rightarrow> string option" where
  "standingOverrideFor rd key st =
     (case jm_get (cs_partitions st) key of None \<Rightarrow> None
      | Some p \<Rightarrow> if \<not> truthy_id (pt_overrideId p) then None
                  else if isStandIn rd p then None else pt_overrideId p)"

section \<open>Running a call through the chain\<close>

text \<open>
  \<open>run-with-fallback.ts\<close>. The world of one call: the clock, the outcome of the \<open>n\<close>-th attempt and
  whether the caller's signal is aborted when its failure is caught. A thrown error comes with
  the two records the code keeps beside it (\<open>failed-attempts.ts\<close>): the links that failed before,
  and the link that threw.
\<close>

record ('e, 'a) call_world =
  cw_now :: "nat \<Rightarrow> nat"
  cw_attempt :: "nat \<Rightarrow> string \<Rightarrow> 'e + 'a"
  cw_aborted :: "nat \<Rightarrow> bool"

datatype ('e, 'a) call_result =
    Returned 'a
  | Thrown 'e "'e failed_attempt list" "string option"
  | OutOfFuel

record 'e refusal =
  rf_providerId :: string
  rf_error :: 'e
  rf_before :: "'e failed_attempt list"

definition is_refusal :: "'e readers \<Rightarrow> 'e \<Rightarrow> bool" where
  "is_refusal rd err = (isCredentialRejection rd err \<or> isBillingRefusal rd err \<or> isCliSetupRefusal rd err)"

fun fallback_loop ::
  "nat \<Rightarrow> 'e readers \<Rightarrow> resolved_chain \<Rightarrow> ('e, 'a) call_world \<Rightarrow> string \<Rightarrow> nat \<Rightarrow> string \<Rightarrow> bool \<Rightarrow>
   'e failed_attempt list \<Rightarrow> 'e refusal option \<Rightarrow> 'e refusal option \<Rightarrow> 'e chain_state \<Rightarrow>
   'e chain_state \<times> ('e, 'a) call_result" where
  "fallback_loop 0 rd rc w key n currentId wasProbe failed primaryRefusal routeRefusal st = (st, OutOfFuel)"
| "fallback_loop (Suc fuel) rd rc w key n currentId wasProbe failed primaryRefusal routeRefusal st =
     (case cw_attempt w n currentId of
        Inr v \<Rightarrow> (recordSuccess rc key currentId wasProbe st, Returned v)
      | Inl err \<Rightarrow>
          if cw_aborted w n then (st, Thrown err [] (Some currentId))
          else
            let serving = isServingFallback key currentId st;
                (st1, nextId) = advanceFrom rd rc (cw_now w (Suc n)) key currentId err st
            in (case nextId of
                  None \<Rightarrow>
                    (st1,
                     (case primaryRefusal of
                        Some pr \<Rightarrow>
                          if av_advance (shouldAdvance rd err) \<and> \<not> hasFallbackServed key st1
                          then Thrown (rf_error pr) [] (Some (rf_providerId pr))
                          else (case routeRefusal of
                                  Some rr \<Rightarrow> if av_advance (shouldAdvance rd err)
                                    then Thrown (rf_error rr) (rf_before rr) (Some (rf_providerId rr))
                                    else Thrown err failed (Some currentId)
                                | None \<Rightarrow> Thrown err failed (Some currentId))
                      | None \<Rightarrow>
                          (case routeRefusal of
                             Some rr \<Rightarrow> if av_advance (shouldAdvance rd err)
                               then Thrown (rf_error rr) (rf_before rr) (Some (rf_providerId rr))
                               else Thrown err failed (Some currentId)
                           | None \<Rightarrow> Thrown err failed (Some currentId))))
                | Some next \<Rightarrow>
                    let refused = isPrimary rc currentId \<and> is_refusal rd err;
                        primaryRefusal' = (if refused
                          then Some \<lparr>rf_providerId = currentId, rf_error = err, rf_before = []\<rparr>
                          else primaryRefusal);
                        routeRefusal' = (if \<not> refused \<and> routeRefusal = None \<and> serving \<and> isBillingRefusal rd err
                          then Some \<lparr>rf_providerId = currentId, rf_error = err, rf_before = failed\<rparr>
                          else routeRefusal)
                    in fallback_loop fuel rd rc w key (Suc n) next False
                         (failed @ [\<lparr>fa_providerId = currentId, fa_error = err\<rparr>])
                         primaryRefusal' routeRefusal' st1))"

definition runWithFallback ::
  "nat \<Rightarrow> 'e readers \<Rightarrow> resolved_chain \<Rightarrow> ('e, 'a) call_world \<Rightarrow> string \<Rightarrow> 'e chain_state \<Rightarrow>
     'e chain_state \<times> ('e, 'a) call_result" where
  "runWithFallback fuel rd rc w key st =
     (let (st1, pick) = pickProvider rd rc (cw_now w 0) key st
      in if pp_providerId pick = [] then
           (case cw_attempt w 0 [] of Inr v \<Rightarrow> (st1, Returned v) | Inl err \<Rightarrow> (st1, Thrown err [] None))
         else
           let failed = (if pp_isProbe pick then []
                         else (case overrideCause key st1 of None \<Rightarrow> [] | Some c \<Rightarrow> [c]))
           in fallback_loop fuel rd rc w key 0 (pp_providerId pick) (pp_isProbe pick) failed None None st1)"

end
