(* ===== verification/Fallback_Runs.thy ===== *)
theory Fallback_Runs
  imports Fallback_Chain
begin

text \<open>
  Lemmas on runs through the fallback chain: the breaker's cooldown ladder over a sequence of
  failures, the partitions as an isolated book of sessions, the walk along the chain (who is asked
  next, why it ends, what it leaves in its partition) and the run of a call that meets an outage.
\<close>

section \<open>The breaker's ladder\<close>

definition failures_at :: "bool \<Rightarrow> fallback_timing \<Rightarrow> nat list \<Rightarrow> breaker_entry" where
  "failures_at immediate timing ts = fold (\<lambda>t. registerBreakerFailure t immediate timing) ts freshBreaker"

text \<open>Failures so close together that the counter is never reset.\<close>

fun within_window :: "nat \<Rightarrow> nat list \<Rightarrow> bool" where
  "within_window w (a # b # ts) = (b < a + w \<and> within_window w (b # ts))"
| "within_window w ts = True"

lemma within_window_snoc: "within_window w (ts @ [a, b]) \<longleftrightarrow> within_window w (ts @ [a]) \<and> b < a + w"
proof (induction ts)
  case (Cons c ts)
  then show ?case by (cases ts) auto
qed simp

lemma failures_at_snoc:
  "failures_at im tm (ts @ [t]) = registerBreakerFailure t im tm (failures_at im tm ts)"
  by (simp add: failures_at_def)

definition trip_at :: "bool \<Rightarrow> fallback_timing \<Rightarrow> nat" where
  "trip_at immediate timing = (if immediate then 1 else max 1 (failureThreshold timing))"

lemma register_counted:
  assumes "bk_lastFailureAt b = 0 \<or> t < bk_lastFailureAt b + failureWindowMs tm"
  shows "registerBreakerFailure t im tm b =
    (if im \<or> failureThreshold tm \<le> Suc (bk_consecutiveFailures b) then
       b\<lparr>bk_consecutiveFailures := Suc (bk_consecutiveFailures b), bk_lastFailureAt := t,
         bk_cooldownUntil := t + cooldownMs tm ! min (bk_cooldownStep b) (length (cooldownMs tm) - 1),
         bk_cooldownStep := min (Suc (bk_cooldownStep b)) (length (cooldownMs tm) - 1)\<rparr>
     else b\<lparr>bk_consecutiveFailures := Suc (bk_consecutiveFailures b), bk_lastFailureAt := t\<rparr>)"
proof -
  have "\<not> (bk_lastFailureAt b > 0 \<and> int t - int (bk_lastFailureAt b) \<ge> int (failureWindowMs tm))"
    using assms by auto
  then have "(if bk_lastFailureAt b > 0 \<and> int t - int (bk_lastFailureAt b) \<ge> int (failureWindowMs tm)
      then b\<lparr>bk_consecutiveFailures := 0, bk_cooldownStep := 0\<rparr> else b) = b" by (rule if_not_P)
  then show ?thesis unfolding registerBreakerFailure_def Let_def by simp
qed

lemma failures_at_spec:
  assumes "within_window (failureWindowMs tm) ts"
  shows "bk_consecutiveFailures (failures_at im tm ts) = length ts \<and>
    bk_lastFailureAt (failures_at im tm ts) = (if ts = [] then 0 else last ts) \<and>
    bk_cooldownStep (failures_at im tm ts) =
      min (Suc (length ts) - trip_at im tm) (length (cooldownMs tm) - 1) \<and>
    bk_cooldownUntil (failures_at im tm ts) =
      (if length ts < trip_at im tm then 0
       else last ts + cooldownMs tm ! min (length ts - trip_at im tm) (length (cooldownMs tm) - 1))"
  using assms
proof (induction ts rule: rev_induct)
  case Nil
  show ?case by (simp add: failures_at_def freshBreaker_def trip_at_def)
next
  case (snoc t ts)
  let ?b = "failures_at im tm ts"
  have w: "within_window (failureWindowMs tm) ts"
    using snoc.prems by (cases ts rule: rev_cases) (auto simp: within_window_snoc)
  note IH = snoc.IH [OF w]
  have "bk_lastFailureAt ?b = 0 \<or> t < bk_lastFailureAt ?b + failureWindowMs tm"
    using snoc.prems IH by (cases ts rule: rev_cases) (auto simp: within_window_snoc)
  note step = register_counted [OF this, of im, folded failures_at_snoc]
  have trip: "(im \<or> failureThreshold tm \<le> Suc (length ts)) \<longleftrightarrow> trip_at im tm \<le> Suc (length ts)"
    by (auto simp: trip_at_def)
  show ?case
  proof (cases "trip_at im tm \<le> Suc (length ts)")
    case True
    then have "Suc (Suc (length ts)) - trip_at im tm = Suc (Suc (length ts) - trip_at im tm)" by simp
    then show ?thesis using True IH trip unfolding step by (simp add: min.assoc [symmetric]) (simp add: min_def)
  next
    case False
    then show ?thesis using IH trip unfolding step by simp
  qed
qed

section \<open>Partitions are isolated\<close>

datatype 'e chain_op =
    OpPick resolved_chain nat string
  | OpAdvance resolved_chain nat string string 'e
  | OpSuccess resolved_chain string string bool

fun op_key :: "'e chain_op \<Rightarrow> string" where
  "op_key (OpPick rc now key) = key"
| "op_key (OpAdvance rc now key from err) = key"
| "op_key (OpSuccess rc key i probe) = key"

fun chain_step :: "'e readers \<Rightarrow> 'e chain_op \<Rightarrow> 'e chain_state \<Rightarrow> 'e chain_state" where
  "chain_step rd (OpPick rc now key) st = fst (pickProvider rd rc now key st)"
| "chain_step rd (OpAdvance rc now key from err) st = fst (advanceFrom rd rc now key from err st)"
| "chain_step rd (OpSuccess rc key i probe) st = recordSuccess rc key i probe st"

definition partition_view :: "'e chain_state \<Rightarrow> string \<Rightarrow> 'e partition_state option" where
  "partition_view st key = jm_get (cs_partitions st) key"

lemma view_put [simp]:
  "partition_view (put_partition k p st) key = (if key = k then Some p else partition_view st key)"
  by (simp add: partition_view_def put_partition_def)

lemma view_other_fields [simp]:
  "partition_view (emit_notice n st) key = partition_view st key"
  "partition_view (st\<lparr>cs_log := l\<rparr>) key = partition_view st key"
  by (simp_all add: partition_view_def emit_notice_def)

lemma pick_other: "key \<noteq> k \<Longrightarrow> partition_view (fst (pickProvider rd rc now k st)) key = partition_view st key"
  by (simp add: pickProvider_def Let_def split: option.splits)

lemma switch_other: "key \<noteq> k \<Longrightarrow> partition_view (switchAwayTo rd k pr f t e st) key = partition_view st key"
  by (simp add: switchAwayTo_def Let_def)

lemma advance_other: "key \<noteq> k \<Longrightarrow> partition_view (fst (advanceFrom rd rc now k f e st)) key = partition_view st key"
  by (simp add: advanceFrom_def Let_def switch_other split: option.splits)

lemma success_other: "key \<noteq> k \<Longrightarrow> partition_view (recordSuccess rc k i b st) key = partition_view st key"
  by (simp add: recordSuccess_def Let_def)

lemma chain_untouched: "op_key op \<noteq> key \<Longrightarrow> partition_view (chain_step rd op st) key = partition_view st key"
  by (cases op) (auto simp: pick_other advance_other success_other)

interpretation partition_book: session_book "chain_step rd" partition_view "\<lambda>op st key. op_key op = key"
  by unfold_locales (simp add: chain_untouched)

lemma loop_other:
  "key' \<noteq> key \<Longrightarrow>
     partition_view (fst (fallback_loop fuel rd rc w key n cur probe failed pr rr st)) key' = partition_view st key'"
proof (induction fuel arbitrary: n cur probe failed pr rr st)
  case (Suc fuel)
  show ?case
  proof (cases "cw_attempt w n cur")
    case (Inr v)
    then show ?thesis using Suc.prems by (simp add: success_other)
  next
    case (Inl err)
    obtain st1 nx where adv: "advanceFrom rd rc (cw_now w (Suc n)) key cur err st = (st1, nx)" by fastforce
    have "partition_view st1 key' = partition_view st key'"
      using advance_other [OF Suc.prems, of rd rc "cw_now w (Suc n)" cur err st] adv by simp
    then show ?thesis using Suc Inl adv by (cases nx) (simp_all add: Let_def)
  qed
qed simp

lemma run_other:
  assumes "key' \<noteq> key"
  shows "partition_view (fst (runWithFallback fuel rd rc w key st)) key' = partition_view st key'"
proof -
  obtain st1 pick where p: "pickProvider rd rc (cw_now w 0) key st = (st1, pick)" by fastforce
  have "partition_view st1 key' = partition_view st key'"
    using pick_other [OF assms, of rd rc "cw_now w 0" st] p by simp
  then show ?thesis
    using p by (simp add: runWithFallback_def Let_def loop_other [OF assms] split: sum.splits)
qed

section \<open>Walking the chain\<close>

lemma index_of_nth: "distinct xs \<Longrightarrow> i < length xs \<Longrightarrow> index_of (xs ! i) xs = Some i"
proof (induction xs arbitrary: i)
  case (Cons x xs)
  then show ?case by (cases i) (auto simp: nth_eq_iff_index_eq)
qed simp

lemma index_of_None: "index_of x xs = None \<longleftrightarrow> x \<notin> set xs"
  by (induction xs) auto

lemma index_of_Some: "index_of x xs = Some i \<Longrightarrow> i < length xs \<and> xs ! i = x"
  by (induction xs arbitrary: i) (auto split: if_splits)

lemma next_link_nth:
  assumes "distinct xs" and "i < length xs"
  shows "next_link xs (xs ! i) = (if Suc i < length xs then Some (xs ! Suc i) else None)"
proof (cases "Suc i < length xs")
  case True
  then have d: "drop (Suc i) xs = xs ! Suc i # drop (Suc (Suc i)) xs" by (simp add: Cons_nth_drop_Suc)
  have "xs ! Suc i \<noteq> xs ! i" using assms True by (simp add: nth_eq_iff_index_eq)
  then show ?thesis using True assms by (simp add: next_link_def index_of_nth d)
next
  case False
  then show ?thesis using assms by (simp add: next_link_def index_of_nth)
qed

lemma next_link_absent:
  assumes "x \<notin> set xs"
  shows "next_link xs x = (case xs of [] \<Rightarrow> None | y # _ \<Rightarrow> Some y)"
  using assms by (cases xs) (auto simp: next_link_def index_of_None [THEN iffD2])

lemma snd_advanceFrom:
  "snd (advanceFrom rd rc now key from err st) =
     (if av_advance (shouldAdvance rd err) then next_link (rc_chain rc) from else None)"
  by (simp add: advanceFrom_def Let_def split: option.splits)

text \<open>How many attempts are still possible from a link.\<close>

definition links_left :: "string list \<Rightarrow> string \<Rightarrow> nat" where
  "links_left xs x = (case index_of x xs of Some i \<Rightarrow> length xs - i | None \<Rightarrow> Suc (length xs))"

lemma links_left_pos: "0 < links_left xs x"
  by (auto simp: links_left_def dest: index_of_Some split: option.splits)

lemma links_left_next:
  assumes "distinct xs" and "next_link xs x = Some y"
  shows "links_left xs y < links_left xs x"
proof (cases "x \<in> set xs")
  case True
  then obtain i where i: "i < length xs" "x = xs ! i" by (auto simp: in_set_conv_nth)
  then have "Suc i < length xs" "y = xs ! Suc i"
    using assms by (auto simp: next_link_nth split: if_splits)
  then show ?thesis using i assms(1) by (simp add: links_left_def index_of_nth)
next
  case False
  then show ?thesis using assms(2)
    by (auto simp: next_link_absent links_left_def index_of_None [THEN iffD2] split: list.splits)
qed

lemma loop_terminates:
  assumes "distinct (rc_chain rc)" and "links_left (rc_chain rc) cur \<le> fuel"
  shows "snd (fallback_loop fuel rd rc w key n cur probe failed pr rr st) \<noteq> OutOfFuel"
  using assms(2)
proof (induction fuel arbitrary: n cur probe failed pr rr st)
  case 0
  then show ?case using links_left_pos [of "rc_chain rc" cur] by simp
next
  case (Suc fuel)
  show ?case
  proof (cases "cw_attempt w n cur")
    case (Inr v)
    then show ?thesis by simp
  next
    case (Inl err)
    obtain st1 nx where adv: "advanceFrom rd rc (cw_now w (Suc n)) key cur err st = (st1, nx)" by fastforce
    show ?thesis
    proof (cases nx)
      case None
      then show ?thesis using Inl adv by (simp add: Let_def split: option.splits)
    next
      case (Some y)
      then have "next_link (rc_chain rc) cur = Some y"
        using snd_advanceFrom [of rd rc "cw_now w (Suc n)" key cur err st] adv by (simp split: if_splits)
      from links_left_next [OF assms(1) this] Suc.prems have "links_left (rc_chain rc) y \<le> fuel" by simp
      with Suc.IH show ?thesis using Inl adv Some by (simp add: Let_def)
    qed
  qed
qed

lemma pick_in_chain:
  assumes "pp_providerId (snd (pickProvider rd rc now key st)) \<noteq> []"
  shows "pp_providerId (snd (pickProvider rd rc now key st)) \<in> set (rc_chain rc)"
  using assms
  by (auto simp: pickProvider_def Let_def chain_primary_def truthy_id_def clearOverride_def
      split: option.splits list.splits if_splits)

lemma run_terminates:
  assumes "distinct (rc_chain rc)" and "length (rc_chain rc) \<le> fuel"
  shows "snd (runWithFallback fuel rd rc w key st) \<noteq> OutOfFuel"
proof -
  obtain st1 pick where p: "pickProvider rd rc (cw_now w 0) key st = (st1, pick)" by fastforce
  show ?thesis
  proof (cases "pp_providerId pick = []")
    case True
    then show ?thesis using p by (simp add: runWithFallback_def split: sum.splits)
  next
    case False
    then have "pp_providerId pick \<in> set (rc_chain rc)"
      using pick_in_chain [of rd rc "cw_now w 0" key st] p by simp
    then obtain i where "i < length (rc_chain rc)" "pp_providerId pick = rc_chain rc ! i"
      by (auto simp: in_set_conv_nth)
    then have "links_left (rc_chain rc) (pp_providerId pick) \<le> fuel"
      using assms by (simp add: links_left_def index_of_nth)
    then show ?thesis using p False by (simp add: runWithFallback_def Let_def loop_terminates [OF assms(1)])
  qed
qed

text \<open>Only an answer makes a fallback count as having served.\<close>

lemma served_switch:
  "pt_fallbackServed (partition_of key (switchAwayTo rd key pr f t e st)) \<Longrightarrow>
     pt_fallbackServed (partition_of key st) \<and> (f = pr \<longrightarrow> truthy_id (pt_overrideId (partition_of key st)))"
  by (auto simp: switchAwayTo_def Let_def partition_of_def put_partition_def emit_notice_def split: if_splits)

lemma hasFallbackServed_alt: "hasFallbackServed key st = pt_fallbackServed (partition_of key st)"
  by (simp add: hasFallbackServed_def partition_of_def freshPartition_def split: option.splits)

lemma partition_put [simp]: "partition_of key (put_partition key p st) = p"
  by (simp add: partition_of_def put_partition_def)

lemma partition_log [simp]: "partition_of key (st\<lparr>cs_log := l\<rparr>) = partition_of key st"
  by (simp add: partition_of_def)

lemma put_breaker_fields [simp]:
  "pt_overrideId (put_breaker i b p) = pt_overrideId p" "pt_fallbackServed (put_breaker i b p) = pt_fallbackServed p"
  "pt_cause (put_breaker i b p) = pt_cause p" "pt_overrideServed (put_breaker i b p) = pt_overrideServed p"
  "pt_announced (put_breaker i b p) = pt_announced p" "pt_servingId (put_breaker i b p) = pt_servingId p"
  by (simp_all add: put_breaker_def)

lemma served_advance:
  assumes "hasFallbackServed key (fst (advanceFrom rd rc now key from err st))"
  shows "hasFallbackServed key st"
    and "from = hd (rc_chain rc) \<Longrightarrow> next_link (rc_chain rc) from \<noteq> None \<Longrightarrow> av_advance (shouldAdvance rd err) \<Longrightarrow>
      truthy_id (pt_overrideId (partition_of key st))"
  using assms
  by (auto simp: advanceFrom_def Let_def hasFallbackServed_alt dest: served_switch split: if_splits option.splits)

lemma partition_emit [simp]: "partition_of key (emit_notice nt st) = partition_of key st"
  by (simp add: partition_of_def emit_notice_def)

lemma breaker_put [simp]: "breaker_of x (put_breaker i b p) = (if x = i then b else breaker_of x p)"
  by (simp add: breaker_of_def put_breaker_def)

lemma breaker_update [simp]:
  "breaker_of x (p\<lparr>pt_overrideId := o1\<rparr>) = breaker_of x p" "breaker_of x (p\<lparr>pt_announced := b1\<rparr>) = breaker_of x p"
  "breaker_of x (p\<lparr>pt_cause := c1\<rparr>) = breaker_of x p" "breaker_of x (p\<lparr>pt_overrideServed := b2\<rparr>) = breaker_of x p"
  "breaker_of x (p\<lparr>pt_fallbackServed := b3\<rparr>) = breaker_of x p" "breaker_of x (p\<lparr>pt_servingId := s1\<rparr>) = breaker_of x p"
  by (simp_all add: breaker_of_def)

lemma switch_partition:
  "breaker_of x (partition_of key (switchAwayTo rd key pr f t e st)) = breaker_of x (partition_of key st)"
  "f = pr \<or> truthy_id (pt_overrideId (partition_of key st)) \<Longrightarrow>
     pt_overrideId (partition_of key (switchAwayTo rd key pr f t e st)) = Some t"
  by (auto simp: switchAwayTo_def Let_def)

lemma advance_partition:
  assumes "av_advance (shouldAdvance rd err)" and "next_link (rc_chain rc) from = Some c"
  shows "breaker_of x (partition_of key (fst (advanceFrom rd rc now key from err st))) =
      (if x = from then registerBreakerFailure now (av_immediate (shouldAdvance rd err)) (rc_timing rc)
         (breaker_of from (partition_of key st)) else breaker_of x (partition_of key st))"
    and "from = hd (rc_chain rc) \<or> truthy_id (pt_overrideId (partition_of key st)) \<Longrightarrow>
      pt_overrideId (partition_of key (fst (advanceFrom rd rc now key from err st))) = Some c"
  using assms by (auto simp: advanceFrom_def Let_def switch_partition)

text \<open>A stretch of the chain whose links all fail with errors worth falling over.\<close>

definition falls_over :: "'e readers \<Rightarrow> ('e, 'a) call_world \<Rightarrow> nat \<Rightarrow> string \<Rightarrow> 'e \<Rightarrow> bool" where
  "falls_over rd w n link err \<longleftrightarrow> cw_attempt w n link = Inl err \<and> \<not> cw_aborted w n \<and> av_advance (shouldAdvance rd err)"

definition attempts_of :: "string list \<Rightarrow> 'e list \<Rightarrow> 'e failed_attempt list" where
  "attempts_of links errs = map (\<lambda>(l, e). \<lparr>fa_providerId = l, fa_error = e\<rparr>) (zip links errs)"

lemma loop_step:
  assumes "distinct (rc_chain rc)" and "Suc i < length (rc_chain rc)"
    and "falls_over rd w n (rc_chain rc ! i) err"
  shows "\<exists>pr' rr' st'. fallback_loop (Suc fuel) rd rc w key n (rc_chain rc ! i) probe failed pr rr st =
      fallback_loop fuel rd rc w key (Suc n) (rc_chain rc ! Suc i) False
        (failed @ [\<lparr>fa_providerId = rc_chain rc ! i, fa_error = err\<rparr>]) pr' rr' st' \<and>
    st' = fst (advanceFrom rd rc (cw_now w (Suc n)) key (rc_chain rc ! i) err st) \<and>
    pr' = (if i = 0 \<and> is_refusal rd err
           then Some \<lparr>rf_providerId = rc_chain rc ! i, rf_error = err, rf_before = []\<rparr> else pr)"
proof -
  let ?cur = "rc_chain rc ! i"
  obtain st1 nx where adv: "advanceFrom rd rc (cw_now w (Suc n)) key ?cur err st = (st1, nx)" by fastforce
  have "nx = Some (rc_chain rc ! Suc i)"
    using snd_advanceFrom [of rd rc "cw_now w (Suc n)" key ?cur err st] adv assms
    by (simp add: next_link_nth falls_over_def)
  moreover have "hd (rc_chain rc) = rc_chain rc ! 0" using assms(2) by (cases "rc_chain rc") auto
  then have "isPrimary rc ?cur \<longleftrightarrow> i = 0"
    using assms(1,2) nth_eq_iff_index_eq [OF assms(1), of 0 i] by (auto simp: isPrimary_def)
  ultimately show ?thesis using assms(3) adv by (auto simp: falls_over_def Let_def)
qed

text \<open>What the walk leaves in its partition: the override on the link reached, one failure registered
  against the first link, and no trace on the links not walked.\<close>

definition walked :: "'e readers \<Rightarrow> resolved_chain \<Rightarrow> ('e, 'a) call_world \<Rightarrow> string \<Rightarrow> nat \<Rightarrow> nat \<Rightarrow> 'e list \<Rightarrow>
    'e chain_state \<Rightarrow> 'e chain_state \<Rightarrow> bool" where
  "walked rd rc w key n i errs st st' \<longleftrightarrow>
     (errs = [] \<longrightarrow> st' = st) \<and>
     (errs \<noteq> [] \<and> (i = 0 \<or> truthy_id (pt_overrideId (partition_of key st))) \<and> [] \<notin> set (rc_chain rc) \<longrightarrow>
        pt_overrideId (partition_of key st') = Some (rc_chain rc ! (i + length errs))) \<and>
     (\<forall>x. x \<notin> set (take (length errs) (drop i (rc_chain rc))) \<longrightarrow>
        breaker_of x (partition_of key st') = breaker_of x (partition_of key st)) \<and>
     (errs \<noteq> [] \<longrightarrow> breaker_of (rc_chain rc ! i) (partition_of key st') =
        registerBreakerFailure (cw_now w (Suc n)) (av_immediate (shouldAdvance rd (hd errs))) (rc_timing rc)
          (breaker_of (rc_chain rc ! i) (partition_of key st)))"

lemma walked_Cons:
  assumes "distinct (rc_chain rc)" and "Suc i + length errs < length (rc_chain rc)"
    and "av_advance (shouldAdvance rd e)"
    and "walked rd rc w key (Suc n) (Suc i) errs (fst (advanceFrom rd rc (cw_now w (Suc n)) key (rc_chain rc ! i) e st)) st'"
  shows "walked rd rc w key n i (e # errs) st st'"
proof -
  let ?st1 = "fst (advanceFrom rd rc (cw_now w (Suc n)) key (rc_chain rc ! i) e st)"
  have i: "i < length (rc_chain rc)" using assms(2) by simp
  have nx: "next_link (rc_chain rc) (rc_chain rc ! i) = Some (rc_chain rc ! Suc i)"
    using assms(1,2) by (simp add: next_link_nth)
  note adv = advance_partition [OF assms(3) nx]
  have d: "take (Suc (length errs)) (drop i (rc_chain rc)) =
      rc_chain rc ! i # take (length errs) (drop (Suc i) (rc_chain rc))"
    using i by (simp add: Cons_nth_drop_Suc [symmetric])
  have "distinct (drop i (rc_chain rc))" using assms(1) by simp
  then have "rc_chain rc ! i \<notin> set (drop (Suc i) (rc_chain rc))"
    using i by (simp add: Cons_nth_drop_Suc [symmetric])
  then have fresh: "rc_chain rc ! i \<notin> set (take (length errs) (drop (Suc i) (rc_chain rc)))"
    by (meson in_set_takeD)
  have ov: "pt_overrideId (partition_of key ?st1) = Some (rc_chain rc ! Suc i)"
    if "i = 0 \<or> truthy_id (pt_overrideId (partition_of key st))"
    using adv(2) that i by (cases "rc_chain rc") auto
  have ne: "rc_chain rc ! Suc i \<noteq> []" if "[] \<notin> set (rc_chain rc)"
    using that assms(2) nth_mem [of "Suc i" "rc_chain rc"] by (metis add_lessD1)
  have "pt_overrideId (partition_of key st') = Some (rc_chain rc ! (i + length (e # errs)))"
    if "i = 0 \<or> truthy_id (pt_overrideId (partition_of key st))" "[] \<notin> set (rc_chain rc)"
    using assms(4) that ov ne by (cases errs) (auto simp: walked_def truthy_id_def)
  then show ?thesis using assms(4) adv(1) fresh unfolding walked_def by (simp add: d)
qed

lemma loop_walk:
  assumes "distinct (rc_chain rc)" and "i + length errs < length (rc_chain rc)"
    and "\<And>k. k < length errs \<Longrightarrow> falls_over rd w (n + k) (rc_chain rc ! (i + k)) (errs ! k)"
  shows "\<exists>pr' rr' st'. fallback_loop (length errs + fuel) rd rc w key n (rc_chain rc ! i) probe failed pr rr st =
      fallback_loop fuel rd rc w key (n + length errs) (rc_chain rc ! (i + length errs)) (probe \<and> errs = [])
        (failed @ attempts_of (take (length errs) (drop i (rc_chain rc))) errs) pr' rr' st' \<and>
      walked rd rc w key n i errs st st' \<and>
      (i \<noteq> 0 \<or> errs = [] \<longrightarrow> pr' = pr) \<and> (hasFallbackServed key st' \<longrightarrow> hasFallbackServed key st) \<and>
      (i = 0 \<and> errs \<noteq> [] \<and> is_refusal rd (hd errs) \<longrightarrow>
         pr' = Some \<lparr>rf_providerId = rc_chain rc ! 0, rf_error = hd errs, rf_before = []\<rparr>)"
  using assms(2,3)
proof (induction errs arbitrary: i n probe failed pr rr st)
  case Nil
  then show ?case by (auto simp: attempts_of_def walked_def)
next
  case (Cons e errs)
  have e: "falls_over rd w n (rc_chain rc ! i) e" using Cons.prems(2) [of 0] by simp
  have i: "Suc i < length (rc_chain rc)" using Cons.prems(1) by simp
  obtain pr1 rr1 st1 where step: "fallback_loop (Suc (length errs + fuel)) rd rc w key n (rc_chain rc ! i) probe failed pr rr st =
      fallback_loop (length errs + fuel) rd rc w key (Suc n) (rc_chain rc ! Suc i) False
        (failed @ [\<lparr>fa_providerId = rc_chain rc ! i, fa_error = e\<rparr>]) pr1 rr1 st1"
    and pr1: "pr1 = (if i = 0 \<and> is_refusal rd e
           then Some \<lparr>rf_providerId = rc_chain rc ! i, rf_error = e, rf_before = []\<rparr> else pr)"
    and st1: "st1 = fst (advanceFrom rd rc (cw_now w (Suc n)) key (rc_chain rc ! i) e st)"
    using loop_step [OF assms(1) i e, of "length errs + fuel" key probe failed pr rr st] by blast
  have s1: "hasFallbackServed key st1 \<longrightarrow> hasFallbackServed key st"
    using served_advance(1) [of key rd rc "cw_now w (Suc n)" "rc_chain rc ! i" e st] st1 by simp
  have "falls_over rd w (Suc n + k) (rc_chain rc ! (Suc i + k)) (errs ! k)" if "k < length errs" for k
    using Cons.prems(2) [of "Suc k"] that by simp
  from Cons.IH [OF _ this, of False "failed @ [\<lparr>fa_providerId = rc_chain rc ! i, fa_error = e\<rparr>]" pr1 rr1 st1] Cons.prems(1)
  obtain pr2 rr2 st2 where walk: "fallback_loop (length errs + fuel) rd rc w key (Suc n) (rc_chain rc ! Suc i) False
        (failed @ [\<lparr>fa_providerId = rc_chain rc ! i, fa_error = e\<rparr>]) pr1 rr1 st1 =
      fallback_loop fuel rd rc w key (Suc n + length errs) (rc_chain rc ! (Suc i + length errs)) False
        ((failed @ [\<lparr>fa_providerId = rc_chain rc ! i, fa_error = e\<rparr>]) @
           attempts_of (take (length errs) (drop (Suc i) (rc_chain rc))) errs) pr2 rr2 st2"
    and wk: "walked rd rc w key (Suc n) (Suc i) errs st1 st2"
    and pr2: "pr2 = pr1" and s2: "hasFallbackServed key st2 \<longrightarrow> hasFallbackServed key st1" by auto
  have d: "take (Suc (length errs)) (drop i (rc_chain rc)) =
      rc_chain rc ! i # take (length errs) (drop (Suc i) (rc_chain rc))"
    using i by (simp add: take_Suc_conv_app_nth Cons_nth_drop_Suc [symmetric])
  have "(failed @ [\<lparr>fa_providerId = rc_chain rc ! i, fa_error = e\<rparr>]) @
        attempts_of (take (length errs) (drop (Suc i) (rc_chain rc))) errs =
      failed @ attempts_of (take (length (e # errs)) (drop i (rc_chain rc))) (e # errs)"
    by (simp add: d attempts_of_def)
  then have "fallback_loop (length (e # errs) + fuel) rd rc w key n (rc_chain rc ! i) probe failed pr rr st =
      fallback_loop fuel rd rc w key (n + length (e # errs)) (rc_chain rc ! (i + length (e # errs)))
        (probe \<and> e # errs = [])
        (failed @ attempts_of (take (length (e # errs)) (drop i (rc_chain rc))) (e # errs)) pr1 rr2 st2"
    using step walk pr2 by simp
  moreover have "walked rd rc w key n i (e # errs) st st2"
    using walked_Cons [OF assms(1) _ _ wk [unfolded st1]] e Cons.prems(1) by (simp add: falls_over_def)
  moreover have "i \<noteq> 0 \<longrightarrow> pr1 = pr" "hasFallbackServed key st2 \<longrightarrow> hasFallbackServed key st"
    "i = 0 \<and> is_refusal rd e \<longrightarrow> pr1 = Some \<lparr>rf_providerId = rc_chain rc ! 0, rf_error = e, rf_before = []\<rparr>"
    using pr1 s1 s2 by auto
  ultimately show ?case by (metis list.sel(1) list.distinct(1))
qed

section \<open>A run that meets an outage\<close>

lemma override_alt: "activeOverrideFor key st = pt_overrideId (partition_of key st)"
  by (simp add: activeOverrideFor_def partition_of_def freshPartition_def split: option.splits)

lemma cause_alt: "overrideCause key st = pt_cause (partition_of key st)"
  by (simp add: overrideCause_def partition_of_def freshPartition_def split: option.splits)

lemma run_no_override:
  assumes "rc_chain rc \<noteq> []" and "[] \<notin> set (rc_chain rc)"
    and "activeOverrideFor key st = None" and "overrideCause key st = None"
  shows "runWithFallback fuel rd rc w key st =
    fallback_loop fuel rd rc w key 0 (rc_chain rc ! 0) False [] None None (put_partition key (partition_of key st) st)"
  using assms
  by (cases "rc_chain rc")
     (auto simp: runWithFallback_def pickProvider_def chain_primary_def Let_def override_alt cause_alt truthy_id_def)

text \<open>The whole walk from the primary, ready for what its last link does.\<close>

lemma run_walk:
  assumes "distinct (rc_chain rc)" and "[] \<notin> set (rc_chain rc)"
    and "activeOverrideFor key st = None" and "overrideCause key st = None"
    and "length errs < length (rc_chain rc)"
    and "\<And>i. i < length errs \<Longrightarrow> falls_over rd w i (rc_chain rc ! i) (errs ! i)"
  obtains pr rr st' fuel where
    "runWithFallback (length (rc_chain rc)) rd rc w key st =
       fallback_loop (Suc fuel) rd rc w key (length errs) (rc_chain rc ! length errs) False
         (attempts_of (take (length errs) (rc_chain rc)) errs) pr rr st'"
    and "walked rd rc w key 0 0 errs (put_partition key (partition_of key st) st) st'"
    and "hasFallbackServed key st' \<Longrightarrow> hasFallbackServed key st"
    and "errs = [] \<Longrightarrow> pr = None"
    and "errs \<noteq> [] \<Longrightarrow> is_refusal rd (hd errs) \<Longrightarrow>
      pr = Some \<lparr>rf_providerId = rc_chain rc ! 0, rf_error = hd errs, rf_before = []\<rparr>"
proof -
  obtain fuel where f: "length (rc_chain rc) = length errs + Suc fuel" using assms(5) less_iff_Suc_add by auto
  have ne: "rc_chain rc \<noteq> []" using assms(5) by auto
  have fo: "\<And>k. k < length errs \<Longrightarrow> falls_over rd w (0 + k) (rc_chain rc ! (0 + k)) (errs ! k)"
    using assms(6) by simp
  have il: "0 + length errs < length (rc_chain rc)" using assms(5) by simp
  have "hasFallbackServed key (put_partition key (partition_of key st) st) = hasFallbackServed key st"
    by (simp add: hasFallbackServed_alt)
  with loop_walk [OF assms(1) il fo, of "Suc fuel" key False "[]" None None
      "put_partition key (partition_of key st) st"] that
  show thesis unfolding run_no_override [OF ne assms(2-4)] f by simp blast
qed

lemma success_partition:
  assumes "p = partition_of key st"
  shows "pt_overrideId (partition_of key (recordSuccess rc key i False st)) = pt_overrideId p"
    and "pt_overrideId p = Some i \<Longrightarrow> pt_overrideServed (partition_of key (recordSuccess rc key i False st))"
    and "x \<noteq> i \<Longrightarrow> breaker_of x (partition_of key (recordSuccess rc key i False st)) = breaker_of x p"
  using assms by (simp_all add: recordSuccess_def Let_def)

end
