(* ===== verification/Fallback_Properties.thy ===== *)
theory Fallback_Properties
  imports Fallback_Runs
begin

text \<open>
  The properties of the provider fallback: the shape of the resolved chain, the breaker's ladder, the
  isolation of partitions, and what a call returns and leaves behind when links of the chain fail.
  Each rests on the lemmas of \<open>Fallback_Runs\<close>; the samples of the witnesses stand first.
\<close>

section \<open>Samples\<close>

text \<open>Sample errors are HTTP statuses: every reader answers from the number alone.\<close>

definition status_readers :: "int readers" where
  "status_readers = \<lparr>rd_class = (\<lambda>e. ErrOpenAiHttp), rd_status = Some, rd_timedOut = (\<lambda>e. False),
     rd_keyProblem = (\<lambda>e. False), rd_abortError = (\<lambda>e. False), rd_networkError = (\<lambda>e. False),
     rd_requestSize = (\<lambda>e. e = 413), rd_creditExhausted = (\<lambda>e. e = 402), rd_credentialWording = (\<lambda>e. False),
     rd_moderation = (\<lambda>e. False), rd_cliSetup = (\<lambda>e. False), rd_retryAfter = (\<lambda>e. False),
     rd_reason = (\<lambda>e. show_int e)\<rparr>"

definition three_links :: resolved_chain where
  "three_links = \<lparr>rc_chain = [''a'', ''b'', ''c''], rc_timing = DEFAULT_FALLBACK_TIMING\<rparr>"

definition status_world :: "(string \<Rightarrow> int + nat) \<Rightarrow> (int, nat) call_world" where
  "status_world f = \<lparr>cw_now = (\<lambda>n. 1000 + n), cw_attempt = (\<lambda>n. f), cw_aborted = (\<lambda>n. False)\<rparr>"

definition all_down :: "string \<Rightarrow> int + nat" where
  "all_down i = (if i = ''a'' then Inl 401 else Inl 503)"

definition c_up :: "string \<Rightarrow> int + nat" where
  "c_up i = (if i = ''c'' then Inr 7 else Inl 503)"

section \<open>Properties\<close>

text \<open>The resolved chain starts with the active provider, names configured providers once each,
  keeps every requested one, and fails over within the primary's own class first, in the order
  the chain had before the grouping.\<close>

theorem resolved_chain_shape:
  assumes "lc_activeTextProvider c \<in> set (map pv_id (lc_providers c))"
  shows "let ch = rc_chain (resolveFallbackChain c); cls = class_of (lc_providers c) in
    (\<exists>near far. ch = lc_activeTextProvider c # near @ far \<and>
       (\<forall>i \<in> set near. cls i = cls (lc_activeTextProvider c)) \<and>
       (\<forall>i \<in> set far. cls i \<noteq> cls (lc_activeTextProvider c))) \<and>
    distinct ch \<and> set ch \<subseteq> set (map pv_id (lc_providers c)) \<and>
    set (requested_chain c) \<inter> set (map pv_id (lc_providers c)) \<subseteq> set ch \<and>
    (\<forall>k. filter (\<lambda>i. cls i = k) (tl ch) = filter (\<lambda>i. cls i = k) (tl (plain_chain c))) \<and>
    cooldownMs (rc_timing (resolveFallbackChain c)) \<noteq> []"
proof -
  obtain r where r: "plain_chain c = lc_activeTextProvider c # r" using plain_chain_props(1) [OF assms] by blast
  have timing: "cooldownMs (rc_timing (resolveFallbackChain c)) \<noteq> []"
    by (simp add: resolveFallbackChain_def Let_def timing_nonempty)
  note gr = group_near_far [OF r, of "lc_providers c"]
    and tail = group_tail_filter [of "lc_providers c" _ "plain_chain c"]
    and props = plain_chain_props(2-4) [OF assms]
  show ?thesis
    unfolding Let_def resolve_plain
    by (intro conjI allI gr tail timing distinct_group props(1) subset_trans [OF equalityD1 [OF set_group] props(2)]
        subset_trans [OF props(3) equalityD2 [OF set_group]])
qed

definition sample_config :: llm_config where
  "sample_config = \<lparr>lc_providers = [\<lparr>pv_id = ''openai'', pv_kind = ''openai''\<rparr>,
      \<lparr>pv_id = ''local'', pv_kind = ''llama-server''\<rparr>, \<lparr>pv_id = ''claude'', pv_kind = ''anthropic''\<rparr>],
     lc_activeTextProvider = ''openai'', lc_fallback = Some \<lparr>fb_chain = Some [''local'', ''claude'', ''openai''],
       fb_appendLocal = None, fb_failureThreshold = None, fb_cooldownMs = None, fb_probeThrottleMs = None,
       fb_failureWindowMs = None\<rparr>\<rparr>"

text \<open>Dropping links at run time keeps the primary whatever the filter says, and exactly the
  later links it accepts, in order.\<close>

theorem dropping_links_keeps_primary:
  assumes "rc_chain r = x # xs"
  shows "rc_chain (fst (withoutUnbuiltLinks r built)) = x # filter built xs \<and>
    rc_chain (fst (withoutKeylessLinks r lacks)) = x # filter (\<lambda>i. \<not> lacks i) xs \<and>
    rc_chain (fst (withoutUnavailableLinks r away)) = x # filter (\<lambda>i. \<not> away i) xs"
  using keepLinks_chain(1) [OF assms]
  by (simp add: withoutUnbuiltLinks_def withoutKeylessLinks_def withoutUnavailableLinks_def)

text \<open>A breaker trips on its first unambiguous failure, or on the failure that reaches the
  threshold, and each further failure climbs one rung of the cooldown ladder up to its last.\<close>

theorem breaker_cooldown_ladder:
  assumes "within_window (failureWindowMs timing) ts" and "ts \<noteq> []"
  shows "bk_cooldownUntil (fold (\<lambda>t. registerBreakerFailure t immediate timing) ts freshBreaker) =
    (let trip = (if immediate then 1 else max 1 (failureThreshold timing))
     in if length ts < trip then 0
        else last ts + cooldownMs timing ! min (length ts - trip) (length (cooldownMs timing) - 1))"
  using failures_at_spec [OF assms(1), of immediate] by (simp add: failures_at_def trip_at_def Let_def)

text \<open>Partitions are isolated: a call run in one partition, whatever it does, leaves the breakers
  and the override of every other partition as they were.\<close>

theorem fallback_partitions_isolated:
  assumes "key' \<noteq> key"
  shows "jm_get (cs_partitions (fst (runWithFallback fuel rd rc w key st))) key' = jm_get (cs_partitions st) key'"
  using run_other [OF assms, of fuel rd rc w st] by (simp add: partition_view_def)

text \<open>C9: A call through the chain ends: a chain without repetitions is walked in at most as many
  attempts as it has links, and the result is an answer or a thrown error.\<close>

theorem fallback_run_terminates:
  assumes "distinct (rc_chain rc)"
  shows "snd (runWithFallback (length (rc_chain rc)) rd rc w key st) \<noteq> OutOfFuel"
  by (rule run_terminates [OF assms order_refl])

theorem fallback_run_terminates_witness:
  "snd (runWithFallback 3 status_readers three_links (status_world all_down) ''s1'' newChainState) \<noteq> OutOfFuel"
proof -
  have "distinct (rc_chain three_links)" by (simp add: three_links_def)
  from fallback_run_terminates [OF this, of status_readers "status_world all_down" "''s1''" newChainState]
  show ?thesis by (simp add: three_links_def numeral_3_eq_3)
qed

text \<open>C7: a call in a partition with no override is answered by the first link of the chain that
  works: when the links before it fail with errors worth falling over, its answer is the result,
  and the partition is left pinned to it (or unpinned when it is the primary).\<close>

theorem first_working_link_answers:
  assumes "distinct (rc_chain rc)" and "[] \<notin> set (rc_chain rc)"
    and "activeOverrideFor key st = None" and "overrideCause key st = None"
    and "length errs < length (rc_chain rc)"
    and "\<And>i. i < length errs \<Longrightarrow> falls_over rd w i (rc_chain rc ! i) (errs ! i)"
    and "cw_attempt w (length errs) (rc_chain rc ! length errs) = Inr v"
  shows "snd (runWithFallback (length (rc_chain rc)) rd rc w key st) = Returned v \<and>
    activeOverrideFor key (fst (runWithFallback (length (rc_chain rc)) rd rc w key st)) =
      (if errs = [] then None else Some (rc_chain rc ! length errs))"
proof -
  obtain pr rr st' fuel where
    run: "runWithFallback (length (rc_chain rc)) rd rc w key st =
       fallback_loop (Suc fuel) rd rc w key (length errs) (rc_chain rc ! length errs) False
         (attempts_of (take (length errs) (rc_chain rc)) errs) pr rr st'"
    and wk: "walked rd rc w key 0 0 errs (put_partition key (partition_of key st) st) st'"
    using run_walk [OF assms(1-6)] by metis
  have "pt_overrideId (partition_of key st') = (if errs = [] then None else Some (rc_chain rc ! length errs))"
    using wk assms(2,3) by (auto simp: walked_def override_alt)
  then show ?thesis unfolding run by (simp add: assms(7) override_alt success_partition(1) [OF refl])
qed

theorem first_working_link_answers_witness:
  "snd (runWithFallback 3 status_readers three_links (status_world c_up) ''s'' newChainState) = Returned 7 \<and>
   activeOverrideFor ''s'' (fst (runWithFallback 3 status_readers three_links (status_world c_up) ''s'' newChainState))
     = Some ''c''"
proof -
  have "falls_over status_readers (status_world c_up) i (rc_chain three_links ! i) ([503, 503] ! i)"
    if "i < length [503, 503 :: int]" for i
    using that by (auto simp: less_Suc_eq falls_over_def status_world_def c_up_def three_links_def shouldAdvance_def
        status_readers_def classifyFailure_def)
  with first_working_link_answers [of three_links "''s''" newChainState "[503, 503]" status_readers "status_world c_up" 7]
  show ?thesis by (simp add: three_links_def newChainState_def activeOverrideFor_def overrideCause_def
      status_world_def c_up_def numeral_3_eq_3)
qed

text \<open>An error that is not worth falling over is thrown untouched from the link that met it, with the
  links that failed before it beside it; a failure under an aborted signal is thrown alone.\<close>

theorem request_errors_are_thrown:
  assumes "distinct (rc_chain rc)" and "[] \<notin> set (rc_chain rc)"
    and "activeOverrideFor key st = None" and "overrideCause key st = None"
    and "length errs < length (rc_chain rc)"
    and "\<And>i. i < length errs \<Longrightarrow> falls_over rd w i (rc_chain rc ! i) (errs ! i)"
    and "cw_attempt w (length errs) (rc_chain rc ! length errs) = Inl err"
    and "cw_aborted w (length errs) \<or> \<not> av_advance (shouldAdvance rd err)"
  shows "snd (runWithFallback (length (rc_chain rc)) rd rc w key st) =
    Thrown err (if cw_aborted w (length errs) then [] else attempts_of (take (length errs) (rc_chain rc)) errs)
      (Some (rc_chain rc ! length errs))"
proof -
  obtain pr rr st' fuel where
    run: "runWithFallback (length (rc_chain rc)) rd rc w key st =
       fallback_loop (Suc fuel) rd rc w key (length errs) (rc_chain rc ! length errs) False
         (attempts_of (take (length errs) (rc_chain rc)) errs) pr rr st'"
    using run_walk [OF assms(1-6)] by metis
  show ?thesis
  proof (cases "cw_aborted w (length errs)")
    case True
    then show ?thesis unfolding run by (simp add: assms(7))
  next
    case False
    then show ?thesis using assms(8) unfolding run
      by (simp add: assms(7) advanceFrom_def Let_def split: option.splits)
  qed
qed

text \<open>C8: when every link fails and the primary's own failure was a refusal (a rejected credential, a
  spent balance, a CLI that is not set up), the caller is shown the primary's refusal and not the
  last link's error, as long as no fallback has served the partition.\<close>

theorem primary_refusal_outranks:
  assumes "distinct (rc_chain rc)" and "[] \<notin> set (rc_chain rc)"
    and "activeOverrideFor key st = None" and "overrideCause key st = None"
    and "length (rc_chain rc) = Suc (length errs)" and "errs \<noteq> []" and "\<not> hasFallbackServed key st"
    and "\<And>i. i < length errs \<Longrightarrow> falls_over rd w i (rc_chain rc ! i) (errs ! i)"
    and "falls_over rd w (length errs) (rc_chain rc ! length errs) final" and "is_refusal rd (hd errs)"
  shows "snd (runWithFallback (length (rc_chain rc)) rd rc w key st) =
    Thrown (hd errs) [] (Some (rc_chain rc ! 0))"
proof -
  have "length errs < length (rc_chain rc)" using assms(5) by simp
  then obtain pr rr st' fuel where
    run: "runWithFallback (length (rc_chain rc)) rd rc w key st =
       fallback_loop (Suc fuel) rd rc w key (length errs) (rc_chain rc ! length errs) False
         (attempts_of (take (length errs) (rc_chain rc)) errs) pr rr st'"
    and served: "hasFallbackServed key st' \<Longrightarrow> hasFallbackServed key st"
    and pr: "pr = Some \<lparr>rf_providerId = rc_chain rc ! 0, rf_error = hd errs, rf_before = []\<rparr>"
    using run_walk [OF assms(1-4) _ assms(8)] assms(6,10) by metis
  obtain st1 nx where adv: "advanceFrom rd rc (cw_now w (Suc (length errs))) key (rc_chain rc ! length errs) final st'
      = (st1, nx)" by fastforce
  have "nx = None"
    using snd_advanceFrom [of rd rc "cw_now w (Suc (length errs))" key "rc_chain rc ! length errs" final st'] adv assms(1,5)
    by (simp add: next_link_nth)
  moreover have "\<not> hasFallbackServed key st1"
    using served_advance(1) [of key rd rc "cw_now w (Suc (length errs))" "rc_chain rc ! length errs" final st']
      adv served assms(7) by auto
  ultimately show ?thesis using assms(9) adv unfolding run pr by (simp add: falls_over_def Let_def)
qed

theorem primary_refusal_outranks_witness:
  "snd (runWithFallback 3 status_readers three_links (status_world all_down) ''s'' newChainState) =
   Thrown 401 [] (Some ''a'')"
proof -
  have "falls_over status_readers (status_world all_down) i (rc_chain three_links ! i) ([401, 503] ! i)"
    if "i < length [401, 503 :: int]" for i
    using that by (auto simp: less_Suc_eq falls_over_def status_world_def all_down_def three_links_def shouldAdvance_def
        status_readers_def classifyFailure_def)
  with primary_refusal_outranks [of three_links "''s''" newChainState "[401, 503]" status_readers
      "status_world all_down" 503]
  show ?thesis by (simp add: three_links_def newChainState_def activeOverrideFor_def overrideCause_def
      status_world_def all_down_def numeral_3_eq_3 falls_over_def shouldAdvance_def status_readers_def
      classifyFailure_def hasFallbackServed_def is_refusal_def isCredentialRejection_def)
qed

text \<open>An outage sticks: after a call that fell over from the primary on an unambiguous error, later
  calls go straight to the link that answered until the primary's cooldown and the probe throttle
  are over; the first call after that probes the primary, and a successful probe lifts the
  override and announces the way back.\<close>

theorem outage_sticks_until_cooldown:
  assumes "distinct (rc_chain rc)" and "[] \<notin> set (rc_chain rc)" and "cooldownMs (rc_timing rc) \<noteq> []"
    and "activeOverrideFor key st = None" and "overrideCause key st = None"
    and "breaker_of (rc_chain rc ! 0) (partition_of key st) = freshBreaker"
    and "length errs < length (rc_chain rc)" and "errs \<noteq> []" and "av_immediate (shouldAdvance rd (hd errs))"
    and "\<And>i. i < length errs \<Longrightarrow> falls_over rd w i (rc_chain rc ! i) (errs ! i)"
    and "cw_attempt w (length errs) (rc_chain rc ! length errs) = Inr v"
  defines "st' \<equiv> fst (runWithFallback (length (rc_chain rc)) rd rc w key st)"
    and "primary \<equiv> rc_chain rc ! 0" and "link \<equiv> rc_chain rc ! length errs"
    and "resting \<equiv> (\<lambda>now. now < cw_now w 1 + cooldownMs (rc_timing rc) ! 0 \<or> now < probeThrottleMs (rc_timing rc))"
  shows "snd (pickProvider rd rc now key st') =
      (if resting now then \<lparr>pp_providerId = link, pp_isProbe = False\<rparr>
       else \<lparr>pp_providerId = primary, pp_isProbe = True\<rparr>) \<and>
    activeOverrideFor key (recordSuccess rc key primary True st') = None \<and>
    cs_notices (recordSuccess rc key primary True st') = cs_notices st' @
      [\<lparr>sn_direction = Back, sn_from = link, sn_to = primary, sn_reason = ''primary recovered'', sn_cause = None\<rparr>]"
proof -
  obtain pr rr st1 fuel where
    run: "runWithFallback (length (rc_chain rc)) rd rc w key st =
       fallback_loop (Suc fuel) rd rc w key (length errs) (rc_chain rc ! length errs) False
         (attempts_of (take (length errs) (rc_chain rc)) errs) pr rr st1"
    and wk: "walked rd rc w key 0 0 errs (put_partition key (partition_of key st) st) st1"
    using run_walk [OF assms(1,2,4,5,7,10)] by metis
  have st': "st' = recordSuccess rc key link False st1"
    unfolding st'_def run link_def by (simp add: assms(11))
  obtain rest where rest: "rc_chain rc = primary # rest"
    using assms(7) unfolding primary_def by (cases "rc_chain rc") auto
  have ne: "primary \<noteq> []" "link \<noteq> []" "link \<in> set (rc_chain rc)"
    using assms(2,7) rest nth_mem [of "length errs" "rc_chain rc"] by (auto simp: link_def)
  have diff: "primary \<noteq> link"
    using assms(7,8) nth_eq_iff_index_eq [OF assms(1) le_less_trans [OF le0 assms(7)] assms(7)]
    unfolding primary_def link_def by simp
  have ov1: "pt_overrideId (partition_of key st1) = Some link"
    using wk assms(2,8) by (simp add: walked_def link_def)
  have bk1: "breaker_of primary (partition_of key st1) =
      registerBreakerFailure (cw_now w 1) True (rc_timing rc) freshBreaker"
    using wk assms(6,8,9) by (simp add: walked_def primary_def)
  have ov: "pt_overrideId (partition_of key st') = Some link" and
    served: "pt_overrideServed (partition_of key st')"
    using success_partition(1,2) [where st = st1, OF refl] ov1 by (auto simp: st')
  have bk: "breaker_of primary (partition_of key st') =
      registerBreakerFailure (cw_now w 1) True (rc_timing rc) freshBreaker"
    using success_partition(3) [where st = st1, OF refl diff] bk1 by (simp add: st')
  have "chain_primary rc = Some primary" using rest ne by (simp add: chain_primary_def)
  then have "snd (pickProvider rd rc now key st') =
      (if resting now then \<lparr>pp_providerId = link, pp_isProbe = False\<rparr>
       else \<lparr>pp_providerId = primary, pp_isProbe = True\<rparr>)"
    using ov served ne bk assms(3)
    by (auto simp: pickProvider_def Let_def truthy_id_def isStandIn_def registerBreakerFailure_def freshBreaker_def
        resting_def)
  moreover have "activeOverrideFor key (recordSuccess rc key primary True st') = None"
    and "cs_notices (recordSuccess rc key primary True st') = cs_notices st' @
      [\<lparr>sn_direction = Back, sn_from = link, sn_to = primary, sn_reason = ''primary recovered'', sn_cause = None\<rparr>]"
    using ov ne rest diff
    by (simp_all add: recordSuccess_def Let_def truthy_id_def override_alt emit_notice_def put_partition_def
        partition_of_def clearOverride_def)
  ultimately show ?thesis by blast
qed

definition c_up_run :: "int chain_state" where
  "c_up_run = fst (runWithFallback 3 status_readers three_links (status_world c_up) ''s'' newChainState)"

end
