(* ===== verification/Turn_Owner.thy ===== *)
theory Turn_Owner
  imports Fingerprints
begin

text \<open>
  \<open>src/src/session/turn-owner.ts\<close>: who runs a turn. An owner is stored as JSON; the text of a column
  is modelled by the JSON value it parses to (\<open>None\<close> when it does not parse, and the column itself
  is an option). Times and uptimes are integers. What the host says (liveness of a pid, start of
  a process, uptime) is the record \<open>owner_probe\<close>; reading it from the operating system is not
  modelled.
\<close>

record turn_owner =
  tw_pid :: int
  tw_host :: "string option"
  tw_db :: "string option"
  tw_hostUptime :: "int option"
  tw_processStart :: "string option"
  tw_at :: int

record owner_probe =
  pb_pid :: int
  pb_host :: "string option"
  pb_hostUptime :: "int option"
  pb_isAlive :: "int \<Rightarrow> bool"
  pb_processStartOf :: "int \<Rightarrow> string option"

type_synonym stored_owner = "json option"

definition UPTIME_SLACK_S :: int where
  "UPTIME_SLACK_S = 5"

definition turnOwnerFor :: "owner_probe \<Rightarrow> int \<Rightarrow> string option \<Rightarrow> turn_owner" where
  "turnOwnerFor probe at db =
     \<lparr>tw_pid = pb_pid probe, tw_host = pb_host probe, tw_db = db, tw_hostUptime = pb_hostUptime probe,
      tw_processStart = pb_processStartOf probe (pb_pid probe), tw_at = at\<rparr>"

definition opt_entry :: "string \<Rightarrow> ('a \<Rightarrow> json) \<Rightarrow> 'a option \<Rightarrow> (string \<times> json) list" where
  "opt_entry k f v = (case v of None \<Rightarrow> [] | Some x \<Rightarrow> [(k, f x)])"

definition serializeTurnOwner :: "turn_owner \<Rightarrow> json" where
  "serializeTurnOwner owner =
     JObj ([(''pid'', JNum (tw_pid owner))] @ opt_entry ''host'' JStr (tw_host owner) @
       opt_entry ''db'' JStr (tw_db owner) @ opt_entry ''hostUptime'' JNum (tw_hostUptime owner) @
       opt_entry ''processStart'' JStr (tw_processStart owner) @ [(''at'', JNum (tw_at owner))])"

text \<open>\<open>raw\<close> is the column: \<open>None\<close> is null, \<open>Some None\<close> a text that does not parse.\<close>

definition parseTurnOwner :: "stored_owner option \<Rightarrow> turn_owner option" where
  "parseTurnOwner raw =
     (case raw of
        Some (Some (JObj entries)) \<Rightarrow>
          (case json_field (JObj entries) ''pid'' of
             JNum pid \<Rightarrow>
               if pid \<le> 0 then None
               else Some
                 \<lparr>tw_pid = pid,
                  tw_host = stringField (JObj entries) ''host'',
                  tw_db = stringField (JObj entries) ''db'',
                  tw_hostUptime = (case json_field (JObj entries) ''hostUptime'' of
                      JNum up \<Rightarrow> if up > 0 then Some up else None | _ \<Rightarrow> None),
                  tw_processStart = stringField (JObj entries) ''processStart'',
                  tw_at = (case json_field (JObj entries) ''at'' of JNum at \<Rightarrow> at | _ \<Rightarrow> 0)\<rparr>
           | _ \<Rightarrow> None)
      | _ \<Rightarrow> None)"

definition both_differ :: "'a option \<Rightarrow> 'a option \<Rightarrow> bool" where
  "both_differ x y = (x \<noteq> None \<and> y \<noteq> None \<and> x \<noteq> y)"

definition isTurnOwnerGone :: "stored_owner option \<Rightarrow> owner_probe \<Rightarrow> string option \<Rightarrow> bool" where
  "isTurnOwnerGone raw probe db =
     (case parseTurnOwner raw of
        None \<Rightarrow> True
      | Some owner \<Rightarrow>
          if both_differ (tw_host owner) (pb_host probe) then False
          else if both_differ (tw_db owner) db then True
          else if tw_pid owner = pb_pid probe then True
          else if \<not> pb_isAlive probe (tw_pid owner) then True
          else if (case (tw_hostUptime owner, pb_hostUptime probe) of
                     (Some then_up, Some up) \<Rightarrow> up + UPTIME_SLACK_S < then_up | _ \<Rightarrow> False) then True
          else (case tw_processStart owner of
                  None \<Rightarrow> False
                | Some start \<Rightarrow>
                    (case pb_processStartOf probe (tw_pid owner) of
                       None \<Rightarrow> False | Some now \<Rightarrow> now \<noteq> start)))"

section \<open>Lemmas\<close>

text \<open>What a process writes about itself: positive pid and uptime, no empty strings.\<close>

definition owner_ok :: "turn_owner \<Rightarrow> bool" where
  "owner_ok ow \<longleftrightarrow> 0 < tw_pid ow \<and> tw_host ow \<noteq> Some [] \<and> tw_db ow \<noteq> Some [] \<and>
     tw_processStart ow \<noteq> Some [] \<and> (\<forall>up. tw_hostUptime ow = Some up \<longrightarrow> 0 < up)"

lemma parse_serialize: "owner_ok ow \<Longrightarrow> parseTurnOwner (Some (Some (serializeTurnOwner ow))) = Some ow"
  by (cases "tw_host ow"; cases "tw_db ow"; cases "tw_hostUptime ow"; cases "tw_processStart ow")
     (simp_all add: owner_ok_def parseTurnOwner_def serializeTurnOwner_def opt_entry_def json_field_def
       stringField_def)

definition probe_ok :: "owner_probe \<Rightarrow> bool" where
  "probe_ok probe \<longleftrightarrow> 0 < pb_pid probe \<and> pb_host probe \<noteq> Some [] \<and>
     pb_processStartOf probe (pb_pid probe) \<noteq> Some [] \<and> (\<forall>up. pb_hostUptime probe = Some up \<longrightarrow> 0 < up)"

lemma owner_ok_for: "probe_ok probe \<Longrightarrow> db \<noteq> Some [] \<Longrightarrow> owner_ok (turnOwnerFor probe at db)"
  by (simp add: probe_ok_def owner_ok_def turnOwnerFor_def)

text \<open>A sweep by another live process of the same host never finds a live owner gone.\<close>

definition sees_alive :: "owner_probe \<Rightarrow> owner_probe \<Rightarrow> bool" where
  "sees_alive sweeper owner \<longleftrightarrow>
     pb_pid sweeper \<noteq> pb_pid owner \<and> pb_isAlive sweeper (pb_pid owner) \<and>
     (\<forall>up now. pb_hostUptime owner = Some up \<longrightarrow> pb_hostUptime sweeper = Some now \<longrightarrow> up \<le> now + UPTIME_SLACK_S) \<and>
     (\<forall>s t. pb_processStartOf owner (pb_pid owner) = Some s \<longrightarrow>
        pb_processStartOf sweeper (pb_pid owner) = Some t \<longrightarrow> t = s)"

lemma live_owner_not_gone:
  assumes "probe_ok owner" and "db \<noteq> Some []" and "sees_alive sweeper owner"
  shows "\<not> isTurnOwnerGone (Some (Some (serializeTurnOwner (turnOwnerFor owner at db)))) sweeper db"
  using assms(3)
  unfolding isTurnOwnerGone_def parse_serialize [OF owner_ok_for [OF assms(1,2)]]
  by (auto simp: both_differ_def sees_alive_def turnOwnerFor_def split: option.splits)

lemma own_pid_gone:
  assumes "owner_ok ow" and "tw_pid ow = pb_pid probe" and "\<not> both_differ (tw_host ow) (pb_host probe)"
  shows "isTurnOwnerGone (Some (Some (serializeTurnOwner ow))) probe db"
  using assms(2,3) unfolding isTurnOwnerGone_def parse_serialize [OF assms(1)] by simp

lemma dead_pid_gone:
  assumes "owner_ok ow" and "\<not> pb_isAlive probe (tw_pid ow)" and "\<not> both_differ (tw_host ow) (pb_host probe)"
  shows "isTurnOwnerGone (Some (Some (serializeTurnOwner ow))) probe db"
  using assms(2,3) unfolding isTurnOwnerGone_def parse_serialize [OF assms(1)] by simp

end
