(* ===== verification/Task_Schedule.thy ===== *)
theory Task_Schedule
  imports Fingerprints
begin

text \<open>
  Task schedules: the types of \<open>src/src/tasks/task-types.ts\<close> that the queue shares, and
  \<open>src/src/tasks/task-schedule.ts\<close> and \<open>task-backoff.ts\<close>. Times are milliseconds as integers;
  a number that the code checks with \<open>Number.isFinite\<close> is an \<open>int option\<close>, \<open>None\<close> standing for
  NaN and the infinities (fractions are not represented). \<open>cron\<close> stands for the package
  cron-parser: from an expression, a time zone and a start, either a parse error or the iterator,
  whose \<open>n\<close>-th \<open>next()\<close> is an error or a time.
\<close>

section \<open>Types\<close>

datatype task_status = Pending | Running | Completed | Failed | Blocked | Cancelled

datatype task_schedule =
    At "int option"
  | Cron string "string option"
  | Interval "int option"

datatype task_error =
    TaskValidationError string string
  | TaskStateError task_status task_status string
  | PlainError string

type_synonym cron_iterator = "nat \<Rightarrow> string + int"
type_synonym cron_parser = "string \<Rightarrow> string option \<Rightarrow> int \<Rightarrow> string + cron_iterator"

definition SCHEDULE_INTERVAL_MIN_MS :: int where
  "SCHEDULE_INTERVAL_MIN_MS = 1000"

definition SCHEDULE_AT_MAX_AHEAD_MS :: int where
  "SCHEDULE_AT_MAX_AHEAD_MS = 10 * 365 * 24 * 60 * 60 * 1000"

definition SCHEDULE_CRON_MAX_LENGTH :: nat where
  "SCHEDULE_CRON_MAX_LENGTH = 200"

definition isRecurring :: "task_schedule option \<Rightarrow> bool" where
  "isRecurring schedule =
     (case schedule of None \<Rightarrow> False
      | Some (At at) \<Rightarrow> False | Some (Cron e tz) \<Rightarrow> True | Some (Interval ms) \<Rightarrow> True)"

fun schedule_kind :: "task_schedule \<Rightarrow> string" where
  "schedule_kind (At at) = ''at''"
| "schedule_kind (Cron e tz) = ''cron''"
| "schedule_kind (Interval ms) = ''interval''"

text \<open>\<open>schedule.tz ? { tz } : {}\<close>: an empty zone is dropped.\<close>

definition truthy_tz :: "string option \<Rightarrow> string option" where
  "truthy_tz tz = (case tz of Some (c # cs) \<Rightarrow> Some (c # cs) | _ \<Rightarrow> None)"

section \<open>Validation and resolution\<close>

definition schedule_error :: "string \<Rightarrow> task_error" where
  "schedule_error msg = TaskValidationError ''schedule'' msg"

definition validateSchedule :: "cron_parser \<Rightarrow> task_schedule \<Rightarrow> int \<Rightarrow> task_error option" where
  "validateSchedule cron schedule fromMs =
     (case schedule of
        At None \<Rightarrow> Some (schedule_error ''schedule.at must be a finite number (Unix ms)'')
      | At (Some at) \<Rightarrow>
          if at - fromMs > SCHEDULE_AT_MAX_AHEAD_MS
          then Some (schedule_error (''schedule.at must be within '' @ show_int SCHEDULE_AT_MAX_AHEAD_MS @ '' ms of now''))
          else None
      | Interval None \<Rightarrow> Some (schedule_error ''schedule.everyMs must be a finite integer'')
      | Interval (Some everyMs) \<Rightarrow>
          if everyMs < SCHEDULE_INTERVAL_MIN_MS
          then Some (schedule_error (''schedule.everyMs must be >= '' @ show_int SCHEDULE_INTERVAL_MIN_MS))
          else None
      | Cron expression tz \<Rightarrow>
          if expression = [] then Some (schedule_error ''schedule.expression must be a non-empty string'')
          else if length expression > SCHEDULE_CRON_MAX_LENGTH
          then Some (schedule_error (''schedule.expression must be <= '' @ show_nat SCHEDULE_CRON_MAX_LENGTH @ '' chars''))
          else (case cron expression (truthy_tz tz) fromMs of
                  Inl err \<Rightarrow> Some (schedule_error (''invalid cron expression: '' @ err))
                | Inr it \<Rightarrow> None))"

definition resolveScheduledFor :: "cron_parser \<Rightarrow> task_schedule \<Rightarrow> int \<Rightarrow> task_error + int" where
  "resolveScheduledFor cron schedule fromMs =
     (case validateSchedule cron schedule fromMs of
        Some err \<Rightarrow> Inl err
      | None \<Rightarrow>
          (case schedule of
             At (Some at) \<Rightarrow> Inr at
           | Interval (Some everyMs) \<Rightarrow> Inr (fromMs + everyMs)
           | Cron expression tz \<Rightarrow>
               (case cron expression (truthy_tz tz) fromMs of
                  Inl err \<Rightarrow> Inl (schedule_error (''invalid cron expression: '' @ err))
                | Inr it \<Rightarrow>
                    (case it 0 of
                       Inl err \<Rightarrow> Inl (schedule_error (''invalid cron expression: '' @ err))
                     | Inr next_time \<Rightarrow> Inr next_time))
           | _ \<Rightarrow> Inl (schedule_error [])))"

text \<open>The last branch is not reached: a number that is not finite was rejected above.\<close>

fun interval_firings :: "nat \<Rightarrow> int \<Rightarrow> int \<Rightarrow> int list" where
  "interval_firings 0 everyMs cursor = []"
| "interval_firings (Suc n) everyMs cursor =
     (cursor + everyMs) # interval_firings n everyMs (cursor + everyMs)"

fun cron_firings :: "cron_iterator \<Rightarrow> nat \<Rightarrow> nat \<Rightarrow> int list option" where
  "cron_firings it i 0 = Some []"
| "cron_firings it i (Suc n) =
     (case it i of Inl err \<Rightarrow> None
      | Inr t \<Rightarrow> (case cron_firings it (Suc i) n of None \<Rightarrow> None | Some ts \<Rightarrow> Some (t # ts)))"

definition peekNextFirings :: "cron_parser \<Rightarrow> task_schedule \<Rightarrow> int \<Rightarrow> int \<Rightarrow> int list" where
  "peekNextFirings cron schedule fromMs wanted =
     (if wanted \<le> 0 then []
      else if validateSchedule cron schedule fromMs \<noteq> None then []
      else (case schedule of
              At (Some at) \<Rightarrow> [at]
            | Interval (Some everyMs) \<Rightarrow> interval_firings (nat wanted) everyMs fromMs
            | Cron expression tz \<Rightarrow>
                (case cron expression (truthy_tz tz) fromMs of
                   Inl err \<Rightarrow> []
                 | Inr it \<Rightarrow> (case cron_firings it 0 (nat wanted) of None \<Rightarrow> [] | Some ts \<Rightarrow> ts))
            | _ \<Rightarrow> []))"

section \<open>Rows\<close>

text \<open>\<open>JSON.stringify\<close> writes null for a number that is not finite, and \<open>Number(null)\<close> is 0.\<close>

definition json_number :: "int option \<Rightarrow> json" where
  "json_number n = (case n of None \<Rightarrow> JNull | Some i \<Rightarrow> JNum i)"

definition serializeScheduleValue :: "task_schedule \<Rightarrow> json" where
  "serializeScheduleValue schedule =
     (case schedule of
        At at \<Rightarrow> JObj [(''at'', json_number at)]
      | Interval everyMs \<Rightarrow> JObj [(''everyMs'', json_number everyMs)]
      | Cron expression tz \<Rightarrow>
          JObj ([(''expression'', JStr expression)] @
                (case truthy_tz tz of None \<Rightarrow> [] | Some z \<Rightarrow> [(''tz'', JStr z)])))"

text \<open>\<open>Number(v)\<close> on the values a row can hold; a string or an object reads as NaN here.\<close>

definition js_Number :: "json \<Rightarrow> int option" where
  "js_Number v = (case v of JNum i \<Rightarrow> Some i | JNull \<Rightarrow> Some 0 | JBool b \<Rightarrow> Some (if b then 1 else 0) | _ \<Rightarrow> None)"

text \<open>\<open>String(v)\<close> is an argument outside strings: only a hand-edited row has another value there.\<close>

definition js_String :: "(json \<Rightarrow> string) \<Rightarrow> json \<Rightarrow> string" where
  "js_String show_json v = (case v of JStr s \<Rightarrow> s | _ \<Rightarrow> show_json v)"

definition parseScheduleRow :: "(json \<Rightarrow> string) \<Rightarrow> string option \<Rightarrow> json option \<Rightarrow> task_schedule option" where
  "parseScheduleRow show_json kind val =
     (case (kind, val) of
        (Some k, Some body) \<Rightarrow>
          if k = ''at'' then Some (At (js_Number (json_field body ''at'')))
          else if k = ''interval'' then Some (Interval (js_Number (json_field body ''everyMs'')))
          else if k = ''cron'' then
            Some (Cron (js_String show_json (json_field body ''expression''))
              (case json_field body ''tz'' of JStr z \<Rightarrow> Some z | _ \<Rightarrow> None))
          else None
      | _ \<Rightarrow> None)"

section \<open>Backoff\<close>

definition nextDelayMs :: "int option \<Rightarrow> int \<Rightarrow> int \<Rightarrow> int" where
  "nextDelayMs attempt initialMs maxMs =
     (case attempt of
        None \<Rightarrow> 0
      | Some a \<Rightarrow>
          if a < 1 then 0
          else if initialMs \<le> 0 then 0
          else if maxMs \<le> 0 then 0
          else min (initialMs * 2 ^ nat (min (a - 1) 30)) maxMs)"

text \<open>The guard on a raw delay that is not finite never fires: integers do not overflow to infinity
  below the cap of 30 doublings for any delay a configuration can hold.\<close>

section \<open>Lemmas\<close>

lemma resolve_valid: "validateSchedule cron schedule from = Some err \<Longrightarrow> resolveScheduledFor cron schedule from = Inl err"
  by (simp add: resolveScheduledFor_def)

lemma resolve_interval:
  "resolveScheduledFor cron (Interval ms) from =
     (case ms of None \<Rightarrow> Inl (schedule_error ''schedule.everyMs must be a finite integer'')
      | Some e \<Rightarrow> if e < 1000
          then Inl (schedule_error (''schedule.everyMs must be >= '' @ show_int SCHEDULE_INTERVAL_MIN_MS))
          else Inr (from + e))"
  by (simp add: resolveScheduledFor_def validateSchedule_def SCHEDULE_INTERVAL_MIN_MS_def split: option.splits)

lemma interval_firings_nth: "i < n \<Longrightarrow> interval_firings n e c ! i = c + (int i + 1) * e"
proof (induction n arbitrary: i c)
  case (Suc n)
  then show ?case by (cases i) (auto simp: algebra_simps)
qed simp

lemma interval_firings_length [simp]: "length (interval_firings n e c) = n"
  by (induction n arbitrary: c) auto

lemma cron_firings_nth: "cron_firings it j n = Some ts \<Longrightarrow> length ts = n \<and> (\<forall>i < n. it (j + i) = Inr (ts ! i))"
proof (induction n arbitrary: j ts)
  case (Suc n)
  from Suc.prems obtain t ts' where t: "it j = Inr t" and r: "cron_firings it (Suc j) n = Some ts'" "ts = t # ts'"
    by (auto split: sum.splits option.splits)
  show ?case
  proof (intro conjI allI impI)
    show "length ts = Suc n" using Suc.IH [OF r(1)] r(2) by simp
    fix i assume "i < Suc n"
    then show "it (j + i) = Inr (ts ! i)"
      using Suc.IH [OF r(1)] r(2) t by (cases i) auto
  qed
qed simp

text \<open>Schedules that survive the trip through a row: numbers are finite and a zone is not empty.\<close>

definition schedule_ok :: "task_schedule \<Rightarrow> bool" where
  "schedule_ok s = (case s of At at \<Rightarrow> at \<noteq> None | Interval ms \<Rightarrow> ms \<noteq> None | Cron e tz \<Rightarrow> tz \<noteq> Some [])"

lemma schedule_row_roundtrip:
  "schedule_ok s \<Longrightarrow> parseScheduleRow show_json (Some (schedule_kind s)) (Some (serializeScheduleValue s)) = Some s"
  by (cases s)
     (auto simp: schedule_ok_def parseScheduleRow_def serializeScheduleValue_def json_number_def js_Number_def
       js_String_def json_field_def truthy_tz_def split: option.splits list.splits)

lemma recurring_kind: "isRecurring (Some s) \<longleftrightarrow> schedule_kind s = ''cron'' \<or> schedule_kind s = ''interval''"
  by (cases s) (simp_all add: isRecurring_def)

end
