(* ===== verification/Task_Store.thy ===== *)
theory Task_Store
  imports Turn_Owner Task_Schedule Fallback_Chain "HOL-Library.Option_ord"
begin

text \<open>
  The durable task queue, \<open>src/src/tasks/task-store.ts\<close>. The table is the list of its rows in
  insertion order with distinct ids; every prepared statement is a definition with the
  statement's \<open>WHERE\<close> clause as its guard, and a method is the statement with the code around it.
  \<open>ORDER BY\<close> is a stable sort (SQLite leaves ties open). What a process brings to the table is
  \<open>store_config\<close>: whether the file has the owner column, the probe, the file's identity. An
  exception is the left side of a sum. Statements of one process are synchronous, so a method is
  one atomic step on the shared table.
\<close>

section \<open>Rows and records\<close>

datatype task_origin = OriginCli | OriginTui | OriginHttp | OriginSidecar | OriginScheduler | OriginAgent
datatype trigger_source = TriggerUser | TriggerScheduler | TriggerWebhook | TriggerAgent
datatype notify_target = Telegram

record task_row =
  rw_id :: string
  rw_session_id :: "string option"
  rw_user_message :: string
  rw_max_steps :: "int option"
  rw_status :: task_status
  rw_origin :: task_origin
  rw_attempts :: int
  rw_max_attempts :: int
  rw_last_error :: "string option"
  rw_last_error_cat :: "failure_category option"
  rw_created_at :: int
  rw_updated_at :: int
  rw_started_at :: "int option"
  rw_completed_at :: "int option"
  rw_schedule_kind :: "string option"
  rw_schedule_value :: "json option"
  rw_scheduled_for :: "int option"
  rw_recurring :: bool
  rw_last_scheduled_at :: "int option"
  rw_trigger_source :: "trigger_source option"
  rw_notify :: "string option"
  rw_run_owner :: "stored_owner option"

record task_record =
  tk_id :: string
  tk_sessionId :: "string option"
  tk_userMessage :: string
  tk_maxSteps :: "int option"
  tk_status :: task_status
  tk_origin :: task_origin
  tk_attempts :: int
  tk_maxAttempts :: int
  tk_lastError :: "string option"
  tk_lastErrorCategory :: "failure_category option"
  tk_createdAt :: int
  tk_updatedAt :: int
  tk_startedAt :: "int option"
  tk_completedAt :: "int option"
  tk_schedule :: "task_schedule option"
  tk_scheduledFor :: "int option"
  tk_recurring :: bool
  tk_lastScheduledAt :: "int option"
  tk_triggerSource :: "trigger_source option"
  tk_notify :: "notify_target option"

record task_create_input =
  ci_sessionId :: "string option"
  ci_userMessage :: string
  ci_origin :: task_origin
  ci_maxAttempts :: "int option"
  ci_maxSteps :: "int option option"
  ci_schedule :: "task_schedule option"
  ci_scheduledFor :: "int option option"
  ci_triggerSource :: "trigger_source option"
  ci_notify :: "string option"
  ci_id :: "string option"

text \<open>\<open>ci_maxAttempts\<close> and the inner \<open>ci_maxSteps\<close> are \<open>None\<close> for a number that is not an integer;
  \<open>ci_scheduledFor\<close> is \<open>None\<close> when omitted and \<open>Some None\<close> for null.\<close>

record failure_input =
  fi_category :: failure_category
  fi_message :: string

record store_config =
  sc_owners :: bool
  sc_probe :: owner_probe
  sc_db :: "string option"
  sc_String :: "json \<Rightarrow> string"

type_synonym table = "task_row list"

definition TASK_USER_MESSAGE_MAX_LENGTH :: nat where
  "TASK_USER_MESSAGE_MAX_LENGTH = 16000"

definition TASK_LAST_ERROR_MAX_LENGTH :: nat where
  "TASK_LAST_ERROR_MAX_LENGTH = 2000"

definition TASK_INTERRUPTED_ERROR :: string where
  "TASK_INTERRUPTED_ERROR = ''interrupted: the run was stopped before it ended''"

definition TASK_OWNER_GONE_ERROR :: string where
  "TASK_OWNER_GONE_ERROR = ''interrupted: the agent running it stopped''"

definition TERMINAL_STATUSES :: "task_status set" where
  "TERMINAL_STATUSES = {Completed, Failed, Blocked, Cancelled}"

definition normalizeNotify :: "string option \<Rightarrow> notify_target option" where
  "normalizeNotify raw = (if raw = Some ''telegram'' then Some Telegram else None)"

definition notify_text :: "notify_target option \<Rightarrow> string option" where
  "notify_text n = map_option (\<lambda>t. ''telegram'') n"

definition rowToRecord :: "store_config \<Rightarrow> task_row \<Rightarrow> task_record" where
  "rowToRecord cfg row =
     \<lparr>tk_id = rw_id row, tk_sessionId = rw_session_id row, tk_userMessage = rw_user_message row,
      tk_maxSteps = rw_max_steps row, tk_status = rw_status row, tk_origin = rw_origin row,
      tk_attempts = rw_attempts row, tk_maxAttempts = rw_max_attempts row, tk_lastError = rw_last_error row,
      tk_lastErrorCategory = rw_last_error_cat row, tk_createdAt = rw_created_at row,
      tk_updatedAt = rw_updated_at row, tk_startedAt = rw_started_at row, tk_completedAt = rw_completed_at row,
      tk_schedule = parseScheduleRow (sc_String cfg) (rw_schedule_kind row) (rw_schedule_value row),
      tk_scheduledFor = rw_scheduled_for row, tk_recurring = rw_recurring row,
      tk_lastScheduledAt = rw_last_scheduled_at row, tk_triggerSource = rw_trigger_source row,
      tk_notify = normalizeNotify (rw_notify row)\<rparr>"

definition recordToRow :: "task_record \<Rightarrow> task_row" where
  "recordToRow r =
     \<lparr>rw_id = tk_id r, rw_session_id = tk_sessionId r, rw_user_message = tk_userMessage r,
      rw_max_steps = tk_maxSteps r, rw_status = tk_status r, rw_origin = tk_origin r,
      rw_attempts = tk_attempts r, rw_max_attempts = tk_maxAttempts r, rw_last_error = tk_lastError r,
      rw_last_error_cat = tk_lastErrorCategory r, rw_created_at = tk_createdAt r,
      rw_updated_at = tk_updatedAt r, rw_started_at = tk_startedAt r, rw_completed_at = tk_completedAt r,
      rw_schedule_kind = map_option schedule_kind (tk_schedule r),
      rw_schedule_value = map_option serializeScheduleValue (tk_schedule r),
      rw_scheduled_for = tk_scheduledFor r, rw_recurring = tk_recurring r,
      rw_last_scheduled_at = tk_lastScheduledAt r, rw_trigger_source = tk_triggerSource r,
      rw_notify = notify_text (tk_notify r), rw_run_owner = None\<rparr>"

definition unclaimed :: "task_record \<Rightarrow> task_record" where
  "unclaimed r =
     (if tk_status r \<noteq> Running then r
      else r\<lparr>tk_status := Pending, tk_startedAt := None,
             tk_lastError := (case tk_lastError r of None \<Rightarrow> Some TASK_OWNER_GONE_ERROR | e \<Rightarrow> e),
             tk_lastErrorCategory := (case tk_lastErrorCategory r of None \<Rightarrow> Some TransportFailure | c \<Rightarrow> c)\<rparr>)"

section \<open>Validation\<close>

definition validateSessionId :: "string option \<Rightarrow> task_error + string option" where
  "validateSessionId raw =
     (case raw of None \<Rightarrow> Inr None
      | Some s \<Rightarrow> if js_trim s = [] then Inl (TaskValidationError ''sessionId'' ''sessionId must be non-empty when provided'')
                  else Inr (Some (js_trim s)))"

definition validateUserMessage :: "string \<Rightarrow> task_error + string" where
  "validateUserMessage raw =
     (if raw = [] then Inl (TaskValidationError ''userMessage'' ''userMessage must be non-empty'')
      else if length raw > TASK_USER_MESSAGE_MAX_LENGTH
      then Inl (TaskValidationError ''userMessage''
             (''userMessage must be at most '' @ show_nat TASK_USER_MESSAGE_MAX_LENGTH @ '' chars''))
      else Inr raw)"

definition show_number :: "int option \<Rightarrow> string" where
  "show_number n = (case n of None \<Rightarrow> ''null'' | Some i \<Rightarrow> show_int i)"

definition positive_integer :: "string \<Rightarrow> int option \<Rightarrow> task_error + int" where
  "positive_integer field raw =
     (case raw of
        Some n \<Rightarrow> if n \<le> 0 then Inl (TaskValidationError field (field @ '' must be a positive integer, got '' @ show_number raw))
                  else Inr n
      | None \<Rightarrow> Inl (TaskValidationError field (field @ '' must be a positive integer, got '' @ show_number raw)))"

definition validateMaxAttempts :: "int option \<Rightarrow> task_error + int" where
  "validateMaxAttempts raw = positive_integer ''maxAttempts'' raw"

definition validateMaxSteps :: "int option option \<Rightarrow> task_error + int option" where
  "validateMaxSteps raw =
     (case raw of None \<Rightarrow> Inr None
      | Some n \<Rightarrow> (case positive_integer ''maxSteps'' n of Inl err \<Rightarrow> Inl err | Inr i \<Rightarrow> Inr (Some i)))"

definition validateNotify :: "string option \<Rightarrow> task_error + string option" where
  "validateNotify raw =
     (case raw of None \<Rightarrow> Inr None
      | Some s \<Rightarrow> if s \<noteq> ''telegram'' then Inl (TaskValidationError ''notify'' ''notify must be one of: telegram'')
                  else Inr (Some s))"

definition truncateError :: "string \<Rightarrow> string" where
  "truncateError message =
     (if length message \<le> TASK_LAST_ERROR_MAX_LENGTH then message
      else take (TASK_LAST_ERROR_MAX_LENGTH - 1) message @ [ELLIPSIS])"

section \<open>Statements\<close>

text \<open>Two messages of plain errors are cut before their dash.\<close>

definition find_row :: "string \<Rightarrow> table \<Rightarrow> task_row option" where
  "find_row i rows = find (\<lambda>r. rw_id r = i) rows"

definition update_where :: "(task_row \<Rightarrow> bool) \<Rightarrow> (task_row \<Rightarrow> task_row) \<Rightarrow> table \<Rightarrow> table \<times> nat" where
  "update_where P f rows = (map (\<lambda>r. if P r then f r else r) rows, length (filter P rows))"

text \<open>Every update below names the row by its id; the guard is the rest of its \<open>WHERE\<close> clause.\<close>

definition update_id :: "string \<Rightarrow> (task_row \<Rightarrow> bool) \<Rightarrow> (task_row \<Rightarrow> task_row) \<Rightarrow> table \<Rightarrow> table \<times> nat" where
  "update_id i G f rows = update_where (\<lambda>r. rw_id r = i \<and> G r) f rows"

definition sql_limit :: "int \<Rightarrow> 'a list \<Rightarrow> 'a list" where
  "sql_limit n xs = (if n < 0 then xs else take (nat n) xs)"

definition get_task :: "store_config \<Rightarrow> string \<Rightarrow> table \<Rightarrow> task_record option" where
  "get_task cfg i rows = map_option (rowToRecord cfg) (find_row i rows)"

definition requireRecord :: "store_config \<Rightarrow> string \<Rightarrow> table \<Rightarrow> task_error + task_record" where
  "requireRecord cfg i rows =
     (case get_task cfg i rows of
        None \<Rightarrow> Inl (PlainError (''task '' @ i @ '' disappeared between write and re-read''))
      | Some r \<Rightarrow> Inr r)"

definition transitionError :: "store_config \<Rightarrow> string \<Rightarrow> task_status \<Rightarrow> table \<Rightarrow> task_error" where
  "transitionError cfg i to rows =
     TaskStateError (case get_task cfg i rows of None \<Rightarrow> Cancelled | Some r \<Rightarrow> tk_status r) to i"

text \<open>An update that must hit a row: \<open>changes === 0\<close> throws.\<close>

definition must_change :: "store_config \<Rightarrow> string \<Rightarrow> task_error \<Rightarrow> table \<times> nat \<Rightarrow> table \<times> (task_error + task_record)" where
  "must_change cfg i err result =
     (if snd result = 0 then (fst result, Inl err) else (fst result, requireRecord cfg i (fst result)))"

definition insert_row :: "task_row \<Rightarrow> table \<Rightarrow> table \<times> nat" where
  "insert_row row rows = (if find_row (rw_id row) rows = None then (rows @ [row], 1) else (rows, 0))"

definition create_row :: "task_create_input \<Rightarrow> string \<Rightarrow> int \<Rightarrow> task_error + task_row" where
  "create_row input fresh now =
     (case validateSessionId (ci_sessionId input) of Inl err \<Rightarrow> Inl err | Inr sessionId \<Rightarrow>
      (case validateUserMessage (ci_userMessage input) of Inl err \<Rightarrow> Inl err | Inr userMessage \<Rightarrow>
      (case validateMaxAttempts (ci_maxAttempts input) of Inl err \<Rightarrow> Inl err | Inr maxAttempts \<Rightarrow>
      (case validateMaxSteps (ci_maxSteps input) of Inl err \<Rightarrow> Inl err | Inr maxSteps \<Rightarrow>
      (case validateNotify (ci_notify input) of Inl err \<Rightarrow> Inl err | Inr notify \<Rightarrow>
         let schedule = ci_schedule input;
             scheduledFor = (case ci_scheduledFor input of None \<Rightarrow> None | Some s \<Rightarrow> s)
         in Inr \<lparr>rw_id = (case ci_id input of None \<Rightarrow> fresh | Some i \<Rightarrow> i), rw_session_id = sessionId,
                 rw_user_message = userMessage, rw_max_steps = maxSteps, rw_status = Pending,
                 rw_origin = ci_origin input, rw_attempts = 0, rw_max_attempts = maxAttempts,
                 rw_last_error = None, rw_last_error_cat = None, rw_created_at = now, rw_updated_at = now,
                 rw_started_at = None, rw_completed_at = None,
                 rw_schedule_kind = map_option schedule_kind schedule,
                 rw_schedule_value = map_option serializeScheduleValue schedule,
                 rw_scheduled_for = scheduledFor, rw_recurring = isRecurring schedule,
                 rw_last_scheduled_at = (if scheduledFor = None then None else Some now),
                 rw_trigger_source = ci_triggerSource input, rw_notify = notify, rw_run_owner = None\<rparr>)))))"

definition create_task ::
  "store_config \<Rightarrow> task_create_input \<Rightarrow> string \<Rightarrow> int \<Rightarrow> table \<Rightarrow> table \<times> (task_error + task_record)" where
  "create_task cfg input fresh now rows =
     (case create_row input fresh now of
        Inl err \<Rightarrow> (rows, Inl err)
      | Inr row \<Rightarrow>
          if find_row (rw_id row) rows \<noteq> None
          then (rows, Inl (PlainError ''UNIQUE constraint failed: tasks.id''))
          else (rows @ [row], Inr (rowToRecord cfg row)))"

fun insertMissing :: "task_record list \<Rightarrow> table \<Rightarrow> table \<times> string list" where
  "insertMissing [] rows = (rows, [])"
| "insertMissing (r # rs) rows =
     (let (rows1, changes) = insert_row (recordToRow (unclaimed r)) rows;
          (rows2, inserted) = insertMissing rs rows1
      in (rows2, if changes > 0 then tk_id r # inserted else inserted))"

definition list_tasks ::
  "store_config \<Rightarrow> string option \<Rightarrow> task_status list option \<Rightarrow> int option \<Rightarrow> table \<Rightarrow> task_record list" where
  "list_tasks cfg sessionId status limit rows =
     (let n = (case limit of None \<Rightarrow> 100 | Some l \<Rightarrow> l);
          newest = sort_key (\<lambda>r. - rw_created_at r);
          found = sql_limit n
            (if sessionId \<noteq> None \<and> sessionId \<noteq> Some [] then newest (filter (\<lambda>r. rw_session_id r = sessionId) rows)
             else newest rows)
      in map (rowToRecord cfg)
           (case status of None \<Rightarrow> found | Some allowed \<Rightarrow> filter (\<lambda>r. rw_status r \<in> set allowed) found))"

definition listPending :: "store_config \<Rightarrow> string option \<Rightarrow> int option \<Rightarrow> table \<Rightarrow> task_record list" where
  "listPending cfg sessionId limit rows =
     (let n = (case limit of None \<Rightarrow> 100 | Some l \<Rightarrow> l);
          pending = filter (\<lambda>r. rw_status r = Pending) rows
      in map (rowToRecord cfg)
           (sql_limit n
             (if sessionId \<noteq> None \<and> sessionId \<noteq> Some []
              then sort_key rw_created_at (filter (\<lambda>r. rw_session_id r = sessionId) pending)
              else sort_key rw_created_at pending)))"

definition is_due :: "int \<Rightarrow> task_row \<Rightarrow> bool" where
  "is_due now r = (rw_status r = Pending \<and> (case rw_scheduled_for r of None \<Rightarrow> True | Some t \<Rightarrow> t \<le> now))"

text \<open>NULL sorts first in SQLite, as \<open>None\<close> does in the order on options.\<close>

definition listDue :: "store_config \<Rightarrow> int \<Rightarrow> int \<Rightarrow> table \<Rightarrow> task_record list" where
  "listDue cfg now limit rows =
     map (rowToRecord cfg)
       (sql_limit limit (sort_key rw_scheduled_for (sort_key rw_created_at (filter (is_due now) rows))))"

definition claim_owner :: "store_config \<Rightarrow> int \<Rightarrow> stored_owner option" where
  "claim_owner cfg now = Some (Some (serializeTurnOwner (turnOwnerFor (sc_probe cfg) now (sc_db cfg))))"

definition claimed_row :: "store_config \<Rightarrow> int \<Rightarrow> task_row \<Rightarrow> task_row" where
  "claimed_row cfg now r =
     r\<lparr>rw_status := Running, rw_attempts := rw_attempts r + 1, rw_started_at := Some now,
       rw_updated_at := now, rw_last_error := None, rw_last_error_cat := None,
       rw_run_owner := (if sc_owners cfg then claim_owner cfg now else rw_run_owner r)\<rparr>"

definition markRunning :: "store_config \<Rightarrow> string \<Rightarrow> int \<Rightarrow> table \<Rightarrow> table \<times> task_record option" where
  "markRunning cfg i now rows =
     (let (rows', changes) = update_id i (\<lambda>r. rw_status r = Pending) (claimed_row cfg now) rows
      in (rows', if changes = 0 then None else get_task cfg i rows'))"

definition completed_row :: "int \<Rightarrow> task_row \<Rightarrow> task_row" where
  "completed_row now r =
     r\<lparr>rw_status := Completed, rw_completed_at := Some now, rw_updated_at := now,
       rw_last_error := None, rw_last_error_cat := None\<rparr>"

definition markCompleted :: "store_config \<Rightarrow> string \<Rightarrow> int \<Rightarrow> table \<Rightarrow> table \<times> (task_error + task_record)" where
  "markCompleted cfg i now rows =
     must_change cfg i (transitionError cfg i Completed rows)
       (update_id i (\<lambda>r. rw_status r = Running) (completed_row now) rows)"

text \<open>The row of \<open>markFailed\<close> and \<open>markBlocked\<close>.\<close>

definition ended_row :: "task_status \<Rightarrow> failure_input \<Rightarrow> int \<Rightarrow> task_row \<Rightarrow> task_row" where
  "ended_row status failure now r =
     r\<lparr>rw_status := status, rw_completed_at := Some now, rw_updated_at := now,
       rw_last_error := Some (truncateError (fi_message failure)),
       rw_last_error_cat := Some (fi_category failure)\<rparr>"

definition markFailed ::
  "store_config \<Rightarrow> string \<Rightarrow> failure_input \<Rightarrow> int \<Rightarrow> table \<Rightarrow> table \<times> (task_error + task_record)" where
  "markFailed cfg i failure now rows =
     must_change cfg i (transitionError cfg i Failed rows)
       (update_id i (\<lambda>r. rw_status r = Running) (ended_row Failed failure now) rows)"

definition retried_row :: "failure_input \<Rightarrow> int \<Rightarrow> task_row \<Rightarrow> task_row" where
  "retried_row failure now r =
     r\<lparr>rw_status := Pending, rw_updated_at := now, rw_started_at := None,
       rw_last_error := Some (truncateError (fi_message failure)),
       rw_last_error_cat := Some (fi_category failure)\<rparr>"

definition markRetry ::
  "store_config \<Rightarrow> string \<Rightarrow> failure_input \<Rightarrow> int \<Rightarrow> table \<Rightarrow> table \<times> (task_error + task_record)" where
  "markRetry cfg i failure now rows =
     must_change cfg i (transitionError cfg i Pending rows)
       (update_id i (\<lambda>r. rw_status r = Running) (retried_row failure now) rows)"

definition markBlocked ::
  "store_config \<Rightarrow> string \<Rightarrow> failure_input \<Rightarrow> int \<Rightarrow> table \<Rightarrow> table \<times> (task_error + task_record)" where
  "markBlocked cfg i failure now rows =
     must_change cfg i (transitionError cfg i Blocked rows)
       (update_id i (\<lambda>r. rw_status r = Running \<or> rw_status r = Pending) (ended_row Blocked failure now) rows)"

definition cancelled_row :: "int \<Rightarrow> task_row \<Rightarrow> task_row" where
  "cancelled_row now r = r\<lparr>rw_status := Cancelled, rw_completed_at := Some now, rw_updated_at := now\<rparr>"

definition cancel_task ::
  "store_config \<Rightarrow> string \<Rightarrow> int \<Rightarrow> table \<Rightarrow> table \<times> (task_error + task_record option)" where
  "cancel_task cfg i now rows =
     (case get_task cfg i rows of
        None \<Rightarrow> (rows, Inr None)
      | Some existing \<Rightarrow>
          if tk_status existing \<in> TERMINAL_STATUSES then (rows, Inr (Some existing))
          else let rows' = fst (update_id i (\<lambda>r. rw_status r = Pending \<or> rw_status r = Running) (cancelled_row now) rows)
               in (rows', case requireRecord cfg i rows' of Inl err \<Rightarrow> Inl err | Inr r \<Rightarrow> Inr (Some r)))"

definition interrupted_row :: "int option \<Rightarrow> int \<Rightarrow> task_row \<Rightarrow> task_row" where
  "interrupted_row nextScheduledFor now r =
     r\<lparr>rw_status := Pending,
       rw_attempts := (case nextScheduledFor of None \<Rightarrow> rw_attempts r | Some t \<Rightarrow> 0),
       rw_started_at := None,
       rw_scheduled_for := (case nextScheduledFor of None \<Rightarrow> rw_scheduled_for r | Some t \<Rightarrow> Some t),
       rw_last_scheduled_at := (case nextScheduledFor of None \<Rightarrow> rw_last_scheduled_at r | Some t \<Rightarrow> Some now),
       rw_updated_at := now, rw_last_error := Some TASK_INTERRUPTED_ERROR,
       rw_last_error_cat := Some CancelledFailure\<rparr>"

definition markInterrupted ::
  "store_config \<Rightarrow> string \<Rightarrow> int option \<Rightarrow> int \<Rightarrow> table \<Rightarrow> table \<times> task_record option" where
  "markInterrupted cfg i nextScheduledFor now rows =
     (let (rows', changes) = update_id i (\<lambda>r. rw_status r = Running) (interrupted_row nextScheduledFor now) rows
      in (rows', if changes = 0 then None else get_task cfg i rows'))"

text \<open>The verdict of the boot sweep on one running row.\<close>

definition owns_this_run :: "task_row \<Rightarrow> bool" where
  "owns_this_run r =
     (case parseTurnOwner (rw_run_owner r) of
        None \<Rightarrow> False | Some owner \<Rightarrow> rw_started_at r \<noteq> None \<and> rw_started_at r = Some (tw_at owner))"

text \<open>A table without the owner column reads as \<open>NULL AS run_owner\<close>.\<close>

definition sweep_view :: "store_config \<Rightarrow> task_row \<Rightarrow> task_row" where
  "sweep_view cfg r = (if sc_owners cfg then r else r\<lparr>rw_run_owner := None\<rparr>)"

definition run_gone :: "store_config \<Rightarrow> int \<Rightarrow> int \<Rightarrow> task_row \<Rightarrow> bool" where
  "run_gone cfg staleAfterMs now row =
     (let r = sweep_view cfg row
      in if owns_this_run r then isTurnOwnerGone (rw_run_owner r) (sc_probe cfg) (sc_db cfg)
         else (case rw_started_at r of None \<Rightarrow> False | Some t \<Rightarrow> t < now - staleAfterMs))"

definition recover_row :: "string \<Rightarrow> int \<Rightarrow> task_row \<Rightarrow> task_row" where
  "recover_row err now r =
     r\<lparr>rw_status := Pending, rw_updated_at := now, rw_started_at := None,
       rw_last_error := (case rw_last_error r of None \<Rightarrow> Some err | e \<Rightarrow> e),
       rw_last_error_cat := (case rw_last_error_cat r of None \<Rightarrow> Some TransportFailure | c \<Rightarrow> c)\<rparr>"

fun sweep_rows :: "store_config \<Rightarrow> int \<Rightarrow> int \<Rightarrow> task_row list \<Rightarrow> table \<Rightarrow> table \<times> string list" where
  "sweep_rows cfg staleAfterMs now [] rows = (rows, [])"
| "sweep_rows cfg staleAfterMs now (row # rest) rows =
     (if \<not> run_gone cfg staleAfterMs now row then sweep_rows cfg staleAfterMs now rest rows
      else let (rows1, changes) = update_id (rw_id row)
                 (\<lambda>r. rw_status r = Running \<and> rw_started_at r = rw_started_at row)
                 (recover_row (if owns_this_run (sweep_view cfg row) then TASK_OWNER_GONE_ERROR
                               else ''recovered from stale running'') now) rows;
               (rows2, recovered) = sweep_rows cfg staleAfterMs now rest rows1
           in (rows2, if changes > 0 then rw_id row # recovered else recovered))"

definition recoverInterrupted :: "store_config \<Rightarrow> int \<Rightarrow> int \<Rightarrow> table \<Rightarrow> table \<times> string list" where
  "recoverInterrupted cfg staleAfterMs now rows =
     sweep_rows cfg staleAfterMs now (filter (\<lambda>r. rw_status r = Running) rows) rows"

definition requeued_row :: "int \<Rightarrow> int \<Rightarrow> task_row \<Rightarrow> task_row" where
  "requeued_row nextScheduledFor now r =
     r\<lparr>rw_status := Pending, rw_attempts := 0, rw_last_error := None, rw_last_error_cat := None,
       rw_started_at := None, rw_completed_at := None, rw_scheduled_for := Some nextScheduledFor,
       rw_last_scheduled_at := Some now, rw_updated_at := now\<rparr>"

definition requeueRecurring ::
  "store_config \<Rightarrow> string \<Rightarrow> int \<Rightarrow> int \<Rightarrow> table \<Rightarrow> table \<times> (task_error + task_record)" where
  "requeueRecurring cfg i nextScheduledFor now rows =
     must_change cfg i (PlainError (''task '' @ i @ '': cannot requeueRecurring''))
       (update_id i (\<lambda>r. rw_recurring r) (requeued_row nextScheduledFor now) rows)"

definition session_row :: "string \<Rightarrow> int \<Rightarrow> task_row \<Rightarrow> task_row" where
  "session_row sessionId now r = r\<lparr>rw_session_id := Some sessionId, rw_updated_at := now\<rparr>"

definition assignSession ::
  "store_config \<Rightarrow> string \<Rightarrow> string \<Rightarrow> int \<Rightarrow> table \<Rightarrow> table \<times> (task_error + task_record)" where
  "assignSession cfg i sessionId now rows =
     must_change cfg i (PlainError (''task '' @ i @ '': cannot assignSession''))
       (update_id i (\<lambda>r. True) (session_row sessionId now) rows)"

end
