(* ===== verification/Task_Runner.thy ===== *)
theory Task_Runner
  imports Task_Store
begin

text \<open>
  The runner of the task queue, \<open>src/src/tasks/task-runner.ts\<close>, with the report of
  \<open>task-report.ts\<close>. \<open>runOne\<close> waits for a turn in its middle, and anything may happen to the queue
  meanwhile, so it is two atomic steps: \<open>startRun\<close> (up to the call of \<open>runTurn\<close>) and \<open>finishRun\<close>
  (from its outcome on). The clock is read once per step. What a turn does is its outcome: an
  error with the category \<open>classifyFailure\<close> gives it, or a result with the events seen by the report
  hook. Sessions are ids: the loader knows those of \<open>rs_sessions\<close>, the factory adds a fresh one.
  Metrics and logs are left out.
\<close>

section \<open>Reports\<close>

record task_report =
  rp_taskId :: string
  rp_status :: task_status
  rp_userMessage :: string
  rp_scheduleKind :: "string option"
  rp_attempts :: int
  rp_maxAttempts :: int
  rp_durationMs :: "int option"
  rp_replyText :: "string option"
  rp_errorMessage :: "string option"
  rp_errorCategory :: "failure_category option"

definition isReportableStatus :: "task_status \<Rightarrow> bool" where
  "isReportableStatus status = (status = Completed \<or> status = Failed \<or> status = Blocked)"

definition buildTaskReport :: "task_record \<Rightarrow> task_status \<Rightarrow> string option \<Rightarrow> task_report" where
  "buildTaskReport task status replyText =
     \<lparr>rp_taskId = tk_id task, rp_status = status, rp_userMessage = tk_userMessage task,
      rp_scheduleKind = map_option schedule_kind (tk_schedule task), rp_attempts = tk_attempts task,
      rp_maxAttempts = tk_maxAttempts task,
      rp_durationMs = (case (tk_completedAt task, tk_startedAt task) of (Some c, Some s) \<Rightarrow> Some (c - s) | _ \<Rightarrow> None),
      rp_replyText = replyText, rp_errorMessage = tk_lastError task, rp_errorCategory = tk_lastErrorCategory task\<rparr>"

section \<open>State\<close>

record runner_config =
  ro_store :: store_config
  ro_cron :: cron_parser
  ro_factory :: bool
  ro_sink :: bool
  ro_enabled :: bool
  ro_runOnCreate :: bool
  ro_minIntervalMs :: "int option"
  ro_initialMs :: int
  ro_maxMs :: int

text \<open>A run in progress: the record it claimed, its own abort controller, the drain's signal.\<close>

record in_flight =
  if_claimed :: task_record
  if_aborted :: bool
  if_outer :: bool

text \<open>\<open>rs_runs\<close> names the run of a task id by a number; \<open>rs_flights\<close> holds every run by its number,
  also one whose id was claimed afresh.\<close>

record runner_state =
  rs_rows :: table
  rs_sessions :: "string list"
  rs_runs :: "(string, nat) jsmap"
  rs_flights :: "(nat, in_flight) jsmap"
  rs_nextRun :: nat
  rs_stopping :: bool
  rs_reports :: "task_report list"
  rs_wakes :: "(string \<times> trigger_source \<times> string) list"

datatype turn_event =
    AssistantReply string bool
  | ToolExecuted string bool "string option" string
  | OtherEvent

datatype turn_reason = TurnDone | TurnFailed | TurnCancelled

datatype turn_outcome =
    TurnThrew failure_category string
  | TurnEnded turn_reason "turn_event list"

datatype start_result =
    Skipped "task_record option"
  | StartBlocked task_record
  | Started nat
  | StartError task_error

section \<open>Sessions and wake reasons\<close>

definition mapTriggerSource :: "trigger_source option \<Rightarrow> task_origin \<Rightarrow> trigger_source" where
  "mapTriggerSource triggerSource origin =
     (case triggerSource of Some t \<Rightarrow> t
      | None \<Rightarrow> if origin = OriginScheduler then TriggerScheduler else TriggerUser)"

definition createSession :: "string \<Rightarrow> runner_state \<Rightarrow> runner_state" where
  "createSession fresh st = st\<lparr>rs_sessions := rs_sessions st @ [fresh]\<rparr>"

text \<open>\<open>Inr None\<close>: no session can be made, and the row is blocked before it is claimed.\<close>

definition ensureSessionBeforeClaim ::
  "runner_config \<Rightarrow> string \<Rightarrow> int \<Rightarrow> task_record \<Rightarrow> runner_state \<Rightarrow> runner_state \<times> (task_error + task_record option)" where
  "ensureSessionBeforeClaim cfg fresh now task st =
     (if tk_sessionId task \<noteq> None then (st, Inr (Some task))
      else if \<not> ro_factory cfg then
        (let (rows, res) = markBlocked (ro_store cfg) (tk_id task)
               \<lparr>fi_category = ToolFailure,
                fi_message = ''session_not_found: task has no session_id and no sessionFactory wired''\<rparr> now (rs_rows st)
         in (st\<lparr>rs_rows := rows\<rparr>, case res of Inl err \<Rightarrow> Inl err | Inr r \<Rightarrow> Inr None))
      else
        (let st1 = createSession fresh st;
             (rows, res) = assignSession (ro_store cfg) (tk_id task) fresh now (rs_rows st1)
         in (st1\<lparr>rs_rows := rows\<rparr>, case res of Inl err \<Rightarrow> Inl err | Inr r \<Rightarrow> Inr (Some r))))"

definition loadOrRecreateSession ::
  "runner_config \<Rightarrow> string \<Rightarrow> int \<Rightarrow> task_record \<Rightarrow> runner_state \<Rightarrow> runner_state \<times> (task_error + string option)" where
  "loadOrRecreateSession cfg fresh now task st =
     (case tk_sessionId task of
        None \<Rightarrow> (st, Inr None)
      | Some s \<Rightarrow>
          if s \<in> set (rs_sessions st) then (st, Inr (Some s))
          else if \<not> tk_recurring task \<or> \<not> ro_factory cfg then (st, Inr None)
          else (let st1 = createSession fresh st;
                    (rows, res) = assignSession (ro_store cfg) (tk_id task) fresh now (rs_rows st1)
                in (st1\<lparr>rs_rows := rows\<rparr>, case res of Inl err \<Rightarrow> Inl err | Inr r \<Rightarrow> Inr (Some fresh))))"

definition stampWakeReason :: "runner_config \<Rightarrow> string \<Rightarrow> task_record \<Rightarrow> runner_state \<Rightarrow> runner_state" where
  "stampWakeReason cfg session task st =
     (if \<not> ro_factory cfg then st
      else st\<lparr>rs_wakes := rs_wakes st @
             [(session, mapTriggerSource (tk_triggerSource task) (tk_origin task), tk_id task)]\<rparr>)"

definition maybeReport :: "runner_config \<Rightarrow> task_record \<Rightarrow> string option \<Rightarrow> runner_state \<Rightarrow> runner_state" where
  "maybeReport cfg task replyText st =
     (if \<not> ro_sink cfg \<or> tk_notify task = None then st
      else if \<not> isReportableStatus (tk_status task) then st
      else st\<lparr>rs_reports := rs_reports st @ [buildTaskReport task (tk_status task) replyText]\<rparr>)"

text \<open>The report hook over the events of the turn.\<close>

definition capture_event :: "turn_event \<Rightarrow> string option \<Rightarrow> string option" where
  "capture_event ev captured =
     (case ev of
        AssistantReply txt progressNote \<Rightarrow> if progressNote then captured else Some txt
      | ToolExecuted tool isOk full summary \<Rightarrow>
          if tool = ''finish'' \<and> isOk
          then Some (case full of Some (c # cs) \<Rightarrow> c # cs | _ \<Rightarrow> summary) else captured
      | OtherEvent \<Rightarrow> captured)"

definition captured_reply :: "runner_config \<Rightarrow> task_record \<Rightarrow> turn_event list \<Rightarrow> string option" where
  "captured_reply cfg claimed events =
     (if tk_notify claimed \<noteq> None \<and> ro_sink cfg then fold capture_event events None else None)"

section \<open>The two halves of a run\<close>

definition beginRun :: "task_record \<Rightarrow> bool \<Rightarrow> runner_state \<Rightarrow> runner_state \<times> nat" where
  "beginRun claimed outer st =
     (let n = rs_nextRun st
      in (st\<lparr>rs_flights := jm_set n \<lparr>if_claimed = claimed, if_aborted = (rs_stopping st \<or> outer), if_outer = outer\<rparr>
               (rs_flights st),
             rs_runs := jm_set (tk_id claimed) n (rs_runs st), rs_nextRun := Suc n\<rparr>, n))"

definition end_run :: "nat \<Rightarrow> string \<Rightarrow> runner_state \<Rightarrow> runner_state" where
  "end_run n i st =
     st\<lparr>rs_flights := jm_delete n (rs_flights st),
        rs_runs := (if jm_get (rs_runs st) i = Some n then jm_delete i (rs_runs st) else rs_runs st)\<rparr>"

text \<open>After the claim: block the task or begin its run.\<close>

definition after_claim ::
  "runner_config \<Rightarrow> string \<Rightarrow> bool \<Rightarrow> int \<Rightarrow> task_record \<Rightarrow> runner_state \<Rightarrow> runner_state \<times> start_result" where
  "after_claim cfg fresh outer now claimed st =
     (case loadOrRecreateSession cfg fresh now claimed st of
        (st3, Inl err) \<Rightarrow> (st3, StartError err)
      | (st3, Inr None) \<Rightarrow>
          (case markBlocked (ro_store cfg) (tk_id claimed)
              \<lparr>fi_category = ToolFailure, fi_message = ''session_not_found: '' @
                 (case tk_sessionId claimed of None \<Rightarrow> ''<null>'' | Some s \<Rightarrow> s)\<rparr>
              now (rs_rows st3) of
             (rows4, Inl err) \<Rightarrow> (st3\<lparr>rs_rows := rows4\<rparr>, StartError err)
           | (rows4, Inr blocked) \<Rightarrow>
               (maybeReport cfg blocked None (st3\<lparr>rs_rows := rows4\<rparr>), StartBlocked blocked))
      | (st3, Inr (Some session)) \<Rightarrow>
          (case beginRun claimed outer (stampWakeReason cfg session claimed st3) of
             (st4, n) \<Rightarrow> (st4, Started n)))"

definition startRun ::
  "runner_config \<Rightarrow> string \<Rightarrow> string \<Rightarrow> bool \<Rightarrow> int \<Rightarrow> runner_state \<Rightarrow> runner_state \<times> start_result" where
  "startRun cfg fresh taskId outer now st =
     (if rs_stopping st then (st, Skipped None)
      else (case get_task (ro_store cfg) taskId (rs_rows st) of
              None \<Rightarrow> (st, Skipped None)
            | Some task \<Rightarrow>
                if tk_status task \<noteq> Pending then (st, Skipped (Some task))
                else (case ensureSessionBeforeClaim cfg fresh now task st of
                        (st1, Inl err) \<Rightarrow> (st1, StartError err)
                      | (st1, Inr None) \<Rightarrow> (st1, Skipped (get_task (ro_store cfg) taskId (rs_rows st1)))
                      | (st1, Inr (Some resolved)) \<Rightarrow>
                          (case markRunning (ro_store cfg) (tk_id resolved) now (rs_rows st1) of
                             (rows2, None) \<Rightarrow>
                               (st1\<lparr>rs_rows := rows2\<rparr>, Skipped (get_task (ro_store cfg) (tk_id resolved) rows2))
                           | (rows2, Some claimed) \<Rightarrow>
                               after_claim cfg fresh outer now claimed (st1\<lparr>rs_rows := rows2\<rparr>)))))"

text \<open>Whether the row a run claimed is no longer that run's.\<close>

definition endedElsewhere :: "runner_config \<Rightarrow> task_record \<Rightarrow> table \<Rightarrow> bool" where
  "endedElsewhere cfg claimed rows =
     (case get_task (ro_store cfg) (tk_id claimed) rows of
        None \<Rightarrow> True
      | Some row \<Rightarrow> tk_status row \<noteq> Running \<or> tk_startedAt row \<noteq> tk_startedAt claimed)"

definition isPermanent :: "failure_category \<Rightarrow> bool" where
  "isPermanent category = (category = GrammarFailure \<or> category = ToolFailure)"

type_synonym run_result = "runner_state \<times> (task_error + task_record option)"

definition handleFailure ::
  "runner_config \<Rightarrow> task_record \<Rightarrow> failure_category \<Rightarrow> string \<Rightarrow> int \<Rightarrow> runner_state \<Rightarrow> run_result" where
  "handleFailure cfg task category message now st =
     (let failure = \<lparr>fi_category = category, fi_message = message\<rparr>
      in if isPermanent category \<or> tk_attempts task \<ge> tk_maxAttempts task then
           (case (if isPermanent category then markBlocked (ro_store cfg) (tk_id task) failure now (rs_rows st)
                  else markFailed (ro_store cfg) (tk_id task) failure now (rs_rows st)) of
              (rows, Inl err) \<Rightarrow> (st\<lparr>rs_rows := rows\<rparr>, Inl err)
            | (rows, Inr terminal) \<Rightarrow> (maybeReport cfg terminal None (st\<lparr>rs_rows := rows\<rparr>), Inr (Some terminal)))
         else
           (case markRetry (ro_store cfg) (tk_id task) failure now (rs_rows st) of
              (rows, Inl err) \<Rightarrow> (st\<lparr>rs_rows := rows\<rparr>, Inl err)
            | (rows, Inr retried) \<Rightarrow> (st\<lparr>rs_rows := rows\<rparr>, Inr (Some retried))))"

definition handleCancelled ::
  "runner_config \<Rightarrow> task_record \<Rightarrow> string \<Rightarrow> bool \<Rightarrow> int \<Rightarrow> runner_state \<Rightarrow> run_result" where
  "handleCancelled cfg task message interrupted now st =
     (let put_back = (\<lambda>next. (case markInterrupted (ro_store cfg) (tk_id task) next now (rs_rows st) of
              (rows, None) \<Rightarrow> (st\<lparr>rs_rows := rows\<rparr>, Inr (get_task (ro_store cfg) (tk_id task) rows))
            | (rows, Some r) \<Rightarrow> (st\<lparr>rs_rows := rows\<rparr>, Inr (Some r))))
      in (case (tk_recurring task, tk_schedule task) of
            (True, Some schedule) \<Rightarrow>
              (case resolveScheduledFor (ro_cron cfg) schedule now of
                 Inl err \<Rightarrow> (st, Inl err)
               | Inr next_time \<Rightarrow> put_back (Some next_time))
          | _ \<Rightarrow>
              if interrupted then put_back None
              else (case cancel_task (ro_store cfg) (tk_id task) now (rs_rows st) of
                      (rows, Inl err) \<Rightarrow> (st\<lparr>rs_rows := rows\<rparr>, Inl err)
                    | (rows, Inr None) \<Rightarrow>
                        (st\<lparr>rs_rows := rows\<rparr>, Inr (Some (task\<lparr>tk_status := Cancelled, tk_lastError := Some message\<rparr>)))
                    | (rows, Inr (Some cancelled)) \<Rightarrow> (st\<lparr>rs_rows := rows\<rparr>, Inr (Some cancelled)))))"

definition resolveNextRecurring :: "cron_parser \<Rightarrow> task_schedule \<Rightarrow> int option \<Rightarrow> int \<Rightarrow> task_error + int" where
  "resolveNextRecurring cron schedule completedAt now =
     resolveScheduledFor cron schedule (case completedAt of None \<Rightarrow> now | Some t \<Rightarrow> t)"

definition maybeRequeueRecurring :: "runner_config \<Rightarrow> task_record \<Rightarrow> int \<Rightarrow> runner_state \<Rightarrow> run_result" where
  "maybeRequeueRecurring cfg completed now st =
     (case (tk_recurring completed, tk_schedule completed) of
        (True, Some schedule) \<Rightarrow>
          (case resolveNextRecurring (ro_cron cfg) schedule (tk_completedAt completed) now of
             Inl err \<Rightarrow> (st, Inl err)
           | Inr next_time \<Rightarrow>
               (case requeueRecurring (ro_store cfg) (tk_id completed) next_time now (rs_rows st) of
                  (rows, Inl err) \<Rightarrow> (st\<lparr>rs_rows := rows\<rparr>, Inl err)
                | (rows, Inr requeued) \<Rightarrow> (st\<lparr>rs_rows := rows\<rparr>, Inr (Some requeued))))
      | _ \<Rightarrow> (st, Inr (Some completed)))"

definition settle_run ::
  "runner_config \<Rightarrow> in_flight \<Rightarrow> turn_outcome \<Rightarrow> int \<Rightarrow> runner_state \<Rightarrow> run_result" where
  "settle_run cfg run outcome now st =
     (let claimed = if_claimed run; interrupted = (rs_stopping st \<or> if_outer run)
      in if endedElsewhere cfg claimed (rs_rows st)
         then (st, Inr (get_task (ro_store cfg) (tk_id claimed) (rs_rows st)))
         else (case outcome of
                 TurnThrew category message \<Rightarrow>
                   if category = CancelledFailure \<or> if_aborted run
                   then handleCancelled cfg claimed message interrupted now st
                   else handleFailure cfg claimed category message now st
               | TurnEnded reason events \<Rightarrow>
                   if reason = TurnCancelled \<or> (reason = TurnFailed \<and> if_aborted run)
                   then handleCancelled cfg claimed ''turn cancelled'' interrupted now st
                   else if reason = TurnFailed
                   then handleFailure cfg claimed TransportFailure ''loop reported failed'' now st
                   else (case markCompleted (ro_store cfg) (tk_id claimed) now (rs_rows st) of
                           (rows, Inl err) \<Rightarrow> (st\<lparr>rs_rows := rows\<rparr>, Inl err)
                         | (rows, Inr completed) \<Rightarrow>
                             maybeRequeueRecurring cfg completed now
                               (maybeReport cfg completed (captured_reply cfg claimed events) (st\<lparr>rs_rows := rows\<rparr>)))))"

definition finishRun :: "runner_config \<Rightarrow> nat \<Rightarrow> turn_outcome \<Rightarrow> int \<Rightarrow> runner_state \<Rightarrow> run_result" where
  "finishRun cfg n outcome now st =
     (case jm_get (rs_flights st) n of
        None \<Rightarrow> (st, Inr None)
      | Some run \<Rightarrow>
          (case settle_run cfg run outcome now st of
             (st1, res) \<Rightarrow> (end_run n (tk_id (if_claimed run)) st1, res)))"

section \<open>Creating, cancelling and stopping\<close>

text \<open>The third component says whether an immediate drain of the session is asked for.\<close>

definition createTask ::
  "runner_config \<Rightarrow> task_create_input \<Rightarrow> string \<Rightarrow> string \<Rightarrow> int \<Rightarrow> runner_state \<Rightarrow>
     runner_state \<times> (task_error + task_record) \<times> bool" where
  "createTask cfg input freshSession freshId now st =
     (let schedule = ci_schedule input
      in if (case (schedule, ro_minIntervalMs cfg) of
               (Some (Interval (Some everyMs)), Some minMs) \<Rightarrow> everyMs < minMs | _ \<Rightarrow> False)
         then (st, Inl (schedule_error (''schedule.everyMs must be >= '' @ show_number (ro_minIntervalMs cfg) @
                  '' (tasks.minIntervalMs)'')), False)
         else
           (case (case schedule of
                    Some s \<Rightarrow> (case ci_scheduledFor input of
                        None \<Rightarrow> (case resolveScheduledFor (ro_cron cfg) s now of Inl err \<Rightarrow> Inl err | Inr t \<Rightarrow> Inr (Some t))
                      | Some v \<Rightarrow> Inr v)
                  | None \<Rightarrow> Inr (case ci_scheduledFor input of None \<Rightarrow> None | Some v \<Rightarrow> v)) of
              Inl err \<Rightarrow> (st, Inl err, False)
            | Inr scheduledFor \<Rightarrow>
                let makes = (ci_sessionId input = None \<and> isRecurring schedule \<and> ro_factory cfg);
                    st1 = (if makes then createSession freshSession st else st);
                    sessionId = (if makes then Some freshSession else ci_sessionId input)
                in (case create_task (ro_store cfg)
                       (input\<lparr>ci_sessionId := sessionId, ci_scheduledFor := Some scheduledFor\<rparr>) freshId now (rs_rows st1) of
                      (rows, Inl err) \<Rightarrow> (st1\<lparr>rs_rows := rows\<rparr>, Inl err, False)
                    | (rows, Inr r) \<Rightarrow>
                        (st1\<lparr>rs_rows := rows\<rparr>, Inr r,
                         ro_enabled cfg \<and> ro_runOnCreate cfg \<and>
                         (case tk_scheduledFor r of None \<Rightarrow> True | Some t \<Rightarrow> t \<le> now) \<and> tk_sessionId r \<noteq> None))))"

definition abort_flight :: "nat \<Rightarrow> runner_state \<Rightarrow> runner_state" where
  "abort_flight n st =
     (case jm_get (rs_flights st) n of
        None \<Rightarrow> st
      | Some run \<Rightarrow> st\<lparr>rs_flights := jm_set n (run\<lparr>if_aborted := True\<rparr>) (rs_flights st)\<rparr>)"

text \<open>The drain's signal aborts: the listener of \<open>beginRun\<close>.\<close>

definition outer_abort :: "nat \<Rightarrow> runner_state \<Rightarrow> runner_state" where
  "outer_abort n st =
     (case jm_get (rs_flights st) n of
        None \<Rightarrow> st
      | Some run \<Rightarrow> st\<lparr>rs_flights := jm_set n (run\<lparr>if_aborted := True, if_outer := True\<rparr>) (rs_flights st)\<rparr>)"

definition cancelTask :: "runner_config \<Rightarrow> string \<Rightarrow> int \<Rightarrow> runner_state \<Rightarrow> run_result" where
  "cancelTask cfg i now st =
     (case cancel_task (ro_store cfg) i now (rs_rows st) of
        (rows, res) \<Rightarrow>
          let st1 = st\<lparr>rs_rows := rows\<rparr>
          in (case res of
                Inr (Some r) \<Rightarrow>
                  if tk_status r = Cancelled
                  then (case jm_get (rs_runs st1) i of None \<Rightarrow> st1 | Some n \<Rightarrow> abort_flight n st1, res)
                  else (st1, res)
              | _ \<Rightarrow> (st1, res)))"

text \<open>\<open>stop\<close> up to its wait: the runs it waits for are those of the map.\<close>

definition stopRunner :: "runner_state \<Rightarrow> runner_state \<times> nat list" where
  "stopRunner st =
     (let runs = map snd (rs_runs st)
      in (fold abort_flight runs (st\<lparr>rs_stopping := True\<rparr>), runs))"

section \<open>Draining\<close>

text \<open>
  The drain of one session group, the turns of its runs given by a world: the \<open>k\<close>-th run's clock, the
  session its factory would make, its outcome, and whether the drain's signal is aborted before it
  and during it. Nothing else happens to the queue meanwhile; interleavings are the subject of the
  system of runners. The sleeps between attempts are recorded.
\<close>

record drain_world =
  dw_now :: "nat \<Rightarrow> int"
  dw_fresh :: "nat \<Rightarrow> string"
  dw_outcome :: "nat \<Rightarrow> turn_outcome"
  dw_aborted :: "nat \<Rightarrow> bool"
  dw_abortedDuring :: "nat \<Rightarrow> bool"

record drain_outcome =
  do_drained :: nat
  do_completed :: nat
  do_failed :: nat
  do_blocked :: nat
  do_cancelled :: nat
  do_retried :: nat
  do_sleeps :: "int list"

definition emptyOutcome :: drain_outcome where
  "emptyOutcome = \<lparr>do_drained = 0, do_completed = 0, do_failed = 0, do_blocked = 0, do_cancelled = 0,
     do_retried = 0, do_sleeps = []\<rparr>"

datatype drain_end = GroupDone | GroupStopped | DrainThrew task_error | DrainOutOfFuel

definition runOne :: "runner_config \<Rightarrow> drain_world \<Rightarrow> nat \<Rightarrow> string \<Rightarrow> runner_state \<Rightarrow> run_result" where
  "runOne cfg w k i st =
     (case startRun cfg (dw_fresh w k) i (dw_aborted w k) (dw_now w (2 * k)) st of
        (st1, Skipped r) \<Rightarrow> (st1, Inr r)
      | (st1, StartBlocked r) \<Rightarrow> (st1, Inr (Some r))
      | (st1, StartError err) \<Rightarrow> (st1, Inl err)
      | (st1, Started n) \<Rightarrow>
          finishRun cfg n (dw_outcome w k) (dw_now w (2 * k + 1))
            (if dw_abortedDuring w k then outer_abort n st1 else st1))"

fun drain_task ::
  "nat \<Rightarrow> runner_config \<Rightarrow> drain_world \<Rightarrow> nat \<Rightarrow> task_record option \<Rightarrow> drain_outcome \<Rightarrow> runner_state \<Rightarrow>
     runner_state \<times> nat \<times> drain_outcome \<times> drain_end" where
  "drain_task 0 cfg w k current out st = (st, k, out, DrainOutOfFuel)"
| "drain_task (Suc fuel) cfg w k current out st =
     (case current of
        None \<Rightarrow> (st, k, out, GroupDone)
      | Some task \<Rightarrow>
          if tk_status task \<noteq> Pending then (st, k, out, GroupDone)
          else if dw_aborted w k \<or> rs_stopping st then (st, k, out, GroupStopped)
          else
            (case runOne cfg w k (tk_id task) st of
               (st1, Inl err) \<Rightarrow> (st1, Suc k, out, DrainThrew err)
             | (st1, Inr res) \<Rightarrow>
                 let out1 = out\<lparr>do_drained := Suc (do_drained out)\<rparr>
                 in (case res of
                       None \<Rightarrow> (st1, Suc k, out1, GroupDone)
                     | Some r \<Rightarrow>
                         (case tk_status r of
                            Completed \<Rightarrow> (st1, Suc k, out1\<lparr>do_completed := Suc (do_completed out1)\<rparr>, GroupDone)
                          | Failed \<Rightarrow> (st1, Suc k, out1\<lparr>do_failed := Suc (do_failed out1)\<rparr>, GroupDone)
                          | Blocked \<Rightarrow> (st1, Suc k, out1\<lparr>do_blocked := Suc (do_blocked out1)\<rparr>, GroupDone)
                          | Cancelled \<Rightarrow> (st1, Suc k, out1\<lparr>do_cancelled := Suc (do_cancelled out1)\<rparr>, GroupDone)
                          | Running \<Rightarrow> (st1, Suc k, out1, GroupDone)
                          | Pending \<Rightarrow>
                              if tk_lastErrorCategory r = Some CancelledFailure
                              then (st1, Suc k, out1\<lparr>do_cancelled := Suc (do_cancelled out1)\<rparr>, GroupDone)
                              else if tk_recurring r \<and> tk_attempts r = 0 \<and>
                                      (case tk_scheduledFor r of None \<Rightarrow> False | Some t \<Rightarrow> t > dw_now w (2 * k + 1))
                              then (st1, Suc k, out1\<lparr>do_completed := Suc (do_completed out1)\<rparr>, GroupDone)
                              else
                                let delay = nextDelayMs (Some (tk_attempts r)) (ro_initialMs cfg) (ro_maxMs cfg)
                                in drain_task fuel cfg w (Suc k) (Some r)
                                     (out1\<lparr>do_retried := Suc (do_retried out1),
                                       do_sleeps := (if delay > 0 then do_sleeps out1 @ [delay] else do_sleeps out1)\<rparr>) st1))))"

text \<open>The group: its tasks in order; a stopped signal ends it. \<open>fuel\<close> bounds the attempts of one task.\<close>

fun drainSessionGroup ::
  "nat \<Rightarrow> runner_config \<Rightarrow> drain_world \<Rightarrow> nat \<Rightarrow> task_record list \<Rightarrow> drain_outcome \<Rightarrow> runner_state \<Rightarrow>
     runner_state \<times> nat \<times> drain_outcome \<times> drain_end" where
  "drainSessionGroup fuel cfg w k [] out st = (st, k, out, GroupDone)"
| "drainSessionGroup fuel cfg w k (task # tasks) out st =
     (if dw_aborted w k \<or> rs_stopping st then (st, k, out, GroupStopped)
      else (case drain_task fuel cfg w k (Some task) out st of
              (st1, k1, out1, GroupDone) \<Rightarrow> drainSessionGroup fuel cfg w k1 tasks out1 st1
            | stopped \<Rightarrow> stopped))"

definition group_key :: "task_record \<Rightarrow> string" where
  "group_key t = (case tk_sessionId t of Some s \<Rightarrow> s | None \<Rightarrow> ''__nosession__:'' @ tk_id t)"

definition groupBySession :: "task_record list \<Rightarrow> (string, task_record list) jsmap" where
  "groupBySession tasks =
     fold (\<lambda>t m. jm_set (group_key t)
             ((case jm_get m (group_key t) of None \<Rightarrow> [] | Some ts \<Rightarrow> ts) @ [t]) m) tasks []"

text \<open>The batches \<open>drainPending\<close> and \<open>runDue\<close> hand to \<open>drainBatch\<close>, whose groups run side by side.\<close>

definition drainPending_groups ::
  "runner_config \<Rightarrow> string option \<Rightarrow> int option \<Rightarrow> runner_state \<Rightarrow> (string, task_record list) jsmap" where
  "drainPending_groups cfg sessionId limit st =
     (if \<not> ro_enabled cfg then []
      else groupBySession (listPending (ro_store cfg) sessionId
             (Some (case limit of None \<Rightarrow> 1000 | Some l \<Rightarrow> l)) (rs_rows st)))"

definition runDue_groups ::
  "runner_config \<Rightarrow> int \<Rightarrow> int \<Rightarrow> runner_state \<Rightarrow> (string, task_record list) jsmap" where
  "runDue_groups cfg now limit st =
     (if \<not> ro_enabled cfg then [] else groupBySession (listDue (ro_store cfg) now limit (rs_rows st)))"

end
