(* ===== verification/Task_Table.thy ===== *)
theory Task_Table
  imports Task_Runner
begin

text \<open>
  The queue's table seen one row at a time. The locale \<open>guarded_table\<close> is the contract of a guarded
  update, interpreted on the store's statements; every method of the store is then an equation on
  the row it names (\<open>put_row\<close>), and the boot sweep is a map over the table. The collection \<open>queue\<close>
  holds the rewriting rules of the view.
\<close>

named_theorems queue

definition table_ok :: "table \<Rightarrow> bool" where
  "table_ok rows \<longleftrightarrow> distinct (map rw_id rows)"

section \<open>One row at a time\<close>

lemma find_row_Nil [simp]: "find_row i [] = None"
  by (simp add: find_row_def)

lemma find_row_Cons: "find_row i (r # rows) = (if rw_id r = i then Some r else find_row i rows)"
  by (simp add: find_row_def)

lemma find_row_id: "find_row i rows = Some r \<Longrightarrow> rw_id r = i"
  by (induction rows) (auto simp: find_row_Cons split: if_splits)

lemma find_row_in: "find_row i rows = Some r \<Longrightarrow> r \<in> set rows"
  by (induction rows) (auto simp: find_row_Cons split: if_splits)

lemma find_row_None: "find_row i rows = None \<longleftrightarrow> i \<notin> rw_id ` set rows"
  by (induction rows) (auto simp: find_row_Cons)

lemma find_row_Some: "table_ok rows \<Longrightarrow> find_row i rows = Some r \<longleftrightarrow> r \<in> set rows \<and> rw_id r = i"
  by (induction rows) (auto simp: find_row_Cons table_ok_def)

lemma find_row_append [simp]:
  "find_row i (rows @ rows') = (case find_row i rows of None \<Rightarrow> find_row i rows' | Some r \<Rightarrow> Some r)"
  by (induction rows) (auto simp: find_row_Cons)

text \<open>An update of the rows of one id, seen through \<open>find_row\<close>.\<close>

definition keeps_id :: "(task_row \<Rightarrow> task_row) \<Rightarrow> bool" where
  "keeps_id f \<longleftrightarrow> (\<forall>r. rw_id (f r) = rw_id r)"

lemma find_update:
  assumes "keeps_id f"
  shows "find_row j (fst (update_where P f rows)) = map_option (\<lambda>r. if P r then f r else r) (find_row j rows)"
  using assms by (induction rows) (auto simp: update_where_def find_row_Cons keeps_id_def)

lemma ok_update: "keeps_id f \<Longrightarrow> table_ok (fst (update_where P f rows)) = table_ok rows"
proof -
  assume "keeps_id f"
  then have "map rw_id (fst (update_where P f rows)) = map rw_id rows"
    by (auto simp: update_where_def keeps_id_def)
  then show ?thesis by (simp add: table_ok_def)
qed

lemma changes_update: "snd (update_where P f rows) = 0 \<longleftrightarrow> (\<forall>r \<in> set rows. \<not> P r)"
  by (auto simp: update_where_def filter_empty_conv)

lemma changes_one:
  assumes "table_ok rows"
  shows "snd (update_where (\<lambda>r. rw_id r = i \<and> G r) f rows) = 0 \<longleftrightarrow>
    (case find_row i rows of None \<Rightarrow> True | Some r \<Rightarrow> \<not> G r)"
proof (cases "find_row i rows")
  case None
  then have "i \<notin> rw_id ` set rows" by (simp add: find_row_None)
  then show ?thesis using None by (auto simp: changes_update)
next
  case (Some r)
  then have "\<And>r'. r' \<in> set rows \<Longrightarrow> rw_id r' = i \<Longrightarrow> r' = r" and "r \<in> set rows" and "rw_id r = i"
    using find_row_Some [OF assms, of i] by (metis option.inject)+
  then have "(\<forall>r' \<in> set rows. \<not> (rw_id r' = i \<and> G r')) \<longleftrightarrow> \<not> G r" by blast
  then show ?thesis using Some by (simp add: changes_update)
qed

section \<open>The contract of guarded updates\<close>

text \<open>
  What the queue relies on from its table: an update of one key behind a guard changes that row or
  reports that it changed nothing, and touches no other key. Every transition of the lifecycle
  is such an update.
\<close>

locale guarded_table =
  fixes row_at :: "'t \<Rightarrow> 'k \<Rightarrow> 'r option"
    and guarded :: "'k \<Rightarrow> ('r \<Rightarrow> bool) \<Rightarrow> ('r \<Rightarrow> 'r) \<Rightarrow> 't \<Rightarrow> 't \<times> nat"
    and ok :: "'t \<Rightarrow> bool"
    and keeps_key :: "('r \<Rightarrow> 'r) \<Rightarrow> bool"
  assumes at_guarded: "keeps_key f \<Longrightarrow> row_at (fst (guarded k G f t)) k' =
      (if k' = k then map_option (\<lambda>r. if G r then f r else r) (row_at t k) else row_at t k')"
    and ok_guarded: "keeps_key f \<Longrightarrow> ok t \<Longrightarrow> ok (fst (guarded k G f t))"
    and changes_guarded: "ok t \<Longrightarrow>
      snd (guarded k G f t) = 0 \<longleftrightarrow> (case row_at t k of None \<Rightarrow> True | Some r \<Rightarrow> \<not> G r)"
begin

lemma refused:
  assumes "ok t" and "keeps_key f" and "snd (guarded k G f t) = 0"
  shows "row_at (fst (guarded k G f t)) k' = row_at t k'"
  using assms by (auto simp: at_guarded changes_guarded split: option.splits)

lemma accepted:
  assumes "ok t" and "keeps_key f" and "snd (guarded k G f t) \<noteq> 0"
  obtains r where "row_at t k = Some r" and "G r" and "row_at (fst (guarded k G f t)) k = Some (f r)"
proof -
  from assms(1,3) obtain r where r: "row_at t k = Some r" "G r"
    by (auto simp: changes_guarded split: option.splits)
  then have "row_at (fst (guarded k G f t)) k = Some (f r)" using assms(2) by (simp add: at_guarded)
  with r show thesis by (rule that)
qed

lemma second_refused:
  assumes "ok t" and "keeps_key f" and "\<And>r. \<not> G (f r)"
  shows "snd (guarded k G f (fst (guarded k G f t))) = 0"
  using assms by (auto simp: changes_guarded ok_guarded at_guarded split: option.splits)

lemma other_key: "keeps_key f \<Longrightarrow> k' \<noteq> k \<Longrightarrow> row_at (fst (guarded k G f t)) k' = row_at t k'"
  by (simp add: at_guarded)

end

lemma find_update_id:
  "keeps_id f \<Longrightarrow> find_row j (fst (update_id i G f rows)) =
     (if j = i then map_option (\<lambda>r. if G r then f r else r) (find_row i rows) else find_row j rows)"
  by (cases "find_row j rows") (auto simp: update_id_def find_update dest: find_row_id)

lemma ok_update_id: "keeps_id f \<Longrightarrow> table_ok (fst (update_id i G f rows)) = table_ok rows"
  by (simp add: update_id_def ok_update)

lemma changes_update_id:
  "table_ok rows \<Longrightarrow> snd (update_id i G f rows) = 0 \<longleftrightarrow> (case find_row i rows of None \<Rightarrow> True | Some r \<Rightarrow> \<not> G r)"
  by (simp add: update_id_def changes_one)

interpretation tq: guarded_table "\<lambda>rows i. find_row i rows" update_id table_ok keeps_id
  by unfold_locales (simp_all add: find_update_id ok_update_id changes_update_id)

section \<open>The store's methods on one row\<close>

text \<open>\<open>put_row i f\<close> is the table with \<open>f\<close> applied to row \<open>i\<close>: what an accepted update leaves.\<close>

definition put_row :: "string \<Rightarrow> (task_row \<Rightarrow> task_row) \<Rightarrow> table \<Rightarrow> table" where
  "put_row i f rows = map (\<lambda>r. if rw_id r = i then f r else r) rows"

lemma find_put_row [queue]:
  "keeps_id f \<Longrightarrow> find_row j (put_row i f rows) = (if j = i then map_option f (find_row i rows) else find_row j rows)"
  by (induction rows) (auto simp: put_row_def find_row_Cons keeps_id_def)

lemma ok_put_row [queue]: "keeps_id f \<Longrightarrow> table_ok (put_row i f rows) = table_ok rows"
proof -
  assume "keeps_id f"
  then have "map rw_id (put_row i f rows) = map rw_id rows" by (auto simp: put_row_def keeps_id_def)
  then show ?thesis by (simp add: table_ok_def)
qed

lemma put_row_twice: "keeps_id f \<Longrightarrow> put_row i g (put_row i f rows) = put_row i (g \<circ> f) rows"
  by (auto simp: put_row_def keeps_id_def)

lemma update_id_hit:
  assumes "table_ok rows" and "find_row i rows = Some r" and "G r"
  shows "fst (update_id i G f rows) = put_row i f rows" and "snd (update_id i G f rows) \<noteq> 0"
proof -
  have "\<And>r'. r' \<in> set rows \<Longrightarrow> rw_id r' = i \<Longrightarrow> r' = r"
    using find_row_Some [OF assms(1), of i] assms(2) by (metis option.inject)
  then show "fst (update_id i G f rows) = put_row i f rows"
    using assms(3) by (auto simp: update_id_def update_where_def put_row_def)
  show "snd (update_id i G f rows) \<noteq> 0"
    using assms by (simp add: changes_update_id)
qed

lemma update_id_miss:
  assumes "table_ok rows" and "\<And>r. find_row i rows = Some r \<Longrightarrow> \<not> G r"
  shows "update_id i G f rows = (rows, 0)"
proof -
  have z: "snd (update_id i G f rows) = 0" using assms by (simp add: changes_update_id split: option.splits)
  then have "\<forall>r \<in> set rows. \<not> (rw_id r = i \<and> G r)" by (simp add: update_id_def changes_update)
  then have "fst (update_id i G f rows) = rows"
    by (auto simp: update_id_def update_where_def intro!: map_idI)
  with z show ?thesis by (metis prod.collapse)
qed

lemma keeps_id_rows [simp, queue]:
  "keeps_id (claimed_row cfg now)" "keeps_id (completed_row now)" "keeps_id (ended_row s failure now)"
  "keeps_id (retried_row failure now)" "keeps_id (cancelled_row now)" "keeps_id (interrupted_row nx now)"
  "keeps_id (recover_row err now)" "keeps_id (requeued_row t now)" "keeps_id (session_row sid now)"
  by (simp_all add: keeps_id_def claimed_row_def completed_row_def ended_row_def retried_row_def cancelled_row_def
      interrupted_row_def recover_row_def requeued_row_def session_row_def)

lemma keeps_id_comp [simp, queue]: "keeps_id f \<Longrightarrow> keeps_id g \<Longrightarrow> keeps_id (g \<circ> f)"
  by (simp add: keeps_id_def)

definition at_row :: "string \<Rightarrow> (task_row \<Rightarrow> bool) \<Rightarrow> table \<Rightarrow> bool" where
  "at_row i G rows = (case find_row i rows of None \<Rightarrow> False | Some r \<Rightarrow> G r)"

lemma get_put_row: "keeps_id f \<Longrightarrow> find_row i rows = Some r \<Longrightarrow> get_task cfg i (put_row i f rows) = Some (rowToRecord cfg (f r))"
  by (simp add: get_task_def find_put_row)

lemma must_change_eq:
  assumes "table_ok rows" and "keeps_id f"
  shows "must_change cfg i err (update_id i G f rows) =
    (case find_row i rows of
       None \<Rightarrow> (rows, Inl err)
     | Some r \<Rightarrow> if G r then (put_row i f rows, Inr (rowToRecord cfg (f r))) else (rows, Inl err))"
proof (cases "find_row i rows")
  case None
  then show ?thesis using update_id_miss [OF assms(1), of i G f] by (simp add: must_change_def)
next
  case (Some r)
  show ?thesis
  proof (cases "G r")
    case True
    then show ?thesis
      using update_id_hit [where G = G and f = f, OF assms(1) Some True] get_put_row [OF assms(2) Some, of cfg] Some
      by (simp add: must_change_def requireRecord_def)
  next
    case False
    then show ?thesis using update_id_miss [OF assms(1), of i G f] Some by (simp add: must_change_def)
  qed
qed

lemma maybe_change_eq:
  assumes "table_ok rows" and "keeps_id f"
  shows "(let (rows', changes) = update_id i G f rows in (rows', if changes = 0 then None else get_task cfg i rows')) =
    (case find_row i rows of
       None \<Rightarrow> (rows, None)
     | Some r \<Rightarrow> if G r then (put_row i f rows, Some (rowToRecord cfg (f r))) else (rows, None))"
proof (cases "find_row i rows")
  case None
  then show ?thesis using update_id_miss [OF assms(1), of i G f] by simp
next
  case (Some r)
  show ?thesis
  proof (cases "G r")
    case True
    then show ?thesis
      using update_id_hit [where G = G and f = f, OF assms(1) Some True] get_put_row [OF assms(2) Some, of cfg] Some
      by (auto simp: case_prod_beta Let_def)
  next
    case False
    then show ?thesis using update_id_miss [OF assms(1), of i G f] Some by simp
  qed
qed

text \<open>Every method, on a table with distinct ids, by the row it names.\<close>

lemma markRunning_eq:
  "table_ok rows \<Longrightarrow> markRunning cfg i now rows =
    (case find_row i rows of
       None \<Rightarrow> (rows, None)
     | Some r \<Rightarrow> if rw_status r = Pending
         then (put_row i (claimed_row cfg now) rows, Some (rowToRecord cfg (claimed_row cfg now r))) else (rows, None))"
  unfolding markRunning_def by (rule maybe_change_eq) simp_all

lemma markInterrupted_eq:
  "table_ok rows \<Longrightarrow> markInterrupted cfg i nx now rows =
    (case find_row i rows of
       None \<Rightarrow> (rows, None)
     | Some r \<Rightarrow> if rw_status r = Running
         then (put_row i (interrupted_row nx now) rows, Some (rowToRecord cfg (interrupted_row nx now r))) else (rows, None))"
  unfolding markInterrupted_def by (rule maybe_change_eq) simp_all

lemmas mark_defs = markCompleted_def markFailed_def markRetry_def markBlocked_def requeueRecurring_def assignSession_def

lemmas mark_eq = must_change_eq [OF _ keeps_id_rows(1)] must_change_eq [OF _ keeps_id_rows(2)]
  must_change_eq [OF _ keeps_id_rows(3)] must_change_eq [OF _ keeps_id_rows(4)] must_change_eq [OF _ keeps_id_rows(5)]
  must_change_eq [OF _ keeps_id_rows(8)] must_change_eq [OF _ keeps_id_rows(9)]

lemma rowToRecord_sel [simp]:
  "tk_id (rowToRecord cfg r) = rw_id r" "tk_status (rowToRecord cfg r) = rw_status r"
  "tk_startedAt (rowToRecord cfg r) = rw_started_at r" "tk_attempts (rowToRecord cfg r) = rw_attempts r"
  "tk_maxAttempts (rowToRecord cfg r) = rw_max_attempts r" "tk_recurring (rowToRecord cfg r) = rw_recurring r"
  "tk_sessionId (rowToRecord cfg r) = rw_session_id r" "tk_completedAt (rowToRecord cfg r) = rw_completed_at r"
  "tk_lastErrorCategory (rowToRecord cfg r) = rw_last_error_cat r" "tk_scheduledFor (rowToRecord cfg r) = rw_scheduled_for r"
  "tk_schedule (rowToRecord cfg r) = parseScheduleRow (sc_String cfg) (rw_schedule_kind r) (rw_schedule_value r)"
  by (simp_all add: rowToRecord_def)

lemma cancel_task_eq:
  assumes "table_ok rows"
  shows "cancel_task cfg i now rows =
    (case find_row i rows of
       None \<Rightarrow> (rows, Inr None)
     | Some r \<Rightarrow> if rw_status r = Pending \<or> rw_status r = Running
         then (put_row i (cancelled_row now) rows, Inr (Some (rowToRecord cfg (cancelled_row now r))))
         else (rows, Inr (Some (rowToRecord cfg r))))"
proof (cases "find_row i rows")
  case None
  then show ?thesis by (simp add: cancel_task_def get_task_def)
next
  case (Some r)
  have t: "rw_status r \<in> TERMINAL_STATUSES \<longleftrightarrow> \<not> (rw_status r = Pending \<or> rw_status r = Running)"
    by (cases "rw_status r") (simp_all add: TERMINAL_STATUSES_def)
  show ?thesis
  proof (cases "rw_status r = Pending \<or> rw_status r = Running")
    case True
    have "fst (update_id i (\<lambda>r. rw_status r = Pending \<or> rw_status r = Running) (cancelled_row now) rows) =
        put_row i (cancelled_row now) rows"
      using True by (intro update_id_hit(1) [OF assms Some])
    moreover have "requireRecord cfg i (put_row i (cancelled_row now) rows) = Inr (rowToRecord cfg (cancelled_row now r))"
      using get_put_row [OF keeps_id_rows(5) Some, of cfg now] by (simp add: requireRecord_def)
    moreover have "rw_status r \<notin> TERMINAL_STATUSES" using t True by blast
    ultimately show ?thesis using True Some by (simp add: cancel_task_def get_task_def Let_def)
  next
    case False
    moreover from this have "rw_status r \<in> TERMINAL_STATUSES" using t by blast
    ultimately show ?thesis using Some by (simp add: cancel_task_def get_task_def)
  qed
qed

section \<open>The boot sweep\<close>

definition sweep_error :: "store_config \<Rightarrow> task_row \<Rightarrow> string" where
  "sweep_error cfg r = (if owns_this_run (sweep_view cfg r) then TASK_OWNER_GONE_ERROR else ''recovered from stale running'')"

lemma sweep_rows_view:
  assumes "table_ok rows" and "distinct (map rw_id todo)"
    and "\<And>r. r \<in> set todo \<Longrightarrow> find_row (rw_id r) rows = Some r \<and> rw_status r = Running"
  shows "table_ok (fst (sweep_rows cfg s now todo rows)) \<and>
    find_row j (fst (sweep_rows cfg s now todo rows)) =
      map_option (\<lambda>r. if r \<in> set todo \<and> run_gone cfg s now r then recover_row (sweep_error cfg r) now r else r)
        (find_row j rows) \<and>
    snd (sweep_rows cfg s now todo rows) = map rw_id (filter (run_gone cfg s now) todo)"
  using assms
proof (induction todo arbitrary: rows)
  case Nil
  then show ?case by (simp add: option.map_ident)
next
  case (Cons row todo)
  show ?case
  proof (cases "run_gone cfg s now row")
    case False
    with Cons have "table_ok (fst (sweep_rows cfg s now todo rows)) \<and>
      find_row j (fst (sweep_rows cfg s now todo rows)) =
        map_option (\<lambda>r. if r \<in> set todo \<and> run_gone cfg s now r then recover_row (sweep_error cfg r) now r else r)
          (find_row j rows) \<and>
      snd (sweep_rows cfg s now todo rows) = map rw_id (filter (run_gone cfg s now) todo)" by simp
    then show ?thesis using False by (cases "find_row j rows") auto
  next
    case True
    let ?f = "recover_row (sweep_error cfg row) now"
    let ?rows1 = "put_row (rw_id row) ?f rows"
    let ?G = "\<lambda>r. rw_status r = Running \<and> rw_started_at r = rw_started_at row"
    have at: "find_row (rw_id row) rows = Some row" "rw_status row = Running" using Cons.prems(3) [of row] by auto
    have "?G row" using at(2) by simp
    note hit = update_id_hit [where G = ?G and f = ?f, OF Cons.prems(1) at(1) this]
    have "find_row (rw_id r) ?rows1 = Some r \<and> rw_status r = Running" if "r \<in> set todo" for r
    proof -
      have "rw_id r \<noteq> rw_id row" using Cons.prems(2) that by (auto simp: image_iff)
      then show ?thesis using Cons.prems(3) [of r] that by (simp add: find_put_row)
    qed
    from Cons.IH [OF _ _ this] Cons.prems(1,2)
    have IH: "table_ok (fst (sweep_rows cfg s now todo ?rows1)) \<and>
      find_row j (fst (sweep_rows cfg s now todo ?rows1)) =
        map_option (\<lambda>r. if r \<in> set todo \<and> run_gone cfg s now r then recover_row (sweep_error cfg r) now r else r)
          (find_row j ?rows1) \<and>
      snd (sweep_rows cfg s now todo ?rows1) = map rw_id (filter (run_gone cfg s now) todo)"
      by (simp add: ok_put_row)
    have step: "sweep_rows cfg s now (row # todo) rows =
        (fst (sweep_rows cfg s now todo ?rows1), rw_id row # snd (sweep_rows cfg s now todo ?rows1))"
      using True hit by (simp add: sweep_error_def case_prod_beta Let_def)
    have "find_row j ?rows1 = (if j = rw_id row then Some (?f row) else find_row j rows)"
      using at by (simp add: find_put_row)
    moreover have "?f row \<notin> set todo"
    proof
      assume "?f row \<in> set todo"
      then have "rw_id (?f row) \<in> rw_id ` set todo" by blast
      then show False using Cons.prems(2) by (simp add: recover_row_def)
    qed
    moreover have "r \<noteq> row" if "find_row j rows = Some r" "j \<noteq> rw_id row" for r
      using find_row_id [OF that(1)] that(2) by auto
    ultimately show ?thesis
      unfolding step using IH True at
      by (cases "j = rw_id row"; cases "find_row j rows") auto
  qed
qed

lemma recover_view:
  assumes "table_ok rows"
  shows "table_ok (fst (recoverInterrupted cfg s now rows))"
    and "find_row j (fst (recoverInterrupted cfg s now rows)) =
      map_option (\<lambda>r. if rw_status r = Running \<and> run_gone cfg s now r then recover_row (sweep_error cfg r) now r else r)
        (find_row j rows)"
    and "snd (recoverInterrupted cfg s now rows) =
      map rw_id (filter (\<lambda>r. rw_status r = Running \<and> run_gone cfg s now r) rows)"
proof -
  let ?todo = "filter (\<lambda>r. rw_status r = Running) rows"
  have d: "distinct (map rw_id ?todo)" using assms by (simp add: table_ok_def distinct_map_filter)
  have at: "find_row (rw_id r) rows = Some r \<and> rw_status r = Running" if "r \<in> set ?todo" for r
    using that find_row_Some [OF assms, of "rw_id r" r] by auto
  note v = sweep_rows_view [OF assms d at, of cfg s now, folded recoverInterrupted_def]
  show "table_ok (fst (recoverInterrupted cfg s now rows))" using v by blast
  show "snd (recoverInterrupted cfg s now rows) =
      map rw_id (filter (\<lambda>r. rw_status r = Running \<and> run_gone cfg s now r) rows)"
    using v by (simp add: conj_commute)
  show "find_row j (fst (recoverInterrupted cfg s now rows)) =
      map_option (\<lambda>r. if rw_status r = Running \<and> run_gone cfg s now r then recover_row (sweep_error cfg r) now r else r)
        (find_row j rows)"
    using v by (cases "find_row j rows") (auto dest: find_row_in)
qed

end
