(* ===== verification/Task_System.thy ===== *)
theory Task_System
  imports Task_Table
begin

text \<open>
  The task queue as a system of processes sharing one table. \<open>legal_move\<close> is the lifecycle of a row;
  \<open>runner_op\<close> lists the atomic operations of a runner (the two halves of a run, creation, an
  operator's cancel, the drain's abort, a stop, a boot sweep, an import); \<open>sys_step\<close> is one
  operation of one process on the shared table. Every operation moves every row legally and keeps
  each run in progress tied to the row it claimed (\<open>sys_moves\<close>), so terminal rows are final.
\<close>

section \<open>Legal moves of a row\<close>

definition same_task :: "task_row \<Rightarrow> task_row \<Rightarrow> bool" where
  "same_task r r' \<longleftrightarrow> rw_id r' = rw_id r \<and> rw_user_message r' = rw_user_message r \<and> rw_max_steps r' = rw_max_steps r \<and>
     rw_origin r' = rw_origin r \<and> rw_max_attempts r' = rw_max_attempts r \<and> rw_created_at r' = rw_created_at r \<and>
     rw_schedule_kind r' = rw_schedule_kind r \<and> rw_schedule_value r' = rw_schedule_value r \<and>
     rw_recurring r' = rw_recurring r \<and> rw_trigger_source r' = rw_trigger_source r \<and> rw_notify r' = rw_notify r"

definition legal_move :: "task_row \<Rightarrow> task_row \<Rightarrow> bool" where
  "legal_move r r' \<longleftrightarrow> r' = r \<or> same_task r r' \<and>
     (case rw_status r of
        Pending \<Rightarrow>
          rw_status r' = Running \<and> rw_attempts r' = rw_attempts r + 1 \<and> rw_started_at r' \<noteq> None \<or>
          rw_status r' \<in> {Blocked, Cancelled} \<and> rw_attempts r' \<in> {rw_attempts r, rw_attempts r + 1}
      | Running \<Rightarrow>
          rw_status r' \<in> {Completed, Failed, Blocked, Cancelled} \<and> rw_attempts r' = rw_attempts r \<or>
          rw_status r' = Pending \<and> rw_started_at r' = None \<and>
            (rw_attempts r' = rw_attempts r \<or> rw_recurring r \<and> rw_attempts r' = 0)
      | _ \<Rightarrow> False)"

lemma same_task_refl [simp]: "same_task r r"
  by (simp add: same_task_def)

lemma same_task_trans: "same_task r r' \<Longrightarrow> same_task r' r'' \<Longrightarrow> same_task r r''"
  by (simp add: same_task_def)

lemma same_task_comp: "(\<And>r. same_task r (f r)) \<Longrightarrow> (\<And>r. same_task r (g r)) \<Longrightarrow> same_task r ((g \<circ> f) r)"
  by (metis comp_apply same_task_trans)

lemma same_task_rows [simp]:
  "same_task r (claimed_row cfg now r)" "same_task r (completed_row now r)" "same_task r (ended_row s failure now r)"
  "same_task r (retried_row failure now r)" "same_task r (cancelled_row now r)" "same_task r (interrupted_row nx now r)"
  "same_task r (recover_row err now r)" "same_task r (requeued_row t now r)" "same_task r (session_row sid now r)"
  by (simp_all add: same_task_def claimed_row_def completed_row_def ended_row_def retried_row_def cancelled_row_def
      interrupted_row_def recover_row_def requeued_row_def session_row_def)

lemma legal_refl [simp]: "legal_move r r"
  by (simp add: legal_move_def)

lemma legal_same_task: "legal_move r r' \<Longrightarrow> same_task r r'"
  by (auto simp: legal_move_def)

lemma legal_final: "legal_move r r' \<Longrightarrow> rw_status r \<in> TERMINAL_STATUSES \<Longrightarrow> r' = r"
  by (auto simp: legal_move_def TERMINAL_STATUSES_def)

lemma row_status [simp]:
  "rw_status (claimed_row cfg now r) = Running" "rw_status (completed_row now r) = Completed"
  "rw_status (ended_row s failure now r) = s" "rw_status (retried_row failure now r) = Pending"
  "rw_status (cancelled_row now r) = Cancelled" "rw_status (interrupted_row nx now r) = Pending"
  "rw_status (recover_row err now r) = Pending" "rw_status (requeued_row t now r) = Pending"
  "rw_status (session_row sid now r) = rw_status r"
  by (simp_all add: claimed_row_def completed_row_def ended_row_def retried_row_def cancelled_row_def
      interrupted_row_def recover_row_def requeued_row_def session_row_def)

lemma row_attempts [simp]:
  "rw_attempts (claimed_row cfg now r) = rw_attempts r + 1" "rw_attempts (completed_row now r) = rw_attempts r"
  "rw_attempts (ended_row s failure now r) = rw_attempts r" "rw_attempts (retried_row failure now r) = rw_attempts r"
  "rw_attempts (cancelled_row now r) = rw_attempts r"
  "rw_attempts (interrupted_row nx now r) = (if nx = None then rw_attempts r else 0)"
  "rw_attempts (recover_row err now r) = rw_attempts r" "rw_attempts (requeued_row t now r) = 0"
  "rw_attempts (session_row sid now r) = rw_attempts r"
  by (simp_all add: claimed_row_def completed_row_def ended_row_def retried_row_def cancelled_row_def
      interrupted_row_def recover_row_def requeued_row_def session_row_def split: option.splits)

lemma row_started [simp]:
  "rw_started_at (claimed_row cfg now r) = Some now" "rw_started_at (retried_row failure now r) = None"
  "rw_started_at (interrupted_row nx now r) = None" "rw_started_at (recover_row err now r) = None"
  "rw_started_at (requeued_row t now r) = None" "rw_started_at (session_row sid now r) = rw_started_at r"
  "rw_started_at (completed_row now r) = rw_started_at r" "rw_started_at (ended_row s failure now r) = rw_started_at r"
  "rw_started_at (cancelled_row now r) = rw_started_at r"
  by (simp_all add: claimed_row_def completed_row_def ended_row_def retried_row_def cancelled_row_def
      interrupted_row_def recover_row_def requeued_row_def session_row_def)

lemma row_recurring [simp]:
  "rw_recurring (completed_row now r) = rw_recurring r" "rw_recurring (claimed_row cfg now r) = rw_recurring r"
  "rw_recurring (session_row sid now r) = rw_recurring r"
  by (simp_all add: completed_row_def claimed_row_def session_row_def)

lemma row_id [simp]:
  "rw_id (claimed_row cfg now r) = rw_id r" "rw_id (completed_row now r) = rw_id r" "rw_id (session_row sid now r) = rw_id r"
  "rw_id (ended_row s failure now r) = rw_id r"
  by (simp_all add: claimed_row_def completed_row_def session_row_def ended_row_def)

text \<open>A step of the table that changes one row by a legal move, or none.\<close>

definition one_move :: "string \<Rightarrow> table \<Rightarrow> table \<Rightarrow> bool" where
  "one_move i rows rows' \<longleftrightarrow> rows' = rows \<or>
     (\<exists>r f. keeps_id f \<and> rows' = put_row i f rows \<and> find_row i rows = Some r \<and> legal_move r (f r))"

lemma one_move_put: "keeps_id f \<Longrightarrow> find_row i rows = Some r \<Longrightarrow> legal_move r (f r) \<Longrightarrow> one_move i rows (put_row i f rows)"
  by (auto simp: one_move_def)

lemma one_move_refl [simp]: "one_move i rows rows"
  by (simp add: one_move_def)

text \<open>Whatever is done to the table, its rows stay and move legally.\<close>

definition table_moves :: "table \<Rightarrow> table \<Rightarrow> bool" where
  "table_moves rows rows' \<longleftrightarrow> (table_ok rows \<longrightarrow> table_ok rows') \<and>
     (\<forall>i r. find_row i rows = Some r \<longrightarrow> (\<exists>r'. find_row i rows' = Some r' \<and> legal_move r r'))"

lemma one_move_table: "one_move i rows rows' \<Longrightarrow> table_moves rows rows'"
  by (auto simp: one_move_def table_moves_def queue)

lemma table_moves_refl [simp]: "table_moves rows rows"
  by (auto simp: table_moves_def)

section \<open>Starting a run\<close>

lemma ensure_eq:
  assumes "table_ok (rs_rows st)" and "find_row (tk_id task) (rs_rows st) = Some r" and "rw_status r = Pending"
  shows "ensureSessionBeforeClaim cfg fresh now task st =
    (if tk_sessionId task \<noteq> None then (st, Inr (Some task))
     else if \<not> ro_factory cfg then
       (st\<lparr>rs_rows := put_row (tk_id task) (ended_row Blocked
          \<lparr>fi_category = ToolFailure,
           fi_message = ''session_not_found: task has no session_id and no sessionFactory wired''\<rparr> now) (rs_rows st)\<rparr>, Inr None)
     else ((createSession fresh st)\<lparr>rs_rows := put_row (tk_id task) (session_row fresh now) (rs_rows st)\<rparr>,
       Inr (Some (rowToRecord (ro_store cfg) (session_row fresh now r)))))"
  using assms
  by (simp add: ensureSessionBeforeClaim_def markBlocked_def assignSession_def must_change_eq createSession_def Let_def)

lemma load_eq:
  assumes "table_ok (rs_rows st)" and "find_row (tk_id task) (rs_rows st) = Some r"
  shows "loadOrRecreateSession cfg fresh now task st =
    (case tk_sessionId task of
       None \<Rightarrow> (st, Inr None)
     | Some s \<Rightarrow>
         if s \<in> set (rs_sessions st) then (st, Inr (Some s))
         else if \<not> tk_recurring task \<or> \<not> ro_factory cfg then (st, Inr None)
         else ((createSession fresh st)\<lparr>rs_rows := put_row (tk_id task) (session_row fresh now) (rs_rows st)\<rparr>,
               Inr (Some fresh)))"
  using assms
  by (simp add: loadOrRecreateSession_def assignSession_def must_change_eq createSession_def Let_def split: option.splits)

lemma other_fields [simp]:
  "rs_flights (createSession fresh st) = rs_flights st" "rs_rows (createSession fresh st) = rs_rows st"
  "rs_stopping (createSession fresh st) = rs_stopping st" "rs_runs (createSession fresh st) = rs_runs st"
  "rs_flights (maybeReport cfg task reply st) = rs_flights st" "rs_rows (maybeReport cfg task reply st) = rs_rows st"
  "rs_stopping (maybeReport cfg task reply st) = rs_stopping st" "rs_runs (maybeReport cfg task reply st) = rs_runs st"
  "rs_flights (stampWakeReason cfg s task st) = rs_flights st" "rs_rows (stampWakeReason cfg s task st) = rs_rows st"
  "rs_stopping (stampWakeReason cfg s task st) = rs_stopping st" "rs_runs (stampWakeReason cfg s task st) = rs_runs st"
  "rs_nextRun (stampWakeReason cfg s task st) = rs_nextRun st" "rs_nextRun (createSession fresh st) = rs_nextRun st"
  by (simp_all add: createSession_def maybeReport_def stampWakeReason_def)

lemma put_row_id: "put_row i id rows = rows"
  by (auto simp: put_row_def intro!: map_idI)

definition begun :: "runner_config \<Rightarrow> task_record \<Rightarrow> runner_state \<Rightarrow> runner_state \<times> start_result \<Rightarrow> bool" where
  "begun cfg claimed st res \<longleftrightarrow>
     (case snd res of
        Started n \<Rightarrow> n = rs_nextRun st \<and>
          (\<exists>row. find_row (tk_id claimed) (rs_rows (fst res)) = Some row \<and> rw_status row = Running \<and>
             rw_attempts row = tk_attempts claimed) \<and>
          (\<exists>a b. rs_flights (fst res) = jm_set n \<lparr>if_claimed = claimed, if_aborted = a, if_outer = b\<rparr> (rs_flights st)) \<and>
          rs_runs (fst res) = jm_set (tk_id claimed) n (rs_runs st)
      | StartBlocked x \<Rightarrow>
          rs_flights (fst res) = rs_flights st \<and> rs_runs (fst res) = rs_runs st \<and> tk_status x \<noteq> Pending
      | Skipped t \<Rightarrow> False
      | StartError err \<Rightarrow> rs_flights (fst res) = rs_flights st \<and> rs_runs (fst res) = rs_runs st)"

lemma after_claim_moves:
  assumes "table_ok (rs_rows st)" and "find_row (tk_id claimed) (rs_rows st) = Some r" and "rw_status r = Running"
    and "tk_attempts claimed = rw_attempts r"
  shows "(\<exists>f. rs_rows (fst (after_claim cfg fresh outer now claimed st)) = put_row (tk_id claimed) f (rs_rows st) \<and>
      keeps_id f \<and> same_task r (f r) \<and>
      (rw_status (f r) = Running \<and> rw_started_at (f r) = rw_started_at r \<or> rw_status (f r) = Blocked) \<and>
      rw_attempts (f r) = rw_attempts r) \<and>
    begun cfg claimed st (after_claim cfg fresh outer now claimed st)"
proof -
  have idrow: "rs_rows st = put_row (tk_id claimed) id (rs_rows st)" by (rule put_row_id [symmetric])
  have k: "keeps_id id" by (simp add: keeps_id_def)
  note load = load_eq [OF assms(1,2), of cfg fresh now]
  show ?thesis
  proof (cases "loadOrRecreateSession cfg fresh now claimed st")
    case (Pair st3 res)
    consider "st3 = st \<and> res = Inr None" | s where "st3 = st \<and> res = Inr (Some s)"
      | "st3 = (createSession fresh st)\<lparr>rs_rows := put_row (tk_id claimed) (session_row fresh now) (rs_rows st)\<rparr> \<and>
          res = Inr (Some fresh)"
      using Pair unfolding load by (auto split: option.splits if_splits)
    then show ?thesis
    proof cases
      case 1
      then show ?thesis using Pair assms
        by (auto simp: after_claim_def markBlocked_def must_change_eq begun_def
            intro!: exI [where x = "ended_row Blocked _ now"])
    next
      case 2
      then show ?thesis using Pair assms idrow k
        by (auto simp: after_claim_def beginRun_def begun_def Let_def queue intro!: exI [where x = id])
    next
      case 3
      then show ?thesis using Pair assms
        by (auto simp: after_claim_def beginRun_def begun_def Let_def queue intro!: exI [where x = "session_row fresh now"])
    qed
  qed
qed

definition start_flights :: "runner_config \<Rightarrow> string \<Rightarrow> runner_state \<Rightarrow> runner_state \<times> start_result \<Rightarrow> bool" where
  "start_flights cfg i st res \<longleftrightarrow>
     (case snd res of
        Started n \<Rightarrow> n = rs_nextRun st \<and>
          (\<exists>row. find_row i (rs_rows (fst res)) = Some row \<and> rw_status row = Running \<and>
             (\<forall>r. find_row i (rs_rows st) = Some r \<longrightarrow> rw_attempts row = rw_attempts r + 1)) \<and>
          (\<exists>r r0 a b. find_row i (rs_rows st) = Some r \<and> rw_status r = Pending \<and> same_task r r0 \<and> rw_status r0 = Running \<and>
             rw_attempts r0 = rw_attempts r + 1 \<and>
             rs_flights (fst res) =
               jm_set n \<lparr>if_claimed = rowToRecord (ro_store cfg) r0, if_aborted = a, if_outer = b\<rparr> (rs_flights st))
      | Skipped t \<Rightarrow> rs_flights (fst res) = rs_flights st \<and> (\<forall>x. t = Some x \<longrightarrow> tk_status x \<noteq> Pending)
      | StartBlocked x \<Rightarrow> rs_flights (fst res) = rs_flights st \<and> tk_status x \<noteq> Pending
      | StartError err \<Rightarrow> rs_flights (fst res) = rs_flights st)"

lemma startRun_moves:
  assumes "table_ok (rs_rows st)"
  shows "one_move i (rs_rows st) (rs_rows (fst (startRun cfg fresh i outer now st))) \<and>
    start_flights cfg i st (startRun cfg fresh i outer now st)"
proof (cases "rs_stopping st \<or> find_row i (rs_rows st) = None")
  case True
  then show ?thesis by (auto simp: startRun_def get_task_def start_flights_def)
next
  case False
  then obtain r where r: "find_row i (rs_rows st) = Some r" by auto
  then have id: "rw_id r = i" by (rule find_row_id)
  show ?thesis
  proof (cases "rw_status r = Pending")
    case False
    then show ?thesis using r by (auto simp: startRun_def get_task_def start_flights_def)
  next
    case True
    let ?task = "rowToRecord (ro_store cfg) r"
    let ?rows = "rs_rows st"
    have at: "find_row (tk_id ?task) ?rows = Some r" using r id by simp
    note ens = ensure_eq [OF assms at True, of cfg fresh now]
    consider "rw_session_id r = None" "\<not> ro_factory cfg" | "rw_session_id r \<noteq> None"
      | "rw_session_id r = None" "ro_factory cfg" by blast
    then show ?thesis
    proof cases
      case 1
      then show ?thesis using \<open>\<not> (rs_stopping st \<or> find_row i (rs_rows st) = None)\<close> r True id ens
        by (auto simp: startRun_def get_task_def start_flights_def legal_move_def queue intro!: one_move_put)
    next
      case 2
      let ?r1 = "claimed_row (ro_store cfg) now r"
      let ?st1 = "st\<lparr>rs_rows := put_row i (claimed_row (ro_store cfg) now) ?rows\<rparr>"
      let ?c = "rowToRecord (ro_store cfg) ?r1"
      have run: "startRun cfg fresh i outer now st = after_claim cfg fresh outer now ?c ?st1"
        using 2 \<open>\<not> (rs_stopping st \<or> find_row i (rs_rows st) = None)\<close> r True id ens assms
        by (simp add: startRun_def get_task_def markRunning_eq)
      have "table_ok (rs_rows ?st1)" "find_row (tk_id ?c) (rs_rows ?st1) = Some ?r1" "rw_status ?r1 = Running"
        "tk_attempts ?c = rw_attempts ?r1"
        using assms r id by (simp_all add: queue)
      note ac = after_claim_moves [OF this, of cfg fresh outer now]
      from ac obtain f where f: "rs_rows (fst (startRun cfg fresh i outer now st)) =
          put_row i (f \<circ> claimed_row (ro_store cfg) now) ?rows" "keeps_id f" "same_task ?r1 (f ?r1)"
          "rw_status (f ?r1) = Running \<and> rw_started_at (f ?r1) = rw_started_at ?r1 \<or> rw_status (f ?r1) = Blocked"
          "rw_attempts (f ?r1) = rw_attempts ?r1"
        unfolding run using id by (auto simp: put_row_twice)
      have "legal_move r ((f \<circ> claimed_row (ro_store cfg) now) r)"
        using f(3-5) same_task_trans [OF same_task_rows(1) f(3)] True by (auto simp: legal_move_def)
      moreover have "start_flights cfg i st (startRun cfg fresh i outer now st)"
        unfolding run start_flights_def using ac r True
        by (auto simp: begun_def id split: start_result.splits intro!: exI [where x = ?r1])
      ultimately show ?thesis unfolding f(1) using f(2) r by (auto intro!: one_move_put)
    next
      case 3
      let ?r0 = "session_row fresh now r"
      let ?r1 = "claimed_row (ro_store cfg) now ?r0"
      let ?st1 = "(createSession fresh st)\<lparr>rs_rows := put_row i (claimed_row (ro_store cfg) now \<circ> session_row fresh now) ?rows\<rparr>"
      let ?c = "rowToRecord (ro_store cfg) ?r1"
      have run: "startRun cfg fresh i outer now st = after_claim cfg fresh outer now ?c ?st1"
        using 3 \<open>\<not> (rs_stopping st \<or> find_row i (rs_rows st) = None)\<close> r True id ens assms
        by (simp add: startRun_def get_task_def markRunning_eq queue put_row_twice)
      have "table_ok (rs_rows ?st1)" "find_row (tk_id ?c) (rs_rows ?st1) = Some ?r1" "rw_status ?r1 = Running"
        "tk_attempts ?c = rw_attempts ?r1"
        using assms r id by (simp_all add: queue)
      note ac = after_claim_moves [OF this, of cfg fresh outer now]
      from ac obtain f where f: "rs_rows (fst (startRun cfg fresh i outer now st)) =
          put_row i (f \<circ> (claimed_row (ro_store cfg) now \<circ> session_row fresh now)) ?rows" "keeps_id f" "same_task ?r1 (f ?r1)"
          "rw_status (f ?r1) = Running \<and> rw_started_at (f ?r1) = rw_started_at ?r1 \<or> rw_status (f ?r1) = Blocked"
          "rw_attempts (f ?r1) = rw_attempts ?r1"
        unfolding run using id by (auto simp: put_row_twice)
      have s1: "same_task r ?r1" by (rule same_task_trans [OF same_task_rows(9) same_task_rows(1)])
      have "legal_move r ((f \<circ> (claimed_row (ro_store cfg) now \<circ> session_row fresh now)) r)"
        using f(3-5) same_task_trans [OF s1 f(3)] True by (auto simp: legal_move_def)
      moreover have "start_flights cfg i st (startRun cfg fresh i outer now st)"
        unfolding run start_flights_def using ac r True s1
        by (auto simp: begun_def id split: start_result.splits intro!: exI [where x = ?r1])
      ultimately show ?thesis unfolding f(1) using f(2) r by (auto intro!: one_move_put)
    qed
  qed
qed

section \<open>Finishing a run\<close>

definition run_moves :: "string \<Rightarrow> runner_state \<Rightarrow> runner_state \<Rightarrow> bool" where
  "run_moves i st st' \<longleftrightarrow> one_move i (rs_rows st) (rs_rows st') \<and> rs_flights st' = rs_flights st \<and>
     rs_runs st' = rs_runs st \<and> rs_stopping st' = rs_stopping st \<and> rs_nextRun st' = rs_nextRun st"

lemma run_moves_refl [simp]: "run_moves i st st"
  by (simp add: run_moves_def)

lemma run_moves_put:
  "keeps_id f \<Longrightarrow> find_row i (rs_rows st) = Some r \<Longrightarrow> legal_move r (f r) \<Longrightarrow> run_moves i st (st\<lparr>rs_rows := put_row i f (rs_rows st)\<rparr>)"
  by (simp add: run_moves_def one_move_put)

lemma run_moves_report [simp]: "run_moves i st (maybeReport cfg task reply st') = run_moves i st st'"
  by (simp add: run_moves_def maybeReport_def)

lemma handleFailure_moves:
  assumes "table_ok (rs_rows st)" and "find_row (tk_id task) (rs_rows st) = Some r" and "rw_status r = Running"
  shows "run_moves (tk_id task) st (fst (handleFailure cfg task category message now st))"
  using assms
  by (auto simp: handleFailure_def Let_def markBlocked_def markFailed_def markRetry_def must_change_eq legal_move_def
      intro!: run_moves_put)

lemma handleCancelled_moves:
  assumes "table_ok (rs_rows st)" and "find_row (tk_id task) (rs_rows st) = Some r" and "rw_status r = Running"
    and "tk_recurring task = rw_recurring r"
  shows "run_moves (tk_id task) st (fst (handleCancelled cfg task message interrupted now st))"
  using assms
  by (auto simp: handleCancelled_def Let_def markInterrupted_eq cancel_task_eq legal_move_def
      intro!: run_moves_put split: option.splits sum.splits bool.splits)

lemma completed_moves:
  assumes "table_ok (rs_rows st)" and "find_row i (rs_rows st) = Some r" and "rw_status r = Running" and "rw_id r = i"
  shows "run_moves i st (fst (maybeRequeueRecurring cfg (rowToRecord c (completed_row now r)) now
      (maybeReport cfg task reply (st\<lparr>rs_rows := put_row i (completed_row now) (rs_rows st)\<rparr>))))"
proof -
  have "legal_move r ((requeued_row t now \<circ> completed_row now) r)" if "rw_recurring r" for t
    using assms(3) that same_task_trans [OF same_task_rows(2) same_task_rows(8)] by (auto simp: legal_move_def)
  moreover have "legal_move r (completed_row now r)" using assms(3) by (simp add: legal_move_def)
  ultimately show ?thesis using assms
    by (auto simp: maybeRequeueRecurring_def requeueRecurring_def must_change_eq queue put_row_twice
        run_moves_def other_fields maybeReport_def intro!: one_move_put split: option.splits sum.splits bool.splits)
qed

definition flight_ok :: "runner_config \<Rightarrow> table \<Rightarrow> in_flight \<Rightarrow> bool" where
  "flight_ok cfg rows run \<longleftrightarrow> (\<exists>r0 r. if_claimed run = rowToRecord (ro_store cfg) r0 \<and>
     find_row (rw_id r0) rows = Some r \<and> same_task r0 r)"

lemma settle_moves:
  assumes "table_ok (rs_rows st)" and "flight_ok cfg (rs_rows st) run"
  shows "run_moves (tk_id (if_claimed run)) st (fst (settle_run cfg run outcome now st))"
proof (cases "endedElsewhere cfg (if_claimed run) (rs_rows st)")
  case True
  then show ?thesis by (simp add: settle_run_def)
next
  case False
  obtain r0 r where c: "if_claimed run = rowToRecord (ro_store cfg) r0"
    and at: "find_row (tk_id (if_claimed run)) (rs_rows st) = Some r" and same: "same_task r0 r"
    using assms(2) by (auto simp: flight_ok_def)
  have run: "rw_status r = Running" using False at by (simp add: endedElsewhere_def get_task_def)
  have rec: "tk_recurring (if_claimed run) = rw_recurring r" using c same by (simp add: same_task_def)
  note hf = handleFailure_moves [OF assms(1) at run] and hc = handleCancelled_moves [OF assms(1) at run rec]
    and cm = completed_moves [OF assms(1) at run find_row_id [OF at]]
  show ?thesis
    using False hf hc cm at run assms(1)
    by (auto simp: settle_run_def Let_def markCompleted_def must_change_eq split: turn_outcome.splits)
qed

section \<open>The system of runners\<close>

datatype runner_op =
    OpCreate task_create_input string string int
  | OpStart string string bool int
  | OpFinish nat turn_outcome int
  | OpOuterAbort nat
  | OpCancel string int
  | OpStop
  | OpSweep int int
  | OpImport "task_record list"
  | OpForgetSession string

fun runner_step :: "runner_config \<Rightarrow> runner_op \<Rightarrow> runner_state \<Rightarrow> runner_state" where
  "runner_step cfg (OpCreate input fresh freshId now) st = fst (createTask cfg input fresh freshId now st)"
| "runner_step cfg (OpStart fresh i outer now) st = fst (startRun cfg fresh i outer now st)"
| "runner_step cfg (OpFinish n outcome now) st = fst (finishRun cfg n outcome now st)"
| "runner_step cfg (OpOuterAbort n) st = outer_abort n st"
| "runner_step cfg (OpCancel i now) st = fst (cancelTask cfg i now st)"
| "runner_step cfg OpStop st = fst (stopRunner st)"
| "runner_step cfg (OpSweep staleAfterMs now) st =
     st\<lparr>rs_rows := fst (recoverInterrupted (ro_store cfg) staleAfterMs now (rs_rows st))\<rparr>"
| "runner_step cfg (OpImport records) st = st\<lparr>rs_rows := fst (insertMissing records (rs_rows st))\<rparr>"
| "runner_step cfg (OpForgetSession s) st = st\<lparr>rs_sessions := filter (\<lambda>t. t \<noteq> s) (rs_sessions st)\<rparr>"

text \<open>
  Several processes share the table and the sessions; each has its runner. A step is one atomic
  operation of one process.
\<close>

record queue_system =
  qs_rows :: table
  qs_sessions :: "string list"
  qs_runner :: "nat \<Rightarrow> runner_state"

definition view_of :: "nat \<Rightarrow> queue_system \<Rightarrow> runner_state" where
  "view_of p sys = (qs_runner sys p)\<lparr>rs_rows := qs_rows sys, rs_sessions := qs_sessions sys\<rparr>"

definition sys_step :: "(nat \<Rightarrow> runner_config) \<Rightarrow> nat \<times> runner_op \<Rightarrow> queue_system \<Rightarrow> queue_system" where
  "sys_step cfgs act sys =
     (let st = runner_step (cfgs (fst act)) (snd act) (view_of (fst act) sys)
      in \<lparr>qs_rows = rs_rows st, qs_sessions = rs_sessions st, qs_runner = (qs_runner sys)(fst act := st)\<rparr>)"

definition sys_run :: "(nat \<Rightarrow> runner_config) \<Rightarrow> (nat \<times> runner_op) list \<Rightarrow> queue_system \<Rightarrow> queue_system" where
  "sys_run cfgs acts sys = fold (sys_step cfgs) acts sys"

definition newRunner :: runner_state where
  "newRunner = \<lparr>rs_rows = [], rs_sessions = [], rs_runs = [], rs_flights = [], rs_nextRun = 0, rs_stopping = False,
     rs_reports = [], rs_wakes = []\<rparr>"

definition newSystem :: queue_system where
  "newSystem = \<lparr>qs_rows = [], qs_sessions = [], qs_runner = (\<lambda>p. newRunner)\<rparr>"

inductive sys_reach :: "(nat \<Rightarrow> runner_config) \<Rightarrow> queue_system \<Rightarrow> bool" for cfgs where
  Init: "sys_reach cfgs newSystem"
| Step: "sys_reach cfgs sys \<Longrightarrow> sys_reach cfgs (sys_step cfgs act sys)"

definition flights_ok :: "runner_config \<Rightarrow> table \<Rightarrow> runner_state \<Rightarrow> bool" where
  "flights_ok cfg rows st \<longleftrightarrow> (\<forall>n run. jm_get (rs_flights st) n = Some run \<longrightarrow> flight_ok cfg rows run)"

definition sys_ok :: "(nat \<Rightarrow> runner_config) \<Rightarrow> queue_system \<Rightarrow> bool" where
  "sys_ok cfgs sys \<longleftrightarrow> table_ok (qs_rows sys) \<and> (\<forall>p. flights_ok (cfgs p) (qs_rows sys) (qs_runner sys p))"

lemma flight_ok_moves: "flight_ok cfg rows run \<Longrightarrow> table_moves rows rows' \<Longrightarrow> flight_ok cfg rows' run"
  by (meson flight_ok_def legal_same_task same_task_trans table_moves_def)

lemma flights_ok_moves: "flights_ok cfg rows st \<Longrightarrow> table_moves rows rows' \<Longrightarrow> flights_ok cfg rows' st"
  by (meson flight_ok_moves flights_ok_def)

lemma insert_moves: "table_ok rows \<Longrightarrow> find_row (rw_id row) rows = None \<Longrightarrow> table_moves rows (rows @ [row])"
  by (auto simp: table_moves_def table_ok_def find_row_None)

lemma table_moves_pending: "table_ok rows \<Longrightarrow> table_moves rows (fst (recoverInterrupted cfg s now rows))"
  using recover_view [where rows = rows and cfg = cfg and s = s and now = now]
  by (auto simp: table_moves_def legal_move_def)

text \<open>Insertions only add rows, so they compose.\<close>

definition table_extends :: "table \<Rightarrow> table \<Rightarrow> bool" where
  "table_extends rows rows' \<longleftrightarrow> (table_ok rows \<longrightarrow> table_ok rows') \<and>
     (\<forall>i r. find_row i rows = Some r \<longrightarrow> find_row i rows' = Some r)"

lemma import_extends: "table_extends rows (fst (insertMissing records rows))"
proof (induction records arbitrary: rows)
  case Nil
  show ?case by (simp add: table_extends_def)
next
  case (Cons r records)
  let ?row = "recordToRow (unclaimed r)"
  have "table_extends rows (fst (insert_row ?row rows))"
    by (auto simp: insert_row_def table_extends_def table_ok_def find_row_None)
  moreover have "table_extends (fst (insert_row ?row rows)) (fst (insertMissing records (fst (insert_row ?row rows))))"
    by (rule Cons.IH)
  ultimately show ?case by (auto simp: table_extends_def case_prod_beta Let_def)
qed

lemma extends_moves: "table_extends rows rows' \<Longrightarrow> table_moves rows rows'"
  by (auto simp: table_extends_def table_moves_def)

lemma create_moves:
  "table_ok rows \<Longrightarrow> table_moves rows (fst (create_task cfg input freshId now rows))"
  using insert_moves [of rows] by (auto simp: create_task_def split: sum.splits)

lemma cancel_moves:
  assumes "table_ok rows"
  shows "table_moves rows (fst (cancel_task cfg i now rows))"
proof (cases "find_row i rows")
  case None
  then show ?thesis using assms by (simp add: cancel_task_eq)
next
  case (Some r)
  then have "rw_status r = Pending \<or> rw_status r = Running \<Longrightarrow> one_move i rows (put_row i (cancelled_row now) rows)"
    by (auto simp: legal_move_def intro!: one_move_put)
  then show ?thesis using assms Some by (auto simp: cancel_task_eq intro: one_move_table)
qed

lemma createTask_moves:
  assumes "table_ok (rs_rows st)"
  shows "table_moves (rs_rows st) (rs_rows (fst (createTask cfg input fresh freshId now st))) \<and>
    rs_flights (fst (createTask cfg input fresh freshId now st)) = rs_flights st"
  using create_moves [OF assms, of "ro_store cfg" _ freshId now]
  by (auto simp: createTask_def Let_def split: prod.splits sum.splits) (metis fst_conv)+

lemma flights_set:
  "flights_ok cfg rows st \<Longrightarrow> rs_flights st' = jm_set n run (rs_flights st) \<Longrightarrow> flight_ok cfg rows run \<Longrightarrow> flights_ok cfg rows st'"
  by (auto simp: flights_ok_def split: if_splits)

lemma flights_same: "flights_ok cfg rows st \<Longrightarrow> rs_flights st' = rs_flights st \<Longrightarrow> flights_ok cfg rows st'"
  by (simp add: flights_ok_def)

lemma abort_ok: "flights_ok cfg rows st \<Longrightarrow> flights_ok cfg rows (abort_flight n st) \<and> flights_ok cfg rows (outer_abort n st)"
  by (auto simp: flights_ok_def abort_flight_def outer_abort_def flight_ok_def split: option.splits if_splits)

lemma abort_rows [simp]: "rs_rows (abort_flight n st) = rs_rows st" "rs_rows (outer_abort n st) = rs_rows st"
  by (simp_all add: abort_flight_def outer_abort_def split: option.splits)

lemma abort_all: "flights_ok cfg rows st \<Longrightarrow>
    flights_ok cfg rows (fold abort_flight ns st) \<and> rs_rows (fold abort_flight ns st) = rs_rows st"
  by (induction ns arbitrary: st) (simp_all add: abort_ok)

text \<open>Every operation of a runner moves the table legally and keeps its runs tied to their rows.\<close>

lemma start_step:
  assumes "table_ok (rs_rows st)" and "flights_ok cfg (rs_rows st) st"
  shows "table_moves (rs_rows st) (rs_rows (fst (startRun cfg fresh i outer now st))) \<and>
    flights_ok cfg (rs_rows (fst (startRun cfg fresh i outer now st))) (fst (startRun cfg fresh i outer now st))"
proof -
  let ?res = "startRun cfg fresh i outer now st"
  note sm = startRun_moves [OF assms(1), of i cfg fresh outer now]
  then have tm: "table_moves (rs_rows st) (rs_rows (fst ?res))" by (blast intro: one_move_table)
  note old = flights_ok_moves [OF assms(2) tm]
  have "flights_ok cfg (rs_rows (fst ?res)) (fst ?res)"
  proof (cases "snd ?res")
    case (Started n)
    with sm obtain r r0 a b where r: "find_row i (rs_rows st) = Some r" "same_task r r0"
      and fl: "rs_flights (fst ?res) = jm_set n \<lparr>if_claimed = rowToRecord (ro_store cfg) r0, if_aborted = a, if_outer = b\<rparr> (rs_flights st)"
      by (auto simp: start_flights_def)
    have at: "find_row (rw_id r0) (rs_rows st) = Some r" using r find_row_id [OF r(1)] by (simp add: same_task_def)
    then obtain r' where r': "find_row (rw_id r0) (rs_rows (fst ?res)) = Some r'" "legal_move r r'"
      using tm by (auto simp: table_moves_def)
    have "same_task r0 r'" using r(2) legal_same_task [OF r'(2)] by (simp add: same_task_def)
    with r' show ?thesis by (intro flights_set [OF old fl]) (auto simp: flight_ok_def)
  qed (use sm old in \<open>auto simp: start_flights_def intro: flights_same\<close>)
  with tm show ?thesis by blast
qed

lemma finish_step:
  assumes "table_ok (rs_rows st)" and "flights_ok cfg (rs_rows st) st"
  shows "table_moves (rs_rows st) (rs_rows (fst (finishRun cfg n outcome now st))) \<and>
    flights_ok cfg (rs_rows (fst (finishRun cfg n outcome now st))) (fst (finishRun cfg n outcome now st))"
proof (cases "jm_get (rs_flights st) n")
  case None
  then show ?thesis using assms by (simp add: finishRun_def)
next
  case (Some run)
  then have "flight_ok cfg (rs_rows st) run" using assms(2) by (simp add: flights_ok_def)
  note sm = settle_moves [OF assms(1) this, of outcome now]
  then have tm: "table_moves (rs_rows st) (rs_rows (fst (settle_run cfg run outcome now st)))"
    by (auto simp: run_moves_def intro: one_move_table)
  have "flights_ok cfg (rs_rows (fst (settle_run cfg run outcome now st))) (fst (settle_run cfg run outcome now st))"
    using flights_ok_moves [OF assms(2) tm] sm by (auto simp: run_moves_def intro: flights_same)
  then show ?thesis using Some tm
    by (auto simp: finishRun_def end_run_def flights_ok_def case_prod_beta)
qed

lemma cancel_step:
  assumes "table_ok (rs_rows st)" and "flights_ok cfg (rs_rows st) st"
  shows "table_moves (rs_rows st) (rs_rows (fst (cancelTask cfg i now st))) \<and>
    flights_ok cfg (rs_rows (fst (cancelTask cfg i now st))) (fst (cancelTask cfg i now st))"
proof -
  obtain rows res where c: "cancel_task (ro_store cfg) i now (rs_rows st) = (rows, res)" by fastforce
  have tm: "table_moves (rs_rows st) rows" using cancel_moves [OF assms(1), of "ro_store cfg" i now] c by simp
  let ?st1 = "st\<lparr>rs_rows := rows\<rparr>"
  have ok: "flights_ok cfg rows ?st1" using flights_ok_moves [OF assms(2) tm] by (simp add: flights_ok_def)
  have "rs_rows (fst (cancelTask cfg i now st)) = rows \<and> (fst (cancelTask cfg i now st) = ?st1 \<or>
      (\<exists>n. fst (cancelTask cfg i now st) = abort_flight n ?st1))"
    using c by (auto simp: cancelTask_def Let_def split: sum.splits option.splits)
  then have "rs_rows (fst (cancelTask cfg i now st)) = rows" and "flights_ok cfg rows (fst (cancelTask cfg i now st))"
    using ok abort_ok [OF ok] by metis+
  then show ?thesis using tm by simp
qed

lemma step_ok:
  assumes "table_ok (rs_rows st)" and "flights_ok cfg (rs_rows st) st"
  shows "table_moves (rs_rows st) (rs_rows (runner_step cfg op st)) \<and>
    flights_ok cfg (rs_rows (runner_step cfg op st)) (runner_step cfg op st)"
proof (cases op)
  case (OpCreate input fresh freshId now)
  note cm = createTask_moves [OF assms(1), of cfg input fresh freshId now]
  then show ?thesis using flights_ok_moves [OF assms(2)] OpCreate by (auto intro: flights_same)
next
  case (OpSweep s now)
  note tm = table_moves_pending [OF assms(1), of "ro_store cfg" s now]
  then show ?thesis using flights_ok_moves [OF assms(2) tm] OpSweep by (simp add: flights_ok_def)
next
  case (OpImport records)
  note tm = extends_moves [OF import_extends, of "rs_rows st" records]
  then show ?thesis using flights_ok_moves [OF assms(2) tm] OpImport by (simp add: flights_ok_def)
next
  case OpStop
  have "flights_ok cfg (rs_rows st) (st\<lparr>rs_stopping := True\<rparr>)" using assms(2) by (simp add: flights_ok_def)
  from abort_all [OF this] show ?thesis using OpStop by (simp add: stopRunner_def Let_def)
qed (use assms start_step [OF assms] finish_step [OF assms] cancel_step [OF assms] abort_ok [OF assms(2)] in
      \<open>auto simp: flights_ok_def\<close>)

lemma sys_moves:
  assumes "sys_ok cfgs sys"
  shows "table_moves (qs_rows sys) (qs_rows (sys_step cfgs act sys)) \<and> sys_ok cfgs (sys_step cfgs act sys)"
proof -
  obtain p op where act: "act = (p, op)" by (cases act)
  let ?st = "view_of p sys"
  have v: "rs_rows ?st = qs_rows sys" "rs_flights ?st = rs_flights (qs_runner sys p)" by (simp_all add: view_of_def)
  have "table_ok (rs_rows ?st)" and "flights_ok (cfgs p) (rs_rows ?st) ?st"
    using assms by (auto simp: sys_ok_def v flights_ok_def)
  note so = step_ok [OF this, of op]
  then have tm: "table_moves (qs_rows sys) (rs_rows (runner_step (cfgs p) op ?st))" by (simp add: v)
  moreover have "sys_ok cfgs (sys_step cfgs act sys)"
    using assms so tm flights_ok_moves [OF _ tm]
    by (auto simp: sys_ok_def sys_step_def act Let_def table_moves_def)
  ultimately show ?thesis by (simp add: sys_step_def act Let_def)
qed

lemma sys_ok_init: "sys_ok cfgs newSystem"
  by (simp add: sys_ok_def newSystem_def table_ok_def flights_ok_def newRunner_def)

lemma sys_reach_ok: "sys_reach cfgs sys \<Longrightarrow> sys_ok cfgs sys"
  by (induction rule: sys_reach.induct) (simp_all add: sys_ok_init sys_moves)

lemma final_stays:
  assumes "sys_ok cfgs sys" and "find_row i (qs_rows sys) = Some r" and "rw_status r \<in> TERMINAL_STATUSES"
  shows "find_row i (qs_rows (sys_run cfgs acts sys)) = Some r"
  using assms
proof (induction acts arbitrary: sys)
  case Nil
  then show ?case by (simp add: sys_run_def)
next
  case (Cons act acts)
  from sys_moves [OF Cons.prems(1), of act] Cons.prems(2,3)
  have "find_row i (qs_rows (sys_step cfgs act sys)) = Some r" and "sys_ok cfgs (sys_step cfgs act sys)"
    by (auto simp: table_moves_def dest: legal_final)
  from Cons.IH [OF this(2,1) Cons.prems(3)] show ?case by (simp add: sys_run_def)
qed

end
