(* ===== verification/Task_Drain.thy ===== *)
theory Task_Drain
  imports Task_System
begin

text \<open>
  Why the drain of a task ends: a run whose record is pending again either was put back for later (a
  stopped run, a rearmed recurring task) or is a retry, which spends one attempt of the budget
  (\<open>runOne_retries\<close>). \<open>runs_left\<close> is the measure. \<open>cron_after\<close> is what the code relies on from
  cron-parser: \<open>next()\<close> is strictly after the start it was given.
\<close>

section \<open>Draining a task ends\<close>

definition cron_after :: "cron_parser \<Rightarrow> bool" where
  "cron_after cron \<longleftrightarrow> (\<forall>e tz from it t. cron e tz from = Inr it \<longrightarrow> it 0 = Inr t \<longrightarrow> from < t)"

lemma resolve_after:
  "cron_after cron \<Longrightarrow> isRecurring (Some s) \<Longrightarrow> resolveScheduledFor cron s from = Inr t \<Longrightarrow> from < t"
  by (cases s)
     (auto simp: resolveScheduledFor_def isRecurring_def cron_after_def validateSchedule_def
       SCHEDULE_INTERVAL_MIN_MS_def split: option.splits sum.splits if_splits)

text \<open>The recurring column agrees with the schedule columns, as \<open>create\<close> writes them.\<close>

definition recurring_ok :: "store_config \<Rightarrow> task_row \<Rightarrow> bool" where
  "recurring_ok cfg r \<longleftrightarrow>
     (\<forall>s. parseScheduleRow (sc_String cfg) (rw_schedule_kind r) (rw_schedule_value r) = Some s \<longrightarrow>
        rw_recurring r \<longrightarrow> isRecurring (Some s))"

lemma recurring_ok_same: "same_task r r' \<Longrightarrow> recurring_ok cfg r = recurring_ok cfg r'"
  by (simp add: same_task_def recurring_ok_def)

text \<open>What a drain does next with the record of a run.\<close>

definition retries :: "int \<Rightarrow> task_record \<Rightarrow> bool" where
  "retries now r \<longleftrightarrow> tk_status r = Pending \<and> tk_lastErrorCategory r \<noteq> Some CancelledFailure \<and>
     \<not> (tk_recurring r \<and> tk_attempts r = 0 \<and> (case tk_scheduledFor r of None \<Rightarrow> False | Some t \<Rightarrow> t > now))"

definition retried_from :: "runner_config \<Rightarrow> task_row \<Rightarrow> runner_state \<Rightarrow> task_record \<Rightarrow> bool" where
  "retried_from cfg r st1 r1 \<longleftrightarrow> (\<exists>row. r1 = rowToRecord (ro_store cfg) row \<and> find_row (rw_id r) (rs_rows st1) = Some row \<and>
     same_task r row \<and> rw_attempts row = rw_attempts r + 1 \<and> rw_attempts r + 1 < rw_max_attempts r)"

lemma handleCancelled_stops:
  assumes "table_ok (rs_rows st)" and "find_row (tk_id task) (rs_rows st) = Some r" and "rw_status r = Running"
    and "handleCancelled cfg task message interrupted now st = (st1, Inr (Some r1))"
  shows "\<not> retries now' r1"
  using assms
  by (auto simp: handleCancelled_def Let_def markInterrupted_eq cancel_task_eq retries_def interrupted_row_def
      split: option.splits sum.splits bool.splits if_splits)

lemma handleFailure_retries:
  assumes "table_ok (rs_rows st)" and "find_row (tk_id task) (rs_rows st) = Some r" and "rw_status r = Running"
    and "handleFailure cfg task category message now st = (st1, Inr (Some r1))" and "retries now' r1"
  shows "tk_attempts task < tk_maxAttempts task \<and>
    r1 = rowToRecord (ro_store cfg) (retried_row \<lparr>fi_category = category, fi_message = message\<rparr> now r) \<and>
    rs_rows st1 = put_row (tk_id task) (retried_row \<lparr>fi_category = category, fi_message = message\<rparr> now) (rs_rows st)"
  using assms
  by (auto simp: handleFailure_def Let_def markBlocked_def markFailed_def markRetry_def must_change_eq retries_def
      split: if_splits)

lemma completed_stops:
  assumes "table_ok (rs_rows st)" and "find_row i (rs_rows st) = Some r" and "rw_id r = i" and "cron_after (ro_cron cfg)"
    and "recurring_ok (ro_store cfg) r"
    and "maybeRequeueRecurring cfg (rowToRecord (ro_store cfg) (completed_row now r)) now
      (maybeReport cfg task reply (st\<lparr>rs_rows := put_row i (completed_row now) (rs_rows st)\<rparr>)) = (st1, Inr (Some r1))"
  shows "\<not> retries now r1"
proof (cases "rw_recurring r \<and> tk_schedule (rowToRecord (ro_store cfg) (completed_row now r)) \<noteq> None")
  case False
  then show ?thesis using assms(6) by (auto simp: maybeRequeueRecurring_def retries_def split: bool.splits option.splits)
next
  case True
  then obtain s where s: "parseScheduleRow (sc_String (ro_store cfg)) (rw_schedule_kind (completed_row now r))
      (rw_schedule_value (completed_row now r)) = Some s" by auto
  then have "isRecurring (Some s)" using True assms(5) by (simp add: recurring_ok_def completed_row_def)
  note after = resolve_after [OF assms(4) this]
  have at: "find_row i (put_row i (completed_row now) (rs_rows st)) = Some (completed_row now r)"
    using assms(2) by (simp add: queue)
  show ?thesis
    using assms(1,3,6) True s at after
    by (auto simp: maybeRequeueRecurring_def resolveNextRecurring_def requeueRecurring_def must_change_eq queue retries_def
        requeued_row_def completed_row_def split: sum.splits)
qed

lemma settle_retries:
  assumes "table_ok (rs_rows st)" and "if_claimed run = rowToRecord (ro_store cfg) r0"
    and "find_row (rw_id r0) (rs_rows st) = Some r'" and "same_task r0 r'" and "rw_attempts r' = rw_attempts r0"
    and "rw_status r' \<noteq> Pending" and "cron_after (ro_cron cfg)" and "recurring_ok (ro_store cfg) r0"
    and "settle_run cfg run outcome now st = (st1, Inr (Some r1))" and "retries now r1"
  shows "\<exists>row. r1 = rowToRecord (ro_store cfg) row \<and> find_row (rw_id r0) (rs_rows st1) = Some row \<and>
    same_task r0 row \<and> rw_attempts row = rw_attempts r0 \<and> rw_attempts r0 < rw_max_attempts r0"
proof (cases "endedElsewhere cfg (if_claimed run) (rs_rows st)")
  case True
  then have "r1 = rowToRecord (ro_store cfg) r'" using assms(2,3,9) by (auto simp: settle_run_def get_task_def)
  then show ?thesis using assms(6,10) by (simp add: retries_def)
next
  case False
  let ?c = "if_claimed run"
  have at: "find_row (tk_id ?c) (rs_rows st) = Some r'" using assms(2,3) by simp
  have run: "rw_status r' = Running" using False at by (simp add: endedElsewhere_def get_task_def)
  have rok: "recurring_ok (ro_store cfg) r'" using assms(4,8) recurring_ok_same by blast
  have id: "rw_id r' = tk_id ?c" by (rule find_row_id [OF at])
  note hc = handleCancelled_stops [OF assms(1) at run] and hf = handleFailure_retries [OF assms(1) at run]
    and cs = completed_stops [OF assms(1) at id assms(7) rok]
  obtain cat msg where "handleFailure cfg ?c cat msg now st = (st1, Inr (Some r1))"
    using assms(9,10) False hc cs at run assms(1)
    by (auto simp: settle_run_def Let_def markCompleted_def must_change_eq
        split: turn_outcome.splits if_splits)
  from hf [OF this assms(10)] show ?thesis
    using assms(2,3,4,5) same_task_trans [OF assms(4) same_task_rows(4)] at
    by (auto simp: queue)
qed

lemma runOne_retries:
  assumes "table_ok (rs_rows st)" and "find_row i (rs_rows st) = Some r"
    and "cron_after (ro_cron cfg)" and "recurring_ok (ro_store cfg) r"
    and "runOne cfg w k i st = (st1, Inr (Some r1))" and "retries (dw_now w (2 * k + 1)) r1"
  shows "retried_from cfg r st1 r1 \<and> table_ok (rs_rows st1)"
proof -
  let ?s = "startRun cfg (dw_fresh w k) i (dw_aborted w k) (dw_now w (2 * k)) st"
  obtain st0 res where s: "?s = (st0, res)" by fastforce
  note sm = startRun_moves [OF assms(1), of i cfg "dw_fresh w k" "dw_aborted w k" "dw_now w (2 * k)"]
  have ok0: "table_ok (rs_rows st0)" and om: "one_move i (rs_rows st) (rs_rows st0)"
    using sm assms(1) one_move_table [of i "rs_rows st" "rs_rows st0"] by (auto simp: s table_moves_def)
  have id: "rw_id r = i" by (rule find_row_id [OF assms(2)])
  show ?thesis
  proof (cases res)
    case (Started n)
    with sm s assms(2) obtain r0 a b where r0: "same_task r r0" "rw_status r0 = Running" "rw_attempts r0 = rw_attempts r + 1"
      and pend: "rw_status r = Pending"
      and fl: "rs_flights st0 = jm_set n \<lparr>if_claimed = rowToRecord (ro_store cfg) r0, if_aborted = a, if_outer = b\<rparr> (rs_flights st)"
      by (auto simp: start_flights_def)
    let ?st2 = "if dw_abortedDuring w k then outer_abort n st0 else st0"
    obtain run where run: "jm_get (rs_flights ?st2) n = Some run" "if_claimed run = rowToRecord (ro_store cfg) r0"
      using fl by (cases "dw_abortedDuring w k") (auto simp: outer_abort_def)
    have rows2: "rs_rows ?st2 = rs_rows st0" by simp
    obtain r' where r': "find_row i (rs_rows st0) = Some r'" "legal_move r r'"
      using one_move_table [OF om] assms(2) by (auto simp: table_moves_def)
    obtain st3 where settle: "settle_run cfg run (dw_outcome w k) (dw_now w (2 * k + 1)) ?st2 = (st3, Inr (Some r1))"
      and st1: "rs_rows st1 = rs_rows st3"
      using assms(5) s Started run
      by (auto simp: runOne_def finishRun_def end_run_def split: prod.splits)
    have at: "find_row (rw_id r0) (rs_rows ?st2) = Some r'" using r'(1) r0(1) id rows2 by (simp add: same_task_def)
    have same: "same_task r0 r'" using r0(1) legal_same_task [OF r'(2)] by (simp add: same_task_def)
    obtain row where row: "find_row i (rs_rows st0) = Some row" "rw_status row = Running" "rw_attempts row = rw_attempts r + 1"
      using sm s Started assms(2) by (auto simp: start_flights_def)
    then have np: "rw_status r' \<noteq> Pending" "rw_attempts r' = rw_attempts r0" using r'(1) r0(3) by simp_all
    have "recurring_ok (ro_store cfg) r0" using assms(4) recurring_ok_same [OF r0(1)] by simp
    from settle_retries [OF _ run(2) at same np(2,1) assms(3) this settle assms(6)]
    obtain row' where "r1 = rowToRecord (ro_store cfg) row'" "find_row (rw_id r0) (rs_rows st3) = Some row'"
      "same_task r0 row'" "rw_attempts row' = rw_attempts r0" "rw_attempts r0 < rw_max_attempts r0"
      using ok0 rows2 by auto
    then have "retried_from cfg r st1 r1"
      using same_task_trans [OF r0(1)] r0 by (auto simp: retried_from_def st1 same_task_def)
    moreover have "table_ok (rs_rows st1)"
    proof -
      have "flight_ok cfg (rs_rows ?st2) run" using run(2) at same unfolding flight_ok_def by blast
      from settle_moves [OF _ this, of "dw_outcome w k" "dw_now w (2 * k + 1)"] settle ok0 rows2
      show ?thesis using one_move_table by (auto simp: run_moves_def st1 table_moves_def)
    qed
    ultimately show ?thesis by blast
  next
    case (Skipped t)
    then show ?thesis using assms(5,6) s sm by (auto simp: runOne_def start_flights_def retries_def)
  next
    case (StartBlocked t)
    then show ?thesis using assms(5,6) s sm by (auto simp: runOne_def start_flights_def retries_def)
  next
    case (StartError t)
    then show ?thesis using assms(5) s by (simp add: runOne_def)
  qed
qed

text \<open>How many runs a task may still take.\<close>

definition runs_left :: "task_row \<Rightarrow> nat" where
  "runs_left r = max 1 (nat (rw_max_attempts r - rw_attempts r))"

lemma drain_ends:
  assumes "table_ok (rs_rows st)" and "find_row i (rs_rows st) = Some r"
    and "cron_after (ro_cron cfg)" and "recurring_ok (ro_store cfg) r" and "runs_left r < fuel"
  shows "snd (snd (snd (drain_task fuel cfg w k (Some (rowToRecord (ro_store cfg) r)) out st))) \<noteq> DrainOutOfFuel \<and>
    fst (snd (drain_task fuel cfg w k (Some (rowToRecord (ro_store cfg) r)) out st)) \<le> k + runs_left r"
  using assms
proof (induction fuel arbitrary: k r out st)
  case 0
  then show ?case by simp
next
  case (Suc fuel)
  let ?t = "rowToRecord (ro_store cfg) r"
  have id: "rw_id r = i" by (rule find_row_id [OF Suc.prems(2)])
  have one: "1 \<le> runs_left r" by (simp add: runs_left_def)
  obtain st1 res where run: "runOne cfg w k i st = (st1, res)" by fastforce
  show ?case
  proof (cases "\<exists>r1. res = Inr (Some r1) \<and> retries (dw_now w (2 * k + 1)) r1 \<and> rw_status r = Pending \<and>
      \<not> (dw_aborted w k \<or> rs_stopping st)")
    case True
    then obtain r1 where r1: "res = Inr (Some r1)" "retries (dw_now w (2 * k + 1)) r1" by blast
    from runOne_retries [OF Suc.prems(1-4) run [unfolded r1(1)] r1(2)]
    obtain row where row: "r1 = rowToRecord (ro_store cfg) row" "find_row i (rs_rows st1) = Some row" "same_task r row"
      "rw_attempts row = rw_attempts r + 1" "rw_attempts r + 1 < rw_max_attempts r" and ok: "table_ok (rs_rows st1)"
      using id by (auto simp: retried_from_def)
    have left: "runs_left row < runs_left r" using row(3-5) by (simp add: runs_left_def same_task_def)
    have rok: "recurring_ok (ro_store cfg) row" using Suc.prems(4) recurring_ok_same [OF row(3)] by simp
    have f: "runs_left row < fuel" using left Suc.prems(5) by simp
    note IH = Suc.IH [OF ok row(2) Suc.prems(3) rok f, of "Suc k", folded row(1)]
    have c: "(tk_recurring r1 \<and> tk_attempts r1 = 0 \<and>
        (case tk_scheduledFor r1 of None \<Rightarrow> False | Some t \<Rightarrow> t > dw_now w (2 * k + 1))) = False"
      and p: "tk_status r1 = Pending" "tk_lastErrorCategory r1 \<noteq> Some CancelledFailure"
      using r1(2) unfolding retries_def by blast+
    have d: "\<not> dw_aborted w k" "\<not> rs_stopping st" "rw_status r = Pending" using True by blast+
    obtain out1 where "drain_task (Suc fuel) cfg w k (Some ?t) out st = drain_task fuel cfg w (Suc k) (Some r1) out1 st1"
      using d p r1(1) run id unfolding drain_task.simps by (simp add: c Let_def)
    then show ?thesis using IH [of out1] left by auto
  next
    case False
    then show ?thesis using run id one
      by (auto simp: Let_def retries_def split: sum.splits option.splits task_status.splits)
  qed
qed

end
