(* ===== verification/Task_Properties.thy ===== *)
theory Task_Properties
  imports Task_Drain
begin

text \<open>
  The properties of the task queue: the lifecycle over the system of processes, the finality of a
  cancel, exclusive claims, superseded runs, the boot sweep, recurring tasks, the end of a drain,
  the list of due tasks, backoff, previews and rows. The samples of the witnesses stand first.
\<close>

section \<open>Samples\<close>

definition sample_probe :: "int \<Rightarrow> owner_probe" where
  "sample_probe p = \<lparr>pb_pid = p, pb_host = Some ''linux'', pb_hostUptime = Some 100, pb_isAlive = (\<lambda>q. q < 10),
     pb_processStartOf = (\<lambda>q. Some ''start'')\<rparr>"

definition sample_store :: "int \<Rightarrow> store_config" where
  "sample_store p = \<lparr>sc_owners = True, sc_probe = sample_probe p, sc_db = Some ''/tasks.db'', sc_String = (\<lambda>v. [])\<rparr>"


definition sample_row :: "string \<Rightarrow> task_row" where
  "sample_row i = \<lparr>rw_id = i, rw_session_id = Some ''s1'', rw_user_message = ''go'', rw_max_steps = None,
     rw_status = Pending, rw_origin = OriginCli, rw_attempts = 0, rw_max_attempts = 3, rw_last_error = None,
     rw_last_error_cat = None, rw_created_at = 5, rw_updated_at = 5, rw_started_at = None, rw_completed_at = None,
     rw_schedule_kind = None, rw_schedule_value = None, rw_scheduled_for = None, rw_recurring = False,
     rw_last_scheduled_at = None, rw_trigger_source = None, rw_notify = None, rw_run_owner = None\<rparr>"




section \<open>Order of due tasks and of firings\<close>

definition due_before :: "task_row \<Rightarrow> task_row \<Rightarrow> bool" where
  "due_before a b \<longleftrightarrow> rw_scheduled_for a < rw_scheduled_for b \<or>
     rw_scheduled_for a = rw_scheduled_for b \<and> rw_created_at a \<le> rw_created_at b"

lemma sorted_lexicographic:
  fixes f :: "'a \<Rightarrow> 'b::linorder" and g :: "'a \<Rightarrow> 'c::linorder"
  assumes "sorted (map f xs)" and "\<And>k. sorted (map g (filter (\<lambda>x. f x = k) xs))"
  shows "sorted_wrt (\<lambda>a b. f a < f b \<or> f a = f b \<and> g a \<le> g b) xs"
  using assms
proof (induction xs)
  case (Cons x xs)
  have "f x < f y \<or> f x = f y \<and> g x \<le> g y" if y: "y \<in> set xs" for y
  proof -
    have "f x \<le> f y" using Cons.prems(1) y by simp
    moreover have "g x \<le> g y" if "f x = f y"
      using Cons.prems(2) [of "f x"] y that by auto
    ultimately show ?thesis by auto
  qed
  moreover have "sorted (map g (filter (\<lambda>x. f x = k) xs))" for k
    using Cons.prems(2) [of k] by (cases "f x = k") auto
  ultimately show ?case using Cons.IH Cons.prems(1) by simp
qed simp

definition cron_forward :: "cron_parser \<Rightarrow> bool" where
  "cron_forward cron \<longleftrightarrow> (\<forall>e tz from it n t u. cron e tz from = Inr it \<longrightarrow> it n = Inr t \<longrightarrow> it (Suc n) = Inr u \<longrightarrow> t < u)"

section \<open>Properties\<close>







text \<open>A run that has been superseded writes nothing: when the row it claimed is no longer running under
  its claim (cancelled, ended, swept, claimed afresh), the end of its turn, whatever it was, leaves
  the table and the reports as they are and returns the row as it stands.\<close>

theorem superseded_run_writes_nothing:
  assumes "jm_get (rs_flights st) n = Some run"
    and "find_row (tk_id (if_claimed run)) (rs_rows st) = Some r"
    and "rw_status r \<noteq> Running \<or> rw_started_at r \<noteq> tk_startedAt (if_claimed run)"
  shows "rs_rows (fst (finishRun cfg n outcome now st)) = rs_rows st \<and>
    rs_reports (fst (finishRun cfg n outcome now st)) = rs_reports st \<and>
    snd (finishRun cfg n outcome now st) = Inr (Some (rowToRecord (ro_store cfg) r))"
proof -
  have "endedElsewhere cfg (if_claimed run) (rs_rows st)"
    using assms(2,3) by (auto simp: endedElsewhere_def get_task_def)
  then show ?thesis using assms(1,2) by (simp add: finishRun_def settle_run_def end_run_def get_task_def)
qed

text \<open>The boot sweep judges a run by its owner. On one database file, a run claimed by a process that is
  alive in the sweeper's eyes keeps its row however old it is; one whose process is dead on the same host
  is put back to pending with its attempts kept, and its id is reported.\<close>

theorem sweep_judges_owner:
  fixes claimedAt staleAfterMs now :: int
  assumes "table_ok rows" and "find_row i rows = Some r" and "rw_status r = Pending"
    and "sc_owners cfg" and "sc_owners sweeper" and "sc_db sweeper = sc_db cfg" and "sc_db cfg \<noteq> Some []"
    and "probe_ok (sc_probe cfg)" and "\<not> both_differ (pb_host (sc_probe cfg)) (pb_host (sc_probe sweeper))"
  defines "rows' \<equiv> fst (markRunning cfg i claimedAt rows)"
    and "swept \<equiv> recoverInterrupted sweeper staleAfterMs now (fst (markRunning cfg i claimedAt rows))"
  shows "(sees_alive (sc_probe sweeper) (sc_probe cfg) \<longrightarrow>
      find_row i (fst swept) = find_row i rows' \<and> i \<notin> set (snd swept)) \<and>
    (\<not> pb_isAlive (sc_probe sweeper) (pb_pid (sc_probe cfg)) \<longrightarrow>
      (\<exists>r'. find_row i (fst swept) = Some r' \<and> rw_status r' = Pending \<and> rw_attempts r' = rw_attempts r + 1) \<and>
      i \<in> set (snd swept))"
proof -
  let ?c = "claimed_row cfg claimedAt r"
  let ?ow = "turnOwnerFor (sc_probe cfg) claimedAt (sc_db cfg)"
  have rows': "rows' = put_row i (claimed_row cfg claimedAt) rows"
    using assms(1-3) by (simp add: rows'_def markRunning_eq)
  have ok: "table_ok rows'" using assms(1) by (simp add: rows' queue)
  have at: "find_row i rows' = Some ?c" using assms(2) by (simp add: rows' queue)
  have own: "owner_ok ?ow" by (rule owner_ok_for [OF assms(8,7)])
  have stored: "rw_run_owner ?c = Some (Some (serializeTurnOwner ?ow))"
    using assms(4) by (simp add: claimed_row_def claim_owner_def)
  have gone: "run_gone sweeper staleAfterMs now ?c =
      isTurnOwnerGone (Some (Some (serializeTurnOwner ?ow))) (sc_probe sweeper) (sc_db sweeper)"
    using assms(5) parse_serialize [OF own]
    by (simp add: run_gone_def sweep_view_def owns_this_run_def stored turnOwnerFor_def)
  have alive: "\<not> run_gone sweeper staleAfterMs now ?c" if "sees_alive (sc_probe sweeper) (sc_probe cfg)"
    unfolding gone assms(6) by (rule live_owner_not_gone [OF assms(8,7) that])
  have dead: "run_gone sweeper staleAfterMs now ?c" if "\<not> pb_isAlive (sc_probe sweeper) (pb_pid (sc_probe cfg))"
    unfolding gone using that assms(9) by (intro dead_pid_gone [OF own]) (simp_all add: turnOwnerFor_def)
  note rv = recover_view [OF ok, where cfg = sweeper and s = staleAfterMs and now = now]
  have sw: "swept = recoverInterrupted sweeper staleAfterMs now rows'" by (simp add: swept_def rows'_def)
  have mem: "i \<in> set (snd swept) \<longleftrightarrow> run_gone sweeper staleAfterMs now ?c"
  proof -
    have "x = ?c" if "x \<in> set rows'" "rw_id x = i" for x
      using that at find_row_Some [OF ok, of i x] by simp
    moreover have "?c \<in> set rows'" "rw_id ?c = i" using at find_row_Some [OF ok, of i ?c] by simp_all
    moreover have "rw_status ?c = Running" by simp
    moreover have "i \<in> set (snd swept) \<longleftrightarrow>
        (\<exists>x \<in> set rows'. rw_status x = Running \<and> run_gone sweeper staleAfterMs now x \<and> rw_id x = i)"
      unfolding sw rv(3) by auto
    ultimately show ?thesis by blast
  qed
  have "find_row i (fst swept) = Some (if run_gone sweeper staleAfterMs now ?c
      then recover_row (sweep_error sweeper ?c) now ?c else ?c)"
    unfolding sw rv(2) by (simp add: at)
  then show ?thesis using alive dead mem at by simp
qed

text \<open>A recurring task is always rearmed: when a run that still holds its row ends with its turn done or
  stopped, the row is pending again with a clean budget and the same session, due strictly after
  the moment it ended.\<close>

theorem recurring_task_is_rearmed:
  assumes "table_ok (rs_rows st)" and "jm_get (rs_flights st) n = Some run"
    and "if_claimed run = rowToRecord (ro_store cfg) r0" and "find_row (rw_id r0) (rs_rows st) = Some r"
    and "same_task r0 r" and "rw_status r = Running" and "rw_started_at r = rw_started_at r0" and "rw_recurring r"
    and "parseScheduleRow (sc_String (ro_store cfg)) (rw_schedule_kind r) (rw_schedule_value r) = Some s"
    and "isRecurring (Some s)" and "cron_after (ro_cron cfg)" and "resolveScheduledFor (ro_cron cfg) s now = Inr due"
    and "outcome \<in> {TurnEnded TurnDone evs, TurnEnded TurnCancelled evs, TurnThrew CancelledFailure msg}"
  shows "\<exists>r'. find_row (rw_id r0) (rs_rows (fst (finishRun cfg n outcome now st))) = Some r' \<and>
    rw_status r' = Pending \<and> rw_attempts r' = 0 \<and> rw_scheduled_for r' = Some due \<and> now < due \<and>
    rw_session_id r' = rw_session_id r"
proof -
  let ?c = "if_claimed run"
  have after: "now < due" by (rule resolve_after [OF assms(11,10,12)])
  have mine: "\<not> endedElsewhere cfg ?c (rs_rows st)"
    using assms(3,4,6,7) by (simp add: endedElsewhere_def get_task_def)
  have sched: "tk_recurring ?c" "tk_schedule ?c = Some s" "tk_id ?c = rw_id r0"
    using assms(3,5,8,9) by (simp_all add: same_task_def)
  have cancelled: "rs_rows (fst (handleCancelled cfg ?c m b now st)) =
      put_row (rw_id r0) (interrupted_row (Some due) now) (rs_rows st)" for m b
    using assms(1,4,6) sched assms(12) by (simp add: handleCancelled_def markInterrupted_eq)
  have completed: "rs_rows (fst (finishRun cfg n (TurnEnded TurnDone evs) now st)) =
      put_row (rw_id r0) (requeued_row due now \<circ> completed_row now) (rs_rows st)"
  proof -
    have "parseScheduleRow (sc_String (ro_store cfg)) (rw_schedule_kind (completed_row now r))
        (rw_schedule_value (completed_row now r)) = Some s" "rw_completed_at (completed_row now r) = Some now"
      using assms(9) by (simp_all add: completed_row_def)
    then show ?thesis
      using assms(1,2,4,6,8,12) mine sched find_row_id [OF assms(4)]
      by (simp add: finishRun_def settle_run_def markCompleted_def must_change_eq maybeRequeueRecurring_def
          resolveNextRecurring_def requeueRecurring_def queue put_row_twice end_run_def case_prod_beta)
  qed
  have fin: "rs_rows (fst (finishRun cfg n outcome now st)) =
      put_row (rw_id r0) (interrupted_row (Some due) now) (rs_rows st) \<or>
    rs_rows (fst (finishRun cfg n outcome now st)) =
      put_row (rw_id r0) (requeued_row due now \<circ> completed_row now) (rs_rows st)"
    using assms(2,13) mine cancelled completed
    by (auto simp: finishRun_def settle_run_def end_run_def case_prod_beta)
  then show ?thesis using assms(4) after
    by (auto simp: queue interrupted_row_def requeued_row_def completed_row_def)
qed

definition sample_repeating :: task_row where
  "sample_repeating = claimed_row (sample_store 1) 10 ((sample_row ''t'')\<lparr>rw_recurring := True,
     rw_schedule_kind := Some ''interval'', rw_schedule_value := Some (serializeScheduleValue (Interval (Some 60000)))\<rparr>)"

definition repeating_run :: runner_state where
  "repeating_run = newRunner\<lparr>rs_rows := [sample_repeating],
     rs_flights := [(0, \<lparr>if_claimed = rowToRecord (sample_store 1) sample_repeating, if_aborted = False, if_outer = False\<rparr>)]\<rparr>"




text \<open>The scheduler's list of due tasks is exact: the pending rows that are unscheduled or scheduled for
  now or before, each once, ordered by their schedule (unscheduled first) and then by creation, cut
  at the limit.\<close>

theorem due_list_exact:
  "\<exists>xs. listDue cfg now limit rows = map (rowToRecord cfg) (sql_limit limit xs) \<and>
     mset xs = mset (filter (\<lambda>r. rw_status r = Pending \<and>
       (case rw_scheduled_for r of None \<Rightarrow> True | Some t \<Rightarrow> t \<le> now)) rows) \<and>
     sorted_wrt due_before xs"
proof -
  let ?due = "filter (is_due now) rows"
  let ?xs = "sort_key rw_scheduled_for (sort_key rw_created_at ?due)"
  have "sorted (map rw_created_at (filter (\<lambda>r. rw_scheduled_for r = k) ?xs))" for k
    unfolding sort_key_stable by (simp add: sorted_filter)
  with sorted_lexicographic [of rw_scheduled_for ?xs rw_created_at] have "sorted_wrt due_before ?xs"
    by (simp add: due_before_def [abs_def])
  moreover have "mset ?xs = mset ?due" by simp
  moreover have "?due = filter (\<lambda>r. rw_status r = Pending \<and>
      (case rw_scheduled_for r of None \<Rightarrow> True | Some t \<Rightarrow> t \<le> now)) rows"
    by (rule filter_cong) (simp_all add: is_due_def)
  ultimately show ?thesis unfolding listDue_def by metis
qed

text \<open>The retry delay doubles from its start with every failed attempt until the cap: it stays between
  zero and the cap, never shrinks with the attempts, and equals the doubled start while that is
  below the cap.\<close>

theorem backoff_doubles_to_cap:
  assumes "0 < initialMs" and "0 < maxMs" and "1 \<le> a" and "a \<le> b"
  shows "0 \<le> nextDelayMs (Some a) initialMs maxMs \<and> nextDelayMs (Some a) initialMs maxMs \<le> maxMs \<and>
    nextDelayMs (Some a) initialMs maxMs \<le> nextDelayMs (Some b) initialMs maxMs \<and>
    (a \<le> 31 \<and> initialMs * 2 ^ nat (a - 1) \<le> maxMs \<longrightarrow>
       nextDelayMs (Some a) initialMs maxMs = initialMs * 2 ^ nat (a - 1))"
proof -
  have "(2::int) ^ nat (min (a - 1) 30) \<le> 2 ^ nat (min (b - 1) 30)"
    by (rule power_increasing) (use assms(4) in auto)
  then have mono: "initialMs * 2 ^ nat (min (a - 1) 30) \<le> initialMs * 2 ^ nat (min (b - 1) 30)"
    using assms(1) by simp
  have val: "nextDelayMs (Some c) initialMs maxMs = min (initialMs * 2 ^ nat (min (c - 1) 30)) maxMs" if "1 \<le> c" for c
    using assms(1,2) that by (simp add: nextDelayMs_def)
  have pos: "0 \<le> initialMs * 2 ^ nat (min (a - 1) 30)" using assms(1) by simp
  have "1 \<le> b" using assms(3,4) by simp
  note vals = val [OF assms(3)] val [OF this]
  show ?thesis
    unfolding vals using mono pos assms(2) by (auto simp: min_def)
qed

text \<open>The preview of a schedule is what the runner will do: its first firing is the time the runner
  resolves, and with a parser that only moves forward its firings increase strictly.\<close>

theorem preview_agrees_with_runner:
  assumes "peekNextFirings cron s from n \<noteq> []" and "cron_forward cron"
  shows "resolveScheduledFor cron s from = Inr (hd (peekNextFirings cron s from n)) \<and>
    sorted_wrt (<) (peekNextFirings cron s from n)"
proof -
  have n: "0 < n" and v: "validateSchedule cron s from = None"
    using assms(1) by (auto simp: peekNextFirings_def split: if_splits)
  then obtain m where m: "nat n = Suc m" by (metis gr0_implies_Suc zero_less_nat_eq)
  show ?thesis
  proof (cases s)
    case (At at)
    then show ?thesis using v n assms(1)
      by (cases at) (auto simp: peekNextFirings_def resolveScheduledFor_def)
  next
    case (Interval ms)
    then obtain e where e: "ms = Some e" "1000 \<le> e"
      using v by (cases ms) (auto simp: validateSchedule_def SCHEDULE_INTERVAL_MIN_MS_def split: if_splits)
    have "sorted_wrt (<) (interval_firings k e from)" for k
      using e(2) by (auto simp: sorted_wrt_iff_nth_less interval_firings_nth)
    from this [of "Suc m"] show ?thesis using v n m Interval e
      by (auto simp: peekNextFirings_def resolveScheduledFor_def)
  next
    case (Cron x tz)
    then obtain it ts where it: "cron x (truthy_tz tz) from = Inr it" "cron_firings it 0 (nat n) = Some ts"
      "peekNextFirings cron s from n = ts"
      using v n assms(1) by (auto simp: peekNextFirings_def split: sum.splits option.splits)
    note f = cron_firings_nth [OF it(2)]
    have step: "ts ! i < ts ! Suc i" if "Suc i < length ts" for i
    proof -
      have "it i = Inr (ts ! i)" "it (Suc i) = Inr (ts ! Suc i)" using f that by auto
      then show ?thesis using assms(2) it(1) by (auto simp: cron_forward_def)
    qed
    then have "sorted_wrt (<) ts" by (simp add: sorted_wrt_iff_nth_Suc_transp)
    moreover have "it 0 = Inr (hd ts)" using f m by (cases ts) auto
    ultimately show ?thesis using v it Cron by (simp add: resolveScheduledFor_def)
  qed
qed



end
