(* ===== verification/Scheduler_Leadership.thy ===== *)
theory Scheduler_Leadership
  imports Fingerprints
begin

text \<open>
  \<open>src/src/scheduler/scheduler-leadership.ts\<close>: which of the processes sharing a state directory runs the
  due tasks. The two lock files are their texts; what one process brings to a question is
  \<open>leader_env\<close> (its pid, the liveness probe, whether it wants Telegram, and which file operations
  the directory lets it do). A question is one atomic step in \<open>isLeader\<close>; the operations inside
  \<open>holdSchedulerLock\<close> are also given one by one (\<open>hold_step\<close>), since two processes may interleave
  there, and the routine is the run of these steps.
\<close>

section \<open>Lock files\<close>

datatype lock_file = Absent | Unreadable | Text string

record lock_dir =
  ld_scheduler :: lock_file
  ld_telegram :: lock_file

record leader_env =
  le_self :: nat
  le_alive :: "nat \<Rightarrow> bool"
  le_wanted :: bool
  le_canCreate :: bool
  le_canWrite :: bool
  le_canUnlink :: bool

definition digits_value :: "string \<Rightarrow> nat" where
  "digits_value s = foldl (\<lambda>n c. 10 * n + (of_char c - 48)) 0 s"

text \<open>\<open>Number.parseInt\<close> at radix ten, kept when it is above zero: a sign, then the leading digits.\<close>

definition parse_pid :: "string \<Rightarrow> nat option" where
  "parse_pid s =
     (let body = (case s of c # cs \<Rightarrow> if c = CHR ''+'' then cs else s | [] \<Rightarrow> []);
          digits = takeWhile is_digit body
      in if digits = [] \<or> digits_value digits = 0 then None else Some (digits_value digits))"

definition readHolder :: "lock_file \<Rightarrow> nat option" where
  "readHolder f = (case f of Text s \<Rightarrow> parse_pid (js_trim s) | _ \<Rightarrow> None)"

definition liveHolder :: "leader_env \<Rightarrow> lock_file \<Rightarrow> nat option" where
  "liveHolder env f =
     (case readHolder f of
        None \<Rightarrow> None
      | Some pid \<Rightarrow> if pid = le_self env \<or> le_alive env pid then Some pid else None)"

section \<open>Holding the scheduler lock\<close>

text \<open>Creating with \<open>wx\<close>: done, refused because the file is there, or refused for another reason.\<close>

datatype hold_pc = AtCreate | AtRead | AtTakeOver | AtCheck | HoldAnswer bool

fun hold_step :: "leader_env \<Rightarrow> hold_pc \<Rightarrow> lock_file \<Rightarrow> lock_file \<times> hold_pc" where
  "hold_step env AtCreate f =
     (if f \<noteq> Absent then (f, AtRead)
      else if le_canCreate env then (Text (show_nat (le_self env)), HoldAnswer True)
      else (f, HoldAnswer True))"
| "hold_step env AtRead f =
     (case readHolder f of
        None \<Rightarrow> (f, AtTakeOver)
      | Some holder \<Rightarrow>
          if holder = le_self env then (f, HoldAnswer True)
          else if le_alive env holder then (f, HoldAnswer False)
          else (f, AtTakeOver))"
| "hold_step env AtTakeOver f =
     (if le_canWrite env then (Text (show_nat (le_self env)), AtCheck) else (f, HoldAnswer True))"
| "hold_step env AtCheck f = (f, HoldAnswer (readHolder f = Some (le_self env)))"
| "hold_step env (HoldAnswer b) f = (f, HoldAnswer b)"

definition holdSchedulerLock :: "leader_env \<Rightarrow> lock_file \<Rightarrow> lock_file \<times> bool" where
  "holdSchedulerLock env f =
     (if f = Absent then
        (if le_canCreate env then Text (show_nat (le_self env)) else f, True)
      else
        (case readHolder f of
           Some holder \<Rightarrow>
             if holder = le_self env then (f, True)
             else if le_alive env holder then (f, False)
             else if \<not> le_canWrite env then (f, True)
             else let f' = Text (show_nat (le_self env)) in (f', readHolder f' = Some (le_self env))
         | None \<Rightarrow>
             if \<not> le_canWrite env then (f, True)
             else let f' = Text (show_nat (le_self env)) in (f', readHolder f' = Some (le_self env))))"

definition release_lock :: "leader_env \<Rightarrow> lock_file \<Rightarrow> lock_file" where
  "release_lock env f = (if readHolder f = Some (le_self env) \<and> le_canUnlink env then Absent else f)"

definition isLeader :: "leader_env \<Rightarrow> lock_dir \<Rightarrow> lock_dir \<times> bool" where
  "isLeader env d =
     (let scheduler = (case holdSchedulerLock env (ld_scheduler d) of (f, b) \<Rightarrow> (d\<lparr>ld_scheduler := f\<rparr>, b))
      in if le_wanted env then
           (case liveHolder env (ld_telegram d) of
              Some holder \<Rightarrow>
                if holder = le_self env then (fst scheduler, True)
                else (d\<lparr>ld_scheduler := release_lock env (ld_scheduler d)\<rparr>, False)
            | None \<Rightarrow> scheduler)
         else scheduler)"

section \<open>Lemmas\<close>

lemma of_char_digit: "n < 10 \<Longrightarrow> of_char (char_of (48 + n) :: char) = (48 + n :: nat)"
  by simp

lemma digits_value_snoc: "digits_value (s @ [c]) = 10 * digits_value s + (of_char c - 48)"
  by (simp add: digits_value_def)

lemma digits_value_show: "digits_value (show_nat n) = n"
proof (induction n rule: show_nat.induct)
  case (1 n)
  show ?case
  proof (cases "n < 10")
    case True
    then show ?thesis by (subst show_nat.simps) (simp add: digits_value_def)
  next
    case False
    have "digits_value (show_nat n) = 10 * (n div 10) + n mod 10"
      using 1 False by (subst show_nat.simps) (simp add: digits_value_snoc)
    then show ?thesis by simp
  qed
qed

lemma js_trim_clean: "(\<forall>c \<in> set s. \<not> is_space c) \<Longrightarrow> js_trim s = s"
proof -
  assume a: "\<forall>c \<in> set s. \<not> is_space c"
  then have "dropWhile is_space s = s" "dropWhile is_space (rev s) = rev s"
    by (auto simp: dropWhile_eq_self_iff hd_rev)
  then show ?thesis by (simp add: js_trim_def)
qed

lemma digit_no_space: "is_digit c \<Longrightarrow> \<not> is_space c \<and> c \<noteq> CHR ''+''"
  by (auto simp: is_digit_def is_space_def)

lemma readHolder_show [simp]: "readHolder (Text (show_nat n)) = (if n = 0 then None else Some n)"
proof -
  note d = show_nat_digits [of n]
  then obtain c cs where s: "show_nat n = c # cs" by (cases "show_nat n") auto
  have "js_trim (show_nat n) = show_nat n" using d digit_no_space by (intro js_trim_clean) blast
  moreover have "c \<noteq> CHR ''+''" using d digit_no_space s by auto
  moreover have "takeWhile is_digit (show_nat n) = show_nat n" using d by simp
  ultimately show ?thesis
    using s digits_value_show [of n] by (simp add: readHolder_def parse_pid_def Let_def)
qed

lemma readHolder_absent [simp]: "readHolder Absent = None"
  by (simp add: readHolder_def)

lemma readHolder_pos: "readHolder f = Some p \<Longrightarrow> 0 < p"
  by (auto simp: readHolder_def parse_pid_def Let_def split: lock_file.splits if_splits)

text \<open>The routine is the run of its steps.\<close>

fun hold_run :: "nat \<Rightarrow> leader_env \<Rightarrow> hold_pc \<Rightarrow> lock_file \<Rightarrow> lock_file \<times> hold_pc" where
  "hold_run 0 env pc f = (f, pc)"
| "hold_run (Suc n) env pc f = (case hold_step env pc f of (f', pc') \<Rightarrow> hold_run n env pc' f')"

lemma hold_run_atomic:
  "hold_run 4 env AtCreate f = (fst (holdSchedulerLock env f), HoldAnswer (snd (holdSchedulerLock env f)))"
  by (simp add: numeral_eq_Suc holdSchedulerLock_def Let_def split: option.splits)

section \<open>A lock with a live holder\<close>

text \<open>
  What a set of askers needs of a lock: an accepted ask leaves the asker as holder, a holder the
  asker sees alive keeps the lock, and it turns the asker away. Then one ask decides for all until
  the holder lets go.
\<close>

locale live_lock =
  fixes ask :: "'e \<Rightarrow> 'd \<Rightarrow> 'd \<times> bool"
    and holder :: "'d \<Rightarrow> nat option"
    and who :: "'e \<Rightarrow> nat"
    and sees :: "'e \<Rightarrow> nat \<Rightarrow> bool"
    and able :: "'e \<Rightarrow> bool"
  assumes accepted: "able e \<Longrightarrow> snd (ask e d) \<Longrightarrow> holder (fst (ask e d)) = Some (who e)"
    and kept: "holder d = Some p \<Longrightarrow> sees e p \<Longrightarrow> holder (fst (ask e d)) = Some p"
    and refused: "holder d = Some p \<Longrightarrow> sees e p \<Longrightarrow> p \<noteq> who e \<Longrightarrow> \<not> snd (ask e d)"
    and free: "able e \<Longrightarrow> \<not> (\<exists>p. holder d = Some p \<and> p \<noteq> who e \<and> sees e p) \<Longrightarrow> snd (ask e d)"
begin

lemma kept_run: "holder d = Some p \<Longrightarrow> (\<And>e. e \<in> set es \<Longrightarrow> sees e p) \<Longrightarrow>
    holder (fold (\<lambda>e d. fst (ask e d)) es d) = Some p"
  by (induction es arbitrary: d) (simp_all add: kept)

lemma one_holder:
  assumes "able e" "snd (ask e d)" "\<And>e'. e' \<in> set es \<Longrightarrow> sees e' (who e)" "sees e' (who e)"
  shows "snd (ask e' (fold (\<lambda>e d. fst (ask e d)) es (fst (ask e d)))) \<longrightarrow> who e' = who e"
proof -
  have "holder (fold (\<lambda>e d. fst (ask e d)) es (fst (ask e d))) = Some (who e)"
    by (rule kept_run [OF accepted [OF assms(1,2)]]) (rule assms(3))
  then show ?thesis using refused assms(4) by metis
qed

lemma taken_over: "able e \<Longrightarrow> holder d = Some p \<Longrightarrow> \<not> sees e p \<Longrightarrow>
    snd (ask e d) \<and> holder (fst (ask e d)) = Some (who e)"
  using free [of e d] accepted [of e d] by auto

end

text \<open>A process sees itself and what its probe calls alive; it can write the lock.\<close>

definition sees_pid :: "leader_env \<Rightarrow> nat \<Rightarrow> bool" where
  "sees_pid env p = (p = le_self env \<or> le_alive env p)"

definition able_env :: "leader_env \<Rightarrow> bool" where
  "able_env env = (0 < le_self env \<and> le_canCreate env \<and> le_canWrite env)"

interpretation file_lock: live_lock holdSchedulerLock readHolder le_self sees_pid able_env
  by unfold_locales
     (auto simp: holdSchedulerLock_def able_env_def sees_pid_def Let_def split: option.splits if_splits
       dest: readHolder_pos)

section \<open>Racing take-overs\<close>

text \<open>Contenders inside \<open>holdSchedulerLock\<close> at once: a schedule names who takes the next step.\<close>

fun race :: "(nat \<Rightarrow> leader_env) \<Rightarrow> nat list \<Rightarrow> lock_file \<times> (nat \<Rightarrow> hold_pc) \<Rightarrow> lock_file \<times> (nat \<Rightarrow> hold_pc)" where
  "race envs [] st = st"
| "race envs (i # is) (f, pcs) =
     (case hold_step (envs i) (pcs i) f of (f', pc) \<Rightarrow> race envs is (f', pcs(i := pc)))"

definition answered :: "hold_pc \<Rightarrow> bool" where
  "answered pc = (case pc of HoldAnswer b \<Rightarrow> True | _ \<Rightarrow> False)"

definition peers :: "(nat \<Rightarrow> leader_env) \<Rightarrow> bool" where
  "peers envs = (\<forall>i j. able_env (envs i) \<and> sees_pid (envs i) (le_self (envs j)))"

definition common_view :: "(nat \<Rightarrow> leader_env) \<Rightarrow> bool" where
  "common_view envs = (\<forall>i j p. sees_pid (envs i) p = sees_pid (envs j) p)"

definition held :: "(nat \<Rightarrow> leader_env) \<Rightarrow> lock_file \<Rightarrow> bool" where
  "held envs f = (\<exists>p. readHolder f = Some p \<and> (\<forall>i. sees_pid (envs i) p))"

lemma held_own: "peers envs \<Longrightarrow> held envs (Text (show_nat (le_self (envs i))))"
  by (auto simp: held_def peers_def able_env_def)

lemma race_held:
  "race envs is (f, pcs) = (f', pcs') \<Longrightarrow> peers envs \<Longrightarrow> common_view envs \<Longrightarrow>
   (\<And>i. pcs i = AtCheck \<or> answered (pcs i) \<Longrightarrow> held envs f) \<Longrightarrow> answered (pcs' j) \<Longrightarrow> held envs f'"
proof (induction "is" arbitrary: f pcs)
  case Nil
  then show ?case by (metis prod.inject race.simps(1))
next
  case (Cons i "is")
  obtain g pc where st: "hold_step (envs i) (pcs i) f = (g, pc)" by fastforce
  have next_held: "held envs g" if "(pcs(i := pc)) k = AtCheck \<or> answered ((pcs(i := pc)) k)" for k
  proof (cases "k = i")
    case True
    then have pc: "pc = AtCheck \<or> answered pc" using that by simp
    show ?thesis
    proof (cases "pcs i")
      case AtCreate
      then show ?thesis using st pc Cons.prems(2) held_own [OF Cons.prems(2), of i]
        by (auto simp: answered_def peers_def able_env_def split: if_splits)
    next
      case AtRead
      then obtain p where "readHolder f = Some p" "sees_pid (envs i) p" "g = f"
        using st pc by (auto simp: answered_def sees_pid_def split: option.splits if_splits)
      then show ?thesis using Cons.prems(3) by (auto simp: held_def common_view_def)
    next
      case AtTakeOver
      then show ?thesis using st Cons.prems(2) held_own [OF Cons.prems(2), of i]
        by (auto simp: peers_def able_env_def)
    next
      case AtCheck
      then show ?thesis using st Cons.prems(4) [of i] by auto
    next
      case (HoldAnswer b)
      then have "held envs f" using Cons.prems(4) [of i] by (simp add: answered_def)
      then show ?thesis using st HoldAnswer by simp
    qed
  next
    case False
    then have "held envs f" using that Cons.prems(4) [of k] by simp
    then show ?thesis using st held_own [OF Cons.prems(2), of i]
      by (cases "pcs i") (auto split: if_splits option.splits)
  qed
  have rest: "race envs is (g, pcs(i := pc)) = (f', pcs')" using Cons.prems(1) st by simp
  show ?case by (rule Cons.IH [OF rest Cons.prems(2,3) next_held Cons.prems(5)])
qed

lemma held_one_leader:
  "held envs f \<Longrightarrow> peers envs \<Longrightarrow> \<exists>p. \<forall>i. snd (holdSchedulerLock (envs i) f) = (le_self (envs i) = p)"
  unfolding held_def
  by (elim exE conjE, rename_tac p, rule_tac x = p in exI)
     (auto simp: holdSchedulerLock_def sees_pid_def readHolder_def split: lock_file.splits)

end
