(* ===== verification/Scheduler.thy ===== *)
theory Scheduler
  imports Scheduler_Leadership Task_Drain
begin

text \<open>
  \<open>src/src/scheduler/scheduler.ts\<close>: the one interval of the agent. The state keeps the object's fields
  (a timer, the flags, the tick in flight, the last leadership answer, the stop signal) and the
  \<open>runDue\<close> calls made so far, each with the clock, the batch and whether the signal it was handed
  was aborted. A tick is begun by \<open>tickOnce\<close> and ends by \<open>tickSettles\<close> (its errors are swallowed, so
  its outcome plays no part); \<open>stop\<close> is its synchronous half and \<open>stopSettles\<close>, where it gives the
  leadership up. Logs and metrics are left out.
\<close>

section \<open>State\<close>

record due_call =
  dc_now :: int
  dc_limit :: int
  dc_aborted :: bool

record scheduler =
  sd_batch :: int
  sd_timer :: bool
  sd_running :: bool
  sd_stopping :: bool
  sd_inFlight :: bool
  sd_leading :: "bool option"
  sd_aborted :: bool
  sd_calls :: "due_call list"
  sd_settled :: nat
  sd_released :: bool

definition newScheduler :: "int \<Rightarrow> scheduler" where
  "newScheduler batch = \<lparr>sd_batch = batch, sd_timer = False, sd_running = False, sd_stopping = False,
     sd_inFlight = False, sd_leading = None, sd_aborted = False, sd_calls = [], sd_settled = 0, sd_released = False\<rparr>"

text \<open>What the leadership gate says: there is none, an answer, or an error.\<close>

datatype gate_reply = NoGate | Answer bool | GateThrows

section \<open>Operations\<close>

definition start_scheduler :: "scheduler \<Rightarrow> scheduler" where
  "start_scheduler s = (if sd_timer s then s else if sd_stopping s then s else s\<lparr>sd_timer := True\<rparr>)"

definition leads :: "gate_reply \<Rightarrow> scheduler \<Rightarrow> scheduler \<times> bool" where
  "leads reply s =
     (case reply of
        NoGate \<Rightarrow> (s, True)
      | Answer leader \<Rightarrow> (s\<lparr>sd_leading := Some leader\<rparr>, leader)
      | GateThrows \<Rightarrow> (s\<lparr>sd_leading := Some True\<rparr>, True))"

definition doTick :: "int \<Rightarrow> scheduler \<Rightarrow> scheduler" where
  "doTick now s = s\<lparr>sd_calls := sd_calls s @ [\<lparr>dc_now = now, dc_limit = sd_batch s, dc_aborted = sd_aborted s\<rparr>]\<rparr>"

definition tickOnce :: "int \<Rightarrow> scheduler \<Rightarrow> scheduler" where
  "tickOnce now s =
     (if sd_running s then s
      else (doTick now (s\<lparr>sd_running := True\<rparr>))\<lparr>sd_inFlight := True\<rparr>)"

definition tickSettles :: "scheduler \<Rightarrow> scheduler" where
  "tickSettles s =
     (if sd_inFlight s then s\<lparr>sd_running := False, sd_inFlight := False, sd_settled := Suc (sd_settled s)\<rparr> else s)"

text \<open>The interval's handler, called by the timer while it is set.\<close>

definition timerFires :: "gate_reply \<Rightarrow> int \<Rightarrow> scheduler \<Rightarrow> scheduler" where
  "timerFires reply now s =
     (if \<not> sd_timer s then s
      else (case leads reply s of (s1, leader) \<Rightarrow> if leader then tickOnce now s1 else s1))"

definition stop_scheduler :: "scheduler \<Rightarrow> scheduler" where
  "stop_scheduler s = s\<lparr>sd_stopping := True, sd_timer := False, sd_aborted := True\<rparr>"

text \<open>\<open>settleInFlight\<close>: the wait is over when no tick is in flight or the grace has run out.\<close>

definition stopSettles :: "bool \<Rightarrow> scheduler \<Rightarrow> scheduler" where
  "stopSettles graceOver s =
     (if sd_stopping s \<and> (\<not> sd_inFlight s \<or> graceOver) then s\<lparr>sd_released := True\<rparr> else s)"

datatype sched_op =
    OpStartScheduler
  | OpTimer gate_reply int
  | OpTick int
  | OpTickSettles
  | OpStopScheduler
  | OpStopSettles bool

fun sched_step :: "sched_op \<Rightarrow> scheduler \<Rightarrow> scheduler" where
  "sched_step OpStartScheduler s = start_scheduler s"
| "sched_step (OpTimer reply now) s = timerFires reply now s"
| "sched_step (OpTick now) s = tickOnce now s"
| "sched_step OpTickSettles s = tickSettles s"
| "sched_step OpStopScheduler s = stop_scheduler s"
| "sched_step (OpStopSettles graceOver) s = stopSettles graceOver s"

definition sched_run :: "sched_op list \<Rightarrow> scheduler \<Rightarrow> scheduler" where
  "sched_run ops s = fold sched_step ops s"

section \<open>Lemmas\<close>

lemmas sched_defs = start_scheduler_def leads_def doTick_def tickOnce_def tickSettles_def timerFires_def
  stop_scheduler_def stopSettles_def

definition sched_ok :: "scheduler \<Rightarrow> bool" where
  "sched_ok s \<longleftrightarrow> sd_running s = sd_inFlight s \<and>
     length (sd_calls s) = sd_settled s + (if sd_inFlight s then 1 else 0) \<and>
     (sd_stopping s \<longrightarrow> \<not> sd_timer s) \<and> sd_stopping s = sd_aborted s \<and> (sd_released s \<longrightarrow> sd_stopping s)"

lemma sched_ok_new: "sched_ok (newScheduler batch)"
  by (simp add: sched_ok_def newScheduler_def)

lemma sched_ok_step: "sched_ok s \<Longrightarrow> sched_ok (sched_step act s)"
  by (cases act) (auto simp: sched_ok_def sched_defs split: gate_reply.splits)

lemma sched_ok_run: "sched_ok s \<Longrightarrow> sched_ok (sched_run acts s)"
  unfolding sched_run_def by (induction acts arbitrary: s) (simp_all add: sched_ok_step)

text \<open>After a stop: no timer, and every further call is handed an aborted signal.\<close>

definition stopped_after :: "scheduler \<Rightarrow> scheduler \<Rightarrow> bool" where
  "stopped_after s s' \<longleftrightarrow> \<not> sd_timer s' \<and> sd_stopping s' \<and> sd_aborted s' \<and>
     (\<exists>calls. sd_calls s' = sd_calls s @ calls \<and> (\<forall>c \<in> set calls. dc_aborted c))"

lemma stopped_step: "stopped_after s s' \<Longrightarrow> stopped_after s (sched_step act s')"
  by (cases act) (auto simp: stopped_after_def sched_defs split: gate_reply.splits)

lemma stopped_run: "stopped_after s s' \<Longrightarrow> stopped_after s (sched_run acts s')"
  unfolding sched_run_def by (induction acts arbitrary: s') (simp_all add: stopped_step)

lemma drain_group_aborted:
  "dw_aborted w k \<Longrightarrow> drainSessionGroup fuel cfg w k tasks out st =
     (st, k, out, if tasks = [] then GroupDone else GroupStopped)"
  by (cases tasks) simp_all

end
