(* ===== verification/Scheduler_Properties.thy ===== *)
theory Scheduler_Properties
  imports Scheduler
begin

text \<open>
  The properties of the scheduler and of its leadership: ticks never overlap, a stopped scheduler
  starts nothing that claims a task, one process leads at a time, a dead leader is replaced, and a
  race of take-overs leaves one leader.
\<close>

section \<open>Ticks\<close>

text \<open>Ticks never overlap and none is lost: in every state a scheduler reaches, at most one tick is in
  flight, the \<open>runDue\<close> calls are exactly the ticks settled and the one in flight, and leadership is
  given up only after a stop.\<close>

theorem ticks_never_overlap:
  "let s = sched_run acts (newScheduler batch) in
     length (sd_calls s) = sd_settled s + (if sd_inFlight s then 1 else 0) \<and>
     (sd_inFlight s \<longleftrightarrow> sd_running s) \<and> \<not> (sd_released s \<and> (sd_timer s \<or> \<not> sd_stopping s))"
  using sched_ok_run [OF sched_ok_new, of acts batch] by (auto simp: sched_ok_def Let_def)

text \<open>A stopped scheduler claims nothing: after a stop, whatever fires or is asked for, the interval
  never runs again, every further tick hands the runner an aborted signal, and draining any group
  of tasks under an aborted signal leaves the queue and the outcome as they were.\<close>

theorem stopped_scheduler_claims_nothing:
  assumes "dw_aborted w k"
  shows "\<exists>calls. sd_calls (sched_run acts (stop_scheduler s)) = sd_calls s @ calls \<and>
      (\<forall>c \<in> set calls. dc_aborted c) \<and> \<not> sd_timer (sched_run acts (stop_scheduler s)) \<and>
      fst (drainSessionGroup fuel cfg w k tasks out st) = st"
proof -
  have "stopped_after s (stop_scheduler s)" by (simp add: stopped_after_def stop_scheduler_def)
  from stopped_run [OF this, of acts] show ?thesis
    using drain_group_aborted [OF assms, of fuel cfg tasks out st] by (auto simp: stopped_after_def)
qed

definition quiet_world :: drain_world where
  "quiet_world = \<lparr>dw_now = int, dw_fresh = (\<lambda>n. ''s''), dw_outcome = (\<lambda>n. TurnEnded TurnDone []),
     dw_aborted = (\<lambda>n. True), dw_abortedDuring = (\<lambda>n. True)\<rparr>"

section \<open>Leadership\<close>

text \<open>An asker that goes by the scheduler lock: it does not want Telegram, or nobody live holds it.\<close>

definition by_scheduler_lock :: "leader_env \<Rightarrow> lock_dir \<Rightarrow> bool" where
  "by_scheduler_lock env d = (\<not> le_wanted env \<or> liveHolder env (ld_telegram d) = None)"

lemma isLeader_lock:
  "by_scheduler_lock env d \<Longrightarrow> isLeader env d =
     (d\<lparr>ld_scheduler := fst (holdSchedulerLock env (ld_scheduler d))\<rparr>, snd (holdSchedulerLock env (ld_scheduler d)))"
  by (auto simp: by_scheduler_lock_def isLeader_def Let_def split: prod.splits)







text \<open>A leader that is gone is replaced at the next question: a process that finds the lock absent, not
  readable as a pid, or held by a process that is not alive, and that can write it, leads from that
  question on and its pid is in the file; while a live other holder keeps it out.\<close>

theorem dead_leader_is_replaced:
  assumes "able_env e" and "by_scheduler_lock e d"
  shows "snd (isLeader e d) = (\<forall>p. readHolder (ld_scheduler d) = Some p \<longrightarrow> p \<noteq> le_self e \<longrightarrow> \<not> le_alive e p) \<and>
    (snd (isLeader e d) \<longrightarrow> readHolder (ld_scheduler (fst (isLeader e d))) = Some (le_self e))"
proof -
  let ?f = "ld_scheduler d"
  have "snd (holdSchedulerLock e ?f) \<longrightarrow> readHolder (fst (holdSchedulerLock e ?f)) = Some (le_self e)"
    using file_lock.accepted [OF assms(1)] by blast
  moreover have "snd (holdSchedulerLock e ?f) = (\<forall>p. readHolder ?f = Some p \<longrightarrow> p \<noteq> le_self e \<longrightarrow> \<not> le_alive e p)"
    using file_lock.free [OF assms(1), of ?f] file_lock.refused [of ?f _ e] by (auto simp: sees_pid_def)
  ultimately show ?thesis by (simp add: isLeader_lock [OF assms(2)])
qed

text \<open>A race of take-overs settles: any number of processes interleaved in any way inside the lock
  routine, starting from any file, leave a lock that from then on answers yes to exactly one
  process, once the first of them has its answer.\<close>

theorem racing_takeovers_leave_one:
  assumes "peers envs" and "common_view envs"
    and "answered (snd (race envs is (f, \<lambda>i. AtCreate)) j)"
  shows "\<exists>p. \<forall>i. snd (holdSchedulerLock (envs i) (fst (race envs is (f, \<lambda>i. AtCreate)))) = (le_self (envs i) = p)"
proof -
  obtain f' pcs' where r: "race envs is (f, \<lambda>i. AtCreate) = (f', pcs')" by fastforce
  have "held envs f'"
    using race_held [OF r assms(1,2), of j] assms(3) r by (simp add: answered_def)
  then show ?thesis using held_one_leader assms(1) r by simp
qed

end
