(* ===== verification/Tool_Classes.thy ===== *)
theory Tool_Classes
  imports Approval_Gate
begin

text \<open>
  \<open>src/src/agent/tool-resource-class.ts\<close>: the resource class of every tool, the approval categories
  of the gated ones and whether a gated call would run with nobody asked; and
  \<open>src/src/mcp/mcp-resource-class.ts\<close>, the resolver for the tools of MCP servers. The tables are
  association lists in the source's order (the entries it takes from the contracts of
  \<open>src/src/tools/os/fs\<close> with the names and classes those declare). The registered resolver, module
  state in the code, is an argument.
\<close>

section \<open>Resource classes\<close>

datatype resource_class =
    PureRead | FsWriteClass | BrowserClass | MemoryWrite | TasksWrite | VisionClass
  | ApprovalGated | Terminal | UnknownClass

definition TOOL_RESOURCE_CLASS :: "(string, resource_class) jsmap" where
  "TOOL_RESOURCE_CLASS = [
    (''browser.navigate'', BrowserClass), (''browser.click'', BrowserClass),
    (''browser.type'', BrowserClass), (''browser.read_aria'', BrowserClass),
    (''browser.search'', BrowserClass), (''browser.tabs'', BrowserClass),
    (''browser.scroll'', BrowserClass), (''browser.screenshot'', BrowserClass),
    (''os.shell.run'', ApprovalGated), (''os.fs.read'', PureRead), (''os.fs.read_document'', PureRead),
    (''os.fs.list'', PureRead), (''os.fs.glob'', PureRead), (''os.fs.locate_project'', PureRead),
    (''os.fs.grep'', PureRead), (''os.fs.hash'', PureRead), (''os.fs.diff'', PureRead),
    (''os.fs.watch'', PureRead), (''os.fs.archive.list'', PureRead),
    (''os.fs.archive.read_entry'', PureRead), (''os.fs.write'', ApprovalGated),
    (''os.fs.edit'', ApprovalGated), (''os.fs.trash'', ApprovalGated), (''os.fs.patch'', ApprovalGated),
    (''os.fs.restore'', ApprovalGated), (''os.fs.move'', ApprovalGated),
    (''os.fs.archive.extract'', ApprovalGated), (''os.git.status'', PureRead), (''os.git.log'', PureRead),
    (''os.git.diff'', PureRead), (''os.git.show'', PureRead), (''os.git.blame'', PureRead),
    (''os.git.branch'', PureRead), (''os.git.remote'', ApprovalGated), (''os.git.fetch'', ApprovalGated),
    (''os.git.pull'', ApprovalGated), (''os.git.push'', ApprovalGated), (''os.git.clone'', ApprovalGated),
    (''os.git.checkout'', ApprovalGated), (''os.git.commit'', ApprovalGated), (''github.whoami'', PureRead),
    (''github.pr.list'', PureRead), (''github.issue.list'', PureRead),
    (''github.pr.create'', ApprovalGated), (''github.issue.create'', ApprovalGated),
    (''github.issue.comment'', ApprovalGated), (''os.git.init'', ApprovalGated),
    (''os.git.add'', ApprovalGated), (''os.proc.list'', PureRead), (''os.proc.kill'', ApprovalGated),
    (''os.http.request'', ApprovalGated), (''os.web.search'', PureRead), (''os.web.fetch'', PureRead),
    (''os.clipboard.read'', PureRead), (''os.clipboard.write'', MemoryWrite),
    (''os.window.list'', PureRead), (''os.window.focus'', MemoryWrite), (''os.notify'', MemoryWrite),
    (''os.email.inbox'', PureRead), (''os.email.send'', ApprovalGated),
    (''os.screen.capture'', ApprovalGated), (''os.screen.click'', ApprovalGated),
    (''os.screen.type'', ApprovalGated), (''os.screen.key'', ApprovalGated), (''skill.view'', PureRead),
    (''tool.view'', PureRead), (''skill.run_script'', ApprovalGated), (''memory.profile.list'', PureRead),
    (''memory.profile.history'', PureRead), (''memory.lessons.recall'', PureRead),
    (''memory.procedures.recall'', PureRead), (''memory.notes.recall'', PureRead),
    (''memory.profile.set'', MemoryWrite), (''memory.profile.remove'', MemoryWrite),
    (''memory.notes.store'', MemoryWrite), (''memory.notes.forget'', MemoryWrite),
    (''tasks.list'', PureRead), (''tasks.show'', PureRead), (''tasks.schedule'', TasksWrite),
    (''tasks.cron'', TasksWrite), (''tasks.cancel'', TasksWrite), (''vision.describe'', VisionClass),
    (''image.generate'', ApprovalGated), (''video.generate'', ApprovalGated),
    (''fusion.delegate'', ApprovalGated), (''verify.syntax'', PureRead), (''verify.run'', ApprovalGated),
    (''mcp.resource.list'', PureRead), (''mcp.resource.read'', PureRead), (''mcp.prompt.list'', PureRead),
    (''mcp.prompt.get'', PureRead), (''reply'', Terminal), (''finish'', Terminal)]"

type_synonym class_resolver = "string \<Rightarrow> resource_class option"

definition resourceClassFor :: "class_resolver option \<Rightarrow> string \<Rightarrow> resource_class" where
  "resourceClassFor dynamicResolver toolName =
     (case jm_get TOOL_RESOURCE_CLASS toolName of
        Some builtin \<Rightarrow> builtin
      | None \<Rightarrow>
          (case dynamicResolver of
             None \<Rightarrow> UnknownClass
           | Some resolver \<Rightarrow> (case resolver toolName of Some c \<Rightarrow> c | None \<Rightarrow> UnknownClass)))"

definition isBatchable :: "resource_class \<Rightarrow> bool" where
  "isBatchable c = (c \<noteq> ApprovalGated \<and> c \<noteq> Terminal \<and> c \<noteq> UnknownClass)"

definition isParallelWithinGroup :: "resource_class \<Rightarrow> bool" where
  "isParallelWithinGroup c = (c = PureRead)"

definition isBookkeepingTool :: "class_resolver option \<Rightarrow> string \<Rightarrow> bool" where
  "isBookkeepingTool resolver toolName =
     (js_starts_with ''memory.'' toolName \<and> resourceClassFor resolver toolName = MemoryWrite)"

section \<open>Gated calls\<close>

definition FS_WRITE_CATEGORIES :: "approval_category list" where
  "FS_WRITE_CATEGORIES = [FsWriteWorkspace, FsWriteHome, TrustConfig, OtherCategory]"

definition APPROVAL_CATEGORIES_BY_TOOL :: "(string, approval_category list) jsmap" where
  "APPROVAL_CATEGORIES_BY_TOOL = [
    (''os.shell.run'', [Shell]), (''verify.run'', [Shell]), (''os.fs.write'', FS_WRITE_CATEGORIES),
    (''os.fs.edit'', FS_WRITE_CATEGORIES), (''os.fs.patch'', FS_WRITE_CATEGORIES),
    (''os.fs.restore'', FS_WRITE_CATEGORIES), (''os.fs.move'', FS_WRITE_CATEGORIES),
    (''os.fs.trash'', [FsTrash, TrustConfig, OtherCategory]),
    (''os.fs.archive.extract'', [FsWriteHome, OtherCategory]), (''os.git.init'', FS_WRITE_CATEGORIES),
    (''os.git.add'', FS_WRITE_CATEGORIES), (''os.git.commit'', FS_WRITE_CATEGORIES),
    (''os.git.checkout'', FS_WRITE_CATEGORIES), (''os.git.remote'', [GitRemote]),
    (''os.git.fetch'', [GitRemote]), (''os.git.pull'', [GitRemote]), (''os.git.push'', [GitRemote]),
    (''os.git.clone'', [GitRemote]), (''github.pr.create'', [Publish]),
    (''github.issue.create'', [Publish]), (''github.issue.comment'', [Publish]),
    (''os.proc.kill'', [ProcKill]), (''os.http.request'', [Http]), (''os.email.send'', [Email]),
    (''os.screen.capture'', [ScreenCapture]), (''os.screen.click'', [ScreenControl]),
    (''os.screen.type'', [ScreenControl]), (''os.screen.key'', [ScreenControl]),
    (''skill.run_script'', [Script]), (''image.generate'', [PaidGeneration]),
    (''video.generate'', [PaidGeneration])]"

definition SOLO_REGARDLESS_OF_APPROVAL :: "string list" where
  "SOLO_REGARDLESS_OF_APPROVAL = [''fusion.delegate'']"

record batch_posture =
  bp_level :: nat
  bp_grantedCategories :: "approval_category list"

definition approvalCategoriesFor :: "class_resolver option \<Rightarrow> string \<Rightarrow> approval_category list option" where
  "approvalCategoriesFor resolver toolName =
     (case jm_get APPROVAL_CATEGORIES_BY_TOOL toolName of
        Some listed \<Rightarrow> Some listed
      | None \<Rightarrow>
          if js_starts_with ''mcp.'' toolName \<and> \<not> jm_has TOOL_RESOURCE_CLASS toolName \<and>
             resourceClassFor resolver toolName = ApprovalGated
          then Some [OtherCategory] else None)"

definition gatedCallRunsUnattended :: "class_resolver option \<Rightarrow> string \<Rightarrow> batch_posture \<Rightarrow> bool" where
  "gatedCallRunsUnattended resolver toolName posture =
     (if toolName \<in> set SOLO_REGARDLESS_OF_APPROVAL then False
      else (case approvalCategoriesFor resolver toolName of
              None \<Rightarrow> False
            | Some categories \<Rightarrow>
                list_all (\<lambda>category. isAutoApprovedAt (bp_level posture) category \<or>
                    (isGrantableCategory category \<and> category \<in> set (bp_grantedCategories posture))) categories))"

definition isSoloRegardlessOfApproval :: "string \<Rightarrow> bool" where
  "isSoloRegardlessOfApproval toolName = (toolName \<in> set SOLO_REGARDLESS_OF_APPROVAL)"

section \<open>MCP names\<close>

definition MCP_TOOL_PREFIX :: string where
  "MCP_TOOL_PREFIX = ''mcp.''"

definition qualifyMcpToolName :: "string \<Rightarrow> string \<Rightarrow> string" where
  "qualifyMcpToolName server rawName = MCP_TOOL_PREFIX @ server @ ''.'' @ rawName"

text \<open>\<open>rest.indexOf(".")\<close> splits the rest at its first dot; a first or last dot is refused.\<close>

definition splitMcpToolName :: "string \<Rightarrow> (string \<times> string) option" where
  "splitMcpToolName qualified =
     (if \<not> js_starts_with MCP_TOOL_PREFIX qualified then None
      else let rest = drop (length MCP_TOOL_PREFIX) qualified;
               server = takeWhile (\<lambda>c. c \<noteq> CHR ''.'') rest;
               dotIdx = length server
           in if dotIdx = length rest then None
              else if dotIdx = 0 \<or> dotIdx + 1 \<ge> length rest then None
              else Some (server, drop (dotIdx + 1) rest))"

datatype mcp_trust = TrustApprovalGated | TrustPureRead

definition createMcpResourceClassResolver :: "(string, mcp_trust) jsmap \<Rightarrow> class_resolver" where
  "createMcpResourceClassResolver serverTrust toolName =
     (case splitMcpToolName toolName of
        None \<Rightarrow> None
      | Some (server, rawName) \<Rightarrow>
          if jm_get serverTrust server = Some TrustPureRead then Some PureRead else Some ApprovalGated)"

section \<open>Lemmas\<close>

lemma split_qualify:
  "server \<noteq> [] \<Longrightarrow> CHR ''.'' \<notin> set server \<Longrightarrow> rawName \<noteq> [] \<Longrightarrow>
     splitMcpToolName (qualifyMcpToolName server rawName) = Some (server, rawName)"
proof -
  assume a: "server \<noteq> []" "CHR ''.'' \<notin> set server" "rawName \<noteq> []"
  have "takeWhile (\<lambda>c. c \<noteq> CHR ''.'') (server @ ''.'' @ rawName) = server"
    using a(2) by (subst takeWhile_append2) auto
  with a show ?thesis
    by (simp add: splitMcpToolName_def qualifyMcpToolName_def js_starts_with_def MCP_TOOL_PREFIX_def Let_def)
qed

lemma no_builtin_mcp_server: "list_all (\<lambda>(n, c). js_starts_with ''mcp.'' n \<longrightarrow> c = PureRead) TOOL_RESOURCE_CLASS"
  by (simp add: TOOL_RESOURCE_CLASS_def js_starts_with_def)

lemma table_keys_distinct: "jm_ok TOOL_RESOURCE_CLASS"
  by (simp add: jm_ok_def TOOL_RESOURCE_CLASS_def)

text \<open>Every gated tool of the table has a row of categories or is solo.\<close>

lemma gated_tools_covered:
  "list_all (\<lambda>(n, c). c = ApprovalGated \<longrightarrow> jm_has APPROVAL_CATEGORIES_BY_TOOL n \<or> isSoloRegardlessOfApproval n)
     TOOL_RESOURCE_CLASS"
  by code_simp

end
