(* ===== verification/Compressor.thy ===== *)
theory Compressor
  imports Tool_Classes Fingerprints
begin

text \<open>
  \<open>src/src/compressor/result-compressor.ts\<close>: verbose tool output cut to a summary. A length counts
  characters; the one-character ellipsis of the markers is \<open>ELLIPSIS\<close>. The non-enumerable copy of the
  whole output that the code hangs on a result is left out.
\<close>

record raw_result =
  rt_tool :: string
  rt_status :: result_status
  rt_output :: string
  rt_details :: "(string \<times> json) list"

record compress_options =
  co_maxSummaryLength :: int
  co_maxTailLines :: nat
  co_tail :: bool

definition COMPRESSOR_DEFAULTS :: compress_options where
  "COMPRESSOR_DEFAULTS = \<lparr>co_maxSummaryLength = 400, co_maxTailLines = 12, co_tail = False\<rparr>"

definition NEWLINE :: char where
  "NEWLINE = CHR 0x0A"

text \<open>\<open>s.slice(0, n)\<close>: a negative end counts from the end. \<open>s.slice(-n)\<close> for positive \<open>n\<close>.\<close>

definition slice_to :: "int \<Rightarrow> 'a list \<Rightarrow> 'a list" where
  "slice_to n s = (if 0 \<le> n then take (nat n) s else take (length s - nat (- n)) s)"

definition slice_last :: "int \<Rightarrow> 'a list \<Rightarrow> 'a list" where
  "slice_last n s = drop (length s - nat n) s"

text \<open>\<open>replace(/\r\n/g, "\n")\<close>.\<close>

fun unix_lines :: "string \<Rightarrow> string" where
  "unix_lines (c # d # cs) =
     (if c = CHR 0x0D \<and> d = NEWLINE then NEWLINE # unix_lines cs else c # unix_lines (d # cs))"
| "unix_lines cs = cs"

definition trimEnd :: "string \<Rightarrow> string" where
  "trimEnd s = rev (dropWhile is_space (rev s))"

fun js_includes :: "string \<Rightarrow> string \<Rightarrow> bool" where
  "js_includes p [] = (p = [])"
| "js_includes p (c # cs) = (js_starts_with p (c # cs) \<or> js_includes p cs)"

definition lines_text :: "string list \<Rightarrow> string" where
  "lines_text ls = joined [NEWLINE] ls"

definition TRUNCATED_MARK :: string where
  "TRUNCATED_MARK = ELLIPSIS # '' [truncated]''"

definition extractTail :: "string \<Rightarrow> nat \<Rightarrow> string \<times> bool" where
  "extractTail txt maxLines =
     (if txt = [] then ([], False)
      else let ls = filter (\<lambda>l. js_trim l \<noteq> []) (js_split NEWLINE txt)
           in if length ls \<le> maxLines then (lines_text ls, False)
              else (ELLIPSIS # '' [omitted '' @ show_nat (length ls - maxLines) @ '' lines]'' @ [NEWLINE] @
                      lines_text (drop (length ls - maxLines) ls), True))"

definition ERROR_MARKERS :: "string list" where
  "ERROR_MARKERS = [''error:'', ''failed:'', ''traceback (most recent call last)'', ''assertionerror'', ''exception:'']"

definition extractSignature :: "string \<Rightarrow> result_status \<Rightarrow> string" where
  "extractSignature txt status =
     (if status = StOk then []
      else (case find (\<lambda>l. list_ex (\<lambda>m. js_includes m (to_lower l)) ERROR_MARKERS) (js_split NEWLINE txt) of
              None \<Rightarrow> []
            | Some l \<Rightarrow> ''key: '' @ take 180 (js_trim l)))"

definition keepSummaryTail :: "string \<Rightarrow> string \<Rightarrow> int \<Rightarrow> string" where
  "keepSummaryTail signature tail maxLen =
     (let start = (if signature \<noteq> [] then signature @ [NEWLINE] else []);
          marker = TRUNCATED_MARK @ [NEWLINE];
          room = maxLen - int (length start) - int (length marker)
      in if room \<le> 0 then slice_to (max 0 maxLen) (start @ marker)
         else start @ marker @ slice_last room tail)"

definition compressToolResult :: "raw_result \<Rightarrow> compress_options \<Rightarrow> compressed_result" where
  "compressToolResult raw options =
     (let normalised = trimEnd (unix_lines (rt_output raw));
          (tail, tailTruncated) = extractTail normalised (co_maxTailLines options);
          signature = extractSignature normalised (rt_status raw);
          summary_text = lines_text (filter (\<lambda>part. part \<noteq> []) [signature, tail]);
          overLength = (int (length summary_text) > co_maxSummaryLength options)
      in \<lparr>cr_tool = rt_tool raw, cr_status = rt_status raw,
          cr_summary =
            (if \<not> overLength then summary_text
             else if co_tail options then keepSummaryTail signature tail (co_maxSummaryLength options)
             else slice_to (co_maxSummaryLength options - 15) summary_text @ [NEWLINE] @ TRUNCATED_MARK),
          cr_details = rt_details raw,
          cr_truncated = (tailTruncated \<or> overLength)\<rparr>)"

section \<open>Lemmas\<close>

lemma compress_fields [simp]:
  "cr_tool (compressToolResult raw options) = rt_tool raw"
  "cr_status (compressToolResult raw options) = rt_status raw"
  "cr_details (compressToolResult raw options) = rt_details raw"
  by (simp_all add: compressToolResult_def Let_def split: prod.splits)

lemma length_slice_to: "0 \<le> n \<Longrightarrow> int (length (slice_to n s)) \<le> n"
  by (auto simp: slice_to_def)

lemma length_slice_last: "0 \<le> n \<Longrightarrow> int (length (slice_last n s)) \<le> n"
  by (simp add: slice_last_def)

lemma keepSummaryTail_bound: "0 \<le> m \<Longrightarrow> int (length (keepSummaryTail signature tail m)) \<le> m"
proof -
  assume m: "0 \<le> m"
  define p where "p = (if signature \<noteq> [] then signature @ [NEWLINE] else []) @ TRUNCATED_MARK @ [NEWLINE]"
  have k: "keepSummaryTail signature tail m =
      (if m - int (length p) \<le> 0 then slice_to m p else p @ slice_last (m - int (length p)) tail)"
    using m by (simp add: keepSummaryTail_def p_def Let_def algebra_simps)
  show ?thesis
  proof (cases "m - int (length p) \<le> 0")
    case True
    then show ?thesis using length_slice_to [OF m, of p] k by simp
  next
    case False
    then show ?thesis using length_slice_last [of "m - int (length p)" tail] k by simp
  qed
qed

lemma summary_bound:
  assumes "15 \<le> co_maxSummaryLength options"
  shows "int (length (cr_summary (compressToolResult raw options))) \<le> co_maxSummaryLength options"
proof -
  have "int (length (slice_to (co_maxSummaryLength options - 15) s)) \<le> co_maxSummaryLength options - 15" for s :: string
    using assms by (intro length_slice_to) simp
  then show ?thesis using assms keepSummaryTail_bound [of "co_maxSummaryLength options"]
    by (simp add: compressToolResult_def Let_def TRUNCATED_MARK_def split: prod.splits)
       (smt (verit))
qed

section \<open>Text that passes whole\<close>

lemma compress_whole:
  assumes "rt_output raw = txt" and "trimEnd (unix_lines txt) = txt"
    and "extractTail txt (co_maxTailLines options) = (txt, False)"
    and "lines_text (filter (\<lambda>part. part \<noteq> []) [extractSignature txt (rt_status raw), txt]) = s"
    and "int (length s) \<le> co_maxSummaryLength options"
  shows "cr_summary (compressToolResult raw options) = s \<and> \<not> cr_truncated (compressToolResult raw options)"
  using assms by (simp add: compressToolResult_def Let_def del: filter.simps)

lemma joined_Cons: "joined sp (s # ss) = (if ss = [] then s else s @ sp @ joined sp ss)"
  by (cases ss) (simp_all add: joined_def)

lemma length_lines_text: "length (lines_text ls) \<le> (\<Sum>l \<leftarrow> ls. Suc (length l))"
  unfolding lines_text_def
proof (induction ls)
  case (Cons l ls)
  then show ?case by (simp add: joined_Cons)
qed (simp add: joined_def)

lemma lines_text_join: "lines_text ls = js_join NEWLINE ls"
  unfolding lines_text_def by (induction ls rule: js_join.induct) (simp_all add: joined_Cons, simp add: joined_def)

definition plain_line :: "string \<Rightarrow> bool" where
  "plain_line l \<longleftrightarrow> NEWLINE \<notin> set l \<and> CHR 0x0D \<notin> set l \<and> js_trim l \<noteq> []"

lemma unix_lines_plain: "CHR 0x0D \<notin> set s \<Longrightarrow> unix_lines s = s"
  by (induction s rule: unix_lines.induct) (auto split: if_splits)

lemma trimEnd_snoc: "\<not> is_space c \<Longrightarrow> trimEnd (s @ [c]) = s @ [c]"
  by (simp add: trimEnd_def)

lemma set_lines_text: "c \<in> set (lines_text ls) \<Longrightarrow> c = NEWLINE \<or> (\<exists>l \<in> set ls. c \<in> set l)"
  unfolding lines_text_join by (induction ls rule: js_join.induct) auto

lemma lines_text_snoc: "ls \<noteq> [] \<Longrightarrow> lines_text (ls @ [l]) = lines_text ls @ NEWLINE # l"
proof (induction ls)
  case (Cons a ls)
  then show ?case by (cases ls) (simp_all add: lines_text_join)
qed simp

text \<open>Plain lines ending in a character that is not white space pass the compressor whole, under a
  signature line when one of them looks like an error.\<close>

lemma plain_tail:
  assumes "list_all plain_line (ls @ [l @ [c]])" and "\<not> is_space c" and "ls \<noteq> []" and "length ls < k"
  shows "trimEnd (unix_lines (lines_text (ls @ [l @ [c]]))) = lines_text (ls @ [l @ [c]]) \<and>
    extractTail (lines_text (ls @ [l @ [c]])) k = (lines_text (ls @ [l @ [c]]), False)"
proof -
  let ?ls = "ls @ [l @ [c]]"
  have "CHR 0x0D \<notin> set (lines_text ?ls)"
    using assms(1) by (auto simp: list_all_iff plain_line_def NEWLINE_def dest!: set_lines_text)
  then have u: "unix_lines (lines_text ?ls) = lines_text ?ls" by (rule unix_lines_plain)
  have "lines_text ?ls = (lines_text ls @ NEWLINE # l) @ [c]" by (simp add: lines_text_snoc [OF assms(3)])
  then have t: "trimEnd (lines_text ?ls) = lines_text ?ls" "lines_text ?ls \<noteq> []"
    using trimEnd_snoc [OF assms(2), of "lines_text ls @ NEWLINE # l"] by simp_all
  have "js_split NEWLINE (lines_text ?ls) = ?ls"
    unfolding lines_text_join by (rule js_split_join) (use assms(1) in \<open>auto simp: list_all_iff plain_line_def\<close>)
  moreover have "filter (\<lambda>l. js_trim l \<noteq> []) ?ls = ?ls"
    using assms(1) by (auto simp: list_all_iff plain_line_def filter_id_conv)
  ultimately show ?thesis using u t assms(4) by (simp add: extractTail_def Let_def)
qed

lemma js_trim_first: "\<not> is_space c \<Longrightarrow> js_trim (c # s) \<noteq> []"
  by (simp add: js_trim_def dropWhile_append)

definition no_breaks :: "string \<Rightarrow> bool" where
  "no_breaks s \<longleftrightarrow> NEWLINE \<notin> set s \<and> CHR 0x0D \<notin> set s"

lemma no_breaks_simps [simp]:
  "no_breaks []" "no_breaks (c # s) \<longleftrightarrow> c \<noteq> NEWLINE \<and> c \<noteq> CHR 0x0D \<and> no_breaks s"
  "no_breaks (s @ t) \<longleftrightarrow> no_breaks s \<and> no_breaks t"
  by (auto simp: no_breaks_def)

lemma plain_line_first: "no_breaks (c # s) \<Longrightarrow> \<not> is_space c \<Longrightarrow> plain_line (c # s)"
  using js_trim_first by (simp add: plain_line_def no_breaks_def)

lemma show_nat_no_breaks [simp]: "no_breaks (show_nat n)"
  using show_nat_digits [of n] by (auto simp: no_breaks_def is_digit_def NEWLINE_def)

lemma signature_length: "length (extractSignature txt status) \<le> 185"
  by (simp add: extractSignature_def split: option.splits)

end
