(* ===== verification/Unknown_Tool.thy ===== *)
theory Unknown_Tool
  imports Compressor "HOL-Library.Product_Lexorder"
begin

text \<open>
  \<open>src/src/agent/policies/unknown-tool.ts\<close>: the answer to a call of a tool nobody registered, with the
  closest real names. \<open>editDistance\<close> computes Levenshtein's matrix row by row; \<open>one_edit\<close> is the
  notion it stands for (one character inserted, deleted or replaced), and the lemmas compare the
  two through the textbook recursion \<open>lev\<close>. The step tool set of \<open>step-tool-set.ts\<close> is here too,
  since both policies answer before anything is dispatched.
\<close>

section \<open>Step tool sets\<close>

record step_tool_set =
  ts_names :: "string list"
  ts_reason :: string

definition toolSetAdmits :: "step_tool_set \<Rightarrow> string \<Rightarrow> bool" where
  "toolSetAdmits ts tool = (tool \<in> set (ts_names ts))"

definition narrowDescriptorsToToolSet :: "('d \<Rightarrow> string) \<Rightarrow> 'd list \<Rightarrow> step_tool_set \<Rightarrow> 'd list" where
  "narrowDescriptorsToToolSet name_of descriptors ts = filter (\<lambda>d. toolSetAdmits ts (name_of d)) descriptors"

definition toolSetRefusal :: "string \<Rightarrow> step_tool_set \<Rightarrow> compressed_result" where
  "toolSetRefusal tool ts =
     \<lparr>cr_tool = tool, cr_status = StError,
      cr_summary = ts_reason ts @ '': `'' @ tool @ ''` was not run; this step admits only '' @
        joined '', '' (map (\<lambda>n. ''`'' @ n @ ''`'') (ts_names ts)),
      cr_details = [(''tool_set'', JBool True), (''tool'', JStr tool), (''admitted'', JArr (map JStr (ts_names ts)))],
      cr_truncated = False\<rparr>"

section \<open>Closest names\<close>

definition UNKNOWN_TOOL_STREAK_LIMIT :: nat where
  "UNKNOWN_TOOL_STREAK_LIMIT = 3"

definition UNKNOWN_TOOL_MAX_SUGGESTIONS :: nat where
  "UNKNOWN_TOOL_MAX_SUGGESTIONS = 3"

definition ECHO_NAME_CHARS :: nat where
  "ECHO_NAME_CHARS = 80"

definition NAMESPACE_SEGMENTS :: "string list" where
  "NAMESPACE_SEGMENTS = [''os'', ''fs'', ''mcp'', ''tool'', ''tools'']"

definition record_streak :: "bool \<Rightarrow> nat \<Rightarrow> nat" where
  "record_streak unknownOnly streak = (if unknownOnly then streak + 1 else 0)"

definition is_separator :: "char \<Rightarrow> bool" where
  "is_separator c = (c = CHR ''.'' \<or> c = CHR ''_'' \<or> c = CHR ''-'' \<or> is_space c)"

text \<open>\<open>split(/[._\-\s]+/)\<close> with the empty pieces dropped.\<close>

fun segments :: "string \<Rightarrow> string \<Rightarrow> string list" where
  "segments piece [] = (if piece = [] then [] else [piece])"
| "segments piece (c # cs) =
     (if is_separator c then (if piece = [] then segments [] cs else piece # segments [] cs)
      else segments (piece @ [c]) cs)"

definition segmentsOf :: "string \<Rightarrow> string list" where
  "segmentsOf name = segments [] (to_lower name)"

definition segmentsMatch :: "string \<Rightarrow> string \<Rightarrow> bool" where
  "segmentsMatch emitted actual =
     (if emitted = actual then True
      else if length emitted < 3 \<or> length actual < 3 then False
      else js_starts_with actual emitted \<or> js_starts_with emitted actual)"

text \<open>The inner loop: \<open>previous[j - 1]\<close> is the head of the previous row, \<open>previous[j]\<close> the cell after it,
  \<open>current[j - 1]\<close> is \<open>left\<close>.\<close>

fun edit_cells :: "char \<Rightarrow> string \<Rightarrow> nat \<Rightarrow> nat list \<Rightarrow> nat list" where
  "edit_cells x (y # ys) left (diag # up # previous) =
     (let v = min (min (up + 1) (left + 1)) (diag + (if x = y then 0 else 1))
      in v # edit_cells x ys v (up # previous))"
| "edit_cells x _ left _ = []"

fun edit_rows :: "string \<Rightarrow> string \<Rightarrow> nat \<Rightarrow> nat list \<Rightarrow> nat list" where
  "edit_rows [] b i previous = previous"
| "edit_rows (x # a) b i previous = edit_rows a b (Suc i) (i # edit_cells x b i previous)"

definition editDistance :: "string \<Rightarrow> string \<Rightarrow> nat" where
  "editDistance a b = (if a = b then 0 else edit_rows a b 1 [0..<length b + 1] ! length b)"

definition scored :: "string \<Rightarrow> string \<Rightarrow> nat \<times> nat" where
  "scored emitted name =
     (let wanted = filter (\<lambda>s. s \<notin> set NAMESPACE_SEGMENTS) (segmentsOf emitted); own = segmentsOf name
      in (length (filter (\<lambda>s. list_ex (segmentsMatch s) own) wanted),
          editDistance (to_lower emitted) (to_lower name)))"

text \<open>The comparison: more shared segments, then the smaller distance, then the name.\<close>

definition score_key :: "string \<times> nat \<times> nat \<Rightarrow> int \<times> nat \<times> string" where
  "score_key e = (case e of (name, shared, distance) \<Rightarrow> (- int shared, distance, name))"

definition closestToolNames :: "string \<Rightarrow> string list \<Rightarrow> nat \<Rightarrow> string list" where
  "closestToolNames emitted candidates max_names =
     (let threshold = max 1 (length emitted div 4);
          entries = filter (\<lambda>(name, shared, distance). name \<noteq> emitted \<and> \<not> (shared = 0 \<and> distance > threshold))
            (map (\<lambda>name. (name, scored emitted name)) (fold js_add candidates []))
      in map fst (take max_names (sort_key score_key entries)))"

datatype name_class = NearMiss | McpLike | OtherName

definition unregisteredToolNameClass :: "string \<Rightarrow> string list \<Rightarrow> name_class" where
  "unregisteredToolNameClass emitted suggestions =
     (if suggestions \<noteq> [] then NearMiss
      else if js_starts_with ''mcp.'' (to_lower emitted) then McpLike else OtherName)"

definition echoName :: "string \<Rightarrow> string" where
  "echoName name =
     (let flat = collapse_ws False name
      in if length flat > ECHO_NAME_CHARS then take ECHO_NAME_CHARS flat @ [ELLIPSIS] else flat)"

definition formatUnknownToolMessage :: "string \<Rightarrow> string list \<Rightarrow> string" where
  "formatUnknownToolMessage emitted suggestions =
     (let start = ''no tool named `'' @ echoName emitted @ ''` in this agent; nothing ran.''
      in if suggestions \<noteq> []
         then start @ '' Closest: '' @ joined '', '' suggestions @ ''. Call one of the listed tools.''
         else start @ '' Call only tools listed in your instructions; do not invent tool names.'')"

definition unknownToolResult :: "string \<Rightarrow> string list \<Rightarrow> compressed_result" where
  "unknownToolResult emitted candidates =
     (let suggestions = closestToolNames emitted candidates UNKNOWN_TOOL_MAX_SUGGESTIONS
      in compressToolResult \<lparr>rt_tool = emitted, rt_status = StError,
           rt_output = formatUnknownToolMessage emitted suggestions,
           rt_details = [(''unregisteredTool'', JBool True), (''suggestions'', JArr (map JStr suggestions))]\<rparr>
         COMPRESSOR_DEFAULTS)"

text \<open>The registry: the registered names in order, each with its \<open>readonly\<close> flag.\<close>

type_synonym tool_registry = "(string, bool) jsmap"

definition refuseUnregisteredTool :: "string \<Rightarrow> tool_registry \<Rightarrow> step_tool_set option \<Rightarrow> compressed_result option" where
  "refuseUnregisteredTool tool registry toolSet =
     (if jm_has registry tool then None
      else Some (unknownToolResult tool
             (filter (\<lambda>n. case toolSet of None \<Rightarrow> True | Some ts \<Rightarrow> toolSetAdmits ts n) (jm_keys registry))))"

section \<open>The distance is the least number of edits\<close>

inductive one_edit :: "string \<Rightarrow> string \<Rightarrow> bool" where
  Delete: "one_edit (x # s) s"
| Insert: "one_edit s (x # s)"
| Replace: "one_edit (x # s) (y # s)"
| Keep: "one_edit s t \<Longrightarrow> one_edit (z # s) (z # t)"

fun lev :: "string \<Rightarrow> string \<Rightarrow> nat" where
  "lev [] t = length t"
| "lev (x # s) [] = Suc (length s)"
| "lev (x # s) (y # t) = min (min (Suc (lev s (y # t))) (Suc (lev (x # s) t))) (lev s t + (if x = y then 0 else 1))"

lemma lev_Nil2 [simp]: "lev s [] = length s"
  by (cases s) simp_all

lemma lev_drop_left: "lev (x # s) t \<le> Suc (lev s t)"
  by (cases t) auto

lemma lev_self [simp]: "lev s s = 0"
  by (induction s) simp_all

lemma lev_add_left: "lev s t \<le> Suc (lev (x # s) t)"
proof (induction t)
  case Nil
  then show ?case by simp
next
  case (Cons y t)
  have "lev s (y # t) \<le> Suc (lev s t)" by (cases s) auto
  then show ?case using Cons by auto
qed

lemma lev_drop_right: "lev s (y # t) \<le> Suc (lev s t)"
  by (cases s) auto

lemma edit_le: "one_edit s t \<Longrightarrow> lev s w \<le> Suc (lev t w)"
proof (induction arbitrary: w rule: one_edit.induct)
  case (Delete x s)
  show ?case by (rule lev_drop_left)
next
  case (Insert s x)
  show ?case by (rule lev_add_left)
next
  case (Replace x s y)
  show ?case
  proof (induction w)
    case (Cons v w)
    then show ?case by (cases "x = v"; cases "y = v"; simp add: min_def; linarith)
  qed simp
next
  case (Keep s t z)
  show ?case
  proof (induction w)
    case Nil
    show ?case using Keep.IH [of "[]"] by simp
  next
    case (Cons v w)
    then show ?case using Keep.IH [of "v # w"] Keep.IH [of w] by auto
  qed
qed

lemma edits_le: "(one_edit ^^ n) s t \<Longrightarrow> lev s t \<le> n"
proof (induction n arbitrary: s)
  case (Suc n)
  then obtain u where "one_edit s u" "(one_edit ^^ n) u t" by (metis relpowp_Suc_D2)
  then show ?case using Suc.IH edit_le [of s u t] by fastforce
qed simp

lemma edits_keep: "(one_edit ^^ n) s t \<Longrightarrow> (one_edit ^^ n) (z # s) (z # t)"
proof (induction n arbitrary: t)
  case (Suc n)
  then obtain u where "(one_edit ^^ n) s u" "one_edit u t" by auto
  then show ?case using Suc.IH [of u] one_edit.Keep [of u t z] by auto
qed simp

lemma edits_insert: "(one_edit ^^ length t) [] t"
  by (induction t) (auto intro: one_edit.Insert)

lemma edits_delete: "(one_edit ^^ length s) s []"
proof (induction s)
  case (Cons x s)
  then show ?case using relpowp_Suc_I2 [OF one_edit.Delete [of x s] Cons] by simp
qed simp

lemma edits_lev: "(one_edit ^^ lev s t) s t"
proof (induction s t rule: lev.induct)
  case (1 t)
  then show ?case using edits_insert by simp
next
  case (2 x s)
  then show ?case using edits_delete [of "x # s"] by simp
next
  case (3 x s y t)
  have del: "(one_edit ^^ Suc (lev s (y # t))) (x # s) (y # t)"
    using relpowp_Suc_I2 [OF one_edit.Delete [of x s] 3(1)] .
  have ins: "(one_edit ^^ Suc (lev (x # s) t)) (x # s) (y # t)"
    by (rule relpowp_Suc_I [OF 3(2)]) (rule one_edit.Insert)
  have rep: "(one_edit ^^ (lev s t + (if x = y then 0 else 1))) (x # s) (y # t)"
  proof (cases "x = y")
    case True
    then show ?thesis using edits_keep [OF 3(3), of x] by simp
  next
    case False
    have "(one_edit ^^ Suc (lev s t)) (x # s) (y # t)"
      by (rule relpowp_Suc_I2 [OF one_edit.Replace [of x s y] edits_keep [OF 3(3)]])
    then show ?thesis using False by simp
  qed
  have "lev (x # s) (y # t) = Suc (lev s (y # t)) \<or> lev (x # s) (y # t) = Suc (lev (x # s) t) \<or>
      lev (x # s) (y # t) = lev s t + (if x = y then 0 else 1)" by (simp add: min_def)
  then show ?case using del ins rep by (elim disjE) (simp_all only:)
qed

lemma lev_least: "lev s t = (LEAST n. (one_edit ^^ n) s t)"
  by (rule sym, rule Least_equality) (auto intro: edits_lev edits_le)

lemma edit_append: "one_edit s t \<Longrightarrow> one_edit (s @ u) (t @ u)"
  by (induction rule: one_edit.induct) (auto intro: one_edit.intros)

lemma edit_prepend: "one_edit s t \<Longrightarrow> one_edit (u @ s) (u @ t)"
  by (induction u) (auto intro: one_edit.Keep)

lemma edit_rev: "one_edit s t \<Longrightarrow> one_edit (rev s) (rev t)"
proof (induction rule: one_edit.induct)
  case (Delete x s)
  show ?case using edit_prepend [OF one_edit.Delete [of x "[]"], of "rev s"] by simp
next
  case (Insert s x)
  show ?case using edit_prepend [OF one_edit.Insert [of "[]" x], of "rev s"] by simp
next
  case (Replace x s y)
  show ?case using edit_prepend [OF one_edit.Replace [of x "[]" y], of "rev s"] by simp
next
  case (Keep s t z)
  then show ?case using edit_append by simp
qed

lemma edits_rev: "(one_edit ^^ n) s t \<Longrightarrow> (one_edit ^^ n) (rev s) (rev t)"
proof (induction n arbitrary: t)
  case (Suc n)
  then obtain u where u: "(one_edit ^^ n) s u" "one_edit u t" by auto
  show ?case by (rule relpowp_Suc_I [OF Suc.IH [OF u(1)] edit_rev [OF u(2)]])
qed simp

lemma lev_rev [simp]: "lev (rev s) (rev t) = lev s t"
proof (rule antisym)
  show "lev (rev s) (rev t) \<le> lev s t" by (rule edits_le [OF edits_rev [OF edits_lev]])
  show "lev s t \<le> lev (rev s) (rev t)" using edits_le [OF edits_rev [OF edits_lev [of "rev s" "rev t"]]] by simp
qed

text \<open>The matrix: the cell of two prefixes is their distance.\<close>

definition prefix_dist :: "string \<Rightarrow> string \<Rightarrow> nat" where
  "prefix_dist p q = lev (rev p) (rev q)"

lemma prefix_dist_snoc:
  "prefix_dist (p @ [x]) (q @ [y]) =
     min (min (Suc (prefix_dist p (q @ [y]))) (Suc (prefix_dist (p @ [x]) q))) (prefix_dist p q + (if x = y then 0 else 1))"
  by (simp add: prefix_dist_def del: lev_rev)

fun dist_row :: "string \<Rightarrow> string \<Rightarrow> string \<Rightarrow> nat list" where
  "dist_row p q [] = [prefix_dist p q]"
| "dist_row p q (y # ys) = prefix_dist p q # dist_row p (q @ [y]) ys"

lemma edit_cells_row:
  "edit_cells x ys (prefix_dist (p @ [x]) q) (dist_row p q ys) = tl (dist_row (p @ [x]) q ys)"
proof (induction ys arbitrary: q)
  case (Cons y ys)
  have "edit_cells x (y # ys) (prefix_dist (p @ [x]) q) (dist_row p q (y # ys)) =
      prefix_dist (p @ [x]) (q @ [y]) # edit_cells x ys (prefix_dist (p @ [x]) (q @ [y])) (dist_row p (q @ [y]) ys)"
    by (cases ys) (simp_all add: prefix_dist_snoc Let_def)
  also have "\<dots> = dist_row (p @ [x]) (q @ [y]) ys" using Cons [of "q @ [y]"] by (cases ys) simp_all
  finally show ?case by simp
qed simp

lemma dist_row_hd: "prefix_dist p q # tl (dist_row p q ys) = dist_row p q ys"
  by (cases ys) simp_all

lemma edit_rows_row: "edit_rows a b (Suc (length p)) (dist_row p [] b) = dist_row (p @ a) [] b"
proof (induction a arbitrary: p)
  case (Cons x a)
  have "prefix_dist (p @ [x]) [] = Suc (length p)" by (simp add: prefix_dist_def)
  then have "Suc (length p) # edit_cells x b (Suc (length p)) (dist_row p [] b) = dist_row (p @ [x]) [] b"
    using edit_cells_row [of x b p "[]"] dist_row_hd [of "p @ [x]" "[]" b] by simp
  then show ?case using Cons [of "p @ [x]"] by simp
qed simp

lemma dist_row_nth: "j \<le> length ys \<Longrightarrow> dist_row p q ys ! j = prefix_dist p (q @ take j ys)"
proof (induction ys arbitrary: q j)
  case (Cons y ys)
  then show ?case by (cases j) auto
qed simp

lemma dist_row_length [simp]: "length (dist_row p q ys) = Suc (length ys)"
  by (induction ys arbitrary: q) auto

lemma first_row: "[0..<length b + 1] = dist_row [] [] b"
  by (rule nth_equalityI) (simp_all add: dist_row_nth prefix_dist_def del: upt_Suc)

lemma editDistance_lev: "editDistance a b = lev a b"
proof (cases "a = b")
  case False
  have "edit_rows a b 1 [0..<length b + 1] = dist_row a [] b"
    unfolding first_row using edit_rows_row [of a b "[]"] by simp
  then show ?thesis using False by (simp add: editDistance_def dist_row_nth prefix_dist_def)
qed (simp add: editDistance_def)

end
