(* ===== verification/Loop_Notices.thy ===== *)
theory Loop_Notices
  imports Compressor Loop_Detector
begin

text \<open>
  The guidance texts of \<open>src/src/agent/progress/loop-notices.ts\<close> that a veto and a repeat notice
  carry, and the label they name. \<open>hostname\<close> stands for \<open>new URL(s).hostname\<close> (\<open>None\<close> when the
  constructor throws).
\<close>

text \<open>\<open>replace(/[`\r\n]+/g, " ")\<close>.\<close>

definition is_label_break :: "char \<Rightarrow> bool" where
  "is_label_break c = ((of_char c :: nat) \<in> {96, 13, 10})"

fun collapse_breaks :: "bool \<Rightarrow> string \<Rightarrow> string" where
  "collapse_breaks inRun [] = []"
| "collapse_breaks inRun (c # cs) =
     (if is_label_break c then (if inRun then collapse_breaks True cs else CHR '' '' # collapse_breaks True cs)
      else c # collapse_breaks False cs)"

definition sanitizeLoopTarget :: "string option \<Rightarrow> string option" where
  "sanitizeLoopTarget raw =
     (case raw of None \<Rightarrow> None
      | Some s \<Rightarrow>
          let cleaned = js_trim (collapse_breaks False s)
          in if cleaned = [] then None
             else Some (if length cleaned > 60 then take 57 cleaned @ ''...'' else cleaned))"

definition dash :: string where
  "dash = '' '' @ [EM_DASH] @ '' ''"

datatype guidance_mode = NoticeMode | VetoMode

definition loop_header :: "string \<Rightarrow> nat \<Rightarrow> guidance_mode \<Rightarrow> string option \<Rightarrow> bool \<Rightarrow> string" where
  "loop_header tool n mode target wandering =
     (if mode = VetoMode \<and> wandering then
        ''BLOCKED: `'' @ tool @ ''`'' @ dash @ show_nat n @ '' different attempts'' @
          (case target of None \<Rightarrow> [] | Some t \<Rightarrow> '' against `'' @ t @ ''`'') @
          '' in a row without using what came back.''
      else if mode = VetoMode \<and> n > 1 then
        ''BLOCKED: `'' @ tool @ ''`'' @ dash @ show_nat n @ '' consecutive calls'' @
          (case target of None \<Rightarrow> [] | Some t \<Rightarrow> '' to `'' @ t @ ''`'') @
          '' returned the same no-progress outcome.''
      else if mode = VetoMode then
        ''BLOCKED: `'' @ tool @ ''`'' @ dash @ ''repeated calls'' @
          (case target of None \<Rightarrow> [] | Some t \<Rightarrow> '' to `'' @ t @ ''`'') @ '' are not making progress.''
      else (case target of
              Some t \<Rightarrow> ''You called `'' @ tool @ ''` on `'' @ t @ ''` '' @ show_nat n @
                '' times with the same arguments and neither the result nor the world snapshot changed.''
            | None \<Rightarrow> ''You called `'' @ tool @ ''` with the same arguments '' @ show_nat n @
                '' times and neither the result nor the world snapshot changed.''))"

definition web_hint :: "string \<Rightarrow> string option \<Rightarrow> bool \<Rightarrow> string option" where
  "web_hint tool target wandering =
     (if tool = ''os.web.search'' then
        Some (if wandering
          then ''- You already have search results. Open the most promising one with `os.web.fetch` instead of re-phrasing the query.''
          else ''- Re-phrasing will not change this result. Open one of the results you already have with `os.web.fetch`, or answer from what you have.'')
      else if tool = ''os.web.fetch'' \<or> tool = ''os.http.request'' then
        Some (case target of
            Some t \<Rightarrow>
              if wandering then
                ''- Stop guessing URLs on `'' @ t @ ''`. Run `os.web.search` for the fact you need and fetch a result from a DIFFERENT host.''
              else ''- Run `os.web.search` for the fact you need and fetch a result from a DIFFERENT host'' @ dash @
                ''stop retrying `'' @ t @ ''`. The URL may be dead or returning an HTTP error; read the status in the tool result.''
          | None \<Rightarrow> ''- Run `os.web.search` for the fact you need, then fetch one URL from the results'' @ dash @
              ''do not keep guessing URLs. The URL may be dead or returning an HTTP error; read the status in the tool result.'')
      else None)"

definition browser_hint :: "string \<Rightarrow> string option" where
  "browser_hint tool =
     (if js_starts_with ''browser.'' tool
      then Some (''- Re-read `### world`'' @ dash @ ''the answer may already be on the page. Try `browser.scroll`, a different element, or `browser.navigate` to a more direct URL. An `[expanded]` element is already open.'')
      else None)"

definition shell_hint :: "string \<Rightarrow> string option \<Rightarrow> string option" where
  "shell_hint tool target =
     (if js_starts_with ''os.shell.'' tool \<or> js_starts_with ''os.fs.'' tool
      then Some (case target of
          Some t \<Rightarrow> ''- `'' @ t @ ''` will not behave differently on a re-run'' @ dash @
            ''change the arguments or path, or use a different command entirely.''
        | None \<Rightarrow> ''- Change the command, path, or arguments'' @ dash @
            ''repeating the same invocation will not produce a different result.'')
      else None)"

definition VETO_LAST_LINE :: string where
  "VETO_LAST_LINE = ''- Do NOT repeat this exact call. Either try a different approach or close the turn with `reply` giving your best answer / honestly report you could not complete the task.''"

definition some_lines :: "string option list \<Rightarrow> string list" where
  "some_lines ls = concat (map (\<lambda>l. case l of None \<Rightarrow> [] | Some s \<Rightarrow> [s]) ls)"

definition formatLoopGuidance :: "string \<Rightarrow> nat \<Rightarrow> guidance_mode \<Rightarrow> string option \<Rightarrow> detector option \<Rightarrow> string" where
  "formatLoopGuidance tool n mode rawTarget det =
     (let target = sanitizeLoopTarget rawTarget; wandering = (det = Some Wandering)
      in lines_text (some_lines
           [Some (loop_header tool n mode target wandering),
            Some ''Change strategy BEFORE calling any tool again:'',
            web_hint tool target wandering, browser_hint tool, shell_hint tool target,
            Some ''- If you have enough information already, end the turn with `reply`.'',
            if mode = VetoMode then Some VETO_LAST_LINE else None]))"

definition formatRepeatNotice :: "string \<Rightarrow> nat \<Rightarrow> string option \<Rightarrow> string" where
  "formatRepeatNotice tool n target = formatLoopGuidance tool n NoticeMode target None"

definition formatVetoInstruction :: "string \<Rightarrow> nat \<Rightarrow> string option \<Rightarrow> detector \<Rightarrow> string" where
  "formatVetoInstruction tool n target det = formatLoopGuidance tool n VetoMode target (Some det)"

text \<open>\<open>/^[a-z][a-z0-9+.-]*:\/\//i\<close>.\<close>

definition has_scheme :: "string \<Rightarrow> bool" where
  "has_scheme s =
     (case s of [] \<Rightarrow> False
      | c # cs \<Rightarrow> is_letter c \<and>
          js_starts_with ''://'' (dropWhile (\<lambda>d. is_letter d \<or> is_digit d \<or>
             d \<in> set ''+.-'') cs))"

text \<open>\<open>a ?? b\<close> over the fields of the arguments.\<close>

definition first_field :: "json \<Rightarrow> string list \<Rightarrow> json" where
  "first_field args keys =
     (case find (\<lambda>k. json_field args k \<noteq> JUndefined \<and> json_field args k \<noteq> JNull) keys of
        None \<Rightarrow> JUndefined | Some k \<Rightarrow> json_field args k)"

definition extractLoopTarget :: "(string \<Rightarrow> string option) \<Rightarrow> string \<Rightarrow> json \<Rightarrow> string option" where
  "extractLoopTarget hostname tool args =
     (case args of
        JObj es \<Rightarrow>
          if tool = ''os.web.fetch'' \<or> tool = ''os.http.request'' then
            (case first_field args [''url'', ''uri'', ''endpoint''] of
               JStr raw \<Rightarrow>
                 if raw = [] then None
                 else (case hostname (if has_scheme raw then raw else ''https://'' @ raw) of
                         None \<Rightarrow> None | Some host \<Rightarrow> if host = [] then None else Some host)
             | _ \<Rightarrow> None)
          else if tool = ''os.shell.run'' then
            (case first_field args [''command'', ''cmd''] of
               JStr raw \<Rightarrow>
                 let name = takeWhile (\<lambda>c. \<not> is_space c) (js_trim raw) in if name = [] then None else Some name
             | _ \<Rightarrow> None)
          else None
      | _ \<Rightarrow> None)"

section \<open>The veto reaches the model\<close>

definition VETO_COMPRESS_OPTIONS :: compress_options where
  "VETO_COMPRESS_OPTIONS = \<lparr>co_maxSummaryLength = 4000, co_maxTailLines = 9007199254740991, co_tail = False\<rparr>"

definition veto_result :: "string \<Rightarrow> nat \<Rightarrow> string option \<Rightarrow> detector \<Rightarrow> (string \<times> json) list \<Rightarrow> compressed_result" where
  "veto_result tool n target det details =
     compressToolResult \<lparr>rt_tool = tool, rt_status = StError,
       rt_output = formatVetoInstruction tool n target det, rt_details = details\<rparr> VETO_COMPRESS_OPTIONS"

lemma sanitize_length: "sanitizeLoopTarget raw = Some t \<Longrightarrow> length t \<le> 60"
  by (auto simp: sanitizeLoopTarget_def Let_def split: option.splits if_splits)

lemma header_length:
  "(\<And>t. target = Some t \<Longrightarrow> length t \<le> 60) \<Longrightarrow>
     length (loop_header tool n VetoMode target wandering) \<le> length tool + length (show_nat n) + 180"
  by (cases target) (simp_all add: loop_header_def dash_def)

lemma web_length:
  assumes "\<And>t. target = Some t \<Longrightarrow> length t \<le> 60" and "web_hint tool target wandering = Some l"
  shows "length l \<le> 320"
proof -
  have "pred_option (\<lambda>l. length l \<le> 320) (web_hint tool target wandering)"
    using assms(1) by (cases target) (simp_all add: web_hint_def dash_def)
  then show ?thesis using assms(2) by simp
qed

lemma browser_length: "browser_hint tool = Some l \<Longrightarrow> length l \<le> 320"
  by (auto simp: browser_hint_def dash_def split: if_splits)

lemma shell_length:
  "(\<And>t. target = Some t \<Longrightarrow> length t \<le> 60) \<Longrightarrow> shell_hint tool target = Some l \<Longrightarrow> length l \<le> 320"
  by (cases target) (auto simp: shell_hint_def dash_def split: if_splits)

lemma sanitize_no_breaks:
  assumes "sanitizeLoopTarget raw = Some t"
  shows "no_breaks t"
proof -
  have c: "x \<in> set (collapse_breaks b s) \<Longrightarrow> \<not> is_label_break x" for x b s
    by (induction b s rule: collapse_breaks.induct) (auto simp: is_label_break_def split: if_splits)
  have "x \<in> set (js_trim s) \<Longrightarrow> x \<in> set s" for x s
    by (auto simp: js_trim_def dest!: set_dropWhileD)
  then have "\<forall>x \<in> set t. \<not> is_label_break x \<or> x = CHR ''.''"
    using assms c by (fastforce simp: sanitizeLoopTarget_def Let_def split: option.splits if_splits dest: in_set_takeD)
  then show ?thesis by (auto simp: no_breaks_def is_label_break_def NEWLINE_def)
qed

lemma char_facts [simp]: "EM_DASH \<noteq> NEWLINE" "NEWLINE \<noteq> EM_DASH" "EM_DASH \<noteq> CHR 0x0D"
  by (simp_all add: EM_DASH_def NEWLINE_def)

lemma header_no_breaks:
  "no_breaks tool \<Longrightarrow> (\<And>t. target = Some t \<Longrightarrow> no_breaks t) \<Longrightarrow>
     no_breaks (loop_header tool n VetoMode target wandering) \<and>
     (\<exists>r. loop_header tool n VetoMode target wandering = CHR ''B'' # r)"
  by (cases target) (simp_all add: loop_header_def dash_def NEWLINE_def EM_DASH_def)

definition hint_ok :: "string option \<Rightarrow> bool" where
  "hint_ok h = (case h of None \<Rightarrow> True | Some l \<Rightarrow> no_breaks l \<and> hd l = CHR ''-'' \<and> l \<noteq> [] \<and> length l \<le> 320)"

lemma hints_ok:
  assumes "\<And>t. target = Some t \<Longrightarrow> no_breaks t \<and> length t \<le> 60"
  shows "hint_ok (web_hint tool target wandering)" "hint_ok (browser_hint tool)" "hint_ok (shell_hint tool target)"
  using assms
  by (cases target; simp add: hint_ok_def web_hint_def browser_hint_def shell_hint_def dash_def NEWLINE_def EM_DASH_def)+

lemma hint_plain: "hint_ok (Some l) \<Longrightarrow> plain_line l"
  by (cases l) (auto simp: hint_ok_def is_space_def intro!: plain_line_first)

lemma fixed_lines:
  "plain_line ''Change strategy BEFORE calling any tool again:''"
  "plain_line ''- If you have enough information already, end the turn with `reply`.''"
  "plain_line VETO_LAST_LINE"
  unfolding VETO_LAST_LINE_def by (rule plain_line_first; simp add: NEWLINE_def is_space_def)+

lemma veto_instruction_whole:
  assumes "no_breaks tool" and "length tool + length (show_nat n) \<le> 2000"
  shows "\<not> cr_truncated (veto_result tool n rawTarget det details) \<and>
    (\<exists>pre. cr_summary (veto_result tool n rawTarget det details) = pre @ NEWLINE # VETO_LAST_LINE)"
proof -
  define target where "target = sanitizeLoopTarget rawTarget"
  let ?w = "Some det = Some Wandering"
  define h where "h = loop_header tool n VetoMode target ?w"
  define hints where "hints = some_lines [web_hint tool target ?w, browser_hint tool, shell_hint tool target]"
  define ls where "ls = [h, ''Change strategy BEFORE calling any tool again:''] @ hints @
    [''- If you have enough information already, end the turn with `reply`.'']"
  have t: "no_breaks t \<and> length t \<le> 60" if "target = Some t" for t
    using that sanitize_no_breaks sanitize_length by (simp add: target_def)
  have hok: "hint_ok (web_hint tool target ?w)" "hint_ok (browser_hint tool)" "hint_ok (shell_hint tool target)"
    using hints_ok [where target = target and tool = tool, OF t] by blast+
  have out: "formatVetoInstruction tool n rawTarget det = lines_text (ls @ [VETO_LAST_LINE])"
    by (simp add: formatVetoInstruction_def formatLoopGuidance_def Let_def some_lines_def ls_def hints_def h_def target_def)
  have "plain_line h"
    using header_no_breaks [OF assms(1), of target n ?w] t plain_line_first by (auto simp: h_def is_space_def)
  moreover have hp: "\<forall>l \<in> set hints. plain_line l \<and> length l \<le> 320" and hl: "length hints \<le> 3"
    using hok hint_plain by (auto simp: hints_def some_lines_def hint_ok_def split: option.splits)
  ultimately have plain: "list_all plain_line (ls @ [VETO_LAST_LINE])"
    using fixed_lines by (auto simp: ls_def list_all_iff)
  define l where "l = butlast VETO_LAST_LINE"
  have last: "VETO_LAST_LINE = l @ ''.''" unfolding l_def VETO_LAST_LINE_def by simp
  have len: "length ls < co_maxTailLines VETO_COMPRESS_OPTIONS" "ls \<noteq> []"
    using hl by (simp_all add: ls_def VETO_COMPRESS_OPTIONS_def)
  have untouched: "trimEnd (unix_lines (lines_text (ls @ [VETO_LAST_LINE]))) = lines_text (ls @ [VETO_LAST_LINE])"
    "extractTail (lines_text (ls @ [VETO_LAST_LINE])) (co_maxTailLines VETO_COMPRESS_OPTIONS) =
      (lines_text (ls @ [VETO_LAST_LINE]), False)"
    using plain_tail [of ls l "CHR ''.''"] plain len last by (simp_all add: is_space_def)
  have "length h \<le> 2180" using header_length [of target tool n ?w] t assms(2) by (fastforce simp: h_def)
  moreover have "(\<Sum>l \<leftarrow> hints. Suc (length l)) \<le> length hints * 321"
    using hp by (induction hints) auto
  ultimately have "(\<Sum>l \<leftarrow> ls @ [VETO_LAST_LINE]. Suc (length l)) \<le> 2181 + 46 + 3 * 321 + 71 + 200"
    using hl by (simp add: ls_def VETO_LAST_LINE_def)
  then have small: "length (lines_text (ls @ [VETO_LAST_LINE])) \<le> 3461"
    using length_lines_text [of "ls @ [VETO_LAST_LINE]"] by linarith
  define sig where "sig = extractSignature (lines_text (ls @ [VETO_LAST_LINE])) StError"
  have siglen: "length sig \<le> 185" by (simp add: sig_def signature_length)
  have both: "lines_text (ls @ [VETO_LAST_LINE]) = lines_text ls @ NEWLINE # VETO_LAST_LINE"
    by (rule lines_text_snoc [OF len(2)])
  define s where "s = (if sig = [] then [] else sig @ [NEWLINE]) @ lines_text ls @ NEWLINE # VETO_LAST_LINE"
  have jn: "lines_text (filter (\<lambda>part. part \<noteq> []) [sig, lines_text (ls @ [VETO_LAST_LINE])]) = s"
    unfolding both s_def by (simp add: lines_text_def joined_def)
  have sl: "length s \<le> 4000" using small siglen unfolding both s_def by simp
  let ?raw = "\<lparr>rt_tool = tool, rt_status = StError, rt_output = formatVetoInstruction tool n rawTarget det, rt_details = details\<rparr>"
  have "cr_summary (compressToolResult ?raw VETO_COMPRESS_OPTIONS) = s \<and>
    \<not> cr_truncated (compressToolResult ?raw VETO_COMPRESS_OPTIONS)"
    using jn [unfolded sig_def] sl out untouched
    by (intro compress_whole) (simp_all add: VETO_COMPRESS_OPTIONS_def del: filter.simps)
  then show ?thesis by (auto simp: veto_result_def s_def)
qed
end
