(* ===== verification/Tool_Policies.thy ===== *)
theory Tool_Policies
  imports Unknown_Tool Loop_Notices
begin

text \<open>
  \<open>src/src/agent/policies/plan-mode.ts\<close> and \<open>src/src/agent/policies/fusion-orchestrator-mode.ts\<close>: the
  two modes that refuse a call before it is dispatched, and the turn's count of fan-outs. Both modules
  name their functions \<open>wouldRefuse\<close> and \<open>refusalFor\<close>; here the name carries the mode. A verdict is
  the refusal, or none when the call is allowed.
\<close>

definition TERMINAL_TOOLS :: "string list" where
  "TERMINAL_TOOLS = [''reply'', ''finish'']"

text \<open>\<open>registry.get(tool).readonly\<close>, asked after \<open>has\<close> said yes.\<close>

definition registry_readonly :: "tool_registry \<Rightarrow> string \<Rightarrow> bool" where
  "registry_readonly registry tool = (jm_get registry tool = Some True)"

section \<open>Plan mode\<close>

definition wouldRefuse_plan :: "string \<Rightarrow> tool_registry \<Rightarrow> bool" where
  "wouldRefuse_plan tool registry =
     (if tool \<in> set TERMINAL_TOOLS then False
      else if \<not> jm_has registry tool then False
      else \<not> registry_readonly registry tool)"

definition refusalFor_plan :: "string \<Rightarrow> compressed_result" where
  "refusalFor_plan tool =
     \<lparr>cr_tool = tool, cr_status = StError,
      cr_summary = ''plan mode is on, so `'' @ tool @ ''` was not run'' @ dash @
        ''nothing is being changed yet. Keep reading (every read-only tool still works) and then reply with the plan: what you would change, where, and in what order. The operator switches out of plan mode to let you carry it out.'',
      cr_details = [(''plan_mode'', JBool True), (''tool'', JStr tool)], cr_truncated = False\<rparr>"

definition checkPlanMode :: "string \<Rightarrow> tool_registry \<Rightarrow> compressed_result option" where
  "checkPlanMode tool registry =
     (if \<not> wouldRefuse_plan tool registry then None else Some (refusalFor_plan tool))"

section \<open>The fusion orchestrator\<close>

definition DELEGATE_TOOL :: string where
  "DELEGATE_TOOL = ''fusion.delegate''"

record fusion_state =
  fu_delegations :: nat
  fu_barrenDelegations :: nat

definition BARREN_DELEGATION_LIMIT :: nat where
  "BARREN_DELEGATION_LIMIT = 2"

definition emptyFusionOrchestratorState :: fusion_state where
  "emptyFusionOrchestratorState = \<lparr>fu_delegations = 0, fu_barrenDelegations = 0\<rparr>"

definition mutates :: "string \<Rightarrow> tool_registry \<Rightarrow> bool" where
  "mutates tool registry =
     (if js_starts_with MCP_TOOL_PREFIX tool then True else \<not> registry_readonly registry tool)"

definition wouldRefuse_fusion :: "string \<Rightarrow> tool_registry \<Rightarrow> bool" where
  "wouldRefuse_fusion tool registry =
     (if tool \<in> set TERMINAL_TOOLS \<or> tool = DELEGATE_TOOL then False
      else if \<not> jm_has registry tool then False
      else mutates tool registry)"

definition refusalFor_fusion :: "string \<Rightarrow> fusion_state \<Rightarrow> compressed_result" where
  "refusalFor_fusion tool s =
     \<lparr>cr_tool = tool, cr_status = StError,
      cr_summary =
        (if fu_barrenDelegations s \<ge> BARREN_DELEGATION_LIMIT then
           ''`'' @ tool @ ''` was not run, and neither did the workers: the last '' @ show_nat (fu_barrenDelegations s) @
           '' fan-outs came back with every task having executed zero steps. That is not a briefing problem and another `fusion.delegate` will not fix it'' @ dash @
           ''the worker leg is not serving. Stop here and tell the operator exactly that, naming what you were trying to build and what you still need from them: the local llama-server may have failed to start (a port already in use is the common one, check its log), or the worker leg may point at a server that is not running.''
         else if fu_delegations s = 0 then
           ''fusion is on, so `'' @ tool @ ''` was not run: you plan, the workers build. Finish reading'' @ dash @
           ''every read-only tool still works'' @ dash @
           ''decide the approach, then call `fusion.delegate` with one task per independent part, each naming the exact paths it produces in `files`, what counts as done, and the answer format you want.''
         else
           ''`'' @ tool @ ''` was not run. You have delegated '' @ show_nat (fu_delegations s) @
           '' time(s) this turn; building the result yourself is the one thing this mode exists to prevent, however the last fan-out went. Send it out again with `fusion.delegate`: say what was wrong with the previous attempt, what to change, and what '' @
           [CHR 0x22] @ ''good'' @ [CHR 0x22] @
           '' looks like. Split a part that timed out into smaller ones. A task that came back `needs_orchestrator` was blocked by an approval'' @ dash @
           ''re-send it with the paths in `files` so the operator can authorise that directory when the fan-out asks.''),
      cr_details = [(''fusion_orchestrator'', JBool True), (''tool'', JStr tool),
                    (''delegations'', JNum (int (fu_delegations s)))],
      cr_truncated = False\<rparr>"

definition checkFusionOrchestrator :: "string \<Rightarrow> tool_registry \<Rightarrow> fusion_state \<Rightarrow> compressed_result option" where
  "checkFusionOrchestrator tool registry s =
     (if \<not> wouldRefuse_fusion tool registry then None else Some (refusalFor_fusion tool s))"

definition refusedToolNames :: "string list \<Rightarrow> tool_registry \<Rightarrow> string list" where
  "refusedToolNames names registry =
     fold (\<lambda>name refused. if wouldRefuse_fusion name registry then js_add name refused else refused) names []"

text \<open>\<open>tasks.some(...)\<close>: an entry that is not an object, or has no numeric count, counts as work.\<close>

definition task_worked :: "json \<Rightarrow> bool" where
  "task_worked task = (case json_field task ''stepCount'' of JNum steps \<Rightarrow> steps > 0 | _ \<Rightarrow> True)"

definition delegationProducedWork :: "compressed_result \<Rightarrow> bool" where
  "delegationProducedWork result =
     (case json_field (JObj (cr_details result)) ''tasks'' of
        JArr tasks \<Rightarrow> if tasks = [] then True else list_ex task_worked tasks
      | _ \<Rightarrow> True)"

definition recordDelegation :: "fusion_state \<Rightarrow> bool \<Rightarrow> fusion_state" where
  "recordDelegation s producedWork =
     \<lparr>fu_delegations = fu_delegations s + 1,
      fu_barrenDelegations = (if producedWork then 0 else fu_barrenDelegations s + 1)\<rparr>"

section \<open>Lemmas\<close>

text \<open>The three readers of the fusion predicate agree.\<close>

lemma refused_names: "set (refusedToolNames names registry) = {n \<in> set names. wouldRefuse_fusion n registry}"
proof -
  have "set (fold (\<lambda>name refused. if wouldRefuse_fusion name registry then js_add name refused else refused) names acc) =
      set acc \<union> {n \<in> set names. wouldRefuse_fusion n registry}" for acc
    by (induction names arbitrary: acc) (auto simp: js_add_def)
  then show ?thesis by (simp add: refusedToolNames_def)
qed

text \<open>What the two modes have in common: a predicate that never refuses a call that ends the turn, leaves
  an unknown name to the unknown-tool path, and refuses whatever is registered as mutating, up to the
  names it exempts.\<close>

locale turn_mode =
  fixes refuses :: "string \<Rightarrow> tool_registry \<Rightarrow> bool" and exempt :: "string list"
  assumes terminal_passes: "tool \<in> set TERMINAL_TOOLS \<Longrightarrow> \<not> refuses tool registry"
    and unknown_passes: "\<not> jm_has registry tool \<Longrightarrow> \<not> refuses tool registry"
    and mutating_refused: "jm_has registry tool \<Longrightarrow> \<not> registry_readonly registry tool \<Longrightarrow>
      tool \<notin> set TERMINAL_TOOLS \<Longrightarrow> tool \<notin> set exempt \<Longrightarrow> refuses tool registry"
begin

lemma passes_readonly:
  "\<not> refuses tool registry \<Longrightarrow> jm_has registry tool \<Longrightarrow> tool \<notin> set TERMINAL_TOOLS \<Longrightarrow> tool \<notin> set exempt \<Longrightarrow>
     registry_readonly registry tool"
  using mutating_refused by blast

lemma refused_is_registered: "refuses tool registry \<Longrightarrow> jm_has registry tool \<and> tool \<notin> set TERMINAL_TOOLS"
  using terminal_passes unknown_passes by blast

end

interpretation plan_mode: turn_mode wouldRefuse_plan "[]"
  by unfold_locales (simp_all add: wouldRefuse_plan_def)

interpretation fusion_mode: turn_mode wouldRefuse_fusion "[DELEGATE_TOOL]"
  by unfold_locales (simp_all add: wouldRefuse_fusion_def mutates_def)

lemma plan_passes:
  "checkPlanMode tool registry = None \<Longrightarrow> jm_has registry tool \<Longrightarrow> tool \<notin> set TERMINAL_TOOLS \<Longrightarrow>
     registry_readonly registry tool"
  using plan_mode.passes_readonly by (simp add: checkPlanMode_def split: if_splits)

lemma fusion_passes:
  "checkFusionOrchestrator tool registry s = None \<Longrightarrow> jm_has registry tool \<Longrightarrow> tool \<notin> set TERMINAL_TOOLS \<Longrightarrow>
     tool \<noteq> DELEGATE_TOOL \<Longrightarrow> registry_readonly registry tool \<and> \<not> js_starts_with MCP_TOOL_PREFIX tool"
  using fusion_mode.passes_readonly
  by (simp add: checkFusionOrchestrator_def wouldRefuse_fusion_def mutates_def split: if_splits)

text \<open>The barren count is the run of fan-outs, at the end of the turn so far, that executed nothing.\<close>

lemma barren_run:
  "fu_barrenDelegations (fold (\<lambda>w s. recordDelegation s w) ws s) =
     (if list_all Not ws then fu_barrenDelegations s + length ws else length (takeWhile Not (rev ws)))"
proof (induction ws rule: rev_induct)
  case (snoc w ws)
  have "takeWhile Not (rev ws) = rev ws" if "list_all Not ws"
    using that by (simp add: list_all_iff takeWhile_eq_all_conv)
  with snoc show ?case by (auto simp: recordDelegation_def)
qed simp

end
