(* ===== verification/Control_Markers.thy ===== *)
theory Control_Markers
  imports Compressor "HOL-Library.Sublist"
begin

text \<open>
  \<open>src/src/tools/control-marker-guard.ts\<close>: the control tokens of the models, found in the arguments of
  a call before it runs and cut out of the text that comes in from outside. A match of the regular
  expressions is spelled out: the alternation takes the first listed marker at a position, the search
  the leftmost position, \<open>^\<close> under the \<open>m\<close> flag the positions after a line feed or a carriage return.
\<close>

definition CONTROL_MARKERS :: "string list" where
  "CONTROL_MARKERS =
     [''<|channel>'', ''<channel|>'', ''<|turn>'', ''<turn|>'', ''<|tool_call>'', ''<tool_call|>'',
      ''<|tool_response>'', ''<tool_response|>'', ''<|im_start|>'', ''<|im_end|>'', ''<tool_call>'',
      ''</tool_call>'', ''<think>'', ''</think>'', ''<start_of_turn>'', ''<end_of_turn>'']"

definition is_name_char :: "char \<Rightarrow> bool" where
  "is_name_char c = (97 \<le> (of_char c :: nat) \<and> (of_char c :: nat) \<le> 122 \<or> c = CHR ''_'')"

text \<open>\<open>/<\|[a-z_]+\|>/\<close> at the head of the text.\<close>

definition GENERIC_CONTROL_MARKER :: "string \<Rightarrow> string option" where
  "GENERIC_CONTROL_MARKER s =
     (let body = takeWhile is_name_char (drop 2 s)
      in if js_starts_with ''<|'' s \<and> body \<noteq> [] \<and> js_starts_with ''|>'' (drop (2 + length body) s)
         then Some (''<|'' @ body @ ''|>'') else None)"

definition marker_here :: "string \<Rightarrow> string option" where
  "marker_here s =
     (case find (\<lambda>m. js_starts_with m s) CONTROL_MARKERS of
        Some m \<Rightarrow> Some m | None \<Rightarrow> GENERIC_CONTROL_MARKER s)"

definition CONTENT_ARGUMENTS :: "(string, string list) jsmap" where
  "CONTENT_ARGUMENTS =
     [(''os.fs.write'', [''content'']), (''os.fs.edit'', [''oldString'', ''newString'']),
      (''os.fs.patch'', [''patch''])]"

definition is_patch_prefix :: "char \<Rightarrow> bool" where
  "is_patch_prefix c = (c = CHR ''+'' \<or> c = CHR '' '' \<or> c = CHR ''-'')"

datatype marker_pattern = ANYWHERE | LINE_START | PATCH_LINE_START

definition match_at :: "marker_pattern \<Rightarrow> bool \<Rightarrow> string \<Rightarrow> string option" where
  "match_at pattern lineStart s =
     (case pattern of
        ANYWHERE \<Rightarrow> marker_here s
      | LINE_START \<Rightarrow> if lineStart then marker_here s else None
      | PATCH_LINE_START \<Rightarrow>
          if \<not> lineStart then None
          else (case s of
                  [] \<Rightarrow> None
                | c # cs \<Rightarrow> (case (if is_patch_prefix c then marker_here cs else None) of
                              Some m \<Rightarrow> Some (c # m) | None \<Rightarrow> marker_here s)))"

definition is_line_break :: "char \<Rightarrow> bool" where
  "is_line_break c = (c = NEWLINE \<or> c = CHR 0x0D)"

fun exec_pattern :: "marker_pattern \<Rightarrow> bool \<Rightarrow> nat \<Rightarrow> string \<Rightarrow> (nat \<times> string) option" where
  "exec_pattern pattern lineStart i [] = None"
| "exec_pattern pattern lineStart i (c # cs) =
     (case match_at pattern lineStart (c # cs) of
        Some m \<Rightarrow> Some (i, m)
      | None \<Rightarrow> exec_pattern pattern (is_line_break c) (Suc i) cs)"

definition NEUTRALISED_MARKER :: string where
  "NEUTRALISED_MARKER = ''[special token removed]''"

fun neutraliseControlMarkers :: "string \<Rightarrow> string" where
  "neutraliseControlMarkers [] = []"
| "neutraliseControlMarkers (c # cs) =
     (case marker_here (c # cs) of
        Some m \<Rightarrow> NEUTRALISED_MARKER @ neutraliseControlMarkers (drop (length m - 1) cs)
      | None \<Rightarrow> c # neutraliseControlMarkers cs)"

section \<open>Markers in the arguments of a call\<close>

record control_marker_hit =
  mh_path :: string
  mh_marker :: string
  mh_index :: nat
  mh_excerpt :: string

definition EXCERPT_BEFORE :: nat where
  "EXCERPT_BEFORE = 8"

definition EXCERPT_AFTER :: nat where
  "EXCERPT_AFTER = 16"

definition escape_breaks :: "char \<Rightarrow> string" where
  "escape_breaks c =
     (if c = NEWLINE then [CHR 0x5C, CHR ''n''] else if c = CHR 0x0D then [CHR 0x5C, CHR ''r'']
      else if c = CHR 0x09 then [CHR 0x5C, CHR ''t''] else [c])"

definition excerptAround :: "string \<Rightarrow> nat \<Rightarrow> string \<Rightarrow> string" where
  "excerptAround value i marker =
     (let start = i - EXCERPT_BEFORE; stop = min (length value) (i + length marker + EXCERPT_AFTER);
          body = concat (map escape_breaks (take (stop - start) (drop start value)))
      in (if start > 0 then [ELLIPSIS] else []) @ body @ (if stop < length value then [ELLIPSIS] else []))"

text \<open>\<open>match[0].replace(/^[+ -](?=<)/, "")\<close>.\<close>

definition strip_patch_prefix :: "string \<Rightarrow> string" where
  "strip_patch_prefix m =
     (case m of c # d # cs \<Rightarrow> if is_patch_prefix c \<and> d = CHR ''<'' then d # cs else m | _ \<Rightarrow> m)"

definition scan :: "string \<Rightarrow> string \<Rightarrow> marker_pattern \<Rightarrow> control_marker_hit option" where
  "scan path value pattern =
     (case exec_pattern pattern True 0 value of
        None \<Rightarrow> None
      | Some (pos, m) \<Rightarrow>
          let marker = strip_patch_prefix m; i = pos + (length m - length marker)
          in Some \<lparr>mh_path = path, mh_marker = marker, mh_index = i, mh_excerpt = excerptAround value i marker\<rparr>)"

fun walk :: "marker_pattern \<Rightarrow> string \<Rightarrow> json \<Rightarrow> control_marker_hit list"
  and walk_items :: "marker_pattern \<Rightarrow> string \<Rightarrow> nat \<Rightarrow> json list \<Rightarrow> control_marker_hit list"
  and walk_entries :: "marker_pattern \<Rightarrow> string \<Rightarrow> (string \<times> json) list \<Rightarrow> control_marker_hit list" where
  "walk pattern path (JStr s) = (case scan path s pattern of None \<Rightarrow> [] | Some hit \<Rightarrow> [hit])"
| "walk pattern path (JArr xs) = walk_items pattern path 0 xs"
| "walk pattern path (JObj es) = walk_entries pattern path es"
| "walk pattern path v = []"
| "walk_items pattern path i [] = []"
| "walk_items pattern path i (x # xs) =
     walk pattern (path @ ''['' @ show_nat i @ '']'') x @ walk_items pattern path (Suc i) xs"
| "walk_entries pattern path [] = []"
| "walk_entries pattern path ((key, nested) # es) =
     walk pattern (path @ ''.'' @ key) nested @ walk_entries pattern path es"

definition pattern_for :: "string \<Rightarrow> string \<Rightarrow> marker_pattern" where
  "pattern_for tool key =
     (if (case jm_get CONTENT_ARGUMENTS tool of None \<Rightarrow> False | Some keys \<Rightarrow> key \<in> set keys)
      then if tool = ''os.fs.patch'' then PATCH_LINE_START else LINE_START
      else ANYWHERE)"

definition findControlMarkers :: "json \<Rightarrow> string \<Rightarrow> control_marker_hit list" where
  "findControlMarkers args tool =
     (case args of
        JObj es \<Rightarrow> concat (map (\<lambda>(key, value). walk (pattern_for tool key) key value) es)
      | _ \<Rightarrow> [])"

definition DESCRIBED_HITS_MAX :: nat where
  "DESCRIBED_HITS_MAX = 3"

definition describeCorruptedCall :: "control_marker_hit list \<Rightarrow> string" where
  "describeCorruptedCall hits =
     (let described = map (\<lambda>hit. ''argument `'' @ mh_path hit @ ''` contains a model control marker (`'' @
             mh_marker hit @ ''` at char '' @ show_nat (mh_index hit) @ '': '' @ [CHR 0x22] @ mh_excerpt hit @
             [CHR 0x22] @ '')'') (take DESCRIBED_HITS_MAX hits);
          rest = length hits - length described;
          more = (if rest > 0 then ''; and '' @ show_nat rest @ '' more argument(s)'' else [])
      in ''corrupted tool call: '' @ joined ''; '' described @ more @ ''. The call was not run '' @
         [EM_DASH] @ '' re-emit it with clean arguments.'')"

section \<open>Lemmas\<close>

definition is_marker :: "string \<Rightarrow> bool" where
  "is_marker m \<longleftrightarrow> m \<in> set CONTROL_MARKERS \<or>
     (\<exists>body. m = ''<|'' @ body @ ''|>'' \<and> body \<noteq> [] \<and> list_all is_name_char body)"

lemma js_starts_with_prefix: "js_starts_with p s \<longleftrightarrow> prefix p s"
  by (auto simp: js_starts_with_def prefix_def) (metis append_take_drop_id)

lemma generic_marker_Some:
  "GENERIC_CONTROL_MARKER s = Some m \<longleftrightarrow>
     prefix m s \<and> (\<exists>body. m = ''<|'' @ body @ ''|>'' \<and> body \<noteq> [] \<and> list_all is_name_char body)"
proof
  assume a: "GENERIC_CONTROL_MARKER s = Some m"
  then obtain t where s: "s = ''<|'' @ t"
    by (auto simp: GENERIC_CONTROL_MARKER_def Let_def js_starts_with_prefix prefix_def split: if_splits)
  define body where "body = takeWhile is_name_char t"
  have g: "body \<noteq> []" "prefix ''|>'' (drop (length body) t)" "m = ''<|'' @ body @ ''|>''"
    using a by (auto simp: GENERIC_CONTROL_MARKER_def Let_def body_def js_starts_with_prefix s split: if_splits)
  obtain r where "drop (length body) t = ''|>'' @ r" using g(2) by (rule prefixE)
  then have "t = body @ ''|>'' @ r"
    using append_take_drop_id [of "length body" t] by (simp add: body_def takeWhile_eq_take [symmetric])
  then have "prefix m s" using g(3) by (simp add: s)
  moreover have "list_all is_name_char body" by (auto simp: body_def list_all_iff dest: set_takeWhileD)
  ultimately show "prefix m s \<and> (\<exists>body. m = ''<|'' @ body @ ''|>'' \<and> body \<noteq> [] \<and> list_all is_name_char body)"
    using g by blast
next
  assume "prefix m s \<and> (\<exists>body. m = ''<|'' @ body @ ''|>'' \<and> body \<noteq> [] \<and> list_all is_name_char body)"
  then obtain body r where m: "m = ''<|'' @ body @ ''|>''" "body \<noteq> []" "list_all is_name_char body" and s: "s = m @ r"
    by (auto simp: prefix_def)
  have bar: "\<not> is_name_char (CHR ''|'')" by (simp add: is_name_char_def)
  have "takeWhile is_name_char (body @ ''|>'' @ r) = body"
    using m(3) bar by (subst takeWhile_append2) (auto simp: list_all_iff)
  then show "GENERIC_CONTROL_MARKER s = Some m"
    using m s by (simp add: GENERIC_CONTROL_MARKER_def Let_def js_starts_with_def)
qed

lemma marker_here_sound: "marker_here s = Some m \<Longrightarrow> is_marker m \<and> prefix m s"
  by (auto simp: marker_here_def is_marker_def generic_marker_Some js_starts_with_prefix find_Some_iff
      split: option.splits)

lemma marker_here_complete: "is_marker m \<Longrightarrow> prefix m s \<Longrightarrow> marker_here s \<noteq> None"
  using generic_marker_Some [of s m]
  by (auto simp: marker_here_def is_marker_def js_starts_with_prefix find_None_iff split: option.splits)

lemma marker_shape: "is_marker m \<Longrightarrow> \<exists>b. m = CHR ''<'' # b \<and> CHR ''['' \<notin> set b"
proof -
  have "\<not> is_name_char (CHR ''['')" by (simp add: is_name_char_def)
  then show "is_marker m \<Longrightarrow> \<exists>b. m = CHR ''<'' # b \<and> CHR ''['' \<notin> set b"
    by (auto simp: is_marker_def CONTROL_MARKERS_def list_all_iff)
qed

lemma neutralised_prefix:
  "prefix b (neutraliseControlMarkers s) \<Longrightarrow> CHR ''['' \<notin> set b \<Longrightarrow> prefix b s"
proof (induction s arbitrary: b)
  case (Cons c cs)
  then show ?case
    by (cases b) (auto simp: NEUTRALISED_MARKER_def split: option.splits)
qed simp

definition clean :: "string \<Rightarrow> bool" where
  "clean s \<longleftrightarrow> (\<forall>p q. s = p @ q \<longrightarrow> marker_here q = None)"

lemma clean_Cons [simp]: "clean (c # s) \<longleftrightarrow> marker_here (c # s) = None \<and> clean s"
  by (auto simp: clean_def Cons_eq_append_conv)

lemma marker_here_first: "c \<noteq> CHR ''<'' \<Longrightarrow> marker_here (c # s) = None"
  using marker_here_sound [of "c # s"] marker_shape by (cases "marker_here (c # s)") (fastforce simp: prefix_def)+

lemma marker_here_Nil [simp]: "marker_here [] = None"
  using marker_here_sound [of "[]"] marker_shape by (cases "marker_here []") fastforce+

lemma clean_Nil [simp]: "clean []"
  by (simp add: clean_def)

lemma neutralised_clean: "clean (neutraliseControlMarkers s)"
proof (induction s rule: neutraliseControlMarkers.induct)
  case (2 c cs)
  show ?case
  proof (cases "marker_here (c # cs)")
    case None
    have "marker_here (c # neutraliseControlMarkers cs) = None"
    proof (rule ccontr)
      assume "marker_here (c # neutraliseControlMarkers cs) \<noteq> None"
      then obtain m where m: "is_marker m" "prefix m (c # neutraliseControlMarkers cs)"
        using marker_here_sound by blast
      then obtain b where "m = CHR ''<'' # b" "CHR ''['' \<notin> set b" using marker_shape by blast
      with m(2) have "prefix m (c # cs)" using neutralised_prefix by simp
      with m(1) None show False using marker_here_complete by blast
    qed
    then show ?thesis using 2 None by simp
  next
    case (Some m)
    then show ?thesis using 2 by (simp add: NEUTRALISED_MARKER_def marker_here_first)
  qed
qed simp

lemma clean_untouched: "clean s \<Longrightarrow> neutraliseControlMarkers s = s"
  by (induction s) auto

lemma exec_anywhere: "exec_pattern ANYWHERE b i s = None \<longleftrightarrow> clean s"
  by (induction s arbitrary: b i) (auto simp: match_at_def split: option.splits)

end
