(* ===== verification/Test_Command.thy ===== *)
theory Test_Command
  imports Compressor Posix_Path
begin

text \<open>
  \<open>src/src/agent/progress/test-command-key.ts\<close>: a shell call recognised as a run of a test suite, with
  the key two equal runs share. \<open>resolveUserPath\<close> (\<open>None\<close> when it throws) and \<open>JSON.parse\<close> are
  arguments; \<open>js_string\<close> is \<open>String(v)\<close>.
\<close>

record recognized_test_command =
  rc_key :: string
  rc_label :: string
  rc_cwd :: string

record shell_env =
  se_resolveUserPath :: "string \<Rightarrow> string \<Rightarrow> string option"
  se_parseJson :: "string \<Rightarrow> json option"

definition SHELL_METACHARS :: string where
  "SHELL_METACHARS = ''|&;<>$`(){}''"

definition NODE_TEST_RUNNERS :: "string list" where
  "NODE_TEST_RUNNERS = [''npm'', ''pnpm'', ''yarn'', ''bun'']"

definition NUL :: char where
  "NUL = CHR 0x00"

fun js_string :: "json \<Rightarrow> string" where
  "js_string JUndefined = ''undefined''"
| "js_string JNull = ''null''"
| "js_string (JBool b) = (if b then ''true'' else ''false'')"
| "js_string (JNum n) = show_int n"
| "js_string (JStr s) = s"
| "js_string (JArr xs) =
     js_join (CHR '','') (map (\<lambda>v. if v = JUndefined \<or> v = JNull then [] else js_string v) xs)"
| "js_string (JObj es) = ''[object Object]''"

definition coerceArgs :: "(string \<Rightarrow> json option) \<Rightarrow> json \<Rightarrow> string list option" where
  "coerceArgs parse_json value =
     (case value of
        JUndefined \<Rightarrow> Some []
      | JNull \<Rightarrow> Some []
      | JArr vs \<Rightarrow> Some (map js_string vs)
      | JStr s \<Rightarrow>
          let trimmed = js_trim s
          in if trimmed = [] then Some []
             else if js_starts_with ''['' trimmed \<and> js_ends_with '']'' trimmed then
               (case parse_json trimmed of Some (JArr vs) \<Rightarrow> Some (map js_string vs) | _ \<Rightarrow> None)
             else None
      | _ \<Rightarrow> None)"

text \<open>\<open>basenameCommand\<close> of \<open>src/src/tools/os/shell-command-guard/normalise.ts\<close>.\<close>

definition basenameCommand :: "string \<Rightarrow> string" where
  "basenameCommand cmd = last (js_split (CHR ''/'') (map (\<lambda>c. if c = CHR 0x5C then CHR ''/'' else c) cmd))"

definition normalizeRunnerName :: "string \<Rightarrow> string" where
  "normalizeRunnerName token =
     (let name = to_lower (basenameCommand token)
      in if js_ends_with ''.exe'' name then take (length name - 4) name else name)"

lemma length_dropWhile_less [termination_simp]: "length (dropWhile P xs) < Suc (length xs)"
  using length_dropWhile_le [of P xs] by simp

text \<open>\<open>split(/\s+/)\<close> of a trimmed text.\<close>

fun split_ws :: "string \<Rightarrow> string \<Rightarrow> string list" where
  "split_ws piece [] = [piece]"
| "split_ws piece (c # cs) =
     (if is_space c then piece # split_ws [] (dropWhile is_space cs) else split_ws (piece @ [c]) cs)"

definition command_tokens :: "(string \<Rightarrow> json option) \<Rightarrow> json \<Rightarrow> string list option" where
  "command_tokens parse_json args =
     (case json_field args ''cmd'' of
        JStr cmd \<Rightarrow>
          if js_trim cmd = [] then None
          else if list_ex (\<lambda>c. c \<in> set SHELL_METACHARS) cmd then None
          else (case coerceArgs parse_json (json_field args ''args'') of
                  None \<Rightarrow> None
                | Some extra \<Rightarrow>
                    if list_ex is_space (js_trim cmd) then
                      if extra \<noteq> [] then None else Some (split_ws [] (js_trim cmd))
                    else Some (js_trim cmd # extra))
      | _ \<Rightarrow> None)"

definition second_is :: "string \<Rightarrow> string list \<Rightarrow> bool" where
  "second_is s tokens = (case tokens of _ # t # _ \<Rightarrow> t = s | _ \<Rightarrow> False)"

definition recognise_runner :: "string list \<Rightarrow> (string \<times> string list) option" where
  "recognise_runner tokens =
     (let name = normalizeRunnerName (hd tokens)
      in if name = ''pytest'' then Some (''pytest'', drop 1 tokens)
         else if (name = ''python'' \<or> name = ''python3'') \<and> second_is ''-m'' tokens \<and> second_is ''pytest'' (drop 1 tokens)
           then Some (''pytest'', drop 3 tokens)
         else if (name = ''cargo'' \<or> name = ''go'') \<and> second_is ''test'' tokens
           then Some (name @ '' test'', drop 2 tokens)
         else if name \<in> set NODE_TEST_RUNNERS \<and> second_is ''test'' tokens
           then Some (name @ '' test'', drop 2 tokens)
         else None)"

definition command_cwd :: "(string \<Rightarrow> string \<Rightarrow> string option) \<Rightarrow> json \<Rightarrow> string \<Rightarrow> string option" where
  "command_cwd resolver args workingDir =
     (case json_field args ''cwd'' of
        JStr cwd \<Rightarrow> if cwd = [] then Some workingDir else resolver cwd workingDir
      | _ \<Rightarrow> Some workingDir)"

definition classifyTestCommand :: "shell_env \<Rightarrow> string \<Rightarrow> json \<Rightarrow> string \<Rightarrow> recognized_test_command option" where
  "classifyTestCommand env tool args workingDir =
     (if tool \<noteq> ''os.shell.run'' then None
      else (case command_tokens (se_parseJson env) args of
              None \<Rightarrow> None
            | Some tokens \<Rightarrow>
                (case recognise_runner tokens of
                   None \<Rightarrow> None
                 | Some (runner, rest) \<Rightarrow>
                     (case command_cwd (se_resolveUserPath env) args workingDir of
                        None \<Rightarrow> None
                      | Some cwd \<Rightarrow>
                          Some \<lparr>rc_key = js_join NUL (cwd # runner # rest),
                                rc_label = (if rest \<noteq> [] then runner @ '' '' @ js_join (CHR '' '') rest else runner),
                                rc_cwd = cwd\<rparr>))))"

section \<open>Lemmas\<close>

text \<open>What a key stands for: the directory, the runner and the ordered arguments.\<close>

definition test_identity :: "shell_env \<Rightarrow> json \<Rightarrow> string \<Rightarrow> string list option" where
  "test_identity env args workingDir =
     (case command_tokens (se_parseJson env) args of
        None \<Rightarrow> None
      | Some tokens \<Rightarrow>
          (case recognise_runner tokens of
             None \<Rightarrow> None
           | Some (runner, rest) \<Rightarrow>
               map_option (\<lambda>cwd. cwd # runner # rest) (command_cwd (se_resolveUserPath env) args workingDir)))"

lemma classified_identity:
  "classifyTestCommand env tool args wd = Some c \<Longrightarrow>
     tool = ''os.shell.run'' \<and> (\<exists>parts. test_identity env args wd = Some parts \<and> parts \<noteq> [] \<and>
       rc_key c = js_join NUL parts \<and> rc_cwd c = hd parts)"
  by (auto simp: classifyTestCommand_def test_identity_def split: if_splits option.splits prod.splits)

lemma classified_iff:
  "(classifyTestCommand env tool args wd \<noteq> None) = (tool = ''os.shell.run'' \<and> test_identity env args wd \<noteq> None)"
  by (auto simp: classifyTestCommand_def test_identity_def split: option.splits prod.splits)

lemma key_identity:
  assumes "classifyTestCommand env tool args wd = Some c"
    and "\<And>parts s. test_identity env args wd = Some parts \<Longrightarrow> s \<in> set parts \<Longrightarrow> NUL \<notin> set s"
  shows "test_identity env args wd = Some (js_split NUL (rc_key c))"
  using classified_identity [OF assms(1)] assms(2) by (auto simp: js_split_join)

lemma irrelevant_field:
  assumes "key \<notin> {''cmd'', ''args'', ''cwd''}"
  shows "classifyTestCommand env tool (JObj ((key, v) # es)) wd = classifyTestCommand env tool (JObj es) wd"
proof -
  have "json_field (JObj ((key, v) # es)) k = json_field (JObj es) k" if "k \<in> {''cmd'', ''args'', ''cwd''}" for k
    using that assms by (auto simp: json_field_def)
  then have e: "json_field (JObj ((key, v) # es)) ''cmd'' = json_field (JObj es) ''cmd''"
    "json_field (JObj ((key, v) # es)) ''args'' = json_field (JObj es) ''args''"
    "json_field (JObj ((key, v) # es)) ''cwd'' = json_field (JObj es) ''cwd''" by simp_all
  show ?thesis unfolding classifyTestCommand_def command_tokens_def command_cwd_def e ..
qed

end
