(* ===== verification/Batch_Gates.thy ===== *)
theory Batch_Gates
  imports Tool_Policies Control_Markers Test_Command Read_Observation
begin

text \<open>
  \<open>src/src/agent/dispatch/batch-gates.ts\<close> with the types of \<open>batch-contract.ts\<close>: the gates a call of a
  batch passes before it is dispatched. A gate's verdict is the result that fills the call's slot, or
  none when the call proceeds. What the gates ask of the rest of the program is the record
  \<open>batch_env\<close>: the loop detector's thresholds and digest, the URL parser, the recogniser of test
  commands, the workspace fingerprint, the schema check of argument names and the text a thrown
  argument error is shown with. Getters of the context, read while the gates run, are values.
\<close>

record tool_call =
  tc_tool :: string
  tc_args :: json

record batch_call_input =
  bi_index :: nat
  bi_call :: tool_call
  bi_class :: resource_class

record unknown_argument_report =
  ua_message :: string
  ua_unknownKeys :: "string list"
  ua_expectedKeys :: "string list"

record batch_env =
  be_cfg :: loop_config
  be_sha :: "string \<Rightarrow> string"
  be_hostname :: "string \<Rightarrow> string option"
  be_shell :: shell_env
  be_fingerprintWorkspace :: "string \<Rightarrow> string option"
  be_findUnknownArguments :: "string \<Rightarrow> json \<Rightarrow> unknown_argument_report option"
  be_describeArgumentError :: "string \<Rightarrow> json \<Rightarrow> string \<Rightarrow> unknown_argument_report option"
  be_registry :: tool_registry

record batch_context =
  cx_workingDir :: string
  cx_stepIndex :: int
  cx_terminalOnly :: bool
  cx_toolSet :: "step_tool_set option"
  cx_isPlanMode :: bool
  cx_isFusionOrchestrator :: bool
  cx_loadedSkillNames :: "string list option"
  cx_assertAvailable :: "(string \<Rightarrow> string option) option"
  cx_maxWaveSize :: "nat option"

datatype signal_kind = SigWarn | SigCritical | SigBreaker

record read_signal =
  rg_path :: string
  rg_startLine :: int
  rg_endLine :: int
  rg_totalLines :: int
  rg_truncated :: bool
  rg_covered :: string
  rg_fingerprint :: string
  rg_previousFingerprint :: string

record batch_loop_signal =
  ls_kind :: signal_kind
  ls_tool :: string
  ls_count :: nat
  ls_detector :: detector
  ls_warningKey :: string
  ls_blockedCount :: "nat option"
  ls_target :: "string option"
  ls_previousSummary :: "string option"
  ls_read :: "read_signal option"

definition plain_signal :: "signal_kind \<Rightarrow> string \<Rightarrow> nat \<Rightarrow> detector \<Rightarrow> string \<Rightarrow> batch_loop_signal" where
  "plain_signal kind tool n det key =
     \<lparr>ls_kind = kind, ls_tool = tool, ls_count = n, ls_detector = det, ls_warningKey = key,
      ls_blockedCount = None, ls_target = None, ls_previousSummary = None, ls_read = None\<rparr>"

definition detector_name :: "detector \<Rightarrow> string" where
  "detector_name d =
     (case d of GenericRepeat \<Rightarrow> ''generic_repeat'' | NoProgress \<Rightarrow> ''no_progress'' | Wandering \<Rightarrow> ''wandering''
      | TestRepeat \<Rightarrow> ''test_repeat'' | ReadRepeat \<Rightarrow> ''read_repeat'' | OutcomeRepeat \<Rightarrow> ''outcome_repeat'')"

section \<open>Arguments the model did not mean\<close>

definition refuseBeforeDispatch :: "batch_env \<Rightarrow> tool_call \<Rightarrow> compressed_result option" where
  "refuseBeforeDispatch env call =
     (let markers = findControlMarkers (tc_args call) (tc_tool call)
      in if markers \<noteq> [] then
           Some (compressToolResult \<lparr>rt_tool = tc_tool call, rt_status = StError, rt_output = describeCorruptedCall markers,
             rt_details = [(''corrupted'', JBool True),
               (''markers'', JArr (map (\<lambda>h. JObj [(''path'', JStr (mh_path h)), (''marker'', JStr (mh_marker h)),
                  (''index'', JNum (int (mh_index h))), (''excerpt'', JStr (mh_excerpt h))]) markers))]\<rparr> COMPRESSOR_DEFAULTS)
         else (case be_findUnknownArguments env (tc_tool call) (tc_args call) of
                 None \<Rightarrow> None
               | Some unknown \<Rightarrow>
                   Some (compressToolResult \<lparr>rt_tool = tc_tool call, rt_status = StError, rt_output = ua_message unknown,
                     rt_details = [(''unknownKeys'', JArr (map JStr (ua_unknownKeys unknown))),
                       (''expectedKeys'', JArr (map JStr (ua_expectedKeys unknown)))]\<rparr> COMPRESSOR_DEFAULTS)))"

section \<open>Gates without state\<close>

definition skillAlreadyLoadedResult :: "batch_context \<Rightarrow> batch_call_input \<Rightarrow> compressed_result option" where
  "skillAlreadyLoadedResult cx inp =
     (if tc_tool (bi_call inp) \<noteq> ''skill.view'' then None
      else (case cx_loadedSkillNames cx of
              None \<Rightarrow> None
            | Some loaded \<Rightarrow>
                (case json_field (tc_args (bi_call inp)) ''name'' of
                   JStr rawName \<Rightarrow>
                     if rawName = [] \<or> rawName \<notin> set loaded then None
                     else (case (case cx_assertAvailable cx of None \<Rightarrow> None | Some check_name \<Rightarrow> check_name rawName) of
                             Some err \<Rightarrow> Some (compressToolResult \<lparr>rt_tool = ''skill.view'', rt_status = StError,
                               rt_output = err, rt_details = []\<rparr> COMPRESSOR_DEFAULTS)
                           | None \<Rightarrow> Some (compressToolResult \<lparr>rt_tool = ''skill.view'', rt_status = StOk,
                               rt_output = ''skill '' @ [CHR 0x22] @ rawName @ [CHR 0x22] @ '' is already loaded'' @ dash @
                                 ''see ### loaded-skills; proceed without re-viewing.'',
                               rt_details = [(''skillAlreadyLoaded'', JStr rawName)]\<rparr> COMPRESSOR_DEFAULTS))
                 | _ \<Rightarrow> None)))"

definition FINAL_STEP_REFUSAL :: string where
  "FINAL_STEP_REFUSAL = ''final step: only reply or finish run here''"

definition runFinalStepGate :: "batch_context \<Rightarrow> batch_call_input \<Rightarrow> compressed_result option" where
  "runFinalStepGate cx inp =
     (let tool = tc_tool (bi_call inp)
      in if bi_class inp = Terminal then None
         else if cx_terminalOnly cx then
           Some \<lparr>cr_tool = tool, cr_status = StError, cr_summary = FINAL_STEP_REFUSAL,
             cr_details = [(''final_step'', JBool True), (''tool'', JStr tool)], cr_truncated = False\<rparr>
         else (case cx_toolSet cx of
                 None \<Rightarrow> None
               | Some ts \<Rightarrow> if \<not> toolSetAdmits ts tool then Some (toolSetRefusal tool ts) else None))"

definition runPlanModeGate :: "batch_env \<Rightarrow> batch_context \<Rightarrow> batch_call_input \<Rightarrow> compressed_result option" where
  "runPlanModeGate env cx inp =
     (if \<not> cx_isPlanMode cx then None else checkPlanMode (tc_tool (bi_call inp)) (be_registry env))"

definition runFusionOrchestratorGate ::
  "batch_env \<Rightarrow> batch_context \<Rightarrow> fusion_state \<Rightarrow> batch_call_input \<Rightarrow> compressed_result option" where
  "runFusionOrchestratorGate env cx fusion inp =
     (if \<not> cx_isFusionOrchestrator cx then None
      else checkFusionOrchestrator (tc_tool (bi_call inp)) (be_registry env) fusion)"

section \<open>The loop gate\<close>

text \<open>The notice about a repeated test run, for a call that proceeds.\<close>

definition test_repeat_gate ::
  "batch_env \<Rightarrow> batch_context \<Rightarrow> tool_call \<Rightarrow> tracker \<times> batch_loop_signal list \<Rightarrow> tracker \<times> batch_loop_signal list" where
  "test_repeat_gate env cx call st =
     (case classifyTestCommand (be_shell env) (tc_tool call) (tc_args call) (cx_workingDir cx) of
        None \<Rightarrow> st
      | Some cmd \<Rightarrow>
          (case be_fingerprintWorkspace env (rc_cwd cmd) of
             None \<Rightarrow> st
           | Some fingerprint \<Rightarrow>
               let (t, signals) = st; repeat = checkTestRepeat (rc_key cmd) fingerprint t;
                   t' = recordTestRun (be_sha env) (rc_key cmd) fingerprint (tc_tool call) (tc_args call) t
               in (t', if tp_repeat repeat
                       then signals @ [(plain_signal SigWarn (tc_tool call) (tp_count repeat) TestRepeat (''test_repeat:'' @ rc_key cmd))
                              \<lparr>ls_target := Some (rc_label cmd), ls_previousSummary := tp_previousSummary repeat\<rparr>]
                       else signals)))"

definition runSyncLoopGate ::
  "batch_env \<Rightarrow> batch_context \<Rightarrow> batch_call_input \<Rightarrow> tracker option \<times> batch_loop_signal list \<Rightarrow>
     (tracker option \<times> batch_loop_signal list) \<times> compressed_result option" where
  "runSyncLoopGate env cx inp st =
     (case st of (tracker, signals) \<Rightarrow>
      (case tracker of
         None \<Rightarrow> (st, None)
       | Some t0 \<Rightarrow>
           if bi_class inp = Terminal then (st, None)
           else
             let cfg = be_cfg env; sha = be_sha env; tool = tc_tool (bi_call inp); args = tc_args (bi_call inp);
                 t1 = noteStep (cx_stepIndex cx) t0;
                 breakerTripped = isBreakerTripped cfg sha tool args t1;
                 (t2, wandering) = wanderingStop cfg sha tool args t1;
                 (t3, verdict) = check cfg sha tool args t2;
                 t4 = recordCall cfg sha tool args t3
             in if lv_level verdict = LvCritical \<or> breakerTripped \<or> ws_escalated wandering then
                  let forceBreaker = (breakerTripped \<or> ws_escalated wandering);
                      n = (if breakerTripped then max (lv_count verdict) (breakerThreshold cfg) else lv_count verdict);
                      target = extractLoopTarget (be_hostname env) tool args;
                      det = (if ws_escalated wandering \<and> lv_detector verdict = Wandering then Wandering
                             else lv_detector verdict);
                      vetoed = veto_result tool n target det
                        [(''deniedReason'', JStr LOOP_VETO_DENIED_REASON), (''loopCount'', JNum (int n)),
                         (''detector'', JStr (detector_name det))];
                      t5 = fst (recordOutcome cfg sha tool args vetoed t4);
                      stoppedByWandering = (ws_escalated wandering \<and> \<not> breakerTripped \<and> lv_level verdict \<noteq> LvCritical)
                  in ((Some t5, signals @
                         [(plain_signal (if forceBreaker then SigBreaker else SigCritical) tool
                             (if stoppedByWandering then ws_spread wandering else n)
                             (if stoppedByWandering then Wandering else det) (lv_warningKey verdict))
                           \<lparr>ls_blockedCount := Some (vetoStreak sha tool args t5)\<rparr>]), Some vetoed)
                else
                  let warned = (if lv_level verdict = LvWarn
                        then signals @ [plain_signal SigWarn tool (lv_count verdict) (lv_detector verdict) (lv_warningKey verdict)]
                        else signals);
                      (t5, signals') = test_repeat_gate env cx (bi_call inp) (t4, warned)
                  in ((Some t5, signals'), None)))"

definition observeReadCoverage ::
  "batch_call_input \<Rightarrow> compressed_result \<Rightarrow> tracker \<times> batch_loop_signal list \<Rightarrow> tracker \<times> batch_loop_signal list" where
  "observeReadCoverage inp result st =
     (case classifyReadResult (tc_tool (bi_call inp)) result of
        None \<Rightarrow> st
      | Some obs \<Rightarrow>
          let (t, signals) = st; repeat = checkReadRepeat obs t; t' = recordRead obs t
          in if \<not> rr_repeat repeat then (t', signals)
             else (t', signals @ [(plain_signal SigWarn (tc_tool (bi_call inp)) (rr_count repeat) ReadRepeat
                      (''read_repeat:'' @ ro_path obs @ '':'' @ ro_contentHash obs))
                    \<lparr>ls_read := Some \<lparr>rg_path = ro_path obs,
                       rg_startLine = (case ro_span obs of None \<Rightarrow> 0 | Some s \<Rightarrow> rstart s),
                       rg_endLine = (case ro_span obs of None \<Rightarrow> 0 | Some s \<Rightarrow> rend s),
                       rg_totalLines = ro_totalLines obs, rg_truncated = ro_truncated obs, rg_covered = rr_covered repeat,
                       rg_fingerprint = ro_contentHash obs,
                       rg_previousFingerprint = orElse (rr_previousFingerprint repeat) (ro_contentHash obs)\<rparr>\<rparr>]))"

section \<open>Lemmas\<close>

lemma final_gate_passes:
  "runFinalStepGate cx inp = None \<Longrightarrow> bi_class inp \<noteq> Terminal \<Longrightarrow>
     \<not> cx_terminalOnly cx \<and> (\<forall>ts. cx_toolSet cx = Some ts \<longrightarrow> tc_tool (bi_call inp) \<in> set (ts_names ts))"
  by (auto simp: runFinalStepGate_def Let_def toolSetAdmits_def split: if_splits option.splits)

text \<open>The gate refuses what the detector calls critical, with a veto, whatever the other ladders say.\<close>

lemma loop_gate_vetoes:
  assumes "bi_class inp \<noteq> Terminal"
    and "lv_level (snd (check (be_cfg env) (be_sha env) (tc_tool (bi_call inp)) (tc_args (bi_call inp))
           (fst (wanderingStop (be_cfg env) (be_sha env) (tc_tool (bi_call inp)) (tc_args (bi_call inp))
              (noteStep (cx_stepIndex cx) t))))) = LvCritical"
  shows "\<exists>r. snd (runSyncLoopGate env cx inp (Some t, signals)) = Some r \<and> isLoopVetoResult r"
  using assms
  by (simp add: runSyncLoopGate_def Let_def case_prod_beta veto_result_def isLoopVetoResult_def json_field_def)

end
