(* ===== verification/Batch_Executor.thy ===== *)
theory Batch_Executor
  imports Batch_Gates
begin

text \<open>
  \<open>src/src/agent/dispatch/batch-scheduler.ts\<close>: one batch of tool calls, from the gates to the results.
  Phase one runs the gates of every call in order. The calls that pass are grouped by resource class,
  and the groups run concurrently: a group is a thread (\<open>group_thread\<close>, the array the loop walks and
  the position it has reached, the calls it awaits, the denial it has seen), an \<open>exec_op\<close> is what the
  event loop may do next: flip the abort signal, run one thread up to its next \<open>await\<close>, settle one
  awaited call with whatever the tool did, continue past \<open>Promise.all\<close>, settle the tail terminal. A
  run is any sequence of enabled operations, so a statement about all reachable states covers every
  interleaving. Times and the callbacks of the trace are the events of \<open>ex_events\<close>; durations are
  left out. A result's approvals are kept beside it in the slot.
\<close>

section \<open>State\<close>

record batch_slot =
  sl_index :: nat
  sl_call :: tool_call
  sl_class :: resource_class
  sl_compressed :: "compressed_result option"
  sl_approvals :: "tool_approval_record list"
  sl_cancelled :: bool

datatype exec_event = EvStarted nat | EvInvoked nat | EvFinished nat compressed_result

record group_thread =
  gt_class :: resource_class
  gt_calls :: "batch_call_input list"
  gt_next :: nat
  gt_running :: "batch_call_input list"
  gt_deniedBy :: "batch_call_input option"
  gt_rejected :: bool

datatype main_pc = Joining | TerminalRunning batch_call_input | BatchReturned "batch_slot list" bool

record exec_state =
  ex_slots :: "batch_slot list"
  ex_tracker :: "tracker option"
  ex_signals :: "batch_loop_signal list"
  ex_fusion :: fusion_state
  ex_aborted :: bool
  ex_toInvoke :: "batch_call_input list"
  ex_threads :: "group_thread list"
  ex_terminal :: "batch_call_input option"
  ex_events :: "exec_event list"
  ex_pc :: main_pc

record thrown_error =
  th_name :: string
  th_message :: string
  th_code :: "string option"

text \<open>What \<open>registry.invoke\<close> did, with the approvals the call raised meanwhile.\<close>

datatype invoke_outcome =
    ToolReturned compressed_result "tool_approval_record list"
  | ToolThrew thrown_error "tool_approval_record list"

section \<open>Inputs and groups\<close>

definition toBatchInputs :: "class_resolver option \<Rightarrow> tool_call list \<Rightarrow> batch_call_input list" where
  "toBatchInputs resolver calls =
     map (\<lambda>(i, call). \<lparr>bi_index = i, bi_call = call, bi_class = resourceClassFor resolver (tc_tool call)\<rparr>)
       (enumerate 0 calls)"

definition plan_step ::
  "batch_call_input \<Rightarrow> (resource_class, batch_call_input list) jsmap \<Rightarrow> (resource_class, batch_call_input list) jsmap" where
  "plan_step inp groups = jm_set (bi_class inp) (orElse (jm_get groups (bi_class inp)) [] @ [inp]) groups"

definition planBatch :: "batch_call_input list \<Rightarrow> (resource_class, batch_call_input list) jsmap" where
  "planBatch inputs = fold plan_step inputs []"

section \<open>Results the executor writes\<close>

definition wasNotApproved :: "compressed_result option \<Rightarrow> tool_approval_record list \<Rightarrow> bool" where
  "wasNotApproved result approvals =
     (case result of
        None \<Rightarrow> False
      | Some r \<Rightarrow> list_ex (\<lambda>a. \<not> ta_approved a) approvals \<or>
          json_field (JObj (cr_details r)) ''errorName'' = JStr ''ApprovalDeniedError'' \<or>
          json_field (JObj (cr_details r)) ''approvalDenied'' = JBool True)"

definition notRunAfterDenialResult :: "tool_call \<Rightarrow> batch_call_input \<Rightarrow> nat \<Rightarrow> compressed_result" where
  "notRunAfterDenialResult call deniedBy batchSize =
     compressToolResult \<lparr>rt_tool = tc_tool call, rt_status = StError,
       rt_output = ''not run: it came after `'' @ tc_tool (bi_call deniedBy) @ ''` (call '' @ show_nat (bi_index deniedBy + 1) @
         '' of '' @ show_nat batchSize @ '') in the same batch, and that call was not approved'',
       rt_details = [(''notRun'', JBool True), (''blockedBy'', JStr (tc_tool (bi_call deniedBy))),
         (''blockedByIndex'', JNum (int (bi_index deniedBy))), (''blockedCause'', JStr ''not_approved'')]\<rparr> COMPRESSOR_DEFAULTS"

text \<open>\<open>/^[A-Z][A-Z0-9_]{0,31}$/\<close>.\<close>

definition ERROR_CODE_PATTERN :: "string \<Rightarrow> bool" where
  "ERROR_CODE_PATTERN code =
     (let upper = (\<lambda>c. 65 \<le> (of_char c :: nat) \<and> (of_char c :: nat) \<le> 90)
      in (case code of [] \<Rightarrow> False
          | c # cs \<Rightarrow> upper c \<and> length cs \<le> 31 \<and> list_all (\<lambda>d. upper d \<or> is_digit d \<or> d = CHR ''_'') cs))"

definition errorCodeOf :: "thrown_error \<Rightarrow> (string \<times> json) list" where
  "errorCodeOf err =
     (case th_code err of
        None \<Rightarrow> []
      | Some code \<Rightarrow> if ERROR_CODE_PATTERN code then [(''errorCode'', JStr code)] else [])"

definition thrown_result :: "batch_env \<Rightarrow> tool_call \<Rightarrow> thrown_error \<Rightarrow> compressed_result" where
  "thrown_result env call err =
     (let hint = be_describeArgumentError env (tc_tool call) (tc_args call) (th_message err)
      in compressToolResult \<lparr>rt_tool = tc_tool call, rt_status = StError,
           rt_output = (case hint of None \<Rightarrow> th_message err | Some h \<Rightarrow> ua_message h),
           rt_details = (''errorName'', JStr (th_name err)) # errorCodeOf err @
             (case hint of None \<Rightarrow> []
              | Some h \<Rightarrow> [(''receivedKeys'', JArr (map JStr (ua_unknownKeys h))),
                           (''expectedKeys'', JArr (map JStr (ua_expectedKeys h)))])\<rparr> COMPRESSOR_DEFAULTS)"

text \<open>\<open>invokeRegistry\<close>: the result, or none when it throws a \<open>CancelledError\<close>.\<close>

definition invokeRegistry :: "batch_env \<Rightarrow> bool \<Rightarrow> tool_call \<Rightarrow> invoke_outcome \<Rightarrow> compressed_result option" where
  "invokeRegistry env aborted call outcome =
     (case outcome of
        ToolReturned r _ \<Rightarrow> Some r
      | ToolThrew err _ \<Rightarrow> if aborted then None else Some (thrown_result env call err))"

definition outcome_approvals :: "invoke_outcome \<Rightarrow> tool_approval_record list" where
  "outcome_approvals outcome = (case outcome of ToolReturned _ a \<Rightarrow> a | ToolThrew _ a \<Rightarrow> a)"

section \<open>Slots and events\<close>

definition fresh_slot :: "batch_call_input \<Rightarrow> batch_slot" where
  "fresh_slot inp = \<lparr>sl_index = bi_index inp, sl_call = bi_call inp, sl_class = bi_class inp,
     sl_compressed = None, sl_approvals = [], sl_cancelled = False\<rparr>"

definition fill_slot :: "nat \<Rightarrow> compressed_result \<Rightarrow> tool_approval_record list \<Rightarrow> exec_state \<Rightarrow> exec_state" where
  "fill_slot i r approvals st =
     st\<lparr>ex_slots := (ex_slots st)[i := (ex_slots st ! i)\<lparr>sl_compressed := Some r, sl_approvals := approvals\<rparr>]\<rparr>"

definition cancel_slot :: "nat \<Rightarrow> exec_state \<Rightarrow> exec_state" where
  "cancel_slot i st = st\<lparr>ex_slots := (ex_slots st)[i := (ex_slots st ! i)\<lparr>sl_cancelled := True\<rparr>]\<rparr>"

definition emit :: "exec_event list \<Rightarrow> exec_state \<Rightarrow> exec_state" where
  "emit es st = st\<lparr>ex_events := ex_events st @ es\<rparr>"

text \<open>A call answered without running: started, its slot filled, finished.\<close>

definition answer_unrun :: "nat \<Rightarrow> compressed_result \<Rightarrow> exec_state \<Rightarrow> exec_state" where
  "answer_unrun i r st = emit [EvFinished i r] (fill_slot i r [] (emit [EvStarted i] st))"

section \<open>Phase one\<close>

text \<open>The gates in their order; the last one records its pointer as an outcome of the call.\<close>

definition gate_call ::
  "batch_env \<Rightarrow> batch_context \<Rightarrow> fusion_state \<Rightarrow> batch_call_input \<Rightarrow> tracker option \<times> batch_loop_signal list \<Rightarrow>
     (tracker option \<times> batch_loop_signal list) \<times> compressed_result option" where
  "gate_call env cx fusion inp st =
     (case runFinalStepGate cx inp of
        Some r \<Rightarrow> (st, Some r)
      | None \<Rightarrow>
     (case refuseUnregisteredTool (tc_tool (bi_call inp)) (be_registry env) (cx_toolSet cx) of
        Some r \<Rightarrow> (st, Some r)
      | None \<Rightarrow>
     (case runPlanModeGate env cx inp of
        Some r \<Rightarrow> (st, Some r)
      | None \<Rightarrow>
     (case runFusionOrchestratorGate env cx fusion inp of
        Some r \<Rightarrow> (st, Some r)
      | None \<Rightarrow>
     (case runSyncLoopGate env cx inp st of
        (st', Some r) \<Rightarrow> (st', Some r)
      | (st', None) \<Rightarrow>
     (case skillAlreadyLoadedResult cx inp of
        None \<Rightarrow> (st', None)
      | Some r \<Rightarrow>
          ((map_option (\<lambda>t. fst (recordOutcome (be_cfg env) (be_sha env) (tc_tool (bi_call inp)) (tc_args (bi_call inp)) r t)) (fst st'),
            snd st'), Some r)))))))"

definition phase_one_call :: "batch_env \<Rightarrow> batch_context \<Rightarrow> batch_call_input \<Rightarrow> exec_state \<Rightarrow> exec_state" where
  "phase_one_call env cx inp st =
     (if ex_aborted st then cancel_slot (bi_index inp) st
      else (case gate_call env cx (ex_fusion st) inp (ex_tracker st, ex_signals st) of
              ((tracker, signals), refusal) \<Rightarrow>
                let st' = st\<lparr>ex_tracker := tracker, ex_signals := signals\<rparr>
                in (case refusal of
                      Some r \<Rightarrow> answer_unrun (bi_index inp) r st'
                    | None \<Rightarrow> st'\<lparr>ex_toInvoke := ex_toInvoke st @ [inp]\<rparr>)))"

definition tail_terminal :: "batch_call_input list \<Rightarrow> batch_call_input option" where
  "tail_terminal inputs = (if length inputs > 1 \<and> bi_class (last inputs) = Terminal then Some (last inputs) else None)"

definition nonTerminalInputs :: "batch_call_input list \<Rightarrow> batch_call_input list" where
  "nonTerminalInputs inputs = (if tail_terminal inputs = None then inputs else butlast inputs)"

definition start_thread :: "resource_class \<times> batch_call_input list \<Rightarrow> group_thread" where
  "start_thread g = \<lparr>gt_class = fst g, gt_calls = snd g, gt_next = 0, gt_running = [], gt_deniedBy = None, gt_rejected = False\<rparr>"

definition startBatch ::
  "batch_env \<Rightarrow> batch_context \<Rightarrow> batch_call_input list \<Rightarrow> tracker option \<Rightarrow> fusion_state \<Rightarrow> bool \<Rightarrow> exec_state" where
  "startBatch env cx inputs tracker fusion aborted =
     (let st0 = \<lparr>ex_slots = map fresh_slot inputs, ex_tracker = tracker, ex_signals = [], ex_fusion = fusion,
                 ex_aborted = aborted, ex_toInvoke = [], ex_threads = [], ex_terminal = tail_terminal inputs,
                 ex_events = [], ex_pc = (if inputs = [] then BatchReturned [] False else Joining)\<rparr>;
          st1 = fold (phase_one_call env cx) (nonTerminalInputs inputs) st0
      in st1\<lparr>ex_threads := map start_thread (planBatch (ex_toInvoke st1))\<rparr>)"

section \<open>One call\<close>

definition observe_outcome :: "batch_env \<Rightarrow> batch_call_input \<Rightarrow> compressed_result \<Rightarrow> exec_state \<Rightarrow> exec_state" where
  "observe_outcome env inp r st =
     (case ex_tracker st of
        None \<Rightarrow> st
      | Some t \<Rightarrow>
          if bi_class inp = Terminal then st
          else let (t1, oc) = recordOutcome (be_cfg env) (be_sha env) (tc_tool (bi_call inp)) (tc_args (bi_call inp)) r t;
                   signals = (if oc_repeat oc
                     then ex_signals st @ [plain_signal SigWarn (tc_tool (bi_call inp)) (oc_count oc) OutcomeRepeat
                            (''outcome_repeat:'' @ oc_fingerprint oc)]
                     else ex_signals st);
                   (t2, signals') = observeReadCoverage inp r (t1, signals)
               in st\<lparr>ex_tracker := Some t2, ex_signals := signals'\<rparr>)"

text \<open>\<open>invokeOne\<close> after its result is in hand.\<close>

definition complete_call ::
  "batch_env \<Rightarrow> batch_context \<Rightarrow> batch_call_input \<Rightarrow> compressed_result \<Rightarrow> tool_approval_record list \<Rightarrow> exec_state \<Rightarrow> exec_state" where
  "complete_call env cx inp r approvals st =
     (let st1 = fill_slot (bi_index inp) r approvals st;
          st2 = (if tc_tool (bi_call inp) = DELEGATE_TOOL \<and> cx_isFusionOrchestrator cx
                 then st1\<lparr>ex_fusion := recordDelegation (ex_fusion st1) (delegationProducedWork r)\<rparr> else st1)
      in emit [EvFinished (bi_index inp) r] (observe_outcome env inp r st2))"

text \<open>\<open>invokeOne\<close> up to its \<open>await\<close>; the flag says whether the registry was called.\<close>

definition begin_call :: "batch_env \<Rightarrow> batch_context \<Rightarrow> batch_call_input \<Rightarrow> exec_state \<Rightarrow> exec_state \<times> bool" where
  "begin_call env cx inp st =
     (if ex_aborted st then (cancel_slot (bi_index inp) st, False)
      else let st1 = emit [EvStarted (bi_index inp)] st
           in (case (if bi_class inp = Terminal then None else refuseBeforeDispatch env (bi_call inp)) of
                 Some r \<Rightarrow> (complete_call env cx inp r [] st1, False)
               | None \<Rightarrow> (emit [EvInvoked (bi_index inp)] st1, True)))"

definition slot_not_approved :: "exec_state \<Rightarrow> nat \<Rightarrow> bool" where
  "slot_not_approved st i = wasNotApproved (sl_compressed (ex_slots st ! i)) (sl_approvals (ex_slots st ! i))"

section \<open>Groups\<close>

definition set_thread :: "nat \<Rightarrow> group_thread \<Rightarrow> exec_state \<Rightarrow> exec_state" where
  "set_thread g th st = st\<lparr>ex_threads := (ex_threads st)[g := th]\<rparr>"

definition denied_update :: "batch_call_input \<Rightarrow> exec_state \<Rightarrow> group_thread \<Rightarrow> group_thread" where
  "denied_update inp st th = (if slot_not_approved st (bi_index inp) then th\<lparr>gt_deniedBy := Some inp\<rparr> else th)"

text \<open>One round of the loop over a serialised group, up to an \<open>await\<close> or the next round.\<close>

definition run_serial :: "batch_env \<Rightarrow> batch_context \<Rightarrow> nat \<Rightarrow> exec_state \<Rightarrow> exec_state" where
  "run_serial env cx g st =
     (let th = ex_threads st ! g; inp = gt_calls th ! gt_next th; th' = th\<lparr>gt_next := gt_next th + 1\<rparr>
      in if ex_aborted st then set_thread g th' (cancel_slot (bi_index inp) st)
         else (case gt_deniedBy th of
                 Some denied \<Rightarrow>
                   set_thread g th'
                     (answer_unrun (bi_index inp) (notRunAfterDenialResult (bi_call inp) denied (length (ex_slots st))) st)
               | None \<Rightarrow>
                   (case begin_call env cx inp st of
                      (st', True) \<Rightarrow> set_thread g (th'\<lparr>gt_running := [inp]\<rparr>) st'
                    | (st', False) \<Rightarrow> set_thread g (denied_update inp st' th') st')))"

fun begin_wave :: "batch_env \<Rightarrow> batch_context \<Rightarrow> batch_call_input list \<Rightarrow> exec_state \<Rightarrow> exec_state \<times> batch_call_input list" where
  "begin_wave env cx [] st = (st, [])"
| "begin_wave env cx (inp # inps) st =
     (let (st1, called) = begin_call env cx inp st; (st2, running) = begin_wave env cx inps st1
      in (st2, if called then inp # running else running))"

text \<open>The next wave of the parallel group.\<close>

definition run_wave :: "batch_env \<Rightarrow> batch_context \<Rightarrow> nat \<Rightarrow> exec_state \<Rightarrow> exec_state" where
  "run_wave env cx g st =
     (let th = ex_threads st ! g;
          waveSize = (case cx_maxWaveSize cx of None \<Rightarrow> length (gt_calls th) | Some w \<Rightarrow> w);
          (st', running) = begin_wave env cx (take waveSize (drop (gt_next th) (gt_calls th))) st
      in set_thread g (th\<lparr>gt_next := gt_next th + waveSize, gt_running := running\<rparr>) st')"

definition run_group :: "batch_env \<Rightarrow> batch_context \<Rightarrow> nat \<Rightarrow> exec_state \<Rightarrow> exec_state" where
  "run_group env cx g st =
     (if isParallelWithinGroup (gt_class (ex_threads st ! g)) then run_wave env cx g st else run_serial env cx g st)"

text \<open>An awaited call settles. A \<open>CancelledError\<close> ends a serialised group; \<open>Promise.allSettled\<close> drops it.\<close>

definition settle_group ::
  "batch_env \<Rightarrow> batch_context \<Rightarrow> nat \<Rightarrow> batch_call_input \<Rightarrow> invoke_outcome \<Rightarrow> exec_state \<Rightarrow> exec_state" where
  "settle_group env cx g inp outcome st =
     (let th = ex_threads st ! g; th' = th\<lparr>gt_running := remove1 inp (gt_running th)\<rparr>
      in (case invokeRegistry env (ex_aborted st) (bi_call inp) outcome of
            Some r \<Rightarrow>
              let st' = complete_call env cx inp r (outcome_approvals outcome) st
              in set_thread g (if isParallelWithinGroup (gt_class th) then th' else denied_update inp st' th') st'
          | None \<Rightarrow> set_thread g (if isParallelWithinGroup (gt_class th) then th' else th'\<lparr>gt_rejected := True\<rparr>) st))"

definition thread_done :: "group_thread \<Rightarrow> bool" where
  "thread_done th = (gt_running th = [] \<and> length (gt_calls th) \<le> gt_next th)"

section \<open>The end of the batch\<close>

definition sweep_slot :: "batch_slot \<Rightarrow> batch_slot" where
  "sweep_slot s = (if sl_compressed s = None \<and> \<not> sl_cancelled s then s\<lparr>sl_cancelled := True\<rparr> else s)"

definition return_batch :: "bool \<Rightarrow> exec_state \<Rightarrow> exec_state" where
  "return_batch cancelled st =
     (let slots = map sweep_slot (ex_slots st)
      in st\<lparr>ex_slots := slots, ex_pc := BatchReturned slots (cancelled \<or> ex_aborted st)\<rparr>)"

definition join_groups :: "batch_env \<Rightarrow> batch_context \<Rightarrow> exec_state \<Rightarrow> exec_state" where
  "join_groups env cx st =
     (let cancelled = list_ex gt_rejected (ex_threads st)
      in (case ex_terminal st of
            None \<Rightarrow> return_batch cancelled st
          | Some inp \<Rightarrow>
              if ex_aborted st then return_batch cancelled (cancel_slot (bi_index inp) st)
              else (fst (begin_call env cx inp st))\<lparr>ex_pc := TerminalRunning inp\<rparr>))"

definition settle_terminal :: "batch_env \<Rightarrow> batch_context \<Rightarrow> batch_call_input \<Rightarrow> invoke_outcome \<Rightarrow> exec_state \<Rightarrow> exec_state" where
  "settle_terminal env cx inp outcome st =
     (case invokeRegistry env (ex_aborted st) (bi_call inp) outcome of
        Some r \<Rightarrow> return_batch False (complete_call env cx inp r (outcome_approvals outcome) st)
      | None \<Rightarrow> return_batch True st)"

section \<open>Runs\<close>

datatype exec_op =
    OpAbort
  | OpRun nat
  | OpSettle nat batch_call_input invoke_outcome
  | OpJoin
  | OpSettleTerminal invoke_outcome

fun op_enabled :: "exec_op \<Rightarrow> exec_state \<Rightarrow> bool" where
  "op_enabled OpAbort st = (\<not> ex_aborted st)"
| "op_enabled (OpRun g) st =
     (g < length (ex_threads st) \<and>
      (let th = ex_threads st ! g in \<not> gt_rejected th \<and> gt_running th = [] \<and> gt_next th < length (gt_calls th)))"
| "op_enabled (OpSettle g inp outcome) st = (g < length (ex_threads st) \<and> inp \<in> set (gt_running (ex_threads st ! g)))"
| "op_enabled OpJoin st =
     (ex_pc st = Joining \<and> (list_all thread_done (ex_threads st) \<or> list_ex gt_rejected (ex_threads st)))"
| "op_enabled (OpSettleTerminal outcome) st = (case ex_pc st of TerminalRunning _ \<Rightarrow> True | _ \<Rightarrow> False)"

fun op_step :: "batch_env \<Rightarrow> batch_context \<Rightarrow> exec_op \<Rightarrow> exec_state \<Rightarrow> exec_state" where
  "op_step env cx OpAbort st = st\<lparr>ex_aborted := True\<rparr>"
| "op_step env cx (OpRun g) st = run_group env cx g st"
| "op_step env cx (OpSettle g inp outcome) st = settle_group env cx g inp outcome st"
| "op_step env cx OpJoin st = join_groups env cx st"
| "op_step env cx (OpSettleTerminal outcome) st =
     (case ex_pc st of TerminalRunning inp \<Rightarrow> settle_terminal env cx inp outcome st | _ \<Rightarrow> st)"

fun run_ops :: "batch_env \<Rightarrow> batch_context \<Rightarrow> exec_op list \<Rightarrow> exec_state \<Rightarrow> exec_state option" where
  "run_ops env cx [] st = Some st"
| "run_ops env cx (op # ops) st = (if op_enabled op st then run_ops env cx ops (op_step env cx op st) else None)"

inductive exec_reach :: "batch_env \<Rightarrow> batch_context \<Rightarrow> exec_state \<Rightarrow> exec_state \<Rightarrow> bool"
  for env cx s0 where
  Begin: "exec_reach env cx s0 s0"
| Continue: "exec_reach env cx s0 st \<Longrightarrow> op_enabled op st \<Longrightarrow> exec_reach env cx s0 (op_step env cx op st)"

lemma run_ops_reach: "run_ops env cx ops st = Some st' \<Longrightarrow> exec_reach env cx s0 st \<Longrightarrow> exec_reach env cx s0 st'"
  by (induction ops arbitrary: st) (auto split: if_splits intro: Continue)

end
