(* ===== verification/Batch_Invariant.thy ===== *)
theory Batch_Invariant
  imports Batch_Executor
begin

text \<open>
  The invariant of a running batch (\<open>batch_ok\<close>) and the lemmas its preservation rests on: what one call
  changes (\<open>frame_on\<close>), the life of a call as its events tell it (\<open>life_ok\<close>), the groups of a batch, and
  \<open>group_step_ok\<close>, which reduces a move of one group to facts about that group.
\<close>

section \<open>What one call changes\<close>

fun ev_index :: "exec_event \<Rightarrow> nat" where
  "ev_index (EvStarted i) = i"
| "ev_index (EvInvoked i) = i"
| "ev_index (EvFinished i r) = i"

definition trail :: "exec_state \<Rightarrow> nat \<Rightarrow> exec_event list" where
  "trail st i = filter (\<lambda>e. ev_index e = i) (ex_events st)"

lemma trail_set: "e \<in> set (trail st i) \<longleftrightarrow> e \<in> set (ex_events st) \<and> ev_index e = i"
  by (auto simp: trail_def)

lemma observe_fields [simp]:
  "ex_slots (observe_outcome env inp r st) = ex_slots st"
  "ex_fusion (observe_outcome env inp r st) = ex_fusion st"
  "ex_aborted (observe_outcome env inp r st) = ex_aborted st"
  "ex_toInvoke (observe_outcome env inp r st) = ex_toInvoke st"
  "ex_threads (observe_outcome env inp r st) = ex_threads st"
  "ex_terminal (observe_outcome env inp r st) = ex_terminal st"
  "ex_events (observe_outcome env inp r st) = ex_events st"
  "ex_pc (observe_outcome env inp r st) = ex_pc st"
  by (simp_all add: observe_outcome_def Let_def split: option.split prod.split)

lemma complete_fields [simp]:
  "ex_slots (complete_call env cx inp r a st) =
     (ex_slots st)[bi_index inp := (ex_slots st ! bi_index inp)\<lparr>sl_compressed := Some r, sl_approvals := a\<rparr>]"
  "ex_aborted (complete_call env cx inp r a st) = ex_aborted st"
  "ex_toInvoke (complete_call env cx inp r a st) = ex_toInvoke st"
  "ex_threads (complete_call env cx inp r a st) = ex_threads st"
  "ex_terminal (complete_call env cx inp r a st) = ex_terminal st"
  "ex_events (complete_call env cx inp r a st) = ex_events st @ [EvFinished (bi_index inp) r]"
  "ex_pc (complete_call env cx inp r a st) = ex_pc st"
  by (simp_all add: complete_call_def fill_slot_def emit_def Let_def)

lemma small_fields [simp]:
  "ex_slots (cancel_slot i st) = (ex_slots st)[i := (ex_slots st ! i)\<lparr>sl_cancelled := True\<rparr>]"
  "ex_aborted (cancel_slot i st) = ex_aborted st" "ex_toInvoke (cancel_slot i st) = ex_toInvoke st"
  "ex_threads (cancel_slot i st) = ex_threads st" "ex_terminal (cancel_slot i st) = ex_terminal st"
  "ex_events (cancel_slot i st) = ex_events st" "ex_pc (cancel_slot i st) = ex_pc st"
  "ex_slots (emit es st) = ex_slots st" "ex_aborted (emit es st) = ex_aborted st"
  "ex_toInvoke (emit es st) = ex_toInvoke st" "ex_threads (emit es st) = ex_threads st"
  "ex_terminal (emit es st) = ex_terminal st" "ex_events (emit es st) = ex_events st @ es" "ex_pc (emit es st) = ex_pc st"
  "ex_slots (answer_unrun i r st) = (ex_slots st)[i := (ex_slots st ! i)\<lparr>sl_compressed := Some r, sl_approvals := []\<rparr>]"
  "ex_aborted (answer_unrun i r st) = ex_aborted st" "ex_toInvoke (answer_unrun i r st) = ex_toInvoke st"
  "ex_threads (answer_unrun i r st) = ex_threads st" "ex_terminal (answer_unrun i r st) = ex_terminal st"
  "ex_events (answer_unrun i r st) = ex_events st @ [EvStarted i, EvFinished i r]" "ex_pc (answer_unrun i r st) = ex_pc st"
  by (simp_all add: cancel_slot_def emit_def answer_unrun_def fill_slot_def)

lemma thread_fields [simp]:
  "ex_slots (set_thread g th st) = ex_slots st" "ex_aborted (set_thread g th st) = ex_aborted st"
  "ex_toInvoke (set_thread g th st) = ex_toInvoke st" "ex_terminal (set_thread g th st) = ex_terminal st"
  "ex_events (set_thread g th st) = ex_events st" "ex_pc (set_thread g th st) = ex_pc st"
  "ex_threads (set_thread g th st) = (ex_threads st)[g := th]"
  by (simp_all add: set_thread_def)

lemma trail_fields [simp]:
  "trail (set_thread g th st) i = trail st i"
  "trail (st\<lparr>ex_aborted := b\<rparr>) i = trail st i"
  "trail (st\<lparr>ex_pc := pc\<rparr>) i = trail st i"
  "trail (cancel_slot j st) i = trail st i"
  "trail (complete_call env cx inp r a st) i = trail st i @ (if i = bi_index inp then [EvFinished i r] else [])"
  "trail (answer_unrun j r st) i = trail st i @ (if i = j then [EvStarted i, EvFinished i r] else [])"
  by (auto simp: trail_def)

lemma begin_cases:
  obtains (aborted) "ex_aborted st" "begin_call env cx inp st = (cancel_slot (bi_index inp) st, False)"
  | (refused) r where "\<not> ex_aborted st" "bi_class inp \<noteq> Terminal" "refuseBeforeDispatch env (bi_call inp) = Some r"
      "begin_call env cx inp st = (complete_call env cx inp r [] (emit [EvStarted (bi_index inp)] st), False)"
  | (called) "\<not> ex_aborted st" "bi_class inp = Terminal \<or> refuseBeforeDispatch env (bi_call inp) = None"
      "begin_call env cx inp st = (emit [EvStarted (bi_index inp), EvInvoked (bi_index inp)] st, True)"
  by (cases "ex_aborted st"; cases "bi_class inp = Terminal"; cases "refuseBeforeDispatch env (bi_call inp)")
     (auto simp: begin_call_def Let_def emit_def)

definition slot_id :: "batch_slot \<Rightarrow> nat \<times> tool_call \<times> resource_class" where
  "slot_id s = (sl_index s, sl_call s, sl_class s)"

lemma map_update_same: "f x = f (xs ! i) \<Longrightarrow> map f (xs[i := x]) = map f xs"
  by (cases "i < length xs") (auto simp: map_update list_update_same_conv list_update_beyond)

lemma slot_id_update [simp]:
  "map slot_id (xs[i := (xs ! i)\<lparr>sl_compressed := c, sl_approvals := a\<rparr>]) = map slot_id xs"
  "map slot_id (xs[i := (xs ! i)\<lparr>sl_cancelled := b\<rparr>]) = map slot_id xs"
  "map sl_cancelled (xs[i := (xs ! i)\<lparr>sl_compressed := c, sl_approvals := a\<rparr>]) = map sl_cancelled xs"
  by (simp_all add: map_update_same slot_id_def)

text \<open>Only the listed calls are touched; the events grow, the identities stay, and no slot is cancelled
  unless the signal is aborted.\<close>

definition frame_on :: "nat set \<Rightarrow> exec_state \<Rightarrow> exec_state \<Rightarrow> bool" where
  "frame_on I st st' \<longleftrightarrow>
     length (ex_slots st') = length (ex_slots st) \<and> ex_threads st' = ex_threads st \<and> ex_toInvoke st' = ex_toInvoke st \<and>
     ex_terminal st' = ex_terminal st \<and> ex_aborted st' = ex_aborted st \<and> ex_pc st' = ex_pc st \<and>
     prefix (ex_events st) (ex_events st') \<and> map slot_id (ex_slots st') = map slot_id (ex_slots st) \<and>
     (\<not> ex_aborted st \<longrightarrow> map sl_cancelled (ex_slots st') = map sl_cancelled (ex_slots st)) \<and>
     (\<forall>j. j \<notin> I \<longrightarrow> trail st' j = trail st j \<and> ex_slots st' ! j = ex_slots st ! j)"

lemma frame_refl: "frame_on I st st"
  by (simp add: frame_on_def)

lemma frame_trans: "frame_on I st st' \<Longrightarrow> frame_on J st' st'' \<Longrightarrow> frame_on (I \<union> J) st st''"
  unfolding frame_on_def using prefix_order.trans by auto

lemma frame_mono: "frame_on I st st' \<Longrightarrow> I \<subseteq> J \<Longrightarrow> frame_on J st st'"
  by (auto simp: frame_on_def)

lemma frame_complete: "frame_on {bi_index inp} st (complete_call env cx inp r a st)"
  by (simp add: frame_on_def)

lemma frame_answer: "frame_on {i} st (answer_unrun i r st)"
  by (simp add: frame_on_def)

lemma frame_cancel: "ex_aborted st \<Longrightarrow> frame_on {i} st (cancel_slot i st)"
  by (simp add: frame_on_def)

lemma frame_emit: "(\<And>e. e \<in> set es \<Longrightarrow> ev_index e \<in> I) \<Longrightarrow> frame_on I st (emit es st)"
  by (auto simp: frame_on_def trail_def filter_empty_conv)

lemma frame_begin: "frame_on {bi_index inp} st (fst (begin_call env cx inp st))"
proof (cases rule: begin_cases [of st env cx inp])
  case aborted
  then show ?thesis using frame_cancel by simp
next
  case (refused r)
  have "frame_on {bi_index inp} st (emit [EvStarted (bi_index inp)] st)" by (rule frame_emit) simp
  from frame_trans [OF this frame_complete [of inp]] show ?thesis using refused by simp
next
  case called
  have "frame_on {bi_index inp} st (emit [EvStarted (bi_index inp), EvInvoked (bi_index inp)] st)"
    by (rule frame_emit) auto
  with called show ?thesis by simp
qed

section \<open>The life of a call\<close>

text \<open>The events of one call and its slot: nothing yet; called and not settled; answered, with or without
  having been called.\<close>

definition legal :: "nat \<Rightarrow> exec_event list \<Rightarrow> compressed_result option \<Rightarrow> bool" where
  "legal i tr c \<longleftrightarrow> (tr = [] \<and> c = None) \<or> (tr = [EvStarted i, EvInvoked i] \<and> c = None) \<or>
     (\<exists>r. c = Some r \<and> (tr = [EvStarted i, EvFinished i r] \<or> tr = [EvStarted i, EvInvoked i, EvFinished i r]))"

definition life_ok :: "exec_state \<Rightarrow> nat \<Rightarrow> bool" where
  "life_ok st i \<longleftrightarrow> (if i < length (ex_slots st) then legal i (trail st i) (sl_compressed (ex_slots st ! i)) else trail st i = [])"

definition answered :: "exec_state \<Rightarrow> nat \<Rightarrow> bool" where
  "answered st i \<longleftrightarrow> (\<exists>r. EvFinished i r \<in> set (ex_events st))"

lemma answered_trail: "answered st i \<longleftrightarrow> (\<exists>r. EvFinished i r \<in> set (trail st i))"
  by (simp add: answered_def trail_set)

lemma frame_life: "frame_on I st st' \<Longrightarrow> i \<notin> I \<Longrightarrow> life_ok st' i = life_ok st i"
  by (simp add: frame_on_def life_ok_def)

lemma frame_answered: "frame_on I st st' \<Longrightarrow> i \<notin> I \<Longrightarrow> answered st' i = answered st i"
  by (simp add: frame_on_def answered_trail)

lemma begin_life:
  assumes "trail st (bi_index inp) = []" and "bi_index inp < length (ex_slots st)" and "life_ok st (bi_index inp)"
  shows "life_ok (fst (begin_call env cx inp st)) (bi_index inp)"
    and "snd (begin_call env cx inp st) \<Longrightarrow>
      trail (fst (begin_call env cx inp st)) (bi_index inp) = [EvStarted (bi_index inp), EvInvoked (bi_index inp)]"
    and "\<not> ex_aborted st \<Longrightarrow> \<not> snd (begin_call env cx inp st) \<Longrightarrow>
      \<exists>r. trail (fst (begin_call env cx inp st)) (bi_index inp) = [EvStarted (bi_index inp), EvFinished (bi_index inp) r]"
    and "ex_aborted st \<Longrightarrow> trail (fst (begin_call env cx inp st)) (bi_index inp) = [] \<and> \<not> snd (begin_call env cx inp st)"
  using assms
  by (cases rule: begin_cases [of st env cx inp]; simp add: life_ok_def legal_def trail_def)+

lemma complete_life:
  assumes "trail st (bi_index inp) = [EvStarted (bi_index inp), EvInvoked (bi_index inp)]"
    and "bi_index inp < length (ex_slots st)"
  shows "life_ok (complete_call env cx inp r a st) (bi_index inp)" "answered (complete_call env cx inp r a st) (bi_index inp)"
  using assms by (simp_all add: life_ok_def legal_def answered_trail)

lemma answer_life:
  assumes "trail st i = []" and "i < length (ex_slots st)"
  shows "life_ok (answer_unrun i r st) i" "answered (answer_unrun i r st) i"
  using assms by (simp_all add: life_ok_def legal_def answered_trail)

lemma cancel_life: "life_ok (cancel_slot i st) j = life_ok st j"
  by (cases "i = j") (simp_all add: life_ok_def)

lemma life_fields [simp]:
  "life_ok (set_thread g th st) i = life_ok st i" "answered (set_thread g th st) i = answered st i"
  "life_ok (st\<lparr>ex_aborted := b\<rparr>) i = life_ok st i" "answered (st\<lparr>ex_aborted := b\<rparr>) i = answered st i"
  "life_ok (st\<lparr>ex_pc := pc\<rparr>) i = life_ok st i" "answered (st\<lparr>ex_pc := pc\<rparr>) i = answered st i"
  by (simp_all add: life_ok_def answered_def)

lemma invoked_once: "life_ok st i \<Longrightarrow> length (filter (\<lambda>e. e = EvInvoked i) (ex_events st)) \<le> 1"
proof -
  assume l: "life_ok st i"
  have "filter (\<lambda>e. e = EvInvoked i) (ex_events st) = filter (\<lambda>e. e = EvInvoked i) (trail st i)"
    by (auto simp: trail_def intro: filter_cong)
  then show ?thesis using l by (auto simp: life_ok_def legal_def split: if_splits)
qed

section \<open>Groups\<close>

lemma plan_get:
  "jm_get (fold plan_step inputs m) c =
     (let l = filter (\<lambda>inp. bi_class inp = c) inputs
      in if l = [] then jm_get m c else Some (orElse (jm_get m c) [] @ l))"
  by (induction inputs arbitrary: m) (auto simp: plan_step_def orElse_def Let_def split: option.splits)

lemma plan_ok: "jm_ok m \<Longrightarrow> jm_ok (fold plan_step inputs m)"
  by (induction inputs arbitrary: m) (auto simp: plan_step_def)

lemma plan_batch_groups:
  assumes "(c, calls) \<in> set (planBatch inputs)"
  shows "calls = filter (\<lambda>inp. bi_class inp = c) inputs" "calls \<noteq> []"
proof -
  have "jm_get (planBatch inputs) c = Some calls"
    using assms plan_ok [of "[]" inputs] jm_get_in by (simp add: planBatch_def)
  then show "calls = filter (\<lambda>inp. bi_class inp = c) inputs" "calls \<noteq> []"
    by (auto simp: planBatch_def plan_get Let_def orElse_def split: if_splits)
qed

lemma plan_batch_member: "inp \<in> set inputs \<Longrightarrow> \<exists>calls. (bi_class inp, calls) \<in> set (planBatch inputs) \<and> inp \<in> set calls"
proof -
  assume i: "inp \<in> set inputs"
  let ?l = "filter (\<lambda>j. bi_class j = bi_class inp) inputs"
  have "?l \<noteq> []" using i by (auto simp: filter_empty_conv)
  then have "jm_get (planBatch inputs) (bi_class inp) = Some ?l" by (simp add: planBatch_def plan_get Let_def orElse_def)
  then have "(bi_class inp, ?l) \<in> set (planBatch inputs)" by (rule jm_get_Some_in)
  then show ?thesis using i by auto
qed

lemma plan_batch_classes: "distinct (map fst (planBatch inputs))"
  using plan_ok [of "[]" inputs] by (simp add: planBatch_def jm_ok_def)

section \<open>The invariant of a batch\<close>

definition indexed :: "batch_call_input list \<Rightarrow> bool" where
  "indexed inputs \<longleftrightarrow> map bi_index inputs = [0..<length inputs]"

text \<open>What the gates before the loop detector let through.\<close>

definition admitted :: "batch_env \<Rightarrow> batch_context \<Rightarrow> batch_call_input \<Rightarrow> bool" where
  "admitted env cx inp \<longleftrightarrow> runFinalStepGate cx inp = None \<and> jm_has (be_registry env) (tc_tool (bi_call inp)) \<and>
     runPlanModeGate env cx inp = None \<and> (\<exists>fusion. runFusionOrchestratorGate env cx fusion inp = None)"

definition denial_ok :: "exec_state \<Rightarrow> group_thread \<Rightarrow> bool" where
  "denial_ok st th \<longleftrightarrow>
     (gt_deniedBy th = None \<longrightarrow> (\<forall>k < gt_next th. \<not> slot_not_approved st (bi_index (gt_calls th ! k)))) \<and>
     (\<forall>k k'. k < k' \<longrightarrow> k' < length (gt_calls th) \<longrightarrow> slot_not_approved st (bi_index (gt_calls th ! k)) \<longrightarrow>
        EvInvoked (bi_index (gt_calls th ! k')) \<notin> set (ex_events st))"

definition called_trail :: "exec_state \<Rightarrow> nat \<Rightarrow> bool" where
  "called_trail st i \<longleftrightarrow> trail st i = [EvStarted i, EvInvoked i]"

definition thread_ok :: "batch_env \<Rightarrow> batch_context \<Rightarrow> batch_call_input list \<Rightarrow> exec_state \<Rightarrow> group_thread \<Rightarrow> bool" where
  "thread_ok env cx inputs st th \<longleftrightarrow>
     sorted_wrt (<) (map bi_index (gt_calls th)) \<and>
     (\<forall>inp \<in> set (gt_calls th). bi_class inp = gt_class th \<and> inp \<in> set (nonTerminalInputs inputs) \<and> admitted env cx inp) \<and>
     (\<forall>inp \<in> set (drop (gt_next th) (gt_calls th)). trail st (bi_index inp) = []) \<and>
     distinct (gt_running th) \<and>
     (\<forall>inp \<in> set (gt_running th). inp \<in> set (take (gt_next th) (gt_calls th)) \<and> called_trail st (bi_index inp)) \<and>
     (gt_rejected th \<longrightarrow> ex_aborted st \<and> gt_running th = []) \<and>
     (\<not> isParallelWithinGroup (gt_class th) \<longrightarrow> gt_next th \<le> length (gt_calls th) \<and>
        (\<forall>inp \<in> set (gt_running th). 0 < gt_next th \<and> inp = gt_calls th ! (gt_next th - 1) \<and> gt_deniedBy th = None) \<and> denial_ok st th)"

definition pending_in :: "group_thread \<Rightarrow> batch_call_input \<Rightarrow> bool" where
  "pending_in th inp \<longleftrightarrow> inp \<in> set (drop (gt_next th) (gt_calls th)) \<or> inp \<in> set (gt_running th)"

definition in_full :: "exec_state \<Rightarrow> batch_call_input list \<Rightarrow> bool" where
  "in_full st inputs \<longleftrightarrow>
     (\<forall>inp \<in> set (nonTerminalInputs inputs). answered st (bi_index inp) \<or> (\<exists>th \<in> set (ex_threads st). pending_in th inp))"

definition pc_ok :: "batch_call_input list \<Rightarrow> exec_state \<Rightarrow> bool" where
  "pc_ok inputs st \<longleftrightarrow>
     (case ex_pc st of
        Joining \<Rightarrow> \<forall>t. tail_terminal inputs = Some t \<longrightarrow> trail st (bi_index t) = []
      | TerminalRunning t \<Rightarrow> tail_terminal inputs = Some t \<and> called_trail st (bi_index t)
      | BatchReturned slots cancelled \<Rightarrow>
          map slot_id slots = map (\<lambda>inp. (bi_index inp, bi_call inp, bi_class inp)) inputs \<and> (\<forall>s \<in> set slots. sl_compressed s \<noteq> None \<or> sl_cancelled s) \<and>
          (\<not> cancelled \<longrightarrow> (\<forall>s \<in> set slots. sl_compressed s \<noteq> None \<and> \<not> sl_cancelled s)))"

definition terminal_last :: "batch_call_input list \<Rightarrow> exec_state \<Rightarrow> bool" where
  "terminal_last inputs st \<longleftrightarrow>
     (\<forall>t. tail_terminal inputs = Some t \<longrightarrow> EvInvoked (bi_index t) \<in> set (ex_events st) \<longrightarrow>
        (\<forall>inp \<in> set (nonTerminalInputs inputs). \<exists>r. EvFinished (bi_index inp) r \<in>
           set (takeWhile (\<lambda>e. e \<noteq> EvInvoked (bi_index t)) (ex_events st))))"

definition batch_core :: "batch_env \<Rightarrow> batch_context \<Rightarrow> batch_call_input list \<Rightarrow> exec_state \<Rightarrow> bool" where
  "batch_core env cx inputs st \<longleftrightarrow>
     map slot_id (ex_slots st) = map (\<lambda>inp. (bi_index inp, bi_call inp, bi_class inp)) inputs \<and>
     ex_terminal st = tail_terminal inputs \<and>
     (\<forall>i. life_ok st i) \<and>
     distinct (map gt_class (ex_threads st)) \<and>
     (\<forall>th \<in> set (ex_threads st). thread_ok env cx inputs st th) \<and>
     (\<forall>i. EvInvoked i \<in> set (ex_events st) \<longrightarrow>
        (\<exists>th \<in> set (ex_threads st). \<exists>inp \<in> set (gt_calls th). bi_index inp = i) \<or>
        (\<exists>t. tail_terminal inputs = Some t \<and> bi_index t = i)) \<and>
     (\<not> ex_aborted st \<longrightarrow> in_full st inputs \<and> (\<forall>s \<in> set (ex_slots st). \<not> sl_cancelled s)) \<and>
     terminal_last inputs st"

lemma core_length: "batch_core env cx inputs st \<Longrightarrow> length (ex_slots st) = length inputs"
  by (auto simp: batch_core_def dest: map_eq_imp_length_eq)

definition batch_ok :: "batch_env \<Rightarrow> batch_context \<Rightarrow> batch_call_input list \<Rightarrow> exec_state \<Rightarrow> bool" where
  "batch_ok env cx inputs st \<longleftrightarrow> batch_core env cx inputs st \<and> pc_ok inputs st"

lemma indexed_nth: "indexed inputs \<Longrightarrow> inp \<in> set inputs \<Longrightarrow> bi_index inp < length inputs \<and> inputs ! bi_index inp = inp"
proof -
  assume ix: "indexed inputs" and "inp \<in> set inputs"
  then obtain k where k: "k < length inputs" "inputs ! k = inp" by (auto simp: in_set_conv_nth)
  have "bi_index inp = k" using ix k by (metis indexed_def nth_map add_0 nth_upt diff_zero length_upt)
  with k show ?thesis by simp
qed

lemma nonTerminal_subset: "inp \<in> set (nonTerminalInputs inputs) \<Longrightarrow> inp \<in> set inputs"
  by (auto simp: nonTerminalInputs_def split: if_splits dest: in_set_butlastD)

lemma tail_member: "tail_terminal inputs = Some t \<Longrightarrow> t \<in> set inputs"
  by (cases "inputs = []") (auto simp: tail_terminal_def split: if_splits)

lemma terminal_apart:
  assumes "indexed inputs" and "tail_terminal inputs = Some t" and "inp \<in> set (nonTerminalInputs inputs)"
  shows "bi_index inp \<noteq> bi_index t" "bi_index t < length inputs" "t \<in> set inputs"
proof -
  have t: "t = last inputs" "inputs \<noteq> []" "inp \<in> set (butlast inputs)"
    using assms(2,3) by (auto simp: tail_terminal_def nonTerminalInputs_def split: if_splits)
  have "distinct (map bi_index inputs)" using assms(1) by (simp add: indexed_def)
  then have "distinct (map bi_index (butlast inputs @ [t]))" using t by simp
  then have "bi_index t \<notin> bi_index ` set (butlast inputs)" by simp
  then show "bi_index inp \<noteq> bi_index t" using t(3) by (metis imageI)
  show "t \<in> set inputs" using t by simp
  then show "bi_index t < length inputs" using indexed_nth [OF assms(1)] by blast
qed

lemma same_index:
  assumes "indexed inputs" and "thread_ok env cx inputs st th" and "thread_ok env cx inputs st' th'"
    and "inp \<in> set (gt_calls th)" and "inp' \<in> set (gt_calls th')" and "bi_index inp = bi_index inp'"
  shows "inp = inp'" "gt_class th = gt_class th'"
proof -
  have "inp \<in> set (nonTerminalInputs inputs)" using assms(2,4) by (simp add: thread_ok_def)
  moreover have "inp' \<in> set (nonTerminalInputs inputs)" using assms(3,5) by (simp add: thread_ok_def)
  ultimately show same: "inp = inp'" using nonTerminal_subset indexed_nth [OF assms(1)] assms(6) by metis
  have "gt_class th = bi_class inp" using assms(2,4) by (simp add: thread_ok_def)
  moreover have "gt_class th' = bi_class inp'" using assms(3,5) by (simp add: thread_ok_def)
  ultimately show "gt_class th = gt_class th'" using same by simp
qed

text \<open>What is done to one group leaves the others alone.\<close>

lemma thread_ok_frame:
  assumes "thread_ok env cx inputs st th" and "frame_on I st st'" and "\<And>inp. inp \<in> set (gt_calls th) \<Longrightarrow> bi_index inp \<notin> I"
  shows "thread_ok env cx inputs st' th"
proof -
  have tr: "trail st' (bi_index inp) = trail st (bi_index inp)" "ex_slots st' ! bi_index inp = ex_slots st ! bi_index inp"
    if "inp \<in> set (gt_calls th)" for inp using assms(2,3) that by (auto simp: frame_on_def)
  have inv: "EvInvoked (bi_index inp) \<in> set (ex_events st') \<longleftrightarrow> EvInvoked (bi_index inp) \<in> set (ex_events st)"
    if "inp \<in> set (gt_calls th)" for inp
    using tr(1) [OF that] trail_set [of "EvInvoked (bi_index inp)"] by (metis ev_index.simps(2))
  have "denial_ok st' th = denial_ok st th" if "gt_next th \<le> length (gt_calls th)"
    using that tr(2) inv by (auto simp: denial_ok_def slot_not_approved_def)
  moreover have "ex_aborted st' = ex_aborted st" using assms(2) by (simp add: frame_on_def)
  moreover have "\<forall>inp \<in> set (drop (gt_next th) (gt_calls th)). trail st' (bi_index inp) = trail st (bi_index inp)"
    using tr(1) by (meson in_set_dropD)
  moreover have "\<forall>inp \<in> set (gt_running th). trail st' (bi_index inp) = trail st (bi_index inp)"
    using assms(1) tr(1) unfolding thread_ok_def by (meson in_set_takeD)
  ultimately show ?thesis using assms(1) by (simp add: thread_ok_def called_trail_def)
qed

text \<open>One group moves: what has to be shown of it.\<close>

lemma group_step_ok:
  assumes ok: "batch_ok env cx inputs st" and ix: "indexed inputs" and g: "g < length (ex_threads st)"
    and fr: "frame_on I st stm" and I: "I \<subseteq> bi_index ` set (gt_calls (ex_threads st ! g))"
    and life: "\<And>i. i \<in> I \<Longrightarrow> life_ok stm i"
    and th: "thread_ok env cx inputs stm th'" "gt_calls th' = gt_calls (ex_threads st ! g)"
      "gt_class th' = gt_class (ex_threads st ! g)"
    and full: "\<And>inp. \<not> ex_aborted st \<Longrightarrow> pending_in (ex_threads st ! g) inp \<Longrightarrow>
      answered stm (bi_index inp) \<or> pending_in th' inp"
  shows "batch_ok env cx inputs (set_thread g th' stm)"
proof -
  let ?th = "ex_threads st ! g" and ?st = "set_thread g th' stm"
  have thg: "thread_ok env cx inputs st ?th" using ok g by (simp add: batch_ok_def batch_core_def)
  have threads: "ex_threads ?st = (ex_threads st)[g := th']" using fr by (simp add: frame_on_def)
  have grow: "prefix (ex_events st) (ex_events stm)" using fr by (simp add: frame_on_def)
  have nonterm: "bi_index t \<notin> I" if t: "tail_terminal inputs = Some t" for t
  proof
    assume "bi_index t \<in> I"
    then obtain inp where inp: "inp \<in> set (gt_calls ?th)" "bi_index inp = bi_index t" using I by (metis imageE subsetD)
    then have "inp \<in> set (nonTerminalInputs inputs)" using thg by (simp add: thread_ok_def)
    then show False using terminal_apart(1) [OF ix t] inp(2) by blast
  qed
  have mono: "answered st i \<Longrightarrow> answered ?st i" for i
    using set_mono_prefix [OF grow] by (auto simp: answered_def)
  have inI: "i \<in> I" if "EvInvoked i \<in> set (ex_events stm)" "EvInvoked i \<notin> set (ex_events st)" for i
  proof (rule ccontr)
    assume "i \<notin> I"
    then have "trail stm i = trail st i" using fr by (simp add: frame_on_def)
    then show False using that trail_set [of "EvInvoked i"] by (metis ev_index.simps(2))
  qed
  have others: "thread_ok env cx inputs ?st th2" if "th2 \<in> set (ex_threads ?st)" for th2
  proof -
    from that have "th2 \<in> set ((ex_threads st)[g := th'])" unfolding threads .
    then obtain h where h: "h < length (ex_threads st)" "th2 = (ex_threads st)[g := th'] ! h"
      by (auto simp: in_set_conv_nth)
    have t: "thread_ok env cx inputs ?st x = thread_ok env cx inputs stm x" for x
      by (simp add: thread_ok_def called_trail_def denial_ok_def slot_not_approved_def)
    show ?thesis
    proof (cases "h = g")
      case True
      then show ?thesis using h th t by simp
    next
      case False
      then have h2: "th2 = ex_threads st ! h" using h by simp
      have "th2 \<in> set (ex_threads st)" using h(1) unfolding h2 by simp
      then have ok2: "thread_ok env cx inputs st th2" using ok by (simp add: batch_ok_def batch_core_def)
      have "distinct (map gt_class (ex_threads st))" using ok by (simp add: batch_ok_def batch_core_def)
      then have "gt_class th2 \<noteq> gt_class ?th" using False h h2 g by (metis length_map nth_eq_iff_index_eq nth_map)
      then have "bi_index inp \<notin> I" if "inp \<in> set (gt_calls th2)" for inp
        using that I same_index(2) [OF ix ok2 thg] by blast
      then show ?thesis using thread_ok_frame [OF ok2 fr] t by simp
    qed
  qed
  have "map gt_class (ex_threads ?st) = map gt_class (ex_threads st)"
    unfolding threads using th(3) by (simp add: map_update_same)
  moreover have "life_ok ?st i" for i
    using ok life frame_life [OF fr, of i] by (cases "i \<in> I") (simp_all add: batch_ok_def batch_core_def)
  moreover have "(\<exists>th \<in> set (ex_threads ?st). \<exists>inp \<in> set (gt_calls th). bi_index inp = i) \<or>
      (\<exists>t. tail_terminal inputs = Some t \<and> bi_index t = i)" if "EvInvoked i \<in> set (ex_events ?st)" for i
  proof -
    have calls: "gt_calls ` set (ex_threads ?st) = gt_calls ` set (ex_threads st)"
      unfolding threads using th(2) map_update_same [of gt_calls th' "ex_threads st" g] by (metis list.set_map)
    have "i \<in> I \<Longrightarrow> \<exists>inp \<in> set (gt_calls ?th). bi_index inp = i" using I by auto
    then have "(\<exists>c \<in> gt_calls ` set (ex_threads st). \<exists>inp \<in> set c. bi_index inp = i) \<or>
      (\<exists>t. tail_terminal inputs = Some t \<and> bi_index t = i)"
    proof (cases "EvInvoked i \<in> set (ex_events st)")
      case True
      then show ?thesis using ok by (auto simp: batch_ok_def batch_core_def)
    next
      case False
      then have "i \<in> I" using that inI by simp
      then show ?thesis using \<open>i \<in> I \<Longrightarrow> \<exists>inp \<in> set (gt_calls ?th). bi_index inp = i\<close> nth_mem [OF g] by blast
    qed
    then show ?thesis unfolding calls [symmetric] by auto
  qed
  moreover have "in_full ?st inputs" if "\<not> ex_aborted ?st"
  proof -
    have na: "\<not> ex_aborted st" using that fr by (simp add: frame_on_def)
    have "answered ?st (bi_index inp) \<or> (\<exists>th \<in> set (ex_threads ?st). pending_in th inp)"
      if n: "inp \<in> set (nonTerminalInputs inputs)" for inp
    proof (cases "answered st (bi_index inp)")
      case False
      have "in_full st inputs" using ok na by (simp add: batch_ok_def batch_core_def)
      then obtain th0 where "th0 \<in> set (ex_threads st)" "pending_in th0 inp"
        using n False by (auto simp: in_full_def)
      then obtain h where h: "h < length (ex_threads st)" "pending_in (ex_threads st ! h) inp"
        by (metis in_set_conv_nth)
      show ?thesis
      proof (cases "h = g")
        case True
        have "th' \<in> set (ex_threads ?st)" unfolding threads by (rule set_update_memI [OF g])
        then show ?thesis using True full [OF na, of inp] h by auto
      next
        case False
        then have "ex_threads st ! h \<in> set (ex_threads ?st)"
          using h unfolding threads by (metis length_list_update nth_list_update_neq nth_mem)
        then show ?thesis using h by blast
      qed
    qed (use mono in blast)
    then show ?thesis by (simp add: in_full_def)
  qed
  moreover have "pc_ok inputs ?st"
  proof -
    have "trail ?st (bi_index t) = trail st (bi_index t)" if "tail_terminal inputs = Some t" for t
      using nonterm [OF that] fr by (simp add: frame_on_def)
    moreover have "ex_pc ?st = ex_pc st" using fr by (simp add: frame_on_def)
    moreover have "pc_ok inputs st" using ok by (simp add: batch_ok_def batch_core_def)
    ultimately show ?thesis by (auto simp: pc_ok_def called_trail_def split: main_pc.splits)
  qed
  moreover have "terminal_last inputs ?st"
    unfolding terminal_last_def
  proof (intro allI impI)
    fix t assume t: "tail_terminal inputs = Some t" "EvInvoked (bi_index t) \<in> set (ex_events ?st)"
    then have old: "EvInvoked (bi_index t) \<in> set (ex_events st)" using nonterm inI by auto
    moreover have "takeWhile (\<lambda>e. e \<noteq> EvInvoked (bi_index t)) (ex_events ?st) =
        takeWhile (\<lambda>e. e \<noteq> EvInvoked (bi_index t)) (ex_events st)"
      using grow old by (auto simp: prefix_def takeWhile_append1)
    ultimately show "\<forall>inp \<in> set (nonTerminalInputs inputs). \<exists>r. EvFinished (bi_index inp) r \<in>
        set (takeWhile (\<lambda>e. e \<noteq> EvInvoked (bi_index t)) (ex_events ?st))"
      using ok t(1) by (simp add: batch_ok_def batch_core_def terminal_last_def)
  qed
  moreover have "(\<forall>s \<in> set (ex_slots ?st). \<not> sl_cancelled s)" if "\<not> ex_aborted ?st"
  proof -
    have "\<not> ex_aborted st" "map sl_cancelled (ex_slots stm) = map sl_cancelled (ex_slots st)"
      using that fr by (simp_all add: frame_on_def)
    then show ?thesis using ok by (simp add: batch_ok_def batch_core_def) (metis (no_types, lifting) image_iff list.set_map)
  qed
  ultimately show ?thesis using ok others fr by (simp add: batch_ok_def batch_core_def frame_on_def)
qed

end
