(* ===== verification/Batch_Groups.thy ===== *)
theory Batch_Groups
  imports Batch_Invariant
begin

text \<open>
  The moves of a group keep the invariant of the batch: a wave of the parallel group, a round of a
  serialised one, an awaited call that settles.
\<close>

section \<open>The moves of a group\<close>

lemma ok_facts:
  assumes "batch_ok env cx inputs st" and "indexed inputs" and "g < length (ex_threads st)"
  shows "thread_ok env cx inputs st (ex_threads st ! g)" "life_ok st i" "length (ex_slots st) = length inputs"
    and "inp \<in> set (gt_calls (ex_threads st ! g)) \<Longrightarrow> bi_index inp < length (ex_slots st)"
proof -
  show t: "thread_ok env cx inputs st (ex_threads st ! g)" using assms(1,3) by (simp add: batch_ok_def batch_core_def)
  show "life_ok st i" using assms(1) by (simp add: batch_ok_def batch_core_def)
  have "batch_core env cx inputs st" using assms(1) by (simp add: batch_ok_def)
  then show l: "length (ex_slots st) = length inputs" by (rule core_length)
  show "inp \<in> set (gt_calls (ex_threads st ! g)) \<Longrightarrow> bi_index inp < length (ex_slots st)"
    using t l indexed_nth [OF assms(2)] nonTerminal_subset by (auto simp: thread_ok_def)
qed

lemma called_once_index:
  assumes "sorted_wrt (<) (map bi_index calls)" and "k < length calls" and "k' < length calls" and "k \<noteq> k'"
  shows "bi_index (calls ! k) \<noteq> bi_index (calls ! k')"
  using assms sorted_wrt_nth_less [of "(<)" "map bi_index calls"] by (metis length_map linorder_neqE_nat less_irrefl nth_map)

lemma part_index:
  assumes "sorted_wrt (<) (map bi_index calls)" and "inp \<in> set (take n calls)" and "inp' \<in> set (drop n calls)"
  shows "bi_index inp \<noteq> bi_index inp'"
proof -
  have "distinct (map bi_index calls)" using assms(1) strict_sorted_iff by blast
  then have "distinct (map bi_index (take n calls) @ map bi_index (drop n calls))" by (metis append_take_drop_id map_append)
  then have "bi_index ` set (take n calls) \<inter> bi_index ` set (drop n calls) = {}" unfolding distinct_append by simp
  then show ?thesis using assms(2,3) by blast
qed

subsection \<open>A wave of the parallel group\<close>

lemma begin_wave_ok:
  assumes "distinct (map bi_index inps)" and "\<And>inp. inp \<in> set inps \<Longrightarrow> trail st (bi_index inp) = [] \<and> bi_index inp < length (ex_slots st)"
    and "\<And>i. life_ok st i" and "begin_wave env cx inps st = (st', running)"
  shows "frame_on (bi_index ` set inps) st st' \<and> (\<forall>i. life_ok st' i) \<and> set running \<subseteq> set inps \<and> distinct running \<and>
    (\<forall>inp \<in> set running. called_trail st' (bi_index inp)) \<and>
    (\<not> ex_aborted st \<longrightarrow> (\<forall>inp \<in> set inps. answered st' (bi_index inp) \<or> inp \<in> set running))"
  using assms
proof (induction inps arbitrary: st st' running)
  case Nil
  then show ?case by (simp add: frame_refl)
next
  case (Cons inp inps)
  define st1 where "st1 = fst (begin_call env cx inp st)"
  define called where "called = snd (begin_call env cx inp st)"
  obtain st2 run2 where w: "begin_wave env cx inps st1 = (st2, run2)" by fastforce
  have res: "st' = st2" "running = (if called then inp # run2 else run2)"
    using Cons.prems(4) w by (auto simp: st1_def called_def Let_def case_prod_beta)
  have fr1: "frame_on {bi_index inp} st st1" unfolding st1_def by (rule frame_begin)
  have life1: "life_ok st1 i" for i
    using frame_life [OF fr1, of i] Cons.prems(2) [of inp] Cons.prems(3) begin_life(1) [of st inp env cx]
    by (cases "i = bi_index inp") (simp_all add: st1_def)
  have notin: "bi_index inp \<notin> bi_index ` set inps" using Cons.prems(1) by simp
  then have ap: "bi_index j \<noteq> bi_index inp" if "j \<in> set inps" for j using that by (metis imageI)
  have IH: "frame_on (bi_index ` set inps) st1 st2 \<and> (\<forall>i. life_ok st2 i) \<and> set run2 \<subseteq> set inps \<and> distinct run2 \<and>
    (\<forall>inp \<in> set run2. called_trail st2 (bi_index inp)) \<and>
    (\<not> ex_aborted st1 \<longrightarrow> (\<forall>inp \<in> set inps. answered st2 (bi_index inp) \<or> inp \<in> set run2))"
  proof (rule Cons.IH [OF _ _ life1 w])
    show "distinct (map bi_index inps)" using Cons.prems(1) by simp
    show "trail st1 (bi_index j) = [] \<and> bi_index j < length (ex_slots st1)" if "j \<in> set inps" for j
      using fr1 ap [OF that] Cons.prems(2) [of j] that by (simp add: frame_on_def)
  qed
  have fr: "frame_on (bi_index ` set (inp # inps)) st st2"
    using frame_trans [OF fr1 conjunct1 [OF IH]] by simp
  have keep: "trail st2 (bi_index inp) = trail st1 (bi_index inp)" using IH notin by (simp add: frame_on_def)
  have called_t: "called \<Longrightarrow> called_trail st2 (bi_index inp)"
    using begin_life(2) [of st inp env cx] Cons.prems(2) [of inp] Cons.prems(3) keep
    by (simp add: called_def called_trail_def st1_def)
  have ans: "answered st2 (bi_index inp)" if "\<not> ex_aborted st" "\<not> called"
    using begin_life(3) [of st inp env cx] Cons.prems(2) [of inp] Cons.prems(3) keep that
    by (auto simp: called_def answered_trail st1_def)
  have ab: "ex_aborted st1 = ex_aborted st" using fr1 by (simp add: frame_on_def)
  have "inp \<notin> set run2" using IH ap by blast
  then show ?case using IH fr called_t ans ab by (auto simp: res)
qed

lemma run_wave_ok:
  assumes "batch_ok env cx inputs st" and "indexed inputs" and en: "op_enabled (OpRun g) st"
    and par: "isParallelWithinGroup (gt_class (ex_threads st ! g))"
  shows "batch_ok env cx inputs (run_wave env cx g st)"
proof -
  define th where "th = ex_threads st ! g"
  define w where "w = (case cx_maxWaveSize cx of None \<Rightarrow> length (gt_calls th) | Some w \<Rightarrow> w)"
  define inps where "inps = take w (drop (gt_next th) (gt_calls th))"
  obtain stm running where wave: "begin_wave env cx inps st = (stm, running)" by fastforce
  have g: "g < length (ex_threads st)" and idle: "\<not> gt_rejected th" "gt_running th = []"
    using en by (simp_all add: th_def Let_def)
  note facts = ok_facts [OF assms(1,2) g, folded th_def]
  have sorted: "sorted_wrt (<) (map bi_index (gt_calls th))" using facts(1) by (simp add: thread_ok_def)
  have split_calls: "drop (gt_next th) (gt_calls th) = inps @ drop (gt_next th + w) (gt_calls th)"
    unfolding inps_def by (metis add.commute append_take_drop_id drop_drop)
  have sub: "set inps \<subseteq> set (drop (gt_next th) (gt_calls th))" unfolding split_calls by simp
  then have sub': "set inps \<subseteq> set (gt_calls th)" using set_drop_subset by fastforce
  have "distinct (map bi_index (gt_calls th))" using sorted strict_sorted_iff by blast
  then have "distinct (map bi_index inps)" unfolding inps_def by (simp add: take_map [symmetric] drop_map [symmetric])
  moreover have "trail st (bi_index inp) = [] \<and> bi_index inp < length (ex_slots st)" if "inp \<in> set inps" for inp
    using that facts(1,4) sub sub' by (auto simp: thread_ok_def)
  ultimately have W: "frame_on (bi_index ` set inps) st stm \<and> (\<forall>i. life_ok stm i) \<and> set running \<subseteq> set inps \<and>
    distinct running \<and> (\<forall>inp \<in> set running. called_trail stm (bi_index inp)) \<and>
    (\<not> ex_aborted st \<longrightarrow> (\<forall>inp \<in> set inps. answered stm (bi_index inp) \<or> inp \<in> set running))"
    using begin_wave_ok [OF _ _ facts(2) wave] by blast
  define th' where "th' = th\<lparr>gt_next := gt_next th + w, gt_running := running\<rparr>"
  have res: "run_wave env cx g st = set_thread g th' stm"
    using wave by (simp add: run_wave_def Let_def th_def [symmetric] w_def [symmetric] inps_def [symmetric] th'_def)
  have upto: "set inps \<subseteq> set (take (gt_next th + w) (gt_calls th))"
    unfolding inps_def by (simp add: take_add)
  have fresh: "trail stm (bi_index inp) = []" if "inp \<in> set (drop (gt_next th + w) (gt_calls th))" for inp
  proof -
    have "bi_index inp \<notin> bi_index ` set inps" using part_index [OF sorted _ that] upto by fastforce
    then have "trail stm (bi_index inp) = trail st (bi_index inp)" using W by (simp add: frame_on_def)
    then show ?thesis using facts(1) that split_calls by (simp add: thread_ok_def)
  qed
  show ?thesis unfolding res
  proof (rule group_step_ok [OF assms(1,2) g])
    show "frame_on (bi_index ` set inps) st stm" using W by blast
    show "bi_index ` set inps \<subseteq> bi_index ` set (gt_calls (ex_threads st ! g))" using sub' by (auto simp: th_def)
    show "life_ok stm i" for i using W by blast
    show "gt_calls th' = gt_calls (ex_threads st ! g)" "gt_class th' = gt_class (ex_threads st ! g)"
      by (simp_all add: th'_def th_def)
    show "thread_ok env cx inputs stm th'"
      using facts(1) W fresh upto idle par by (auto simp: thread_ok_def th'_def th_def [symmetric])
    show "answered stm (bi_index inp) \<or> pending_in th' inp"
      if "\<not> ex_aborted st" "pending_in (ex_threads st ! g) inp" for inp
      using that W idle split_calls by (auto simp: pending_in_def th'_def th_def [symmetric])
  qed
qed

subsection \<open>A serialised group\<close>

definition denial_order :: "exec_state \<Rightarrow> batch_call_input list \<Rightarrow> bool" where
  "denial_order st calls \<longleftrightarrow>
     (\<forall>k k'. k < k' \<longrightarrow> k' < length calls \<longrightarrow> slot_not_approved st (bi_index (calls ! k)) \<longrightarrow>
        EvInvoked (bi_index (calls ! k')) \<notin> set (ex_events st))"

lemma frame_invoked:
  "frame_on I st stm \<Longrightarrow> i \<notin> I \<Longrightarrow> EvInvoked i \<in> set (ex_events stm) \<longleftrightarrow> EvInvoked i \<in> set (ex_events st)"
  using trail_set [of "EvInvoked i"] by (metis ev_index.simps(2) frame_on_def)

lemma frame_approved: "frame_on I st stm \<Longrightarrow> i \<notin> I \<Longrightarrow> slot_not_approved stm i = slot_not_approved st i"
  by (simp add: frame_on_def slot_not_approved_def)

lemma denial_order_step:
  assumes sorted: "sorted_wrt (<) (map bi_index calls)" and m: "m < length calls"
    and fr: "frame_on {bi_index (calls ! m)} st stm" and old: "denial_order st calls"
    and later: "\<And>k'. m < k' \<Longrightarrow> k' < length calls \<Longrightarrow> EvInvoked (bi_index (calls ! k')) \<notin> set (ex_events st)"
    and now: "\<And>k. EvInvoked (bi_index (calls ! m)) \<in> set (ex_events stm) \<Longrightarrow> k < m \<Longrightarrow>
      \<not> slot_not_approved st (bi_index (calls ! k))"
  shows "denial_order stm calls"
  unfolding denial_order_def
proof (intro allI impI)
  fix k k'
  assume k: "k < k'" "k' < length calls" "slot_not_approved stm (bi_index (calls ! k))"
  have other: "bi_index (calls ! j) \<notin> {bi_index (calls ! m)}" if "j \<noteq> m" "j < length calls" for j
    using called_once_index [OF sorted that(2) m that(1)] by simp
  show "EvInvoked (bi_index (calls ! k')) \<notin> set (ex_events stm)"
  proof (cases "k' = m")
    case True
    then show ?thesis using now k frame_approved [OF fr other [of k]] by force
  next
    case False
    then have "EvInvoked (bi_index (calls ! k')) \<in> set (ex_events stm) \<longleftrightarrow> EvInvoked (bi_index (calls ! k')) \<in> set (ex_events st)"
      using frame_invoked [OF fr other [of k']] k by simp
    moreover have "EvInvoked (bi_index (calls ! k')) \<notin> set (ex_events st)"
    proof (cases "k = m")
      case True
      then show ?thesis using later k by simp
    next
      case False
      then have "slot_not_approved st (bi_index (calls ! k))" using frame_approved [OF fr other [of k]] k by simp
      then show ?thesis using old k by (auto simp: denial_order_def)
    qed
    ultimately show ?thesis by simp
  qed
qed

lemma run_serial_ok:
  assumes "batch_ok env cx inputs st" and "indexed inputs" and en: "op_enabled (OpRun g) st"
    and ser: "\<not> isParallelWithinGroup (gt_class (ex_threads st ! g))"
  shows "batch_ok env cx inputs (run_serial env cx g st)"
proof -
  define th where "th = ex_threads st ! g"
  define m where "m = gt_next th"
  define inp where "inp = gt_calls th ! m"
  have g: "g < length (ex_threads st)" and idle: "\<not> gt_rejected th" "gt_running th = []" and m: "m < length (gt_calls th)"
    using en by (simp_all add: th_def m_def Let_def)
  note facts = ok_facts [OF assms(1,2) g, folded th_def]
  have sorted: "sorted_wrt (<) (map bi_index (gt_calls th))" using facts(1) by (simp add: thread_ok_def)
  have mem: "inp \<in> set (gt_calls th)" using m by (simp add: inp_def)
  have dr: "drop m (gt_calls th) = inp # drop (Suc m) (gt_calls th)" using m by (simp add: inp_def Cons_nth_drop_Suc)
  have tr: "trail st (bi_index inp) = []" using facts(1) dr by (simp add: thread_ok_def m_def)
  have len: "bi_index inp < length (ex_slots st)" using facts(4) mem by blast
  have dn: "denial_ok st th" using facts(1) ser by (simp add: thread_ok_def th_def)
  have uninvoked: "EvInvoked (bi_index (gt_calls th ! k')) \<notin> set (ex_events st)" if "m \<le> k'" "k' < length (gt_calls th)" for k'
  proof -
    have "gt_calls th ! k' \<in> set (drop m (gt_calls th))" using that nth_mem [of "k' - m" "drop m (gt_calls th)"] by simp
    then have "trail st (bi_index (gt_calls th ! k')) = []" using facts(1) by (simp add: thread_ok_def m_def)
    then show ?thesis using trail_set [of "EvInvoked (bi_index (gt_calls th ! k'))" st "bi_index (gt_calls th ! k')"] by simp
  qed
  text \<open>Each way the round goes: the state \<open>stm\<close> it leaves, and what the thread then awaits or knows.\<close>
  have finish: "batch_ok env cx inputs (set_thread g th' stm)"
    if fr: "frame_on {bi_index inp} st stm" and life: "life_ok stm (bi_index inp)"
      and th': "th' = th\<lparr>gt_next := m + 1, gt_running := run, gt_deniedBy := den\<rparr>"
      and run: "run = [] \<or> (run = [inp] \<and> called_trail stm (bi_index inp) \<and> den = None)"
      and ans: "\<not> ex_aborted st \<Longrightarrow> answered stm (bi_index inp) \<or> inp \<in> set run"
      and inv: "EvInvoked (bi_index inp) \<in> set (ex_events stm) \<Longrightarrow> gt_deniedBy th = None"
      and den: "den = None \<Longrightarrow> gt_deniedBy th = None \<and> \<not> slot_not_approved stm (bi_index inp)" for stm th' run den
  proof (rule group_step_ok [OF assms(1,2) g fr])
    have other: "bi_index (gt_calls th ! k) \<notin> {bi_index inp}" if "k \<noteq> m" "k < length (gt_calls th)" for k
      using called_once_index [OF sorted that(2) m that(1)] by (simp add: inp_def)
    have prior: "gt_deniedBy th = None \<Longrightarrow> k < m \<Longrightarrow> \<not> slot_not_approved st (bi_index (gt_calls th ! k))" for k
      using dn by (simp add: denial_ok_def m_def)
    show "{bi_index inp} \<subseteq> bi_index ` set (gt_calls (ex_threads st ! g))" using mem by (simp add: th_def)
    show "life_ok stm i" if "i \<in> {bi_index inp}" for i using life that by simp
    show "gt_calls th' = gt_calls (ex_threads st ! g)" "gt_class th' = gt_class (ex_threads st ! g)"
      by (simp_all add: th' th_def)
    have "denial_order stm (gt_calls th)"
    proof (rule denial_order_step [OF sorted m])
      show "frame_on {bi_index (gt_calls th ! m)} st stm" using fr by (simp add: inp_def)
      show "denial_order st (gt_calls th)" using dn by (simp add: denial_ok_def denial_order_def)
    qed (use uninvoked inv prior in \<open>auto simp: inp_def\<close>)
    moreover have "\<not> slot_not_approved stm (bi_index (gt_calls th ! k))" if "den = None" "k < m + 1" for k
      using that den [OF that(1)] prior [of k] frame_approved [OF fr other [of k]] m by (cases "k = m") (auto simp: inp_def)
    ultimately have "denial_ok stm th'" by (simp add: denial_ok_def denial_order_def th')
    moreover have "trail stm (bi_index j) = []" if j: "j \<in> set (drop (m + 1) (gt_calls th))" for j
    proof -
      have "inp \<in> set (take (m + 1) (gt_calls th))" using m by (simp add: take_Suc_conv_app_nth inp_def)
      then have "bi_index j \<notin> {bi_index inp}" using part_index [OF sorted _ j] by force
      then have "trail stm (bi_index j) = trail st (bi_index j)" using fr by (simp add: frame_on_def)
      then show ?thesis using facts(1) j dr by (simp add: thread_ok_def m_def)
    qed
    ultimately show "thread_ok env cx inputs stm th'"
      using facts(1) run m idle ser by (auto simp: thread_ok_def th' th_def [symmetric] inp_def take_Suc_conv_app_nth)
    show "answered stm (bi_index i) \<or> pending_in th' i"
      if "\<not> ex_aborted st" "pending_in (ex_threads st ! g) i" for i
      using that ans idle dr by (auto simp: pending_in_def th' th_def [symmetric] m_def)
  qed
  have same: "th\<lparr>gt_next := m + 1\<rparr> = th\<lparr>gt_next := m + 1, gt_running := [], gt_deniedBy := gt_deniedBy th\<rparr>"
    using idle by simp
  have clear: "\<not> slot_not_approved st (bi_index inp)"
    using facts(2) [of "bi_index inp"] tr len by (simp add: life_ok_def legal_def slot_not_approved_def wasNotApproved_def)
  have clear': "\<not> slot_not_approved (cancel_slot (bi_index inp) st) (bi_index inp)"
    using clear len by (simp add: slot_not_approved_def)
  have none: "EvInvoked (bi_index inp) \<notin> set (ex_events st)" using uninvoked [of m] m by (simp add: inp_def)
  consider (aborted) "ex_aborted st" | (denied) d where "\<not> ex_aborted st" "gt_deniedBy th = Some d"
    | (starts) "\<not> ex_aborted st" "gt_deniedBy th = None" by blast
  then show ?thesis
  proof cases
    case aborted
    have r: "run_serial env cx g st = set_thread g (th\<lparr>gt_next := m + 1\<rparr>) (cancel_slot (bi_index inp) st)"
      using aborted by (simp add: run_serial_def Let_def th_def [symmetric] m_def [symmetric] inp_def [symmetric])
    show ?thesis unfolding r
    proof (rule finish [OF frame_cancel [OF aborted] _ same])
      show "life_ok (cancel_slot (bi_index inp) st) (bi_index inp)" using facts(2) cancel_life by simp
    qed (use aborted clear' none in auto)
  next
    case denied
    define r where "r = notRunAfterDenialResult (bi_call inp) d (length (ex_slots st))"
    have e: "run_serial env cx g st = set_thread g (th\<lparr>gt_next := m + 1\<rparr>) (answer_unrun (bi_index inp) r st)"
      using denied by (simp add: run_serial_def Let_def th_def [symmetric] m_def [symmetric] inp_def [symmetric] r_def)
    show ?thesis unfolding e
      by (rule finish [OF frame_answer _ same]) (use denied none answer_life [OF tr len] in auto)
  next
    case starts
    show ?thesis
    proof (cases rule: begin_cases [of st env cx inp])
      case aborted
      then show ?thesis using starts by simp
    next
      case (refused r)
      define stm where "stm = complete_call env cx inp r [] (emit [EvStarted (bi_index inp)] st)"
      have e: "run_serial env cx g st = set_thread g (denied_update inp stm (th\<lparr>gt_next := m + 1\<rparr>)) stm"
        using refused starts by (simp add: run_serial_def Let_def th_def [symmetric] m_def [symmetric] inp_def [symmetric] stm_def)
      have du: "denied_update inp stm (th\<lparr>gt_next := m + 1\<rparr>) = th\<lparr>gt_next := m + 1, gt_running := [],
          gt_deniedBy := (if slot_not_approved stm (bi_index inp) then Some inp else None)\<rparr>"
        using idle starts by (simp add: denied_update_def)
      have b: "begin_call env cx inp st = (stm, False)" using refused by (simp add: stm_def)
      show ?thesis unfolding e
      proof (rule finish [OF _ _ du])
        show "frame_on {bi_index inp} st stm" using frame_begin [of inp st env cx] b by simp
        show "life_ok stm (bi_index inp)" using begin_life(1) [OF tr len facts(2), of env cx] b by simp
        show "answered stm (bi_index inp) \<or> inp \<in> set []" by (auto simp: answered_def stm_def)
      qed (use starts none in \<open>auto split: if_splits\<close>)
    next
      case called
      define stm where "stm = emit [EvStarted (bi_index inp), EvInvoked (bi_index inp)] st"
      have e: "run_serial env cx g st = set_thread g (th\<lparr>gt_next := m + 1, gt_running := [inp]\<rparr>) stm"
        using called starts by (simp add: run_serial_def Let_def th_def [symmetric] m_def [symmetric] inp_def [symmetric] stm_def)
      have same_den: "th\<lparr>gt_next := m + 1, gt_running := [inp]\<rparr> = th\<lparr>gt_next := m + 1, gt_running := [inp], gt_deniedBy := None\<rparr>"
        using starts by (cases th) simp
      have b: "begin_call env cx inp st = (stm, True)" using called by (simp add: stm_def)
      show ?thesis unfolding e
      proof (rule finish [OF _ _ same_den])
        show "frame_on {bi_index inp} st stm" using frame_begin [of inp st env cx] b by simp
        show "life_ok stm (bi_index inp)" using begin_life(1) [OF tr len facts(2), of env cx] b by simp
        show "[inp] = [] \<or> [inp] = [inp] \<and> called_trail stm (bi_index inp) \<and> None = None"
          using begin_life(2) [OF tr len facts(2), of env cx] b by (simp add: called_trail_def)
        show "gt_deniedBy th = None \<and> \<not> slot_not_approved stm (bi_index inp)"
          using starts clear by (simp add: stm_def slot_not_approved_def)
      qed (use starts in auto)
    qed
  qed
qed

lemma settle_group_ok:
  assumes "batch_ok env cx inputs st" and "indexed inputs" and en: "op_enabled (OpSettle g inp outcome) st"
  shows "batch_ok env cx inputs (settle_group env cx g inp outcome st)"
proof -
  define th where "th = ex_threads st ! g"
  define par where "par = isParallelWithinGroup (gt_class th)"
  have g: "g < length (ex_threads st)" and run: "inp \<in> set (gt_running th)" using en by (simp_all add: th_def)
  note facts = ok_facts [OF assms(1,2) g, folded th_def]
  have sorted: "sorted_wrt (<) (map bi_index (gt_calls th))" and dis: "distinct (gt_running th)"
    and taken: "inp \<in> set (take (gt_next th) (gt_calls th))" and called: "called_trail st (bi_index inp)"
    using facts(1) run by (auto simp: thread_ok_def)
  have mem: "inp \<in> set (gt_calls th)" using taken by (rule in_set_takeD)
  have len: "bi_index inp < length (ex_slots st)" using facts(4) mem by blast
  have alone: "remove1 inp (gt_running th) = []" if "\<not> par"
  proof -
    have "\<forall>x \<in> set (gt_running th). x = gt_calls th ! (gt_next th - 1)"
      using facts(1) that unfolding thread_ok_def par_def by blast
    then have "\<forall>x \<in> set (gt_running th). x = inp" using run by metis
    then have "set (remove1 inp (gt_running th)) = {}" using dis by auto
    then show ?thesis by simp
  qed
  show ?thesis
  proof (cases "invokeRegistry env (ex_aborted st) (bi_call inp) outcome")
    case None
    then have ab: "ex_aborted st" by (auto simp: invokeRegistry_def split: invoke_outcome.splits if_splits)
    define th' where "th' = (if par then th\<lparr>gt_running := remove1 inp (gt_running th)\<rparr>
      else th\<lparr>gt_running := remove1 inp (gt_running th), gt_rejected := True\<rparr>)"
    have e: "settle_group env cx g inp outcome st = set_thread g th' st"
      using None by (simp add: settle_group_def Let_def th_def [symmetric] par_def [symmetric] th'_def)
    show ?thesis unfolding e
    proof (rule group_step_ok [OF assms(1,2) g frame_refl [of "{}"]])
      show "thread_ok env cx inputs st th'"
        using facts(1) ab alone dis by (auto simp: thread_ok_def th'_def par_def denial_ok_def)
    qed (use ab in \<open>simp_all add: th'_def th_def\<close>)
  next
    case (Some r)
    define stm where "stm = complete_call env cx inp r (outcome_approvals outcome) st"
    define th' where "th' = (if par then th\<lparr>gt_running := remove1 inp (gt_running th)\<rparr>
      else denied_update inp stm (th\<lparr>gt_running := remove1 inp (gt_running th)\<rparr>))"
    have e: "settle_group env cx g inp outcome st = set_thread g th' stm"
      using Some by (simp add: settle_group_def Let_def th_def [symmetric] par_def [symmetric] th'_def stm_def)
    have fr: "frame_on {bi_index inp} st stm" unfolding stm_def by (rule frame_complete)
    have keep: "gt_calls th' = gt_calls th" "gt_class th' = gt_class th" "gt_next th' = gt_next th" "gt_rejected th' = gt_rejected th"
      "gt_running th' = remove1 inp (gt_running th)"
      by (simp_all add: th'_def denied_update_def)
    note life = complete_life [OF called [unfolded called_trail_def] len, of env cx r "outcome_approvals outcome", folded stm_def]
    have other: "bi_index j \<notin> {bi_index inp}" if "j \<in> set (gt_calls th)" "j \<noteq> inp" for j
      using same_index(1) [OF assms(2) facts(1) facts(1) that(1) mem] that(2) by blast
    have away: "trail stm (bi_index j) = trail st (bi_index j)" if "j \<in> set (gt_calls th)" "j \<noteq> inp" for j
      using fr other [OF that] by (simp add: frame_on_def)
    have rest: "trail stm (bi_index j) = []" if "j \<in> set (drop (gt_next th) (gt_calls th))" for j
    proof -
      have "j \<noteq> inp" using part_index [OF sorted taken that] by blast
      then have "trail stm (bi_index j) = trail st (bi_index j)" by (rule away [OF in_set_dropD [OF that]])
      then show ?thesis using that facts(1) by (simp add: thread_ok_def)
    qed
    have still: "called_trail stm (bi_index j) \<and> j \<in> set (take (gt_next th) (gt_calls th))" if "j \<in> set (remove1 inp (gt_running th))" for j
    proof -
      have j: "j \<in> set (gt_running th)" "j \<noteq> inp" using that dis by auto
      then have "j \<in> set (take (gt_next th) (gt_calls th))" "called_trail st (bi_index j)"
        using facts(1) by (auto simp: thread_ok_def)
      then show ?thesis using away [OF in_set_takeD j(2)] by (simp add: called_trail_def)
    qed
    have denial: "denial_ok stm th'" if np: "\<not> par"
    proof -
      obtain m where m: "gt_next th = Suc m" "inp = gt_calls th ! m" "gt_deniedBy th = None" "m < length (gt_calls th)"
        using facts(1) run np by (cases "gt_next th") (auto simp: thread_ok_def par_def)
      have dn: "denial_ok st th" using facts(1) np by (simp add: thread_ok_def par_def)
      have prior: "\<not> slot_not_approved st (bi_index (gt_calls th ! k))" if "k < Suc m" for k
        using dn m that by (simp add: denial_ok_def)
      have "denial_order stm (gt_calls th)"
      proof (rule denial_order_step [OF sorted m(4)])
        show "frame_on {bi_index (gt_calls th ! m)} st stm" using fr m by simp
        show "denial_order st (gt_calls th)" using dn by (simp add: denial_ok_def denial_order_def)
        show "EvInvoked (bi_index (gt_calls th ! k')) \<notin> set (ex_events st)" if "m < k'" "k' < length (gt_calls th)" for k'
        proof -
          have "gt_calls th ! k' \<in> set (drop (gt_next th) (gt_calls th))"
            using that m nth_mem [of "k' - Suc m" "drop (Suc m) (gt_calls th)"] by simp
          then have "trail st (bi_index (gt_calls th ! k')) = []" using facts(1) by (simp add: thread_ok_def)
          then show ?thesis using trail_set [of "EvInvoked (bi_index (gt_calls th ! k'))" st "bi_index (gt_calls th ! k')"] by simp
        qed
      qed (use prior in simp)
      moreover have "\<not> slot_not_approved stm (bi_index (gt_calls th ! k))"
        if "gt_deniedBy th' = None" "k < Suc m" for k
      proof (cases "k = m")
        case True
        then show ?thesis using that m np by (auto simp: th'_def denied_update_def split: if_splits)
      next
        case False
        have kl: "k < length (gt_calls th)" using that(2) m(4) by simp
        have "bi_index (gt_calls th ! k) \<notin> {bi_index inp}" using called_once_index [OF sorted kl m(4) False] m(2) by simp
        then show ?thesis using prior [OF that(2)] frame_approved [OF fr] by blast
      qed
      ultimately show ?thesis by (simp add: denial_ok_def denial_order_def keep m(1))
    qed
    have "ex_aborted stm = ex_aborted st" by (simp add: stm_def)
    then have "thread_ok env cx inputs stm th'"
      using facts(1) rest still denial dis alone by (auto simp: thread_ok_def keep par_def)
    then show ?thesis unfolding e
    proof (rule group_step_ok [OF assms(1,2) g fr, rotated 2])
      show "{bi_index inp} \<subseteq> bi_index ` set (gt_calls (ex_threads st ! g))" using mem by (simp add: th_def)
      show "answered stm (bi_index j) \<or> pending_in th' j" if "pending_in (ex_threads st ! g) j" for j
        using that life(2) dis by (cases "j = inp") (auto simp: pending_in_def keep th_def [symmetric])
    qed (use life keep in \<open>simp_all add: th_def\<close>)
  qed
qed

lemma run_group_ok:
  assumes "batch_ok env cx inputs st" and "indexed inputs" and "op_enabled (OpRun g) st"
  shows "batch_ok env cx inputs (run_group env cx g st)"
  using run_wave_ok [OF assms] run_serial_ok [OF assms] by (simp add: run_group_def)

end
