(* ===== verification/Batch_Reach.thy ===== *)
theory Batch_Reach
  imports Batch_Groups
begin

text \<open>
  The invariant holds in every state a batch can reach: the abort signal, the join, the tail terminal,
  and phase one.
\<close>

section \<open>The signal, the join and the terminal\<close>

lemma thread_ok_abort: "thread_ok env cx inputs st th \<Longrightarrow> thread_ok env cx inputs (st\<lparr>ex_aborted := True\<rparr>) th"
  by (simp add: thread_ok_def called_trail_def denial_ok_def slot_not_approved_def)

lemma batch_abort_ok: "batch_ok env cx inputs st \<Longrightarrow> batch_ok env cx inputs (st\<lparr>ex_aborted := True\<rparr>)"
  by (auto simp: batch_ok_def batch_core_def thread_ok_abort pc_ok_def called_trail_def terminal_last_def split: main_pc.splits)

lemma thread_ok_same:
  "trail st' = trail st \<Longrightarrow> map sl_compressed (ex_slots st') = map sl_compressed (ex_slots st) \<Longrightarrow>
     map sl_approvals (ex_slots st') = map sl_approvals (ex_slots st) \<Longrightarrow> ex_aborted st' = ex_aborted st \<Longrightarrow>
     ex_events st' = ex_events st \<Longrightarrow> (\<forall>inp \<in> set (gt_calls th). bi_index inp < length (ex_slots st)) \<Longrightarrow>
     thread_ok env cx inputs st' th = thread_ok env cx inputs st th"
proof -
  assume a: "trail st' = trail st" "map sl_compressed (ex_slots st') = map sl_compressed (ex_slots st)"
    "map sl_approvals (ex_slots st') = map sl_approvals (ex_slots st)" "ex_aborted st' = ex_aborted st"
    "ex_events st' = ex_events st" "\<forall>inp \<in> set (gt_calls th). bi_index inp < length (ex_slots st)"
  have "slot_not_approved st' i = slot_not_approved st i" if "i < length (ex_slots st)" for i
    using a(2,3) that unfolding slot_not_approved_def by (metis length_map nth_map)
  then have "denial_ok st' th = denial_ok st th" if "gt_next th \<le> length (gt_calls th)"
    using a(5,6) that by (auto simp: denial_ok_def)
  then show ?thesis using a by (auto simp: thread_ok_def called_trail_def)
qed

lemma sweep_fields [simp]:
  "slot_id (sweep_slot s) = slot_id s" "sl_compressed (sweep_slot s) = sl_compressed s"
  "sl_approvals (sweep_slot s) = sl_approvals s" "sl_compressed (sweep_slot s) \<noteq> None \<or> sl_cancelled (sweep_slot s)"
  by (simp_all add: sweep_slot_def slot_id_def)

lemma core_calls:
  "batch_core env cx inputs st \<Longrightarrow> indexed inputs \<Longrightarrow> th \<in> set (ex_threads st) \<Longrightarrow> inp \<in> set (gt_calls th) \<Longrightarrow>
     bi_index inp < length (ex_slots st)"
proof -
  assume core: "batch_core env cx inputs st" and ix: "indexed inputs" and th: "th \<in> set (ex_threads st)" "inp \<in> set (gt_calls th)"
  have "thread_ok env cx inputs st th" using core th(1) by (simp add: batch_core_def)
  then have "inp \<in> set (nonTerminalInputs inputs)" using th(2) by (simp add: thread_ok_def)
  then have "inp \<in> set inputs" by (rule nonTerminal_subset)
  then show ?thesis using indexed_nth [OF ix] core_length [OF core] by metis
qed

lemma answered_filled: "answered st i \<Longrightarrow> life_ok st i \<Longrightarrow> i < length (ex_slots st) \<Longrightarrow> sl_compressed (ex_slots st ! i) \<noteq> None"
  by (auto simp: answered_trail life_ok_def legal_def)

lemma trail_return [simp]: "trail (return_batch c st) i = trail st i"
  by (simp add: trail_def return_batch_def Let_def)

lemma return_ok:
  assumes ok: "batch_core env cx inputs st" and ix: "indexed inputs" and c: "c \<Longrightarrow> ex_aborted st"
    and all: "\<And>i. \<not> ex_aborted st \<Longrightarrow> i < length inputs \<Longrightarrow> answered st i"
  shows "batch_ok env cx inputs (return_batch c st)"
proof -
  let ?st = "return_batch c st"
  note len = core_length [OF ok]
  have fields: "ex_slots ?st = map sweep_slot (ex_slots st)" "ex_threads ?st = ex_threads st" "ex_aborted ?st = ex_aborted st"
    "ex_events ?st = ex_events st" "ex_terminal ?st = ex_terminal st" "ex_pc ?st = BatchReturned (map sweep_slot (ex_slots st)) (c \<or> ex_aborted st)"
    by (simp_all add: return_batch_def Let_def)
  have filled: "sl_compressed s \<noteq> None \<and> \<not> sl_cancelled s" if na: "\<not> ex_aborted st" and s: "s \<in> set (ex_slots st)" for s
  proof -
    obtain i where i: "i < length inputs" "s = ex_slots st ! i" using s len by (metis in_set_conv_nth)
    have "life_ok st i" using ok by (simp add: batch_core_def)
    then have "sl_compressed s \<noteq> None" using answered_filled [OF all [OF na i(1)]] i len by simp
    then show ?thesis using ok na s by (simp add: batch_core_def)
  qed
  have quiet: "\<not> sl_cancelled (sweep_slot s)" if "\<not> ex_aborted st" "s \<in> set (ex_slots st)" for s
    using filled [OF that] by (simp add: sweep_slot_def)
  have maps: "map slot_id (ex_slots ?st) = map slot_id (ex_slots st)" "map sl_compressed (ex_slots ?st) = map sl_compressed (ex_slots st)"
    "map sl_approvals (ex_slots ?st) = map sl_approvals (ex_slots st)"
    by (simp_all add: fields)
  have th: "thread_ok env cx inputs ?st th = thread_ok env cx inputs st th" if "th \<in> set (ex_threads st)" for th
    by (rule thread_ok_same) (use maps fields core_calls [OF ok ix that] in auto)
  have life: "life_ok ?st i = life_ok st i" for i by (simp add: life_ok_def fields)
  have full: "in_full ?st inputs = in_full st inputs" by (simp add: in_full_def answered_def fields)
  have last: "terminal_last inputs ?st = terminal_last inputs st" by (simp add: terminal_last_def fields)
  have core: "batch_core env cx inputs ?st"
    using ok maps(1) th life full last quiet by (simp add: batch_core_def fields)
  have "sl_compressed s \<noteq> None \<or> sl_cancelled (sweep_slot s)" for s by (simp add: sweep_slot_def)
  moreover have "map slot_id (map sweep_slot (ex_slots st)) = map (\<lambda>inp. (bi_index inp, bi_call inp, bi_class inp)) inputs"
    using ok maps(1) by (simp add: batch_core_def fields)
  ultimately have "pc_ok inputs ?st"
    using filled quiet c by (auto simp: pc_ok_def fields)
  with core show ?thesis by (simp add: batch_ok_def)
qed

lemma cancel_core_ok:
  assumes ok: "batch_core env cx inputs st" and ix: "indexed inputs" and ab: "ex_aborted st"
  shows "batch_core env cx inputs (cancel_slot i st)"
proof -
  have maps: "map sl_compressed (ex_slots (cancel_slot i st)) = map sl_compressed (ex_slots st)"
    "map sl_approvals (ex_slots (cancel_slot i st)) = map sl_approvals (ex_slots st)"
    "map slot_id (ex_slots (cancel_slot i st)) = map slot_id (ex_slots st)"
    by (simp_all add: map_update_same slot_id_def)
  have th: "thread_ok env cx inputs (cancel_slot i st) th = thread_ok env cx inputs st th" if "th \<in> set (ex_threads st)" for th
    by (rule thread_ok_same) (use maps core_calls [OF ok ix that] in auto)
  show ?thesis using ok maps(3) ab th cancel_life [of i st]
    by (simp add: batch_core_def terminal_last_def)
qed

lemma all_done_answered:
  assumes ok: "batch_core env cx inputs st" and na: "\<not> ex_aborted st"
    and fin: "list_all thread_done (ex_threads st) \<or> list_ex gt_rejected (ex_threads st)"
    and n: "inp \<in> set (nonTerminalInputs inputs)"
  shows "answered st (bi_index inp)"
proof -
  have "\<not> list_ex gt_rejected (ex_threads st)" using ok na by (auto simp: batch_core_def thread_ok_def list_ex_iff)
  then have "\<not> pending_in th inp" if "th \<in> set (ex_threads st)" for th
    using fin that by (auto simp: list_all_iff thread_done_def pending_in_def)
  then show ?thesis using ok na n by (auto simp: batch_core_def in_full_def)
qed

lemma index_covered:
  assumes "indexed inputs" and "i < length inputs"
  shows "(\<exists>inp \<in> set (nonTerminalInputs inputs). bi_index inp = i) \<or> (\<exists>t. tail_terminal inputs = Some t \<and> bi_index t = i)"
proof -
  have i: "bi_index (inputs ! i) = i" "inputs ! i \<in> set inputs"
    using assms by (metis indexed_def nth_map add_0 nth_upt diff_zero) (use assms(2) in simp)
  show ?thesis
  proof (cases "tail_terminal inputs")
    case None
    then show ?thesis using i by (auto simp: nonTerminalInputs_def)
  next
    case (Some t)
    then have t: "inputs \<noteq> []" "t = last inputs" by (auto simp: tail_terminal_def split: if_splits)
    then have "set inputs = insert t (set (butlast inputs))" by (metis append_butlast_last_id list.set(2) rotate1.simps(2) set_rotate1)
    then show ?thesis using i Some by (auto simp: nonTerminalInputs_def)
  qed
qed

text \<open>The terminal moves: the rest of the batch stays as it is.\<close>

lemma terminal_frame_core:
  assumes core: "batch_core env cx inputs st" and ix: "indexed inputs" and t: "tail_terminal inputs = Some t"
    and fr: "frame_on {bi_index t} st stm" and life: "life_ok stm (bi_index t)" and last: "terminal_last inputs stm"
  shows "batch_core env cx inputs stm"
proof -
  have lf: "life_ok stm i" for i
    using life frame_life [OF fr, of i] core by (cases "i = bi_index t") (simp_all add: batch_core_def)
  have th: "thread_ok env cx inputs stm th" if "th \<in> set (ex_threads st)" for th
  proof (rule thread_ok_frame [OF _ fr])
    show "thread_ok env cx inputs st th" using core that by (simp add: batch_core_def)
    then show "bi_index inp \<notin> {bi_index t}" if "inp \<in> set (gt_calls th)" for inp
      using terminal_apart(1) [OF ix t] that by (auto simp: thread_ok_def)
  qed
  have inv: "(\<exists>th \<in> set (ex_threads stm). \<exists>inp \<in> set (gt_calls th). bi_index inp = i) \<or>
      (\<exists>t. tail_terminal inputs = Some t \<and> bi_index t = i)" if "EvInvoked i \<in> set (ex_events stm)" for i
  proof (cases "i = bi_index t")
    case False
    then have "EvInvoked i \<in> set (ex_events st)" using that frame_invoked [OF fr] by simp
    then show ?thesis using core fr by (auto simp: batch_core_def frame_on_def)
  qed (use t in blast)
  have "answered stm i" if "answered st i" for i
    using fr that set_mono_prefix by (fastforce simp: frame_on_def answered_def)
  then have full: "in_full st inputs \<Longrightarrow> in_full stm inputs" using fr by (auto simp: in_full_def frame_on_def)
  have canc: "\<forall>s \<in> set (ex_slots stm). \<not> sl_cancelled s" if "\<not> ex_aborted st"
  proof -
    have "map sl_cancelled (ex_slots stm) = map sl_cancelled (ex_slots st)" using that fr by (simp add: frame_on_def)
    then have "sl_cancelled ` set (ex_slots stm) = sl_cancelled ` set (ex_slots st)" by (metis list.set_map)
    then show ?thesis using core that by (fastforce simp: batch_core_def)
  qed
  show ?thesis using core lf th inv full canc last fr by (simp add: batch_core_def frame_on_def)
qed

lemma join_ok:
  assumes ok: "batch_ok env cx inputs st" and ix: "indexed inputs" and en: "op_enabled OpJoin st"
  shows "batch_ok env cx inputs (join_groups env cx st)"
proof -
  have core: "batch_core env cx inputs st" and pc: "ex_pc st = Joining"
    and fin: "list_all thread_done (ex_threads st) \<or> list_ex gt_rejected (ex_threads st)"
    using ok en by (simp_all add: batch_ok_def)
  have rej: "list_ex gt_rejected (ex_threads st) \<Longrightarrow> ex_aborted st"
    using core by (auto simp: batch_core_def thread_ok_def list_ex_iff)
  have tt: "ex_terminal st = tail_terminal inputs" using core by (simp add: batch_core_def)
  show ?thesis
  proof (cases "tail_terminal inputs")
    case None
    then have "join_groups env cx st = return_batch (list_ex gt_rejected (ex_threads st)) st"
      by (simp add: join_groups_def Let_def tt)
    moreover have "answered st i" if "\<not> ex_aborted st" "i < length inputs" for i
      using index_covered [OF ix that(2)] all_done_answered [OF core that(1) fin] None by auto
    ultimately show ?thesis using return_ok [OF core ix] rej by simp
  next
    case (Some t)
    show ?thesis
    proof (cases "ex_aborted st")
      case True
      then have "join_groups env cx st = return_batch (list_ex gt_rejected (ex_threads st)) (cancel_slot (bi_index t) st)"
        using Some by (simp add: join_groups_def Let_def tt)
      then show ?thesis using return_ok [OF cancel_core_ok [OF core ix True] ix] True by simp
    next
      case False
      define stm where "stm = emit [EvStarted (bi_index t), EvInvoked (bi_index t)] st"
      have cls: "bi_class t = Terminal" using Some by (auto simp: tail_terminal_def split: if_splits)
      have e: "join_groups env cx st = stm\<lparr>ex_pc := TerminalRunning t\<rparr>"
        using Some False cls by (simp add: join_groups_def Let_def tt begin_call_def stm_def emit_def)
      have b: "begin_call env cx t st = (stm, True)" using False cls by (simp add: begin_call_def Let_def stm_def emit_def)
      have len: "bi_index t < length (ex_slots st)"
        using core_length [OF core] indexed_nth [OF ix tail_member [OF Some]] by simp
      have tr: "trail st (bi_index t) = []" using ok pc Some by (simp add: batch_ok_def pc_ok_def)
      have lf: "life_ok st i" for i using core by (simp add: batch_core_def)
      have fr: "frame_on {bi_index t} st stm" using frame_begin [of t st env cx] b by simp
      have called: "called_trail stm (bi_index t)" using begin_life(2) [OF tr len lf, of env cx] b by (simp add: called_trail_def)
      have life: "life_ok stm (bi_index t)" using begin_life(1) [OF tr len lf, of env cx] b by simp
      have none: "EvInvoked (bi_index t) \<notin> set (ex_events st)" using tr trail_set [of "EvInvoked (bi_index t)" st "bi_index t"] by simp
      have "terminal_last inputs stm"
        unfolding terminal_last_def
      proof (intro allI impI ballI)
        fix t' inp
        assume "tail_terminal inputs = Some t'" "inp \<in> set (nonTerminalInputs inputs)"
        then have "t' = t" and "answered st (bi_index inp)" using Some all_done_answered [OF core False fin] by auto
        then obtain r where r: "EvFinished (bi_index inp) r \<in> set (ex_events st)" by (auto simp: answered_def)
        have "takeWhile (\<lambda>e. e \<noteq> EvInvoked (bi_index t)) (ex_events st @ x) = ex_events st @ takeWhile (\<lambda>e. e \<noteq> EvInvoked (bi_index t)) x" for x
          using none by (intro takeWhile_append2) auto
        then show "\<exists>r. EvFinished (bi_index inp) r \<in> set (takeWhile (\<lambda>e. e \<noteq> EvInvoked (bi_index t')) (ex_events stm))"
          using r \<open>t' = t\<close> by (auto simp: stm_def)
      qed
      then have "batch_core env cx inputs stm" by (rule terminal_frame_core [OF core ix Some fr life])
      then have "batch_core env cx inputs (stm\<lparr>ex_pc := TerminalRunning t\<rparr>)"
        by (simp add: batch_core_def in_full_def terminal_last_def thread_ok_def called_trail_def denial_ok_def slot_not_approved_def)
      moreover have "pc_ok inputs (stm\<lparr>ex_pc := TerminalRunning t\<rparr>)" using Some called by (simp add: pc_ok_def called_trail_def)
      ultimately show ?thesis by (simp add: batch_ok_def e)
    qed
  qed
qed

lemma settle_terminal_ok:
  assumes ok: "batch_ok env cx inputs st" and ix: "indexed inputs" and pc: "ex_pc st = TerminalRunning t"
  shows "batch_ok env cx inputs (settle_terminal env cx t outcome st)"
proof -
  have core: "batch_core env cx inputs st" and t: "tail_terminal inputs = Some t" and called: "called_trail st (bi_index t)"
    using ok pc by (simp_all add: batch_ok_def pc_ok_def)
  show ?thesis
  proof (cases "invokeRegistry env (ex_aborted st) (bi_call t) outcome")
    case None
    then have "ex_aborted st" by (auto simp: invokeRegistry_def split: invoke_outcome.splits if_splits)
    then show ?thesis using return_ok [OF core ix, of True] None by (simp add: settle_terminal_def)
  next
    case (Some r)
    define stm where "stm = complete_call env cx t r (outcome_approvals outcome) st"
    have e: "settle_terminal env cx t outcome st = return_batch False stm" using Some by (simp add: settle_terminal_def stm_def)
    have len: "bi_index t < length (ex_slots st)"
      using core_length [OF core] indexed_nth [OF ix tail_member [OF t]] by simp
    have fr: "frame_on {bi_index t} st stm" unfolding stm_def by (rule frame_complete)
    note life = complete_life [OF called [unfolded called_trail_def] len, of env cx r "outcome_approvals outcome", folded stm_def]
    have inv: "EvInvoked (bi_index t) \<in> set (ex_events st)"
      using called trail_set [of "EvInvoked (bi_index t)" st "bi_index t"] by (simp add: called_trail_def)
    have last: "terminal_last inputs stm"
      using core t inv by (auto simp: terminal_last_def batch_core_def stm_def takeWhile_append1)
    have "batch_core env cx inputs stm" by (rule terminal_frame_core [OF core ix t fr life(1) last])
    moreover have "answered stm i" if "i < length inputs" for i
    proof -
      have "answered stm (bi_index inp)" if "inp \<in> set (nonTerminalInputs inputs)" for inp
        using last t inv that set_takeWhileD by (fastforce simp: terminal_last_def answered_def stm_def)
      then show ?thesis using index_covered [OF ix that] life(2) t by auto
    qed
    ultimately show ?thesis unfolding e using return_ok [OF _ ix] by simp
  qed
qed

lemma op_step_ok:
  assumes "batch_ok env cx inputs st" and "indexed inputs" and "op_enabled op st"
  shows "batch_ok env cx inputs (op_step env cx op st)"
proof (cases op)
  case OpAbort
  then show ?thesis using batch_abort_ok [OF assms(1)] by simp
next
  case (OpRun g)
  then show ?thesis using run_group_ok assms by simp
next
  case (OpSettle g inp outcome)
  then show ?thesis using settle_group_ok assms by simp
next
  case OpJoin
  then show ?thesis using join_ok assms by simp
next
  case (OpSettleTerminal outcome)
  then show ?thesis using settle_terminal_ok assms by (auto split: main_pc.splits)
qed

section \<open>Phase one\<close>

lemma subseq_members: "subseq xs ys \<Longrightarrow> set xs \<subseteq> set ys"
  by (induction rule: list_emb.induct) auto

lemma subseq_sorted: "subseq xs ys \<Longrightarrow> sorted_wrt P ys \<Longrightarrow> sorted_wrt P xs"
  by (induction rule: list_emb.induct) (use subseq_members in auto)

lemma gate_admits: "snd (gate_call env cx fusion inp st) = None \<Longrightarrow> admitted env cx inp"
  by (auto simp: gate_call_def admitted_def refuseUnregisteredTool_def split: option.splits if_splits prod.splits)

definition phase_ok :: "batch_env \<Rightarrow> batch_context \<Rightarrow> batch_call_input list \<Rightarrow> bool \<Rightarrow> batch_call_input list \<Rightarrow> exec_state \<Rightarrow> bool" where
  "phase_ok env cx inputs a done st \<longleftrightarrow>
     map slot_id (ex_slots st) = map (\<lambda>inp. (bi_index inp, bi_call inp, bi_class inp)) inputs \<and>
     ex_terminal st = tail_terminal inputs \<and> ex_pc st = (if inputs = [] then BatchReturned [] False else Joining) \<and>
     ex_aborted st = a \<and> (\<forall>i. life_ok st i) \<and> (\<forall>i. EvInvoked i \<notin> set (ex_events st)) \<and>
     (\<forall>i. i \<notin> bi_index ` set done \<longrightarrow> trail st i = []) \<and>
     (\<forall>inp \<in> set (ex_toInvoke st). trail st (bi_index inp) = [] \<and> admitted env cx inp) \<and>
     subseq (ex_toInvoke st) done \<and>
     (\<not> a \<longrightarrow> (\<forall>inp \<in> set done. answered st (bi_index inp) \<or> inp \<in> set (ex_toInvoke st)) \<and>
        (\<forall>s \<in> set (ex_slots st). \<not> sl_cancelled s))"

lemma phase_length: "phase_ok env cx inputs a done st \<Longrightarrow> length (ex_slots st) = length inputs"
  by (auto simp: phase_ok_def dest: map_eq_imp_length_eq)

lemma phase_step:
  assumes p: "phase_ok env cx inputs a done st" and new: "bi_index inp \<notin> bi_index ` set done" and len: "bi_index inp < length inputs"
  shows "phase_ok env cx inputs a (done @ [inp]) (phase_one_call env cx inp st)"
proof (cases a)
  case True
  then have "phase_one_call env cx inp st = cancel_slot (bi_index inp) st"
    using p by (simp add: phase_one_call_def phase_ok_def)
  moreover have "subseq (ex_toInvoke st) (done @ [inp])" using p by (auto simp: phase_ok_def intro: subseq_rev_drop_many)
  ultimately show ?thesis using p True cancel_life by (simp add: phase_ok_def)
next
  case False
  obtain tr sg refusal where gate: "gate_call env cx (ex_fusion st) inp (ex_tracker st, ex_signals st) = ((tr, sg), refusal)"
    by (metis prod.exhaust)
  define st' where "st' = st\<lparr>ex_tracker := tr, ex_signals := sg\<rparr>"
  have p': "phase_ok env cx inputs a done st'"
  proof -
    have "trail st' = trail st" by (rule ext) (simp add: trail_def st'_def)
    then show ?thesis using p by (simp add: phase_ok_def st'_def life_ok_def answered_def)
  qed
  have tr0: "trail st' (bi_index inp) = []" using p' new by (simp add: phase_ok_def)
  have len': "bi_index inp < length (ex_slots st')" using phase_length [OF p'] len by simp
  have na: "\<not> ex_aborted st" using p False by (simp add: phase_ok_def)
  show ?thesis
  proof (cases refusal)
    case None
    have ad: "admitted env cx inp" using gate_admits [of env cx "ex_fusion st" inp "(ex_tracker st, ex_signals st)"] gate None by simp
    define stm where "stm = st'\<lparr>ex_toInvoke := ex_toInvoke st @ [inp]\<rparr>"
    have e: "phase_one_call env cx inp st = stm"
      using gate None na by (simp add: phase_one_call_def st'_def stm_def Let_def)
    have "trail stm = trail st'" by (rule ext) (simp add: trail_def stm_def)
    moreover have "subseq (ex_toInvoke stm) (done @ [inp])" using p by (simp add: phase_ok_def stm_def)
    moreover have f: "ex_slots stm = ex_slots st'" "ex_events stm = ex_events st'" "ex_toInvoke stm = ex_toInvoke st' @ [inp]"
      "ex_aborted stm = ex_aborted st'" "ex_pc stm = ex_pc st'" "ex_terminal stm = ex_terminal st'"
      by (simp_all add: stm_def st'_def)
    moreover have "life_ok stm i = life_ok st' i" "answered stm i = answered st' i" for i
      using \<open>trail stm = trail st'\<close> f by (simp_all add: life_ok_def answered_def)
    ultimately show ?thesis unfolding e using p' ad tr0 by (auto simp: phase_ok_def)
  next
    case (Some r)
    define stm where "stm = answer_unrun (bi_index inp) r st'"
    have e: "phase_one_call env cx inp st = stm"
      using gate Some na by (simp add: phase_one_call_def st'_def stm_def Let_def)
    have fr: "frame_on {bi_index inp} st' stm" unfolding stm_def by (rule frame_answer)
    note life = answer_life [OF tr0 len', of r, folded stm_def]
    have lf: "life_ok stm i" for i
      using life(1) frame_life [OF fr, of i] p' by (cases "i = bi_index inp") (simp_all add: phase_ok_def)
    have sub: "subseq (ex_toInvoke st') done" using p' by (simp add: phase_ok_def)
    then have sub': "subseq (ex_toInvoke stm) (done @ [inp])" by (auto simp: stm_def intro: subseq_rev_drop_many)
    have "bi_index j \<noteq> bi_index inp" if "j \<in> set (ex_toInvoke st')" for j
      using that new subseq_members [OF sub] by (metis imageI subsetD)
    then have keep: "trail stm (bi_index j) = trail st' (bi_index j)" if "j \<in> set (ex_toInvoke st')" for j
      using fr that by (simp add: frame_on_def)
    have mono: "answered st' i \<Longrightarrow> answered stm i" for i by (auto simp: answered_def stm_def)
    have canc: "\<forall>s \<in> set (ex_slots stm). \<not> sl_cancelled s"
    proof -
      have "map sl_cancelled (ex_slots stm) = map sl_cancelled (ex_slots st')" using fr p' False by (simp add: frame_on_def phase_ok_def)
      then have "sl_cancelled ` set (ex_slots stm) = sl_cancelled ` set (ex_slots st')" by (metis list.set_map)
      then show ?thesis using p' False by (fastforce simp: phase_ok_def)
    qed
    have tr': "trail stm i = []" if "i \<notin> bi_index ` set (done @ [inp])" for i
      using that fr p' by (simp add: frame_on_def phase_ok_def)
    have "map slot_id (ex_slots stm) = map slot_id (ex_slots st')" using fr by (simp add: frame_on_def)
    moreover have "ex_toInvoke stm = ex_toInvoke st'" "ex_aborted stm = ex_aborted st'" "ex_pc stm = ex_pc st'" "ex_terminal stm = ex_terminal st'"
      by (simp_all add: stm_def)
    moreover have "EvInvoked i \<notin> set (ex_events stm)" for i using p' by (simp add: phase_ok_def stm_def)
    ultimately show ?thesis unfolding e
      using p' lf sub' keep mono canc tr' life(2) by (auto simp: phase_ok_def)
  qed
qed

lemma phase_all:
  assumes "phase_ok env cx inputs a done st" and "distinct (map bi_index (done @ rest))"
    and "\<And>inp. inp \<in> set rest \<Longrightarrow> bi_index inp < length inputs"
  shows "phase_ok env cx inputs a (done @ rest) (fold (phase_one_call env cx) rest st)"
  using assms
proof (induction rest arbitrary: "done" st)
  case (Cons inp rest)
  have "phase_ok env cx inputs a (done @ [inp]) (phase_one_call env cx inp st)"
    by (rule phase_step) (use Cons.prems in auto)
  then show ?case using Cons.IH [of "done @ [inp]"] Cons.prems by simp
qed simp

lemma start_ok:
  assumes ix: "indexed inputs"
  shows "batch_ok env cx inputs (startBatch env cx inputs tracker fusion aborted)"
proof -
  define st0 where "st0 = \<lparr>ex_slots = map fresh_slot inputs, ex_tracker = tracker, ex_signals = [], ex_fusion = fusion,
    ex_aborted = aborted, ex_toInvoke = [], ex_threads = [], ex_terminal = tail_terminal inputs,
    ex_events = [], ex_pc = (if inputs = [] then BatchReturned [] False else Joining)\<rparr>"
  define st1 where "st1 = fold (phase_one_call env cx) (nonTerminalInputs inputs) st0"
  define st2 where "st2 = st1\<lparr>ex_threads := map start_thread (planBatch (ex_toInvoke st1))\<rparr>"
  have s: "startBatch env cx inputs tracker fusion aborted = st2"
    by (simp add: startBatch_def Let_def st0_def st1_def st2_def)
  have dis: "distinct (map bi_index inputs)" using ix by (simp add: indexed_def)
  have "inputs = butlast inputs @ [last inputs] \<or> inputs = []" by (metis append_butlast_last_id)
  then have nt: "distinct (map bi_index (nonTerminalInputs inputs))" "sorted_wrt (<) (map bi_index (nonTerminalInputs inputs))"
  proof -
    have "sorted_wrt (<) (map bi_index inputs)" using ix by (simp add: indexed_def)
    then have "sorted_wrt (<) (map bi_index (butlast inputs))"
      by (metis butlast_conv_take sorted_wrt_take take_map)
    then show "sorted_wrt (<) (map bi_index (nonTerminalInputs inputs))"
      using \<open>sorted_wrt (<) (map bi_index inputs)\<close> by (simp add: nonTerminalInputs_def)
    then show "distinct (map bi_index (nonTerminalInputs inputs))" using strict_sorted_iff by blast
  qed
  have "phase_ok env cx inputs aborted [] st0"
    by (simp add: phase_ok_def st0_def slot_id_def fresh_slot_def life_ok_def legal_def trail_def)
  from phase_all [OF this, of "nonTerminalInputs inputs"]
  have p: "phase_ok env cx inputs aborted (nonTerminalInputs inputs) st1"
    using nt indexed_nth [OF ix] nonTerminal_subset by (simp add: st1_def)
  have sub: "subseq (ex_toInvoke st1) (nonTerminalInputs inputs)" using p by (simp add: phase_ok_def)
  then have toset: "set (ex_toInvoke st1) \<subseteq> set (nonTerminalInputs inputs)" by (rule subseq_members)
  have tosorted: "sorted_wrt (<) (map bi_index (ex_toInvoke st1))"
    using subseq_sorted [OF subseq_map [OF sub] nt(2)] .
  have trail2: "trail st2 = trail st1" by (rule ext) (simp add: trail_def st2_def)
  have threads: "thread_ok env cx inputs st2 th" if "th \<in> set (ex_threads st2)" for th
  proof -
    obtain c calls where c: "(c, calls) \<in> set (planBatch (ex_toInvoke st1))" "th = start_thread (c, calls)"
      using \<open>th \<in> set (ex_threads st2)\<close> by (auto simp: st2_def)
    note pb = plan_batch_groups [OF c(1)]
    have "sorted_wrt (<) (map bi_index calls)"
      unfolding pb(1) by (rule subseq_sorted [OF subseq_map [OF subseq_filter_left] tosorted])
    moreover have "trail st2 (bi_index inp) = [] \<and> admitted env cx inp" if "inp \<in> set (ex_toInvoke st1)" for inp
      using p that by (simp add: phase_ok_def trail2)
    moreover have "EvInvoked i \<notin> set (ex_events st2)" for i using p by (simp add: phase_ok_def st2_def)
    ultimately show ?thesis using toset unfolding pb(1) c(2)
      by (auto simp: thread_ok_def start_thread_def denial_ok_def)
  qed
  have full: "in_full st2 inputs" if na: "\<not> aborted"
  proof -
    have "\<exists>th \<in> set (ex_threads st2). pending_in th inp" if i: "inp \<in> set (ex_toInvoke st1)" for inp
    proof -
      obtain calls where c: "(bi_class inp, calls) \<in> set (planBatch (ex_toInvoke st1))" "inp \<in> set calls"
        using plan_batch_member [OF i] by blast
      then have "start_thread (bi_class inp, calls) \<in> set (ex_threads st2)" by (auto simp: st2_def)
      then show ?thesis using c(2) by (force simp: pending_in_def start_thread_def)
    qed
    then show ?thesis using p na by (auto simp: in_full_def phase_ok_def answered_def st2_def)
  qed
  have "distinct (map gt_class (ex_threads st2))"
    using plan_batch_classes [of "ex_toInvoke st1"] by (simp add: st2_def start_thread_def comp_def)
  moreover have "trail st1 (bi_index t) = []" if "tail_terminal inputs = Some t" for t
  proof -
    have "bi_index t \<notin> bi_index ` set (nonTerminalInputs inputs)" using terminal_apart(1) [OF ix that] by force
    then show ?thesis using p by (simp add: phase_ok_def)
  qed
  ultimately show ?thesis unfolding s
    using p threads full trail2
    by (auto simp: batch_ok_def batch_core_def phase_ok_def st2_def life_ok_def pc_ok_def terminal_last_def)
qed

lemma batch_reach_ok:
  assumes "exec_reach env cx (startBatch env cx inputs tracker fusion aborted) st" and "indexed inputs"
  shows "batch_ok env cx inputs st"
  using assms by (induction rule: exec_reach.induct) (auto intro: start_ok op_step_ok)

end
