(* ===== verification/Batch_Termination.thy ===== *)
theory Batch_Termination
  imports Batch_Reach
begin

text \<open>
  Every run of a batch is finite, with an explicit bound, and a batch that has not returned can move.
\<close>

section \<open>Every run ends\<close>

definition thread_work :: "group_thread \<Rightarrow> nat" where
  "thread_work th = 2 * (length (gt_calls th) - gt_next th) + length (gt_running th)"

definition batch_work :: "exec_state \<Rightarrow> nat" where
  "batch_work st = (if ex_aborted st then 0 else 1) + sum_list (map thread_work (ex_threads st)) +
     (case ex_pc st of Joining \<Rightarrow> 2 | TerminalRunning _ \<Rightarrow> 1 | BatchReturned _ _ \<Rightarrow> 0)"

lemma thread_progress:
  assumes "g < length (ex_threads st)" and "thread_work th' < thread_work (ex_threads st ! g)"
    and "ex_threads stm = ex_threads st" and "ex_aborted stm = ex_aborted st" and "ex_pc stm = ex_pc st"
  shows "batch_work (set_thread g th' stm) < batch_work st"
proof -
  let ?ws = "map thread_work (ex_threads st)"
  have "?ws ! g \<le> sum_list ?ws" using assms(1) by (intro elem_le_sum_list) simp
  then have "sum_list (?ws[g := thread_work th']) < sum_list ?ws"
    using assms(1,2) by (simp add: sum_list_update)
  then show ?thesis using assms(3-5) by (simp add: batch_work_def map_update)
qed

lemma begin_wave_fields:
  "begin_wave env cx inps st = (st', running) \<Longrightarrow>
     ex_threads st' = ex_threads st \<and> ex_aborted st' = ex_aborted st \<and> ex_pc st' = ex_pc st \<and> length running \<le> length inps"
proof (induction inps arbitrary: st st' running)
  case (Cons inp inps)
  obtain st2 run2 where w: "begin_wave env cx inps (fst (begin_call env cx inp st)) = (st2, run2)" by fastforce
  have "frame_on {bi_index inp} st (fst (begin_call env cx inp st))" by (rule frame_begin)
  then show ?case using Cons.IH [OF w] Cons.prems w
    by (auto simp: Let_def case_prod_beta frame_on_def split: if_splits)
qed simp

lemma begin_call_fields:
  "begin_call env cx inp st = (st', b) \<Longrightarrow> ex_threads st' = ex_threads st \<and> ex_aborted st' = ex_aborted st \<and> ex_pc st' = ex_pc st"
  using frame_begin [of inp st env cx] by (simp add: frame_on_def)

lemma denied_update_work [simp]: "thread_work (denied_update inp st th) = thread_work th"
  by (simp add: denied_update_def thread_work_def)

lemma run_group_progress:
  assumes "op_enabled (OpRun g) st" and "cx_maxWaveSize cx \<noteq> Some 0"
  shows "batch_work (run_group env cx g st) < batch_work st"
proof -
  define th where "th = ex_threads st ! g"
  have g: "g < length (ex_threads st)" and idle: "gt_running th = []" and m: "gt_next th < length (gt_calls th)"
    using assms(1) by (simp_all add: th_def Let_def)
  show ?thesis
  proof (cases "isParallelWithinGroup (gt_class th)")
    case True
    define w where "w = (case cx_maxWaveSize cx of None \<Rightarrow> length (gt_calls th) | Some w \<Rightarrow> w)"
    obtain stm running where wave: "begin_wave env cx (take w (drop (gt_next th) (gt_calls th))) st = (stm, running)" by fastforce
    note f = begin_wave_fields [OF wave]
    have "0 < w" using assms(2) m by (auto simp: w_def split: option.splits)
    then have "length (gt_calls th) - (gt_next th + w) < length (gt_calls th) - gt_next th" using m by arith
    moreover have "length (gt_calls th) - (gt_next th + w) + length running \<le> length (gt_calls th) - gt_next th"
      using f m by (simp, arith)
    ultimately have "thread_work (th\<lparr>gt_next := gt_next th + w, gt_running := running\<rparr>) < thread_work th"
      using idle by (simp add: thread_work_def)
    moreover have "run_group env cx g st = set_thread g (th\<lparr>gt_next := gt_next th + w, gt_running := running\<rparr>) stm"
      using True wave by (simp add: run_group_def run_wave_def Let_def th_def [symmetric] w_def [symmetric])
    ultimately show ?thesis using thread_progress [OF g] f by (simp add: th_def)
  next
    case False
    have step: "thread_work (th\<lparr>gt_next := Suc (gt_next th)\<rparr>) < thread_work th"
      "thread_work (th\<lparr>gt_next := Suc (gt_next th), gt_running := [inp]\<rparr>) < thread_work th" for inp
      using m idle by (simp_all add: thread_work_def)
    show ?thesis
      using False step begin_call_fields [of env cx "gt_calls th ! gt_next th" st]
      by (auto simp: run_group_def run_serial_def Let_def th_def [symmetric] split: option.split prod.split bool.split
          intro!: thread_progress [OF g, folded th_def])
  qed
qed

lemma settle_progress:
  assumes "op_enabled (OpSettle g inp outcome) st"
  shows "batch_work (settle_group env cx g inp outcome st) < batch_work st"
proof -
  define th where "th = ex_threads st ! g"
  have g: "g < length (ex_threads st)" and run: "inp \<in> set (gt_running th)" using assms by (simp_all add: th_def)
  have "0 < length (gt_running th)" using run by (cases "gt_running th") simp_all
  then have "thread_work (th\<lparr>gt_running := remove1 inp (gt_running th)\<rparr>) < thread_work th"
    "thread_work (th\<lparr>gt_running := remove1 inp (gt_running th), gt_rejected := True\<rparr>) < thread_work th"
    using run by (simp_all add: thread_work_def length_remove1)
  then show ?thesis
    by (auto simp: settle_group_def Let_def th_def [symmetric] split: option.split intro!: thread_progress [OF g, folded th_def])
qed

lemma op_progress:
  assumes "op_enabled op st" and "cx_maxWaveSize cx \<noteq> Some 0"
  shows "batch_work (op_step env cx op st) < batch_work st"
proof (cases op)
  case OpAbort
  then show ?thesis using assms by (simp add: batch_work_def)
next
  case (OpRun g)
  then show ?thesis using run_group_progress assms by simp
next
  case (OpSettle g inp outcome)
  then show ?thesis using settle_progress assms by simp
next
  case OpJoin
  have "ex_threads (fst (begin_call env cx t st)) = ex_threads st \<and> ex_aborted (fst (begin_call env cx t st)) = ex_aborted st" for t
    using frame_begin [of t st env cx] by (simp add: frame_on_def)
  then show ?thesis using OpJoin assms(1)
    by (auto simp: batch_work_def join_groups_def return_batch_def Let_def split: option.split) 
next
  case (OpSettleTerminal outcome)
  then show ?thesis using assms(1)
    by (auto simp: batch_work_def settle_terminal_def return_batch_def Let_def split: main_pc.splits option.split)
qed

lemma run_ops_work:
  "run_ops env cx ops st = Some st' \<Longrightarrow> cx_maxWaveSize cx \<noteq> Some 0 \<Longrightarrow> length ops + batch_work st' \<le> batch_work st"
proof (induction ops arbitrary: st)
  case (Cons op ops)
  then have en: "op_enabled op st" "run_ops env cx ops (op_step env cx op st) = Some st'" by (auto split: if_splits)
  then show ?case using Cons.IH [OF en(2) Cons.prems(2)] op_progress [OF en(1) Cons.prems(2), of env] by simp
qed simp

lemma step_possible:
  assumes "batch_core env cx inputs st" and "\<And>slots c. ex_pc st \<noteq> BatchReturned slots c"
  shows "\<exists>op. op \<noteq> OpAbort \<and> op_enabled op st"
proof (cases "ex_pc st")
  case Joining
  show ?thesis
  proof (cases "op_enabled OpJoin st")
    case True
    then show ?thesis by blast
  next
    case False
    then obtain th where th: "th \<in> set (ex_threads st)" "\<not> thread_done th" "\<not> gt_rejected th"
      using Joining by (auto simp: list_all_iff list_ex_iff)
    then obtain g where g: "g < length (ex_threads st)" "th = ex_threads st ! g" by (metis in_set_conv_nth)
    show ?thesis
    proof (cases "gt_running th")
      case Nil
      then have "op_enabled (OpRun g) st" using th g by (auto simp: thread_done_def)
      then show ?thesis by blast
    next
      case (Cons inp rest)
      then have "op_enabled (OpSettle g inp outcome) st" for outcome using g by simp
      then show ?thesis by blast
    qed
  qed
next
  case (TerminalRunning t)
  then have "op_enabled (OpSettleTerminal outcome) st" for outcome by simp
  then show ?thesis by blast
qed (use assms(2) in blast)

lemma plan_lengths: "sum_list (map (\<lambda>(c, l). length l) (fold plan_step inputs m)) = length inputs + sum_list (map (\<lambda>(c, l). length l) m)"
proof (induction inputs arbitrary: m)
  case (Cons inp inputs)
  have "sum_list (map (\<lambda>(c, l). length l) (jm_set k (orElse (jm_get m k) [] @ [inp]) m)) =
      Suc (sum_list (map (\<lambda>(c, l). length l) m))" for k
    by (induction m) (auto simp: jm_get_Cons orElse_def)
  then show ?case using Cons by (simp add: plan_step_def)
qed simp

lemma start_work: "batch_work (startBatch env cx inputs tracker fusion aborted) \<le> 2 * length inputs + 3"
proof -
  define st0 where "st0 = \<lparr>ex_slots = map fresh_slot inputs, ex_tracker = tracker, ex_signals = [], ex_fusion = fusion,
    ex_aborted = aborted, ex_toInvoke = [], ex_threads = [], ex_terminal = tail_terminal inputs,
    ex_events = [], ex_pc = (if inputs = [] then BatchReturned [] False else Joining)\<rparr>"
  define st1 where "st1 = fold (phase_one_call env cx) (nonTerminalInputs inputs) st0"
  have one: "length (ex_toInvoke (phase_one_call env cx inp st)) \<le> Suc (length (ex_toInvoke st)) \<and>
      ex_aborted (phase_one_call env cx inp st) = ex_aborted st \<and> ex_pc (phase_one_call env cx inp st) = ex_pc st" for inp st
    by (simp add: phase_one_call_def Let_def split: prod.split option.split)
  have "length (ex_toInvoke (fold (phase_one_call env cx) l st)) \<le> length (ex_toInvoke st) + length l \<and>
      ex_aborted (fold (phase_one_call env cx) l st) = ex_aborted st \<and> ex_pc (fold (phase_one_call env cx) l st) = ex_pc st" for l st
  proof (induction l arbitrary: st)
    case (Cons a l)
    show ?case using one [of a st] Cons.IH [where st = "phase_one_call env cx a st"] by simp
  qed simp
  from this [of "nonTerminalInputs inputs" st0]
  have "length (ex_toInvoke st1) \<le> length inputs" "ex_pc st1 = ex_pc st0"
    by (auto simp: st1_def st0_def nonTerminalInputs_def split: if_splits)
  moreover have "sum_list (map thread_work (map start_thread gs)) = 2 * sum_list (map (\<lambda>(c, l). length l) gs)" for gs
    by (induction gs) (auto simp: thread_work_def start_thread_def)
  ultimately show ?thesis using plan_lengths [of "ex_toInvoke st1" "[]"]
    by (simp add: startBatch_def Let_def st0_def [symmetric] st1_def [symmetric] batch_work_def planBatch_def split: main_pc.split)
qed

end
