(* ===== verification/Batch_Tracker.thy ===== *)
theory Batch_Tracker
  imports Batch_Termination Loop_Invariant
begin

text \<open>
  The executor changes the loop tracker only through the tracker's public operations, in any interleaving,
  so the tracker stays one its own theory knows (\<open>tracker_reach\<close>).
\<close>

section \<open>The batch uses the tracker by its operations only\<close>

definition book_ok :: "batch_env \<Rightarrow> tracker option \<Rightarrow> bool" where
  "book_ok env tr \<longleftrightarrow> (\<forall>t. tr = Some t \<longrightarrow> tracker_reach (be_cfg env) (be_sha env) t)"

lemma book_step: "tracker_reach cfg sha t \<Longrightarrow> tracker_step cfg sha t t' \<Longrightarrow> tracker_reach cfg sha t'"
  by (rule tracker_reach.more)

lemma test_gate_book:
  "tracker_reach (be_cfg env) (be_sha env) t \<Longrightarrow> tracker_reach (be_cfg env) (be_sha env) (fst (test_repeat_gate env cx call (t, sg)))"
  by (auto simp: test_repeat_gate_def Let_def split: option.split intro: book_step tracker_step.test)

lemma loop_gate_book:
  assumes "book_ok env tr"
  shows "book_ok env (fst (fst (runSyncLoopGate env cx inp (tr, sg))))"
proof (cases "tr = None \<or> bi_class inp = Terminal")
  case True
  then show ?thesis using assms by (auto simp: runSyncLoopGate_def book_ok_def split: option.split)
next
  case False
  then obtain t where t: "tr = Some t" "bi_class inp \<noteq> Terminal" by auto
  let ?cfg = "be_cfg env" and ?sha = "be_sha env" and ?tool = "tc_tool (bi_call inp)" and ?args = "tc_args (bi_call inp)"
  define t1 where "t1 = noteStep (cx_stepIndex cx) t"
  define t2 where "t2 = fst (wanderingStop ?cfg ?sha ?tool ?args t1)"
  define t3 where "t3 = fst (check ?cfg ?sha ?tool ?args t2)"
  define t4 where "t4 = recordCall ?cfg ?sha ?tool ?args t3"
  have "tracker_reach ?cfg ?sha t" using assms t by (simp add: book_ok_def)
  then have "tracker_reach ?cfg ?sha t1" unfolding t1_def by (rule book_step [OF _ tracker_step.step])
  then have "tracker_reach ?cfg ?sha t2" unfolding t2_def by (rule book_step [OF _ tracker_step.wander])
  then have "tracker_reach ?cfg ?sha t3" unfolding t3_def by (rule book_step [OF _ tracker_step.check])
  then have r4: "tracker_reach ?cfg ?sha t4" unfolding t4_def by (rule book_step [OF _ tracker_step.call])
  have "tracker_reach ?cfg ?sha (fst (recordOutcome ?cfg ?sha ?tool ?args r t4))" for r
    by (rule book_step [OF r4 tracker_step.outcome])
  moreover have "tracker_reach ?cfg ?sha (fst (test_repeat_gate env cx (bi_call inp) (t4, s)))" for s
    by (rule test_gate_book [OF r4])
  ultimately show ?thesis
    unfolding t4_def t3_def t2_def t1_def
    by (simp add: t runSyncLoopGate_def Let_def case_prod_beta book_ok_def)
qed

lemma gate_call_book: "book_ok env tr \<Longrightarrow> book_ok env (fst (fst (gate_call env cx fusion inp (tr, sg))))"
  using loop_gate_book [of env tr cx inp sg]
  by (auto simp: gate_call_def book_ok_def split: option.split prod.split intro: book_step tracker_step.outcome)

lemma phase_one_book: "book_ok env (ex_tracker st) \<Longrightarrow> book_ok env (ex_tracker (phase_one_call env cx inp st))"
  using gate_call_book [of env "ex_tracker st" cx "ex_fusion st" inp "ex_signals st"]
  by (auto simp: phase_one_call_def Let_def cancel_slot_def answer_unrun_def fill_slot_def emit_def split: option.split prod.split)

lemma outcome_book:
  "recordOutcome cfg sha tool args r t = (t', oc) \<Longrightarrow> tracker_reach cfg sha t \<Longrightarrow> tracker_reach cfg sha t'"
  using book_step [OF _ tracker_step.outcome, of cfg sha t tool args r] by simp

lemma observe_book: "book_ok env (ex_tracker st) \<Longrightarrow> book_ok env (ex_tracker (observe_outcome env inp r st))"
  by (auto simp: observe_outcome_def observeReadCoverage_def Let_def book_ok_def split: option.split prod.split
      intro: book_step [OF outcome_book tracker_step.read] outcome_book)

lemma start_book: "book_ok env tracker \<Longrightarrow> book_ok env (ex_tracker (startBatch env cx inputs tracker fusion aborted))"
proof -
  assume b: "book_ok env tracker"
  have "book_ok env (ex_tracker st) \<Longrightarrow> book_ok env (ex_tracker (fold (phase_one_call env cx) l st))" for l st
    by (induction l arbitrary: st) (auto intro: phase_one_book)
  then show ?thesis using b by (simp add: startBatch_def Let_def)
qed

lemma tracker_fields [simp]:
  "ex_tracker (emit es st) = ex_tracker st" "ex_tracker (cancel_slot i st) = ex_tracker st"
  "ex_tracker (fill_slot i r a st) = ex_tracker st" "ex_tracker (answer_unrun i r st) = ex_tracker st"
  "ex_tracker (set_thread g th st) = ex_tracker st" "ex_tracker (return_batch c st) = ex_tracker st"
  by (simp_all add: emit_def cancel_slot_def fill_slot_def answer_unrun_def set_thread_def return_batch_def Let_def)

lemma complete_book: "book_ok env (ex_tracker st) \<Longrightarrow> book_ok env (ex_tracker (complete_call env cx inp r a st))"
  by (auto simp: complete_call_def Let_def intro: observe_book)

lemma begin_book: "book_ok env (ex_tracker st) \<Longrightarrow> book_ok env (ex_tracker (fst (begin_call env cx inp st)))"
  by (auto simp: begin_call_def Let_def split: option.split intro: complete_book)

lemma wave_book: "book_ok env (ex_tracker st) \<Longrightarrow> book_ok env (ex_tracker (fst (begin_wave env cx inps st)))"
proof (induction inps arbitrary: st)
  case (Cons inp inps)
  then show ?case using begin_book [of env st cx inp] by (simp add: Let_def case_prod_beta)
qed simp

lemma op_book: "book_ok env (ex_tracker st) \<Longrightarrow> book_ok env (ex_tracker (op_step env cx op st))"
proof (cases op)
  case (OpRun g)
  assume b: "book_ok env (ex_tracker st)"
  show ?thesis
    using OpRun b wave_book [OF b] begin_book [OF b, of cx "gt_calls (ex_threads st ! g) ! gt_next (ex_threads st ! g)"]
    by (simp add: run_group_def run_wave_def run_serial_def Let_def case_prod_beta split: option.split bool.split)
next
  case (OpSettle g inp outcome)
  assume "book_ok env (ex_tracker st)"
  then show ?thesis using OpSettle by (auto simp: settle_group_def Let_def split: option.split intro: complete_book)
next
  case OpJoin
  assume b: "book_ok env (ex_tracker st)"
  then show ?thesis using OpJoin begin_book [OF b] by (auto simp: join_groups_def Let_def split: option.split)
next
  case (OpSettleTerminal outcome)
  assume "book_ok env (ex_tracker st)"
  then show ?thesis using OpSettleTerminal
    by (auto simp: settle_terminal_def split: option.split main_pc.split intro: complete_book)
qed simp

lemma batch_book:
  "exec_reach env cx (startBatch env cx inputs tracker fusion aborted) st \<Longrightarrow> book_ok env tracker \<Longrightarrow> book_ok env (ex_tracker st)"
  by (induction rule: exec_reach.induct) (auto intro: start_book op_book)
end
