(* ===== verification/Batch_Samples.thy ===== *)
theory Batch_Samples
  imports Batch_Tracker
begin

text \<open>
  The concrete batches the witnesses of the dispatch properties run, and what \<open>toBatchInputs\<close> gives.
\<close>

section \<open>Sample batches\<close>

definition sample_options :: loop_options where
  "sample_options = \<lparr>lo_warningThreshold = None, lo_criticalThreshold = None,
     lo_breakerVetoStreak = None, lo_historySize = None, lo_warningBucketSize = None,
     lo_wanderingThreshold = None, lo_wanderingEscalation = None\<rparr>"

definition batch_env_of :: "tool_registry \<Rightarrow> batch_env" where
  "batch_env_of registry = \<lparr>be_cfg = mk_loop_config sample_options, be_sha = (\<lambda>s. s), be_hostname = (\<lambda>u. None),
     be_shell = \<lparr>se_resolveUserPath = (\<lambda>p wd. Some p), se_parseJson = (\<lambda>s. None)\<rparr>,
     be_fingerprintWorkspace = (\<lambda>d. None), be_findUnknownArguments = (\<lambda>tool args. None),
     be_describeArgumentError = (\<lambda>tool args message. None), be_registry = registry\<rparr>"

definition small_registry :: tool_registry where
  "small_registry = [(''os.fs.read'', True), (''memory.notes.store'', False), (''reply'', True)]"

definition plain_context :: batch_context where
  "plain_context = \<lparr>cx_workingDir = ''/w'', cx_stepIndex = 0, cx_terminalOnly = False, cx_toolSet = None,
     cx_isPlanMode = False, cx_isFusionOrchestrator = False, cx_loadedSkillNames = None,
     cx_assertAvailable = None, cx_maxWaveSize = Some 1\<rparr>"

definition call_of :: "string \<Rightarrow> tool_call" where
  "call_of tool = \<lparr>tc_tool = tool, tc_args = JObj []\<rparr>"

definition ok_result :: "string \<Rightarrow> compressed_result" where
  "ok_result tool = \<lparr>cr_tool = tool, cr_status = StOk, cr_summary = ''ok'', cr_details = [], cr_truncated = False\<rparr>"

definition sample_batch :: "batch_context \<Rightarrow> tool_call list \<Rightarrow> exec_state" where
  "sample_batch cx calls = startBatch (batch_env_of small_registry) cx (toBatchInputs None calls) None emptyFusionOrchestratorState False"

definition sample_run :: "batch_context \<Rightarrow> tool_call list \<Rightarrow> exec_op list \<Rightarrow> exec_state" where
  "sample_run cx calls ops =
     (case run_ops (batch_env_of small_registry) cx ops (sample_batch cx calls) of Some st \<Rightarrow> st | None \<Rightarrow> sample_batch cx calls)"

lemma sample_reach:
  "exec_reach (batch_env_of small_registry) cx
     (startBatch (batch_env_of small_registry) cx (toBatchInputs None calls) None emptyFusionOrchestratorState False) (sample_run cx calls ops)"
  unfolding sample_run_def sample_batch_def
  by (auto split: option.split intro: Begin run_ops_reach [OF _ Begin])

definition input_of :: "class_resolver option \<Rightarrow> tool_call list \<Rightarrow> nat \<Rightarrow> batch_call_input" where
  "input_of resolver calls i = toBatchInputs resolver calls ! i"

lemma to_inputs: "i < length calls \<Longrightarrow> toBatchInputs resolver calls ! i =
    \<lparr>bi_index = i, bi_call = calls ! i, bi_class = resourceClassFor resolver (tc_tool (calls ! i))\<rparr>"
  by (simp add: toBatchInputs_def nth_enumerate_eq)

lemma to_inputs_length [simp]: "length (toBatchInputs resolver calls) = length calls"
  by (simp add: toBatchInputs_def)

lemma to_inputs_indexed: "indexed (toBatchInputs resolver calls)"
  unfolding indexed_def by (rule nth_equalityI) (simp_all add: to_inputs)

end
