(* ===== verification/Dispatch_Properties.thy ===== *)
theory Dispatch_Properties
  imports Batch_Samples
begin

text \<open>
  The properties of the dispatch of a batch (\<open>src/src/agent/dispatch\<close>) and of the policies it applies.
\<close>

lemma invoked_origin:
  assumes "batch_ok env cx (toBatchInputs resolver calls) st" and "EvInvoked i \<in> set (ex_events st)"
  shows "i < length calls"
    and "(\<exists>th \<in> set (ex_threads st). toBatchInputs resolver calls ! i \<in> set (gt_calls th)) \<or>
      tail_terminal (toBatchInputs resolver calls) = Some (toBatchInputs resolver calls ! i)"
proof -
  let ?ins = "toBatchInputs resolver calls"
  have "(\<exists>th \<in> set (ex_threads st). \<exists>inp \<in> set (gt_calls th). bi_index inp = i) \<or> (\<exists>t. tail_terminal ?ins = Some t \<and> bi_index t = i)"
    using assms by (simp add: batch_ok_def batch_core_def)
  moreover have "inp \<in> set ?ins" if "th \<in> set (ex_threads st)" "inp \<in> set (gt_calls th)" for th inp
  proof -
    have "thread_ok env cx ?ins st th" using assms(1) that(1) by (simp add: batch_ok_def batch_core_def)
    then show ?thesis using that(2) nonTerminal_subset by (simp add: thread_ok_def)
  qed
  ultimately obtain inp where "inp \<in> set ?ins" "bi_index inp = i"
    and o: "(\<exists>th \<in> set (ex_threads st). inp \<in> set (gt_calls th)) \<or> tail_terminal ?ins = Some inp"
    using tail_member by blast
  then have i: "i < length ?ins" "?ins ! i = inp" using indexed_nth [OF to_inputs_indexed] by blast+
  then show "i < length calls" by simp
  show "(\<exists>th \<in> set (ex_threads st). ?ins ! i \<in> set (gt_calls th)) \<or> tail_terminal ?ins = Some (?ins ! i)" using o i by simp
qed

text \<open>C16: whatever the interleaving, a call that reaches the registry is one the step's mode admits.\<close>

theorem modes_restrict_every_run:
  assumes "exec_reach env cx (startBatch env cx (toBatchInputs resolver calls) tracker fusion aborted) st"
    and "EvInvoked i \<in> set (ex_events st)" and "tool = tc_tool (calls ! i)"
    and "resourceClassFor resolver tool \<noteq> Terminal" and "tool \<notin> set TERMINAL_TOOLS"
  shows "i < length calls \<and> jm_has (be_registry env) tool \<and> \<not> cx_terminalOnly cx \<and>
    (\<forall>ts. cx_toolSet cx = Some ts \<longrightarrow> tool \<in> set (ts_names ts)) \<and>
    (cx_isPlanMode cx \<longrightarrow> registry_readonly (be_registry env) tool) \<and>
    (cx_isFusionOrchestrator cx \<longrightarrow> tool = DELEGATE_TOOL \<or>
       registry_readonly (be_registry env) tool \<and> \<not> js_starts_with MCP_TOOL_PREFIX tool)"
proof -
  let ?ins = "toBatchInputs resolver calls"
  have ok: "batch_ok env cx ?ins st" by (rule batch_reach_ok [OF assms(1) to_inputs_indexed])
  note o = invoked_origin [OF ok assms(2)]
  have inp: "bi_class (?ins ! i) = resourceClassFor resolver tool" "tc_tool (bi_call (?ins ! i)) = tool"
    using to_inputs [OF o(1)] assms(3) by simp_all
  have "tail_terminal ?ins \<noteq> Some (?ins ! i)" using inp(1) assms(4) by (auto simp: tail_terminal_def split: if_splits)
  then obtain th where "th \<in> set (ex_threads st)" "?ins ! i \<in> set (gt_calls th)" using o(2) by blast
  then have ad: "admitted env cx (?ins ! i)" using ok by (auto simp: batch_ok_def batch_core_def thread_ok_def)
  then have reg: "jm_has (be_registry env) tool" by (simp add: admitted_def inp)
  have "\<not> cx_terminalOnly cx \<and> (\<forall>ts. cx_toolSet cx = Some ts \<longrightarrow> tool \<in> set (ts_names ts))"
    using ad final_gate_passes [of cx "?ins ! i"] assms(4) inp by (simp add: admitted_def)
  moreover have "cx_isPlanMode cx \<Longrightarrow> registry_readonly (be_registry env) tool"
    using ad plan_passes [OF _ reg assms(5)] by (simp add: admitted_def runPlanModeGate_def inp)
  moreover have "cx_isFusionOrchestrator cx \<Longrightarrow> tool = DELEGATE_TOOL \<or>
       registry_readonly (be_registry env) tool \<and> \<not> js_starts_with MCP_TOOL_PREFIX tool"
    using ad fusion_passes [OF _ reg assms(5)] by (auto simp: admitted_def runFusionOrchestratorGate_def inp)
  ultimately show ?thesis using o(1) reg by blast
qed

theorem modes_restrict_every_run_witness:
  "registry_readonly small_registry ''os.fs.read''"
proof -
  let ?cx = "plain_context\<lparr>cx_isPlanMode := True\<rparr>" and ?calls = "[call_of ''memory.notes.store'', call_of ''os.fs.read'']"
  have "EvInvoked 1 \<in> set (ex_events (sample_run ?cx ?calls [OpRun 0]))" by code_simp
  moreover have "resourceClassFor None ''os.fs.read'' \<noteq> Terminal" "''os.fs.read'' \<notin> set TERMINAL_TOOLS" by code_simp+
  moreover have "tc_tool (?calls ! 1) = ''os.fs.read''" by (simp add: call_of_def)
  ultimately show ?thesis
    using modes_restrict_every_run [OF sample_reach [of ?cx ?calls "[OpRun 0]"], of 1 "''os.fs.read''"]
    by (simp add: batch_env_of_def)
qed

text \<open>C17: no call is run twice, none is answered twice with different results, and an answer is in the
  call's slot.\<close>

theorem each_call_runs_at_most_once:
  assumes "exec_reach env cx (startBatch env cx (toBatchInputs resolver calls) tracker fusion aborted) st"
  shows "length (filter (\<lambda>e. e = EvInvoked i) (ex_events st)) \<le> 1 \<and>
    (\<forall>r. EvFinished i r \<in> set (ex_events st) \<longrightarrow> i < length calls \<and> sl_compressed (ex_slots st ! i) = Some r)"
proof -
  let ?ins = "toBatchInputs resolver calls"
  have ok: "batch_ok env cx ?ins st" by (rule batch_reach_ok [OF assms to_inputs_indexed])
  then have life: "life_ok st i" and len: "length (ex_slots st) = length calls"
    using core_length [of env cx ?ins st] by (simp_all add: batch_ok_def batch_core_def)
  have "i < length calls \<and> sl_compressed (ex_slots st ! i) = Some r" if "EvFinished i r \<in> set (ex_events st)" for r
    using that life len trail_set [of "EvFinished i r" st i] by (auto simp: life_ok_def legal_def split: if_splits)
  then show ?thesis using invoked_once [OF life] by blast
qed

theorem each_call_runs_at_most_once_witness:
  "length (filter (\<lambda>e. e = EvInvoked 0) (ex_events (sample_run plain_context [call_of ''os.fs.read''] [OpRun 0]))) \<le> 1"
  using each_call_runs_at_most_once [OF sample_reach [of plain_context "[call_of ''os.fs.read'']" "[OpRun 0]"], of 0] by blast

text \<open>C18: when a call that ran was not approved, no later call of its serialised group runs.\<close>

theorem denied_call_stops_its_group:
  assumes "exec_reach env cx (startBatch env cx (toBatchInputs resolver calls) tracker fusion aborted) st"
    and "EvInvoked i \<in> set (ex_events st)" and "slot_not_approved st i" and "i < j" and "j < length calls"
    and "resourceClassFor resolver (tc_tool (calls ! j)) = resourceClassFor resolver (tc_tool (calls ! i))"
    and "\<not> isParallelWithinGroup (resourceClassFor resolver (tc_tool (calls ! i)))"
    and "resourceClassFor resolver (tc_tool (calls ! i)) \<noteq> Terminal"
  shows "EvInvoked j \<notin> set (ex_events st)"
proof
  let ?ins = "toBatchInputs resolver calls"
  assume jinv: "EvInvoked j \<in> set (ex_events st)"
  have ok: "batch_ok env cx ?ins st" by (rule batch_reach_ok [OF assms(1) to_inputs_indexed])
  have il: "i < length calls" using assms(4,5) by simp
  note ni = to_inputs [OF il, of resolver] and nj = to_inputs [OF assms(5), of resolver]
  have "tail_terminal ?ins \<noteq> Some (?ins ! i)" "tail_terminal ?ins \<noteq> Some (?ins ! j)"
    using ni nj assms(6,8) by (auto simp: tail_terminal_def split: if_splits)
  then obtain th th2 where th: "th \<in> set (ex_threads st)" "?ins ! i \<in> set (gt_calls th)"
    and th2: "th2 \<in> set (ex_threads st)" "?ins ! j \<in> set (gt_calls th2)"
    using invoked_origin(2) [OF ok assms(2)] invoked_origin(2) [OF ok jinv] by blast
  have tok: "thread_ok env cx ?ins st th" "thread_ok env cx ?ins st th2"
    using ok th(1) th2(1) by (simp_all add: batch_ok_def batch_core_def)
  have "bi_class (?ins ! i) = gt_class th" using tok(1) th(2) by (simp add: thread_ok_def)
  moreover have "bi_class (?ins ! j) = gt_class th2" using tok(2) th2(2) by (simp add: thread_ok_def)
  ultimately have cls: "gt_class th = resourceClassFor resolver (tc_tool (calls ! i))" "gt_class th2 = gt_class th"
    using ni nj assms(6) by simp_all
  have "distinct (map gt_class (ex_threads st))" using ok by (simp add: batch_ok_def batch_core_def)
  then have "th2 = th" using cls(2) th(1) th2(1) by (metis distinct_map inj_onD)
  then obtain k k' where k: "k < length (gt_calls th)" "gt_calls th ! k = ?ins ! i"
    and k': "k' < length (gt_calls th)" "gt_calls th ! k' = ?ins ! j"
    using th(2) th2(2) by (metis in_set_conv_nth)
  have sorted: "sorted_wrt (<) (map bi_index (gt_calls th))" using tok(1) by (simp add: thread_ok_def)
  have "k < k'"
  proof (rule ccontr)
    assume "\<not> k < k'"
    then have "bi_index (gt_calls th ! k') \<le> bi_index (gt_calls th ! k)"
      using sorted_wrt_nth_less [OF sorted, of k' k] k(1) by (cases "k = k'") auto
    then show False using k(2) k'(2) ni nj assms(4) by simp
  qed
  moreover have "denial_ok st th" using tok(1) cls(1) assms(7) by (simp add: thread_ok_def)
  moreover have "bi_index (gt_calls th ! k) = i" "bi_index (gt_calls th ! k') = j" using k(2) k'(2) ni nj by simp_all
  ultimately show False using k'(1) assms(3) jinv unfolding denial_ok_def by metis
qed

definition denied_result :: "string \<Rightarrow> compressed_result" where
  "denied_result tool = \<lparr>cr_tool = tool, cr_status = StError, cr_summary = ''denied'',
     cr_details = [(''errorName'', JStr ''ApprovalDeniedError'')], cr_truncated = False\<rparr>"

definition notes_call :: batch_call_input where
  "notes_call = \<lparr>bi_index = 0, bi_call = call_of ''memory.notes.store'', bi_class = MemoryWrite\<rparr>"

definition denied_run :: "exec_state option" where
  "denied_run = run_ops (batch_env_of small_registry) plain_context
     [OpRun 0, OpSettle 0 notes_call (ToolReturned (denied_result ''memory.notes.store'') []), OpRun 0]
     (startBatch (batch_env_of small_registry) plain_context (toBatchInputs None (replicate 2 (call_of ''memory.notes.store'')))
        None emptyFusionOrchestratorState False)"

theorem denied_call_stops_its_group_witness:
  "\<exists>st. denied_run = Some st \<and> EvInvoked 0 \<in> set (ex_events st) \<and> EvInvoked 1 \<notin> set (ex_events st)"
proof -
  have "case denied_run of None \<Rightarrow> False | Some st \<Rightarrow> EvInvoked 0 \<in> set (ex_events st) \<and> slot_not_approved st 0" by code_simp
  then obtain st where st: "denied_run = Some st" "EvInvoked 0 \<in> set (ex_events st)" "slot_not_approved st 0"
    by (auto split: option.splits)
  have cls: "resourceClassFor None ''memory.notes.store'' = MemoryWrite" by code_simp
  have "EvInvoked 1 \<notin> set (ex_events st)"
    by (rule denied_call_stops_its_group [OF run_ops_reach [OF st(1) [unfolded denied_run_def] Begin] st(2,3)])
      (simp_all add: call_of_def cls isParallelWithinGroup_def nth_Cons' numeral_2_eq_2)
  then show ?thesis using st(1,2) by blast
qed

text \<open>A tail terminal runs only after every other call of the batch has been answered.\<close>

theorem terminal_runs_last:
  assumes "exec_reach env cx (startBatch env cx (toBatchInputs resolver calls) tracker fusion aborted) st"
    and "tail_terminal (toBatchInputs resolver calls) = Some t" and "EvInvoked (bi_index t) \<in> set (ex_events st)"
    and "i < length calls" and "i \<noteq> bi_index t"
  shows "\<exists>r. EvFinished i r \<in> set (takeWhile (\<lambda>e. e \<noteq> EvInvoked (bi_index t)) (ex_events st))"
proof -
  let ?ins = "toBatchInputs resolver calls"
  have "batch_ok env cx ?ins st" by (rule batch_reach_ok [OF assms(1) to_inputs_indexed])
  then have "terminal_last ?ins st" by (simp add: batch_ok_def batch_core_def)
  moreover obtain inp where "inp \<in> set (nonTerminalInputs ?ins)" "bi_index inp = i"
    using index_covered [OF to_inputs_indexed, of i resolver calls] assms(2,4,5) by auto
  ultimately show ?thesis using assms(2,3) by (auto simp: terminal_last_def)
qed

definition reply_input :: batch_call_input where
  "reply_input = \<lparr>bi_index = 1, bi_call = call_of ''reply'', bi_class = Terminal\<rparr>"

definition read_input :: batch_call_input where
  "read_input = \<lparr>bi_index = 0, bi_call = call_of ''os.fs.read'', bi_class = PureRead\<rparr>"

definition read_then_reply :: "exec_op list" where
  "read_then_reply = [OpRun 0, OpSettle 0 read_input (ToolReturned (ok_result ''os.fs.read'') []), OpJoin]"

text \<open>C19: a batch that returned answered or cancelled every call, and answered all of them unless it reports
  that it was cancelled.\<close>

theorem returned_batch_is_complete:
  assumes "exec_reach env cx (startBatch env cx (toBatchInputs resolver calls) tracker fusion aborted) st"
    and "ex_pc st = BatchReturned slots cancelled"
  shows "length slots = length calls \<and> (\<forall>s \<in> set slots. sl_compressed s \<noteq> None \<or> sl_cancelled s) \<and>
    (\<not> cancelled \<longrightarrow> (\<forall>s \<in> set slots. sl_compressed s \<noteq> None \<and> \<not> sl_cancelled s))"
proof -
  have pc: "pc_ok (toBatchInputs resolver calls) st" using batch_reach_ok [OF assms(1) to_inputs_indexed] by (simp add: batch_ok_def)
  then have ids: "map slot_id slots = map (\<lambda>inp. (bi_index inp, bi_call inp, bi_class inp)) (toBatchInputs resolver calls)"
    using assms(2) by (simp add: pc_ok_def)
  show ?thesis using pc assms(2) map_eq_imp_length_eq [OF ids] by (simp add: pc_ok_def)
qed

theorem returned_batch_is_complete_witness:
  "\<exists>slots c. ex_pc (sample_run plain_context [call_of ''os.fs.read'', call_of ''reply'']
       (read_then_reply @ [OpSettleTerminal (ToolReturned (ok_result ''reply'') [])])) = BatchReturned slots c \<and>
     length slots = 2 \<and> (\<forall>s \<in> set slots. sl_compressed s \<noteq> None \<or> sl_cancelled s)"
proof -
  let ?st = "sample_run plain_context [call_of ''os.fs.read'', call_of ''reply'']
       (read_then_reply @ [OpSettleTerminal (ToolReturned (ok_result ''reply'') [])])"
  have "case ex_pc ?st of BatchReturned slots c \<Rightarrow> True | _ \<Rightarrow> False" by code_simp
  then obtain slots c where e: "ex_pc ?st = BatchReturned slots c" by (auto split: main_pc.splits)
  from returned_batch_is_complete [OF sample_reach e] show ?thesis using e by auto
qed

text \<open>C20: a batch ends. No sequence of moves is longer than two per call and three more, and while the
  batch has not returned some move other than an abort is possible.\<close>

theorem every_batch_ends:
  assumes "run_ops env cx ops (startBatch env cx (toBatchInputs resolver calls) tracker fusion aborted) = Some st"
    and "cx_maxWaveSize cx \<noteq> Some 0"
  shows "length ops \<le> 2 * length calls + 3 \<and>
    ((\<exists>slots c. ex_pc st = BatchReturned slots c) \<or> (\<exists>op. op \<noteq> OpAbort \<and> op_enabled op st))"
proof -
  let ?ins = "toBatchInputs resolver calls"
  have "batch_ok env cx ?ins st" by (rule batch_reach_ok [OF run_ops_reach [OF assms(1) Begin] to_inputs_indexed])
  then have "(\<exists>slots c. ex_pc st = BatchReturned slots c) \<or> (\<exists>op. op \<noteq> OpAbort \<and> op_enabled op st)"
    using step_possible by (metis batch_ok_def)
  moreover have "length ops \<le> 2 * length calls + 3"
    using run_ops_work [OF assms] start_work [of env cx ?ins tracker fusion aborted] by simp
  ultimately show ?thesis by blast
qed

theorem every_batch_ends_witness:
  "length read_then_reply \<le> 2 * length [call_of ''os.fs.read'', call_of ''reply''] + 3"
proof -
  let ?s = "run_ops (batch_env_of small_registry) plain_context read_then_reply
      (startBatch (batch_env_of small_registry) plain_context (toBatchInputs None [call_of ''os.fs.read'', call_of ''reply''])
         None emptyFusionOrchestratorState False)"
  have "case ?s of Some st \<Rightarrow> True | None \<Rightarrow> False" by code_simp
  then obtain st where e: "?s = Some st" by (auto split: option.splits)
  show ?thesis using every_batch_ends [OF e] by (simp add: plain_context_def)
qed

text \<open>In every state of a run the slots are those of the calls as the model emitted them, in order.\<close>

theorem results_line_up_with_calls:
  assumes "exec_reach env cx (startBatch env cx (toBatchInputs resolver calls) tracker fusion aborted) st"
  shows "map (\<lambda>s. (sl_index s, sl_call s, sl_class s)) (ex_slots st) =
    map (\<lambda>i. (i, calls ! i, resourceClassFor resolver (tc_tool (calls ! i)))) [0..<length calls]"
proof -
  have "map slot_id (ex_slots st) = map (\<lambda>inp. (bi_index inp, bi_call inp, bi_class inp)) (toBatchInputs resolver calls)"
    using batch_reach_ok [OF assms to_inputs_indexed] by (simp add: batch_ok_def batch_core_def)
  also have "\<dots> = map (\<lambda>i. (i, calls ! i, resourceClassFor resolver (tc_tool (calls ! i)))) [0..<length calls]"
    by (rule nth_equalityI) (simp_all add: to_inputs)
  finally show ?thesis by (simp add: slot_id_def [abs_def])
qed

text \<open>Whatever the interleaving, the loop tracker is used through its operations, so it keeps its
  invariant to the end of the batch.\<close>

theorem batch_keeps_tracker_invariant:
  assumes "exec_reach env cx (startBatch env cx (toBatchInputs resolver calls) tracker fusion aborted) st"
    and "\<And>t. tracker = Some t \<Longrightarrow> tracker_reach (be_cfg env) (be_sha env) t"
    and "ex_tracker st = Some t"
  shows "tracker_reach (be_cfg env) (be_sha env) t \<and> tracker_ok (be_cfg env) t"
  using batch_book [OF assms(1)] assms(2,3) Loop_Invariant.reach_ok by (auto simp: book_ok_def)

section \<open>Policies and guards\<close>

text \<open>The distance that ranks the suggestions for an unknown tool name is the least number of characters
  inserted, deleted or replaced that turn one name into the other.\<close>

theorem edit_distance_is_least:
  "editDistance a b = (LEAST n. (one_edit ^^ n) a b)"
  by (simp add: editDistance_lev lev_least)

text \<open>The veto's text reaches the model whole: for any tool name that fits, it is not truncated, and it
  ends with the line that says how to leave the loop.\<close>

theorem veto_reaches_model:
  assumes "no_breaks tool" and "length tool + length (show_nat n) \<le> 2000"
  shows "\<not> cr_truncated (veto_result tool n rawTarget det details) \<and>
    (\<exists>pre. cr_summary (veto_result tool n rawTarget det details) = pre @ NEWLINE # VETO_LAST_LINE)"
  by (rule veto_instruction_whole [OF assms])

text \<open>Text from outside is shown to the model with no control marker left in it; cleaning it again
  changes nothing, and only text that has a marker is changed.\<close>

theorem neutralised_text_is_clean:
  "exec_pattern ANYWHERE lineStart i (neutraliseControlMarkers s) = None \<and>
   neutraliseControlMarkers (neutraliseControlMarkers s) = neutraliseControlMarkers s \<and>
   (neutraliseControlMarkers s = s) = (exec_pattern ANYWHERE lineStart i s = None)"
  using neutralised_clean [of s] clean_untouched [of s] clean_untouched [OF neutralised_clean] exec_anywhere by metis

text \<open>The key of a test run can be read back: split at its separators it is the directory, the runner and
  the ordered arguments, so two runs share a key only when these agree.\<close>

theorem test_key_round_trip:
  assumes "classifyTestCommand env tool args wd = Some c"
    and "\<And>parts s. test_identity env args wd = Some parts \<Longrightarrow> s \<in> set parts \<Longrightarrow> NUL \<notin> set s"
  shows "test_identity env args wd = Some (js_split NUL (rc_key c))"
  by (rule key_identity [OF assms])

definition shell_sample :: shell_env where
  "shell_sample = \<lparr>se_resolveUserPath = (\<lambda>p wd. Some (wd @ p)), se_parseJson = (\<lambda>s. None)\<rparr>"

definition pytest_args :: json where
  "pytest_args = JObj [(''cmd'', JStr ''pytest -k auth'')]"

lemma test_key_example:
  "\<exists>c. classifyTestCommand shell_sample ''os.shell.run'' pytest_args ''/w'' = Some c \<and>
     js_split NUL (rc_key c) = [''/w'', ''pytest'', ''-k'', ''auth'']"
proof -
  have i: "test_identity shell_sample pytest_args ''/w'' = Some [''/w'', ''pytest'', ''-k'', ''auth'']" by code_simp
  then obtain c where c: "classifyTestCommand shell_sample ''os.shell.run'' pytest_args ''/w'' = Some c"
    using classified_iff [of shell_sample "''os.shell.run''" pytest_args "''/w''"] by auto
  have "test_identity shell_sample pytest_args ''/w'' = Some (js_split NUL (rc_key c))"
    by (rule test_key_round_trip [OF c]) (use i in \<open>auto simp: NUL_def\<close>)
  then show ?thesis using i c by simp
qed

text \<open>The barren count of a fusion turn is the number of fan-outs, since the last that did anything, in
  which no worker executed a step.\<close>

theorem barren_count_is_last_run:
  "fu_barrenDelegations (fold (\<lambda>r s. recordDelegation s (delegationProducedWork r)) results emptyFusionOrchestratorState) =
     length (takeWhile (\<lambda>r. \<not> delegationProducedWork r) (rev results))"
proof -
  have "fold (\<lambda>r s. recordDelegation s (delegationProducedWork r)) results s =
      fold (\<lambda>w s. recordDelegation s w) (map delegationProducedWork results) s" for s
    by (induction results arbitrary: s) simp_all
  moreover have "length (takeWhile Not (rev (map delegationProducedWork results))) =
      length (takeWhile (\<lambda>r. \<not> delegationProducedWork r) (rev results))"
    by (simp add: rev_map takeWhile_map comp_def)
  moreover have "list_all Not (map delegationProducedWork results) \<Longrightarrow>
      length (takeWhile (\<lambda>r. \<not> delegationProducedWork r) (rev results)) = length results"
    by (simp add: list_all_iff takeWhile_eq_all_conv [THEN iffD2])
  ultimately show ?thesis by (auto simp: barren_run emptyFusionOrchestratorState_def)
qed

text \<open>A gated call the batch policy lets run unattended never parks at the approval gate: with the gate at
  the posture the policy read, a request of any category the tool can ask for settles at once.\<close>

theorem unattended_call_never_waits:
  assumes "gatedCallRunsUnattended resolver tool \<lparr>bp_level = gt_level g,
       bp_grantedCategories = sg_categories (sessionGrants (Some (aq_sessionId r)) g)\<rparr>"
    and "approvalCategoriesFor resolver tool = Some categories" and "aq_category r \<in> set categories"
  shows "\<exists>d. request cwd r aborted ledger g = (g, Settled d) \<and>
    (declinedInTurn cwd r g = None \<longrightarrow> ad_approved d)"
proof -
  have "isAutoApprovedAt (gt_level g) (aq_category r) \<or>
      isGrantableCategory (aq_category r) \<and> aq_category r \<in> set (sg_categories (sessionGrants (Some (aq_sessionId r)) g))"
    using assms by (auto simp: gatedCallRunsUnattended_def list_all_iff split: if_splits)
  then have "autoApproval (aq_sessionId r) (aq_category r) (aq_commandShape r) g \<noteq> None"
    by (auto simp: autoApproval_def sessionGrants_def emptyGrants_def split: option.splits)
  then show ?thesis by (auto simp: request_def Let_def split: option.split)
qed

definition unattended_request :: approval_request where
  "unattended_request = \<lparr>aq_approvalId = ''a1'', aq_sessionId = ''s'', aq_tool = ''os.proc.kill'', aq_category = ProcKill,
     aq_reason = ''r'', aq_preview = None, aq_affectedResources = None, aq_commandShape = None,
     aq_redirectablePath = None, aq_targetPaths = None\<rparr>"

definition open_gate :: gate where
  "open_gate = newGate (Some 5)"

end
