(* ===== verification/Progress_Note.thy ===== *)
theory Progress_Note
  imports Batch_Gates
begin

text \<open>
  \<open>src/src/agent/progress-note-reply.ts\<close>: a \<open>reply\<close> batched with work is taken out of the batch as a
  progress note; batched only with writes to the agent's memory it is moved to the end and closes the
  turn. The delivery of the note to the transcript is left out.
\<close>

definition replyText :: "tool_call \<Rightarrow> string option" where
  "replyText call =
     (case json_field (tc_args call) ''text'' of
        JStr t \<Rightarrow> if js_trim t \<noteq> [] then Some t else None
      | _ \<Rightarrow> None)"

definition progressNoteText :: "tool_call \<Rightarrow> string" where
  "progressNoteText note = (case replyText note of Some t \<Rightarrow> t | None \<Rightarrow> [])"

definition is_reply :: "tool_call \<Rightarrow> bool" where
  "is_reply call = (tc_tool call = ''reply'' \<and> replyText call \<noteq> None)"

definition splitProgressNoteReply ::
  "class_resolver option \<Rightarrow> bool \<Rightarrow> tool_call list \<Rightarrow> (tool_call list \<times> tool_call) option" where
  "splitProgressNoteReply resolver terminalOnly calls =
     (if terminalOnly \<or> length calls < 2 then None
      else (case findIndex is_reply calls of
              None \<Rightarrow> None
            | Some noteIdx \<Rightarrow>
                let rest = drop_nth noteIdx calls
                in if \<not> list_ex (\<lambda>call. resourceClassFor resolver (tc_tool call) \<noteq> Terminal) rest then None
                   else if list_all (\<lambda>call. isBookkeepingTool resolver (tc_tool call)) rest then None
                   else Some (rest, calls ! noteIdx)))"

definition closingReplyBatch :: "class_resolver option \<Rightarrow> bool \<Rightarrow> tool_call list \<Rightarrow> tool_call list option" where
  "closingReplyBatch resolver terminalOnly calls =
     (if terminalOnly \<or> length calls < 2 then None
      else (case findIndex is_reply calls of
              None \<Rightarrow> None
            | Some replyIdx \<Rightarrow>
                let rest = drop_nth replyIdx calls
                in if \<not> list_all (\<lambda>call. isBookkeepingTool resolver (tc_tool call)) rest then None
                   else Some (rest @ [calls ! replyIdx])))"

definition PROGRESS_NOTE_RESULT :: string where
  "PROGRESS_NOTE_RESULT = ''progress note recorded; the turn continues'' @ dash @ ''reply ends the turn only when it is the sole call''"

definition progressNoteResult :: compressed_result where
  "progressNoteResult =
     compressToolResult \<lparr>rt_tool = ''reply'', rt_status = StOk, rt_output = PROGRESS_NOTE_RESULT,
       rt_details = [(''progressNote'', JBool True)]\<rparr> COMPRESSOR_DEFAULTS"

definition isProgressNoteResult :: "compressed_result \<Rightarrow> bool" where
  "isProgressNoteResult result =
     (cr_tool result = ''reply'' \<and> json_field (JObj (cr_details result)) ''progressNote'' = JBool True)"

definition status_word :: "result_status \<Rightarrow> string" where
  "status_word s = (case s of StOk \<Rightarrow> ''ok'' | StError \<Rightarrow> ''error'')"

definition formatProgressNoteStepSummary :: "compressed_result list \<Rightarrow> string" where
  "formatProgressNoteStepSummary results =
     (let ran = filter (\<lambda>r. \<not> isProgressNoteResult r) results
      in ''progress note + '' @ show_nat (length ran) @ '' tool'' @ (if length ran = 1 then [] else ''s'') @ '': '' @
           joined '', '' (map (\<lambda>r. cr_tool r @ ''['' @ status_word (cr_status r) @ '']'') ran))"

section \<open>What the two rules do to a batch\<close>

lemma drop_nth_perm: "k < length xs \<Longrightarrow> mset (drop_nth k xs) + {#xs ! k#} = mset xs"
proof -
  assume k: "k < length xs"
  have "mset xs = mset (take k xs @ xs ! k # drop (Suc k) xs)" using id_take_nth_drop [OF k] by simp
  then show ?thesis by (simp add: drop_nth_def)
qed

lemma split_note:
  assumes "splitProgressNoteReply resolver terminalOnly calls = Some (rest, note)"
  shows "is_reply note" "mset rest + {#note#} = mset calls"
    "\<exists>call \<in> set rest. resourceClassFor resolver (tc_tool call) \<noteq> Terminal"
proof -
  obtain k where k: "findIndex is_reply calls = Some k" "rest = drop_nth k calls" "note = calls ! k"
    "list_ex (\<lambda>call. resourceClassFor resolver (tc_tool call) \<noteq> Terminal) rest"
    using assms by (auto simp: splitProgressNoteReply_def Let_def split: if_splits option.splits)
  show "is_reply note" "mset rest + {#note#} = mset calls"
    using findIndex_Some [OF k(1)] k(2,3) drop_nth_perm by auto
  show "\<exists>call \<in> set rest. resourceClassFor resolver (tc_tool call) \<noteq> Terminal"
    using k(4) by (simp add: list_ex_iff)
qed

lemma closing_reply:
  assumes "closingReplyBatch resolver terminalOnly calls = Some calls'"
  shows "is_reply (last calls')" "mset calls' = mset calls"
    "\<forall>call \<in> set (butlast calls'). isBookkeepingTool resolver (tc_tool call)"
proof -
  obtain k where k: "findIndex is_reply calls = Some k" "calls' = drop_nth k calls @ [calls ! k]"
    "list_all (\<lambda>call. isBookkeepingTool resolver (tc_tool call)) (drop_nth k calls)"
    using assms by (auto simp: closingReplyBatch_def Let_def split: if_splits option.splits)
  show "is_reply (last calls')" "mset calls' = mset calls"
    using findIndex_Some [OF k(1)] k(2) drop_nth_perm [of k calls] by auto
  show "\<forall>call \<in> set (butlast calls'). isBookkeepingTool resolver (tc_tool call)"
    using k(2,3) by (simp add: list_all_iff)
qed

end
