(* ===== verification/Tool_Names.thy ===== *)
theory Tool_Names
  imports Unknown_Tool
begin

text \<open>
  \<open>src/src/agent/tool-name-resolution.ts\<close>: the name a model emitted, resolved to one the registry
  holds. Only the separator and the case are forgiven.
\<close>

text \<open>\<open>replace(/_/g, ".")\<close> and \<open>replace(/__/g, ".")\<close>.\<close>

definition single_to_dot :: "string \<Rightarrow> string" where
  "single_to_dot name = map (\<lambda>c. if c = CHR ''_'' then CHR ''.'' else c) name"

fun double_to_dot :: "string \<Rightarrow> string" where
  "double_to_dot (c # d # cs) =
     (if c = CHR ''_'' \<and> d = CHR ''_'' then CHR ''.'' # double_to_dot cs else c # double_to_dot (d # cs))"
| "double_to_dot cs = cs"

definition resolveToolName :: "string \<Rightarrow> tool_registry \<Rightarrow> string option" where
  "resolveToolName name registry =
     (if jm_has registry name then Some name
      else let singleToDot = single_to_dot name; doubleToDot = double_to_dot name; lower = to_lower name
           in if singleToDot \<noteq> name \<and> jm_has registry singleToDot then Some singleToDot
              else if doubleToDot \<noteq> name \<and> jm_has registry doubleToDot then Some doubleToDot
              else find (\<lambda>candidate. to_lower candidate = lower \<or> to_lower candidate = to_lower singleToDot)
                     (jm_keys registry))"

section \<open>Nothing is guessed\<close>

text \<open>The characters of a name that carry its meaning.\<close>

definition letters :: "string \<Rightarrow> string" where
  "letters name = filter (\<lambda>c. c \<noteq> CHR ''_'' \<and> c \<noteq> CHR ''.'') (to_lower name)"

lemma letters_Cons: "letters (c # cs) =
    (if to_lower_char c = CHR ''_'' \<or> to_lower_char c = CHR ''.'' then letters cs else to_lower_char c # letters cs)"
  by (simp add: letters_def to_lower_def)

lemma separators_lower [simp]: "to_lower_char (CHR ''_'') = CHR ''_''" "to_lower_char (CHR ''.'') = CHR ''.''"
  by code_simp+

lemma letters_single [simp]: "letters (single_to_dot name) = letters name"
  by (induction name) (simp_all add: single_to_dot_def letters_Cons)

lemma letters_double [simp]: "letters (double_to_dot name) = letters name"
  by (induction name rule: double_to_dot.induct) (simp_all add: letters_Cons)

lemma letters_lower: "to_lower a = to_lower b \<Longrightarrow> letters a = letters b"
  by (simp add: letters_def)

lemma jm_has_key: "n \<in> set (jm_keys registry) \<Longrightarrow> jm_has registry n"
  by (auto simp: jm_has_def jm_keys_def jm_get_None_iff)

lemma resolve_letters:
  assumes "resolveToolName name registry = Some r"
  shows "jm_has registry r \<and> letters r = letters name"
proof -
  have "jm_has registry r \<and> letters r = letters name"
    if "find (\<lambda>c. to_lower c = to_lower name \<or> to_lower c = to_lower (single_to_dot name)) (jm_keys registry) = Some r"
  proof -
    have "r \<in> set (jm_keys registry)" "to_lower r = to_lower name \<or> to_lower r = to_lower (single_to_dot name)"
      using that by (auto simp: find_Some_iff)
    then show ?thesis using jm_has_key letters_lower [of r name] letters_lower [of r "single_to_dot name"] by auto
  qed
  then show ?thesis using assms by (auto simp: resolveToolName_def Let_def split: if_splits)
qed

lemma resolve_registered: "jm_has registry name \<Longrightarrow> resolveToolName name registry = Some name"
  by (simp add: resolveToolName_def)

end
