(* ===== verification/Batch_Policy.thy ===== *)
theory Batch_Policy
  imports Progress_Note Tool_Names
begin

text \<open>
  \<open>src/src/agent/step/step-batch-policy.ts\<close> and the admission in \<open>step-batch-parsing.ts\<close>: what happens to
  the batch a model emitted before it is dispatched. A batch that breaks no rule runs as it is; an
  oversized batch of reads runs in waves; a batch with approval-gated calls runs whole in emitted
  order when nobody would be asked, behind approval barriers when every call checks out, and is cut
  to one gated call otherwise; anything else is an error the model repairs. The JSON-schema check of
  \<open>callArgsSchemaValid\<close> is an argument (\<open>po_schemaOf\<close>, \<open>po_validate\<close>, none when it throws), as are the
  configured cap and the session's approval posture. Logs, events and metrics are left out.
\<close>

section \<open>Validation\<close>

record batch_validation_error =
  ve_message :: string
  ve_perCall :: "string option list"

definition single_quoted :: "string \<Rightarrow> string" where
  "single_quoted s = CHR 0x27 # s @ [CHR 0x27]"

definition validateTerminalArgs :: "tool_call \<Rightarrow> string option" where
  "validateTerminalArgs call =
     (if tc_tool call \<noteq> ''reply'' then None
      else if replyText call \<noteq> None then None
      else Some ''reply tool requires args.text to be a non-empty string'')"

definition shape_name :: "tool_registry \<Rightarrow> tool_call \<Rightarrow> string" where
  "shape_name registry call =
     (if jm_has registry (tc_tool call) then tc_tool call
      else (case resolveToolName (tc_tool call) registry of Some r \<Rightarrow> r | None \<Rightarrow> tc_tool call))"

definition shape_error ::
  "class_resolver option \<Rightarrow> tool_registry \<Rightarrow> nat \<Rightarrow> nat \<Rightarrow> tool_call \<Rightarrow> string option" where
  "shape_error resolver registry n i call =
     (let name = shape_name registry call; cls = resourceClassFor resolver name
      in if cls = UnknownClass \<and> \<not> jm_has registry name then None
         else if cls = Terminal then
           (if i \<noteq> n - 1
            then Some (''terminal verb '' @ single_quoted (tc_tool call) @
                   '' must be the last call in a batch; got it at index '' @ show_nat i @ '' of '' @ show_nat n)
            else None)
         else if cls = ApprovalGated then
           Some (''approval-gated tool '' @ single_quoted (tc_tool call) @
              '' is forbidden inside a batch; emit it as a single call'')
         else if \<not> isBatchable cls then
           Some (''tool '' @ single_quoted (tc_tool call) @ '' has no resource class and cannot be batched'')
         else None)"

definition validateBatch ::
  "nat \<Rightarrow> class_resolver option \<Rightarrow> tool_registry \<Rightarrow> tool_call list \<Rightarrow> batch_validation_error option" where
  "validateBatch cap resolver registry calls =
     (let n = length calls;
          args = map validateTerminalArgs calls;
          oversized = (if n > 1 \<and> cap < n
            then [''batch exceeds maxParallelToolCalls ('' @ show_nat n @ '' > '' @ show_nat cap @ '')''] else []);
          shapes = (if n > 1 then map (\<lambda>(i, call). shape_error resolver registry n i call) (enumerate 0 calls)
            else replicate n None)
      in (case somes args @ oversized @ somes shapes of
            [] \<Rightarrow> None
          | m # _ \<Rightarrow> Some \<lparr>ve_message = m, ve_perCall = map2 (\<lambda>a s. if s \<noteq> None then s else a) args shapes\<rparr>))"

definition isApprovalGatedOnlyFailure :: "batch_validation_error \<Rightarrow> bool" where
  "isApprovalGatedOnlyFailure err =
     (let reasons = somes (ve_perCall err)
      in if reasons = [] then False else list_all (js_includes ''approval-gated'') reasons)"

section \<open>The trim\<close>

record batch_trim_result =
  tr_kept :: tool_call
  tr_dropped :: "tool_call list"
  tr_refused :: "(tool_call \<times> string) list"
  tr_originalSize :: nat

record batch_trim_policy =
  tp_refusedBy :: "(string \<Rightarrow> string option) option"
  tp_preferTool :: "string option"

definition ORCHESTRATOR_PREFERRED_TOOL :: string where
  "ORCHESTRATOR_PREFERRED_TOOL = ''fusion.delegate''"

definition TRIM_REFUSED_BY_PLAN_MODE :: string where
  "TRIM_REFUSED_BY_PLAN_MODE = ''refused by plan mode''"

definition TRIM_REFUSED_BY_FUSION_GATE :: string where
  "TRIM_REFUSED_BY_FUSION_GATE = ''refused by the fusion gate''"

definition turnPolicyForTrim :: "tool_registry \<Rightarrow> bool \<Rightarrow> bool \<Rightarrow> batch_trim_policy" where
  "turnPolicyForTrim registry planMode orchestrator =
     (if \<not> planMode \<and> \<not> orchestrator then \<lparr>tp_refusedBy = None, tp_preferTool = None\<rparr>
      else \<lparr>tp_refusedBy = Some (\<lambda>tool.
               if planMode \<and> wouldRefuse_plan tool registry then Some TRIM_REFUSED_BY_PLAN_MODE
               else if orchestrator \<and> wouldRefuse_fusion tool registry then Some TRIM_REFUSED_BY_FUSION_GATE
               else None),
             tp_preferTool = (if orchestrator then Some ORCHESTRATOR_PREFERRED_TOOL else None)\<rparr>)"

definition refused_by :: "batch_trim_policy \<Rightarrow> tool_call \<Rightarrow> string option" where
  "refused_by policy call = (case tp_refusedBy policy of None \<Rightarrow> None | Some f \<Rightarrow> f (tc_tool call))"

definition is_gated :: "class_resolver option \<Rightarrow> tool_call \<Rightarrow> bool" where
  "is_gated resolver call = (resourceClassFor resolver (tc_tool call) = ApprovalGated)"

text \<open>The index of the call that survives: the preferred tool, the first gated call that may run, the first gated call.\<close>

definition kept_index :: "class_resolver option \<Rightarrow> batch_trim_policy \<Rightarrow> tool_call list \<Rightarrow> nat option" where
  "kept_index resolver policy calls =
     (let runnable = (\<lambda>call. refused_by policy call = None);
          preferred = (case tp_preferTool policy of
             None \<Rightarrow> None | Some p \<Rightarrow> findIndex (\<lambda>call. tc_tool call = p \<and> runnable call) calls)
      in (case preferred of
            Some k \<Rightarrow> Some k
          | None \<Rightarrow>
              (case findIndex (\<lambda>call. is_gated resolver call \<and> runnable call) calls of
                 Some k \<Rightarrow> Some k
               | None \<Rightarrow> findIndex (is_gated resolver) calls)))"

definition trimBatchToFirstApprovalGated ::
  "class_resolver option \<Rightarrow> batch_trim_policy \<Rightarrow> tool_call list \<Rightarrow> batch_trim_result option" where
  "trimBatchToFirstApprovalGated resolver policy calls =
     (if \<not> list_ex (is_gated resolver) calls then None
      else (case kept_index resolver policy calls of
              None \<Rightarrow> None
            | Some keptIdx \<Rightarrow>
                let rest = drop_nth keptIdx calls
                in Some \<lparr>tr_kept = calls ! keptIdx,
                         tr_dropped = filter (\<lambda>call. refused_by policy call = None) rest,
                         tr_refused = somes (map (\<lambda>call. map_option (\<lambda>reason. (call, reason)) (refused_by policy call)) rest),
                         tr_originalSize = length calls\<rparr>))"

definition backticked :: "tool_call list \<Rightarrow> string" where
  "backticked calls = joined '', '' (map (\<lambda>call. ''`'' @ tc_tool call @ ''`'') calls)"

fun by_reason :: "(tool_call \<times> string) list \<Rightarrow> (string, tool_call list) jsmap \<Rightarrow> (string, tool_call list) jsmap" where
  "by_reason [] groups = groups"
| "by_reason ((call, reason) # rest) groups =
     by_reason rest (jm_set reason (orElse (jm_get groups reason) [] @ [call]) groups)"

definition formatBatchTrimNotice :: "batch_trim_result \<Rightarrow> string" where
  "formatBatchTrimNotice trim =
     joined '' ''
       ([''Your previous emission contained '' @ show_nat (tr_originalSize trim) @
          '' calls including approval-gated tools that must be solo (length-1 array). The runtime auto-executed `'' @
          tc_tool (tr_kept trim) @ ''`.''] @
        (if tr_dropped trim \<noteq> []
         then [''Dropped from the batch'' @ dash @ ''retry: '' @ backticked (tr_dropped trim) @
           ''. Retry them now, one per step, each as a length-1 array. Do not re-batch them.''] else []) @
        (if tr_refused trim \<noteq> []
         then [''Dropped because this turn'' @ [CHR 0x27] @ ''s policy would refuse them'' @ dash @ ''do not retry: '' @
           joined ''; '' (map (\<lambda>(reason, calls). backticked calls @ '' ('' @ reason @ '')'') (by_reason (tr_refused trim) [])) @ ''.'']
         else []))"

section \<open>Running a batch whole\<close>

text \<open>\<open>deps.approvalPosture\<close>: not wired, unreadable, or the level and grants of the session now.\<close>

datatype posture_source = NoPosture | PostureUnreadable | PostureNow batch_posture

record policy_env =
  po_resolver :: "class_resolver option"
  po_registry :: tool_registry
  po_cap :: nat
  po_posture :: posture_source
  po_terminalOnly :: bool
  po_planMode :: bool
  po_orchestrator :: bool
  po_schemaOf :: "string \<Rightarrow> json option"
  po_validate :: "json \<Rightarrow> json \<Rightarrow> bool option"

definition MAX_WAVE_SPLIT_CALLS :: nat where
  "MAX_WAVE_SPLIT_CALLS = 32"

definition batchRunsUnattended :: "policy_env \<Rightarrow> tool_call list \<Rightarrow> bool" where
  "batchRunsUnattended env calls =
     (case po_posture env of
        NoPosture \<Rightarrow> False
      | source \<Rightarrow>
          if MAX_WAVE_SPLIT_CALLS < length calls then False
          else (case source of
                  PostureNow posture \<Rightarrow>
                    list_all (\<lambda>call. \<not> is_gated (po_resolver env) call \<or>
                      gatedCallRunsUnattended (po_resolver env) (tc_tool call) posture) calls
                | _ \<Rightarrow> False))"

definition callArgsSchemaValid :: "policy_env \<Rightarrow> tool_call \<Rightarrow> bool" where
  "callArgsSchemaValid env call =
     (case po_schemaOf env (tc_tool call) of
        None \<Rightarrow> True
      | Some schema \<Rightarrow> (case po_validate env (tc_args call) schema of None \<Rightarrow> False | Some ok \<Rightarrow> ok))"

definition trim_policy :: "policy_env \<Rightarrow> batch_trim_policy" where
  "trim_policy env = turnPolicyForTrim (po_registry env) (po_planMode env) (po_orchestrator env)"

definition barrier_call :: "policy_env \<Rightarrow> tool_call \<Rightarrow> bool" where
  "barrier_call env call =
     (let cls = resourceClassFor (po_resolver env) (tc_tool call)
      in (if cls = ApprovalGated then \<not> isSoloRegardlessOfApproval (tc_tool call) else isBatchable cls) \<and>
         jm_has (po_registry env) (tc_tool call) \<and> callArgsSchemaValid env call)"

definition batchRunsBehindBarriers :: "policy_env \<Rightarrow> tool_call list \<Rightarrow> bool" where
  "batchRunsBehindBarriers env calls =
     (if po_posture env = NoPosture then False
      else if po_terminalOnly env then False
      else if tp_refusedBy (trim_policy env) \<noteq> None \<or> tp_preferTool (trim_policy env) \<noteq> None then False
      else list_all (barrier_call env) calls)"

section \<open>Admission\<close>

text \<open>A batch the policy lets through: its calls and how they are run.\<close>

datatype run_mode = Concurrent | InOrder | BehindBarriers

record admitted_batch =
  ab_calls :: "tool_call list"
  ab_maxWaveSize :: "nat option"
  ab_mode :: run_mode
  ab_notice :: "string option"

definition plain_batch :: "tool_call list \<Rightarrow> run_mode \<Rightarrow> admitted_batch" where
  "plain_batch calls mode = \<lparr>ab_calls = calls, ab_maxWaveSize = None, ab_mode = mode, ab_notice = None\<rparr>"

definition tryTrimApprovalGated :: "policy_env \<Rightarrow> tool_call list \<Rightarrow> batch_validation_error \<Rightarrow> admitted_batch option" where
  "tryTrimApprovalGated env calls err =
     (if \<not> isApprovalGatedOnlyFailure err then None
      else if po_terminalOnly env \<and> length calls > 1 \<and>
           resourceClassFor (po_resolver env) (tc_tool (last calls)) = Terminal
        then Some (plain_batch [last calls] Concurrent)
      else if batchRunsUnattended env calls then Some (plain_batch calls InOrder)
      else if po_cap env < length calls then None
      else if batchRunsBehindBarriers env calls then Some (plain_batch calls BehindBarriers)
      else map_option (\<lambda>trim. (plain_batch [tr_kept trim] Concurrent)\<lparr>ab_notice := Some (formatBatchTrimNotice trim)\<rparr>)
             (trimBatchToFirstApprovalGated (po_resolver env) (trim_policy env) calls))"

definition formatWaveSplitNotice :: "nat \<Rightarrow> nat \<Rightarrow> nat \<Rightarrow> string" where
  "formatWaveSplitNotice originalSize cap waveCount =
     ''Your previous emission contained '' @ show_nat originalSize @ '' reads that exceeded the parallel-call cap of '' @
       show_nat cap @ ''. The runtime executed all of them in '' @ show_nat waveCount @ '' bounded wave'' @
       (if waveCount = 1 then [] else ''s'') @ dash @ ''nothing was dropped. Do not re-emit those calls.''"

definition wave_count :: "nat \<Rightarrow> nat \<Rightarrow> nat" where
  "wave_count n cap = (n + cap - 1) div cap"

definition wave_boundaries :: "nat \<Rightarrow> nat \<Rightarrow> nat list" where
  "wave_boundaries n cap = map (\<lambda>i. i * cap) [0 ..< wave_count n cap]"

definition trySplitPureReadWaves :: "policy_env \<Rightarrow> tool_call list \<Rightarrow> admitted_batch option" where
  "trySplitPureReadWaves env calls =
     (if length calls \<le> po_cap env then None
      else if MAX_WAVE_SPLIT_CALLS < length calls then None
      else if list_all (\<lambda>call. resourceClassFor (po_resolver env) (tc_tool call) = PureRead \<and> callArgsSchemaValid env call) calls
      then Some \<lparr>ab_calls = calls, ab_maxWaveSize = Some (po_cap env), ab_mode = Concurrent,
                 ab_notice = Some (formatWaveSplitNotice (length calls) (po_cap env) (wave_count (length calls) (po_cap env)))\<rparr>
      else None)"

text \<open>\<open>fabricated\<close>: the completion wrote an invented transcript of tool calls.\<close>

definition takeProgressNote :: "policy_env \<Rightarrow> bool \<Rightarrow> tool_call list \<Rightarrow> tool_call list \<times> tool_call option" where
  "takeProgressNote env fabricated calls =
     (if fabricated then (calls, None)
      else (case closingReplyBatch (po_resolver env) (po_terminalOnly env) calls of
              Some closing \<Rightarrow> (closing, None)
            | None \<Rightarrow>
                (case splitProgressNoteReply (po_resolver env) (po_terminalOnly env) calls of
                   None \<Rightarrow> (calls, None)
                 | Some (rest, note) \<Rightarrow> (rest, Some note))))"

definition admitBatch :: "policy_env \<Rightarrow> tool_call list \<Rightarrow> batch_validation_error + admitted_batch" where
  "admitBatch env calls =
     (case validateBatch (po_cap env) (po_resolver env) (po_registry env) calls of
        None \<Rightarrow> Inr (plain_batch calls Concurrent)
      | Some err \<Rightarrow>
          (case trySplitPureReadWaves env calls of
             Some split \<Rightarrow> Inr split
           | None \<Rightarrow> (case tryTrimApprovalGated env calls err of Some trimmed \<Rightarrow> Inr trimmed | None \<Rightarrow> Inl err)))"

definition parseStepBatch ::
  "policy_env \<Rightarrow> bool \<Rightarrow> tool_call list \<Rightarrow> (batch_validation_error + admitted_batch) \<times> tool_call option" where
  "parseStepBatch env fabricated calls =
     (let (calls', note) = takeProgressNote env fabricated calls in (admitBatch env calls', note))"

section \<open>What a batch that passes looks like\<close>

lemma somes_empty: "somes xs = [] \<longleftrightarrow> (\<forall>x \<in> set xs. x = None)"
  by (induction xs) (auto split: option.splits)

lemma valid_batch:
  assumes "validateBatch cap resolver registry calls = None"
  shows "\<forall>call \<in> set calls. validateTerminalArgs call = None"
    and "length calls > 1 \<Longrightarrow> length calls \<le> cap"
    and "length calls > 1 \<Longrightarrow> i < length calls \<Longrightarrow> shape_error resolver registry (length calls) i (calls ! i) = None"
proof -
  define shapes where "shapes = (if length calls > 1
     then map (\<lambda>(i, call). shape_error resolver registry (length calls) i call) (enumerate 0 calls)
     else replicate (length calls) None)"
  have none: "somes (map validateTerminalArgs calls) = []" "somes shapes = []" "length calls > 1 \<Longrightarrow> length calls \<le> cap"
    using assms by (auto simp: validateBatch_def Let_def shapes_def split: list.splits if_splits)
  show "\<forall>call \<in> set calls. validateTerminalArgs call = None" using none(1) by (auto simp: somes_empty)
  show "length calls > 1 \<Longrightarrow> length calls \<le> cap" by (rule none(3))
  assume long: "length calls > 1" and i: "i < length calls"
  have "shapes ! i = shape_error resolver registry (length calls) i (calls ! i)"
    using long i by (simp add: shapes_def nth_enumerate_eq)
  moreover have "shapes ! i \<in> set shapes" using i by (intro nth_mem) (simp add: shapes_def)
  then have "shapes ! i = None" using none(2) by (simp add: somes_empty)
  ultimately show "shape_error resolver registry (length calls) i (calls ! i) = None" by simp
qed

text \<open>The name a call carries is the registry's or nobody's, not one the step would still have to resolve.\<close>

definition exact_name :: "tool_registry \<Rightarrow> tool_call \<Rightarrow> bool" where
  "exact_name registry call = (shape_name registry call = tc_tool call)"

lemma shape_ok_class:
  assumes "shape_error resolver registry n i call = None" and "exact_name registry call"
  shows "\<not> is_gated resolver call" and "resourceClassFor resolver (tc_tool call) = Terminal \<Longrightarrow> i = n - 1"
  using assms by (auto simp: shape_error_def exact_name_def is_gated_def Let_def split: if_splits)

section \<open>The trim is a partition\<close>

lemma refused_partition:
  "mset (filter (\<lambda>call. f call = None) xs) + mset (map fst (somes (map (\<lambda>call. map_option (\<lambda>r. (call, r)) (f call)) xs))) = mset xs"
  by (induction xs) (auto split: option.splits)

lemma refused_reasons:
  "(call, reason) \<in> set (somes (map (\<lambda>call. map_option (\<lambda>r. (call, r)) (f call)) xs)) \<Longrightarrow> f call = Some reason \<and> call \<in> set xs"
  by (induction xs) (auto split: option.splits)

lemma kept_index_Some:
  assumes "kept_index resolver policy calls = Some k"
  shows "k < length calls"
    and "refused_by policy (calls ! k) = None \<or>
      is_gated resolver (calls ! k) \<and> (\<forall>call \<in> set calls. is_gated resolver call \<longrightarrow> refused_by policy call \<noteq> None)"
    and "is_gated resolver (calls ! k) \<or> tp_preferTool policy = Some (tc_tool (calls ! k))"
  using assms
  by (auto simp: kept_index_def Let_def findIndex_None split: option.splits dest!: findIndex_Some)

lemma trim_keeps_all:
  assumes "trimBatchToFirstApprovalGated resolver policy calls = Some trim"
  shows "mset (tr_dropped trim) + mset (map fst (tr_refused trim)) + {#tr_kept trim#} = mset calls"
    and "tr_originalSize trim = length calls"
    and "refused_by policy (tr_kept trim) = None \<or>
      is_gated resolver (tr_kept trim) \<and> (\<forall>call \<in> set calls. is_gated resolver call \<longrightarrow> refused_by policy call \<noteq> None)"
    and "is_gated resolver (tr_kept trim) \<or> tp_preferTool policy = Some (tc_tool (tr_kept trim))"
    and "\<forall>call \<in> set (tr_dropped trim). refused_by policy call = None"
    and "\<forall>(call, reason) \<in> set (tr_refused trim). refused_by policy call = Some reason"
proof -
  obtain k where k: "kept_index resolver policy calls = Some k"
    and t: "trim = \<lparr>tr_kept = calls ! k, tr_dropped = filter (\<lambda>call. refused_by policy call = None) (drop_nth k calls),
      tr_refused = somes (map (\<lambda>call. map_option (\<lambda>reason. (call, reason)) (refused_by policy call)) (drop_nth k calls)),
      tr_originalSize = length calls\<rparr>"
    using assms by (auto simp: trimBatchToFirstApprovalGated_def Let_def split: if_splits option.splits)
  note kk = kept_index_Some [OF k]
  show "mset (tr_dropped trim) + mset (map fst (tr_refused trim)) + {#tr_kept trim#} = mset calls"
    unfolding t by (simp only: batch_trim_result.simps refused_partition drop_nth_perm [OF kk(1)])
  show "tr_originalSize trim = length calls" by (simp add: t)
  show "refused_by policy (tr_kept trim) = None \<or>
      is_gated resolver (tr_kept trim) \<and> (\<forall>call \<in> set calls. is_gated resolver call \<longrightarrow> refused_by policy call \<noteq> None)"
    using kk(2) by (simp add: t)
  show "is_gated resolver (tr_kept trim) \<or> tp_preferTool policy = Some (tc_tool (tr_kept trim))" using kk(3) by (simp add: t)
  show "\<forall>call \<in> set (tr_dropped trim). refused_by policy call = None" by (simp add: t)
  show "\<forall>(call, reason) \<in> set (tr_refused trim). refused_by policy call = Some reason"
    using refused_reasons by (fastforce simp: t)
qed

section \<open>What is admitted\<close>

definition runs_safely :: "policy_env \<Rightarrow> admitted_batch \<Rightarrow> bool" where
  "runs_safely env b =
     (length (ab_calls b) \<le> 1 \<or>
      (case ab_mode b of
         Concurrent \<Rightarrow>
           list_all (\<lambda>call. \<not> is_gated (po_resolver env) call) (ab_calls b) \<and>
           list_all (\<lambda>call. resourceClassFor (po_resolver env) (tc_tool call) \<noteq> Terminal) (butlast (ab_calls b)) \<and>
           (length (ab_calls b) \<le> po_cap env \<or> ab_maxWaveSize b = Some (po_cap env) \<and> length (ab_calls b) \<le> MAX_WAVE_SPLIT_CALLS)
       | InOrder \<Rightarrow>
           length (ab_calls b) \<le> MAX_WAVE_SPLIT_CALLS \<and>
           (\<exists>posture. po_posture env = PostureNow posture \<and>
              list_all (\<lambda>call. is_gated (po_resolver env) call \<longrightarrow>
                gatedCallRunsUnattended (po_resolver env) (tc_tool call) posture) (ab_calls b))
       | BehindBarriers \<Rightarrow>
           length (ab_calls b) \<le> po_cap env \<and>
           list_all (\<lambda>call. resourceClassFor (po_resolver env) (tc_tool call) \<noteq> Terminal \<and>
             jm_has (po_registry env) (tc_tool call) \<and> \<not> isSoloRegardlessOfApproval (tc_tool call) \<and>
             callArgsSchemaValid env call) (ab_calls b)))"

lemma solo_gated: "isSoloRegardlessOfApproval tool \<Longrightarrow> resourceClassFor resolver tool = ApprovalGated"
  by (simp add: isSoloRegardlessOfApproval_def SOLO_REGARDLESS_OF_APPROVAL_def resourceClassFor_def
      TOOL_RESOURCE_CLASS_def jm_get_def)

lemma barrier_call_facts:
  "barrier_call env call \<Longrightarrow> resourceClassFor (po_resolver env) (tc_tool call) \<noteq> Terminal \<and>
     jm_has (po_registry env) (tc_tool call) \<and> \<not> isSoloRegardlessOfApproval (tc_tool call) \<and> callArgsSchemaValid env call"
  using solo_gated [of "tc_tool call" "po_resolver env"] by (auto simp: barrier_call_def Let_def isBatchable_def split: if_splits)

lemma split_safe: "trySplitPureReadWaves env calls = Some b \<Longrightarrow> runs_safely env b"
  by (fastforce simp: trySplitPureReadWaves_def runs_safely_def is_gated_def list_all_iff dest: in_set_butlastD split: if_splits)

lemma unattended_safe:
  "batchRunsUnattended env calls \<Longrightarrow> runs_safely env (plain_batch calls InOrder)"
  by (fastforce simp: batchRunsUnattended_def runs_safely_def plain_batch_def list_all_iff
      split: posture_source.splits if_splits)

lemma barriers_safe:
  "length calls \<le> po_cap env \<Longrightarrow> batchRunsBehindBarriers env calls \<Longrightarrow> runs_safely env (plain_batch calls BehindBarriers)"
  using barrier_call_facts by (auto simp: batchRunsBehindBarriers_def runs_safely_def plain_batch_def list_all_iff split: if_splits)

lemma trim_safe:
  assumes "tryTrimApprovalGated env calls err = Some b" shows "runs_safely env b"
proof -
  have one: "runs_safely env c" if "length (ab_calls c) = 1" for c using that by (simp add: runs_safely_def)
  have single: "length (ab_calls (plain_batch [x] Concurrent)) = 1"
    "length (ab_calls ((plain_batch [x] Concurrent)\<lparr>ab_notice := n\<rparr>)) = 1" for x n by (simp_all add: plain_batch_def)
  show ?thesis
    using assms unattended_safe barriers_safe one [OF single(1)] one [OF single(2)]
    by (auto simp: tryTrimApprovalGated_def split: if_splits)
qed

lemma valid_safe:
  assumes "validateBatch (po_cap env) (po_resolver env) (po_registry env) calls = None"
    and "\<forall>call \<in> set calls. exact_name (po_registry env) call"
  shows "runs_safely env (plain_batch calls Concurrent)"
proof (cases "length calls > 1")
  case True
  have none: "shape_error (po_resolver env) (po_registry env) (length calls) i (calls ! i) = None" if "i < length calls" for i
    using valid_batch(3) [OF assms(1) True that] .
  have "\<not> is_gated (po_resolver env) call" if c: "call \<in> set calls" for call
  proof -
    obtain i where "i < length calls" "calls ! i = call" using c by (auto simp: in_set_conv_nth)
    then show ?thesis using shape_ok_class(1) [OF none [of i]] assms(2) c by simp
  qed
  moreover have "resourceClassFor (po_resolver env) (tc_tool call) \<noteq> Terminal" if c: "call \<in> set (butlast calls)" for call
  proof
    assume t: "resourceClassFor (po_resolver env) (tc_tool call) = Terminal"
    obtain i where i: "i < length (butlast calls)" "butlast calls ! i = call" using c by (auto simp: in_set_conv_nth)
    then have "calls ! i = call" "i < length calls" by (auto simp: nth_butlast)
    then have "i = length calls - 1"
      using shape_ok_class(2) [OF none [of i]] assms(2) t nth_mem [of i calls] by simp
    then show False using i(1) by simp
  qed
  ultimately show ?thesis using valid_batch(2) [OF assms(1) True] by (simp add: runs_safely_def plain_batch_def list_all_iff)
qed (simp add: runs_safely_def plain_batch_def)

lemma admit_safe:
  assumes "admitBatch env calls = Inr b" and "\<forall>call \<in> set calls. exact_name (po_registry env) call"
  shows "runs_safely env b"
  using assms valid_safe [OF _ assms(2)] split_safe trim_safe by (auto simp: admitBatch_def split: option.splits)

lemma note_calls:
  assumes "takeProgressNote env fabricated calls = (calls', remark)"
  shows "set calls' \<subseteq> set calls"
proof -
  consider "calls' = calls" | "closingReplyBatch (po_resolver env) (po_terminalOnly env) calls = Some calls'"
    | n where "splitProgressNoteReply (po_resolver env) (po_terminalOnly env) calls = Some (calls', n)"
    using assms by (auto simp: takeProgressNote_def split: if_splits option.splits)
  then show ?thesis
  proof cases
    case 2
    then show ?thesis using mset_eq_setD [OF closing_reply(2) [OF 2]] by simp
  next
    case 3
    have "set_mset (mset calls' + {#n#}) = set_mset (mset calls)" using split_note(2) [OF 3] by simp
    then show ?thesis by auto
  qed simp
qed

end
