(* ===== verification/Batch_Barriers.thy ===== *)
theory Batch_Barriers
  imports Batch_Policy Batch_Tracker
begin

text \<open>
  \<open>src/src/agent/step/step-batch-policy.ts\<close>, \<open>executeCallsInOrder\<close> and \<open>executeWithApprovalBarriers\<close>: a
  batch run as a sequence of smaller batches. Each segment is an \<open>executeBatch\<close> of its own
  (\<open>Batch_Executor\<close>) under local indices, started only when the one before it has returned; the results
  and the events are mapped back to the indices the model emitted. In emitted order every call is a
  segment; behind barriers an approval-gated call is one and the calls between two of them are one,
  and a gated call that does not come back \<open>ok\<close> stops the rest. Both loops are one machine
  (\<open>seq_state\<close>), which is in the middle of one segment (\<open>sq_current\<close>) or done: the code between two
  \<open>await\<close>s is \<open>advance\<close>.
\<close>

section \<open>Segments\<close>

fun segments_loop :: "batch_call_input list \<Rightarrow> batch_call_input list \<Rightarrow> batch_call_input list list" where
  "segments_loop [] run = (if run \<noteq> [] then [run] else [])"
| "segments_loop (inp # inputs) run =
     (if bi_class inp \<noteq> ApprovalGated then segments_loop inputs (run @ [inp])
      else (if run \<noteq> [] then [run] else []) @ [inp] # segments_loop inputs [])"

definition approvalBarrierSegments :: "batch_call_input list \<Rightarrow> batch_call_input list list" where
  "approvalBarrierSegments inputs = segments_loop inputs []"

section \<open>The report\<close>

datatype stop_cause = NotApproved | Failed

record barrier_report =
  br_waves :: nat
  br_barriers :: nat
  br_retained :: nat
  br_invalidated :: "tool_call list"
  br_stoppedBy :: "(batch_call_input \<times> stop_cause) option"
  br_cancelled :: bool

definition emptyApprovalBarrierReport :: barrier_report where
  "emptyApprovalBarrierReport = \<lparr>br_waves = 0, br_barriers = 0, br_retained = 0, br_invalidated = [],
     br_stoppedBy = None, br_cancelled = False\<rparr>"

definition approvalBarrierStopCause :: "compressed_result option \<Rightarrow> tool_approval_record list \<Rightarrow> stop_cause" where
  "approvalBarrierStopCause result approvals =
     (case result of
        None \<Rightarrow> Failed
      | Some r \<Rightarrow>
          if list_ex (\<lambda>a. \<not> ta_approved a) approvals then NotApproved
          else if json_field (JObj (cr_details r)) ''errorName'' = JStr ''ApprovalDeniedError'' \<or>
                  json_field (JObj (cr_details r)) ''approvalDenied'' = JBool True then NotApproved
          else Failed)"

definition approvalBarrierStopPhrase :: "stop_cause \<Rightarrow> string" where
  "approvalBarrierStopPhrase cause = (case cause of NotApproved \<Rightarrow> ''was not approved'' | Failed \<Rightarrow> ''failed'')"

definition stop_word :: "stop_cause \<Rightarrow> string" where
  "stop_word cause = (case cause of NotApproved \<Rightarrow> ''not_approved'' | Failed \<Rightarrow> ''failed'')"

definition notRunBehindBarrierResult :: "tool_call \<Rightarrow> batch_call_input \<times> stop_cause \<Rightarrow> nat \<Rightarrow> compressed_result" where
  "notRunBehindBarrierResult call stop batchSize =
     compressToolResult \<lparr>rt_tool = tc_tool call, rt_status = StError,
       rt_output = ''not run: it came after `'' @ tc_tool (bi_call (fst stop)) @ ''` (call '' @ show_nat (bi_index (fst stop) + 1) @
         '' of '' @ show_nat batchSize @ '') in the same batch, and that call '' @ approvalBarrierStopPhrase (snd stop),
       rt_details = [(''notRun'', JBool True), (''blockedBy'', JStr (tc_tool (bi_call (fst stop)))),
         (''blockedByIndex'', JNum (int (bi_index (fst stop)))), (''blockedCause'', JStr (stop_word (snd stop)))]\<rparr> COMPRESSOR_DEFAULTS"

definition formatApprovalBarrierNotice :: "barrier_report \<Rightarrow> nat \<Rightarrow> string option" where
  "formatApprovalBarrierNotice report originalSize =
     (case br_stoppedBy report of
        None \<Rightarrow> None
      | Some stop \<Rightarrow>
          if br_invalidated report = [] then None
          else Some (joined '' ''
            [''Your previous emission contained '' @ show_nat originalSize @
               '' calls including approval-gated tools. The runtime ran them in order, each approval-gated call on its own, and stopped at `'' @
               tc_tool (bi_call (fst stop)) @ ''` (call '' @ show_nat (bi_index (fst stop) + 1) @ '' of '' @ show_nat originalSize @
               ''), which '' @ approvalBarrierStopPhrase (snd stop) @ ''.'',
             ''Not run: '' @ backticked (br_invalidated report) @ dash @ ''they came after it and may depend on it.'',
             (case snd stop of
                NotApproved \<Rightarrow> ''Do not ask for the call that was not approved again unless the user asks for it; re-emit any of the others only if it still makes sense without it.''
              | Failed \<Rightarrow> ''Read its error first; re-emit any of the others only if it still makes sense after that failure.'')]))"

section \<open>State\<close>

record seq_state =
  sq_barriers :: bool
  sq_size :: nat
  sq_pending :: "batch_call_input list list"
  sq_current :: "(batch_call_input list \<times> exec_state) option"
  sq_results :: "batch_slot list"
  sq_signals :: "batch_loop_signal list"
  sq_events :: "exec_event list"
  sq_report :: barrier_report
  sq_cancelled :: bool
  sq_aborted :: bool
  sq_tracker :: "tracker option"
  sq_fusion :: fusion_state

fun map_event :: "(nat \<Rightarrow> nat) \<Rightarrow> exec_event \<Rightarrow> exec_event" where
  "map_event f (EvStarted i) = EvStarted (f i)"
| "map_event f (EvInvoked i) = EvInvoked (f i)"
| "map_event f (EvFinished i r) = EvFinished (f i) r"

definition local_inputs :: "batch_call_input list \<Rightarrow> batch_call_input list" where
  "local_inputs seg = map (\<lambda>(i, inp). inp\<lparr>bi_index := i\<rparr>) (enumerate 0 seg)"

definition global_index :: "batch_call_input list \<Rightarrow> nat \<Rightarrow> nat" where
  "global_index seg i = bi_index (seg ! i)"

definition global_slots :: "batch_call_input list \<Rightarrow> batch_slot list \<Rightarrow> batch_slot list" where
  "global_slots seg slots = map (\<lambda>(i, slot). slot\<lparr>sl_index := global_index seg i\<rparr>) (enumerate 0 slots)"

definition seq_events :: "seq_state \<Rightarrow> exec_event list" where
  "seq_events st =
     sq_events st @ (case sq_current st of None \<Rightarrow> [] | Some (seg, inner) \<Rightarrow> map (map_event (global_index seg)) (ex_events inner))"

section \<open>Steps\<close>

definition cancel_segment :: "batch_call_input list \<Rightarrow> seq_state \<Rightarrow> seq_state" where
  "cancel_segment seg st =
     st\<lparr>sq_results := sq_results st @ map (\<lambda>inp. (fresh_slot inp)\<lparr>sl_cancelled := True\<rparr>) seg,
        sq_report := (sq_report st)\<lparr>br_invalidated := br_invalidated (sq_report st) @ map bi_call seg\<rparr>\<rparr>"

definition refuse_segment :: "batch_call_input \<times> stop_cause \<Rightarrow> batch_call_input list \<Rightarrow> seq_state \<Rightarrow> seq_state" where
  "refuse_segment stop seg st =
     (let result = (\<lambda>inp. notRunBehindBarrierResult (bi_call inp) stop (sq_size st))
      in st\<lparr>sq_results := sq_results st @ map (\<lambda>inp. (fresh_slot inp)\<lparr>sl_compressed := Some (result inp)\<rparr>) seg,
            sq_events := sq_events st @ concat (map (\<lambda>inp. [EvStarted (bi_index inp), EvFinished (bi_index inp) (result inp)]) seg),
            sq_report := (sq_report st)\<lparr>br_invalidated := br_invalidated (sq_report st) @ map bi_call seg\<rparr>\<rparr>)"

text \<open>The rounds of the loop up to the next \<open>await executeBatch\<close> or the end.\<close>

fun advance :: "batch_env \<Rightarrow> batch_context \<Rightarrow> batch_call_input list list \<Rightarrow> seq_state \<Rightarrow> seq_state" where
  "advance env cx [] st =
     st\<lparr>sq_pending := [], sq_current := None,
        sq_report := (sq_report st)\<lparr>br_cancelled := sq_cancelled st \<or> sq_aborted st\<rparr>\<rparr>"
| "advance env cx (seg # segs) st =
     (if sq_cancelled st \<or> sq_aborted st then advance env cx segs (cancel_segment seg (st\<lparr>sq_cancelled := True\<rparr>))
      else (case br_stoppedBy (sq_report st) of
              Some stop \<Rightarrow> advance env cx segs (refuse_segment stop seg st)
            | None \<Rightarrow>
                st\<lparr>sq_pending := segs,
                   sq_current := Some (seg, startBatch env cx (local_inputs seg) (sq_tracker st) (sq_fusion st) False)\<rparr>))"

text \<open>What is noted of a segment behind barriers that ran to its end.\<close>

definition note_segment :: "batch_call_input list \<Rightarrow> batch_slot list \<Rightarrow> bool \<Rightarrow> barrier_report \<Rightarrow> barrier_report" where
  "note_segment seg slots cancelled report =
     (let counted = report\<lparr>br_invalidated := br_invalidated report @ map sl_call (filter sl_cancelled slots),
                          br_retained := br_retained report + length (filter (\<lambda>s. \<not> sl_cancelled s) slots)\<rparr>
      in if cancelled then counted
         else if bi_class (hd seg) \<noteq> ApprovalGated then counted\<lparr>br_waves := br_waves counted + 1\<rparr>
         else (let barred = counted\<lparr>br_barriers := br_barriers counted + 1\<rparr>; slot = hd slots
               in (case sl_compressed slot of
                     Some r \<Rightarrow> if cr_status r = StOk then barred
                       else barred\<lparr>br_stoppedBy := Some (hd seg, approvalBarrierStopCause (Some r) (sl_approvals slot))\<rparr>
                   | None \<Rightarrow> barred\<lparr>br_stoppedBy := Some (hd seg, Failed)\<rparr>)))"

definition finish_segment ::
  "batch_env \<Rightarrow> batch_context \<Rightarrow> batch_call_input list \<Rightarrow> exec_state \<Rightarrow> batch_slot list \<Rightarrow> bool \<Rightarrow> seq_state \<Rightarrow> seq_state" where
  "finish_segment env cx seg inner slots cancelled st =
     advance env cx (sq_pending st)
       (st\<lparr>sq_current := None,
           sq_results := sq_results st @ global_slots seg slots,
           sq_signals := sq_signals st @ ex_signals inner,
           sq_events := seq_events st,
           sq_report := (if sq_barriers st then note_segment seg slots cancelled (sq_report st) else sq_report st),
           sq_cancelled := sq_cancelled st \<or> cancelled,
           sq_aborted := ex_aborted inner,
           sq_tracker := ex_tracker inner,
           sq_fusion := ex_fusion inner\<rparr>)"

definition start_sequence ::
  "bool \<Rightarrow> batch_env \<Rightarrow> batch_context \<Rightarrow> batch_call_input list \<Rightarrow> batch_call_input list list \<Rightarrow> tracker option \<Rightarrow>
     fusion_state \<Rightarrow> bool \<Rightarrow> seq_state" where
  "start_sequence barriers env cx inputs segs tracker fusion aborted =
     advance env cx segs
       \<lparr>sq_barriers = barriers, sq_size = length inputs, sq_pending = [], sq_current = None, sq_results = [],
        sq_signals = [], sq_events = [], sq_report = emptyApprovalBarrierReport, sq_cancelled = False,
        sq_aborted = aborted, sq_tracker = tracker, sq_fusion = fusion\<rparr>"

definition executeCallsInOrder ::
  "batch_env \<Rightarrow> batch_context \<Rightarrow> batch_call_input list \<Rightarrow> tracker option \<Rightarrow> fusion_state \<Rightarrow> bool \<Rightarrow> seq_state" where
  "executeCallsInOrder env cx inputs tracker fusion aborted =
     start_sequence False env cx inputs (map (\<lambda>inp. [inp]) inputs) tracker fusion aborted"

definition executeWithApprovalBarriers ::
  "batch_env \<Rightarrow> batch_context \<Rightarrow> batch_call_input list \<Rightarrow> tracker option \<Rightarrow> fusion_state \<Rightarrow> bool \<Rightarrow> seq_state" where
  "executeWithApprovalBarriers env cx inputs tracker fusion aborted =
     start_sequence True env cx inputs (approvalBarrierSegments inputs) tracker fusion aborted"

text \<open>One step: a step of the segment that runs, or, once it has returned, the rest of the loop.\<close>

inductive seq_step :: "batch_env \<Rightarrow> batch_context \<Rightarrow> seq_state \<Rightarrow> seq_state \<Rightarrow> bool" for env cx where
  Inner: "sq_current st = Some (seg, inner) \<Longrightarrow> op_enabled op inner \<Longrightarrow>
     seq_step env cx st (st\<lparr>sq_current := Some (seg, op_step env cx op inner)\<rparr>)"
| Returned: "sq_current st = Some (seg, inner) \<Longrightarrow> ex_pc inner = BatchReturned slots cancelled \<Longrightarrow>
     seq_step env cx st (finish_segment env cx seg inner slots cancelled st)"

text \<open>The same steps as a function, for running a sequence of operations.\<close>

fun run_seq :: "batch_env \<Rightarrow> batch_context \<Rightarrow> exec_op option list \<Rightarrow> seq_state \<Rightarrow> seq_state option" where
  "run_seq env cx [] st = Some st"
| "run_seq env cx (op # ops) st =
     (case sq_current st of
        None \<Rightarrow> None
      | Some (seg, inner) \<Rightarrow>
          (case op of
             Some o' \<Rightarrow>
               if op_enabled o' inner then run_seq env cx ops (st\<lparr>sq_current := Some (seg, op_step env cx o' inner)\<rparr>) else None
           | None \<Rightarrow>
               (case ex_pc inner of
                  BatchReturned slots cancelled \<Rightarrow> run_seq env cx ops (finish_segment env cx seg inner slots cancelled st)
                | _ \<Rightarrow> None)))"

lemma run_seq_steps: "run_seq env cx ops st = Some st' \<Longrightarrow> (seq_step env cx)\<^sup>*\<^sup>* st st'"
proof (induction ops arbitrary: st)
  case (Cons op ops)
  obtain seg inner where cur: "sq_current st = Some (seg, inner)" using Cons.prems by (auto split: option.splits)
  show ?case
  proof (cases op)
    case None
    then obtain slots c where r: "ex_pc inner = BatchReturned slots c"
      "run_seq env cx ops (finish_segment env cx seg inner slots c st) = Some st'"
      using Cons.prems cur by (auto split: main_pc.splits)
    show ?thesis by (rule converse_rtranclp_into_rtranclp [OF Returned [OF cur r(1)] Cons.IH [OF r(2)]])
  next
    case (Some o')
    then have r: "op_enabled o' inner" "run_seq env cx ops (st\<lparr>sq_current := Some (seg, op_step env cx o' inner)\<rparr>) = Some st'"
      using Cons.prems cur by (auto split: if_splits)
    show ?thesis by (rule converse_rtranclp_into_rtranclp [OF Inner [OF cur r(1)] Cons.IH [OF r(2)]])
  qed
qed simp

section \<open>What is invoked, segment by segment\<close>

fun invoked :: "exec_event list \<Rightarrow> nat list" where
  "invoked [] = []"
| "invoked (EvInvoked i # es) = i # invoked es"
| "invoked (e # es) = invoked es"

lemma invoked_append [simp]: "invoked (xs @ ys) = invoked xs @ invoked ys"
  by (induction xs rule: invoked.induct) simp_all

lemma set_invoked: "i \<in> set (invoked es) \<longleftrightarrow> EvInvoked i \<in> set es"
  by (induction es rule: invoked.induct) auto

lemma invoked_map [simp]: "invoked (map (map_event f) es) = map f (invoked es)"
  by (induction es rule: invoked.induct) simp_all

definition input_id :: "batch_call_input \<Rightarrow> nat \<times> tool_call \<times> resource_class" where
  "input_id inp = (bi_index inp, bi_call inp, bi_class inp)"

lemma local_indexed: "indexed (local_inputs seg)"
  unfolding indexed_def by (rule nth_equalityI) (simp_all add: local_inputs_def nth_enumerate_eq)

lemma local_length [simp]: "length (local_inputs seg) = length seg"
  by (simp add: local_inputs_def)

lemma local_nth: "i < length seg \<Longrightarrow> local_inputs seg ! i = (seg ! i)\<lparr>bi_index := i\<rparr>"
  by (simp add: local_inputs_def nth_enumerate_eq)

definition runs_segment :: "batch_env \<Rightarrow> batch_context \<Rightarrow> batch_call_input list \<Rightarrow> exec_state \<Rightarrow> bool" where
  "runs_segment env cx seg inner \<longleftrightarrow>
     (\<exists>tracker fusion aborted. exec_reach env cx (startBatch env cx (local_inputs seg) tracker fusion aborted) inner)"

lemma runs_segment_step: "runs_segment env cx seg inner \<Longrightarrow> op_enabled op inner \<Longrightarrow> runs_segment env cx seg (op_step env cx op inner)"
  using Continue by (fastforce simp: runs_segment_def)

lemma runs_segment_start: "runs_segment env cx seg (startBatch env cx (local_inputs seg) tracker fusion aborted)"
  using Begin by (fastforce simp: runs_segment_def)

lemma segment_ok: "runs_segment env cx seg inner \<Longrightarrow> batch_ok env cx (local_inputs seg) inner"
  using batch_reach_ok local_indexed by (auto simp: runs_segment_def)

lemma segment_invoked:
  assumes "runs_segment env cx seg inner"
  shows "set (map (global_index seg) (invoked (ex_events inner))) \<subseteq> bi_index ` set seg"
proof
  fix j assume "j \<in> set (map (global_index seg) (invoked (ex_events inner)))"
  then obtain i where i: "EvInvoked i \<in> set (ex_events inner)" "j = global_index seg i" by (auto simp: set_invoked)
  have ok: "batch_core env cx (local_inputs seg) inner" using segment_ok [OF assms] by (simp add: batch_ok_def)
  have "(\<exists>th \<in> set (ex_threads inner). \<exists>inp \<in> set (gt_calls th). bi_index inp = i) \<or>
      (\<exists>t. tail_terminal (local_inputs seg) = Some t \<and> bi_index t = i)"
    using ok i(1) by (simp add: batch_core_def)
  then have "\<exists>inp \<in> set (local_inputs seg). bi_index inp = i"
  proof
    assume "\<exists>th \<in> set (ex_threads inner). \<exists>inp \<in> set (gt_calls th). bi_index inp = i"
    then obtain th inp where th: "th \<in> set (ex_threads inner)" "inp \<in> set (gt_calls th)" "bi_index inp = i" by blast
    have "thread_ok env cx (local_inputs seg) inner th" using ok th(1) by (simp add: batch_core_def)
    then have "inp \<in> set (nonTerminalInputs (local_inputs seg))" using th(2) by (simp add: thread_ok_def)
    then show ?thesis using nonTerminal_subset th(3) by blast
  next
    assume "\<exists>t. tail_terminal (local_inputs seg) = Some t \<and> bi_index t = i"
    then show ?thesis using tail_member by blast
  qed
  then have "i < length seg" using indexed_nth [OF local_indexed] by fastforce
  then show "j \<in> bi_index ` set seg" by (simp add: i(2) global_index_def)
qed

lemma segment_results:
  assumes "runs_segment env cx seg inner" and "ex_pc inner = BatchReturned slots cancelled"
  shows "map slot_id (global_slots seg slots) = map input_id seg"
proof -
  have "map slot_id slots = map (\<lambda>inp. (bi_index inp, bi_call inp, bi_class inp)) (local_inputs seg)"
    using segment_ok [OF assms(1)] assms(2) by (simp add: batch_ok_def pc_ok_def)
  then have ids: "length slots = length seg" "\<And>i. i < length seg \<Longrightarrow> slot_id (slots ! i) = (i, bi_call (seg ! i), bi_class (seg ! i))"
  proof -
    assume a: "map slot_id slots = map (\<lambda>inp. (bi_index inp, bi_call inp, bi_class inp)) (local_inputs seg)"
    show l: "length slots = length seg" using map_eq_imp_length_eq [OF a] by simp
    fix i assume i: "i < length seg"
    have "map slot_id slots ! i = map (\<lambda>inp. (bi_index inp, bi_call inp, bi_class inp)) (local_inputs seg) ! i" using a by simp
    then show "slot_id (slots ! i) = (i, bi_call (seg ! i), bi_class (seg ! i))" using i l by (simp add: local_nth)
  qed
  show ?thesis
    by (rule nth_equalityI)
      (use ids in \<open>auto simp: global_slots_def nth_enumerate_eq slot_id_def input_id_def global_index_def\<close>)
qed

section \<open>The invariant of a sequence\<close>

definition laid_out :: "nat list \<Rightarrow> batch_call_input list list \<Rightarrow> bool" where
  "laid_out xs segs \<longleftrightarrow> (\<exists>parts. xs = concat parts \<and> list_all2 (\<lambda>p seg. set p \<subseteq> bi_index ` set seg) parts segs)"

lemma laid_out_Nil [simp]: "laid_out [] []"
  by (auto simp: laid_out_def)

lemma laid_out_snoc:
  assumes "laid_out xs segs" and "set p \<subseteq> bi_index ` set seg"
  shows "laid_out (xs @ p) (segs @ [seg])"
proof -
  obtain parts where "xs = concat parts" "list_all2 (\<lambda>p seg. set p \<subseteq> bi_index ` set seg) parts segs"
    using assms(1) by (auto simp: laid_out_def)
  then have "xs @ p = concat (parts @ [p]) \<and> list_all2 (\<lambda>p seg. set p \<subseteq> bi_index ` set seg) (parts @ [p]) (segs @ [seg])"
    using assms(2) by (simp add: list_all2_appendI)
  then show ?thesis unfolding laid_out_def by blast
qed

definition seq_ok :: "batch_env \<Rightarrow> batch_context \<Rightarrow> batch_call_input list list \<Rightarrow> seq_state \<Rightarrow> bool" where
  "seq_ok env cx segs st \<longleftrightarrow>
     (\<exists>past. map slot_id (sq_results st) = map input_id (concat past) \<and> laid_out (invoked (sq_events st)) past \<and>
       (case sq_current st of
          None \<Rightarrow> past = segs \<and> sq_pending st = []
        | Some (seg, inner) \<Rightarrow> segs = past @ seg # sq_pending st \<and> runs_segment env cx seg inner))"

lemma advance_ok:
  assumes "map slot_id (sq_results st) = map input_id (concat past)" and "laid_out (invoked (sq_events st)) past"
  shows "seq_ok env cx (past @ segs) (advance env cx segs st)"
  using assms
proof (induction segs arbitrary: st past)
  case Nil
  then show ?case by (auto simp: seq_ok_def)
next
  case (Cons seg segs)
  have quiet: "invoked (concat (map (\<lambda>inp. [EvStarted (bi_index inp), EvFinished (bi_index inp) (f inp)]) xs)) = []" for f xs
    by (induction xs) simp_all
  have laid: "laid_out (invoked (sq_events st)) (past @ [seg])" using laid_out_snoc [OF Cons.prems(2), of "[]"] by simp
  have ids: "map slot_id (map (\<lambda>inp. g (fresh_slot inp)) seg) = map input_id seg"
    if "\<And>inp. slot_id (g (fresh_slot inp)) = input_id inp" for g using that by simp
  consider "sq_cancelled st \<or> sq_aborted st" | stop where "\<not> (sq_cancelled st \<or> sq_aborted st)" "br_stoppedBy (sq_report st) = Some stop"
    | "\<not> (sq_cancelled st \<or> sq_aborted st)" "br_stoppedBy (sq_report st) = None" by fastforce
  then show ?case
  proof cases
    case 1
    have "seq_ok env cx ((past @ [seg]) @ segs) (advance env cx segs (cancel_segment seg (st\<lparr>sq_cancelled := True\<rparr>)))"
      by (rule Cons.IH) (use Cons.prems(1) laid in \<open>simp_all add: cancel_segment_def slot_id_def fresh_slot_def input_id_def\<close>)
    then show ?thesis using 1 by simp
  next
    case 2
    have "seq_ok env cx ((past @ [seg]) @ segs) (advance env cx segs (refuse_segment stop seg st))"
      by (rule Cons.IH)
        (use Cons.prems(1) laid in \<open>simp_all add: refuse_segment_def Let_def slot_id_def fresh_slot_def input_id_def quiet\<close>)
    then show ?thesis using 2 by simp
  next
    case 3
    then show ?thesis using Cons.prems by (auto simp: seq_ok_def intro: runs_segment_start)
  qed
qed

lemma seq_step_ok:
  assumes "seq_step env cx st st'" and "seq_ok env cx segs st"
  shows "seq_ok env cx segs st'"
  using assms(1)
proof cases
  case (Inner seg inner op)
  then show ?thesis using assms(2) by (auto simp: seq_ok_def intro: runs_segment_step)
next
  case (Returned seg inner slots cancelled)
  obtain past where r: "map slot_id (sq_results st) = map input_id (concat past)" "laid_out (invoked (sq_events st)) past"
    "segs = past @ seg # sq_pending st" "runs_segment env cx seg inner"
    using assms(2) Returned(2) by (auto simp: seq_ok_def)
  have "laid_out (invoked (seq_events st)) (past @ [seg])"
    unfolding seq_events_def using laid_out_snoc [OF r(2) segment_invoked [OF r(4)]] Returned(2) by simp
  moreover have "map slot_id (sq_results st @ global_slots seg slots) = map input_id (concat (past @ [seg]))"
    using r(1) segment_results [OF r(4) Returned(3)] by simp
  ultimately have "seq_ok env cx ((past @ [seg]) @ sq_pending st) st'"
    unfolding Returned(1) finish_segment_def by (intro advance_ok) simp_all
  then show ?thesis using r(3) by simp
qed

lemma seq_reach_ok: "(seq_step env cx)\<^sup>*\<^sup>* st st' \<Longrightarrow> seq_ok env cx segs st \<Longrightarrow> seq_ok env cx segs st'"
  by (induction rule: rtranclp_induct) (auto intro: seq_step_ok)

lemma start_sequence_ok: "seq_ok env cx segs (start_sequence barriers env cx inputs segs tracker fusion aborted)"
  using advance_ok [where past = "[]"] by (simp add: start_sequence_def)

section \<open>Segments cut a batch in order\<close>

lemma concat_segments_loop: "concat (segments_loop inputs run) = run @ inputs"
  by (induction inputs run rule: segments_loop.induct) auto

lemma concat_segments: "concat (approvalBarrierSegments inputs) = inputs"
  by (simp add: approvalBarrierSegments_def concat_segments_loop)

definition alone_or_plain :: "batch_call_input list \<Rightarrow> bool" where
  "alone_or_plain seg \<longleftrightarrow> (\<exists>inp. seg = [inp] \<and> bi_class inp = ApprovalGated) \<or> (\<forall>inp \<in> set seg. bi_class inp \<noteq> ApprovalGated)"

lemma segments_loop_shape:
  "(\<forall>inp \<in> set run. bi_class inp \<noteq> ApprovalGated) \<Longrightarrow> seg \<in> set (segments_loop inputs run) \<Longrightarrow> alone_or_plain seg"
  by (induction inputs run rule: segments_loop.induct) (auto simp: alone_or_plain_def split: if_splits)

lemma segments_shape: "seg \<in> set (approvalBarrierSegments inputs) \<Longrightarrow> alone_or_plain seg"
  using segments_loop_shape [of "[]"] by (simp add: approvalBarrierSegments_def)

definition indices :: "batch_call_input list list \<Rightarrow> nat list" where
  "indices segs = map bi_index (concat segs)"

lemma laid_out_members: "laid_out xs segs \<Longrightarrow> set xs \<subseteq> set (indices segs)"
  unfolding laid_out_def
proof (elim exE conjE)
  fix parts assume "xs = concat parts" "list_all2 (\<lambda>p seg. set p \<subseteq> bi_index ` set seg) parts segs"
  from this(2,1) show "set xs \<subseteq> set (indices segs)"
    by (induction parts segs arbitrary: xs rule: list_all2_induct) (auto simp: indices_def)
qed

lemma laid_out_sorted:
  assumes "laid_out xs segs" and "sorted_wrt (<) (indices segs)"
  shows "sorted_wrt (\<lambda>a b. a < b \<or> (\<exists>seg \<in> set segs. a \<in> bi_index ` set seg \<and> b \<in> bi_index ` set seg)) xs"
proof -
  obtain parts where "xs = concat parts" "list_all2 (\<lambda>p seg. set p \<subseteq> bi_index ` set seg) parts segs"
    using assms(1) by (auto simp: laid_out_def)
  from this(2,1) assms(2) show ?thesis
  proof (induction parts segs arbitrary: xs rule: list_all2_induct)
    case (Cons p parts seg segs)
    let ?R = "\<lambda>segs a b. a < b \<or> (\<exists>seg \<in> set segs. a \<in> bi_index ` set seg \<and> b \<in> bi_index ` set seg)"
    have lt: "a < b" if "a \<in> bi_index ` set seg" "b \<in> set (indices segs)" for a b
      using that Cons.prems(2) by (auto simp: indices_def sorted_wrt_append)
    have within: "a \<in> bi_index ` set seg" if "a \<in> set p" for a using Cons.hyps(1) that by blast
    have "sorted_wrt (?R segs) (concat parts)"
      using Cons.IH [OF refl] Cons.prems(2) by (simp add: indices_def sorted_wrt_append)
    then have "sorted_wrt (?R (seg # segs)) (concat parts)" by (rule sorted_wrt_mono_rel [rotated]) auto
    moreover have "sorted_wrt (?R (seg # segs)) p"
      unfolding sorted_wrt_iff_nth_less using within nth_mem by (metis list.set_intros(1) less_trans)
    moreover have "a < b" if "a \<in> set p" "b \<in> set (concat parts)" for a b
    proof (rule lt)
      show "a \<in> bi_index ` set seg" using Cons.hyps(1) that(1) by blast
      have "laid_out (concat parts) segs" using Cons.hyps(2) by (auto simp: laid_out_def)
      then show "b \<in> set (indices segs)" using laid_out_members that(2) by blast
    qed
    ultimately show ?case using Cons.prems(1) by (auto simp: sorted_wrt_append)
  qed simp
qed

lemma seq_invoked:
  assumes "seq_ok env cx segs st"
  shows "\<exists>pre rest. segs = pre @ rest \<and> laid_out (invoked (seq_events st)) pre"
proof -
  obtain past where p: "laid_out (invoked (sq_events st)) past" "case sq_current st of
      None \<Rightarrow> past = segs \<and> sq_pending st = []
    | Some (seg, inner) \<Rightarrow> segs = past @ seg # sq_pending st \<and> runs_segment env cx seg inner"
    using assms by (auto simp: seq_ok_def)
  show ?thesis
  proof (cases "sq_current st")
    case None
    then show ?thesis using p by (auto simp: seq_events_def)
  next
    case (Some c)
    obtain seg inner where c: "c = (seg, inner)" by force
    have "laid_out (invoked (seq_events st)) (past @ [seg])"
      unfolding seq_events_def using laid_out_snoc [OF p(1) segment_invoked [of env cx seg inner]] p(2) Some c by simp
    moreover have "segs = (past @ [seg]) @ sq_pending st" using p(2) Some c by simp
    ultimately show ?thesis by blast
  qed
qed

section \<open>A stopped batch\<close>

definition failed_gate :: "batch_slot \<Rightarrow> bool" where
  "failed_gate slot \<longleftrightarrow> sl_class slot = ApprovalGated \<and>
     (case sl_compressed slot of None \<Rightarrow> True | Some r \<Rightarrow> cr_status r \<noteq> StOk)"

definition halted :: "seq_state \<Rightarrow> bool" where
  "halted st \<longleftrightarrow> sq_cancelled st \<or> sq_aborted st \<or> br_stoppedBy (sq_report st) \<noteq> None"

definition stop_ok :: "seq_state \<Rightarrow> bool" where
  "stop_ok st \<longleftrightarrow>
     (\<forall>slot \<in> set (sq_results st). failed_gate slot \<longrightarrow>
        sq_current st = None \<and> (\<forall>j \<in> set (invoked (sq_events st)). j \<le> sl_index slot))"

lemma advance_barriers [simp]: "sq_barriers (advance env cx segs st) = sq_barriers st"
  by (induction env cx segs st rule: advance.induct)
    (simp_all add: cancel_segment_def refuse_segment_def Let_def split: option.splits)

lemma advance_stops:
  assumes "\<forall>slot \<in> set (sq_results st). failed_gate slot \<longrightarrow>
      halted st \<and> (\<forall>j \<in> set (invoked (sq_events st)). j \<le> sl_index slot)"
    and "\<forall>j \<in> set (invoked (sq_events st)). \<forall>inp \<in> set (concat segs). j \<le> bi_index inp"
  shows "stop_ok (advance env cx segs st)"
  using assms
proof (induction segs arbitrary: st)
  case Nil
  then show ?case by (auto simp: stop_ok_def)
next
  case (Cons seg segs)
  have quiet: "invoked (concat (map (\<lambda>inp. [EvStarted (bi_index inp), EvFinished (bi_index inp) (f inp)]) xs)) = []" for f xs
    by (induction xs) simp_all
  consider "sq_cancelled st \<or> sq_aborted st" | stop where "\<not> (sq_cancelled st \<or> sq_aborted st)" "br_stoppedBy (sq_report st) = Some stop"
    | "\<not> (sq_cancelled st \<or> sq_aborted st)" "br_stoppedBy (sq_report st) = None" by fastforce
  then show ?case
  proof cases
    case 1
    have "stop_ok (advance env cx segs (cancel_segment seg (st\<lparr>sq_cancelled := True\<rparr>)))"
      by (rule Cons.IH) (use Cons.prems in \<open>auto simp: cancel_segment_def halted_def fresh_slot_def\<close>)
    then show ?thesis using 1 by simp
  next
    case 2
    have "stop_ok (advance env cx segs (refuse_segment stop seg st))"
      by (rule Cons.IH) (use Cons.prems 2(2) in \<open>auto simp: refuse_segment_def Let_def halted_def fresh_slot_def quiet\<close>)
    then show ?thesis using 2 by simp
  next
    case 3
    then show ?thesis using Cons.prems(1) by (auto simp: stop_ok_def halted_def)
  qed
qed

lemma note_stops:
  assumes "bi_class (hd seg) = ApprovalGated" and "failed_gate slot"
  shows "br_stoppedBy (note_segment seg [slot] False report) \<noteq> None"
  using assms by (auto simp: note_segment_def failed_gate_def Let_def split: option.splits)

lemma seq_step_stop:
  assumes "seq_step env cx st st'" and "seq_ok env cx segs st" and "stop_ok st" and "sq_barriers st"
    and "sorted_wrt (<) (indices segs)" and "\<forall>seg \<in> set segs. alone_or_plain seg"
  shows "stop_ok st'"
  using assms(1)
proof cases
  case (Inner seg inner op)
  then show ?thesis using assms(3) by (auto simp: stop_ok_def)
next
  case (Returned seg inner slots cancelled)
  obtain past where r: "laid_out (invoked (sq_events st)) past" "segs = past @ seg # sq_pending st" "runs_segment env cx seg inner"
    using assms(2) Returned(2) by (auto simp: seq_ok_def)
  have laid: "laid_out (invoked (seq_events st)) (past @ [seg])"
    unfolding seq_events_def using laid_out_snoc [OF r(1) segment_invoked [OF r(3)]] Returned(2) by simp
  have split: "indices segs = indices (past @ [seg]) @ indices (sq_pending st)" by (simp add: indices_def r(2))
  have later: "j \<le> bi_index inp" if "j \<in> set (invoked (seq_events st))" "inp \<in> set (concat (sq_pending st))" for j inp
  proof -
    have "j \<in> set (indices (past @ [seg]))" using laid_out_members [OF laid] that(1) by blast
    moreover have "bi_index inp \<in> set (indices (sq_pending st))" using that(2) by (auto simp: indices_def)
    ultimately show ?thesis using assms(5) unfolding split sorted_wrt_append by (meson less_imp_le)
  qed
  have old: "\<not> failed_gate slot" if "slot \<in> set (sq_results st)" for slot
    using assms(3) Returned(2) that by (auto simp: stop_ok_def)
  have new: "(cancelled \<or> br_stoppedBy (note_segment seg slots cancelled (sq_report st)) \<noteq> None) \<and>
      (\<forall>j \<in> set (invoked (seq_events st)). j \<le> sl_index slot)"
    if s: "slot \<in> set (global_slots seg slots)" and f: "failed_gate slot" for slot
  proof -
    note ids = segment_results [OF r(3) Returned(3)]
    have "slot_id slot \<in> set (map input_id seg)" using s by (metis ids image_eqI set_map)
    then obtain inp where inp: "inp \<in> set seg" "sl_index slot = bi_index inp" "bi_class inp = ApprovalGated"
      using f by (auto simp: slot_id_def input_id_def failed_gate_def)
    then have one: "seg = [inp]" using assms(6) r(2) by (auto simp: alone_or_plain_def)
    have "length slots = 1" using map_eq_imp_length_eq [OF ids] one by (simp add: global_slots_def)
    then obtain b where b: "slots = [b]" by (cases slots) auto
    have "failed_gate b" using s f b by (simp add: global_slots_def failed_gate_def)
    then have "cancelled \<or> br_stoppedBy (note_segment seg slots cancelled (sq_report st)) \<noteq> None"
      using note_stops [of seg b] one inp(3) b by (cases cancelled) simp_all
    moreover have "j \<le> sl_index slot" if "j \<in> set (invoked (seq_events st))" for j
    proof -
      have "j \<in> set (indices past @ [bi_index inp])"
        using laid_out_members [OF laid] that by (auto simp: indices_def one)
      moreover have "sorted_wrt (<) (indices past @ [bi_index inp])"
        using assms(5) unfolding split by (simp add: indices_def one sorted_wrt_append)
      ultimately show ?thesis using inp(2) by (auto simp: sorted_wrt_append)
    qed
    ultimately show ?thesis by blast
  qed
  show ?thesis unfolding Returned(1) finish_segment_def
    by (rule advance_stops) (use old new later assms(4) in \<open>auto simp: halted_def\<close>)
qed

lemma seq_step_barriers: "seq_step env cx st st' \<Longrightarrow> sq_barriers st' = sq_barriers st"
  by (auto simp: finish_segment_def elim!: seq_step.cases)

lemma seq_reach_stop:
  assumes "(seq_step env cx)\<^sup>*\<^sup>* st st'" and "seq_ok env cx segs st" and "stop_ok st" and "sq_barriers st"
    and "sorted_wrt (<) (indices segs)" and "\<forall>seg \<in> set segs. alone_or_plain seg"
  shows "stop_ok st' \<and> sq_barriers st'"
  using assms(1)
proof (induction rule: rtranclp_induct)
  case (step y z)
  then show ?case
    using seq_step_stop [OF step.hyps(2) seq_reach_ok [OF step.hyps(1) assms(2)] _ _ assms(5,6)] seq_step_barriers [OF step.hyps(2)]
    by simp
qed (use assms in simp)

lemma barriers_start_stop: "stop_ok (executeWithApprovalBarriers env cx inputs tracker fusion aborted)"
  unfolding executeWithApprovalBarriers_def start_sequence_def by (rule advance_stops) simp_all

section \<open>The sequence ends\<close>

lemma seq_progress:
  assumes "seq_ok env cx segs st" and "sq_current st \<noteq> None"
  shows "\<exists>st'. seq_step env cx st st'"
proof -
  obtain seg inner where c: "sq_current st = Some (seg, inner)" using assms(2) by force
  then have "batch_ok env cx (local_inputs seg) inner" using assms(1) segment_ok by (auto simp: seq_ok_def)
  then have "(\<exists>slots c. ex_pc inner = BatchReturned slots c) \<or> (\<exists>op. op \<noteq> OpAbort \<and> op_enabled op inner)"
    using step_possible by (metis batch_ok_def)
  then show ?thesis using Inner [OF c] Returned [OF c] by blast
qed

end
