(* ===== verification/Batch_Fanout.thy ===== *)
theory Batch_Fanout
  imports Batch_Termination
begin

text \<open>
  How many calls of a batch are in flight: a parallel group never awaits more than one wave of calls, a
  serialised group never more than one call.
\<close>

definition thread_fan :: "nat \<Rightarrow> group_thread \<Rightarrow> bool" where
  "thread_fan w th \<longleftrightarrow> length (gt_running th) \<le> (if isParallelWithinGroup (gt_class th) then w else 1)"

definition fanout_ok :: "nat \<Rightarrow> exec_state \<Rightarrow> bool" where
  "fanout_ok w st \<longleftrightarrow> (\<forall>th \<in> set (ex_threads st). thread_fan w th)"

lemma set_thread_fanout: "fanout_ok w st \<Longrightarrow> ex_threads stm = ex_threads st \<Longrightarrow> thread_fan w th \<Longrightarrow> fanout_ok w (set_thread g th stm)"
  using set_update_subset_insert [of "ex_threads st" g th] by (fastforce simp: fanout_ok_def set_thread_def)

lemma thread_fan_nth: "fanout_ok w st \<Longrightarrow> g < length (ex_threads st) \<Longrightarrow> thread_fan w (ex_threads st ! g)"
  by (simp add: fanout_ok_def)

lemma denied_update_fan [simp]: "thread_fan w (denied_update inp st th) = thread_fan w th"
  by (simp add: denied_update_def thread_fan_def)

lemma same_threads_fanout: "ex_threads st' = ex_threads st \<Longrightarrow> fanout_ok w st' = fanout_ok w st"
  by (simp add: fanout_ok_def)

lemma fan_remove: "thread_fan w th \<Longrightarrow> thread_fan w (th\<lparr>gt_running := remove1 x (gt_running th)\<rparr>)"
  by (auto simp: thread_fan_def length_remove1)

lemma op_step_fanout:
  assumes ok: "fanout_ok w st" and en: "op_enabled op st" and cap: "cx_maxWaveSize cx = Some w"
  shows "fanout_ok w (op_step env cx op st)"
proof (cases op)
  case OpAbort
  then show ?thesis using ok by (simp add: fanout_ok_def)
next
  case (OpRun g)
  define th where "th = ex_threads st ! g"
  have g: "g < length (ex_threads st)" and idle: "gt_running th = []" using en OpRun by (simp_all add: th_def Let_def)
  show ?thesis
  proof (cases "isParallelWithinGroup (gt_class th)")
    case True
    obtain stm running where wave: "begin_wave env cx (take w (drop (gt_next th) (gt_calls th))) st = (stm, running)" by fastforce
    note f = begin_wave_fields [OF wave]
    have "run_group env cx g st = set_thread g (th\<lparr>gt_next := gt_next th + w, gt_running := running\<rparr>) stm"
      using True wave cap by (simp add: run_group_def run_wave_def Let_def th_def [symmetric])
    moreover have "thread_fan w (th\<lparr>gt_next := gt_next th + w, gt_running := running\<rparr>)"
      using f True by (simp add: thread_fan_def min_le_iff_disj)
    ultimately show ?thesis unfolding OpRun using set_thread_fanout [OF ok] f by simp
  next
    case False
    obtain stm b where call: "begin_call env cx (gt_calls th ! gt_next th) st = (stm, b)" by fastforce
    note f = begin_call_fields [OF call]
    have fans: "thread_fan w (th\<lparr>gt_next := n\<rparr>)" "thread_fan w (th\<lparr>gt_next := n, gt_running := [inp]\<rparr>)" for n inp
      using idle False by (simp_all add: thread_fan_def)
    have threads: "ex_threads (cancel_slot i st) = ex_threads st" "ex_threads (answer_unrun i r st) = ex_threads st" for i r
      by (simp_all add: cancel_slot_def answer_unrun_def emit_def fill_slot_def)
    have "fanout_ok w (run_serial env cx g st)"
    proof (cases "ex_aborted st")
      case True
      then show ?thesis using set_thread_fanout [OF ok threads(1) fans(1)] by (simp add: run_serial_def Let_def th_def [symmetric])
    next
      case na: False
      show ?thesis
      proof (cases "gt_deniedBy th")
        case None
        have "fanout_ok w (set_thread g (th\<lparr>gt_next := Suc (gt_next th), gt_running := [gt_calls th ! gt_next th]\<rparr>) stm)"
          "fanout_ok w (set_thread g (denied_update (gt_calls th ! gt_next th) stm (th\<lparr>gt_next := Suc (gt_next th)\<rparr>)) stm)"
          using set_thread_fanout [OF ok] f fans by simp_all
        then show ?thesis using na None call by (cases b) (simp_all add: run_serial_def Let_def th_def [symmetric])
      next
        case (Some d)
        then show ?thesis using na set_thread_fanout [OF ok threads(2) fans(1)]
          by (simp add: run_serial_def Let_def th_def [symmetric])
      qed
    qed
    then show ?thesis unfolding OpRun using False by (simp add: run_group_def th_def)
  qed
next
  case (OpSettle g inp outcome)
  have g: "g < length (ex_threads st)" using en OpSettle by simp
  define th where "th = ex_threads st ! g"
  have fan: "thread_fan w (th\<lparr>gt_running := remove1 inp (gt_running th)\<rparr>)"
    using fan_remove [OF thread_fan_nth [OF ok g]] by (simp add: th_def)
  then have rej: "thread_fan w (th\<lparr>gt_running := remove1 inp (gt_running th), gt_rejected := True\<rparr>)" by (simp add: thread_fan_def)
  have threads: "ex_threads (complete_call env cx inp r a st) = ex_threads st" for r a
    using frame_complete [of inp st env cx r a] by (simp add: frame_on_def)
  show ?thesis
  proof (cases "invokeRegistry env (ex_aborted st) (bi_call inp) outcome")
    case None
    then show ?thesis unfolding OpSettle using set_thread_fanout [OF ok refl fan] set_thread_fanout [OF ok refl rej]
      by (simp add: settle_group_def Let_def th_def [symmetric])
  next
    case (Some r)
    then show ?thesis unfolding OpSettle
      using set_thread_fanout [OF ok threads fan] set_thread_fanout [OF ok threads] fan
      by (simp add: settle_group_def Let_def th_def [symmetric])
  qed
next
  case OpJoin
  have begins: "ex_threads (fst (begin_call env cx inp st)) = ex_threads st" for inp
    using frame_begin [of inp st env cx] by (simp add: frame_on_def)
  have "ex_threads (join_groups env cx st) = ex_threads st"
    using begins by (simp add: join_groups_def return_batch_def Let_def cancel_slot_def split: option.split)
  then show ?thesis unfolding OpJoin using ok same_threads_fanout [of "join_groups env cx st" st] by simp
next
  case (OpSettleTerminal outcome)
  have fin: "ex_threads (complete_call env cx inp r a st) = ex_threads st" for inp r a
    using frame_complete [of inp st env cx r a] by (simp add: frame_on_def)
  have "ex_threads (settle_terminal env cx inp outcome st) = ex_threads st" for inp
    using fin by (simp add: settle_terminal_def return_batch_def Let_def split: option.split)
  then have "fanout_ok w (settle_terminal env cx inp outcome st)" for inp
    using ok same_threads_fanout [of "settle_terminal env cx inp outcome st" st] by simp
  then show ?thesis unfolding OpSettleTerminal using ok by (simp split: main_pc.split)
qed

lemma start_fanout: "fanout_ok w (startBatch env cx inputs tracker fusion aborted)"
  by (auto simp: fanout_ok_def thread_fan_def startBatch_def Let_def start_thread_def)

lemma reach_fanout:
  assumes "exec_reach env cx (startBatch env cx inputs tracker fusion aborted) st" and "cx_maxWaveSize cx = Some w"
  shows "fanout_ok w st"
  using assms by (induction rule: exec_reach.induct) (auto intro: start_fanout op_step_fanout)

end
