(* ===== verification/Policy_Properties.thy ===== *)
theory Policy_Properties
  imports Batch_Barriers Batch_Fanout Batch_Samples
begin

text \<open>
  The properties of the policy a batch passes before it is dispatched (\<open>src/src/agent/step\<close>) and of the
  two sequential ways of running it.
\<close>

section \<open>Names\<close>

text \<open>The name of a call is never guessed: a name is resolved only to a registered one that differs from it in
  nothing but separators and case, and a registered name to itself.\<close>

theorem emitted_name_is_never_guessed:
  assumes "resolveToolName name registry = Some r"
  shows "jm_has registry r \<and> letters r = letters name \<and> (jm_has registry name \<longrightarrow> r = name)"
  using resolve_letters [OF assms] resolve_registered [of registry name] assms by auto

theorem emitted_name_is_never_guessed_witness:
  "jm_has [(''os.fs.write'', False)] ''os.fs.write'' \<and> letters ''os.fs.write'' = letters ''os_Fs_write''"
proof -
  have "resolveToolName ''os_Fs_write'' [(''os.fs.write'', False)] = Some ''os.fs.write''" by code_simp
  from emitted_name_is_never_guessed [OF this] show ?thesis by simp
qed

section \<open>Admission\<close>


definition policy_env_at :: "nat \<Rightarrow> policy_env" where
  "policy_env_at level = \<lparr>po_resolver = None, po_registry = [(''os.fs.write'', False), (''os.shell.run'', False)], po_cap = 8,
     po_posture = PostureNow \<lparr>bp_level = level, bp_grantedCategories = []\<rparr>, po_terminalOnly = False, po_planMode = False,
     po_orchestrator = False, po_schemaOf = (\<lambda>tool. None), po_validate = (\<lambda>args schema. None)\<rparr>"


text \<open>
  The hypothesis on the names is needed: the names are resolved after the policy ran, and the check that
  nobody would be asked reads the name as it was emitted. Two gated calls written with underscores run
  whole, in order, at a level where the same calls under their own names go behind barriers.
\<close>

lemma near_miss_runs_whole:
  "parseStepBatch (policy_env_at 1) False (map call_of [''os_fs_write'', ''os_shell_run'']) =
     (Inr (plain_batch (map call_of [''os_fs_write'', ''os_shell_run'']) InOrder), None)"
  "map (\<lambda>name. resolveToolName name (po_registry (policy_env_at 1))) [''os_fs_write'', ''os_shell_run''] =
     [Some ''os.fs.write'', Some ''os.shell.run'']"
  "\<not> gatedCallRunsUnattended None ''os.fs.write'' \<lparr>bp_level = 1, bp_grantedCategories = []\<rparr>"
  by code_simp+

text \<open>The trim loses no call: the kept call, the calls to retry and the calls the turn's policy refuses are
  together those of the batch; the kept call may run unless no gated call may, and what is named for a
  retry may run.\<close>

theorem trim_loses_no_call:
  assumes "trimBatchToFirstApprovalGated resolver policy calls = Some trim"
  shows "mset (tr_dropped trim) + mset (map fst (tr_refused trim)) + {#tr_kept trim#} = mset calls \<and>
    (refused_by policy (tr_kept trim) = None \<or> (\<forall>call \<in> set calls. is_gated resolver call \<longrightarrow> refused_by policy call \<noteq> None)) \<and>
    (\<forall>call \<in> set (tr_dropped trim). refused_by policy call = None)"
  using trim_keeps_all [OF assms] by blast

section \<open>Running a batch\<close>

text \<open>A batch split into waves never has more than one wave of calls in flight in its parallel group, nor more
  than one call in any other.\<close>

theorem fanout_is_bounded:
  assumes "exec_reach env cx (startBatch env cx (toBatchInputs resolver calls) tracker fusion aborted) st"
    and "cx_maxWaveSize cx = Some w" and "th \<in> set (ex_threads st)"
  shows "length (gt_running th) \<le> (if isParallelWithinGroup (gt_class th) then w else 1)"
  using reach_fanout [OF assms(1,2)] assms(3) by (simp add: fanout_ok_def thread_fan_def)

theorem fanout_is_bounded_witness:
  "\<forall>th \<in> set (ex_threads (sample_run plain_context (replicate 2 (call_of ''os.fs.read'')) [OpRun 0])).
     length (gt_running th) \<le> (if isParallelWithinGroup (gt_class th) then 1 else 1)"
  using fanout_is_bounded [OF sample_reach, of plain_context 1] by (simp add: plain_context_def)

lemma inputs_indices: "map bi_index (toBatchInputs resolver calls) = [0 ..< length calls]"
  using to_inputs_indexed [of resolver calls] by (simp add: indexed_def)

lemma input_index: "inp \<in> set (toBatchInputs resolver calls) \<Longrightarrow> toBatchInputs resolver calls ! bi_index inp = inp"
  using indexed_nth [OF to_inputs_indexed] by blast

lemma singles_indices: "indices (map (\<lambda>inp. [inp]) inputs) = map bi_index inputs"
  by (induction inputs) (simp_all add: indices_def)

text \<open>C22: in emitted order, calls reach the registry in the order the model wrote them, one after the other, and the
  results at the end are those of the calls, in order.\<close>

theorem emitted_order_is_kept:
  assumes "(seq_step env cx)\<^sup>*\<^sup>* (executeCallsInOrder env cx (toBatchInputs resolver calls) tracker fusion aborted) st"
  shows "sorted (invoked (seq_events st)) \<and>
    (sq_current st = None \<longrightarrow> map slot_id (sq_results st) = map input_id (toBatchInputs resolver calls))"
proof -
  let ?ins = "toBatchInputs resolver calls" and ?segs = "map (\<lambda>inp. [inp]) (toBatchInputs resolver calls)"
  have ok: "seq_ok env cx ?segs st"
    by (rule seq_reach_ok [OF assms]) (unfold executeCallsInOrder_def, rule start_sequence_ok)
  then obtain pre post where pre: "?segs = pre @ post" "laid_out (invoked (seq_events st)) pre" using seq_invoked by blast
  have "sorted_wrt (<) (indices ?segs)" by (simp add: singles_indices inputs_indices)
  then have "sorted_wrt (<) (indices pre)" unfolding pre(1) by (simp add: indices_def sorted_wrt_append)
  from laid_out_sorted [OF pre(2) this]
  have "sorted_wrt (\<lambda>a b. a < b \<or> (\<exists>seg \<in> set pre. a \<in> bi_index ` set seg \<and> b \<in> bi_index ` set seg)) (invoked (seq_events st))" .
  moreover have "a \<le> b" if "seg \<in> set pre" "a \<in> bi_index ` set seg" "b \<in> bi_index ` set seg" for seg a b
  proof -
    have "seg \<in> set ?segs" using that(1) unfolding pre(1) by simp
    then show ?thesis using that(2,3) by auto
  qed
  ultimately have "sorted (invoked (seq_events st))" by (elim sorted_wrt_mono_rel [rotated]) (blast intro: less_imp_le)
  moreover have "concat ?segs = ?ins" by (induction ?ins) simp_all
  then have "map slot_id (sq_results st) = map input_id ?ins" if "sq_current st = None"
    using ok that by (auto simp: seq_ok_def)
  ultimately show ?thesis by blast
qed

definition gated_registry :: tool_registry where
  "gated_registry = [(''os.fs.write'', False), (''os.fs.read'', True)]"

definition write_then_read :: "batch_call_input list" where
  "write_then_read = toBatchInputs None [call_of ''os.fs.write'', call_of ''os.fs.read'']"

definition write_input :: batch_call_input where
  "write_input = \<lparr>bi_index = 0, bi_call = call_of ''os.fs.write'', bi_class = ApprovalGated\<rparr>"

definition one_write :: "invoke_outcome \<Rightarrow> exec_op option list" where
  "one_write outcome = [Some (OpRun 0), Some (OpSettle 0 write_input outcome), Some OpJoin, None]"

definition declined :: invoke_outcome where
  "declined = ToolThrew \<lparr>th_name = ''ApprovalDeniedError'', th_message = ''denied'', th_code = None\<rparr> []"

theorem emitted_order_is_kept_witness:
  "\<exists>st. sorted (invoked (seq_events st)) \<and> EvInvoked 0 \<in> set (seq_events st)"
proof -
  let ?st = "run_seq (batch_env_of gated_registry) plain_context [Some (OpRun 0)]
     (executeCallsInOrder (batch_env_of gated_registry) plain_context write_then_read None emptyFusionOrchestratorState False)"
  have "case ?st of None \<Rightarrow> False | Some st \<Rightarrow> EvInvoked 0 \<in> set (seq_events st)" by code_simp
  then obtain st where st: "?st = Some st" "EvInvoked 0 \<in> set (seq_events st)" by (auto split: option.splits)
  from emitted_order_is_kept [OF run_seq_steps [OF st(1) [unfolded write_then_read_def]]] show ?thesis using st(2) by blast
qed

definition gated_at :: "class_resolver option \<Rightarrow> tool_call list \<Rightarrow> nat \<Rightarrow> bool" where
  "gated_at resolver calls i = is_gated resolver (calls ! i)"

text \<open>C23: behind approval barriers a gated call runs alone: every call before it in the batch that runs at all has
  reached the registry before it does, and every call after it only later.\<close>

theorem gated_call_runs_alone:
  assumes "(seq_step env cx)\<^sup>*\<^sup>* (executeWithApprovalBarriers env cx (toBatchInputs resolver calls) tracker fusion aborted) st"
  shows "sorted_wrt (\<lambda>a b. a \<le> b \<or> \<not> gated_at resolver calls a \<and> \<not> gated_at resolver calls b) (invoked (seq_events st))"
proof -
  let ?ins = "toBatchInputs resolver calls" and ?segs = "approvalBarrierSegments (toBatchInputs resolver calls)"
  have "seq_ok env cx ?segs st"
    by (rule seq_reach_ok [OF assms]) (unfold executeWithApprovalBarriers_def, rule start_sequence_ok)
  then obtain pre post where pre: "?segs = pre @ post" "laid_out (invoked (seq_events st)) pre" using seq_invoked by blast
  have "sorted_wrt (<) (indices ?segs)" by (simp add: indices_def concat_segments inputs_indices)
  then have "sorted_wrt (<) (indices pre)" unfolding pre(1) by (simp add: indices_def sorted_wrt_append)
  from laid_out_sorted [OF pre(2) this]
  have "sorted_wrt (\<lambda>a b. a < b \<or> (\<exists>seg \<in> set pre. a \<in> bi_index ` set seg \<and> b \<in> bi_index ` set seg)) (invoked (seq_events st))" .
  moreover have "a \<le> b \<or> \<not> gated_at resolver calls a \<and> \<not> gated_at resolver calls b"
    if seg: "seg \<in> set pre" "a \<in> bi_index ` set seg" "b \<in> bi_index ` set seg" for seg a b
  proof (cases "\<exists>inp. seg = [inp]")
    case True
    then show ?thesis using seg(2,3) by auto
  next
    case False
    have "seg \<in> set ?segs" using seg(1) unfolding pre(1) by simp
    then have plain: "\<forall>inp \<in> set seg. bi_class inp \<noteq> ApprovalGated" and "set seg \<subseteq> set (concat ?segs)"
      using segments_shape [of seg ?ins] False by (auto simp: alone_or_plain_def)
    then have sub: "set seg \<subseteq> set ?ins" by (simp only: concat_segments)
    have "\<not> gated_at resolver calls (bi_index inp)" if "inp \<in> set seg" for inp
    proof -
      have i: "bi_index inp < length calls" "?ins ! bi_index inp = inp"
        using indexed_nth [OF to_inputs_indexed, of inp resolver calls] that sub by auto
      then have "bi_class inp = resourceClassFor resolver (tc_tool (calls ! bi_index inp))"
        using to_inputs [OF i(1), of resolver] by (metis batch_call_input.select_convs(3))
      moreover have "bi_class inp \<noteq> ApprovalGated" using plain that by blast
      ultimately show ?thesis by (simp add: gated_at_def is_gated_def)
    qed
    then show ?thesis using seg(2,3) by auto
  qed
  ultimately show ?thesis by (elim sorted_wrt_mono_rel [rotated]) (blast intro: less_imp_le)
qed

theorem gated_call_runs_alone_witness:
  "\<exists>st. sorted_wrt (\<lambda>a b. a \<le> b \<or> \<not> gated_at None [call_of ''os.fs.write'', call_of ''os.fs.read''] a \<and>
      \<not> gated_at None [call_of ''os.fs.write'', call_of ''os.fs.read''] b) (invoked (seq_events st)) \<and>
     EvInvoked 1 \<in> set (seq_events st)"
proof -
  let ?st = "run_seq (batch_env_of gated_registry) plain_context (one_write (ToolReturned (ok_result ''os.fs.write'') []) @ [Some (OpRun 0)])
     (executeWithApprovalBarriers (batch_env_of gated_registry) plain_context write_then_read None emptyFusionOrchestratorState False)"
  have "case ?st of None \<Rightarrow> False | Some st \<Rightarrow> EvInvoked 1 \<in> set (seq_events st)" by code_simp
  then obtain st where st: "?st = Some st" "EvInvoked 1 \<in> set (seq_events st)" by (auto split: option.splits)
  from gated_call_runs_alone [OF run_seq_steps [OF st(1) [unfolded write_then_read_def]]] show ?thesis using st(2) by blast
qed

text \<open>C24: once a gated call was not approved or failed, no later call of the batch runs.\<close>

theorem stopped_batch_runs_nothing_more:
  assumes "(seq_step env cx)\<^sup>*\<^sup>* (executeWithApprovalBarriers env cx (toBatchInputs resolver calls) tracker fusion aborted) st"
    and "slot \<in> set (sq_results st)" and "failed_gate slot" and "sl_index slot < j"
  shows "EvInvoked j \<notin> set (seq_events st)"
proof -
  let ?segs = "approvalBarrierSegments (toBatchInputs resolver calls)"
  have "seq_ok env cx ?segs (executeWithApprovalBarriers env cx (toBatchInputs resolver calls) tracker fusion aborted)"
    unfolding executeWithApprovalBarriers_def by (rule start_sequence_ok)
  moreover have "sorted_wrt (<) (indices ?segs)" by (simp add: indices_def concat_segments inputs_indices)
  moreover have "sq_barriers (executeWithApprovalBarriers env cx (toBatchInputs resolver calls) tracker fusion aborted)"
    by (simp add: executeWithApprovalBarriers_def start_sequence_def)
  ultimately have "stop_ok st"
    using seq_reach_stop [OF assms(1) _ barriers_start_stop] segments_shape by blast
  then have "sq_current st = None" "\<forall>j \<in> set (invoked (sq_events st)). j \<le> sl_index slot"
    using assms(2,3) by (auto simp: stop_ok_def)
  then show ?thesis using assms(4) by (auto simp: seq_events_def set_invoked [symmetric])
qed

theorem stopped_batch_runs_nothing_more_witness:
  "\<exists>st. sq_current st = None \<and> length (sq_results st) = 2 \<and> EvInvoked 0 \<in> set (seq_events st) \<and> EvInvoked 1 \<notin> set (seq_events st)"
proof -
  let ?st = "run_seq (batch_env_of gated_registry) plain_context (one_write declined)
     (executeWithApprovalBarriers (batch_env_of gated_registry) plain_context write_then_read None emptyFusionOrchestratorState False)"
  have "case ?st of None \<Rightarrow> False | Some st \<Rightarrow> EvInvoked 0 \<in> set (seq_events st) \<and> sq_current st = None \<and>
      length (sq_results st) = 2 \<and> failed_gate (sq_results st ! 0) \<and> sl_index (sq_results st ! 0) = 0" by code_simp
  then obtain st where st: "?st = Some st" "EvInvoked 0 \<in> set (seq_events st)" "sq_current st = None"
    "length (sq_results st) = 2" "failed_gate (sq_results st ! 0)" "sl_index (sq_results st ! 0) = 0"
    by (auto split: option.splits)
  have "sq_results st ! 0 \<in> set (sq_results st)" using st(4) by simp
  from stopped_batch_runs_nothing_more [OF run_seq_steps [OF st(1) [unfolded write_then_read_def]] this st(5), of 1]
  show ?thesis using st(2,3,4,6) by auto
qed

end
