(* ===== verification/Token_Budget.thy ===== *)
theory Token_Budget
  imports Compressor
begin

text \<open>
  The estimate the prompt builder counts in and the arithmetic of the context window
  (src/prompt/token-budget.ts): the estimator, the reply reserve, the cap of the conversation section,
  the budget check and the cut of a section to a number of tokens.
\<close>

section \<open>The estimator\<close>

text \<open>\<open>text.trim().split(/\s+/).length\<close>: one more than the runs of white space.\<close>

fun space_runs :: "bool \<Rightarrow> string \<Rightarrow> nat" where
  "space_runs inside [] = 0"
| "space_runs inside (c # cs) =
     (if is_space c then (if inside then 0 else 1) + space_runs True cs else space_runs False cs)"

definition words :: "string \<Rightarrow> nat" where
  "words s = Suc (space_runs False (js_trim s))"

text \<open>\<open>Math.ceil(chars / 3.6)\<close> and \<open>Math.ceil(words * 1.4)\<close> over whole numbers.\<close>

definition estimateTokensFromCounts :: "nat \<Rightarrow> nat \<Rightarrow> nat" where
  "estimateTokensFromCounts chars ws = (if chars = 0 then 0 else max ((5 * chars + 17) div 18) ((7 * ws + 4) div 5))"

definition estimateTokens :: "string \<Rightarrow> nat" where
  "estimateTokens s = (if s = [] then 0 else estimateTokensFromCounts (length s) (words s))"

section \<open>The limits\<close>

record token_budget_limits =
  tl_total :: int
  tl_stablePrefix :: int
  tl_session :: int
  tl_worldSnapshot :: int
  tl_conversation :: int

record budget_caps =
  bc_session :: "int option"
  bc_conversation :: "int option"
  bc_worldSnapshot :: "int option"

definition SESSION_SECTIONS_CAP_AUTO :: int where
  "SESSION_SECTIONS_CAP_AUTO = 0"

text \<open>
  \<open>Math.floor(total * 0.15)\<close> is exact. The double 0.35 is a little below 7/20, so the product of a
  multiple of 20 falls below the whole number when that number is in the upper eighth of its binade.
\<close>

definition share_15 :: "int \<Rightarrow> int" where
  "share_15 whole = whole * 3 div 20"

fun binade :: "nat \<Rightarrow> nat" where
  "binade n = (if n < 2 then 1 else 2 * binade (n div 2))"

declare binade.simps [simp del]

definition share_35 :: "nat \<Rightarrow> int" where
  "share_35 whole =
     (let v = whole * 7 div 20
      in if whole mod 20 = 0 \<and> 0 < v \<and> 7 * binade v < 4 * v then int v - 1 else int v)"

definition defaultBudget :: "nat \<Rightarrow> budget_caps \<Rightarrow> token_budget_limits" where
  "defaultBudget whole caps =
     \<lparr>tl_total = int whole, tl_stablePrefix = share_35 whole,
      tl_session = (case bc_session caps of None \<Rightarrow> share_15 (int whole)
                    | Some n \<Rightarrow> if n = SESSION_SECTIONS_CAP_AUTO then share_15 (int whole) else n),
      tl_worldSnapshot = (case bc_worldSnapshot caps of None \<Rightarrow> share_15 (int whole) | Some n \<Rightarrow> n),
      tl_conversation = (case bc_conversation caps of None \<Rightarrow> share_35 whole | Some n \<Rightarrow> n)\<rparr>"

section \<open>The window\<close>

definition CONVERSATION_CAP_SAFETY_MARGIN :: int where
  "CONVERSATION_CAP_SAFETY_MARGIN = 512"

definition AGENT_FIXED_PROMPT_TOKENS :: int where
  "AGENT_FIXED_PROMPT_TOKENS = 8000"

definition SMALL_WINDOW_PROMPT_ROOM :: int where
  "SMALL_WINDOW_PROMPT_ROOM = 16384"

definition MIN_SMALL_WINDOW_REPLY_RESERVE :: int where
  "MIN_SMALL_WINDOW_REPLY_RESERVE = 1024"

definition CONVERSATION_CAP_FLOOR :: int where
  "CONVERSATION_CAP_FLOOR = 512"

definition known_window :: "int option \<Rightarrow> int option" where
  "known_window window = (case window of Some w \<Rightarrow> if w \<le> 0 then None else Some w | None \<Rightarrow> None)"

definition effectiveReplyReserve :: "int \<Rightarrow> int option \<Rightarrow> int" where
  "effectiveReplyReserve completionMaxTokens window =
     (if completionMaxTokens \<le> 0 then 0
      else (case known_window window of
              None \<Rightarrow> completionMaxTokens
            | Some w \<Rightarrow>
                (let smallWindowCap = max MIN_SMALL_WINDOW_REPLY_RESERVE (max (w div 4) (w - SMALL_WINDOW_PROMPT_ROOM))
                 in min completionMaxTokens (min (w div 2) smallWindowCap))))"

definition minUsableContextWindow :: "int \<Rightarrow> int option \<Rightarrow> int" where
  "minUsableContextWindow completionMaxTokens window =
     AGENT_FIXED_PROMPT_TOKENS +
     (case window of
        None \<Rightarrow> completionMaxTokens
      | Some w \<Rightarrow> if w = 0 then completionMaxTokens else effectiveReplyReserve completionMaxTokens (Some w)) +
     CONVERSATION_CAP_SAFETY_MARGIN"

record cap_input =
  ci_configuredCap :: int
  ci_contextWindow :: "int option"
  ci_stablePrefixTokens :: int
  ci_sessionTokens :: int
  ci_worldSnapshotTokens :: int
  ci_profileTokens :: "int option"
  ci_recalledTokens :: "int option"
  ci_memoryIndexTokens :: "int option"
  ci_lessonsTokens :: "int option"
  ci_proceduresTokens :: "int option"
  ci_loadedToolsTokens :: "int option"
  ci_completionMaxTokens :: int
  ci_autoFill :: bool

definition or_zero :: "int option \<Rightarrow> int" where
  "or_zero n = (case n of None \<Rightarrow> 0 | Some k \<Rightarrow> k)"

text \<open>The sections in front of and around the conversation, as the cap subtracts them.\<close>

definition fixed_sections :: "cap_input \<Rightarrow> int" where
  "fixed_sections i =
     ci_stablePrefixTokens i + ci_sessionTokens i + ci_worldSnapshotTokens i + or_zero (ci_profileTokens i) +
     or_zero (ci_recalledTokens i) + or_zero (ci_memoryIndexTokens i) + or_zero (ci_lessonsTokens i) +
     or_zero (ci_proceduresTokens i) + or_zero (ci_loadedToolsTokens i)"

definition computeEffectiveConversationCap :: "cap_input \<Rightarrow> int" where
  "computeEffectiveConversationCap i =
     (case known_window (ci_contextWindow i) of
        None \<Rightarrow> max CONVERSATION_CAP_FLOOR (ci_configuredCap i)
      | Some w \<Rightarrow>
          (let available = w - fixed_sections i - effectiveReplyReserve (ci_completionMaxTokens i) (ci_contextWindow i)
                             - CONVERSATION_CAP_SAFETY_MARGIN
           in if ci_autoFill i then max CONVERSATION_CAP_FLOOR available
              else max CONVERSATION_CAP_FLOOR (min (ci_configuredCap i) available)))"

section \<open>The budget check\<close>

record prompt_sections =
  ps_stablePrefix :: string
  ps_loadedSkills :: string
  ps_sessionFacts :: string
  ps_worldSnapshot :: string
  ps_conversation :: string

record budget_check_result =
  bk_ok :: bool
  bk_exceededBy :: int
  bk_stablePrefix :: nat
  bk_loadedSkills :: nat
  bk_sessionFacts :: nat
  bk_worldSnapshot :: nat
  bk_conversation :: nat
  bk_total :: nat

definition checkBudget :: "prompt_sections \<Rightarrow> token_budget_limits \<Rightarrow> budget_check_result" where
  "checkBudget s limits =
     (let stable = estimateTokens (ps_stablePrefix s); skills = estimateTokens (ps_loadedSkills s);
          facts = estimateTokens (ps_sessionFacts s); world = estimateTokens (ps_worldSnapshot s);
          conversation = estimateTokens (ps_conversation s); whole = stable + (skills + facts) + world + conversation
      in \<lparr>bk_ok = (int whole \<le> tl_total limits), bk_exceededBy = max 0 (int whole - tl_total limits),
          bk_stablePrefix = stable, bk_loadedSkills = skills, bk_sessionFacts = facts, bk_worldSnapshot = world,
          bk_conversation = conversation, bk_total = whole\<rparr>)"

section \<open>The cut of a section\<close>

text \<open>The binary search for the longest prefix that fits: \<open>low\<close>, \<open>high\<close> and \<open>best\<close> as the loop keeps them.\<close>

function cut_search :: "string \<Rightarrow> nat \<Rightarrow> nat \<Rightarrow> nat \<Rightarrow> string \<Rightarrow> string" where
  "cut_search s maxTokens low high best =
     (if low < high
      then let mid = (low + high + 1) div 2; candidate = take mid s
           in if estimateTokens candidate \<le> maxTokens then cut_search s maxTokens mid high candidate
              else cut_search s maxTokens low (mid - 1) best
      else best)"
  by pat_completeness auto
termination by (relation "measure (\<lambda>(s, m, low, high, best). high - low)") auto

declare cut_search.simps [simp del]

definition CUT_MARKER :: string where
  "CUT_MARKER = NEWLINE # ELLIPSIS # '' [truncated]''"

definition truncateToTokens :: "string \<Rightarrow> int \<Rightarrow> string" where
  "truncateToTokens s maxTokens =
     (if maxTokens \<le> 0 then []
      else if int (estimateTokens s) \<le> maxTokens then s
      else let best = cut_search s (nat maxTokens) 0 (length s) []
           in if length CUT_MARKER + 1 < length best then take (length best - length CUT_MARKER) best @ CUT_MARKER
              else best)"

section \<open>The estimate grows with the text\<close>

text \<open>The words a text holds, counted at their first characters.\<close>

fun word_starts :: "bool \<Rightarrow> string \<Rightarrow> nat" where
  "word_starts fresh [] = 0"
| "word_starts fresh (c # cs) =
     (if is_space c then word_starts True cs else (if fresh then 1 else 0) + word_starts False cs)"

lemma word_starts_append_le: "word_starts b s \<le> word_starts b (s @ t)"
  by (induction s arbitrary: b) auto

lemma word_starts_le: "word_starts b s \<le> Suc (word_starts False s)"
  by (induction s arbitrary: b) auto

lemma word_starts_append: "word_starts b (s @ t) \<le> word_starts b s + word_starts True t"
proof (induction s arbitrary: b)
  case Nil
  have "word_starts False t \<le> word_starts True t" by (induction t) auto
  then show ?case by (cases b) simp_all
qed auto

lemma word_starts_front: "word_starts True (dropWhile is_space s) = word_starts True s"
  by (induction s) auto

lemma word_starts_back: "word_starts b (rev (dropWhile is_space (rev s))) = word_starts b s"
proof (induction s arbitrary: b rule: rev_induct)
  case (snoc c s)
  have "word_starts b (s @ [c]) = word_starts b s" if "is_space c" for b
    using that by (induction s arbitrary: b) auto
  then show ?case using snoc by simp
qed simp

lemma runs_words:
  "s \<noteq> [] \<Longrightarrow> \<not> is_space (last s) \<Longrightarrow>
     space_runs False s = word_starts False s \<and> Suc (space_runs True s) = word_starts True s"
  by (induction s) (auto split: if_splits)

lemma words_starts: "words s = max 1 (word_starts True s)"
proof (cases "js_trim s = []")
  case True
  have "word_starts True s = word_starts True (js_trim s)"
    by (simp add: js_trim_def word_starts_back word_starts_front)
  then show ?thesis using True by (simp add: words_def)
next
  case False
  define t where "t = dropWhile is_space s"
  have "js_trim s = rev (dropWhile is_space (rev t))" by (simp only: js_trim_def t_def)
  then have t: "t \<noteq> []" using False by auto
  have first: "\<not> is_space (hd t)" using t unfolding t_def by (rule hd_dropWhile)
  obtain c cs where tc: "t = c # cs" using t by (cases t) auto
  have trim: "js_trim s = rev (dropWhile is_space (rev t))" by (simp add: js_trim_def t_def)
  have "\<not> is_space (last (js_trim s))"
    using False unfolding trim by (simp add: last_rev hd_dropWhile)
  moreover have "hd (js_trim s) = c"
    using first unfolding trim tc by (simp add: dropWhile_append)
  ultimately have "Suc (space_runs False (js_trim s)) = word_starts True (js_trim s)"
    using runs_words [OF False] first tc False by (cases "js_trim s") auto
  also have "\<dots> = word_starts True s" by (simp add: js_trim_def word_starts_back word_starts_front)
  finally show ?thesis by (simp add: words_def)
qed

lemma words_append_le: "words s \<le> words (s @ t)"
  using word_starts_append_le [of True s t] by (simp add: words_starts)

lemma counts_mono:
  "a \<le> b \<Longrightarrow> v \<le> w \<Longrightarrow> estimateTokensFromCounts a v \<le> estimateTokensFromCounts b w"
  unfolding estimateTokensFromCounts_def
  by (cases "a = 0"; cases "b = 0") (auto intro!: max.mono div_le_mono simp del: max_def)

lemma estimate_append_le: "estimateTokens s \<le> estimateTokens (s @ t)"
  using counts_mono [of "length s" "length (s @ t)" "words s" "words (s @ t)"] words_append_le [of s t]
  by (simp add: estimateTokens_def)

lemma estimate_take_mono: "j \<le> k \<Longrightarrow> estimateTokens (take j s) \<le> estimateTokens (take k s)"
  by (metis estimate_append_le min.absorb1 take_add take_take le_add_diff_inverse)

lemma estimate_Nil [simp]: "estimateTokens [] = 0"
  by (simp add: estimateTokens_def)

section \<open>The search finds the longest prefix that fits\<close>

lemma cut_search_longest:
  assumes "low \<le> high" and "high \<le> length s" and "best = take low s" and "estimateTokens best \<le> m"
    and "\<forall>j. high < j \<and> j \<le> length s \<longrightarrow> m < estimateTokens (take j s)"
  shows "\<exists>k \<le> length s. cut_search s m low high best = take k s \<and> estimateTokens (take k s) \<le> m \<and>
           (\<forall>j. k < j \<and> j \<le> length s \<longrightarrow> m < estimateTokens (take j s))"
  using assms
proof (induction s m low high best rule: cut_search.induct)
  case (1 s m low high best)
  show ?case
  proof (cases "low < high")
    case False
    then show ?thesis using 1(3-7) by (intro exI [of _ low]) (simp add: cut_search.simps)
  next
    case True
    define mid where "mid = (low + high + 1) div 2"
    have mid: "low < mid" "mid \<le> high" using True by (simp_all add: mid_def)
    show ?thesis
    proof (cases "estimateTokens (take mid s) \<le> m")
      case fits: True
      have "cut_search s m low high best = cut_search s m mid high (take mid s)"
        using True fits by (simp add: cut_search.simps [of s m low] mid_def Let_def)
      then show ?thesis
        using 1(1) [OF True mid_def refl fits] 1(3-7) mid fits by simp
    next
      case over: False
      have "cut_search s m low high best = cut_search s m low (mid - 1) best"
        using True over by (simp add: cut_search.simps [of s m low] mid_def Let_def)
      moreover have "m < estimateTokens (take j s)" if "mid - 1 < j" "j \<le> length s" for j
        using over estimate_take_mono [of mid j s] that by linarith
      ultimately show ?thesis
        using 1(2) [OF True mid_def refl over] 1(3-7) mid by simp
    qed
  qed
qed

lemma marker_words: "word_starts True CUT_MARKER = 2"
  by (simp add: CUT_MARKER_def NEWLINE_def ELLIPSIS_def is_space_def)

lemma marked_estimate:
  assumes "length CUT_MARKER \<le> length best"
  shows "estimateTokens (take (length best - length CUT_MARKER) best @ CUT_MARKER) \<le> estimateTokens best + 3"
proof -
  define cut where "cut = take (length best - length CUT_MARKER) best"
  have len: "length (cut @ CUT_MARKER) = length best" using assms by (simp add: cut_def)
  have "word_starts True (cut @ CUT_MARKER) \<le> word_starts True cut + 2"
    using word_starts_append [of True cut CUT_MARKER] by (simp add: marker_words)
  also have "word_starts True cut \<le> word_starts True best"
    unfolding cut_def by (metis append_take_drop_id word_starts_append_le)
  finally have ws: "words (cut @ CUT_MARKER) \<le> words best + 2" by (simp add: words_starts)
  have "(7 * words (cut @ CUT_MARKER) + 4) div 5 \<le> (7 * words best + 4) div 5 + 3" using ws by linarith
  then have "estimateTokensFromCounts (length best) (words (cut @ CUT_MARKER)) \<le>
      estimateTokensFromCounts (length best) (words best) + 3"
    by (auto simp: estimateTokensFromCounts_def)
  moreover have ne: "best \<noteq> []" "cut @ CUT_MARKER \<noteq> []" using assms by (auto simp: CUT_MARKER_def)
  ultimately have "estimateTokens (cut @ CUT_MARKER) \<le> estimateTokens best + 3"
    by (simp only: estimateTokens_def if_False len)
  then show ?thesis by (simp only: cut_def)
qed

lemma truncated_estimate: "0 \<le> maxTokens \<Longrightarrow> int (estimateTokens (truncateToTokens s maxTokens)) \<le> maxTokens + 3"
proof -
  assume m: "0 \<le> maxTokens"
  have "\<exists>k \<le> length s. cut_search s (nat maxTokens) 0 (length s) [] = take k s \<and>
      estimateTokens (take k s) \<le> nat maxTokens \<and>
      (\<forall>j. k < j \<and> j \<le> length s \<longrightarrow> nat maxTokens < estimateTokens (take j s))"
    by (rule cut_search_longest) auto
  then show ?thesis
    using m marked_estimate [of "cut_search s (nat maxTokens) 0 (length s) []"]
    by (auto simp: truncateToTokens_def Let_def)
qed

section \<open>The window is never oversold\<close>

lemma reserve_bounds:
  "0 \<le> effectiveReplyReserve c window"
  "known_window window = Some w \<Longrightarrow> effectiveReplyReserve c window \<le> w div 2"
  by (auto simp: effectiveReplyReserve_def Let_def known_window_def MIN_SMALL_WINDOW_REPLY_RESERVE_def
      split: option.splits if_splits)

lemma cap_fits:
  assumes "known_window (ci_contextWindow i) = Some w"
  shows "computeEffectiveConversationCap i = CONVERSATION_CAP_FLOOR \<or>
    computeEffectiveConversationCap i + fixed_sections i + effectiveReplyReserve (ci_completionMaxTokens i) (ci_contextWindow i)
      + CONVERSATION_CAP_SAFETY_MARGIN \<le> w"
  using assms by (simp add: computeEffectiveConversationCap_def Let_def max_def min_def split: if_splits)

end
