(* ===== verification/Conversation_Turn.thy ===== *)
theory Conversation_Turn
  imports Token_Budget Approval_Gate
begin

text \<open>
  The rows of a transcript and the text each one has in a prompt (src/session/conversation-turn.ts): the
  constructors, the render caps of tool results, the pointer a repeated file read renders as, and the
  boundaries of the tasks (macro-turns) a transcript holds. A length is a number of characters.
\<close>

section \<open>The rows\<close>

record read_identity =
  ri_path :: string
  ri_contentHash :: string
  ri_startLine :: int
  ri_endLine :: int
  ri_numbered :: bool

datatype conversation_turn =
    UserTurn (ut_text: string) (ut_steered: bool) (turn_at: int)
  | ToolCallTurn (ct_tool: string) (ct_args: "(string \<times> json) list") (ct_reasoning: "string option") (turn_at: int)
  | ToolResultTurn (rr_tool: string) (rr_status: result_status) (rr_summary: string) (rr_truncated: bool)
      (rr_approvals: "tool_approval_record list") (rr_read: "read_identity option") (turn_at: int)
  | ReplyTurn (ry_text: string) (ry_reasoning: "string option") (ry_attachments: "string list")
      (ry_progressNote: bool) (ry_stopped: bool) (turn_at: int)

definition isFinalReplyTurn :: "conversation_turn option \<Rightarrow> bool" where
  "isFinalReplyTurn turn = (case turn of Some (ReplyTurn _ _ _ note _ _) \<Rightarrow> \<not> note | _ \<Rightarrow> False)"

definition STOPPED_TURN_MARKER_TEXT :: string where
  "STOPPED_TURN_MARKER_TEXT =
     ''(stopped by the user before this turn finished: the request above was not completed. Do not continue it or come back to it unless the user asks for it again. Anything already done before the stop stays done.)''"

definition stoppedTurnMarker :: "int \<Rightarrow> conversation_turn" where
  "stoppedTurnMarker now = ReplyTurn STOPPED_TURN_MARKER_TEXT None [] False True now"

definition isStoppedTurnMarker :: "conversation_turn option \<Rightarrow> bool" where
  "isStoppedTurnMarker turn = (case turn of Some (ReplyTurn _ _ _ _ stopped _) \<Rightarrow> stopped | _ \<Rightarrow> False)"

definition userTurn :: "string \<Rightarrow> int \<Rightarrow> conversation_turn" where
  "userTurn txt now = UserTurn txt False now"

definition steeredUserTurn :: "string \<Rightarrow> int \<Rightarrow> conversation_turn" where
  "steeredUserTurn txt now = UserTurn txt True now"

definition kept_text :: "string option \<Rightarrow> string option" where
  "kept_text t = (if t = Some [] then None else t)"

definition assistantToolCallTurn ::
  "string \<Rightarrow> (string \<times> json) list \<Rightarrow> string option \<Rightarrow> int \<Rightarrow> conversation_turn" where
  "assistantToolCallTurn tool args reasoning now = ToolCallTurn tool args (kept_text reasoning) now"

definition toolResultTurn ::
  "string \<Rightarrow> result_status \<Rightarrow> string \<Rightarrow> bool option \<Rightarrow> tool_approval_record list option \<Rightarrow> read_identity option \<Rightarrow>
     int \<Rightarrow> conversation_turn" where
  "toolResultTurn tool status summary truncated approvals read now =
     ToolResultTurn tool status summary (truncated = Some True) (case approvals of None \<Rightarrow> [] | Some l \<Rightarrow> l) read now"

definition assistantReplyTurn ::
  "string \<Rightarrow> string option \<Rightarrow> string list option \<Rightarrow> bool option \<Rightarrow> int \<Rightarrow> conversation_turn" where
  "assistantReplyTurn txt reasoning attachments progressNote now =
     ReplyTurn txt (kept_text reasoning) (case attachments of None \<Rightarrow> [] | Some l \<Rightarrow> l) (progressNote = Some True) False now"

section \<open>Caps on a rendered result\<close>

definition TOOL_RESULT_RENDER_CAP_CHARS :: nat where
  "TOOL_RESULT_RENDER_CAP_CHARS = 8000"

definition GOG_TOOL_RESULT_RENDER_CAP_CHARS :: nat where
  "GOG_TOOL_RESULT_RENDER_CAP_CHARS = 16000"

definition TOOL_RESULT_HISTORY_CAP_CHARS :: nat where
  "TOOL_RESULT_HISTORY_CAP_CHARS = 400"

definition READ_PAGING_HINT_RESERVE_CHARS :: nat where
  "READ_PAGING_HINT_RESERVE_CHARS = 260"

definition TOOLS_FULL_BODY_WHEN_FRESH :: "string list" where
  "TOOLS_FULL_BODY_WHEN_FRESH =
     [''os.http.request'', ''os.git.log'', ''os.git.status'', ''os.git.branch'', ''os.proc.list'', ''os.window.list'',
      ''browser.tabs'', ''github.pr.list'', ''github.issue.list'']"

definition capSummary :: "string \<Rightarrow> nat \<Rightarrow> string" where
  "capSummary summary cap =
     (if length summary \<le> cap then summary
      else let kept = max 1 (cap - 40)
           in take kept summary @ NEWLINE # ELLIPSIS # '' [rendering-truncated '' @ show_nat (length summary - kept) @ '' chars]'')"

definition capSummaryToTail :: "string \<Rightarrow> nat \<Rightarrow> string" where
  "capSummaryToTail summary cap =
     (if length summary \<le> cap then summary
      else let kept = max 1 (cap - 40)
           in ELLIPSIS # '' [rendering-truncated '' @ show_nat (length summary - kept) @ '' chars]'' @ NEWLINE #
              drop (length summary - kept) summary)"

definition readStartLineOf :: "(string \<times> json) list \<Rightarrow> int option" where
  "readStartLineOf args =
     (case jm_get args ''offset'' of Some (JNum offset) \<Rightarrow> if offset < 0 then None else Some (max 1 offset) | _ \<Rightarrow> Some 1)"

text \<open>\<open>s.lastIndexOf(c, limit)\<close>, and the line break a read ends on dropped.\<close>

fun lastIndexUpTo :: "char \<Rightarrow> string \<Rightarrow> nat \<Rightarrow> nat option" where
  "lastIndexUpTo c s 0 = (if s \<noteq> [] \<and> s ! 0 = c then Some 0 else None)"
| "lastIndexUpTo c s (Suc k) = (if Suc k < length s \<and> s ! Suc k = c then Some (Suc k) else lastIndexUpTo c s k)"

definition without_last_break :: "string \<Rightarrow> string" where
  "without_last_break s =
     (if js_ends_with [CHR 0x0D, NEWLINE] s then take (length s - 2) s
      else if js_ends_with [NEWLINE] s then take (length s - 1) s else s)"

definition capReadSummary :: "string \<Rightarrow> nat \<Rightarrow> int option \<Rightarrow> string" where
  "capReadSummary summary cap startLine =
     (if length summary \<le> cap then summary
      else let budget = max 1 (cap - READ_PAGING_HINT_RESERVE_CHARS)
           in (case lastIndexUpTo NEWLINE summary budget of
                 None \<Rightarrow> capSummary summary cap
               | Some lastBreak \<Rightarrow>
                   if 2 * lastBreak < budget then capSummary summary cap
                   else let shown = take lastBreak summary;
                            rest = without_last_break (drop (lastBreak + 1) summary);
                            shownLines = length (js_split NEWLINE shown); hiddenLines = length (js_split NEWLINE rest);
                            next_range = (case startLine of
                                            None \<Rightarrow> ''the line after the last one shown as `offset`''
                                          | Some l \<Rightarrow> ''offset: '' @ show_int (l + int shownLines))
                        in shown @ NEWLINE # ELLIPSIS # '' [prompt shows the first '' @ show_nat shownLines @
                           '' lines of this read; '' @ show_nat hiddenLines @
                           '' more lines are not shown, and reading the same range again shows the same cut. '' @
                           ''To see them, call os.fs.read with '' @ next_range @ '' and limit: '' @ show_nat shownLines @ '']''))"

section \<open>Rendering\<close>

record render_options =
  ro_inCurrentMacroTurn :: bool
  ro_readStartLine :: "int option"
  ro_readRepeat :: "nat option"

text \<open>The pointer of a repeated read. \<open>ro_readRepeat\<close> holds its \<open>resultsBack\<close>.\<close>

definition readRepeatStub :: "conversation_turn \<Rightarrow> render_options \<Rightarrow> string option" where
  "readRepeatStub turn options =
     (case (ro_readRepeat options, rr_read turn) of
        (Some resultsBack, Some read) \<Rightarrow>
          if rr_tool turn \<noteq> ''os.fs.read'' then None
          else let ls = ri_endLine read - ri_startLine read + 1;
                   place = (if resultsBack \<le> 1 then ''the os.fs.read result just above''
                            else ''the os.fs.read result '' @ show_nat resultsBack @ '' tool results above'');
                   stub = ''[unchanged since your earlier read: same '' @ show_int ls @ '' lines ('' @
                          show_int (ri_startLine read) @ ''-'' @ show_int (ri_endLine read) @ ''), identical text '' @
                          [EM_DASH] @ '' see '' @ place @ ''; not repeated here]''
               in if length stub < length (rr_summary turn) then Some stub else None
      | _ \<Rightarrow> None)"

definition isGogShellResult :: "conversation_turn \<Rightarrow> bool" where
  "isGogShellResult turn = (rr_tool turn = ''os.shell.run'' \<and> js_includes ''$ gog '' (rr_summary turn))"

definition renderToolResultBody :: "conversation_turn \<Rightarrow> render_options \<Rightarrow> string" where
  "renderToolResultBody turn options =
     (case readRepeatStub turn options of
        Some stub \<Rightarrow> stub
      | None \<Rightarrow>
          let summary = rr_summary turn; tool = rr_tool turn; fresh = ro_inCurrentMacroTurn options
          in if isGogShellResult turn \<and> fresh then capSummary summary GOG_TOOL_RESULT_RENDER_CAP_CHARS
             else if \<not> isGogShellResult turn \<and> tool = ''os.shell.run''
               then capSummaryToTail summary (if fresh then TOOL_RESULT_RENDER_CAP_CHARS else TOOL_RESULT_HISTORY_CAP_CHARS)
             else if tool \<in> set TOOLS_FULL_BODY_WHEN_FRESH
               then (if fresh then summary else capSummary summary TOOL_RESULT_HISTORY_CAP_CHARS)
             else if tool = ''fusion.delegate'' \<and> fresh then summary
             else if tool = ''os.fs.read'' then capReadSummary summary TOOL_RESULT_RENDER_CAP_CHARS (ro_readStartLine options)
             else capSummary summary TOOL_RESULT_RENDER_CAP_CHARS)"

fun json_text :: "json \<Rightarrow> string option"
  and json_items :: "json list \<Rightarrow> string list"
  and json_fields :: "(string \<times> json) list \<Rightarrow> string list" where
  "json_text JUndefined = None"
| "json_text JNull = Some ''null''"
| "json_text (JBool b) = Some (if b then ''true'' else ''false'')"
| "json_text (JNum n) = Some (show_int n)"
| "json_text (JStr s) = Some (json_quote s)"
| "json_text (JArr js) = Some (''['' @ joined '','' (json_items js) @ '']'')"
| "json_text (JObj fs) = Some (''{'' @ joined '','' (json_fields fs) @ ''}'')"
| "json_items [] = []"
| "json_items (j # js) = (case json_text j of None \<Rightarrow> ''null'' | Some t \<Rightarrow> t) # json_items js"
| "json_fields [] = []"
| "json_fields ((k, j) # fs) =
     (case json_text j of None \<Rightarrow> json_fields fs | Some t \<Rightarrow> (json_quote k @ '':'' @ t) # json_fields fs)"

definition status_text :: "result_status \<Rightarrow> string" where
  "status_text s = (case s of StOk \<Rightarrow> ''ok'' | StError \<Rightarrow> ''error'')"

definition renderTurnForPrompt :: "conversation_turn \<Rightarrow> render_options \<Rightarrow> string" where
  "renderTurnForPrompt turn options =
     (case turn of
        UserTurn txt _ _ \<Rightarrow> ''user: '' @ txt
      | ToolCallTurn tool args _ _ \<Rightarrow> ''assistant_tool_call: '' @ tool @ '' '' @ ''{'' @ joined '','' (json_fields args) @ ''}''
      | ToolResultTurn tool status _ truncated _ _ _ \<Rightarrow>
          (let start = ''tool_result['' @ tool @ '' '' @ status_text status @ '']''
           in (case readRepeatStub turn options of
                 Some stub \<Rightarrow> start @ '': '' @ stub
               | None \<Rightarrow> start @ '': '' @ renderToolResultBody turn options @ (if truncated then '' (truncated)'' else [])))
      | ReplyTurn txt _ attachments _ _ _ \<Rightarrow>
          (if attachments \<noteq> [] then ''assistant: '' @ txt @ '' (attached: '' @ joined '', '' attachments @ '')''
           else ''assistant: '' @ txt))"

section \<open>The tasks of a transcript\<close>

definition nth_opt :: "'a list \<Rightarrow> nat \<Rightarrow> 'a option" where
  "nth_opt xs i = (if i < length xs then Some (xs ! i) else None)"

definition is_user :: "conversation_turn option \<Rightarrow> bool" where
  "is_user turn = (case turn of Some (UserTurn _ _ _) \<Rightarrow> True | _ \<Rightarrow> False)"

definition is_result :: "conversation_turn option \<Rightarrow> bool" where
  "is_result turn = (case turn of Some (ToolResultTurn _ _ _ _ _ _ _) \<Rightarrow> True | _ \<Rightarrow> False)"

definition is_call :: "conversation_turn option \<Rightarrow> bool" where
  "is_call turn = (case turn of Some (ToolCallTurn _ _ _ _) \<Rightarrow> True | _ \<Rightarrow> False)"

text \<open>The backwards scans: one past the last final reply, and the last user row.\<close>

fun macro_start_from :: "conversation_turn list \<Rightarrow> nat \<Rightarrow> nat" where
  "macro_start_from turns 0 = 0"
| "macro_start_from turns (Suc i) =
     (if isFinalReplyTurn (nth_opt turns i) then Suc i else macro_start_from turns i)"

definition findCurrentMacroTurnStart :: "conversation_turn list \<Rightarrow> nat" where
  "findCurrentMacroTurnStart turns = macro_start_from turns (length turns)"

fun last_user_from :: "conversation_turn list \<Rightarrow> nat \<Rightarrow> nat option" where
  "last_user_from turns 0 = None"
| "last_user_from turns (Suc i) = (if is_user (nth_opt turns i) then Some i else last_user_from turns i)"

definition findLastUserIndex :: "conversation_turn list \<Rightarrow> nat option" where
  "findLastUserIndex turns = last_user_from turns (length turns)"

definition opens_task :: "conversation_turn list \<Rightarrow> nat \<Rightarrow> bool" where
  "opens_task turns i = (is_user (nth_opt turns i) \<and> isFinalReplyTurn (nth_opt turns (i - 1)))"

definition ascending :: "nat list \<Rightarrow> nat list" where
  "ascending xs = sort (remdups xs)"

lemma ascending_sorted [simp]: "sorted_wrt (<) (ascending xs)"
  by (simp add: ascending_def strict_sorted_iff)

lemma set_ascending [simp]: "set (ascending xs) = set xs"
  by (simp add: ascending_def)

text \<open>\<open>recorded\<close> are the boundaries the session stored, when it stored any.\<close>

definition macroTurnBoundaries :: "conversation_turn list \<Rightarrow> int list option \<Rightarrow> nat list" where
  "macroTurnBoundaries turns recorded =
     (if turns = [] then []
      else (case recorded of
              Some (r # rs) \<Rightarrow>
                ascending (0 # map nat (filter (\<lambda>i. 0 < i \<and> i < int (length turns)) (r # rs)))
            | _ \<Rightarrow> 0 # filter (opens_task turns) [1..<length turns]))"

lemma nth_opt_append [simp]: "i < length xs \<Longrightarrow> nth_opt (xs @ ys) i = nth_opt xs i"
  by (simp add: nth_opt_def nth_append)

lemma nth_opt_drop [simp]: "nth_opt (drop k xs) j = nth_opt xs (k + j)"
  by (auto simp: nth_opt_def)

lemma macro_start_le: "macro_start_from turns k \<le> k"
  by (induction k) (auto simp: le_SucI)

lemma macro_start_open: "macro_start_from turns k \<le> i \<Longrightarrow> i < k \<Longrightarrow> \<not> isFinalReplyTurn (nth_opt turns i)"
  by (induction k) (auto simp: less_Suc_eq split: if_splits)

lemma macro_start_after_reply:
  "macro_start_from turns k \<noteq> 0 \<Longrightarrow> isFinalReplyTurn (nth_opt turns (macro_start_from turns k - 1))"
  by (induction k) (auto split: if_splits)

lemma macro_start_mono: "macro_start_from turns k \<le> macro_start_from turns (k + m)"
  by (induction m) (auto intro: macro_start_le le_trans trans_le_add1)

lemma macro_start_cong:
  "(\<And>i. i < k \<Longrightarrow> nth_opt turns i = nth_opt turns' i) \<Longrightarrow> macro_start_from turns k = macro_start_from turns' k"
  by (induction k) auto

lemma last_user_Some:
  "last_user_from turns k = Some i \<Longrightarrow> i < k \<and> is_user (nth_opt turns i) \<and> (\<forall>j. i < j \<and> j < k \<longrightarrow> \<not> is_user (nth_opt turns j))"
  by (induction k) (auto simp: less_Suc_eq split: if_splits)

lemma last_user_None: "last_user_from turns k = None \<longleftrightarrow> (\<forall>i < k. \<not> is_user (nth_opt turns i))"
  by (induction k) (auto simp: less_Suc_eq)

lemma boundaries_sorted: "sorted_wrt (<) (macroTurnBoundaries turns recorded)"
  by (auto simp: macroTurnBoundaries_def sorted_wrt_filter simp del: filter.simps list.map split: option.splits list.splits)

lemma boundaries_bound: "b \<in> set (macroTurnBoundaries turns recorded) \<Longrightarrow> b < length turns"
  by (auto simp: macroTurnBoundaries_def split: option.splits list.splits if_splits)

lemma boundaries_zero: "turns \<noteq> [] \<Longrightarrow> 0 \<in> set (macroTurnBoundaries turns recorded)"
  by (auto simp: macroTurnBoundaries_def split: option.splits list.splits)

text \<open>Rows appended to a transcript open tasks at its end only.\<close>

lemma derived_boundaries_append:
  assumes "turns \<noteq> []" and "recorded = None \<or> recorded = Some []"
  shows "\<exists>later. macroTurnBoundaries (turns @ news) recorded = macroTurnBoundaries turns recorded @ later \<and>
    (\<forall>b \<in> set later. length turns \<le> b)"
proof -
  have same: "filter (opens_task (turns @ news)) [1..<length turns] = filter (opens_task turns) [1..<length turns]"
    by (rule filter_cong) (auto simp: opens_task_def)
  have "[1..<length (turns @ news)] = [1..<length turns] @ [length turns..<length (turns @ news)]"
    using assms(1) upt_add_eq_append [of 1 "length turns" "length news"] by (cases turns) simp_all
  then have "macroTurnBoundaries (turns @ news) recorded = macroTurnBoundaries turns recorded @
      filter (opens_task (turns @ news)) [length turns..<length (turns @ news)]"
    using assms same by (auto simp: macroTurnBoundaries_def)
  then show ?thesis by (intro exI conjI) auto
qed

end
