(* ===== verification/Conversation_Pack.thy ===== *)
theory Conversation_Pack
  imports Conversation_Turn
begin

text \<open>
  Which rows of a transcript a prompt shows (src/session/conversation-turn.ts, \<open>packConversation\<close> and what
  it calls): the reads that repeat an earlier read, the cost of a suffix under the pointers those render
  as, the cut a limit makes, and the cut that is held between two prompts.
\<close>

section \<open>Repeated reads\<close>

definition readIdentityKey :: "read_identity \<Rightarrow> string" where
  "readIdentityKey read =
     joined [NEWLINE] [ri_path read, ri_contentHash read, show_int (ri_startLine read) @ ''-'' @ show_int (ri_endLine read),
       if ri_numbered read then ''n'' else ''p'']"

text \<open>The rows the scan looks at, with their key: good reads that returned lines.\<close>

definition read_key :: "conversation_turn \<Rightarrow> string option" where
  "read_key turn =
     (case turn of
        ToolResultTurn tool status _ _ _ (Some read) _ \<Rightarrow>
          if tool \<noteq> ''os.fs.read'' \<or> status \<noteq> StOk \<or> ri_startLine read < 1 then None else Some (readIdentityKey read)
      | _ \<Rightarrow> None)"

fun repeats_loop ::
  "conversation_turn list \<Rightarrow> nat \<Rightarrow> (string, nat) jsmap \<Rightarrow> conversation_turn list \<Rightarrow> nat option list" where
  "repeats_loop turns i latest [] = []"
| "repeats_loop turns i latest (turn # rest) =
     (case read_key turn of
        None \<Rightarrow> None # repeats_loop turns (i + 1) latest rest
      | Some key \<Rightarrow>
          (case jm_get latest key of
             Some before \<Rightarrow> if rr_summary (turns ! before) = rr_summary turn then Some before else None
           | None \<Rightarrow> None) # repeats_loop turns (i + 1) (jm_set key i latest) rest)"

definition findReadRepeats :: "conversation_turn list \<Rightarrow> nat option list" where
  "findReadRepeats turns = repeats_loop turns 0 [] turns"

text \<open>The first read of each chain, and the tool results before each row.\<close>

fun origins_loop :: "nat list \<Rightarrow> nat option list \<Rightarrow> nat list" where
  "origins_loop acc [] = acc"
| "origins_loop acc (p # ps) = origins_loop (acc @ [case p of None \<Rightarrow> length acc | Some q \<Rightarrow> acc ! q]) ps"

definition resultsBefore :: "conversation_turn list \<Rightarrow> nat \<Rightarrow> nat" where
  "resultsBefore turns i = length (filter (\<lambda>t. is_result (Some t)) (take i turns))"

definition readRepeatRefs :: "conversation_turn list \<Rightarrow> nat option list \<Rightarrow> nat option list" where
  "readRepeatRefs turns previous =
     (let origin = origins_loop [] previous
      in map (\<lambda>i. if previous ! i = None then None
                  else Some (resultsBefore turns i - resultsBefore turns (origin ! i))) [0..<length turns])"

section \<open>What a row costs\<close>

definition plain_options :: "bool \<Rightarrow> render_options" where
  "plain_options fresh = \<lparr>ro_inCurrentMacroTurn = fresh, ro_readStartLine = None, ro_readRepeat = None\<rparr>"

definition tokenCostForTurn :: "conversation_turn \<Rightarrow> bool \<Rightarrow> nat" where
  "tokenCostForTurn turn fresh = estimateTokens (renderTurnForPrompt turn (plain_options fresh)) + 1"

record read_repeat_costs =
  rc_previous :: "nat option list"
  rc_costs :: "nat list"

text \<open>\<open>memo\<close> is the pointer cost a row got in an earlier prompt of the session, when it got one.\<close>

definition readRepeatCosts ::
  "(nat \<Rightarrow> nat option) \<Rightarrow> conversation_turn list \<Rightarrow> nat \<Rightarrow> read_repeat_costs" where
  "readRepeatCosts memo turns currentStart =
     (let previous = findReadRepeats turns; refs = readRepeatRefs turns previous
      in \<lparr>rc_previous = previous,
          rc_costs = map (\<lambda>i.
            case refs ! i of
              None \<Rightarrow> 0
            | Some back \<Rightarrow>
                (case memo i of
                   Some c \<Rightarrow> c
                 | None \<Rightarrow> estimateTokens (renderTurnForPrompt (turns ! i)
                     ((plain_options (currentStart \<le> i))\<lparr>ro_readRepeat := Some back\<rparr>)) + 1)) [0..<length turns]\<rparr>)"

definition turn_costs :: "conversation_turn list \<Rightarrow> nat list" where
  "turn_costs turns =
     map (\<lambda>i. tokenCostForTurn (turns ! i) (findCurrentMacroTurnStart turns \<le> i)) [0..<length turns]"

definition points_from :: "nat option list \<Rightarrow> nat \<Rightarrow> nat \<Rightarrow> bool" where
  "points_from previous from i = (case previous ! i of None \<Rightarrow> False | Some p \<Rightarrow> from \<le> p)"

definition pairTokenCosts ::
  "(nat \<Rightarrow> nat option) \<Rightarrow> conversation_turn list \<Rightarrow> int list option \<Rightarrow> nat list" where
  "pairTokenCosts memo turns recorded =
     (let bs = macroTurnBoundaries turns recorded; repeats = readRepeatCosts memo turns (findCurrentMacroTurnStart turns)
      in map (\<lambda>(start, stop).
               \<Sum>i \<leftarrow> [start..<stop]. if points_from (rc_previous repeats) start i then rc_costs repeats ! i
                                    else tokenCostForTurn (turns ! i) (findCurrentMacroTurnStart turns \<le> i))
           (zip bs (drop 1 bs @ [length turns])))"

definition suffixTokens :: "nat list \<Rightarrow> read_repeat_costs \<Rightarrow> nat \<Rightarrow> nat" where
  "suffixTokens tokenCosts repeats from =
     (\<Sum>i \<leftarrow> [from..<length tokenCosts]. if points_from (rc_previous repeats) from i then rc_costs repeats ! i else tokenCosts ! i)"

section \<open>The cuts\<close>

definition startIndexForPairs :: "nat list \<Rightarrow> nat \<Rightarrow> nat" where
  "startIndexForPairs bs maxPairs =
     (if bs = [] \<or> maxPairs = 0 then 0 else if length bs \<le> maxPairs then 0 else bs ! (length bs - maxPairs))"

definition countDroppedPairs :: "nat list \<Rightarrow> nat \<Rightarrow> nat \<Rightarrow> nat" where
  "countDroppedPairs bs startIndex turnCount = length (filter (\<lambda>stop. stop \<le> startIndex) (drop 1 bs @ (if bs = [] then [] else [turnCount])))"

fun savings_loop :: "nat list \<Rightarrow> read_repeat_costs \<Rightarrow> nat list \<Rightarrow> int list \<Rightarrow> int list" where
  "savings_loop tokenCosts repeats [] savings = savings"
| "savings_loop tokenCosts repeats (i # is) savings =
     savings_loop tokenCosts repeats is
       (case rc_previous repeats ! i of
          None \<Rightarrow> savings
        | Some p \<Rightarrow> savings[p := savings ! p + int (tokenCosts ! i) - int (rc_costs repeats ! i)])"

text \<open>The walk from the newest row back: \<open>k\<close> is the start so far, \<open>acc\<close> its cost.\<close>

fun tokens_loop :: "nat list \<Rightarrow> int list \<Rightarrow> int \<Rightarrow> nat \<Rightarrow> int \<Rightarrow> nat" where
  "tokens_loop tokenCosts savings budget 0 acc = 0"
| "tokens_loop tokenCosts savings budget (Suc i) acc =
     (let cost = int (tokenCosts ! i) - savings ! i
      in if budget < acc + cost then Suc i else tokens_loop tokenCosts savings budget i (acc + cost))"

definition startIndexForTokens :: "nat list \<Rightarrow> nat \<Rightarrow> read_repeat_costs \<Rightarrow> nat" where
  "startIndexForTokens tokenCosts budget repeats =
     (let n = length tokenCosts; savings = savings_loop tokenCosts repeats [0..<n] (replicate n 0)
      in tokens_loop tokenCosts savings (int budget) n 0)"

section \<open>The line for what was dropped\<close>

definition pad :: "nat \<Rightarrow> nat \<Rightarrow> string" where
  "pad n k = replicate (n - length (show_nat k)) (CHR ''0'') @ show_nat k"

text \<open>\<open>new Date(ms).toISOString()\<close>.\<close>

definition iso_date :: "int \<Rightarrow> string" where
  "iso_date ms =
     (let day = ms div 86400000; rest = nat (ms mod 86400000); z = day + 719468; era = z div 146097; doe = z mod 146097;
          yoe = (doe - doe div 1460 + doe div 36524 - doe div 146096) div 365;
          doy = doe - (365 * yoe + yoe div 4 - yoe div 100); mp = (5 * doy + 2) div 153;
          month = (if mp < 10 then mp + 3 else mp - 9); year = yoe + era * 400 + (if month \<le> 2 then 1 else 0);
          year_text = (if 0 \<le> year \<and> year \<le> 9999 then pad 4 (nat year)
                       else (if year < 0 then CHR ''-'' else CHR ''+'') # pad 6 (nat \<bar>year\<bar>))
      in year_text @ ''-'' @ pad 2 (nat month) @ ''-'' @ pad 2 (nat (doy - (153 * mp + 2) div 5 + 1)) @ ''T'' @
         pad 2 (rest div 3600000) @ '':'' @ pad 2 (rest div 60000 mod 60) @ '':'' @ pad 2 (rest div 1000 mod 60) @ ''.'' @
         pad 3 (rest mod 1000) @ ''Z'')"

definition renderDroppedSummary :: "conversation_turn list \<Rightarrow> nat \<Rightarrow> string" where
  "renderDroppedSummary turns droppedPairs =
     (let user = length (filter (\<lambda>t. is_user (Some t)) turns); calls = length (filter (\<lambda>t. is_call (Some t)) turns);
          replies = length (filter (\<lambda>t. isFinalReplyTurn (Some t)) turns);
          first = (case turns of [] \<Rightarrow> 0 | t # _ \<Rightarrow> turn_at t); final = (if turns = [] then first else turn_at (last turns));
          tasks = (if 0 < droppedPairs
                   then '' from '' @ show_nat droppedPairs @ '' earlier task'' @ (if droppedPairs = 1 then [] else ''s'') else [])
      in ''summary: '' @ show_nat (length turns) @ '' older turns dropped'' @ tasks @ '' ('' @ show_nat user @ '' user, '' @
         show_nat calls @ '' tool calls, '' @ show_nat replies @ '' replies; first at '' @ iso_date first @ '', last at '' @
         iso_date final @ '')'')"

section \<open>The pack\<close>

datatype bound_by = PairsBound | TokensBound

record pack_start =
  st_index :: int
  st_at :: int
  st_boundBy :: bound_by

text \<open>
  \<open>ko_lowWater\<close> is \<open>\<lambda>n. Math.floor(n * lowWater)\<close> of a usable fraction, and absent for one that is not.
  \<open>ko_pinCurrentTask\<close> is \<open>pinCurrentTask !== false\<close>.
\<close>

record pack_options =
  ko_pinCurrentTask :: bool
  ko_maxPairs :: "nat option"
  ko_macroTurnStarts :: "int list option"
  ko_lowWater :: "(nat \<Rightarrow> nat) option"
  ko_packStart :: "pack_start option"

record packed_conversation =
  pc_visibleTurns :: "conversation_turn list"
  pc_droppedSummary :: "string option"
  pc_droppedCount :: nat
  pc_visiblePairs :: nat
  pc_droppedPairs :: nat
  pc_boundBy :: "bound_by option"
  pc_packStart :: "pack_start option"

definition SUMMARY_TOKEN_RESERVE :: int where
  "SUMMARY_TOKEN_RESERVE = 40"

definition DEFAULT_CONVERSATION_LOW_WATER :: "nat \<Rightarrow> nat" where
  "DEFAULT_CONVERSATION_LOW_WATER n = n * 65 div 100"

definition lowWaterOf :: "pack_options \<Rightarrow> nat \<Rightarrow> nat" where
  "lowWaterOf options = (case ko_lowWater options of None \<Rightarrow> DEFAULT_CONVERSATION_LOW_WATER | Some f \<Rightarrow> f)"

definition heldPackStart :: "pack_start option \<Rightarrow> conversation_turn list \<Rightarrow> pack_start option" where
  "heldPackStart packStart turns =
     (case packStart of
        None \<Rightarrow> None
      | Some p \<Rightarrow>
          if st_index p \<le> 0 \<or> int (length turns) \<le> st_index p then None
          else if turn_at (turns ! nat (st_index p)) = st_at p then Some p else None)"

text \<open>The measures a pack starts from.\<close>

record pack_facts =
  kf_boundaries :: "nat list"
  kf_currentStart :: nat
  kf_costs :: "nat list"
  kf_repeats :: read_repeat_costs
  kf_budget :: nat
  kf_floor :: nat

definition pack_facts ::
  "(nat \<Rightarrow> nat option) \<Rightarrow> conversation_turn list \<Rightarrow> int \<Rightarrow> pack_options \<Rightarrow> pack_facts" where
  "pack_facts memo turns maxTokens options =
     (let currentStart = findCurrentMacroTurnStart turns
      in \<lparr>kf_boundaries = macroTurnBoundaries turns (ko_macroTurnStarts options), kf_currentStart = currentStart,
          kf_costs = turn_costs turns, kf_repeats = readRepeatCosts memo turns currentStart,
          kf_budget = nat (max 1 (maxTokens - SUMMARY_TOKEN_RESERVE)),
          kf_floor = (case heldPackStart (ko_packStart options) turns of None \<Rightarrow> 0 | Some p \<Rightarrow> nat (st_index p))\<rparr>)"

definition tokens_overflow :: "pack_facts \<Rightarrow> int \<Rightarrow> bool" where
  "tokens_overflow kf maxTokens =
     (let tokensFromFloor = suffixTokens (kf_costs kf) (kf_repeats kf) (kf_floor kf)
      in if kf_floor kf = 0 then maxTokens < int tokensFromFloor else kf_budget kf < tokensFromFloor)"

definition pairs_overflow :: "pack_facts \<Rightarrow> nat \<Rightarrow> nat option \<Rightarrow> bool" where
  "pairs_overflow kf n maxPairs =
     (case maxPairs of
        None \<Rightarrow> False
      | Some m \<Rightarrow> m < length (kf_boundaries kf) - countDroppedPairs (kf_boundaries kf) (kf_floor kf) n)"

definition cut_start ::
  "pack_facts \<Rightarrow> nat \<Rightarrow> int \<Rightarrow> pack_options \<Rightarrow> nat \<times> bound_by option" where
  "cut_start kf n maxTokens options =
     (let over_tokens = tokens_overflow kf maxTokens; over_pairs = pairs_overflow kf n (ko_maxPairs options);
          low = lowWaterOf options
      in if \<not> over_tokens \<and> \<not> over_pairs
         then (kf_floor kf, None)
         else let tokenStart = (if over_tokens
                                then max (kf_floor kf) (startIndexForTokens (kf_costs kf) (max 1 (low (kf_budget kf))) (kf_repeats kf))
                                else kf_floor kf);
                  pairsStart = (case ko_maxPairs options of
                                  Some m \<Rightarrow> if over_pairs
                                            then max (kf_floor kf) (startIndexForPairs (kf_boundaries kf) (max 1 (low m)))
                                            else kf_floor kf
                                | None \<Rightarrow> kf_floor kf)
              in (max tokenStart pairsStart, Some (if over_pairs \<and> tokenStart \<le> pairsStart then PairsBound else TokensBound)))"

text \<open>The two pins: the last user row, and the row that opened the current task.\<close>

definition pin_start :: "pack_facts \<Rightarrow> conversation_turn list \<Rightarrow> bool \<Rightarrow> nat \<Rightarrow> nat" where
  "pin_start kf turns pinCurrentTask start =
     (let start' = (case findLastUserIndex turns of Some u \<Rightarrow> min u start | None \<Rightarrow> start)
      in if pinCurrentTask \<and> kf_currentStart kf < start' \<and> is_user (nth_opt turns (kf_currentStart kf))
         then kf_currentStart kf else start')"

definition or_tokens :: "bound_by option \<Rightarrow> bound_by" where
  "or_tokens b = (case b of None \<Rightarrow> TokensBound | Some x \<Rightarrow> x)"

definition packConversation ::
  "(nat \<Rightarrow> nat option) \<Rightarrow> conversation_turn list \<Rightarrow> int \<Rightarrow> pack_options \<Rightarrow> packed_conversation" where
  "packConversation memo turns maxTokens options =
     (if turns = []
      then \<lparr>pc_visibleTurns = [], pc_droppedSummary = None, pc_droppedCount = 0, pc_visiblePairs = 0,
            pc_droppedPairs = 0, pc_boundBy = None, pc_packStart = None\<rparr>
      else if maxTokens \<le> 0
      then \<lparr>pc_visibleTurns = [], pc_droppedSummary = Some (renderDroppedSummary turns 0), pc_droppedCount = length turns,
            pc_visiblePairs = 0, pc_droppedPairs = length (macroTurnBoundaries turns (ko_macroTurnStarts options)),
            pc_boundBy = Some TokensBound, pc_packStart = None\<rparr>
      else let kf = pack_facts memo turns maxTokens options;
               cut = cut_start kf (length turns) maxTokens options;
               boundBy = (case snd cut of
                            Some b \<Rightarrow> Some b
                          | None \<Rightarrow> map_option st_boundBy (heldPackStart (ko_packStart options) turns));
               start = pin_start kf turns (ko_pinCurrentTask options) (fst cut);
               droppedPairs = countDroppedPairs (kf_boundaries kf) start (length turns);
               visiblePairs = length (kf_boundaries kf) - droppedPairs
           in if take start turns = []
              then \<lparr>pc_visibleTurns = drop start turns, pc_droppedSummary = None, pc_droppedCount = 0,
                    pc_visiblePairs = visiblePairs, pc_droppedPairs = droppedPairs, pc_boundBy = None, pc_packStart = None\<rparr>
              else \<lparr>pc_visibleTurns = drop start turns,
                    pc_droppedSummary = Some (renderDroppedSummary (take start turns) droppedPairs),
                    pc_droppedCount = length (take start turns), pc_visiblePairs = visiblePairs,
                    pc_droppedPairs = droppedPairs, pc_boundBy = Some (or_tokens boundBy),
                    pc_packStart = Some \<lparr>st_index = int start,
                      st_at = (if start < length turns then turn_at (turns ! start) else 0),
                      st_boundBy = or_tokens boundBy\<rparr>\<rparr>)"

definition trimTurnsToTokens ::
  "(nat \<Rightarrow> nat option) \<Rightarrow> conversation_turn list \<Rightarrow> int \<Rightarrow> conversation_turn list \<times> bool" where
  "trimTurnsToTokens memo turns maxTokens =
     (let packed = packConversation memo turns maxTokens
            \<lparr>ko_pinCurrentTask = True, ko_maxPairs = None, ko_macroTurnStarts = None, ko_lowWater = None, ko_packStart = None\<rparr>
      in (pc_visibleTurns packed, 0 < pc_droppedCount packed))"

end
