(* ===== verification/Conversation_Cuts.thy ===== *)
theory Conversation_Cuts
  imports Conversation_Pack
begin

text \<open>
  The walk that finds a token cut keeps an account with savings; these lemmas show that the account is the
  cost of the suffix as it will be rendered, and that a repeated read points to an earlier row with the
  same identity and text.
\<close>

section \<open>The scan for repeated reads\<close>

text \<open>\<open>latest\<close> holds, for each key, the last of the first \<open>i\<close> rows that has it.\<close>

definition latest_ok :: "conversation_turn list \<Rightarrow> nat \<Rightarrow> (string, nat) jsmap \<Rightarrow> bool" where
  "latest_ok turns i latest \<longleftrightarrow>
     (\<forall>key p. jm_get latest key = Some p \<longleftrightarrow>
        p < i \<and> read_key (turns ! p) = Some key \<and> (\<forall>j. p < j \<and> j < i \<longrightarrow> read_key (turns ! j) \<noteq> Some key))"

lemma latest_step:
  assumes "latest_ok turns i latest" and "read_key (turns ! i) = Some key"
  shows "latest_ok turns (Suc i) (jm_set key i latest)"
  unfolding latest_ok_def
proof (intro allI)
  fix key' p
  show "jm_get (jm_set key i latest) key' = Some p \<longleftrightarrow>
    p < Suc i \<and> read_key (turns ! p) = Some key' \<and> (\<forall>j. p < j \<and> j < Suc i \<longrightarrow> read_key (turns ! j) \<noteq> Some key')"
  proof (cases "key' = key")
    case True
    then show ?thesis using assms(2) by (auto simp: less_Suc_eq)
  next
    case False
    then have "jm_get (jm_set key i latest) key' = Some p \<longleftrightarrow> jm_get latest key' = Some p" by simp
    then show ?thesis using assms False by (auto simp: latest_ok_def less_Suc_eq)
  qed
qed

lemma latest_skip: "latest_ok turns i latest \<Longrightarrow> read_key (turns ! i) = None \<Longrightarrow> latest_ok turns (Suc i) latest"
  unfolding latest_ok_def by (auto simp: less_Suc_eq)

lemma latest_start: "latest_ok turns 0 []"
  by (simp add: latest_ok_def)

text \<open>What a repeat says of the two rows.\<close>

definition repeat_of :: "conversation_turn list \<Rightarrow> nat \<Rightarrow> nat \<Rightarrow> bool" where
  "repeat_of turns i p \<longleftrightarrow>
     p < i \<and> read_key (turns ! i) \<noteq> None \<and> read_key (turns ! p) = read_key (turns ! i) \<and>
     rr_summary (turns ! p) = rr_summary (turns ! i) \<and>
     (\<forall>j. p < j \<and> j < i \<longrightarrow> read_key (turns ! j) \<noteq> read_key (turns ! i))"

lemma repeats_loop_spec:
  "latest_ok turns i latest \<Longrightarrow> turns = done_rows @ rest \<Longrightarrow> length done_rows = i \<Longrightarrow>
     length (repeats_loop turns i latest rest) = length rest \<and>
     (\<forall>k < length rest. \<forall>p. repeats_loop turns i latest rest ! k = Some p \<longrightarrow> repeat_of turns (i + k) p)"
proof (induction turns i latest rest arbitrary: done_rows rule: repeats_loop.induct)
  case (2 turns i latest turn rest)
  have row: "turns ! i = turn" using 2(4,5) by auto
  have next_rows: "turns = (done_rows @ [turn]) @ rest" "length (done_rows @ [turn]) = i + 1" using 2(4,5) by auto
  show ?case
  proof (cases "read_key turn")
    case None
    have "latest_ok turns (i + 1) latest" using latest_skip [OF 2(3)] None row by simp
    note ih = 2(1) [OF None this next_rows]
    show ?thesis using ih None by (auto simp: nth_Cons split: nat.splits)
  next
    case (Some key)
    have ok: "latest_ok turns (i + 1) (jm_set key i latest)" using latest_step [OF 2(3)] Some row by simp
    note ih = 2(2) [OF Some ok next_rows]
    have first: "repeat_of turns i p" if "jm_get latest key = Some p" "rr_summary (turns ! p) = rr_summary turn" for p
      using that 2(3) Some row by (auto simp: repeat_of_def latest_ok_def)
    show ?thesis using ih first Some by (auto simp: nth_Cons split: nat.splits option.splits if_splits)
  qed
qed simp

lemma findReadRepeats_length [simp]: "length (findReadRepeats turns) = length turns"
  using repeats_loop_spec [OF latest_start, of turns "[]" turns] by (simp add: findReadRepeats_def)

lemma findReadRepeats_sound: "i < length turns \<Longrightarrow> findReadRepeats turns ! i = Some p \<Longrightarrow> repeat_of turns i p"
  using repeats_loop_spec [OF latest_start, of turns "[]" turns] by (simp add: findReadRepeats_def)

section \<open>The first read of a chain\<close>

definition backwards :: "nat option list \<Rightarrow> bool" where
  "backwards previous \<longleftrightarrow> (\<forall>i < length previous. \<forall>p. previous ! i = Some p \<longrightarrow> p < i)"

lemma origins_spec:
  assumes "backwards (seen @ rest)" and "length acc = length seen"
    and "\<forall>i < length seen. acc ! i = (case seen ! i of None \<Rightarrow> i | Some q \<Rightarrow> acc ! q)"
  shows "length (origins_loop acc rest) = length seen + length rest \<and>
    (\<forall>i < length seen + length rest.
       origins_loop acc rest ! i = (case (seen @ rest) ! i of None \<Rightarrow> i | Some q \<Rightarrow> origins_loop acc rest ! q))"
  using assms
proof (induction rest arbitrary: acc seen)
  case (Cons p ps)
  define acc' where "acc' = acc @ [case p of None \<Rightarrow> length acc | Some q \<Rightarrow> acc ! q]"
  have prior: "q < length acc" if "p = Some q" for q
    using Cons(2,3) that unfolding backwards_def by (metis length_append length_Cons less_add_Suc1 nth_append_length add_Suc_right)
  have earlier: "q < i" if "i < length seen" "seen ! i = Some q" for i q
    using Cons(2) that by (auto simp: backwards_def nth_append dest!: spec [of _ i])
  have acc': "acc' ! i = (case (seen @ [p]) ! i of None \<Rightarrow> i | Some q \<Rightarrow> acc' ! q)" if "i < length (seen @ [p])" for i
  proof (cases "i < length seen")
    case True
    then have "acc' ! i = acc ! i" "(seen @ [p]) ! i = seen ! i" using Cons(3) by (simp_all add: acc'_def nth_append)
    moreover have "acc' ! q = acc ! q" if "seen ! i = Some q" for q
      using earlier [OF True that] True Cons(3) by (simp add: acc'_def nth_append)
    ultimately show ?thesis using Cons(4) True by (auto split: option.splits)
  next
    case False
    then have "i = length acc" using that Cons(3) by simp
    then show ?thesis using prior Cons(3) by (auto simp: acc'_def nth_append split: option.splits)
  qed
  have "backwards ((seen @ [p]) @ ps)" "length acc' = length (seen @ [p])" using Cons(2,3) by (simp_all add: acc'_def)
  note ih = Cons(1) [OF this] and step = origins_loop.simps(2) [of acc p ps, folded acc'_def]
  show ?case using ih acc' unfolding step by simp
next
  case Nil
  then show ?case by (simp only: origins_loop.simps append_Nil2 list.size add_0_right)
qed

text \<open>A chain of pointers ends at a row that is no pointer.\<close>

definition chain_origin :: "nat option list \<Rightarrow> nat list \<Rightarrow> bool" where
  "chain_origin previous origin \<longleftrightarrow> length origin = length previous \<and>
     (\<forall>i < length previous. origin ! i = (case previous ! i of None \<Rightarrow> i | Some q \<Rightarrow> origin ! q))"

lemma origins_chain: "backwards previous \<Longrightarrow> chain_origin previous (origins_loop [] previous)"
  using origins_spec [of "[]" previous "[]"] by (simp add: chain_origin_def)

lemma chain_end:
  assumes "backwards previous" and "chain_origin previous origin" and "i < length previous"
    and "\<And>i p. i < length previous \<Longrightarrow> previous ! i = Some p \<Longrightarrow> R i p"
    and "\<And>i j k. R i j \<Longrightarrow> (j = k \<or> R j k) \<Longrightarrow> R i k"
  shows "origin ! i \<le> i \<and> previous ! (origin ! i) = None \<and> (previous ! i = None \<longrightarrow> origin ! i = i) \<and>
    (previous ! i \<noteq> None \<longrightarrow> R i (origin ! i))"
  using assms(3)
proof (induction i rule: less_induct)
  case (less i)
  show ?case
  proof (cases "previous ! i")
    case None
    then show ?thesis using assms(2) less(2) by (simp add: chain_origin_def)
  next
    case (Some p)
    have p: "p < i" using assms(1) less(2) Some by (simp add: backwards_def)
    have same: "origin ! i = origin ! p" using assms(2) less(2) Some by (simp add: chain_origin_def)
    note ih = less(1) [OF p less_trans [OF p less(2)]]
    have "R i p" using assms(4) less(2) Some by blast
    moreover have "p = origin ! p \<or> R p (origin ! p)" using ih by (cases "previous ! p") auto
    ultimately have "R i (origin ! p)" using assms(5) by blast
    then show ?thesis using ih p same Some by auto
  qed
qed

lemma repeats_backwards: "backwards (findReadRepeats turns)"
  using findReadRepeats_sound by (fastforce simp: backwards_def repeat_of_def)

section \<open>The account of the walk\<close>

definition costs_wf :: "nat list \<Rightarrow> read_repeat_costs \<Rightarrow> bool" where
  "costs_wf tokenCosts repeats \<longleftrightarrow>
     length (rc_previous repeats) = length tokenCosts \<and> length (rc_costs repeats) = length tokenCosts \<and>
     backwards (rc_previous repeats)"

lemma facts_wf: "costs_wf (turn_costs turns) (readRepeatCosts memo turns currentStart)"
  by (simp add: costs_wf_def turn_costs_def readRepeatCosts_def repeats_backwards Let_def)

definition saving :: "nat list \<Rightarrow> read_repeat_costs \<Rightarrow> nat \<Rightarrow> int" where
  "saving tokenCosts repeats i = int (tokenCosts ! i) - int (rc_costs repeats ! i)"

lemma savings_loop_spec:
  assumes "\<forall>i \<in> set is. \<forall>p. rc_previous repeats ! i = Some p \<longrightarrow> p < length savings"
  shows "length (savings_loop tokenCosts repeats is savings) = length savings \<and>
    (\<forall>p < length savings. savings_loop tokenCosts repeats is savings ! p =
       savings ! p + (\<Sum>i \<leftarrow> filter (\<lambda>i. rc_previous repeats ! i = Some p) is. saving tokenCosts repeats i))"
  using assms
proof (induction "is" arbitrary: savings)
  case (Cons i "is")
  show ?case
  proof (cases "rc_previous repeats ! i")
    case None
    then show ?thesis using Cons by simp
  next
    case (Some q)
    then show ?thesis
      using Cons(1) [of "savings[q := savings ! q + int (tokenCosts ! i) - int (rc_costs repeats ! i)]"] Cons(2)
      by (auto simp: saving_def nth_list_update)
  qed
qed simp

lemma suffix_Nil: "suffixTokens tokenCosts repeats (length tokenCosts) = 0"
  by (simp add: suffixTokens_def)

lemma suffix_sum:
  "int (suffixTokens tokenCosts repeats k) =
     (\<Sum>i = k..<length tokenCosts. int (if points_from (rc_previous repeats) k i then rc_costs repeats ! i else tokenCosts ! i))"
  unfolding suffixTokens_def by (simp only: interv_sum_list_conv_sum_set_nat of_nat_sum set_upt)

lemma suffix_step:
  assumes wf: "costs_wf tokenCosts repeats" and i: "i < length tokenCosts"
  shows "int (suffixTokens tokenCosts repeats i) = int (suffixTokens tokenCosts repeats (Suc i)) + int (tokenCosts ! i)
    - (\<Sum>j \<leftarrow> filter (\<lambda>j. rc_previous repeats ! j = Some i) [0..<length tokenCosts]. saving tokenCosts repeats j)"
proof -
  let ?n = "length tokenCosts" and ?prev = "rc_previous repeats"
  let ?t = "\<lambda>k j. int (if points_from ?prev k j then rc_costs repeats ! j else tokenCosts ! j)"
  have prior: "p < j" if "j < ?n" "?prev ! j = Some p" for j p
    using wf that by (auto simp: costs_wf_def backwards_def)
  have own: "?t i i = int (tokenCosts ! i)"
    using prior [OF i] by (auto simp: points_from_def split: option.splits)
  have step: "?t i j = ?t (Suc i) j - (if ?prev ! j = Some i then saving tokenCosts repeats j else 0)" for j
    by (auto simp: points_from_def saving_def split: option.splits)
  have low: "?prev ! j \<noteq> Some i" if "j < Suc i" "j < ?n" for j
    using prior [of j i] that by auto
  have "(\<Sum>j = Suc i..<?n. if ?prev ! j = Some i then saving tokenCosts repeats j else 0) =
      (\<Sum>j = 0..<?n. if ?prev ! j = Some i then saving tokenCosts repeats j else 0)"
    by (rule sum.mono_neutral_left) (use low in auto)
  also have "\<dots> = (\<Sum>j \<leftarrow> [0..<?n]. if ?prev ! j = Some i then saving tokenCosts repeats j else 0)"
    by (simp add: interv_sum_list_conv_sum_set_nat)
  also have "\<dots> = (\<Sum>j \<leftarrow> filter (\<lambda>j. ?prev ! j = Some i) [0..<?n]. saving tokenCosts repeats j)"
    by (rule sum_list_map_filter' [symmetric])
  finally have saved: "(\<Sum>j = Suc i..<?n. if ?prev ! j = Some i then saving tokenCosts repeats j else 0) =
      (\<Sum>j \<leftarrow> filter (\<lambda>j. ?prev ! j = Some i) [0..<?n]. saving tokenCosts repeats j)" .
  have "(\<Sum>j = i..<?n. ?t i j) = ?t i i + (\<Sum>j = Suc i..<?n. ?t i j)"
    by (rule sum.atLeast_Suc_lessThan [OF i])
  also have "(\<Sum>j = Suc i..<?n. ?t i j) =
      (\<Sum>j = Suc i..<?n. ?t (Suc i) j) - (\<Sum>j = Suc i..<?n. if ?prev ! j = Some i then saving tokenCosts repeats j else 0)"
    by (simp only: step sum_subtractf)
  finally show ?thesis unfolding suffix_sum own saved by linarith
qed

text \<open>The walk stops at the first suffix, from the newest row back, that costs more than the budget.\<close>

lemma tokens_loop_spec:
  assumes "costs_wf tokenCosts repeats" and "k \<le> length tokenCosts"
    and "\<forall>i < length tokenCosts. savings ! i =
      (\<Sum>j \<leftarrow> filter (\<lambda>j. rc_previous repeats ! j = Some i) [0..<length tokenCosts]. saving tokenCosts repeats j)"
    and "acc = int (suffixTokens tokenCosts repeats k)"
    and "\<forall>j. k \<le> j \<and> j \<le> length tokenCosts \<longrightarrow> int (suffixTokens tokenCosts repeats j) \<le> budget"
    and "r = tokens_loop tokenCosts savings budget k acc"
  shows "r \<le> k \<and> (\<forall>j. r \<le> j \<and> j \<le> length tokenCosts \<longrightarrow> int (suffixTokens tokenCosts repeats j) \<le> budget) \<and>
    (0 < r \<longrightarrow> budget < int (suffixTokens tokenCosts repeats (r - 1)))"
  using assms(2,4,5,6)
proof (induction k arbitrary: acc)
  case 0
  then show ?case by simp
next
  case (Suc i)
  have here: "int (suffixTokens tokenCosts repeats i) = acc + (int (tokenCosts ! i) - savings ! i)"
    using suffix_step [OF assms(1), of i] assms(3) Suc(2,3) by simp
  show ?case
  proof (cases "budget < acc + (int (tokenCosts ! i) - savings ! i)")
    case True
    then show ?thesis using Suc(4,5) here by (simp add: Let_def)
  next
    case False
    have "\<forall>j. i \<le> j \<and> j \<le> length tokenCosts \<longrightarrow> int (suffixTokens tokenCosts repeats j) \<le> budget"
      using Suc(4) False here by (metis le_antisym linorder_not_less not_less_eq_eq)
    then show ?thesis using Suc(1) [OF _ here [symmetric]] Suc(2,5) False by (simp add: Let_def)
  qed
qed

lemma token_start:
  assumes "costs_wf tokenCosts repeats" and "r = startIndexForTokens tokenCosts budget repeats"
  shows "r \<le> length tokenCosts"
    and "\<And>j. r \<le> j \<Longrightarrow> j \<le> length tokenCosts \<Longrightarrow> suffixTokens tokenCosts repeats j \<le> budget"
    and "0 < r \<Longrightarrow> budget < suffixTokens tokenCosts repeats (r - 1)"
proof -
  let ?n = "length tokenCosts"
  have "\<forall>i \<in> set [0..<?n]. \<forall>p. rc_previous repeats ! i = Some p \<longrightarrow> p < length (replicate ?n (0 :: int))"
    using assms(1) by (fastforce simp: costs_wf_def backwards_def)
  note savings = savings_loop_spec [OF this]
  have "r \<le> ?n \<and> (\<forall>j. r \<le> j \<and> j \<le> ?n \<longrightarrow> int (suffixTokens tokenCosts repeats j) \<le> int budget) \<and>
    (0 < r \<longrightarrow> int budget < int (suffixTokens tokenCosts repeats (r - 1)))"
    by (rule tokens_loop_spec [OF assms(1) order_refl])
      (use savings assms(2) in \<open>auto simp: startIndexForTokens_def Let_def suffixTokens_def\<close>)
  then show "r \<le> ?n" "\<And>j. r \<le> j \<Longrightarrow> j \<le> ?n \<Longrightarrow> suffixTokens tokenCosts repeats j \<le> budget"
    "0 < r \<Longrightarrow> budget < suffixTokens tokenCosts repeats (r - 1)" by simp_all
qed

end
