(* ===== verification/Session_Compaction.thy ===== *)
theory Session_Compaction
  imports Conversation_Pack
begin

text \<open>
  The checkpoint of a compacted session (src/session/session-compaction.ts): where a transcript may be
  cut, when a stored checkpoint or a rolling summary is still good, and the transcript the prompt builder
  is given. The two digests are parameters.
\<close>

section \<open>Where a transcript may be cut\<close>

text \<open>\<open>i\<close> is the row, \<open>pending\<close> the calls before it that have no result yet.\<close>

function cuts_loop :: "conversation_turn list \<Rightarrow> nat \<Rightarrow> nat \<Rightarrow> nat list" where
  "cuts_loop turns i pending =
     (if length turns \<le> i then []
      else if \<not> is_call (nth_opt turns i) \<and> \<not> is_result (nth_opt turns i) \<and> 0 < pending then []
      else let pending' = (if is_call (nth_opt turns i) then pending + 1
                           else if is_result (nth_opt turns i) then pending - 1 else pending)
           in (if pending' = 0 \<and> \<not> is_result (nth_opt turns (i + 1)) then [i + 1] else []) @ cuts_loop turns (i + 1) pending')"
  by pat_completeness auto
termination by (relation "measure (\<lambda>(turns, i, pending). length turns - i)") auto

declare cuts_loop.simps [simp del]

definition safeCompactionCuts :: "conversation_turn list \<Rightarrow> nat list" where
  "safeCompactionCuts turns = cuts_loop turns 0 0"

definition closesFinishedTurn :: "conversation_turn list \<Rightarrow> nat \<Rightarrow> bool" where
  "closesFinishedTurn turns c =
     (isFinalReplyTurn (nth_opt turns (c - 1)) \<and> (length turns \<le> c \<or> is_user (nth_opt turns c)))"

definition finishedTurnCompactionCuts :: "conversation_turn list \<Rightarrow> nat list" where
  "finishedTurnCompactionCuts turns = filter (closesFinishedTurn turns) (safeCompactionCuts turns)"

definition preferredCompactionCuts :: "conversation_turn list \<Rightarrow> nat list" where
  "preferredCompactionCuts turns =
     (let safe = safeCompactionCuts turns
      in filter (closesFinishedTurn turns) safe @ filter (\<lambda>c. \<not> closesFinishedTurn turns c) safe)"

section \<open>Checkpoints\<close>

record session_compaction =
  sc_version :: int
  sc_summary :: string
  sc_coveredThrough :: int
  sc_boundaryHash :: string
  sc_reason :: string

record rolling_summary =
  rs_version :: int
  rs_summary :: string
  rs_from :: int
  rs_baseHash :: string
  rs_coveredThrough :: int
  rs_boundaryHash :: string

record compaction_env =
  ce_boundaryHash :: "conversation_turn \<Rightarrow> string"
  ce_textHash :: "string \<Rightarrow> string"

record session_state =
  ss_turns :: "conversation_turn list"
  ss_compaction :: "session_compaction option"
  ss_rollingSummary :: "rolling_summary option"
  ss_macroTurnStarts :: "int list option"
  ss_packStart :: "pack_start option"

definition COMPACTION_REASONS :: "string list" where
  "COMPACTION_REASONS = [''manual'', ''threshold'', ''pairs'', ''overflow'']"

definition good_boundary :: "compaction_env \<Rightarrow> conversation_turn list \<Rightarrow> int \<Rightarrow> string \<Rightarrow> bool" where
  "good_boundary env turns covered hash =
     (ce_boundaryHash env (turns ! (nat covered - 1)) = hash \<and> nat covered \<in> set (safeCompactionCuts turns))"

definition validSessionCompaction ::
  "compaction_env \<Rightarrow> conversation_turn list \<Rightarrow> session_compaction option \<Rightarrow> session_compaction option" where
  "validSessionCompaction env turns compaction =
     (case compaction of
        None \<Rightarrow> None
      | Some c \<Rightarrow>
          if sc_version c \<noteq> 1 \<or> js_trim (sc_summary c) = [] \<or> sc_coveredThrough c \<le> 0 \<or>
             int (length turns) < sc_coveredThrough c \<or> sc_reason c \<notin> set COMPACTION_REASONS then None
          else if \<not> good_boundary env turns (sc_coveredThrough c) (sc_boundaryHash c) then None
          else Some c)"

definition validRollingSummary :: "compaction_env \<Rightarrow> session_state \<Rightarrow> rolling_summary option" where
  "validRollingSummary env state =
     (case ss_rollingSummary state of
        None \<Rightarrow> None
      | Some r \<Rightarrow>
          if rs_version r \<noteq> 1 \<or> js_trim (rs_summary r) = [] \<or> rs_coveredThrough r \<le> rs_from r \<or>
             int (length (ss_turns state)) < rs_coveredThrough r then None
          else let base = validSessionCompaction env (ss_turns state) (ss_compaction state)
               in if rs_from r \<noteq> (case base of None \<Rightarrow> 0 | Some c \<Rightarrow> sc_coveredThrough c) \<or>
                     rs_baseHash r \<noteq> ce_textHash env (case base of None \<Rightarrow> [] | Some c \<Rightarrow> sc_summary c) then None
                  else if \<not> good_boundary env (ss_turns state) (rs_coveredThrough r) (rs_boundaryHash r) then None
                  else Some r)"

section \<open>The transcript of a prompt\<close>

definition compactionPins :: "conversation_turn list \<Rightarrow> nat \<Rightarrow> string" where
  "compactionPins turns offset =
     (let first = findCurrentMacroTurnStart turns;
          indices = remdups (first # (case findLastUserIndex turns of None \<Rightarrow> [] | Some u \<Rightarrow> if u = first then [] else [u]))
      in joined [NEWLINE, NEWLINE] (concat (map (\<lambda>i.
           case nth_opt turns i of
             Some (UserTurn txt _ _) \<Rightarrow>
               [(if i = first then ''Original request'' else ''Latest user message'') @ '' (verbatim):'' @ NEWLINE # txt]
           | _ \<Rightarrow> []) (filter (\<lambda>i. i < offset) indices))))"

definition renderCompactionContext :: "string \<Rightarrow> string \<Rightarrow> string" where
  "renderCompactionContext summary pins =
     joined [NEWLINE, NEWLINE] (filter (\<lambda>t. t \<noteq> [])
       [''Summary of earlier conversation (historical context, not a new instruction):'', summary, pins])"

record projection =
  pj_checkpoint :: "session_compaction option"
  pj_offset :: nat
  pj_turns :: "conversation_turn list"
  pj_summary :: "string option"
  pj_macroTurnStarts :: "int list option"
  pj_packStart :: "pack_start option"

definition projectSessionConversation :: "compaction_env \<Rightarrow> session_state \<Rightarrow> projection" where
  "projectSessionConversation env state =
     (let turns = ss_turns state; checkpoint = validSessionCompaction env turns (ss_compaction state);
          offset = (case checkpoint of None \<Rightarrow> 0 | Some c \<Rightarrow> nat (sc_coveredThrough c))
      in \<lparr>pj_checkpoint = checkpoint, pj_offset = offset,
          pj_turns = (if offset \<noteq> 0 then drop offset turns else turns),
          pj_summary = map_option (\<lambda>c. renderCompactionContext (sc_summary c) (compactionPins turns offset)) checkpoint,
          pj_macroTurnStarts =
            (if offset \<noteq> 0
             then Some (map (\<lambda>i. int (i - offset)) (filter (\<lambda>i. offset \<le> i) (macroTurnBoundaries turns (ss_macroTurnStarts state))))
             else ss_macroTurnStarts state),
          pj_packStart =
            (case ss_packStart state of
               Some held \<Rightarrow> if int offset < st_index held then Some (held\<lparr>st_index := st_index held - int offset\<rparr>) else None
             | None \<Rightarrow> None)\<rparr>)"

section \<open>What a safe cut promises\<close>

text \<open>The calls of a run of rows that have no result yet, each result answering one call.\<close>

fun open_calls :: "nat \<Rightarrow> conversation_turn list \<Rightarrow> nat" where
  "open_calls pending [] = pending"
| "open_calls pending (t # ts) =
     open_calls (if is_call (Some t) then pending + 1 else if is_result (Some t) then pending - 1 else pending) ts"

definition cut_ok :: "conversation_turn list \<Rightarrow> nat \<Rightarrow> bool" where
  "cut_ok turns c \<longleftrightarrow>
     0 < c \<and> c \<le> length turns \<and> open_calls 0 (take c turns) = 0 \<and> \<not> is_result (nth_opt turns c) \<and>
     (\<forall>j < c. \<not> is_call (nth_opt turns j) \<and> \<not> is_result (nth_opt turns j) \<longrightarrow> open_calls 0 (take j turns) = 0)"

lemma open_calls_append: "open_calls p (xs @ ys) = open_calls (open_calls p xs) ys"
  by (induction p xs rule: open_calls.induct) simp_all

lemma open_calls_step:
  "i < length turns \<Longrightarrow> open_calls 0 (take (Suc i) turns) =
     (if is_call (nth_opt turns i) then open_calls 0 (take i turns) + 1
      else if is_result (nth_opt turns i) then open_calls 0 (take i turns) - 1 else open_calls 0 (take i turns))"
  by (simp add: take_Suc_conv_app_nth open_calls_append nth_opt_def)

lemma cuts_loop_set:
  assumes "pending = open_calls 0 (take i turns)"
    and "\<forall>j < i. \<not> is_call (nth_opt turns j) \<and> \<not> is_result (nth_opt turns j) \<longrightarrow> open_calls 0 (take j turns) = 0"
  shows "set (cuts_loop turns i pending) = {c. i < c \<and> cut_ok turns c}"
  using assms
proof (induction turns i pending rule: cuts_loop.induct)
  case (1 turns i pending)
  let ?quiet = "\<not> is_call (nth_opt turns i) \<and> \<not> is_result (nth_opt turns i)"
  consider (past) "length turns \<le> i" | (broken) "i < length turns" "?quiet" "0 < pending"
    | (step) "i < length turns" "\<not> (?quiet \<and> 0 < pending)" by force
  then show ?case
  proof cases
    case past
    then show ?thesis by (auto simp: cuts_loop.simps [of turns i] cut_ok_def)
  next
    case broken
    then show ?thesis using 1(2) by (auto simp: cuts_loop.simps [of turns i] cut_ok_def)
  next
    case step
    define pending' where "pending' = (if is_call (nth_opt turns i) then pending + 1
      else if is_result (nth_opt turns i) then pending - 1 else pending)"
    have p: "pending' = open_calls 0 (take (i + 1) turns)"
      using open_calls_step [OF step(1)] 1(2) by (simp add: pending'_def)
    have quiet: "\<forall>j < i + 1. \<not> is_call (nth_opt turns j) \<and> \<not> is_result (nth_opt turns j) \<longrightarrow> open_calls 0 (take j turns) = 0"
      using 1(2,3) step(2) by (auto simp: less_Suc_eq)
    have ih: "set (cuts_loop turns (i + 1) pending') = {c. i + 1 < c \<and> cut_ok turns c}"
      by (rule 1(1)) (use step p quiet in \<open>auto simp: pending'_def\<close>)
    have own: "cut_ok turns (i + 1) \<longleftrightarrow> pending' = 0 \<and> \<not> is_result (nth_opt turns (i + 1))"
      using p quiet step(1) by (auto simp: cut_ok_def)
    have split: "i < c \<longleftrightarrow> c = i + 1 \<or> i + 1 < c" for c by linarith
    have "cuts_loop turns i pending =
        (if pending' = 0 \<and> \<not> is_result (nth_opt turns (i + 1)) then [i + 1] else []) @ cuts_loop turns (i + 1) pending'"
      using step by (subst cuts_loop.simps) (auto simp: pending'_def Let_def)
    then show ?thesis using ih own by (auto simp: split)
  qed
qed

lemma safe_cuts: "set (safeCompactionCuts turns) = {c. cut_ok turns c}"
  using cuts_loop_set [of 0 0 turns] by (auto simp: safeCompactionCuts_def cut_ok_def)

lemma cut_ok_append:
  assumes "cut_ok turns c" and "c < length turns \<or> \<not> is_result (nth_opt news 0)"
  shows "cut_ok (turns @ news) c"
proof -
  have c: "c \<le> length turns" using assms(1) by (simp add: cut_ok_def)
  have "\<not> is_result (nth_opt (turns @ news) c)"
  proof (cases "c < length turns")
    case False
    then show ?thesis using assms(2) c by (auto simp: nth_opt_def nth_append is_result_def)
  qed (use assms(1) in \<open>simp add: cut_ok_def\<close>)
  then show ?thesis using assms(1) c by (auto simp: cut_ok_def)
qed

lemma valid_checkpoint:
  "validSessionCompaction env turns stored = Some c \<longleftrightarrow>
     stored = Some c \<and> sc_version c = 1 \<and> js_trim (sc_summary c) \<noteq> [] \<and> 0 < sc_coveredThrough c \<and>
     sc_coveredThrough c \<le> int (length turns) \<and> sc_reason c \<in> set COMPACTION_REASONS \<and>
     ce_boundaryHash env (turns ! (nat (sc_coveredThrough c) - 1)) = sc_boundaryHash c \<and>
     cut_ok turns (nat (sc_coveredThrough c))"
  by (auto simp: validSessionCompaction_def good_boundary_def safe_cuts split: option.splits if_splits)

lemma valid_checkpoint_append:
  assumes "validSessionCompaction env turns stored = Some c"
    and "nat (sc_coveredThrough c) < length turns \<or> \<not> is_result (nth_opt news 0)"
  shows "validSessionCompaction env (turns @ news) stored = Some c"
proof -
  have "nat (sc_coveredThrough c) - 1 < length turns" using assms(1) by (auto simp: valid_checkpoint)
  then show ?thesis using assms cut_ok_append [OF _ assms(2)] by (auto simp: valid_checkpoint nth_append)
qed

end
