(* ===== verification/Conversation_Properties.thy ===== *)
theory Conversation_Properties
  imports Conversation_Cuts Session_Compaction
begin

text \<open>What a prompt shows of a transcript: the request in hand, no more than the limits, and the same rows as before.\<close>

section \<open>The shape of a pack\<close>

definition pack_index :: "(nat \<Rightarrow> nat option) \<Rightarrow> conversation_turn list \<Rightarrow> int \<Rightarrow> pack_options \<Rightarrow> nat" where
  "pack_index memo turns maxTokens options =
     (let kf = pack_facts memo turns maxTokens options
      in pin_start kf turns (ko_pinCurrentTask options) (fst (cut_start kf (length turns) maxTokens options)))"

lemma pack_visible:
  "turns \<noteq> [] \<Longrightarrow> 0 < maxTokens \<Longrightarrow>
     pc_visibleTurns (packConversation memo turns maxTokens options) = drop (pack_index memo turns maxTokens options) turns"
  by (simp add: packConversation_def pack_index_def Let_def)


lemma pack_dropped:
  assumes "turns \<noteq> []" and "0 < maxTokens" and "0 < pack_index memo turns maxTokens options"
  shows "pc_droppedSummary (packConversation memo turns maxTokens options) =
      Some (renderDroppedSummary (take (pack_index memo turns maxTokens options) turns)
        (countDroppedPairs (macroTurnBoundaries turns (ko_macroTurnStarts options)) (pack_index memo turns maxTokens options)
          (length turns)))"
    and "\<exists>b. pc_packStart (packConversation memo turns maxTokens options) =
      Some \<lparr>st_index = int (pack_index memo turns maxTokens options),
        st_at = (if pack_index memo turns maxTokens options < length turns
                 then turn_at (turns ! pack_index memo turns maxTokens options) else 0), st_boundBy = b\<rparr> \<and>
      pc_boundBy (packConversation memo turns maxTokens options) = Some b"
  using assms by (auto simp: packConversation_def pack_index_def pack_facts_def Let_def)

lemma pack_whole:
  "turns \<noteq> [] \<Longrightarrow> 0 < maxTokens \<Longrightarrow> pc_packStart (packConversation memo turns maxTokens options) = Some p \<Longrightarrow>
     0 < pack_index memo turns maxTokens options"
  by (auto simp: packConversation_def pack_index_def Let_def split: if_splits)

lemma pin_user:
  "findLastUserIndex turns = Some u \<Longrightarrow> pin_start kf turns b start \<le> u"
  by (auto simp: pin_start_def Let_def)

lemma pin_opening:
  "b \<Longrightarrow> is_user (nth_opt turns (kf_currentStart kf)) \<Longrightarrow> pin_start kf turns b start \<le> kf_currentStart kf"
  by (auto simp: pin_start_def Let_def split: option.splits)


text \<open>C25: The prompt never loses the request the agent is working on. The rows a prompt shows are a suffix of
  the transcript that holds the last user message and, unless a compaction pinned it elsewhere, the user
  row that opened the current task, however small the token budget is.
\<close>

theorem current_request_is_visible:
  assumes "0 < maxTokens" and "findLastUserIndex turns = Some u"
  shows "\<exists>start \<le> u. pc_visibleTurns (packConversation memo turns maxTokens options) = drop start turns \<and>
    (ko_pinCurrentTask options \<and> is_user (nth_opt turns (findCurrentMacroTurnStart turns)) \<longrightarrow>
       start \<le> findCurrentMacroTurnStart turns)"
proof -
  have "turns \<noteq> []" using assms(2) by (auto simp: findLastUserIndex_def)
  then show ?thesis
    using pin_user [OF assms(2)] pin_opening [of _ turns "pack_facts memo turns maxTokens options"] assms(1)
    by (intro exI [of _ "pack_index memo turns maxTokens options"])
      (simp add: pack_visible pack_index_def Let_def pack_facts_def)
qed

section \<open>The limits\<close>







lemma facts_simps [simp]:
  "kf_boundaries (pack_facts memo turns m options) = macroTurnBoundaries turns (ko_macroTurnStarts options)"
  "kf_currentStart (pack_facts memo turns m options) = findCurrentMacroTurnStart turns"
  "kf_costs (pack_facts memo turns m options) = turn_costs turns"
  "kf_repeats (pack_facts memo turns m options) = readRepeatCosts memo turns (findCurrentMacroTurnStart turns)"
  "kf_budget (pack_facts memo turns m options) = nat (max 1 (m - SUMMARY_TOKEN_RESERVE))"
  by (simp_all add: pack_facts_def Let_def)


lemma length_turn_costs [simp]: "length (turn_costs turns) = length turns"
  by (simp add: turn_costs_def)


definition suffix_cost :: "(nat \<Rightarrow> nat option) \<Rightarrow> conversation_turn list \<Rightarrow> nat \<Rightarrow> nat" where
  "suffix_cost memo turns = suffixTokens (turn_costs turns) (readRepeatCosts memo turns (findCurrentMacroTurnStart turns))"






section \<open>A held cut\<close>

lemma macro_start_stable:
  assumes "findCurrentMacroTurnStart (turns @ news) < length turns"
  shows "findCurrentMacroTurnStart (turns @ news) = findCurrentMacroTurnStart turns"
proof -
  let ?c = "macro_start_from (turns @ news) (length (turns @ news))"
  have same: "macro_start_from (turns @ news) (length turns) = macro_start_from turns (length turns)"
    by (rule macro_start_cong) simp
  have c: "?c < length turns" using assms by (simp add: findCurrentMacroTurnStart_def)
  have "macro_start_from (turns @ news) (length turns) = ?c"
  proof (rule antisym)
    show "macro_start_from (turns @ news) (length turns) \<le> ?c"
      using macro_start_mono [of "turns @ news" "length turns" "length news"] by simp
    show "?c \<le> macro_start_from (turns @ news) (length turns)"
    proof (cases "?c = 0")
      case False
      then have "isFinalReplyTurn (nth_opt (turns @ news) (?c - 1))" by (rule macro_start_after_reply)
      then have "\<not> (macro_start_from (turns @ news) (length turns) \<le> ?c - 1)"
        using macro_start_open [of "turns @ news" "length turns" "?c - 1"] c by fastforce
      then show ?thesis by linarith
    qed simp
  qed
  then show ?thesis using same by (simp add: findCurrentMacroTurnStart_def)
qed

lemma last_user_stable:
  assumes "findLastUserIndex (turns @ news) = Some u" and "u < length turns"
  shows "findLastUserIndex turns = Some u"
proof -
  have last: "is_user (nth_opt (turns @ news) u)" "\<forall>j. u < j \<and> j < length (turns @ news) \<longrightarrow> \<not> is_user (nth_opt (turns @ news) j)"
    using last_user_Some [OF assms(1) [unfolded findLastUserIndex_def]] by simp_all
  have user: "is_user (nth_opt turns u)" using last(1) assms(2) by simp
  then obtain v where v: "last_user_from turns (length turns) = Some v"
    using assms(2) last_user_None [of turns "length turns"] by (cases "last_user_from turns (length turns)") auto
  note v_last = last_user_Some [OF v]
  have "\<not> v < u" using v_last user assms(2) by blast
  moreover have "\<not> u < v" using v_last last(2) by (metis length_append nth_opt_append trans_less_add1)
  ultimately show ?thesis using v by (simp add: findLastUserIndex_def)
qed

lemma dropped_append:
  assumes "\<forall>b \<in> set later. n \<le> b" and "start < n" and "bs \<noteq> []" and "n \<le> n'"
  shows "countDroppedPairs (bs @ later) start n' = countDroppedPairs bs start n"
proof -
  have "filter (\<lambda>stop. stop \<le> start) later = []" using assms(1,2) by (auto simp: filter_empty_conv)
  then show ?thesis using assms(2-4) by (cases bs) (simp_all add: countDroppedPairs_def)
qed

text \<open>C26: Between two cuts the prompt only grows at its end. When the rows from the remembered cut still fit
  both limits after new rows were appended, the next prompt shows exactly the rows of the previous one
  followed by the new rows, with the same line for what was dropped, and remembers the same cut.
\<close>

theorem held_cut_keeps_prompt:
  assumes "turns \<noteq> []" and "0 < maxTokens"
    and first: "packed = packConversation memo turns maxTokens options" "pc_packStart packed = Some p"
      "pc_visibleTurns packed \<noteq> []"
    and options: "options' = options\<lparr>ko_packStart := Some p, ko_macroTurnStarts := recorded\<rparr>"
    and tasks: "macroTurnBoundaries (turns @ news) recorded = macroTurnBoundaries turns (ko_macroTurnStarts options) @ later"
      "\<forall>b \<in> set later. length turns \<le> b"
    and fits: "\<not> tokens_overflow (pack_facts memo' (turns @ news) maxTokens options') maxTokens"
      "\<not> pairs_overflow (pack_facts memo' (turns @ news) maxTokens options') (length (turns @ news)) (ko_maxPairs options)"
    and again: "packed' = packConversation memo' (turns @ news) maxTokens options'"
  shows "pc_visibleTurns packed' = pc_visibleTurns packed @ news \<and>
    pc_droppedSummary packed' = pc_droppedSummary packed \<and> pc_packStart packed' = pc_packStart packed"
proof -
  define s where "s = pack_index memo turns maxTokens options"
  let ?kf' = "pack_facts memo' (turns @ news) maxTokens options'"
  have ne: "turns @ news \<noteq> []" using assms(1) by simp
  have vis: "pc_visibleTurns packed = drop s turns" using pack_visible [OF assms(1,2)] first(1) by (simp add: s_def)
  have s: "0 < s" "s < length turns"
    using pack_whole [OF assms(1,2)] first vis by (auto simp: s_def)
  obtain b where p: "p = \<lparr>st_index = int s, st_at = turn_at (turns ! s), st_boundBy = b\<rparr>"
    using pack_dropped(2) [OF assms(1,2), of memo options] first s by (auto simp: s_def)
  have held: "heldPackStart (Some p) (turns @ news) = Some p"
    using s by (simp add: heldPackStart_def p nth_append)
  have floor: "kf_floor ?kf' = s" using held by (simp add: pack_facts_def Let_def options p)
  have cut: "fst (cut_start ?kf' (length (turns @ news)) maxTokens options') = s"
    using fits floor by (simp add: cut_start_def Let_def options)
  have user: "s \<le> u" if "findLastUserIndex (turns @ news) = Some u" for u
  proof (cases "u < length turns")
    case True
    then show ?thesis using pin_user [OF last_user_stable [OF that True]] by (simp add: s_def pack_index_def Let_def)
  qed (use s in simp)
  have task_row: False
    if "ko_pinCurrentTask options" "findCurrentMacroTurnStart (turns @ news) < s"
      "is_user (nth_opt (turns @ news) (findCurrentMacroTurnStart (turns @ news)))"
  proof -
    have c: "findCurrentMacroTurnStart (turns @ news) = findCurrentMacroTurnStart turns"
      by (rule macro_start_stable) (use that(2) s in simp)
    have "s \<le> findCurrentMacroTurnStart turns"
      using pin_opening [of "ko_pinCurrentTask options" turns "pack_facts memo turns maxTokens options"] that s
      by (simp add: c s_def pack_index_def Let_def)
    then show False using that(2) c by simp
  qed
  have index: "pack_index memo' (turns @ news) maxTokens options' = s"
    using user task_row unfolding pack_index_def Let_def cut
    by (auto simp: pin_start_def Let_def options min_def split: option.splits)
  have bs: "macroTurnBoundaries turns (ko_macroTurnStarts options) \<noteq> []"
    using boundaries_zero [OF assms(1), of "ko_macroTurnStarts options"] by (auto simp del: set_empty)
  have pairs: "countDroppedPairs (macroTurnBoundaries (turns @ news) recorded) s (length (turns @ news)) =
      countDroppedPairs (macroTurnBoundaries turns (ko_macroTurnStarts options)) s (length turns)"
    unfolding tasks(1) using dropped_append [OF tasks(2) s(2) bs] by simp
  have "pc_packStart packed' = Some p"
    using assms(1,2) s held index cut fits floor
    by (simp add: again packConversation_def Let_def pack_index_def options p cut_start_def or_tokens_def nth_append)
  then show ?thesis
    using pack_visible [OF ne assms(2)] pack_dropped(1) [OF ne assms(2)] pack_dropped(1) [OF assms(1,2), of memo options]
      index pairs s vis again first
    by (simp add: s_def [symmetric] options)
qed

section \<open>The walk and the pointers\<close>

text \<open>The walk that looks for a token cut keeps a running account in which each row is charged for itself
  less what it saves its later repeats. It stops at exactly the right row: it returns the least start
  from which every suffix, priced as the renderer will show it, is within the budget.
\<close>

theorem token_cut_is_least:
  "startIndexForTokens (turn_costs turns) budget (readRepeatCosts memo turns (findCurrentMacroTurnStart turns)) = start \<longleftrightarrow>
     start \<le> length turns \<and> (\<forall>j. start \<le> j \<and> j \<le> length turns \<longrightarrow> suffix_cost memo turns j \<le> budget) \<and>
     (0 < start \<longrightarrow> budget < suffix_cost memo turns (start - 1))"
proof -
  note walk = token_start [OF facts_wf [of turns memo "findCurrentMacroTurnStart turns"] refl, of budget, folded suffix_cost_def]
  let ?r = "startIndexForTokens (turn_costs turns) budget (readRepeatCosts memo turns (findCurrentMacroTurnStart turns))"
  have "start = ?r" if "start \<le> length turns" "\<forall>j. start \<le> j \<and> j \<le> length turns \<longrightarrow> suffix_cost memo turns j \<le> budget"
    "0 < start \<longrightarrow> budget < suffix_cost memo turns (start - 1)"
  proof (rule antisym)
    show "start \<le> ?r"
    proof (rule ccontr)
      assume "\<not> start \<le> ?r"
      then show False using walk(2) [of "start - 1"] that by fastforce
    qed
    show "?r \<le> start"
    proof (rule ccontr)
      assume "\<not> ?r \<le> start"
      then have "start \<le> ?r - 1" "?r - 1 \<le> length turns" "0 < ?r"
        using walk(1) unfolding length_turn_costs by linarith+
      then show False using walk(3) that(2) by fastforce
    qed
  qed
  then show ?thesis using walk by auto
qed

text \<open>C28: A read rendered as a pointer loses the model nothing. In the rows a prompt shows, the pointer leads
  back to a row before it that has the same identity and the same text, that is not a pointer itself,
  and that lies exactly the number of tool results above that the pointer says.
\<close>

theorem read_pointer_is_in_view:
  assumes "i < length turns" and "readRepeatRefs turns (findReadRepeats turns) ! i = Some back_by"
  shows "\<exists>origin < i. readRepeatRefs turns (findReadRepeats turns) ! origin = None \<and>
    read_key (turns ! origin) = read_key (turns ! i) \<and> read_key (turns ! i) \<noteq> None \<and>
    rr_summary (turns ! origin) = rr_summary (turns ! i) \<and>
    0 < back_by \<and> back_by = length (filter (\<lambda>t. is_result (Some t)) (drop origin (take i turns)))"
proof -
  let ?prev = "findReadRepeats turns" and ?origin = "origins_loop [] (findReadRepeats turns)"
  let ?R = "\<lambda>i p. p < i \<and> read_key (turns ! i) \<noteq> None \<and> read_key (turns ! p) = read_key (turns ! i) \<and>
    rr_summary (turns ! p) = rr_summary (turns ! i)"
  let ?o = "?origin ! i"
  have some: "?prev ! i \<noteq> None" and back_by: "back_by = resultsBefore turns i - resultsBefore turns ?o"
    using assms by (auto simp: readRepeatRefs_def Let_def split: if_splits)
  have chain: "?o \<le> i \<and> ?prev ! ?o = None \<and> (?prev ! i = None \<longrightarrow> ?o = i) \<and> (?prev ! i \<noteq> None \<longrightarrow> ?R i ?o)"
    by (rule chain_end [OF repeats_backwards origins_chain [OF repeats_backwards]])
      (use assms(1) findReadRepeats_sound [of _ turns] in \<open>auto simp: repeat_of_def\<close>)
  then have R: "?R i ?o" using some by blast
  have refs: "readRepeatRefs turns ?prev ! ?o = None" using chain R assms(1) by (simp add: readRepeatRefs_def Let_def)
  have "is_result (Some (turns ! ?o))"
    using R by (auto simp: read_key_def is_result_def split: conversation_turn.splits)
  moreover have "drop ?o (take i turns) = turns ! ?o # drop (Suc ?o) (take i turns)"
    using R assms(1) Cons_nth_drop_Suc [of ?o "take i turns"] by simp
  moreover have "take i turns = take ?o turns @ drop ?o (take i turns)"
    using R append_take_drop_id [of ?o "take i turns"] by (simp add: min_def)
  then have "resultsBefore turns i = resultsBefore turns ?o + length (filter (\<lambda>t. is_result (Some t)) (drop ?o (take i turns)))"
    unfolding resultsBefore_def by (metis filter_append length_append)
  ultimately show ?thesis using R refs back_by by (intro exI [of _ ?o]) simp
qed

text \<open>
  The conversation is never promised room the window does not have. With a known window, the fixed
  sections, the reply reserve, the safety margin and the cap together fit the window, unless the cap
  is the floor of 512 tokens; and the reserve itself is never more than half the window.
\<close>

theorem window_is_not_oversold:
  assumes "known_window (ci_contextWindow i) = Some w"
  shows "2 * effectiveReplyReserve (ci_completionMaxTokens i) (ci_contextWindow i) \<le> w \<and>
    (computeEffectiveConversationCap i = 512 \<or>
     fixed_sections i + effectiveReplyReserve (ci_completionMaxTokens i) (ci_contextWindow i) + 512
       + computeEffectiveConversationCap i \<le> w)"
  using cap_fits [OF assms] reserve_bounds(2) [OF assms, of "ci_completionMaxTokens i"]
  by (simp add: CONVERSATION_CAP_FLOOR_def CONVERSATION_CAP_SAFETY_MARGIN_def) linarith

section \<open>Compacted sessions\<close>

text \<open>C29: A checkpoint outlives the rows appended after it. Once a checkpoint of a session is valid, the
  prompt builder keeps getting the same checkpoint, and the rows it is given are those it had before
  followed by the new rows, provided the rows do not start with a result for a call the checkpoint
  covers; and at no time does the checkpoint part a call from its result: every call it covers was
  answered in what it covers, and the first row kept is not a result.
\<close>

theorem checkpoint_outlives_appends:
  assumes "validSessionCompaction env (ss_turns state) (ss_compaction state) = Some c"
    and "nat (sc_coveredThrough c) < length (ss_turns state) \<or> \<not> is_result (nth_opt news 0)"
    and "before = projectSessionConversation env state"
    and "after = projectSessionConversation env (state\<lparr>ss_turns := ss_turns state @ news\<rparr>)"
  shows "pj_checkpoint after = Some c \<and> pj_offset after = pj_offset before \<and> pj_turns after = pj_turns before @ news \<and>
    take (pj_offset before) (ss_turns state) @ pj_turns before = ss_turns state \<and>
    open_calls 0 (take (pj_offset after) (ss_turns state)) = 0 \<and> \<not> is_result (nth_opt (pj_turns after) 0)"
proof -
  define k where "k = nat (sc_coveredThrough c)"
  have valid: "validSessionCompaction env (ss_turns state @ news) (ss_compaction state) = Some c"
    using assms(1,2) by (rule valid_checkpoint_append)
  have k: "0 < k" "k \<le> length (ss_turns state)" "cut_ok (ss_turns state) k" "cut_ok (ss_turns state @ news) k"
    using assms(1) valid by (auto simp: valid_checkpoint k_def)
  have "\<not> is_result (nth_opt (drop k (ss_turns state @ news)) 0)"
    using k(4) unfolding cut_ok_def nth_opt_drop by simp
  then show ?thesis
    using assms(1,3,4) valid k
    by (auto simp: projectSessionConversation_def Let_def k_def [symmetric] cut_ok_def simp del: nth_opt_drop)
qed

text \<open>
  The addresses of a session survive the projection: the cut the packer holds and the task boundaries
  name the same rows in the shortened transcript as in the stored one.
\<close>

theorem projection_keeps_addresses:
  assumes "validSessionCompaction env (ss_turns state) (ss_compaction state) = Some c"
    and "pj = projectSessionConversation env state"
  shows "(\<forall>p. pj_packStart pj = Some p \<longrightarrow> 0 < st_index p \<and>
      (\<exists>held. ss_packStart state = Some held \<and> st_at held = st_at p \<and>
         nth_opt (pj_turns pj) (nat (st_index p)) = nth_opt (ss_turns state) (nat (st_index held)))) \<and>
    (\<forall>bs b. pj_macroTurnStarts pj = Some bs \<and> b \<in> set bs \<longrightarrow>
      nat b + pj_offset pj \<in> set (macroTurnBoundaries (ss_turns state) (ss_macroTurnStarts state)) \<and>
      nth_opt (pj_turns pj) (nat b) = nth_opt (ss_turns state) (nat b + pj_offset pj))"
proof -
  define k where "k = nat (sc_coveredThrough c)"
  have k: "0 < k" "k \<le> length (ss_turns state)" "sc_coveredThrough c = int k"
    using assms(1) by (auto simp: valid_checkpoint k_def)
  have shift: "nat (int x - int k) + k = x" "k + nat (int x - int k) = x" if "k \<le> x" for x using that by simp_all
  have shift': "k + nat (i - int k) = nat i" if "int k < i" for i using that by linarith
  show ?thesis
    using assms k
    by (auto simp: projectSessionConversation_def Let_def shift shift' of_nat_diff split: option.splits if_splits)
qed

section \<open>Examples\<close>

definition sample_read :: "int \<Rightarrow> conversation_turn" where
  "sample_read now = ToolResultTurn ''os.fs.read'' StOk ''alpha'' False []
     (Some \<lparr>ri_path = ''/a'', ri_contentHash = ''h'', ri_startLine = 1, ri_endLine = 1, ri_numbered = False\<rparr>) now"

definition sample_call :: "int \<Rightarrow> conversation_turn" where
  "sample_call now = ToolCallTurn ''os.fs.read'' [(''path'', JStr ''/a'')] None now"

definition sample_turns :: "conversation_turn list" where
  "sample_turns = [userTurn ''hi'' 1, assistantReplyTurn ''yes'' None None None 2, userTurn ''read'' 3, sample_call 4,
     sample_read 5, sample_call 6, sample_read 7]"

definition sample_options :: pack_options where
  "sample_options = \<lparr>ko_pinCurrentTask = True, ko_maxPairs = Some 1, ko_macroTurnStarts = None, ko_lowWater = None,
     ko_packStart = None\<rparr>"


lemma sample_last_user: "findLastUserIndex sample_turns = Some 2"
  by code_simp

theorem current_request_is_visible_witness:
  "\<exists>start \<le> 2. pc_visibleTurns (packConversation (\<lambda>_. None) sample_turns 1 sample_options) = drop start sample_turns"
  using current_request_is_visible [OF _ sample_last_user, of 1 "\<lambda>_. None" sample_options] by auto



definition short_turns :: "conversation_turn list" where
  "short_turns = [userTurn ''hi'' 1, assistantReplyTurn ''yes'' None None None 2, userTurn ''go'' 3]"

definition short_pack :: packed_conversation where
  "short_pack = packConversation (\<lambda>_. None) short_turns 1000 sample_options"

lemma short_cut:
  "cut_start (pack_facts (\<lambda>_. None) short_turns 1000 sample_options) (length short_turns) 1000 sample_options =
     (2, Some PairsBound)"
  "pin_start (pack_facts (\<lambda>_. None) short_turns 1000 sample_options) short_turns True 2 = 2"
  by code_simp+

lemma short_pack_start:
  "pc_packStart short_pack = Some \<lparr>st_index = 2, st_at = 3, st_boundBy = PairsBound\<rparr> \<and> pc_visibleTurns short_pack \<noteq> []"
proof -
  have "short_turns \<noteq> []" "take 2 short_turns \<noteq> []" "drop 2 short_turns \<noteq> []" "2 < length short_turns"
    "turn_at (short_turns ! 2) = 3" "ko_pinCurrentTask sample_options"
    by (simp_all add: short_turns_def userTurn_def sample_options_def)
  then show ?thesis by (simp add: short_pack_def packConversation_def short_cut Let_def or_tokens_def)
qed

definition held_options :: pack_options where
  "held_options = sample_options\<lparr>ko_packStart := Some \<lparr>st_index = 2, st_at = 3, st_boundBy = PairsBound\<rparr>,
     ko_macroTurnStarts := None\<rparr>"

lemma short_held_fits:
  "\<not> tokens_overflow (pack_facts (\<lambda>_. None) (short_turns @ [sample_call 8]) 1000 held_options) 1000"
  "\<not> pairs_overflow (pack_facts (\<lambda>_. None) (short_turns @ [sample_call 8]) 1000 held_options)
     (length (short_turns @ [sample_call 8])) (ko_maxPairs sample_options)"
  by code_simp+

theorem held_cut_keeps_prompt_witness:
  "pc_visibleTurns (packConversation (\<lambda>_. None) (short_turns @ [sample_call 8]) 1000 held_options) =
     pc_visibleTurns short_pack @ [sample_call 8]"
proof -
  have none: "ko_macroTurnStarts sample_options = None" by (simp add: sample_options_def)
  obtain later where later:
    "macroTurnBoundaries (short_turns @ [sample_call 8]) None =
       macroTurnBoundaries short_turns (ko_macroTurnStarts sample_options) @ later"
    "\<forall>b \<in> set later. length short_turns \<le> b"
    unfolding none using derived_boundaries_append [of short_turns None "[sample_call 8]"] by (auto simp: short_turns_def)
  have "short_turns \<noteq> []" "(0 :: int) < 1000" by (simp_all add: short_turns_def)
  from held_cut_keeps_prompt [OF this short_pack_def short_pack_start [THEN conjunct1] short_pack_start [THEN conjunct2]
      held_options_def later short_held_fits refl]
  show ?thesis by blast
qed

theorem read_pointer_is_in_view_witness:
  "\<exists>origin < 6. readRepeatRefs sample_turns (findReadRepeats sample_turns) ! origin = None \<and>
     rr_summary (sample_turns ! origin) = rr_summary (sample_turns ! 6)"
proof -
  have "readRepeatRefs sample_turns (findReadRepeats sample_turns) ! 6 = Some 1" "6 < length sample_turns"
    by code_simp+
  then show ?thesis using read_pointer_is_in_view [of 6 sample_turns 1] by blast
qed

definition small_window :: cap_input where
  "small_window = \<lparr>ci_configuredCap = 32000, ci_contextWindow = Some 16384, ci_stablePrefixTokens = 7700, ci_sessionTokens = 450,
     ci_worldSnapshotTokens = 450, ci_profileTokens = None, ci_recalledTokens = None, ci_memoryIndexTokens = None,
     ci_lessonsTokens = None, ci_proceduresTokens = None, ci_loadedToolsTokens = None, ci_completionMaxTokens = 16384,
     ci_autoFill = True\<rparr>"

theorem window_is_not_oversold_witness:
  "2 * effectiveReplyReserve 16384 (Some 16384) \<le> 16384 \<and> computeEffectiveConversationCap small_window \<le> 16384"
  using window_is_not_oversold [of small_window 16384]
  by (simp add: small_window_def known_window_def fixed_sections_def or_zero_def) (auto simp: effectiveReplyReserve_def
      known_window_def Let_def MIN_SMALL_WINDOW_REPLY_RESERVE_def SMALL_WINDOW_PROMPT_ROOM_def)

definition sample_env :: compaction_env where
  "sample_env = \<lparr>ce_boundaryHash = (\<lambda>t. show_int (turn_at t)), ce_textHash = id\<rparr>"

definition sample_state :: session_state where
  "sample_state = \<lparr>ss_turns = sample_turns,
     ss_compaction = Some \<lparr>sc_version = 1, sc_summary = ''greeted'', sc_coveredThrough = 2, sc_boundaryHash = ''2'',
       sc_reason = ''manual''\<rparr>, ss_rollingSummary = None, ss_macroTurnStarts = None,
     ss_packStart = Some \<lparr>st_index = 3, st_at = 4, st_boundBy = TokensBound\<rparr>\<rparr>"

lemma sample_checkpoint:
  "validSessionCompaction sample_env (ss_turns sample_state) (ss_compaction sample_state) =
     Some \<lparr>sc_version = 1, sc_summary = ''greeted'', sc_coveredThrough = 2, sc_boundaryHash = ''2'', sc_reason = ''manual''\<rparr>"
  by code_simp

theorem checkpoint_outlives_appends_witness:
  "pj_turns (projectSessionConversation sample_env (sample_state\<lparr>ss_turns := ss_turns sample_state @ [sample_call 8]\<rparr>)) =
     pj_turns (projectSessionConversation sample_env sample_state) @ [sample_call 8]"
  using checkpoint_outlives_appends [OF sample_checkpoint _ refl refl, of "[sample_call 8]"]
  by (simp add: sample_state_def sample_turns_def)

theorem projection_keeps_addresses_witness:
  "\<exists>held. ss_packStart sample_state = Some held \<and> st_at held = 4 \<and>
     nth_opt (pj_turns (projectSessionConversation sample_env sample_state)) 1 = nth_opt (ss_turns sample_state) (nat (st_index held))"
proof -
  have held: "ss_packStart sample_state = Some \<lparr>st_index = 3, st_at = 4, st_boundBy = TokensBound\<rparr>"
    by (simp add: sample_state_def)
  have "pj_packStart (projectSessionConversation sample_env sample_state) =
      Some \<lparr>st_index = 1, st_at = 4, st_boundBy = TokensBound\<rparr>"
    by (simp add: projectSessionConversation_def sample_checkpoint Let_def held)
  then show ?thesis using projection_keeps_addresses [OF sample_checkpoint refl] by fastforce
qed

end
