(* ===== verification/Stream_Parser.thy ===== *)
theory Stream_Parser
  imports Prelude "HOL-Library.Sublist"
begin

text \<open>
  The incremental parser of a streamed completion (src/llm/grammar/stream-parser.ts): what the screen is
  shown of the reasoning and of the reply while the text arrives in chunks. Text is a list of UTF-16 code
  units, which is what a JavaScript string holds, and what a \<open>\uXXXX\<close> escape names.
\<close>

type_synonym units = "nat list"

definition units :: "string \<Rightarrow> units" where
  "units s = map of_char s"

datatype stream_event =
    ReasoningOpen
  | ReasoningDelta units
  | ReasoningClose
  | ReplyTextOpen
  | ReplyTextDelta units
  | ReplyTextClose

datatype parser_state = Preamble | InsideThink | JsonTool | JsonText | ReplyText | StreamDone

datatype escape_mode = NoEscape | SimpleEscape | UnicodeEscape

record escape_carry =
  ec_mode :: escape_mode
  ec_hex :: units

record stream_tags =
  tg_open :: units
  tg_close :: units

record stream_parser =
  sp_state :: parser_state
  sp_buffer :: units
  sp_carry :: escape_carry

definition DEFAULT_TAGS :: stream_tags where
  "DEFAULT_TAGS = \<lparr>tg_open = units ''<think>'', tg_close = units ''</think>''\<rparr>"

section \<open>Reading the buffer\<close>

definition QUOTE :: nat where
  "QUOTE = 34"

definition BACKSLASH :: nat where
  "BACKSLASH = 92"

definition is_bracket :: "nat \<Rightarrow> bool" where
  "is_bracket c = (c = 91 \<or> c = 123)"

definition json_space :: "nat \<Rightarrow> bool" where
  "json_space c = (c = 32 \<or> c = 10 \<or> c = 13 \<or> c = 9)"

text \<open>\<open>\s\<close> of a regular expression.\<close>

definition regex_space :: "nat \<Rightarrow> bool" where
  "regex_space c =
     (c \<in> {9, 10, 11, 12, 13, 32, 160, 5760, 8232, 8233, 8239, 8287, 12288, 65279} \<or> 8192 \<le> c \<and> c \<le> 8202)"

text \<open>\<open>indexOf\<close>, which is also where the regular expression of an escaped tag first matches.\<close>

fun tag_index :: "units \<Rightarrow> units \<Rightarrow> nat option" where
  "tag_index p [] = (if p = [] then Some 0 else None)"
| "tag_index p (c # cs) = (if prefix p (c # cs) then Some 0 else map_option Suc (tag_index p cs))"

definition findJsonToolStart :: "units \<Rightarrow> nat option" where
  "findJsonToolStart s = findIndex is_bracket s"

text \<open>\<open>/"tool"\s*:\s*"([^"\\]+)"/\<close> and \<open>/"text"\s*:\s*"/\<close>: the field matched here, with the text after it.\<close>

definition field_here :: "string \<Rightarrow> units \<Rightarrow> units option" where
  "field_here key s =
     (let k = QUOTE # units key @ [QUOTE]
      in if \<not> prefix k s then None
         else (case dropWhile regex_space (drop (length k) s) of
                 [] \<Rightarrow> None
               | c # cs \<Rightarrow>
                   if c \<noteq> 58 then None
                   else (case dropWhile regex_space cs of
                           [] \<Rightarrow> None
                         | d # ds \<Rightarrow> if d = QUOTE then Some ds else None)))"

definition tool_here :: "units \<Rightarrow> (units \<times> units) option" where
  "tool_here s =
     (case field_here ''tool'' s of
        None \<Rightarrow> None
      | Some ds \<Rightarrow>
          (let name = takeWhile (\<lambda>c. c \<noteq> QUOTE \<and> c \<noteq> BACKSLASH) ds
           in if name = [] then None
              else (case drop (length name) ds of
                      [] \<Rightarrow> None
                    | e # es \<Rightarrow> if e = QUOTE then Some (name, es) else None)))"

fun first_match :: "(units \<Rightarrow> 'a option) \<Rightarrow> units \<Rightarrow> 'a option" where
  "first_match here [] = None"
| "first_match here (c # cs) = (case here (c # cs) of Some x \<Rightarrow> Some x | None \<Rightarrow> first_match here cs)"

section \<open>The start of a tool call\<close>

datatype start_class = Start | Pending | NoStart

fun key_class :: "units \<Rightarrow> units \<Rightarrow> start_class \<times> units" where
  "key_class [] s = (Start, s)"
| "key_class (k # ks) [] = (Pending, [])"
| "key_class (k # ks) (c # cs) = (if c = k then key_class ks cs else (NoStart, []))"

text \<open>The shape from the opening brace on, and the whole shape with the optional array opener.\<close>

definition brace_shape :: "units \<Rightarrow> start_class" where
  "brace_shape s =
     (case s of
        [] \<Rightarrow> NoStart
      | c # cs \<Rightarrow>
          if c \<noteq> 123 then NoStart
          else (case key_class (QUOTE # units ''tool'' @ [QUOTE]) (dropWhile json_space cs) of
                  (Start, rest) \<Rightarrow>
                    (case dropWhile json_space rest of
                       [] \<Rightarrow> Pending
                     | d # ds \<Rightarrow>
                         if d \<noteq> 58 then NoStart
                         else (case dropWhile json_space ds of
                                 [] \<Rightarrow> Pending
                               | e # es \<Rightarrow> if e = QUOTE then Start else NoStart))
                | (other, _) \<Rightarrow> other))"

definition start_shape :: "units \<Rightarrow> start_class" where
  "start_shape s =
     (case s of
        [] \<Rightarrow> NoStart
      | c # cs \<Rightarrow>
          if c = 91 then (if dropWhile json_space cs = [] then Pending else brace_shape (dropWhile json_space cs))
          else brace_shape s)"

definition TOOL_START_PROBE_CAP :: nat where
  "TOOL_START_PROBE_CAP = 64"

text \<open>A candidate is undecided only at the end of the buffer, so what it has reached is the rest of the buffer.\<close>

definition classifyToolCallStart :: "units \<Rightarrow> start_class" where
  "classifyToolCallStart s =
     (case start_shape s of
        Pending \<Rightarrow> if TOOL_START_PROBE_CAP < length s then NoStart else Pending
      | c \<Rightarrow> c)"

fun findToolCallStart :: "units \<Rightarrow> (nat \<times> bool) option" where
  "findToolCallStart [] = None"
| "findToolCallStart (c # cs) =
     (let skip = map_option (apfst Suc) (findToolCallStart cs)
      in if \<not> is_bracket c then skip
         else (case classifyToolCallStart (c # cs) of
                 Start \<Rightarrow> Some (0, True)
               | Pending \<Rightarrow> Some (0, False)
               | NoStart \<Rightarrow> skip))"

section \<open>What is held back\<close>

text \<open>The longest of the first \<open>k\<close> prefixes of a tag that ends the buffer.\<close>

fun trailing_prefix :: "units \<Rightarrow> units \<Rightarrow> nat \<Rightarrow> nat" where
  "trailing_prefix tag s 0 = 0"
| "trailing_prefix tag s (Suc k) = (if suffix (take (Suc k) tag) s then Suc k else trailing_prefix tag s k)"

definition holdPossibleTagStart :: "units \<Rightarrow> units \<Rightarrow> units" where
  "holdPossibleTagStart s tag =
     drop (length s - trailing_prefix tag s (min (length s) (max 1 (length tag - 1)))) s"

definition longestTrailingPrefix :: "units \<Rightarrow> units \<Rightarrow> nat" where
  "longestTrailingPrefix s tag = trailing_prefix tag s (min (length s) (length tag - 1))"

definition closeHoldbackLen :: "stream_tags \<Rightarrow> nat" where
  "closeHoldbackLen tags = max 16 (length (tg_close tags))"

definition findSafeReasoningEmitIndex :: "stream_tags \<Rightarrow> units \<Rightarrow> nat" where
  "findSafeReasoningEmitIndex tags s =
     length s - longestTrailingPrefix (drop (length s - min (length s) (closeHoldbackLen tags)) s) (tg_close tags)"

section \<open>The text of the reply\<close>

definition decodeSimpleEscape :: "nat \<Rightarrow> nat" where
  "decodeSimpleEscape c =
     (if c = 110 then 10 else if c = 116 then 9 else if c = 114 then 13 else if c = 98 then 8 else if c = 102 then 12 else c)"

definition hex_value :: "nat \<Rightarrow> nat option" where
  "hex_value c =
     (if 48 \<le> c \<and> c \<le> 57 then Some (c - 48) else if 97 \<le> c \<and> c \<le> 102 then Some (c - 87)
      else if 65 \<le> c \<and> c \<le> 70 then Some (c - 55) else None)"

definition parse_hex :: "units \<Rightarrow> nat" where
  "parse_hex cs = foldl (\<lambda>n c. 16 * n + (case hex_value c of None \<Rightarrow> 0 | Some d \<Rightarrow> d)) 0 cs"

record text_read =
  rd_chars :: units
  rd_rest :: units
  rd_closed :: bool
  rd_carry :: escape_carry

definition no_carry :: escape_carry where
  "no_carry = \<lparr>ec_mode = NoEscape, ec_hex = []\<rparr>"

definition add_chars :: "units \<Rightarrow> text_read \<Rightarrow> text_read" where
  "add_chars cs r = r\<lparr>rd_chars := cs @ rd_chars r\<rparr>"

text \<open>One unit outside a \<open>\uXXXX\<close> escape; a malformed one falls back to it.\<close>

fun readReplyTextChars :: "units \<Rightarrow> escape_carry \<Rightarrow> text_read" where
  "readReplyTextChars [] carry = \<lparr>rd_chars = [], rd_rest = [], rd_closed = False, rd_carry = carry\<rparr>"
| "readReplyTextChars (c # cs) carry =
     (if ec_mode carry = UnicodeEscape \<and> hex_value c \<noteq> None
      then (if length (ec_hex carry @ [c]) = 4
            then add_chars [parse_hex (ec_hex carry @ [c])] (readReplyTextChars cs no_carry)
            else readReplyTextChars cs \<lparr>ec_mode = UnicodeEscape, ec_hex = ec_hex carry @ [c]\<rparr>)
      else if ec_mode carry = SimpleEscape
      then (if c = 117 then readReplyTextChars cs \<lparr>ec_mode = UnicodeEscape, ec_hex = []\<rparr>
            else add_chars [decodeSimpleEscape c] (readReplyTextChars cs \<lparr>ec_mode = NoEscape, ec_hex = ec_hex carry\<rparr>))
      else if c = BACKSLASH then readReplyTextChars cs \<lparr>ec_mode = SimpleEscape, ec_hex = (if ec_mode carry = UnicodeEscape then [] else ec_hex carry)\<rparr>
      else if c = QUOTE then \<lparr>rd_chars = [], rd_rest = cs, rd_closed = True, rd_carry = no_carry\<rparr>
      else add_chars [c] (readReplyTextChars cs \<lparr>ec_mode = NoEscape, ec_hex = (if ec_mode carry = UnicodeEscape then [] else ec_hex carry)\<rparr>))"

section \<open>One round of the loop\<close>

definition delta :: "(units \<Rightarrow> stream_event) \<Rightarrow> units \<Rightarrow> stream_event list" where
  "delta kind cs = (if cs = [] then [] else [kind cs])"

definition before_index :: "nat option \<Rightarrow> nat option \<Rightarrow> bool" where
  "before_index a b = (case a of None \<Rightarrow> False | Some i \<Rightarrow> (case b of None \<Rightarrow> True | Some j \<Rightarrow> i < j))"

text \<open>The events of the round, the parser after it, and \<open>keepGoing\<close>.\<close>

definition stream_step :: "stream_tags \<Rightarrow> stream_parser \<Rightarrow> stream_event list \<times> stream_parser \<times> bool" where
  "stream_step tags p =
     (let b = sp_buffer p
      in case sp_state p of
           Preamble \<Rightarrow>
             (let jsonIdx = findJsonToolStart b; openIdx = tag_index (tg_open tags) b
              in if before_index openIdx jsonIdx
                 then ([ReasoningOpen], p\<lparr>sp_buffer := drop (the openIdx + length (tg_open tags)) b, sp_state := InsideThink\<rparr>, True)
                 else (case jsonIdx of
                         Some j \<Rightarrow> ([], p\<lparr>sp_buffer := drop j b, sp_state := JsonTool\<rparr>, True)
                       | None \<Rightarrow> ([], p\<lparr>sp_buffer := holdPossibleTagStart b (tg_open tags)\<rparr>, False)))
         | InsideThink \<Rightarrow>
             (case tag_index (tg_close tags) b of
                Some i \<Rightarrow>
                  (delta ReasoningDelta (take i b) @ [ReasoningClose],
                   p\<lparr>sp_buffer := drop (i + length (tg_close tags)) b, sp_state := Preamble\<rparr>, True)
              | None \<Rightarrow>
                  (case findToolCallStart b of
                     Some (i, True) \<Rightarrow>
                       (delta ReasoningDelta (take i b) @ [ReasoningClose], p\<lparr>sp_buffer := drop i b, sp_state := JsonTool\<rparr>, True)
                   | start \<Rightarrow>
                       (let holdFrom = (case start of None \<Rightarrow> length b | Some (i, _) \<Rightarrow> i);
                            cutAt = min holdFrom (findSafeReasoningEmitIndex tags b)
                        in (delta ReasoningDelta (take cutAt b), p\<lparr>sp_buffer := drop cutAt b\<rparr>, False))))
         | JsonTool \<Rightarrow>
             (case first_match tool_here b of
                Some (name, rest) \<Rightarrow>
                  ([], p\<lparr>sp_buffer := rest, sp_state := (if name = units ''reply'' then JsonText else StreamDone)\<rparr>, True)
              | None \<Rightarrow> ([], p, False))
         | JsonText \<Rightarrow>
             (case first_match (field_here ''text'') b of
                Some rest \<Rightarrow> ([ReplyTextOpen], p\<lparr>sp_buffer := rest, sp_state := ReplyText\<rparr>, True)
              | None \<Rightarrow> ([], p, False))
         | ReplyText \<Rightarrow>
             (let r = readReplyTextChars b (sp_carry p);
                  p' = p\<lparr>sp_carry := rd_carry r, sp_buffer := rd_rest r\<rparr>; out = delta ReplyTextDelta (rd_chars r)
              in if rd_closed r then (out @ [ReplyTextClose], p'\<lparr>sp_state := StreamDone\<rparr>, True) else (out, p', False))
         | StreamDone \<Rightarrow> ([], p\<lparr>sp_buffer := []\<rparr>, False))"

text \<open>The loop. With two empty tags it need not end, so it is a partial function.\<close>

partial_function (option) stream_advance :: "stream_tags \<Rightarrow> stream_parser \<Rightarrow> (stream_event list \<times> stream_parser) option" where
  [code]: "stream_advance tags p =
     (let (ev, p', more_rounds) = stream_step tags p
      in if more_rounds
         then Option.bind (stream_advance tags p') (\<lambda>(evs, p''). Some (ev @ evs, p''))
         else Some (ev, p'))"

section \<open>The parser's two methods\<close>

definition createStreamParser :: "bool \<Rightarrow> stream_parser" where
  "createStreamParser preOpenedThink =
     \<lparr>sp_state = (if preOpenedThink then InsideThink else Preamble), sp_buffer = [], sp_carry = no_carry\<rparr>"

definition extend :: "stream_parser \<Rightarrow> units \<Rightarrow> stream_parser" where
  "extend p chunk = p\<lparr>sp_buffer := sp_buffer p @ chunk\<rparr>"

definition stream_push :: "stream_tags \<Rightarrow> units \<Rightarrow> stream_parser \<Rightarrow> (stream_event list \<times> stream_parser) option" where
  "stream_push tags chunk p = (if chunk = [] then Some ([], p) else stream_advance tags (extend p chunk))"

text \<open>\<open>end\<close>: an open reasoning block is handed over or flushed, an open reply is closed.\<close>

definition flush_think :: "stream_tags \<Rightarrow> stream_parser \<Rightarrow> (stream_event list \<times> stream_parser) option" where
  "flush_think tags p =
     (if sp_state p \<noteq> InsideThink then Some ([], p)
      else (case findToolCallStart (sp_buffer p) of
              Some (i, True) \<Rightarrow>
                (case stream_advance tags (p\<lparr>sp_buffer := drop i (sp_buffer p), sp_state := JsonTool\<rparr>) of
                   None \<Rightarrow> None
                 | Some (evs, p') \<Rightarrow> Some (delta ReasoningDelta (take i (sp_buffer p)) @ [ReasoningClose] @ evs, p'))
            | _ \<Rightarrow> Some (delta ReasoningDelta (sp_buffer p) @ [ReasoningClose], p\<lparr>sp_buffer := [], sp_state := StreamDone\<rparr>)))"

definition flush_reply :: "stream_parser \<Rightarrow> stream_event list \<times> stream_parser" where
  "flush_reply p =
     (if sp_state p = ReplyText
      then (delta ReplyTextDelta (sp_buffer p) @ [ReplyTextClose], p\<lparr>sp_buffer := [], sp_state := StreamDone\<rparr>)
      else ([], p\<lparr>sp_state := StreamDone\<rparr>))"

definition stream_end :: "stream_tags \<Rightarrow> stream_parser \<Rightarrow> (stream_event list \<times> stream_parser) option" where
  "stream_end tags p =
     (case stream_advance tags p of
        None \<Rightarrow> None
      | Some (ev1, p1) \<Rightarrow>
          (case flush_think tags p1 of
             None \<Rightarrow> None
           | Some (ev2, p2) \<Rightarrow> (case flush_reply p2 of (ev3, p3) \<Rightarrow> Some (ev1 @ ev2 @ ev3, p3))))"

text \<open>A whole stream: the chunks in order, then the end.\<close>

fun stream_run :: "stream_tags \<Rightarrow> units list \<Rightarrow> stream_parser \<Rightarrow> (stream_event list \<times> stream_parser) option" where
  "stream_run tags [] p = stream_end tags p"
| "stream_run tags (chunk # chunks) p =
     (case stream_push tags chunk p of
        None \<Rightarrow> None
      | Some (ev, p') \<Rightarrow>
          (case stream_run tags chunks p' of None \<Rightarrow> None | Some (evs, p'') \<Rightarrow> Some (ev @ evs, p'')))"

end
