(* ===== verification/Stream_Scans.thy ===== *)
theory Stream_Scans
  imports Stream_Parser
begin

text \<open>
  How the scans of the stream parser behave when the buffer grows: what was found stays found, at the same
  place, and what was given up or emitted holds no part of what is found later.
\<close>

section \<open>Tags\<close>

lemma tag_index_Some:
  "tag_index p s = Some i \<Longrightarrow> i \<le> length s \<and> prefix p (drop i s) \<and> (\<forall>j < i. \<not> prefix p (drop j s))"
proof (induction p s arbitrary: i rule: tag_index.induct)
  case (2 p c cs)
  show ?case
  proof (cases "prefix p (c # cs)")
    case False
    then obtain k where k: "tag_index p cs = Some k" "i = Suc k" using 2(2) by auto
    then show ?thesis using 2(1) [OF False k(1)] False by (auto simp: less_Suc_eq_0_disj)
  qed (use 2(2) in simp)
qed (auto split: if_splits)

lemma tag_index_None: "tag_index p s = None \<longleftrightarrow> (\<forall>j \<le> length s. \<not> prefix p (drop j s))"
proof (induction s)
  case (Cons c cs)
  have "(\<forall>j \<le> length (c # cs). \<not> prefix p (drop j (c # cs))) \<longleftrightarrow>
      \<not> prefix p (c # cs) \<and> (\<forall>j \<le> length cs. \<not> prefix p (drop j cs))"
    by (metis Suc_le_mono drop_0 drop_Suc_Cons length_Cons le0 not0_implies_Suc)
  then show ?case using Cons by simp
qed (auto simp: prefix_def)

lemma tag_index_end: "tag_index p s = Some i \<Longrightarrow> i + length p \<le> length s"
  using tag_index_Some [of p s i] by (auto simp: prefix_def dest!: arg_cong [where f = length])

lemma tag_index_append: "tag_index p s = Some i \<Longrightarrow> tag_index p (s @ t) = Some i"
proof (induction p s arbitrary: i rule: tag_index.induct)
  case (2 p c cs)
  show ?case
  proof (cases "prefix p (c # cs)")
    case True
    then have "prefix p (c # cs @ t)" by (metis append_Cons prefix_prefix)
    then show ?thesis using 2(2) True by simp
  next
    case False
    then obtain k where k: "tag_index p cs = Some k" "i = Suc k" using 2(2) by auto
    have "\<not> prefix p (c # cs @ t)"
      using False tag_index_end [OF k(1)] prefix_length_prefix [of p "c # cs @ t" "c # cs"] by fastforce
    then show ?thesis using 2(1) [OF False k(1)] k by simp
  qed
next
  case (1 p)
  then show ?case by (cases t) (auto split: if_splits)
qed

lemma tag_index_skip:
  "c \<le> length s \<Longrightarrow> (\<forall>j < c. \<not> prefix p (drop j s)) \<Longrightarrow> tag_index p s = map_option ((+) c) (tag_index p (drop c s))"
proof (induction c arbitrary: s)
  case (Suc c)
  then obtain x xs where s: "s = x # xs" by (cases s) auto
  have "\<not> prefix p (x # xs)" using Suc(3) s by (metis drop_0 zero_less_Suc)
  moreover have "\<forall>j < c. \<not> prefix p (drop j xs)" using Suc(3) s by (metis drop_Suc_Cons Suc_mono)
  ultimately show ?case using Suc(1) [of xs] Suc(2) s by (simp add: option.map_comp comp_def)
next
  case 0
  then show ?case by (cases "tag_index p s") simp_all
qed

lemma trailing_spec:
  "trailing_prefix tag s k \<le> k \<and> suffix (take (trailing_prefix tag s k) tag) s \<and>
     (\<forall>m. trailing_prefix tag s k < m \<and> m \<le> k \<longrightarrow> \<not> suffix (take m tag) s)"
  by (induction k) (auto simp: le_Suc_eq)

text \<open>The overlap of the end of a text with the start of a tag.\<close>

definition overlap :: "units \<Rightarrow> units \<Rightarrow> nat" where
  "overlap tag s = trailing_prefix tag s (length tag - 1)"

lemma suffix_longer: "m \<le> length tag \<Longrightarrow> suffix (take m tag) s \<Longrightarrow> m \<le> length s"
  using suffix_length_le [of "take m tag" s] by simp

lemma overlap_spec:
  "overlap tag s \<le> length tag - 1" "overlap tag s \<le> length s" "suffix (take (overlap tag s) tag) s"
  "m \<le> length tag - 1 \<Longrightarrow> suffix (take m tag) s \<Longrightarrow> m \<le> overlap tag s"
proof -
  note spec = trailing_spec [of tag s "length tag - 1", folded overlap_def]
  show "overlap tag s \<le> length tag - 1" "suffix (take (overlap tag s) tag) s" using spec by blast+
  then show "overlap tag s \<le> length s" using suffix_longer [of "overlap tag s" tag s] by linarith
  show "m \<le> overlap tag s" if "m \<le> length tag - 1" "suffix (take m tag) s" using spec that by (meson not_le)
qed

lemma trailing_unique:
  assumes "r \<le> k" and "suffix (take r tag) s" and "\<forall>m. r < m \<and> m \<le> k \<longrightarrow> \<not> suffix (take m tag) s"
  shows "trailing_prefix tag s k = r"
  using trailing_spec [of tag s k] assms by (metis antisym_conv linorder_not_less)

lemma trailing_min: "k \<le> length tag \<Longrightarrow> trailing_prefix tag s (min (length s) k) = trailing_prefix tag s k"
proof -
  assume "k \<le> length tag"
  then have "m \<le> length s" if "suffix (take m tag) s" "m \<le> k" for m using suffix_longer [of m tag s] that by simp
  then show ?thesis using trailing_spec [of tag s k] by (intro trailing_unique) auto
qed

lemma hold_drop:
  assumes "tag_index tag s = None"
  shows "holdPossibleTagStart s tag = drop (length s - overlap tag s) s"
proof (cases "length tag \<le> 1")
  case True
  have tag: "tag \<noteq> []" using assms tag_index_None [of tag s] by auto
  then have "take 1 tag = tag" using True by (cases tag) auto
  moreover have "\<not> suffix tag s"
  proof
    assume "suffix tag s"
    then have "drop (length s - length tag) s = tag" by (auto simp: suffix_def)
    then show False using assms tag_index_None [of tag s] by (metis diff_le_self prefix_order.order_refl)
  qed
  ultimately have "trailing_prefix tag s 1 = 0" by simp
  moreover have "length tag = 1" using True tag by (cases tag) auto
  ultimately show ?thesis
    using trailing_min [of 1 tag s] by (simp add: holdPossibleTagStart_def overlap_def)
next
  case False
  then show ?thesis
    using trailing_min [of "length tag - 1" tag s] by (simp add: holdPossibleTagStart_def overlap_def max_def)
qed

lemma safe_index: "findSafeReasoningEmitIndex tags s = length s - overlap (tg_close tags) s"
proof -
  define tag where "tag = tg_close tags"
  define w where "w = drop (length s - min (length s) (closeHoldbackLen tags)) s"
  have w: "length w = min (length s) (closeHoldbackLen tags)" "suffix w s"
    by (auto simp: w_def suffix_drop)
  have same: "suffix (take m tag) w \<longleftrightarrow> suffix (take m tag) s" if "m \<le> length tag - 1" for m
  proof
    assume "suffix (take m tag) s"
    moreover have "length (take m tag) \<le> length w" if "m \<le> length s"
      using that \<open>m \<le> length tag - 1\<close> by (simp add: w(1) closeHoldbackLen_def tag_def)
    ultimately show "suffix (take m tag) w"
      using w(2) suffix_longer [of m tag s] \<open>m \<le> length tag - 1\<close> by (metis diff_le_self le_trans suffix_length_suffix)
  qed (use w(2) suffix_order.trans in blast)
  have "trailing_prefix tag w k = trailing_prefix tag s k" if "k \<le> length tag - 1" for k
    using that by (induction k) (simp_all add: same)
  then show ?thesis
    using trailing_min [of "length tag - 1" tag w]
    by (simp add: findSafeReasoningEmitIndex_def longestTrailingPrefix_def overlap_def tag_def w_def)
qed

text \<open>No tag starts in what is not held back.\<close>

lemma no_tag_before:
  assumes "tag \<noteq> []" and "tag_index tag s = None" and "j < length s - overlap tag s"
  shows "\<not> prefix tag (drop j (s @ t))"
proof
  assume tag: "prefix tag (drop j (s @ t))"
  then have tag': "prefix tag (drop j s @ t)" using assms(3) by simp
  show False
  proof (cases "length tag \<le> length (drop j s)")
    case True
    then have "prefix tag (drop j s)" using tag' by (metis prefixI prefix_length_prefix)
    then show False using assms(2,3) tag_index_None by (metis diff_le_self le_trans less_imp_le)
  next
    case False
    let ?m = "length (drop j s)"
    obtain u where "drop j s @ t = tag @ u" using tag' by (auto simp: prefix_def)
    then have "take ?m (drop j s @ t) = take ?m (tag @ u)" by (rule arg_cong)
    then have "take ?m tag = drop j s" using False by simp
    then have "?m \<le> overlap tag s" using False by (intro overlap_spec(4)) (auto simp: suffix_drop)
    then show False using assms(3) by simp
  qed
qed

lemma overlap_skip:
  assumes "c \<le> length s - overlap tag s"
  shows "overlap tag (drop c s @ t) = overlap tag (s @ t)"
proof -
  have "suffix (take m tag) (drop c s @ t) \<longleftrightarrow> suffix (take m tag) (s @ t)" if m: "m \<le> length tag - 1" for m
  proof
    have sub: "suffix (drop c s @ t) (s @ t)" by (simp add: suffix_drop)
    then show "suffix (take m tag) (s @ t)" if "suffix (take m tag) (drop c s @ t)"
      using that suffix_order.trans by blast
    assume long: "suffix (take m tag) (s @ t)"
    show "suffix (take m tag) (drop c s @ t)"
    proof (cases "m \<le> length (drop c s @ t)")
      case True
      show ?thesis by (rule suffix_length_suffix [OF long sub]) (use True m in simp)
    next
      case False
      let ?k = "m - length t"
      obtain z where z: "s @ t = z @ take m tag" using long by (auto simp: suffix_def)
      have len: "length z + m = length s + length t" using arg_cong [OF z, of length] m by simp
      have "s = take (length s) (z @ take m tag)" using z [symmetric] by simp
      also have "\<dots> = z @ take ?k tag" using len False
        by (simp add: min_def) (metis add_diff_cancel_left' add_diff_cancel_right diff_diff_left)
      finally have "suffix (take ?k tag) s" by (rule suffixI)
      then have "?k \<le> overlap tag s" using m by (intro overlap_spec(4)) simp_all
      then have False using False assms overlap_spec(2) [of tag s] unfolding length_append length_drop by linarith
      then show ?thesis ..
    qed
  qed
  then have "trailing_prefix tag (drop c s @ t) k = trailing_prefix tag (s @ t) k" if "k \<le> length tag - 1" for k
    using that by (induction k) simp_all
  then show ?thesis by (simp add: overlap_def)
qed

section \<open>Starts of tool calls\<close>

declare dropWhile_eq_Nil_conv [simp del]

lemma dropWhile_more:
  "dropWhile P (s @ t) = (if dropWhile P s = [] then dropWhile P t else dropWhile P s @ t)"
  by (induction s) auto

lemma key_class_append:
  "key_class ks s = (Start, r) \<Longrightarrow> key_class ks (s @ t) = (Start, r @ t)"
  "fst (key_class ks s) = NoStart \<Longrightarrow> fst (key_class ks (s @ t)) = NoStart"
  by (induction ks s rule: key_class.induct) (auto split: if_splits)

lemma brace_shape_append:
  "s \<noteq> [] \<Longrightarrow> brace_shape s \<noteq> Pending \<Longrightarrow> brace_shape (s @ t) = brace_shape s"
proof (cases s)
  case (Cons c cs)
  assume decided: "brace_shape s \<noteq> Pending"
  define ks where "ks = QUOTE # units ''tool'' @ [QUOTE]"
  show ?thesis
  proof (cases "c = 123")
    case False
    then show ?thesis using Cons by (simp add: brace_shape_def)
  next
    case brace: True
    have more: "dropWhile json_space (cs @ t) = dropWhile json_space cs @ t"
      if "dropWhile json_space cs \<noteq> []" using that unfolding dropWhile_more by (simp only: if_False)
    obtain cl rest where kc: "key_class ks (dropWhile json_space cs) = (cl, rest)" by fastforce
    have ne: "dropWhile json_space cs \<noteq> []"
    proof
      assume "dropWhile json_space cs = []"
      then have "brace_shape s = Pending" unfolding brace_shape_def Cons by (simp only: brace list.case key_class.simps) simp
      then show False using decided by simp
    qed
    show ?thesis
    proof (cases cl)
      case Start
      have kc': "key_class ks (dropWhile json_space (cs @ t)) = (Start, rest @ t)"
        unfolding more [OF ne] using key_class_append(1) kc Start by blast
      show ?thesis
      proof (cases "dropWhile json_space rest")
        case Nil
        then show ?thesis using decided Cons brace kc Start by (simp add: brace_shape_def ks_def)
      next
        case colon: (Cons d ds)
        then have colon': "dropWhile json_space (rest @ t) = d # ds @ t" by (simp add: dropWhile_more)
        show ?thesis
        proof (cases "d = 58")
          case True
          then have "dropWhile json_space ds \<noteq> []"
            using decided Cons brace kc Start colon by (auto simp: brace_shape_def ks_def)
          then obtain e es where e: "dropWhile json_space ds = e # es" "dropWhile json_space (ds @ t) = e # es @ t"
            by (cases "dropWhile json_space ds") (auto simp: dropWhile_more)
          show ?thesis
            using Cons brace kc kc' Start colon colon' True e by (simp add: brace_shape_def ks_def)
        qed (use Cons brace kc kc' Start colon colon' in \<open>simp add: brace_shape_def ks_def\<close>)
      qed
    next
      case Pending
      then show ?thesis using decided Cons brace kc by (simp add: brace_shape_def ks_def)
    next
      case NoStart
      then have "fst (key_class ks (dropWhile json_space (cs @ t))) = NoStart"
        unfolding more [OF ne] using key_class_append(2) kc by simp
      then show ?thesis using Cons brace kc NoStart by (auto simp: brace_shape_def ks_def split: prod.splits)
    qed
  qed
qed simp

lemma start_shape_append:
  assumes "s \<noteq> []" and "start_shape s \<noteq> Pending"
  shows "start_shape (s @ t) = start_shape s"
proof (cases s)
  case (Cons c cs)
  show ?thesis
  proof (cases "c = 91")
    case True
    have ne: "dropWhile json_space cs \<noteq> []"
    proof
      assume "dropWhile json_space cs = []"
      then show False using assms(2) Cons True by (simp add: start_shape_def)
    qed
    then have "dropWhile json_space (cs @ t) = dropWhile json_space cs @ t" unfolding dropWhile_more by (simp only: if_False)
    then show ?thesis
      using assms Cons True ne brace_shape_append [OF ne, of t]
      by (simp add: start_shape_def del: dropWhile_eq_Nil_conv)
  next
    case False
    then show ?thesis using assms Cons brace_shape_append [of s t] by (simp add: start_shape_def)
  qed
qed (use assms in simp)

text \<open>No candidate of the text is given up only because it has been undecided for too long.\<close>

definition within_cap :: "units \<Rightarrow> bool" where
  "within_cap s \<longleftrightarrow> (\<forall>k n. start_shape (take n (drop k s)) = Pending \<longrightarrow> length (take n (drop k s)) \<le> TOOL_START_PROBE_CAP)"

lemma within_cap_drop: "within_cap s \<Longrightarrow> within_cap (drop k s)"
  unfolding within_cap_def by (metis drop_drop)

lemma within_cap_prefix:
  assumes "within_cap (s @ t)"
  shows "within_cap s"
  unfolding within_cap_def
proof (intro allI impI)
  fix k n assume p: "start_shape (take n (drop k s)) = Pending"
  have "take n (drop k s) = take (min n (length s - k)) (drop k (s @ t))" by (simp add: min_def)
  then show "length (take n (drop k s)) \<le> TOOL_START_PROBE_CAP" using assms p unfolding within_cap_def by metis
qed

lemma classify_within:
  assumes "within_cap s"
  shows "classifyToolCallStart (drop k s) = start_shape (drop k s)"
proof (cases "start_shape (drop k s)")
  case Pending
  then have "start_shape (take (length s) (drop k s)) = Pending" by simp
  then have "length (take (length s) (drop k s)) \<le> TOOL_START_PROBE_CAP" using assms unfolding within_cap_def by blast
  then show ?thesis using Pending by (simp add: classifyToolCallStart_def)
qed (simp_all add: classifyToolCallStart_def)

text \<open>The position \<open>k\<close> holds no candidate that is still alive.\<close>

definition dead_at :: "units \<Rightarrow> nat \<Rightarrow> bool" where
  "dead_at s k \<longleftrightarrow> (is_bracket (s ! k) \<longrightarrow> classifyToolCallStart (drop k s) = NoStart)"

lemma find_start_spec:
  "case findToolCallStart s of
     None \<Rightarrow> \<forall>k < length s. dead_at s k
   | Some (i, b) \<Rightarrow> i < length s \<and> is_bracket (s ! i) \<and>
       classifyToolCallStart (drop i s) = (if b then Start else Pending) \<and> (\<forall>k < i. dead_at s k)"
proof (induction s)
  case (Cons c cs)
  have tail: "dead_at (c # cs) (Suc k) \<longleftrightarrow> dead_at cs k" for k by (simp add: dead_at_def)
  show ?case
  proof (cases "dead_at (c # cs) 0")
    case True
    have "findToolCallStart (c # cs) = map_option (apfst Suc) (findToolCallStart cs)"
      using True by (auto simp: dead_at_def Let_def)
    then show ?thesis
      using Cons True by (auto simp: tail All_less_Suc2 split: option.splits)
  next
    case False
    then have "is_bracket c" "classifyToolCallStart (c # cs) \<noteq> NoStart" by (simp_all add: dead_at_def)
    then show ?thesis by (cases "classifyToolCallStart (c # cs)") simp_all
  qed
qed simp

lemma find_start_skip:
  "c \<le> length s \<Longrightarrow> \<forall>k < c. dead_at s k \<Longrightarrow> findToolCallStart s = map_option (apfst ((+) c)) (findToolCallStart (drop c s))"
proof (induction c arbitrary: s)
  case (Suc c)
  then obtain x xs where s: "s = x # xs" by (cases s) auto
  have "findToolCallStart s = map_option (apfst Suc) (findToolCallStart xs)"
    using Suc(3) s by (auto simp: dead_at_def Let_def dest!: spec [of _ 0])
  moreover have "dead_at xs k" if "k < c" for k
    using Suc(3) [rule_format, of "Suc k"] that s by (simp add: dead_at_def)
  ultimately show ?case using Suc(1) [of xs] Suc(2) s by (cases "findToolCallStart (drop c xs)") auto
next
  case 0
  then show ?case by (cases "findToolCallStart s") (auto simp: apfst_def map_prod_def split: prod.splits)
qed

lemma dead_append:
  assumes "within_cap (s @ t)" and "k < length s" and "dead_at s k"
  shows "dead_at (s @ t) k"
proof -
  have "start_shape (drop k s @ t) = NoStart" if "start_shape (drop k s) = NoStart"
    using start_shape_append [of "drop k s" t] that assms(2) by simp
  then show ?thesis
    using assms classify_within [OF assms(1), of k] classify_within [OF within_cap_prefix [OF assms(1)], of k]
    by (auto simp: dead_at_def nth_append)
qed

section \<open>Fields\<close>

lemma first_match_skip:
  "\<forall>k < length s. here (drop k s) = None \<Longrightarrow> first_match here s = None"
proof (induction s)
  case (Cons c cs)
  have "here (c # cs) = None" using Cons(2) by (metis drop_0 length_greater_0_conv list.simps(3))
  moreover have "\<forall>k < length cs. here (drop k cs) = None" using Cons(2) by (metis drop_Suc_Cons length_Cons Suc_mono)
  ultimately show ?case using Cons(1) by simp
qed simp

text \<open>A matcher whose matches survive more text and cannot overtake each other.\<close>

definition steady :: "(units \<Rightarrow> 'a option) \<Rightarrow> ('a \<Rightarrow> units \<Rightarrow> 'a) \<Rightarrow> bool" where
  "steady here more_text \<longleftrightarrow>
     (\<forall>s t x. s \<noteq> [] \<and> here s = Some x \<longrightarrow> here (s @ t) = Some (more_text x t)) \<and>
     (\<forall>s t. s \<noteq> [] \<and> here s = None \<and> here (s @ t) \<noteq> None \<longrightarrow> first_match here s = None)"

lemma first_match_append:
  assumes "steady here more_text" and "first_match here s = Some x"
  shows "first_match here (s @ t) = Some (more_text x t)"
  using assms(2)
proof (induction s)
  case (Cons c cs)
  show ?case
  proof (cases "here (c # cs)")
    case None
    then have "here ((c # cs) @ t) = None" using assms(1) Cons(2) unfolding steady_def by fastforce
    then show ?thesis using Cons None by simp
  next
    case (Some y)
    then have "here ((c # cs) @ t) = Some (more_text y t)" using assms(1) unfolding steady_def by blast
    then show ?thesis using Cons(2) Some by simp
  qed
qed simp

text \<open>A quoted key occurs once where at most one more quote follows it.\<close>

lemma key_once:
  assumes "QUOTE \<notin> set ks" and "ks \<noteq> []" and "w = [] \<or> hd w \<noteq> hd ks" and "count_list w QUOTE \<le> 1" and "0 < p"
  shows "\<not> prefix (QUOTE # ks @ [QUOTE]) (drop p (QUOTE # ks @ [QUOTE] @ w))"
proof -
  obtain p' where p: "p = Suc p'" using assms(5) by (cases p) auto
  consider "p' < length ks" | "p' = length ks" | "length ks < p'" by linarith
  then show ?thesis
  proof cases
    case 1
    then have "drop p (QUOTE # ks @ [QUOTE] @ w) = ks ! p' # drop (Suc p') ks @ [QUOTE] @ w"
      by (simp add: p Cons_nth_drop_Suc [symmetric])
    then show ?thesis using 1 assms(1) by (auto simp: in_set_conv_nth)
  next
    case 2
    then show ?thesis using assms(2,3) by (cases ks; cases w) (auto simp: p)
  next
    case 3
    define m where "m = p' - Suc (length ks)"
    have "drop p (QUOTE # ks @ [QUOTE] @ w) = drop m w"
      using 3 by (simp add: p m_def) (metis Suc_diff_Suc drop_Suc_Cons)
    moreover have "\<not> prefix (QUOTE # ks @ [QUOTE]) (drop m w)"
    proof
      assume "prefix (QUOTE # ks @ [QUOTE]) (drop m w)"
      then have "2 \<le> count_list (drop m w) QUOTE" by (auto simp: prefix_def)
      moreover have "count_list (drop m w) QUOTE \<le> count_list w QUOTE"
        by (metis append_take_drop_id count_list_append le_add2)
      ultimately show False using assms(4) by linarith
    qed
    ultimately show ?thesis by simp
  qed
qed

definition quoted :: "string \<Rightarrow> units" where
  "quoted key = QUOTE # units key @ [QUOTE]"

definition field_tail :: "units \<Rightarrow> units option" where
  "field_tail r =
     (case dropWhile regex_space r of
        [] \<Rightarrow> None
      | c # cs \<Rightarrow>
          if c \<noteq> 58 then None
          else (case dropWhile regex_space cs of [] \<Rightarrow> None | d # ds \<Rightarrow> if d = QUOTE then Some ds else None))"

lemma field_here_tail: "field_here key s = (if prefix (quoted key) s then field_tail (drop (length (quoted key)) s) else None)"
  by (simp add: field_here_def quoted_def field_tail_def Let_def)

text \<open>What a tail is made of when it matches, and when it is still open.\<close>

definition gap :: "units \<Rightarrow> bool" where
  "gap w \<longleftrightarrow> (\<forall>c \<in> set w. regex_space c \<or> c = 58)"

lemma gap_split: "dropWhile regex_space r = c # cs \<Longrightarrow> \<exists>w. r = w @ c # cs \<and> (\<forall>x \<in> set w. regex_space x)"
  by (metis set_takeWhileD takeWhile_dropWhile_id)

lemma field_tail_Some:
  assumes "field_tail r = Some ds"
  shows "\<exists>w. r = w @ QUOTE # ds \<and> w \<noteq> [] \<and> gap w" and "field_tail (r @ t) = Some (ds @ t)"
proof -
  obtain cs where cs: "dropWhile regex_space r = 58 # cs" "dropWhile regex_space cs = QUOTE # ds"
    using assms by (auto simp: field_tail_def split: list.splits if_splits)
  obtain w v where "r = w @ 58 # cs" "\<forall>x \<in> set w. regex_space x" "cs = v @ QUOTE # ds" "\<forall>x \<in> set v. regex_space x"
    using gap_split [OF cs(1)] gap_split [OF cs(2)] by blast
  then show "\<exists>w. r = w @ QUOTE # ds \<and> w \<noteq> [] \<and> gap w" by (intro exI [of _ "w @ 58 # v"]) (auto simp: gap_def)
  show "field_tail (r @ t) = Some (ds @ t)" using cs by (simp add: field_tail_def dropWhile_more)
qed

lemma field_tail_open:
  assumes "field_tail r = None" and "field_tail (r @ t) \<noteq> None"
  shows "gap r"
proof (cases "dropWhile regex_space r")
  case Nil
  then show ?thesis by (auto simp: gap_def dropWhile_eq_Nil_conv)
next
  case (Cons c cs)
  then obtain w where w: "r = w @ c # cs" "\<forall>x \<in> set w. regex_space x" using gap_split by blast
  have c: "c = 58" using assms(2) Cons by (auto simp: field_tail_def dropWhile_more split: if_splits)
  have "dropWhile regex_space cs = []"
  proof (cases "dropWhile regex_space cs")
    case (Cons d ds)
    then show ?thesis using assms \<open>dropWhile regex_space r = c # cs\<close> c by (auto simp: field_tail_def dropWhile_more split: if_splits)
  qed
  then show ?thesis using w c by (auto simp: gap_def dropWhile_eq_Nil_conv)
qed

definition plain_key :: "string \<Rightarrow> bool" where
  "plain_key key \<longleftrightarrow> key \<noteq> [] \<and> QUOTE \<notin> set (units key) \<and> \<not> regex_space (hd (units key)) \<and> hd (units key) \<noteq> 58"

lemma plain_keys: "plain_key ''tool''" "plain_key ''text''"
  by (simp_all add: plain_key_def units_def QUOTE_def regex_space_def)

lemma gap_head: "gap w \<Longrightarrow> plain_key key \<Longrightarrow> w = [] \<or> hd (w @ v) \<noteq> hd (units key)"
  by (cases w) (auto simp: gap_def plain_key_def)

lemma gap_quote: "gap w \<Longrightarrow> count_list w QUOTE = 0"
  by (auto simp: gap_def count_list_0_iff QUOTE_def regex_space_def)

lemma field_open:
  assumes "plain_key key" and "field_here key s = None" and "field_here key (s @ t) \<noteq> None" and "0 < p"
  shows "\<not> prefix (quoted key) (drop p s)"
proof (cases "prefix (quoted key) s")
  case True
  then obtain r where r: "s = quoted key @ r" by (auto simp: prefix_def)
  then have "gap r" using assms(2,3) by (intro field_tail_open [of r t]) (auto simp: field_here_tail split: if_splits)
  then show ?thesis
    using key_once [of "units key" r p] gap_head [of r key "[]"] gap_quote [of r] assms(1,4)
    by (simp add: r quoted_def plain_key_def units_def)
next
  case False
  have "prefix (quoted key) (s @ t)" using assms(3) by (auto simp: field_here_tail split: if_splits)
  then have "length s < length (quoted key)" using False by (metis not_le prefixI prefix_length_prefix)
  then show ?thesis using prefix_length_le [of "quoted key" "drop p s"] by fastforce
qed

lemma field_steady:
  assumes "plain_key key"
  shows "steady (field_here key) (@)"
  unfolding steady_def
proof (intro conjI allI impI; elim conjE)
  fix s t x assume "field_here key s = Some x"
  then show "field_here key (s @ t) = Some (x @ t)"
    using field_tail_Some(2) by (auto simp: field_here_tail prefix_def split: if_splits)
next
  fix s t assume s: "s \<noteq> []" "field_here key s = None" "field_here key (s @ t) \<noteq> None"
  have "field_here key (drop k s) = None" for k
    using field_open [OF assms s(2,3), of k] s(2) by (cases k) (simp_all add: field_here_tail)
  then show "first_match (field_here key) s = None" by (simp add: first_match_skip)
qed

section \<open>The name of the tool\<close>

definition name_unit :: "nat \<Rightarrow> bool" where
  "name_unit c \<longleftrightarrow> c \<noteq> QUOTE \<and> c \<noteq> BACKSLASH"

definition name_tail :: "units \<Rightarrow> (units \<times> units) option" where
  "name_tail ds =
     (if takeWhile name_unit ds = [] then None
      else (case dropWhile name_unit ds of [] \<Rightarrow> None | e # es \<Rightarrow> if e = QUOTE then Some (takeWhile name_unit ds, es) else None))"

lemma tool_here_tail: "tool_here s = (case field_here ''tool'' s of None \<Rightarrow> None | Some ds \<Rightarrow> name_tail ds)"
proof -
  have n: "name_unit = (\<lambda>c. c \<noteq> QUOTE \<and> c \<noteq> BACKSLASH)" by (rule ext) (simp add: name_unit_def)
  show ?thesis unfolding tool_here_def name_tail_def n Let_def dropWhile_eq_drop ..
qed

lemma takeWhile_more: "dropWhile P s \<noteq> [] \<Longrightarrow> takeWhile P (s @ t) = takeWhile P s"
  by (induction s) auto

lemma name_tail_append: "name_tail ds = Some (name, es) \<Longrightarrow> name_tail (ds @ t) = Some (name, es @ t)"
  by (auto simp: name_tail_def takeWhile_more dropWhile_more split: list.splits if_splits)

lemma name_tail_open:
  assumes "name_tail ds = None" and "name_tail (ds @ t) \<noteq> None"
  shows "QUOTE \<notin> set ds"
proof (cases "dropWhile name_unit ds")
  case Nil
  then show ?thesis by (auto simp: dropWhile_eq_Nil_conv name_unit_def)
next
  case (Cons e es)
  then show ?thesis using assms by (auto simp: name_tail_def takeWhile_more dropWhile_more split: if_splits)
qed

lemma tool_steady: "steady tool_here (\<lambda>(name, es) t. (name, es @ t))"
  unfolding steady_def
proof (intro conjI allI impI; elim conjE)
  fix s t x assume s: "s \<noteq> []" "tool_here s = Some x"
  then obtain ds where ds: "field_here ''tool'' s = Some ds" "name_tail ds = Some x"
    by (auto simp: tool_here_tail split: option.splits)
  have "field_here ''tool'' (s @ t) = Some (ds @ t)"
    using field_steady [OF plain_keys(1)] s(1) ds(1) by (auto simp: steady_def)
  then show "tool_here (s @ t) = Some ((\<lambda>(name, es) t. (name, es @ t)) x t)"
    using name_tail_append [of ds _ _ t] ds(2) by (auto simp: tool_here_tail split: prod.splits)
next
  fix s t assume s: "s \<noteq> []" "tool_here s = None" "tool_here (s @ t) \<noteq> None"
  have "\<not> prefix (quoted ''tool'') (drop p s)" if "0 < p" for p
  proof (cases "field_here ''tool'' s")
    case None
    then show ?thesis using field_open [OF plain_keys(1) None _ that] s(3) by (auto simp: tool_here_tail split: option.splits)
  next
    case (Some ds)
    then obtain r where r: "s = quoted ''tool'' @ r" "field_tail r = Some ds"
      by (auto simp: field_here_tail prefix_def split: if_splits)
    obtain w where w: "r = w @ QUOTE # ds" "w \<noteq> []" "gap w" using field_tail_Some(1) [OF r(2)] by blast
    have "field_here ''tool'' (s @ t) = Some (ds @ t)"
      using field_steady [OF plain_keys(1)] s(1) Some by (auto simp: steady_def)
    then have "QUOTE \<notin> set ds" using name_tail_open [of ds t] s(2,3) Some by (simp add: tool_here_tail)
    then have "count_list r QUOTE \<le> 1" using gap_quote [OF w(3)] by (simp add: w(1) count_list_0_iff)
    then show ?thesis
      using key_once [of "units ''tool''" r p] gap_head [OF w(3) plain_keys(1)] w(2) that plain_keys(1)
      by (simp add: r(1) quoted_def plain_key_def w(1)) (simp add: units_def)
  qed
  then have "tool_here (drop k s) = None" for k
    using s(2) by (cases k) (simp_all add: tool_here_tail field_here_tail)
  then show "first_match tool_here s = None" by (simp add: first_match_skip)
qed

section \<open>The text of the reply\<close>

lemma add_chars_simps [simp]:
  "rd_chars (add_chars cs r) = cs @ rd_chars r" "rd_rest (add_chars cs r) = rd_rest r"
  "rd_closed (add_chars cs r) = rd_closed r" "rd_carry (add_chars cs r) = rd_carry r"
  "add_chars cs (add_chars ds r) = add_chars (cs @ ds) r" "add_chars [] r = r"
  "add_chars cs r\<lparr>rd_rest := x\<rparr> = add_chars cs (r\<lparr>rd_rest := x\<rparr>)"
  by (simp_all add: add_chars_def)

text \<open>One unit either ends the reply or contributes some characters and a carry, whatever follows it.\<close>

lemma read_step:
  "(\<exists>x k. \<forall>cs. readReplyTextChars (c # cs) carry = add_chars x (readReplyTextChars cs k)) \<or>
   (\<forall>cs. readReplyTextChars (c # cs) carry = \<lparr>rd_chars = [], rd_rest = cs, rd_closed = True, rd_carry = no_carry\<rparr>)"
proof -
  let ?goes = "\<lambda>x k. \<forall>cs. readReplyTextChars (c # cs) carry = add_chars x (readReplyTextChars cs k)"
  consider (hex4) "ec_mode carry = UnicodeEscape \<and> hex_value c \<noteq> None" "length (ec_hex carry @ [c]) = 4"
    | (hex) "ec_mode carry = UnicodeEscape \<and> hex_value c \<noteq> None" "length (ec_hex carry @ [c]) \<noteq> 4"
    | (u) "ec_mode carry = SimpleEscape" "c = 117" | (simple) "ec_mode carry = SimpleEscape" "c \<noteq> 117"
    | (slash) "\<not> (ec_mode carry = UnicodeEscape \<and> hex_value c \<noteq> None)" "ec_mode carry \<noteq> SimpleEscape" "c = BACKSLASH"
    | (close) "\<not> (ec_mode carry = UnicodeEscape \<and> hex_value c \<noteq> None)" "ec_mode carry \<noteq> SimpleEscape" "c \<noteq> BACKSLASH" "c = QUOTE"
    | (plain) "\<not> (ec_mode carry = UnicodeEscape \<and> hex_value c \<noteq> None)" "ec_mode carry \<noteq> SimpleEscape" "c \<noteq> BACKSLASH" "c \<noteq> QUOTE"
    by blast
  then show ?thesis
  proof cases
    case hex4
    then have "?goes [parse_hex (ec_hex carry @ [c])] no_carry" by simp
    then show ?thesis by blast
  next
    case hex
    then have "?goes [] \<lparr>ec_mode = UnicodeEscape, ec_hex = ec_hex carry @ [c]\<rparr>" by simp
    then show ?thesis by blast
  next
    case u
    then have "?goes [] \<lparr>ec_mode = UnicodeEscape, ec_hex = []\<rparr>" by simp
    then show ?thesis by blast
  next
    case simple
    then have "?goes [decodeSimpleEscape c] \<lparr>ec_mode = NoEscape, ec_hex = ec_hex carry\<rparr>" by simp
    then show ?thesis by blast
  next
    case slash
    then have "?goes [] \<lparr>ec_mode = SimpleEscape, ec_hex = (if ec_mode carry = UnicodeEscape then [] else ec_hex carry)\<rparr>" by auto
    then show ?thesis by blast
  next
    case close
    then have "\<forall>cs. readReplyTextChars (c # cs) carry = \<lparr>rd_chars = [], rd_rest = cs, rd_closed = True, rd_carry = no_carry\<rparr>"
      by (auto simp: QUOTE_def BACKSLASH_def)
    then show ?thesis by blast
  next
    case plain
    then have "?goes [c] \<lparr>ec_mode = NoEscape, ec_hex = (if ec_mode carry = UnicodeEscape then [] else ec_hex carry)\<rparr>" by auto
    then show ?thesis by blast
  qed
qed

lemma read_open_rest: "\<not> rd_closed (readReplyTextChars s carry) \<Longrightarrow> rd_rest (readReplyTextChars s carry) = []"
proof (induction s arbitrary: carry)
  case (Cons c cs)
  then show ?case using read_step [of c carry] by (auto simp del: readReplyTextChars.simps)
qed simp

lemma read_append:
  "readReplyTextChars (s @ t) carry =
     (let r = readReplyTextChars s carry
      in if rd_closed r then r\<lparr>rd_rest := rd_rest r @ t\<rparr> else add_chars (rd_chars r) (readReplyTextChars t (rd_carry r)))"
proof (induction s arbitrary: carry)
  case (Cons c cs)
  consider x k where "\<forall>cs. readReplyTextChars (c # cs) carry = add_chars x (readReplyTextChars cs k)"
    | "\<forall>cs. readReplyTextChars (c # cs) carry = \<lparr>rd_chars = [], rd_rest = cs, rd_closed = True, rd_carry = no_carry\<rparr>"
    using read_step [of c carry] by blast
  then show ?case
  proof cases
    case 1
    then show ?thesis using Cons by (simp add: Let_def del: readReplyTextChars.simps)
  qed (simp add: Let_def del: readReplyTextChars.simps)
qed simp

end
