(* ===== verification/Stream_Chunks.thy ===== *)
theory Stream_Chunks
  imports Stream_Scans
begin

text \<open>
  A stream cut into chunks is parsed as the whole stream is: every round of the loop either does the same
  with more text behind it or stops, and what it emits before stopping is what the round on the longer
  text emits first.
\<close>

section \<open>The loop ends\<close>

definition good_tags :: "stream_tags \<Rightarrow> bool" where
  "good_tags tags \<longleftrightarrow> tg_open tags \<noteq> [] \<and> tg_close tags \<noteq> [] \<and>
     (\<forall>c \<in> set (tg_open tags) \<union> set (tg_close tags). \<not> is_bracket c)"

fun state_rank :: "parser_state \<Rightarrow> nat" where
  "state_rank Preamble = 4"
| "state_rank InsideThink = 4"
| "state_rank JsonTool = 3"
| "state_rank JsonText = 2"
| "state_rank ReplyText = 1"
| "state_rank StreamDone = 0"

definition round_order :: "(stream_parser \<times> stream_parser) set" where
  "round_order = measures [\<lambda>p. state_rank (sp_state p), \<lambda>p. length (sp_buffer p)]"

lemma wf_round_order: "wf round_order"
  by (simp add: round_order_def)

lemma field_rest: "field_here key s = Some ds \<Longrightarrow> \<exists>k. 0 < k \<and> k \<le> length s \<and> ds = drop k s"
proof -
  assume f: "field_here key s = Some ds"
  then obtain r where r: "s = quoted key @ r" "field_tail r = Some ds"
    by (auto simp: field_here_tail prefix_def split: if_splits)
  then obtain w where "r = w @ QUOTE # ds" using field_tail_Some(1) by blast
  then have "s = (quoted key @ w @ [QUOTE]) @ ds" using r(1) by simp
  then show ?thesis by (intro exI [of _ "length (quoted key @ w @ [QUOTE])"]) simp
qed

lemma tool_rest: "tool_here s = Some (name, es) \<Longrightarrow> \<exists>k. 0 < k \<and> k \<le> length s \<and> es = drop k s"
proof -
  assume "tool_here s = Some (name, es)"
  then obtain ds where ds: "field_here ''tool'' s = Some ds" "name_tail ds = Some (name, es)"
    by (auto simp: tool_here_tail split: option.splits)
  obtain k where k: "k \<le> length s" "ds = drop k s" "0 < k" using field_rest [OF ds(1)] by blast
  have "dropWhile name_unit ds = QUOTE # es" "name = takeWhile name_unit ds"
    using ds(2) by (auto simp: name_tail_def split: list.splits if_splits)
  then have "ds = name @ QUOTE # es" by (metis takeWhile_dropWhile_id)
  then have "es = drop (length name + 1) ds" "length name + 1 \<le> length ds" by simp_all
  then show ?thesis using k by (intro exI [of _ "k + (length name + 1)"]) (simp add: add.commute)
qed

lemma first_match_rest:
  assumes "\<And>s x. here s = Some x \<Longrightarrow> \<exists>k. 0 < k \<and> k \<le> length s \<and> rest x = drop k s"
  shows "first_match here s = Some x \<Longrightarrow> \<exists>k. 0 < k \<and> k \<le> length s \<and> rest x = drop k s"
proof (induction s)
  case (Cons c cs)
  show ?case
  proof (cases "here (c # cs)")
    case None
    then obtain k where "0 < k" "k \<le> length cs" "rest x = drop k cs" using Cons by auto
    then show ?thesis by (intro exI [of _ "Suc k"]) simp
  next
    case (Some y)
    then show ?thesis using assms [OF Some] Cons(2) by simp
  qed
qed simp

lemma read_rest: "\<exists>k \<le> length s. rd_rest (readReplyTextChars s carry) = drop k s"
proof (induction s arbitrary: carry)
  case (Cons c cs)
  consider x k where "\<forall>cs. readReplyTextChars (c # cs) carry = add_chars x (readReplyTextChars cs k)"
    | "\<forall>cs. readReplyTextChars (c # cs) carry = \<lparr>rd_chars = [], rd_rest = cs, rd_closed = True, rd_carry = no_carry\<rparr>"
    using read_step [of c carry] by blast
  then show ?case
  proof cases
    case 1
    then show ?thesis using Cons [of k] by (auto simp del: readReplyTextChars.simps intro: exI [of _ "Suc _"])
  next
    case 2
    then show ?thesis by (auto simp del: readReplyTextChars.simps intro: exI [of _ 1])
  qed
qed simp

text \<open>A round takes a piece off the front of the buffer.\<close>

lemma step_suffix:
  "stream_step tags p = (ev, p', go_on) \<Longrightarrow> \<exists>k \<le> length (sp_buffer p). sp_buffer p' = drop k (sp_buffer p)"
proof -
  assume step: "stream_step tags p = (ev, p', go_on)"
  have all: "\<exists>k \<le> length b. drop j b = drop k b" for j and b :: units
    by (metis drop_all linear order_refl)
  show ?thesis
  proof (cases "sp_state p")
    case JsonTool
    then show ?thesis
      using step first_match_rest [of tool_here snd "sp_buffer p"] tool_rest
      by (fastforce simp: stream_step_def Let_def split: option.splits)
  next
    case JsonText
    then show ?thesis
      using step first_match_rest [of "field_here ''text''" id "sp_buffer p"] field_rest
      by (fastforce simp: stream_step_def Let_def split: option.splits)
  next
    case ReplyText
    then show ?thesis using step read_rest [of "sp_buffer p" "sp_carry p"]
      by (auto simp: stream_step_def Let_def split: if_splits)
  next
    case StreamDone
    then show ?thesis using step by (auto simp: stream_step_def Let_def intro: exI [of _ "length (sp_buffer p)"])
  qed (use step all in \<open>auto simp: stream_step_def Let_def holdPossibleTagStart_def split: option.splits bool.splits if_splits\<close>)
qed

lemma cut_shorter: "0 < (k :: nat) \<Longrightarrow> a + k \<le> n \<Longrightarrow> n - (a + k) < n"
  by simp

lemma step_decreases:
  assumes "good_tags tags" and step: "stream_step tags p = (ev, p', True)"
  shows "(p', p) \<in> round_order"
proof (cases "sp_state p")
  case Preamble
  have "0 < length (tg_open tags)" using assms(1) by (simp add: good_tags_def)
  then show ?thesis
    using Preamble step tag_index_end [of "tg_open tags" "sp_buffer p"]
    by (cases "tag_index (tg_open tags) (sp_buffer p)")
      (auto simp: stream_step_def Let_def round_order_def before_index_def intro!: cut_shorter split: option.splits if_splits)
next
  case InsideThink
  have "0 < length (tg_close tags)" using assms(1) by (simp add: good_tags_def)
  then show ?thesis
    using InsideThink step tag_index_end [of "tg_close tags" "sp_buffer p"]
    by (cases "tag_index (tg_close tags) (sp_buffer p)")
      (auto simp: stream_step_def Let_def round_order_def intro!: cut_shorter split: option.splits bool.splits if_splits)
qed (use step in \<open>auto simp: stream_step_def Let_def round_order_def split: option.splits if_splits\<close>)

lemma round_induct:
  assumes "good_tags tags" and "\<And>p. (\<And>ev p'. stream_step tags p = (ev, p', True) \<Longrightarrow> P p') \<Longrightarrow> P p"
  shows "P p"
  by (induction p rule: wf_induct_rule [OF wf_round_order]) (use assms step_decreases in blast)

lemma advance_stop: "stream_step tags p = (ev, p', False) \<Longrightarrow> stream_advance tags p = Some (ev, p')"
  by (simp add: stream_advance.simps [of tags p])

lemma advance_go:
  "stream_step tags p = (ev, p', True) \<Longrightarrow> stream_advance tags p' = Some (evs, q) \<Longrightarrow> stream_advance tags p = Some (ev @ evs, q)"
  by (simp add: stream_advance.simps [of tags p])

lemma advance_total:
  assumes "good_tags tags"
  shows "\<exists>ev q. stream_advance tags p = Some (ev, q)"
proof (rule round_induct [OF assms, of "\<lambda>p. \<exists>ev q. stream_advance tags p = Some (ev, q)"])
  fix p assume ih: "\<And>ev p'. stream_step tags p = (ev, p', True) \<Longrightarrow> \<exists>ev q. stream_advance tags p' = Some (ev, q)"
  obtain ev p' go_on where step: "stream_step tags p = (ev, p', go_on)" by (cases "stream_step tags p") auto
  show "\<exists>ev q. stream_advance tags p = Some (ev, q)"
  proof (cases go_on)
    case True
    then have go: "stream_step tags p = (ev, p', True)" using step by simp
    then obtain evs q where "stream_advance tags p' = Some (evs, q)" using ih by blast
    then show ?thesis using advance_go [OF go] by blast
  next
    case False
    then show ?thesis using step advance_stop [of tags p ev p'] by simp
  qed
qed

section \<open>More text behind the buffer\<close>

lemma extend_simps [simp]:
  "sp_buffer (extend p b) = sp_buffer p @ b" "sp_state (extend p b) = sp_state p" "sp_carry (extend p b) = sp_carry p"
  "extend (extend p a) b = extend p (a @ b)" "extend p [] = p"
  "extend (p\<lparr>sp_buffer := c\<rparr>) b = p\<lparr>sp_buffer := c @ b\<rparr>"
  "extend (p\<lparr>sp_state := s\<rparr>) b = (extend p b)\<lparr>sp_state := s\<rparr>" "extend (p\<lparr>sp_carry := k\<rparr>) b = (extend p b)\<lparr>sp_carry := k\<rparr>"
  "(extend p b)\<lparr>sp_buffer := c\<rparr> = p\<lparr>sp_buffer := c\<rparr>"
  by (simp_all add: extend_def)

text \<open>No reasoning block holds a complete start of a tool call before its closing tag.\<close>

definition settled :: "stream_tags \<Rightarrow> units \<Rightarrow> bool" where
  "settled tags s \<longleftrightarrow>
     (\<forall>i. tag_index (tg_close tags) s = Some i \<longrightarrow>
        (\<forall>k < i. start_shape (drop k (take (i + length (tg_close tags)) s)) \<noteq> Start))"

inductive calm :: "stream_tags \<Rightarrow> stream_parser \<Rightarrow> bool" for tags where
  calmI: "(sp_state p = InsideThink \<Longrightarrow> settled tags (sp_buffer p)) \<Longrightarrow>
    (\<And>ev p'. stream_step tags p = (ev, p', True) \<Longrightarrow> calm tags p') \<Longrightarrow> calm tags p"

inductive_cases calmE: "calm tags p"

lemma findIndex_append:
  "findIndex P (xs @ ys) = (case findIndex P xs of Some i \<Rightarrow> Some i | None \<Rightarrow> map_option ((+) (length xs)) (findIndex P ys))"
  by (induction xs; cases "findIndex P ys") (auto split: option.splits)

text \<open>A tag that reaches over the end of the old buffer covers no bracket of it.\<close>

lemma tag_over_bracket:
  assumes "\<forall>c \<in> set tag. \<not> is_bracket c" and "tag_index tag s = None" and "tag_index tag (s @ t) = Some i"
    and "j < length s" and "is_bracket (s ! j)"
  shows "j < i"
proof (rule ccontr)
  assume "\<not> j < i"
  have at: "prefix tag (drop i (s @ t))" "i + length tag \<le> length (s @ t)"
    using tag_index_Some [OF assms(3)] tag_index_end [OF assms(3)] by simp_all
  have long: "length s < i + length tag"
  proof (rule ccontr)
    assume short: "\<not> length s < i + length tag"
    then have "prefix tag (drop i s)"
      using at(1) by (auto simp: intro: prefix_length_prefix [of tag "drop i s @ drop (i - length s) t"])
    then show False using assms(2) short tag_index_None [of tag s] by auto
  qed
  obtain u where u: "drop i (s @ t) = tag @ u" using at(1) by (auto simp: prefix_def)
  have reach: "j - i < length tag" using long assms(4) \<open>\<not> j < i\<close> by linarith
  have "s ! j = drop i (s @ t) ! (j - i)"
    using assms(4) \<open>\<not> j < i\<close> at(2) by (subst nth_drop) (auto simp: nth_append)
  also have "\<dots> = tag ! (j - i)" using reach unfolding u by (simp add: nth_append)
  finally have "s ! j \<in> set tag" using reach by simp
  then show False using assms(1,5) by blast
qed

lemma round_goes_on:
  assumes good: "good_tags tags" and cap: "within_cap (sp_buffer p @ b)"
    and calm: "sp_state p = InsideThink \<Longrightarrow> settled tags (sp_buffer p @ b)"
    and step: "stream_step tags p = (ev, p', True)"
  shows "stream_step tags (extend p b) = (ev, extend p' b, True)"
proof -
  let ?B = "sp_buffer p"
  show ?thesis
  proof (cases "sp_state p")
    case Preamble
    define j where "j = findJsonToolStart ?B"
    have jb: "findJsonToolStart (?B @ b) = (case j of Some i \<Rightarrow> Some i | None \<Rightarrow> map_option ((+) (length ?B)) (findJsonToolStart b))"
      unfolding j_def findJsonToolStart_def by (rule findIndex_append)
    show ?thesis
    proof (cases "before_index (tag_index (tg_open tags) ?B) j")
      case True
      then obtain i where i: "tag_index (tg_open tags) ?B = Some i" by (auto simp: before_index_def split: option.splits)
      have "i < length ?B" using tag_index_end [OF i] good by (cases "tg_open tags") (auto simp: good_tags_def)
      then have "before_index (Some i) (findJsonToolStart (?B @ b))"
        using True i jb by (auto simp: before_index_def split: option.splits)
      then show ?thesis
        using step Preamble True i tag_index_append [OF i] tag_index_end [OF i]
        by (auto simp: stream_step_def Let_def j_def [symmetric])
    next
      case False
      then obtain k where k: "j = Some k" using step Preamble by (auto simp: stream_step_def Let_def j_def split: option.splits)
      have bracket: "k < length ?B" "is_bracket (?B ! k)" using findIndex_Some [of is_bracket ?B k] k by (simp_all add: j_def findJsonToolStart_def)
      have "\<not> before_index (tag_index (tg_open tags) (?B @ b)) (Some k)"
      proof (cases "tag_index (tg_open tags) ?B")
        case None
        then show ?thesis
          using tag_over_bracket [OF _ None _ bracket, of b] good by (auto simp: before_index_def good_tags_def split: option.splits)
      next
        case (Some i)
        then show ?thesis using False k tag_index_append [OF Some] by (simp add: before_index_def)
      qed
      then show ?thesis using step Preamble False k jb bracket by (auto simp: stream_step_def Let_def j_def [symmetric])
    qed
  next
    case InsideThink
    show ?thesis
    proof (cases "tag_index (tg_close tags) ?B")
      case (Some i)
      then show ?thesis
        using step InsideThink tag_index_append [OF Some] tag_index_end [OF Some] by (auto simp: stream_step_def Let_def)
    next
      case None
      then obtain i where i: "findToolCallStart ?B = Some (i, True)"
        using step InsideThink by (auto simp: stream_step_def Let_def split: option.splits bool.splits)
      have found: "i < length ?B" "is_bracket (?B ! i)" "classifyToolCallStart (drop i ?B) = Start" "\<forall>k < i. dead_at ?B k"
        using find_start_spec [of ?B] i by simp_all
      have shape: "start_shape (drop i ?B) = Start"
        using found(3) classify_within [OF within_cap_prefix [OF cap]] by simp
      have more: "start_shape (drop i ?B @ t) = Start" for t
        using start_shape_append [of "drop i ?B" t] shape found(1) by simp
      have "tag_index (tg_close tags) (?B @ b) = None"
      proof (rule ccontr)
        assume "tag_index (tg_close tags) (?B @ b) \<noteq> None"
        then obtain c where c: "tag_index (tg_close tags) (?B @ b) = Some c" by blast
        have "i < c" using tag_over_bracket [OF _ None c found(1,2)] good by (simp add: good_tags_def)
        have "length ?B \<le> c + length (tg_close tags)"
        proof (rule ccontr)
          assume short: "\<not> length ?B \<le> c + length (tg_close tags)"
          have "prefix (tg_close tags) (drop c ?B @ drop (c - length ?B) b)" using tag_index_Some [OF c] by simp
          then have "prefix (tg_close tags) (drop c ?B)" using short by (auto intro: prefix_length_prefix)
          then show False using None short tag_index_None [of "tg_close tags" ?B] by auto
        qed
        then have "drop i (take (c + length (tg_close tags)) (?B @ b)) = drop i ?B @ take (c + length (tg_close tags) - length ?B) b"
          using found(1) by simp
        then have "start_shape (drop i (take (c + length (tg_close tags)) (?B @ b))) = Start" by (simp only: more)
        then show False using calm [OF InsideThink] c \<open>i < c\<close> unfolding settled_def by blast
      qed
      moreover have "findToolCallStart (?B @ b) = Some (i, True)"
      proof -
        have "\<forall>k < i. dead_at (?B @ b) k" using dead_append [OF cap] found(1,4) by simp
        then have "findToolCallStart (?B @ b) = map_option (apfst ((+) i)) (findToolCallStart (drop i (?B @ b)))"
          using found(1) by (intro find_start_skip) simp
        moreover have "classifyToolCallStart (drop i (?B @ b)) = Start"
          using classify_within [OF cap, of i] more found(1) by simp
        then have "findToolCallStart (drop i (?B @ b)) = Some (0, True)"
          using found(1,2) Cons_nth_drop_Suc [of i "?B @ b"] by (auto simp: nth_append simp flip: Cons_nth_drop_Suc)
        ultimately show ?thesis by simp
      qed
      ultimately show ?thesis using step InsideThink None i found(1) by (auto simp: stream_step_def Let_def)
    qed
  next
    case JsonTool
    then obtain name rest where m: "first_match tool_here ?B = Some (name, rest)"
      using step by (auto simp: stream_step_def Let_def split: option.splits)
    have "first_match tool_here (?B @ b) = Some (name, rest @ b)" using first_match_append [OF tool_steady m] by simp
    then show ?thesis using step JsonTool m by (auto simp: stream_step_def Let_def)
  next
    case JsonText
    then obtain rest where m: "first_match (field_here ''text'') ?B = Some rest"
      using step by (auto simp: stream_step_def Let_def split: option.splits)
    have "first_match (field_here ''text'') (?B @ b) = Some (rest @ b)"
      using first_match_append [OF field_steady [OF plain_keys(2)] m] by simp
    then show ?thesis using step JsonText m by (auto simp: stream_step_def Let_def)
  next
    case ReplyText
    then show ?thesis
      using step read_append [of ?B b "sp_carry p"] by (auto simp: stream_step_def Let_def extend_def split: if_splits)
  qed (use step in \<open>simp add: stream_step_def Let_def\<close>)
qed

end
