(* ===== verification/Stream_Runs.thy ===== *)
theory Stream_Runs
  imports Stream_Chunks
begin

text \<open>
  What a whole stream shows. Two runs are compared by what the screen gets: the events with every delta
  split into its units, so that how a text was cut into deltas does not count.
\<close>

section \<open>What is shown\<close>

fun single_units :: "stream_event \<Rightarrow> stream_event list" where
  "single_units (ReasoningDelta cs) = map (\<lambda>c. ReasoningDelta [c]) cs"
| "single_units (ReplyTextDelta cs) = map (\<lambda>c. ReplyTextDelta [c]) cs"
| "single_units ev = [ev]"

definition shown :: "stream_event list \<Rightarrow> stream_event list" where
  "shown evs = concat (map single_units evs)"

lemma shown_simps [simp]:
  "shown [] = []" "shown (ev # evs) = single_units ev @ shown evs" "shown (xs @ ys) = shown xs @ shown ys"
  by (simp_all add: shown_def)

lemma shown_delta [simp]:
  "shown (delta ReasoningDelta cs) = map (\<lambda>c. ReasoningDelta [c]) cs"
  "shown (delta ReplyTextDelta cs) = map (\<lambda>c. ReplyTextDelta [c]) cs"
  by (simp_all add: delta_def)

section \<open>A round that stops\<close>

lemma find_start_rest:
  assumes "within_cap (s @ t)" and "c \<le> length s" and "\<forall>k < c. dead_at s k"
  shows "findToolCallStart (s @ t) = map_option (apfst ((+) c)) (findToolCallStart (drop c s @ t))"
proof -
  have "\<forall>k < c. dead_at (s @ t) k" using dead_append [OF assms(1)] assms(2,3) by simp
  then show ?thesis using find_start_skip [of c "s @ t"] assms(2) by simp
qed

lemma drop_rest: "c \<le> length s \<Longrightarrow> drop (c + m) (s @ t) = drop m (drop c s @ t)"
proof -
  assume "c \<le> length s"
  then have "drop c (s @ t) = drop c s @ t" by simp
  then show ?thesis by (metis add.commute drop_drop)
qed

lemma tag_index_rest:
  assumes "c \<le> length s" and "\<forall>j < c. \<not> prefix p (drop j (s @ t))"
  shows "tag_index p (s @ t) = map_option ((+) c) (tag_index p (drop c s @ t))"
  using tag_index_skip [of c "s @ t" p] assms by simp

text \<open>What the two parsers do next: the same, up to what the first has already shown.\<close>

definition same_round :: "stream_tags \<Rightarrow> stream_event list \<Rightarrow> stream_parser \<Rightarrow> stream_parser \<Rightarrow> bool" where
  "same_round tags ev p p' \<longleftrightarrow>
     snd (stream_step tags p) = snd (stream_step tags p') \<and>
     shown (fst (stream_step tags p)) = shown ev @ shown (fst (stream_step tags p'))"

lemma same_round_refl: "same_round tags [] p p"
  by (cases "stream_step tags p") (simp add: same_round_def)

lemma preamble_stops:
  assumes good: "good_tags tags" and p: "sp_state p = Preamble" and step: "stream_step tags p = (ev, p', False)"
  shows "same_round tags ev (extend p b) (extend p' b)"
proof -
  let ?B = "sp_buffer p" and ?tag = "tg_open tags"
  have json: "findJsonToolStart ?B = None" and tag: "tag_index ?tag ?B = None"
    and p': "ev = []" "p' = p\<lparr>sp_buffer := holdPossibleTagStart ?B ?tag\<rparr>"
    using step p by (auto simp: stream_step_def Let_def before_index_def split: option.splits if_splits)
  define c where "c = length ?B - overlap ?tag ?B"
  define R where "R = drop c ?B @ b"
  have c: "c \<le> length ?B" by (simp add: c_def)
  have buf: "sp_buffer (extend p' b) = R" using hold_drop [OF tag] by (simp add: p' R_def c_def)
  have idx: "tag_index ?tag (?B @ b) = map_option ((+) c) (tag_index ?tag R)"
    unfolding R_def
  proof (rule tag_index_rest [OF c])
    show "\<forall>j < c. \<not> prefix ?tag (drop j (?B @ b))"
      using no_tag_before [OF _ tag, of _ b] good by (auto simp: c_def good_tags_def)
  qed
  have json': "findJsonToolStart (?B @ b) = map_option ((+) c) (findJsonToolStart R)"
  proof -
    have "findIndex is_bracket (drop c ?B) = None"
      using json in_set_dropD [of _ c ?B] by (auto simp: findJsonToolStart_def findIndex_None)
    then show ?thesis
      using json c by (cases "findIndex is_bracket b") (simp_all add: findJsonToolStart_def R_def findIndex_append)
  qed
  have order: "before_index (map_option ((+) c) i) (map_option ((+) c) j) = before_index i j" for i j
    by (simp add: before_index_def split: option.splits)
  have hold: "holdPossibleTagStart (?B @ b) ?tag = holdPossibleTagStart R ?tag" if "tag_index ?tag R = None"
  proof -
    have "overlap ?tag R = overlap ?tag (?B @ b)" unfolding R_def by (rule overlap_skip) (simp add: c_def)
    moreover have "overlap ?tag R \<le> length R" by (rule overlap_spec(2))
    moreover have "drop (length (?B @ b) - k) (?B @ b) = drop (length R - k) R" if "k \<le> length R" for k
    proof -
      have "length (?B @ b) - k = c + (length R - k)" using that c by (simp add: R_def)
      moreover have "drop (c + m) (?B @ b) = drop m R" for m unfolding R_def by (rule drop_rest [OF c])
      ultimately show ?thesis by simp
    qed
    ultimately show ?thesis using hold_drop [of ?tag R] hold_drop [of ?tag "?B @ b"] idx that by simp
  qed
  have shift: "drop (c + m) (?B @ b) = drop m R" for m unfolding R_def by (rule drop_rest [OF c])
  show ?thesis
  proof (cases "before_index (tag_index ?tag R) (findJsonToolStart R)")
    case True
    then obtain i where i: "tag_index ?tag R = Some i" by (auto simp: before_index_def split: option.splits)
    have "stream_step tags (extend p b) = ([ReasoningOpen], p\<lparr>sp_buffer := drop (i + length ?tag) R, sp_state := InsideThink\<rparr>, True)"
      using True i order [of "Some i" "findJsonToolStart R"] idx json' shift [of "i + length ?tag"] p
      by (simp add: stream_step_def Let_def add.assoc)
    moreover have "stream_step tags (extend p' b) = ([ReasoningOpen], p\<lparr>sp_buffer := drop (i + length ?tag) R, sp_state := InsideThink\<rparr>, True)"
      using True i buf p p' by (simp add: stream_step_def Let_def)
    ultimately show ?thesis by (simp add: same_round_def p')
  next
    case False
    show ?thesis
    proof (cases "findJsonToolStart R")
      case None
      then have none: "tag_index ?tag R = None" using False by (auto simp: before_index_def split: option.splits)
      show ?thesis
        using p p' buf None none idx json' hold [OF none]
        by (simp add: same_round_def stream_step_def Let_def before_index_def)
    next
      case (Some j)
      then show ?thesis
        using p p' buf False order [of "tag_index ?tag R" "Some j"] idx json' shift [of j]
        by (simp add: same_round_def stream_step_def Let_def)
    qed
  qed
qed

lemma think_stops:
  assumes good: "good_tags tags" and p: "sp_state p = InsideThink" and cap: "within_cap (sp_buffer p @ b)"
    and step: "stream_step tags p = (ev, p', False)"
  shows "same_round tags ev (extend p b) (extend p' b) \<and> sp_state p' = InsideThink \<and>
    (settled tags (sp_buffer p @ b) \<longrightarrow> settled tags (sp_buffer p' @ b))"
proof -
  let ?B = "sp_buffer p" and ?tag = "tg_close tags"
  have tag: "tag_index ?tag ?B = None" using step p by (auto simp: stream_step_def Let_def split: option.splits)
  define h where "h = (case findToolCallStart ?B of None \<Rightarrow> length ?B | Some (i, _) \<Rightarrow> i)"
  define c where "c = min h (length ?B - overlap ?tag ?B)"
  define R where "R = drop c ?B @ b"
  have open_start: "findToolCallStart ?B \<noteq> Some (i, True)" for i
    using step p tag by (auto simp: stream_step_def Let_def)
  have p': "ev = delta ReasoningDelta (take c ?B)" "p' = p\<lparr>sp_buffer := drop c ?B\<rparr>"
    using step p tag open_start
    by (auto simp: stream_step_def Let_def c_def h_def safe_index split: option.splits bool.splits)
  have c: "c \<le> length ?B" by (simp add: c_def)
  have dead: "\<forall>k < c. dead_at ?B k"
    using find_start_spec [of ?B] by (auto simp: c_def h_def split: option.splits)
  have free: "\<forall>j < c. \<not> prefix ?tag (drop j (?B @ b))"
    using no_tag_before [OF _ tag, of _ b] good by (auto simp: c_def good_tags_def)
  have idx: "tag_index ?tag (?B @ b) = map_option ((+) c) (tag_index ?tag R)"
    unfolding R_def by (rule tag_index_rest [OF c free])
  have find_c: "findToolCallStart (?B @ b) = map_option (apfst ((+) c)) (findToolCallStart R)"
    unfolding R_def by (rule find_start_rest [OF cap c dead])
  have ov: "overlap ?tag R = overlap ?tag (?B @ b)" unfolding R_def by (rule overlap_skip) (simp add: c_def)
  have ov_le: "overlap ?tag R \<le> length R" by (rule overlap_spec(2))
  have len: "length (?B @ b) = c + length R" using c by (simp add: R_def)
  have shift: "drop (c + m) (?B @ b) = drop m R" "take (c + m) (?B @ b) = take c ?B @ take m R" for m
    using drop_rest [OF c, of m b] c by (simp_all add: R_def take_add add.commute)
  have buf: "sp_buffer (extend p' b) = R" "sp_state (extend p' b) = InsideThink" "extend p' b = p\<lparr>sp_buffer := R\<rparr>"
    using p by (simp_all add: p' R_def)
  have "same_round tags ev (extend p b) (extend p' b)"
  proof (cases "tag_index ?tag R")
    case (Some i)
    then show ?thesis
      using p idx shift(1) [of "i + length ?tag"] shift(2) [of i]
      by (simp add: same_round_def stream_step_def Let_def buf(3) p'(1) add.assoc)
  next
    case None
    show ?thesis
    proof (cases "\<exists>i. findToolCallStart R = Some (i, True)")
      case True
      then obtain i where "findToolCallStart R = Some (i, True)" by blast
      then show ?thesis
        using p idx None find_c shift(1) [of i] shift(2) [of i]
        by (simp add: same_round_def stream_step_def Let_def buf(3) p'(1))
    next
      case False
      define hR where "hR = (case findToolCallStart R of None \<Rightarrow> length R | Some (i, _) \<Rightarrow> i)"
      define m where "m = min hR (length R - overlap ?tag R)"
      have hB: "(case findToolCallStart (?B @ b) of None \<Rightarrow> length (?B @ b) | Some (i, _) \<Rightarrow> i) = c + hR"
        using find_c len by (auto simp: hR_def split: option.splits)
      have safe: "findSafeReasoningEmitIndex tags (?B @ b) = c + (length R - overlap ?tag R)"
        using ov ov_le len by (simp add: safe_index)
      have no_start: "findToolCallStart (?B @ b) \<noteq> Some (i, True)" for i
        using find_c False by (cases "findToolCallStart R") (auto simp: apfst_def map_prod_def split: prod.splits)
      have A: "stream_step tags (extend p b) = (delta ReasoningDelta (take (c + m) (?B @ b)), p\<lparr>sp_buffer := drop (c + m) (?B @ b)\<rparr>, False)"
        using p idx None no_start hB safe
        by (auto simp: stream_step_def Let_def m_def min_add_distrib_right split: option.splits bool.splits)
      have B: "stream_step tags (extend p' b) = (delta ReasoningDelta (take m R), p\<lparr>sp_buffer := drop m R\<rparr>, False)"
        using p None False by (auto simp: stream_step_def Let_def buf(3) m_def hR_def safe_index split: option.splits bool.splits)
      show ?thesis unfolding same_round_def A [unfolded shift] B p'(1) by simp
    qed
  qed
  moreover have "settled tags R" if "settled tags (?B @ b)"
    unfolding settled_def
  proof (intro allI impI)
    fix i k assume i: "tag_index ?tag R = Some i" and "k < i"
    have "drop k (take (i + length ?tag) R) = drop (c + k) (take (c + i + length ?tag) (?B @ b))"
      by (simp only: drop_take add.assoc shift(1) add_diff_cancel_left)
    then show "start_shape (drop k (take (i + length ?tag) R)) \<noteq> Start"
      using that i idx \<open>k < i\<close> unfolding settled_def by simp
  qed
  ultimately show ?thesis using p by (simp add: p' R_def)
qed

lemma round_stops:
  assumes "good_tags tags" and "within_cap (sp_buffer p @ b)" and step: "stream_step tags p = (ev, p', False)"
  shows "same_round tags ev (extend p b) (extend p' b)"
proof (cases "sp_state p")
  case ReplyText
  define r where "r = readReplyTextChars (sp_buffer p) (sp_carry p)"
  have r: "\<not> rd_closed r" "rd_rest r = []"
    using step ReplyText read_open_rest [of "sp_buffer p" "sp_carry p"]
    by (auto simp: stream_step_def Let_def r_def split: if_splits)
  have p': "ev = delta ReplyTextDelta (rd_chars r)" "p' = p\<lparr>sp_carry := rd_carry r, sp_buffer := []\<rparr>"
    using step ReplyText r by (auto simp: stream_step_def Let_def r_def split: if_splits)
  have "readReplyTextChars (sp_buffer p @ b) (sp_carry p) = add_chars (rd_chars r) (readReplyTextChars b (rd_carry r))"
    using read_append [of "sp_buffer p" b "sp_carry p"] r by (simp add: r_def Let_def)
  then show ?thesis using ReplyText p' by (auto simp: same_round_def stream_step_def Let_def)
next
  case Preamble
  then show ?thesis using preamble_stops assms(1) step by blast
next
  case InsideThink
  then show ?thesis using think_stops assms by blast
next
  case JsonTool
  then have "ev = []" "p' = p" using step by (auto simp: stream_step_def Let_def split: option.splits)
  then show ?thesis by (simp add: same_round_refl)
next
  case JsonText
  then have "ev = []" "p' = p" using step by (auto simp: stream_step_def Let_def split: option.splits)
  then show ?thesis by (simp add: same_round_refl)
next
  case StreamDone
  then show ?thesis using step by (auto simp: same_round_def stream_step_def Let_def)
qed

section \<open>Chunks\<close>

lemma settled_after_stop:
  assumes "good_tags tags" and "within_cap (sp_buffer p @ b)" and "stream_step tags p = (ev, p', False)"
    and "sp_state p' = InsideThink" and "sp_state p = InsideThink \<Longrightarrow> settled tags (sp_buffer p @ b)"
  shows "settled tags (sp_buffer p' @ b)"
proof (cases "sp_state p = InsideThink")
  case True
  then show ?thesis using think_stops assms by blast
next
  case False
  then show ?thesis
    using assms(3,4) by (auto simp: stream_step_def Let_def split: parser_state.splits option.splits if_splits)
qed

text \<open>A push followed by the rest of the text is a push of both.\<close>

lemma advance_resumes:
  assumes good: "good_tags tags"
  shows "within_cap (sp_buffer p @ b) \<Longrightarrow> calm tags (extend p b) \<Longrightarrow>
    \<exists>ev p' evA evB q. stream_advance tags p = Some (ev, p') \<and> stream_advance tags (extend p b) = Some (evA, q) \<and>
      stream_advance tags (extend p' b) = Some (evB, q) \<and> shown evA = shown ev @ shown evB \<and>
      calm tags (extend p' b) \<and> within_cap (sp_buffer p' @ b)"
    (is "_ \<Longrightarrow> _ \<Longrightarrow> ?resumes p")
proof (induction p rule: round_induct [OF good])
  case (1 p)
  obtain ev p' go_on where step: "stream_step tags p = (ev, p', go_on)" by (cases "stream_step tags p") auto
  have settled: "sp_state p = InsideThink \<Longrightarrow> settled tags (sp_buffer p @ b)"
    and next_calm: "\<And>ev q. stream_step tags (extend p b) = (ev, q, True) \<Longrightarrow> calm tags q"
    using calmE [OF 1(3)] by auto
  obtain k where k: "k \<le> length (sp_buffer p)" "sp_buffer p' = drop k (sp_buffer p)" using step_suffix [OF step] by blast
  have cap: "within_cap (sp_buffer p' @ b)" using within_cap_drop [OF 1(2), of k] k by simp
  show ?case
  proof (cases go_on)
    case True
    then have go: "stream_step tags p = (ev, p', True)" using step by simp
    have go': "stream_step tags (extend p b) = (ev, extend p' b, True)"
      by (rule round_goes_on [OF good 1(2) settled go])
    from 1(1) [OF go cap next_calm [OF go']] obtain evs p2 evA evB q where ih:
      "stream_advance tags p' = Some (evs, p2)" "stream_advance tags (extend p' b) = Some (evA, q)"
      "stream_advance tags (extend p2 b) = Some (evB, q)" "shown evA = shown evs @ shown evB"
      "calm tags (extend p2 b)" "within_cap (sp_buffer p2 @ b)" by blast
    show ?thesis
      using advance_go [OF go ih(1)] advance_go [OF go' ih(2)] ih(3-6) by (intro exI conjI) (assumption | simp)+
  next
    case False
    then have stop: "stream_step tags p = (ev, p', False)" using step by simp
    obtain evA q g where A: "stream_step tags (extend p b) = (evA, q, g)" by (cases "stream_step tags (extend p b)") auto
    obtain evB q' g' where B: "stream_step tags (extend p' b) = (evB, q', g')" by (cases "stream_step tags (extend p' b)") auto
    have same: "q' = q" "g' = g" "shown evA = shown ev @ shown evB"
      using round_stops [OF good 1(2) stop] A B by (simp_all add: same_round_def)
    have calm': "calm tags (extend p' b)"
    proof (rule calmI)
      show "settled tags (sp_buffer (extend p' b))" if "sp_state (extend p' b) = InsideThink"
        using settled_after_stop [OF good 1(2) stop _ settled] that by simp
      show "calm tags r" if "stream_step tags (extend p' b) = (e, r, True)" for e r
        using that A B same next_calm by simp
    qed
    show ?thesis
    proof (cases g)
      case True
      obtain evs r where r: "stream_advance tags q = Some (evs, r)" using advance_total [OF good] by blast
      have "stream_step tags (extend p b) = (evA, q, True)" "stream_step tags (extend p' b) = (evB, q, True)"
        using A B same True by simp_all
      then have "stream_advance tags (extend p b) = Some (evA @ evs, r)" "stream_advance tags (extend p' b) = Some (evB @ evs, r)"
        using advance_go r by blast+
      then show ?thesis using advance_stop [OF stop] same(3) calm' cap by (intro exI conjI) (assumption | simp)+
    next
      case False
      have "stream_advance tags (extend p b) = Some (evA, q)" "stream_advance tags (extend p' b) = Some (evB, q)"
        using A B same False by (simp_all add: advance_stop)
      then show ?thesis using advance_stop [OF stop] same(3) calm' cap by (intro exI conjI) (assumption | simp)+
    qed
  qed
qed

lemma end_total: "good_tags tags \<Longrightarrow> \<exists>evs q. stream_end tags p = Some (evs, q)"
proof -
  assume good: "good_tags tags"
  obtain ev p1 where "stream_advance tags p = Some (ev, p1)" using advance_total [OF good] by blast
  moreover have "\<exists>ev2 p2. flush_think tags p1 = Some (ev2, p2)"
  proof (cases "\<exists>i. findToolCallStart (sp_buffer p1) = Some (i, True)")
    case True
    then obtain i where i: "findToolCallStart (sp_buffer p1) = Some (i, True)" by blast
    obtain evs q where "stream_advance tags (p1\<lparr>sp_buffer := drop i (sp_buffer p1), sp_state := JsonTool\<rparr>) = Some (evs, q)"
      using advance_total [OF good] by blast
    then show ?thesis using i by (simp add: flush_think_def)
  next
    case False
    then show ?thesis by (auto simp: flush_think_def split: option.splits bool.splits)
  qed
  ultimately show ?thesis by (auto simp: stream_end_def split: prod.splits)
qed

lemma run_chunks:
  assumes good: "good_tags tags"
  shows "within_cap (sp_buffer p @ concat chunks) \<Longrightarrow> calm tags (extend p (concat chunks)) \<Longrightarrow>
    \<exists>evs q evs'. stream_run tags chunks p = Some (evs, q) \<and> stream_end tags (extend p (concat chunks)) = Some (evs', q) \<and>
      shown evs = shown evs'"
proof (induction chunks arbitrary: p)
  case Nil
  then show ?case using end_total [OF good, of p] by fastforce
next
  case (Cons chunk chunks)
  have assoc: "extend (extend p chunk) (concat chunks) = extend p (concat (chunk # chunks))" by simp
  show ?case
  proof (cases "chunk = []")
    case True
    have "within_cap (sp_buffer p @ concat chunks)" "calm tags (extend p (concat chunks))" using Cons(2,3) True by simp_all
    from Cons(1) [OF this] obtain evs q evs' where "stream_run tags chunks p = Some (evs, q)"
      "stream_end tags (extend p (concat chunks)) = Some (evs', q)" "shown evs = shown evs'"
      by blast
    then show ?thesis using True by (simp add: stream_push_def)
  next
    case False
    have "within_cap (sp_buffer (extend p chunk) @ concat chunks)" "calm tags (extend (extend p chunk) (concat chunks))"
      using Cons(2,3) by simp_all
    from advance_resumes [OF good this] obtain ev p' evA evB q where r:
      "stream_advance tags (extend p chunk) = Some (ev, p')"
      "stream_advance tags (extend p (concat (chunk # chunks))) = Some (evA, q)"
      "stream_advance tags (extend p' (concat chunks)) = Some (evB, q)" "shown evA = shown ev @ shown evB"
      "calm tags (extend p' (concat chunks))" "within_cap (sp_buffer p' @ concat chunks)"
      unfolding assoc by blast
    obtain evs q' evs' where ih: "stream_run tags chunks p' = Some (evs, q')"
      "stream_end tags (extend p' (concat chunks)) = Some (evs', q')" "shown evs = shown evs'"
      using Cons(1) [OF r(6,5)] by blast
    obtain e2 p2 where flush: "flush_think tags q = Some (e2, p2)" "q' = snd (flush_reply p2)" "evs' = evB @ e2 @ fst (flush_reply p2)"
      using ih(2) r(3) by (auto simp: stream_end_def split: option.splits prod.splits)
    have "stream_end tags (extend p (concat (chunk # chunks))) = Some (evA @ e2 @ fst (flush_reply p2), q')"
      using r(2) flush by (simp add: stream_end_def split: prod.splits)
    moreover have "stream_run tags (chunk # chunks) p = Some (ev @ evs, q')"
      using False r(1) ih(1) by (simp add: stream_push_def)
    ultimately show ?thesis using r(4) ih(3) flush(3) by auto
  qed
qed

end
