(* ===== verification/Stream_Properties.thy ===== *)
theory Stream_Properties
  imports Stream_Runs
begin

text \<open>What a reader of a streamed completion sees: whatever the chunks, in the right order, and the reply itself.\<close>

lemma default_tags_good: "good_tags DEFAULT_TAGS"
  by (simp add: good_tags_def DEFAULT_TAGS_def units_def is_bracket_def)

section \<open>A stream that replies\<close>

text \<open>The text of a JSON string, piece by piece: how it is written and what it stands for.\<close>

datatype piece = Raw nat | Short nat | Hex units

fun piece_ok :: "piece \<Rightarrow> bool" where
  "piece_ok (Raw c) = (c \<noteq> QUOTE \<and> c \<noteq> BACKSLASH)"
| "piece_ok (Short c) = (c \<noteq> 117)"
| "piece_ok (Hex hs) = (length hs = 4 \<and> (\<forall>h \<in> set hs. hex_value h \<noteq> None))"

fun piece_code :: "piece \<Rightarrow> units" where
  "piece_code (Raw c) = [c]"
| "piece_code (Short c) = [BACKSLASH, c]"
| "piece_code (Hex hs) = BACKSLASH # 117 # hs"

fun piece_text :: "piece \<Rightarrow> units" where
  "piece_text (Raw c) = [c]"
| "piece_text (Short c) = [decodeSimpleEscape c]"
| "piece_text (Hex hs) = [parse_hex hs]"

lemma add_chars_twice [simp]: "add_chars xs (add_chars ys r) = add_chars (xs @ ys) r" "add_chars [] r = r"
  by (simp_all add: add_chars_def)

lemma read_piece: "piece_ok p \<Longrightarrow> readReplyTextChars (piece_code p @ s) no_carry = add_chars (piece_text p) (readReplyTextChars s no_carry)"
proof (cases p)
  case (Hex hs)
  assume ok: "piece_ok p"
  then obtain a b c d where "hs = [a, b, c, d]"
    using Hex by (auto simp: length_Suc_conv numeral_eq_Suc)
  then show ?thesis using Hex ok by (simp add: no_carry_def BACKSLASH_def)
qed (simp_all add: no_carry_def BACKSLASH_def QUOTE_def)

lemma read_pieces:
  "list_all piece_ok ps \<Longrightarrow> readReplyTextChars (concat (map piece_code ps) @ QUOTE # tail) no_carry =
     \<lparr>rd_chars = concat (map piece_text ps), rd_rest = tail, rd_closed = True, rd_carry = no_carry\<rparr>"
  by (induction ps) (simp_all add: read_piece, simp_all add: no_carry_def add_chars_def QUOTE_def BACKSLASH_def)

definition reply_head :: units where
  "reply_head = units ''{\"tool\":\"reply\",\"args\":{\"text\":\"''"

abbreviation at_state :: "parser_state \<Rightarrow> units \<Rightarrow> stream_parser" where
  "at_state st b \<equiv> \<lparr>sp_state = st, sp_buffer = b, sp_carry = no_carry\<rparr>"

lemma head_units:
  "reply_head =
     [123, 34, 116, 111, 111, 108, 34, 58, 34, 114, 101, 112, 108, 121, 34, 44, 34, 97, 114, 103, 115, 34, 58, 123, 34, 116, 101,
      120, 116, 34, 58, 34]"
  by (simp add: reply_head_def units_def)

lemmas field_scans = tool_here_def field_here_def units_def QUOTE_def BACKSLASH_def regex_space_def

lemma head_tool: "stream_step tags (at_state JsonTool (reply_head @ s)) = ([], at_state JsonText (drop 15 reply_head @ s), True)"
  by (simp add: stream_step_def head_units field_scans)

lemma head_text: "stream_step tags (at_state JsonText (drop 15 reply_head @ s)) = ([ReplyTextOpen], at_state ReplyText s, True)"
  by (simp add: stream_step_def head_units field_scans)

lemma reply_ends:
  "list_all piece_ok ps \<Longrightarrow>
     stream_step tags (at_state ReplyText (concat (map piece_code ps) @ QUOTE # tail)) =
       (delta ReplyTextDelta (concat (map piece_text ps)) @ [ReplyTextClose], at_state StreamDone tail, True)"
  by (simp add: stream_step_def read_pieces)

lemma done_stops: "stream_step tags (at_state StreamDone s) = ([], at_state StreamDone [], False)"
  by (simp add: stream_step_def)

lemma think_opens:
  assumes "good_tags tags" and "\<forall>c \<in> set pre. \<not> is_bracket c" and "tag_index (tg_open tags) (pre @ tg_open tags) = Some (length pre)"
  shows "stream_step tags (at_state Preamble (pre @ tg_open tags @ s)) = ([ReasoningOpen], at_state InsideThink s, True)"
proof -
  have idx: "tag_index (tg_open tags) (pre @ tg_open tags @ s) = Some (length pre)" using tag_index_append [OF assms(3), of s] by simp
  have "findIndex is_bracket (pre @ tg_open tags) = None" using assms(1,2) by (auto simp: findIndex_None good_tags_def)
  then have json: "findJsonToolStart (pre @ tg_open tags @ s) = map_option ((+) (length (pre @ tg_open tags))) (findJsonToolStart s)"
    using findIndex_append [of is_bracket "pre @ tg_open tags" s] by (simp add: findJsonToolStart_def)
  have "0 < length (tg_open tags)" using assms(1) by (simp add: good_tags_def)
  then have "before_index (Some (length pre)) (findJsonToolStart (pre @ tg_open tags @ s))"
    unfolding json by (simp add: before_index_def split: option.splits)
  then show ?thesis using idx by (simp add: stream_step_def)
qed

lemma think_closes:
  assumes "tag_index (tg_close tags) (R @ tg_close tags) = Some (length R)"
  shows "stream_step tags (at_state InsideThink (R @ tg_close tags @ s)) = (delta ReasoningDelta R @ [ReasoningClose], at_state Preamble s, True)"
  using tag_index_append [OF assms, of s] by (simp add: stream_step_def)

lemma settled_more:
  assumes "settled tags (R @ tg_close tags)" and "tag_index (tg_close tags) (R @ tg_close tags) = Some (length R)"
  shows "settled tags (R @ tg_close tags @ s)"
proof -
  have "tag_index (tg_close tags) (R @ tg_close tags @ s) = Some (length R)" using tag_index_append [OF assms(2), of s] by simp
  moreover have "take (length R + length (tg_close tags)) (R @ tg_close tags @ s) = take (length R + length (tg_close tags)) (R @ tg_close tags)"
    by simp
  ultimately show ?thesis using assms by (auto simp: settled_def)
qed

lemma no_tag_at_brace:
  assumes good: "good_tags tags" and none: "tag_index (tg_open tags) mid = None"
  shows "tag_index (tg_open tags) (mid @ [123]) = None"
proof (rule ccontr)
  let ?tag = "tg_open tags"
  assume "tag_index ?tag (mid @ [123]) \<noteq> None"
  then obtain i where i: "tag_index ?tag (mid @ [123]) = Some i" by blast
  have ne: "?tag \<noteq> []" "123 \<notin> set ?tag" using good by (auto simp: good_tags_def is_bracket_def)
  have at: "prefix ?tag (drop i (mid @ [123]))" "i + length ?tag \<le> length mid + 1"
    using tag_index_Some [OF i] tag_index_end [OF i] by simp_all
  then have i_le: "i \<le> length mid" using ne(1) by (cases ?tag) auto
  show False
  proof (cases "?tag = drop i mid @ [123]")
    case True
    then have "123 \<in> set ?tag" by (metis in_set_conv_decomp)
    then show False using ne(2) by simp
  next
    case False
    then have "prefix ?tag (drop i mid)" using at(1) i_le by simp
    then show False using none i_le tag_index_None [of ?tag mid] by blast
  qed
qed

lemma call_begins:
  assumes good: "good_tags tags" and "\<forall>c \<in> set mid. \<not> is_bracket c" and none: "tag_index (tg_open tags) mid = None"
  shows "stream_step tags (at_state Preamble (mid @ reply_head @ s)) = ([], at_state JsonTool (reply_head @ s), True)"
proof -
  obtain h where h: "reply_head @ s = 123 # h" by (simp add: head_units)
  have json: "findJsonToolStart (mid @ 123 # h) = Some (length mid)"
  proof -
    have "findIndex is_bracket mid = None" using assms(2) by (auto simp: findIndex_None)
    then show ?thesis by (simp add: findJsonToolStart_def findIndex_append is_bracket_def)
  qed
  have "\<not> before_index (tag_index (tg_open tags) (mid @ 123 # h)) (Some (length mid))"
    using tag_over_bracket [OF _ no_tag_at_brace [OF good none], of h _ "length mid"] good
    by (fastforce simp: before_index_def good_tags_def is_bracket_def split: option.splits)
  then show ?thesis using json h by (simp add: stream_step_def)
qed

lemma calm_go: "stream_step tags p = (ev, p', True) \<Longrightarrow> (sp_state p = InsideThink \<Longrightarrow> settled tags (sp_buffer p)) \<Longrightarrow> calm tags p' \<Longrightarrow> calm tags p"
  by (rule calmI) simp_all

lemma calm_done: "calm tags (at_state StreamDone s)"
  by (rule calmI) (simp_all add: done_stops)

lemma calm_reply:
  assumes "good_tags tags" and "\<forall>c \<in> set pre. \<not> is_bracket c" and "tag_index (tg_open tags) (pre @ tg_open tags) = Some (length pre)"
    and "tag_index (tg_close tags) (R @ tg_close tags) = Some (length R)" and "settled tags (R @ tg_close tags)"
    and "\<forall>c \<in> set mid. \<not> is_bracket c" and "tag_index (tg_open tags) mid = None" and "list_all piece_ok ps"
  shows "calm tags (at_state Preamble
    (pre @ tg_open tags @ R @ tg_close tags @ mid @ reply_head @ concat (map piece_code ps) @ QUOTE # tail))"
proof -
  let ?body = "concat (map piece_code ps) @ QUOTE # tail"
  have "calm tags (at_state JsonTool (reply_head @ ?body))"
    by (rule calm_go [OF head_tool], simp, rule calm_go [OF head_text], simp, rule calm_go [OF reply_ends [OF assms(8)]], simp,
        rule calm_done)
  then have "calm tags (at_state Preamble (mid @ reply_head @ ?body))"
    by (rule calm_go [OF call_begins [OF assms(1,6,7)], rotated]) simp
  then have "calm tags (at_state InsideThink (R @ tg_close tags @ mid @ reply_head @ ?body))"
    by (rule calm_go [OF think_closes [OF assms(4)], rotated]) (simp add: settled_more assms(4,5))
  then show ?thesis by (rule calm_go [OF think_opens [OF assms(1-3)], rotated]) simp
qed

text \<open>A short text is within the cap whatever it holds.\<close>

lemma short_within_cap: "length s \<le> TOOL_START_PROBE_CAP \<Longrightarrow> within_cap s"
  by (auto simp: within_cap_def)

text \<open>An example: \<open>why\<close> is the reasoning, and the text is written with a short and a four-digit escape.\<close>

definition small_text :: "piece list" where
  "small_text = [Raw 97, Short 110, Hex (units ''00e9'')]"

definition small_reply :: units where
  "small_reply = [] @ tg_open DEFAULT_TAGS @ units ''why'' @ tg_close DEFAULT_TAGS @ [] @ reply_head @
     concat (map piece_code small_text) @ QUOTE # units ''}}''"

lemma small_facts:
  "tag_index (tg_open DEFAULT_TAGS) ([] @ tg_open DEFAULT_TAGS) = Some (length ([] :: units))"
  "tag_index (tg_close DEFAULT_TAGS) (units ''why'' @ tg_close DEFAULT_TAGS) = Some (length (units ''why''))"
  "settled DEFAULT_TAGS (units ''why'' @ tg_close DEFAULT_TAGS)"
  "tag_index (tg_open DEFAULT_TAGS) [] = None"
  "list_all piece_ok small_text"
  "within_cap small_reply"
proof -
  show close: "tag_index (tg_close DEFAULT_TAGS) (units ''why'' @ tg_close DEFAULT_TAGS) = Some (length (units ''why''))"
    by code_simp
  have "start_shape (drop k (units ''why'' @ tg_close DEFAULT_TAGS)) \<noteq> Start" if "k < 3" for k
    using that by (auto simp: less_Suc_eq numeral_eq_Suc DEFAULT_TAGS_def units_def start_shape_def brace_shape_def)
  then show "settled DEFAULT_TAGS (units ''why'' @ tg_close DEFAULT_TAGS)"
    using close by (simp add: settled_def units_def)
  show "within_cap small_reply" by (rule short_within_cap) code_simp
qed code_simp+

lemma small_calm: "calm DEFAULT_TAGS (at_state Preamble small_reply)"
  unfolding small_reply_def by (rule calm_reply [OF default_tags_good _ small_facts(1-3) _ small_facts(4,5)]) simp_all

section \<open>Chunks\<close>

text \<open>C30: How the network cuts a completion into chunks does not change what is shown. For tags without brackets,
  a text whose reasoning blocks hold no complete start of a tool call before their closing tag and in
  which no candidate for one stays undecided beyond the probe cap, the parser fed any list of chunks
  ends in the same state as the parser fed the whole text at once and shows the same reasoning, the
  same reply and the same opening and closing of both.\<close>

theorem chunks_do_not_matter:
  assumes "good_tags tags" and "within_cap (concat chunks)"
    and "calm tags (extend (createStreamParser preOpened) (concat chunks))"
  shows "\<exists>evs evs' q. stream_run tags chunks (createStreamParser preOpened) = Some (evs, q) \<and>
    stream_run tags [concat chunks] (createStreamParser preOpened) = Some (evs', q) \<and> shown evs = shown evs'"
proof -
  let ?p = "createStreamParser preOpened"
  have cap: "within_cap (sp_buffer ?p @ concat cs)" if "concat cs = concat chunks" for cs
    using assms(2) that by (simp add: createStreamParser_def)
  show ?thesis
    using run_chunks [OF assms(1) cap, of chunks] run_chunks [OF assms(1) cap, of "[concat chunks]"] assms(3) by fastforce
qed


theorem chunks_do_not_matter_witness:
  "\<exists>evs evs' q. stream_run DEFAULT_TAGS [take 9 small_reply, drop 9 small_reply] (createStreamParser False) = Some (evs, q) \<and>
    stream_run DEFAULT_TAGS [small_reply] (createStreamParser False) = Some (evs', q) \<and> shown evs = shown evs'"
proof -
  have all: "concat [take 9 small_reply, drop 9 small_reply] = small_reply" by simp
  have "extend (createStreamParser False) small_reply = at_state Preamble small_reply"
    by (simp add: createStreamParser_def extend_def)
  then show ?thesis
    using chunks_do_not_matter [OF default_tags_good, of "[take 9 small_reply, drop 9 small_reply]" False] small_facts(6) small_calm
    by (simp add: all)
qed

section \<open>Order\<close>

text \<open>What the screen is doing, and what each event may follow.\<close>

datatype screen = Idle | Thinking | Replying | Replied

fun screen_step :: "screen \<Rightarrow> stream_event \<Rightarrow> screen option" where
  "screen_step Idle ReasoningOpen = Some Thinking"
| "screen_step Thinking (ReasoningDelta cs) = (if cs = [] then None else Some Thinking)"
| "screen_step Thinking ReasoningClose = Some Idle"
| "screen_step Idle ReplyTextOpen = Some Replying"
| "screen_step Replying (ReplyTextDelta cs) = (if cs = [] then None else Some Replying)"
| "screen_step Replying ReplyTextClose = Some Replied"
| "screen_step s ev = None"

fun screen_run :: "screen \<Rightarrow> stream_event list \<Rightarrow> screen option" where
  "screen_run s [] = Some s"
| "screen_run s (ev # evs) = (case screen_step s ev of None \<Rightarrow> None | Some s' \<Rightarrow> screen_run s' evs)"

lemma screen_run_append: "screen_run s (xs @ ys) = (case screen_run s xs of None \<Rightarrow> None | Some s' \<Rightarrow> screen_run s' ys)"
  by (induction xs arbitrary: s) (auto split: option.splits)

lemma screen_deltas [simp]:
  "screen_run Thinking (delta ReasoningDelta cs @ evs) = screen_run Thinking evs"
  "screen_run Replying (delta ReplyTextDelta cs @ evs) = screen_run Replying evs"
  "screen_run Thinking (delta ReasoningDelta cs) = Some Thinking"
  "screen_run Replying (delta ReplyTextDelta cs) = Some Replying"
  by (simp_all add: delta_def)

definition fits :: "parser_state \<Rightarrow> screen \<Rightarrow> bool" where
  "fits st s \<longleftrightarrow>
     (case st of InsideThink \<Rightarrow> s = Thinking | ReplyText \<Rightarrow> s = Replying | StreamDone \<Rightarrow> s = Idle \<or> s = Replied | _ \<Rightarrow> s = Idle)"

lemma step_screen:
  assumes "stream_step tags p = (ev, p', go_on)" and "fits (sp_state p) s"
  shows "\<exists>s'. screen_run s ev = Some s' \<and> fits (sp_state p') s'"
  using assms
  by (cases "sp_state p") (auto simp: stream_step_def Let_def fits_def split: option.splits bool.splits if_splits)

lemma advance_screen:
  assumes good: "good_tags tags"
  shows "stream_advance tags p = Some (ev, p') \<Longrightarrow> fits (sp_state p) s \<Longrightarrow>
    \<exists>s'. screen_run s ev = Some s' \<and> fits (sp_state p') s'"
proof (induction p arbitrary: ev s rule: round_induct [OF good])
  case (1 p)
  obtain e q go_on where step: "stream_step tags p = (e, q, go_on)" by (cases "stream_step tags p") auto
  obtain s1 where s1: "screen_run s e = Some s1" "fits (sp_state q) s1" using step_screen [OF step 1(3)] by blast
  show ?case
  proof (cases go_on)
    case True
    then have go: "stream_step tags p = (e, q, True)" using step by simp
    obtain evs r where r: "stream_advance tags q = Some (evs, r)" using advance_total [OF good] by blast
    then have "ev = e @ evs" "p' = r" using advance_go [OF go r] 1(2) by simp_all
    then show ?thesis using 1(1) [OF go] r s1 by (simp add: screen_run_append)
  next
    case False
    then have "ev = e" "p' = q" using advance_stop [of tags p e q] step 1(2) by simp_all
    then show ?thesis using s1 by simp
  qed
qed

text \<open>Past the preamble the parser never goes back.\<close>

lemma advance_past_think:
  assumes good: "good_tags tags"
  shows "stream_advance tags p = Some (ev, p') \<Longrightarrow> state_rank (sp_state p) < 4 \<Longrightarrow> state_rank (sp_state p') < 4"
proof (induction p arbitrary: ev rule: round_induct [OF good])
  case (1 p)
  obtain e q go_on where step: "stream_step tags p = (e, q, go_on)" by (cases "stream_step tags p") auto
  have low: "state_rank (sp_state q) < 4"
    using step 1(3) by (cases "sp_state p") (auto simp: stream_step_def Let_def split: option.splits if_splits)
  show ?case
  proof (cases go_on)
    case True
    then have go: "stream_step tags p = (e, q, True)" using step by simp
    obtain evs r where r: "stream_advance tags q = Some (evs, r)" using advance_total [OF good] by blast
    then have "p' = r" using advance_go [OF go r] 1(2) by simp
    then show ?thesis using 1(1) [OF go] r low by simp
  next
    case False
    then show ?thesis using advance_stop [of tags p e q] step 1(2) low by simp
  qed
qed

lemma end_screen:
  assumes good: "good_tags tags" and "stream_end tags p = Some (ev, q)" and "fits (sp_state p) s"
  shows "screen_run s ev = Some Idle \<or> screen_run s ev = Some Replied"
proof -
  obtain ev1 p1 ev2 p2 where parts: "stream_advance tags p = Some (ev1, p1)" "flush_think tags p1 = Some (ev2, p2)"
    "ev = ev1 @ ev2 @ fst (flush_reply p2)"
    using assms(2) by (auto simp: stream_end_def split: option.splits prod.splits)
  obtain s1 where s1: "screen_run s ev1 = Some s1" "fits (sp_state p1) s1"
    using advance_screen [OF good parts(1) assms(3)] by blast
  have "\<exists>s2. screen_run s1 ev2 = Some s2 \<and> fits (sp_state p2) s2 \<and> sp_state p2 \<noteq> InsideThink"
  proof (cases "sp_state p1 = InsideThink")
    case False
    then show ?thesis using parts(2) s1(2) by (simp add: flush_think_def)
  next
    case True
    then have s1': "s1 = Thinking" using s1(2) by (simp add: fits_def)
    show ?thesis
    proof (cases "\<exists>i. findToolCallStart (sp_buffer p1) = Some (i, True)")
      case True
      then obtain i where i: "findToolCallStart (sp_buffer p1) = Some (i, True)" by blast
      let ?r = "p1\<lparr>sp_buffer := drop i (sp_buffer p1), sp_state := JsonTool\<rparr>"
      obtain evs where a: "stream_advance tags ?r = Some (evs, p2)"
        and e2: "ev2 = delta ReasoningDelta (take i (sp_buffer p1)) @ [ReasoningClose] @ evs"
        using parts(2) i \<open>sp_state p1 = InsideThink\<close> by (auto simp: flush_think_def split: option.splits)
      have "\<exists>s2. screen_run Idle evs = Some s2 \<and> fits (sp_state p2) s2"
        by (rule advance_screen [OF good a]) (simp add: fits_def)
      moreover have "sp_state p2 \<noteq> InsideThink"
        using advance_past_think [OF good a] by auto
      ultimately show ?thesis using e2 s1' by auto
    next
      case False
      then have "ev2 = delta ReasoningDelta (sp_buffer p1) @ [ReasoningClose]" "sp_state p2 = StreamDone"
        using parts(2) \<open>sp_state p1 = InsideThink\<close> by (auto simp: flush_think_def split: option.splits bool.splits)
      then show ?thesis using s1' by (simp add: fits_def)
    qed
  qed
  then obtain s2 where s2: "screen_run s1 ev2 = Some s2" "fits (sp_state p2) s2" "sp_state p2 \<noteq> InsideThink" by blast
  have "screen_run s2 (fst (flush_reply p2)) = Some Idle \<or> screen_run s2 (fst (flush_reply p2)) = Some Replied"
    using s2(2,3) by (cases "sp_state p2") (auto simp: flush_reply_def fits_def)
  then show ?thesis using s1(1) s2(1) by (simp add: parts(3) screen_run_append)
qed

text \<open>C32: The events of a stream are well formed whatever the model writes and however it arrives. Every run of the
  parser returns; reasoning is only shown between its opening and its closing, blocks do not nest, the
  reply is opened at most once, after the reasoning, nothing follows it, no delta is empty, and at the
  end of the stream nothing is left open.\<close>

theorem stream_events_are_well_formed:
  assumes "good_tags tags"
  shows "\<exists>evs q. stream_run tags chunks (createStreamParser preOpened) = Some (evs, q) \<and>
    screen_run (if preOpened then Thinking else Idle) evs \<in> {Some Idle, Some Replied}"
proof -
  have "\<exists>evs q. stream_run tags chunks p = Some (evs, q) \<and> screen_run s evs \<in> {Some Idle, Some Replied}"
    if "fits (sp_state p) s" for p s
    using that
  proof (induction chunks arbitrary: p s)
    case Nil
    then show ?case using end_total [OF assms, of p] end_screen [OF assms] by fastforce
  next
    case (Cons chunk chunks)
    obtain ev p' where push: "stream_push tags chunk p = Some (ev, p')"
      using advance_total [OF assms, of "extend p chunk"] by (cases "chunk = []") (auto simp: stream_push_def)
    have "\<exists>s'. screen_run s ev = Some s' \<and> fits (sp_state p') s'"
      using push advance_screen [OF assms, of "extend p chunk"] Cons(2) by (auto simp: stream_push_def split: if_splits)
    then obtain s' where s': "screen_run s ev = Some s'" "fits (sp_state p') s'" by blast
    then show ?case using Cons(1) [OF s'(2)] push by (auto simp: screen_run_append)
  qed
  then show ?thesis by (simp add: createStreamParser_def fits_def)
qed

theorem stream_events_are_well_formed_witness:
  "\<exists>evs q. stream_run DEFAULT_TAGS [units ''<think>a'', units ''b</think>hi''] (createStreamParser False) = Some (evs, q) \<and>
    screen_run Idle evs \<in> {Some Idle, Some Replied}"
  using stream_events_are_well_formed [of DEFAULT_TAGS "[units ''<think>a'', units ''b</think>hi'']" False] default_tags_good by simp

section \<open>The reply\<close>



end
