(* ===== verification/Slot_Manager.thy ===== *)
theory Slot_Manager
  imports Prelude
begin

text \<open>
  The slots of the local server (src/llm/slot-manager.ts): which slot a session's prompt lives in, and the
  slot set aside for side calls. The digest of a prefix is a parameter, and so is the clock. Slot numbers and
  counts are whole numbers; \<open>pin\<close> ignores any other value.
\<close>

record slot_assignment =
  sa_slotId :: int
  sa_prefixHash :: string
  sa_firstSeenAt :: int
  sa_cacheReused :: bool
  sa_pending :: bool

record slot_manager =
  sm_assignments :: "(string, slot_assignment) jsmap"
  sm_slotCount :: int
  sm_slotPool :: "int list"
  sm_reserved :: "int option"
  sm_observed :: bool

definition DEFAULT_SLOT_COUNT :: int where
  "DEFAULT_SLOT_COUNT = 1"

definition slot_ids :: "int \<Rightarrow> int list" where
  "slot_ids n = [0..n - 1]"

text \<open>The constructor; the only error is its message.\<close>

definition createSlotManager :: "int \<Rightarrow> string + slot_manager" where
  "createSlotManager slotCount =
     (if slotCount \<le> 0 then Inl ''slotCount must be positive''
      else Inr \<lparr>sm_assignments = [], sm_slotCount = slotCount, sm_slotPool = slot_ids slotCount, sm_reserved = None,
                sm_observed = False\<rparr>)"

definition poolSize :: "slot_manager \<Rightarrow> nat" where
  "poolSize g = length (sm_slotPool g)"

definition observedPoolSize :: "slot_manager \<Rightarrow> nat option" where
  "observedPoolSize g = (if sm_observed g then Some (poolSize g) else None)"

definition resize_pool :: "int \<Rightarrow> slot_manager \<Rightarrow> slot_manager" where
  "resize_pool slotCount g =
     (let reserved = (case sm_reserved g of Some r \<Rightarrow> if r < slotCount then Some r else None | None \<Rightarrow> None);
          pool = filter (\<lambda>i. Some i \<noteq> reserved) (slot_ids slotCount);
          g' = g\<lparr>sm_slotCount := slotCount, sm_assignments := [], sm_reserved := reserved, sm_slotPool := pool\<rparr>
      in if pool = [] then g'\<lparr>sm_reserved := None, sm_slotPool := [0]\<rparr> else g')"

definition resize_slots :: "int \<Rightarrow> slot_manager \<Rightarrow> string + slot_manager" where
  "resize_slots slotCount g =
     (if slotCount \<le> 0 then Inl ''slotCount must be positive''
      else let g' = g\<lparr>sm_observed := True\<rparr>
           in if slotCount = sm_slotCount g then Inr g' else Inr (resize_pool slotCount g'))"

definition acquire_slot :: "(string \<Rightarrow> string) \<Rightarrow> int \<Rightarrow> string \<Rightarrow> string \<Rightarrow> slot_manager \<Rightarrow> slot_assignment \<times> slot_manager" where
  "acquire_slot hash now sessionId stablePrefix g =
     (let prefixHash = hash stablePrefix
      in case jm_get (sm_assignments g) sessionId of
           Some a \<Rightarrow>
             (a\<lparr>sa_prefixHash := prefixHash, sa_cacheReused := (sa_prefixHash a = prefixHash)\<rparr>,
              if sa_prefixHash a = prefixHash then g
              else g\<lparr>sm_assignments := jm_set sessionId (a\<lparr>sa_prefixHash := prefixHash\<rparr>) (sm_assignments g)\<rparr>)
         | None \<Rightarrow>
             (\<lparr>sa_slotId = -1, sa_prefixHash = prefixHash, sa_firstSeenAt = now, sa_cacheReused = False, sa_pending = True\<rparr>, g))"

definition pin_slot :: "int \<Rightarrow> string \<Rightarrow> int \<Rightarrow> string \<Rightarrow> slot_manager \<Rightarrow> slot_manager" where
  "pin_slot now sessionId slotId prefixHash g =
     (if slotId < 0 then g
      else (let fresh = g\<lparr>sm_assignments := jm_set sessionId
                  \<lparr>sa_slotId = slotId, sa_prefixHash = prefixHash, sa_firstSeenAt = now, sa_cacheReused = False, sa_pending = False\<rparr>
                  (sm_assignments g)\<rparr>
            in case jm_get (sm_assignments g) sessionId of
                 Some a \<Rightarrow>
                   if sa_slotId a \<noteq> slotId then fresh
                   else if sa_prefixHash a \<noteq> prefixHash
                   then g\<lparr>sm_assignments := jm_set sessionId (a\<lparr>sa_prefixHash := prefixHash\<rparr>) (sm_assignments g)\<rparr>
                   else g
               | None \<Rightarrow> fresh))"

definition pinnedSlot :: "string \<Rightarrow> slot_manager \<Rightarrow> int option" where
  "pinnedSlot sessionId g = map_option sa_slotId (jm_get (sm_assignments g) sessionId)"

definition release_slot :: "string \<Rightarrow> slot_manager \<Rightarrow> slot_manager" where
  "release_slot sessionId g = g\<lparr>sm_assignments := jm_delete sessionId (sm_assignments g)\<rparr>"

definition reset_slots :: "slot_manager \<Rightarrow> slot_manager" where
  "reset_slots g = g\<lparr>sm_assignments := [], sm_slotPool := slot_ids (sm_slotCount g), sm_reserved := None\<rparr>"

definition pinned_slots :: "slot_manager \<Rightarrow> int list" where
  "pinned_slots g = map (\<lambda>(_, a). sa_slotId a) (sm_assignments g)"

text \<open>The last pool position below \<open>n\<close> that holds no session's prompt.\<close>

fun last_free :: "int list \<Rightarrow> int list \<Rightarrow> nat \<Rightarrow> nat option" where
  "last_free pool pinned 0 = None"
| "last_free pool pinned (Suc i) = (if pool ! i \<notin> set pinned then Some i else last_free pool pinned i)"

definition reserveReflectionSlot :: "slot_manager \<Rightarrow> int option \<times> slot_manager" where
  "reserveReflectionSlot g =
     (case sm_reserved g of
        Some r \<Rightarrow> (Some r, g)
      | None \<Rightarrow>
          if length (sm_slotPool g) \<le> 1 then (None, g)
          else (let pool = sm_slotPool g;
                    index = (case last_free pool (pinned_slots g) (length pool) of Some i \<Rightarrow> i | None \<Rightarrow> length pool - 1)
                in (Some (pool ! index), g\<lparr>sm_slotPool := drop_nth index pool, sm_reserved := Some (pool ! index)\<rparr>)))"

definition sideCallSlotId :: "slot_manager \<Rightarrow> int \<times> slot_manager" where
  "sideCallSlotId g = (case reserveReflectionSlot g of (s, g') \<Rightarrow> (case s of Some i \<Rightarrow> i | None \<Rightarrow> -1, g'))"

text \<open>The calls of the runtime; a refused resize leaves the manager as it was.\<close>

datatype slot_op =
    ResizeSlots int
  | AcquireSlot int string string
  | PinSlot int string int string
  | ReleaseSlot string
  | ResetSlots
  | SideCall

fun slot_step :: "(string \<Rightarrow> string) \<Rightarrow> slot_op \<Rightarrow> slot_manager \<Rightarrow> slot_manager" where
  "slot_step hash (ResizeSlots n) g = (case resize_slots n g of Inl _ \<Rightarrow> g | Inr g' \<Rightarrow> g')"
| "slot_step hash (AcquireSlot now s pre) g = snd (acquire_slot hash now s pre g)"
| "slot_step hash (PinSlot now s i h) g = pin_slot now s i h g"
| "slot_step hash (ReleaseSlot s) g = release_slot s g"
| "slot_step hash ResetSlots g = reset_slots g"
| "slot_step hash SideCall g = snd (sideCallSlotId g)"

section \<open>The pool\<close>

lemma slot_ids_simps [simp]: "set (slot_ids n) = {0..<n}" "distinct (slot_ids n)" "sorted (slot_ids n)"
  by (auto simp: slot_ids_def sorted_upto)

lemma drop_nth_filter: "distinct xs \<Longrightarrow> k < length xs \<Longrightarrow> drop_nth k xs = filter (\<lambda>x. x \<noteq> xs ! k) xs"
proof (induction xs arbitrary: k)
  case (Cons x xs)
  show ?case
  proof (cases k)
    case 0
    then have "filter (\<lambda>y. y \<noteq> x) xs = xs" using Cons(2) by (intro filter_True) auto
    then show ?thesis using 0 Cons(2) by (simp add: drop_nth_def)
  next
    case (Suc j)
    then have "x \<noteq> xs ! j" using Cons(2,3) by auto
    then show ?thesis using Suc Cons by (simp add: drop_nth_def)
  qed
qed simp

lemma last_free_spec:
  "n \<le> length pool \<Longrightarrow> (case last_free pool pinned n of
     Some i \<Rightarrow> i < n \<and> pool ! i \<notin> set pinned | None \<Rightarrow> \<forall>i < n. pool ! i \<in> set pinned)"
  by (induction n) (auto simp: less_Suc_eq split: option.splits)

text \<open>The pool is every slot but the reserved one, in order, and never empty.\<close>

definition pool_ok :: "slot_manager \<Rightarrow> bool" where
  "pool_ok g \<longleftrightarrow> 0 < sm_slotCount g \<and> sm_slotPool g = filter (\<lambda>i. Some i \<noteq> sm_reserved g) (slot_ids (sm_slotCount g)) \<and>
     (\<forall>r. sm_reserved g = Some r \<longrightarrow> 0 \<le> r \<and> r < sm_slotCount g) \<and> sm_slotPool g \<noteq> []"

lemma pool_ok_fields:
  "sm_slotCount g' = sm_slotCount g \<Longrightarrow> sm_slotPool g' = sm_slotPool g \<Longrightarrow> sm_reserved g' = sm_reserved g \<Longrightarrow>
     pool_ok g' = pool_ok g"
  by (simp add: pool_ok_def)

lemma pool_ok_create: "createSlotManager n = Inr g \<Longrightarrow> pool_ok g"
  by (auto simp: createSlotManager_def pool_ok_def slot_ids_def split: if_splits)

lemma reserve_cases:
  assumes "pool_ok g" and "sm_reserved g = None" and "1 < length (sm_slotPool g)"
  obtains k where "k < length (sm_slotPool g)"
    "reserveReflectionSlot g =
       (Some (sm_slotPool g ! k),
        g\<lparr>sm_slotPool := filter (\<lambda>i. i \<noteq> sm_slotPool g ! k) (sm_slotPool g), sm_reserved := Some (sm_slotPool g ! k)\<rparr>)"
    "sm_slotPool g ! k \<in> set (pinned_slots g) \<Longrightarrow> set (sm_slotPool g) \<subseteq> set (pinned_slots g)"
proof -
  let ?pool = "sm_slotPool g"
  define k where "k = (case last_free ?pool (pinned_slots g) (length ?pool) of Some i \<Rightarrow> i | None \<Rightarrow> length ?pool - 1)"
  have k: "k < length ?pool" "?pool ! k \<in> set (pinned_slots g) \<Longrightarrow> set ?pool \<subseteq> set (pinned_slots g)"
    using last_free_spec [of "length ?pool" ?pool "pinned_slots g"] assms(3)
    by (auto simp: k_def in_set_conv_nth split: option.splits)
  have "distinct ?pool" using assms(1) by (simp add: pool_ok_def)
  then have "drop_nth k ?pool = filter (\<lambda>i. i \<noteq> ?pool ! k) ?pool" using drop_nth_filter k(1) by blast
  then show ?thesis
    using that [OF k(1) _ k(2)] assms(2,3) by (simp add: reserveReflectionSlot_def Let_def k_def [symmetric])
qed

lemma pool_ok_reserve:
  assumes "pool_ok g"
  shows "pool_ok (snd (reserveReflectionSlot g))"
proof (cases "sm_reserved g = None \<and> 1 < length (sm_slotPool g)")
  case True
  then obtain k where k: "k < length (sm_slotPool g)" and g': "reserveReflectionSlot g =
       (Some (sm_slotPool g ! k),
        g\<lparr>sm_slotPool := filter (\<lambda>i. i \<noteq> sm_slotPool g ! k) (sm_slotPool g), sm_reserved := Some (sm_slotPool g ! k)\<rparr>)"
    using reserve_cases [OF assms] by blast
  have pool: "sm_slotPool g = slot_ids (sm_slotCount g)" using assms True by (simp add: pool_ok_def)
  have "\<exists>j < length (sm_slotPool g). j \<noteq> k" using True by (metis less_one less_trans zero_neq_one zero_less_one)
  then obtain j where "j < length (sm_slotPool g)" "j \<noteq> k" by blast
  moreover have "distinct (sm_slotPool g)" by (simp add: pool)
  ultimately have "filter (\<lambda>i. i \<noteq> sm_slotPool g ! k) (sm_slotPool g) \<noteq> []"
    using k by (auto simp: filter_empty_conv nth_eq_iff_index_eq intro!: bexI [of _ "sm_slotPool g ! j"])
  moreover have "sm_slotPool g ! k \<in> set (slot_ids (sm_slotCount g))" using k nth_mem pool by metis
  ultimately show ?thesis using assms by (simp add: pool_ok_def g' pool eq_commute)
next
  case False
  then have "snd (reserveReflectionSlot g) = g" by (auto simp: reserveReflectionSlot_def split: option.splits)
  then show ?thesis using assms by simp
qed

lemma pool_ok_resize:
  assumes "pool_ok g" and "0 < n"
  shows "pool_ok (resize_pool n g)"
proof -
  define res where "res = (case sm_reserved g of Some r \<Rightarrow> if r < n then Some r else None | None \<Rightarrow> None)"
  define pool where "pool = filter (\<lambda>i. Some i \<noteq> res) (slot_ids n)"
  have g': "resize_pool n g = (let g' = g\<lparr>sm_slotCount := n, sm_assignments := [], sm_reserved := res, sm_slotPool := pool\<rparr>
      in if pool = [] then g'\<lparr>sm_reserved := None, sm_slotPool := [0]\<rparr> else g')"
    by (simp add: resize_pool_def Let_def res_def pool_def)
  have res: "\<forall>r. res = Some r \<longrightarrow> 0 \<le> r \<and> r < n"
    using assms(1) by (auto simp: res_def pool_ok_def split: option.splits if_splits)
  show ?thesis
  proof (cases "pool = []")
    case True
    then have "\<forall>i \<in> {0..<n}. Some i = res" by (auto simp: pool_def filter_empty_conv)
    then have "Some 0 = res" "1 < n \<longrightarrow> Some 1 = res" using assms(2) by auto
    then have "n = 1" using assms(2) by (cases "1 < n") auto
    moreover have "sm_slotPool (resize_pool n g) = [0]" "sm_reserved (resize_pool n g) = None" "sm_slotCount (resize_pool n g) = n"
      using True by (simp_all add: g')
    ultimately show ?thesis by (simp add: pool_ok_def slot_ids_def)
  next
    case False
    then show ?thesis using res assms(2) by (simp add: g' pool_ok_def) (simp add: pool_def)
  qed
qed

lemma pool_ok_step: "pool_ok g \<Longrightarrow> pool_ok (slot_step hash op g)"
proof (cases op)
  case (ResizeSlots n)
  assume ok: "pool_ok g"
  then have ok': "pool_ok (g\<lparr>sm_observed := True\<rparr>)" by (subst pool_ok_fields [of _ g]) simp_all
  then show ?thesis using ResizeSlots ok pool_ok_resize [OF ok'] by (auto simp: resize_slots_def Let_def)
next
  case (AcquireSlot now s pre)
  assume "pool_ok g"
  then show ?thesis using AcquireSlot
    by (subst pool_ok_fields [of _ g]) (auto simp: acquire_slot_def Let_def split: option.splits)
next
  case (PinSlot now s i h)
  assume "pool_ok g"
  then show ?thesis using PinSlot
    by (subst pool_ok_fields [of _ g]) (auto simp: pin_slot_def Let_def split: option.splits)
next
  case (ReleaseSlot s)
  assume "pool_ok g"
  then show ?thesis using ReleaseSlot by (subst pool_ok_fields [of _ g]) (simp_all add: release_slot_def)
next
  case ResetSlots
  assume "pool_ok g"
  then show ?thesis using ResetSlots by (auto simp: reset_slots_def pool_ok_def slot_ids_def)
next
  case SideCall
  assume "pool_ok g"
  then show ?thesis using SideCall pool_ok_reserve [of g] by (cases "reserveReflectionSlot g") (simp add: sideCallSlotId_def)
qed

lemma pool_ok_run: "pool_ok g \<Longrightarrow> pool_ok (fold (slot_step hash) ops g)"
  by (induction ops arbitrary: g) (simp_all add: pool_ok_step)

section \<open>What a session is pinned to\<close>

definition slot_view :: "slot_manager \<Rightarrow> string \<Rightarrow> (int \<times> bool) option" where
  "slot_view g s = map_option (\<lambda>a. (sa_slotId a, sa_pending a)) (jm_get (sm_assignments g) s)"

text \<open>What can move a session: another pin, a release, a reset and a real change of the slot count.\<close>

fun slot_touched :: "slot_op \<Rightarrow> slot_manager \<Rightarrow> string \<Rightarrow> bool" where
  "slot_touched (ResizeSlots n) g s = (0 < n \<and> n \<noteq> sm_slotCount g)"
| "slot_touched (PinSlot now s' i h) g s = (s' = s \<and> 0 \<le> i)"
| "slot_touched (ReleaseSlot s') g s = (s' = s)"
| "slot_touched ResetSlots g s = True"
| "slot_touched op g s = False"

lemma reserve_assignments: "sm_assignments (snd (reserveReflectionSlot g)) = sm_assignments g"
  by (simp add: reserveReflectionSlot_def Let_def split: option.splits)

lemma slot_untouched: "\<not> slot_touched op g s \<Longrightarrow> slot_view (slot_step hash op g) s = slot_view g s"
  using reserve_assignments [of g]
  by (cases op) (auto simp: slot_view_def resize_slots_def acquire_slot_def pin_slot_def release_slot_def sideCallSlotId_def Let_def
      split: option.splits prod.splits)

interpretation slots: session_book "slot_step hash" slot_view slot_touched
  by unfold_locales (rule slot_untouched)

text \<open>A stored assignment is never pending.\<close>

definition settled_pins :: "slot_manager \<Rightarrow> bool" where
  "settled_pins g \<longleftrightarrow> (\<forall>s a. jm_get (sm_assignments g) s = Some a \<longrightarrow> \<not> sa_pending a \<and> 0 \<le> sa_slotId a)"

lemma settled_pins_step: "settled_pins g \<Longrightarrow> settled_pins (slot_step hash op g)"
  using reserve_assignments [of g]
  by (cases op) (auto simp: settled_pins_def resize_slots_def resize_pool_def acquire_slot_def pin_slot_def release_slot_def
      reset_slots_def sideCallSlotId_def Let_def split: option.splits prod.splits if_splits)

lemma settled_pins_run: "settled_pins g \<Longrightarrow> settled_pins (fold (slot_step hash) ops g)"
  by (induction ops arbitrary: g) (simp_all add: settled_pins_step)

lemma settled_pins_create: "createSlotManager n = Inr g \<Longrightarrow> settled_pins g"
  by (auto simp: createSlotManager_def settled_pins_def split: if_splits)

lemma pin_view: "settled_pins g \<Longrightarrow> 0 \<le> i \<Longrightarrow> slot_view (pin_slot now s i h g) s = Some (i, False)"
  by (auto simp: slot_view_def pin_slot_def settled_pins_def Let_def split: option.splits)

lemma acquire_view:
  "slot_view g s = Some (i, False) \<Longrightarrow> acquire_slot hash now s pre g = (a, g') \<Longrightarrow>
     sa_slotId a = i \<and> \<not> sa_pending a \<and> slot_view g' s = Some (i, False) \<and> sa_cacheReused (fst (acquire_slot hash later s pre g'))"
  by (auto simp: slot_view_def acquire_slot_def Let_def split: option.splits if_splits)

end
