(* ===== verification/Slot_Properties.thy ===== *)
theory Slot_Properties
  imports Slot_Manager
begin



text \<open>The pool is the server's slots without the one set aside. From any slot count, after any calls of the runtime
  in any order (refused resizes included), the pool lists in ascending order exactly the slots below
  the current count other than the reserved one, so its size is the count less one when a slot is
  reserved; it is never empty, and the reserved slot exists on the server.\<close>

theorem pool_matches_the_server:
  assumes "createSlotManager n = Inr g0"
  shows "let g = fold (slot_step hash) ops g0
    in sm_slotPool g = filter (\<lambda>i. Some i \<noteq> sm_reserved g) [0..sm_slotCount g - 1] \<and> 0 < poolSize g \<and>
       int (poolSize g) = sm_slotCount g - (if sm_reserved g = None then 0 else 1) \<and>
       list_all (\<lambda>r. 0 \<le> r \<and> r < sm_slotCount g) (case sm_reserved g of None \<Rightarrow> [] | Some r \<Rightarrow> [r])"
proof -
  define g where "g = fold (slot_step hash) ops g0"
  have ok: "pool_ok g" unfolding g_def using pool_ok_run [OF pool_ok_create [OF assms(1)]] .
  then have pool: "sm_slotPool g = filter (\<lambda>i. Some i \<noteq> sm_reserved g) [0..sm_slotCount g - 1]" "0 < poolSize g"
    and res: "sm_reserved g = Some r \<Longrightarrow> 0 \<le> r \<and> r < sm_slotCount g" for r
    by (auto simp: pool_ok_def slot_ids_def poolSize_def)
  have "set (sm_slotPool g) = {0..<sm_slotCount g} - (case sm_reserved g of None \<Rightarrow> {} | Some r \<Rightarrow> {r})"
    unfolding pool by (auto split: option.splits)
  moreover have "distinct (sm_slotPool g)" unfolding pool by simp
  ultimately have "poolSize g = card ({0..<sm_slotCount g} - (case sm_reserved g of None \<Rightarrow> {} | Some r \<Rightarrow> {r}))"
    unfolding poolSize_def using distinct_card by metis
  then have "int (poolSize g) = sm_slotCount g - (if sm_reserved g = None then 0 else 1)"
    using res ok by (cases "sm_reserved g") (auto simp: pool_ok_def)
  then show ?thesis unfolding Let_def g_def [symmetric] using pool res by (auto split: option.splits)
qed



text \<open>The side-call slot is taken from a session only when every slot of the pool holds a session's prompt.\<close>

lemma reserve_spares_sessions:
  assumes "createSlotManager n = Inr g0" and "g = fold (slot_step hash) ops g0" and "sm_reserved g = None"
    and "reserveReflectionSlot g = (Some r, g')" and "r \<in> set (pinned_slots g)"
  shows "set (sm_slotPool g) \<subseteq> set (pinned_slots g)"
proof -
  have ok: "pool_ok g" using pool_ok_run [OF pool_ok_create [OF assms(1)]] assms(2) by simp
  have "1 < length (sm_slotPool g)" using assms(3,4) by (auto simp: reserveReflectionSlot_def split: if_splits)
  from reserve_cases [OF ok assms(3) this] show ?thesis using assms(4,5) by auto
qed

end
