(* ===== verification/Link_Store.thy ===== *)
theory Link_Store
  imports Prelude Complex_Main "HOL-Library.Product_Lexorder"
begin

text \<open>
  The graph of memories (src/memory/links/link-store.ts): one row per pair of memories and kind of link, and
  the walk in both directions that recall uses. The memories that exist are a parameter of \<open>add\<close>, since
  the table's foreign keys refer to them; ids are whole numbers and a weight is a finite number or nothing.
\<close>

datatype link_kind = RelatesTo | CausedBy | Refers | Contradicts | Duplicates | Supersedes

text \<open>\<open>isLinkKind\<close>: the names the database and the grammar use.\<close>

definition LINK_KINDS :: "(string \<times> link_kind) list" where
  "LINK_KINDS =
     [(''RELATES_TO'', RelatesTo), (''CAUSED_BY'', CausedBy), (''REFERENCES'', Refers), (''CONTRADICTS'', Contradicts),
      (''DUPLICATES'', Duplicates), (''SUPERSEDES'', Supersedes)]"

definition isLinkKind :: "string \<Rightarrow> link_kind option" where
  "isLinkKind raw = map_of LINK_KINDS raw"

record link_row =
  lr_from :: int
  lr_to :: int
  lr_kind :: link_kind
  lr_weight :: rat
  lr_at :: int

record add_link_input =
  al_from :: int
  al_to :: int
  al_kind :: string
  al_weight :: "rat option option"

datatype link_error = NotPositive string int | SelfLoop | UnknownKind string | NoSuchMemory int

text \<open>A weight that is not finite counts as one.\<close>

definition clampUnit :: "rat option \<Rightarrow> rat" where
  "clampUnit v = (case v of None \<Rightarrow> 1 | Some x \<Rightarrow> if x < 0 then 0 else if 1 < x then 1 else x)"

definition same_key :: "link_row \<Rightarrow> link_row \<Rightarrow> bool" where
  "same_key a b = (lr_from a = lr_from b \<and> lr_to a = lr_to b \<and> lr_kind a = lr_kind b)"

text \<open>The insert that updates the row of the same key.\<close>

fun upsert_link :: "link_row \<Rightarrow> link_row list \<Rightarrow> link_row list" where
  "upsert_link r [] = [r]"
| "upsert_link r (x # xs) = (if same_key x r then x\<lparr>lr_weight := lr_weight r, lr_at := lr_at r\<rparr> # xs else x # upsert_link r xs)"

definition add_link :: "(int \<Rightarrow> bool) \<Rightarrow> int \<Rightarrow> add_link_input \<Rightarrow> link_row list \<Rightarrow> link_error + (link_row \<times> link_row list)" where
  "add_link known now input rows =
     (if al_from input \<le> 0 then Inl (NotPositive ''fromId'' (al_from input))
      else if al_to input \<le> 0 then Inl (NotPositive ''toId'' (al_to input))
      else if al_from input = al_to input then Inl SelfLoop
      else (case isLinkKind (al_kind input) of
              None \<Rightarrow> Inl (UnknownKind (al_kind input))
            | Some kind \<Rightarrow>
                (let row = \<lparr>lr_from = al_from input, lr_to = al_to input, lr_kind = kind,
                            lr_weight = clampUnit (case al_weight input of None \<Rightarrow> Some 1 | Some w \<Rightarrow> w), lr_at = now\<rparr>
                 in if \<not> known (al_from input) then Inl (NoSuchMemory (al_from input))
                    else if \<not> known (al_to input) then Inl (NoSuchMemory (al_to input))
                    else Inr (row, upsert_link row rows))))"

definition get_link :: "link_row list \<Rightarrow> int \<Rightarrow> int \<Rightarrow> link_kind \<Rightarrow> link_row option" where
  "get_link rows f t kind = find (\<lambda>r. lr_from r = f \<and> lr_to r = t \<and> lr_kind r = kind) rows"

text \<open>\<open>ORDER BY weight DESC, created_at DESC\<close>; rows alike in both come in table order.\<close>

definition by_rank :: "link_row list \<Rightarrow> link_row list" where
  "by_rank = sort_key (\<lambda>r. (- lr_weight r, - lr_at r))"

definition of_kinds :: "link_kind list option \<Rightarrow> link_row \<Rightarrow> bool" where
  "of_kinds kinds r = (case kinds of None \<Rightarrow> True | Some ks \<Rightarrow> ks = [] \<or> lr_kind r \<in> set ks)"

definition listOutgoing :: "link_row list \<Rightarrow> int \<Rightarrow> link_kind list option \<Rightarrow> link_row list" where
  "listOutgoing rows f kinds = by_rank (filter (\<lambda>r. lr_from r = f \<and> of_kinds kinds r) rows)"

definition listIncoming :: "link_row list \<Rightarrow> int \<Rightarrow> link_kind list option \<Rightarrow> link_row list" where
  "listIncoming rows t kinds = by_rank (filter (\<lambda>r. lr_to r = t \<and> of_kinds kinds r) rows)"

definition remove_link :: "int \<Rightarrow> int \<Rightarrow> link_kind \<Rightarrow> link_row list \<Rightarrow> bool \<times> link_row list" where
  "remove_link f t kind rows =
     (let rest = filter (\<lambda>r. \<not> (lr_from r = f \<and> lr_to r = t \<and> lr_kind r = kind)) rows
      in (length rest < length rows, rest))"

text \<open>Also what the cascade does when the memory goes.\<close>

definition removeAllForMemory :: "int \<Rightarrow> link_row list \<Rightarrow> nat \<times> link_row list" where
  "removeAllForMemory m rows =
     (let rest = filter (\<lambda>r. \<not> (lr_from r = m \<or> lr_to r = m)) rows in (length rows - length rest, rest))"

definition LINK_LIST_ALL_DEFAULT_LIMIT :: int where
  "LINK_LIST_ALL_DEFAULT_LIMIT = 500"

definition LINK_LIST_ALL_MAX_LIMIT :: int where
  "LINK_LIST_ALL_MAX_LIMIT = 1000"

definition listAll :: "int option \<Rightarrow> link_row list \<Rightarrow> link_row list" where
  "listAll limit rows =
     take (nat (min LINK_LIST_ALL_MAX_LIMIT (max 1 (case limit of None \<Rightarrow> LINK_LIST_ALL_DEFAULT_LIMIT | Some n \<Rightarrow> n))))
       (sort_key (\<lambda>r. - lr_at r) rows)"

section \<open>The walk\<close>

record expand_options =
  xo_depth :: "int option"
  xo_maxExpanded :: "int option"
  xo_kinds :: "link_kind list option"
  xo_excludeSelfLoops :: bool

definition walk_depth :: "expand_options \<Rightarrow> nat" where
  "walk_depth opts = nat (max 1 (min 3 (case xo_depth opts of None \<Rightarrow> 1 | Some d \<Rightarrow> d)))"

definition walk_cap :: "expand_options \<Rightarrow> nat" where
  "walk_cap opts = nat (max 1 (case xo_maxExpanded opts of None \<Rightarrow> 50 | Some n \<Rightarrow> n))"

text \<open>What the walk has seen, its result so far and the next frontier; the flag says that the cap was hit.\<close>

record link_walk =
  wk_seen :: "int list"
  wk_result :: "int list"
  wk_next :: "int list"

definition reach_id :: "int \<Rightarrow> link_walk \<Rightarrow> link_walk" where
  "reach_id x w = w\<lparr>wk_seen := wk_seen w @ [x], wk_result := wk_result w @ [x], wk_next := wk_next w @ [x]\<rparr>"

text \<open>The two inner loops, over the far ends of the edges of one node.\<close>

fun walk_ends :: "nat \<Rightarrow> bool \<Rightarrow> int \<Rightarrow> int list \<Rightarrow> link_walk \<Rightarrow> bool \<times> link_walk" where
  "walk_ends cap excl node [] w = (False, w)"
| "walk_ends cap excl node (x # xs) w =
     (if x \<in> set (wk_seen w) \<or> (excl \<and> x = node) then walk_ends cap excl node xs w
      else if cap \<le> length (wk_result (reach_id x w)) then (True, reach_id x w)
      else walk_ends cap excl node xs (reach_id x w))"

definition walk_node :: "link_row list \<Rightarrow> expand_options \<Rightarrow> int \<Rightarrow> link_walk \<Rightarrow> bool \<times> link_walk" where
  "walk_node rows opts node w =
     (case walk_ends (walk_cap opts) (xo_excludeSelfLoops opts) node (map lr_to (listOutgoing rows node (xo_kinds opts))) w of
        (True, w') \<Rightarrow> (True, w')
      | (False, w') \<Rightarrow>
          walk_ends (walk_cap opts) (xo_excludeSelfLoops opts) node (map lr_from (listIncoming rows node (xo_kinds opts))) w')"

fun walk_frontier :: "link_row list \<Rightarrow> expand_options \<Rightarrow> int list \<Rightarrow> link_walk \<Rightarrow> bool \<times> link_walk" where
  "walk_frontier rows opts [] w = (False, w)"
| "walk_frontier rows opts (node # nodes) w =
     (case walk_node rows opts node w of (True, w') \<Rightarrow> (True, w') | (False, w') \<Rightarrow> walk_frontier rows opts nodes w')"

fun walk_hops :: "link_row list \<Rightarrow> expand_options \<Rightarrow> nat \<Rightarrow> int list \<Rightarrow> link_walk \<Rightarrow> int list" where
  "walk_hops rows opts 0 frontier w = wk_result w"
| "walk_hops rows opts (Suc d) frontier w =
     (case walk_frontier rows opts frontier (w\<lparr>wk_next := []\<rparr>) of
        (True, w') \<Rightarrow> wk_result w'
      | (False, w') \<Rightarrow> if wk_next w' = [] then wk_result w' else walk_hops rows opts d (wk_next w') w')"

definition expand_links :: "link_row list \<Rightarrow> int list \<Rightarrow> expand_options \<Rightarrow> int list" where
  "expand_links rows seedIds opts =
     (if seedIds = [] then []
      else walk_hops rows opts (walk_depth opts) seedIds \<lparr>wk_seen = remdups seedIds, wk_result = [], wk_next = []\<rparr>)"

section \<open>The table\<close>

definition link_ok :: "link_row \<Rightarrow> bool" where
  "link_ok r \<longleftrightarrow> 0 < lr_from r \<and> 0 < lr_to r \<and> lr_from r \<noteq> lr_to r \<and> 0 \<le> lr_weight r \<and> lr_weight r \<le> 1"

definition link_key :: "link_row \<Rightarrow> int \<times> int \<times> link_kind" where
  "link_key r = (lr_from r, lr_to r, lr_kind r)"

definition links_ok :: "link_row list \<Rightarrow> bool" where
  "links_ok rows \<longleftrightarrow> distinct (map link_key rows) \<and> list_all link_ok rows"

lemma same_key_iff: "same_key a b \<longleftrightarrow> link_key a = link_key b"
  by (auto simp: same_key_def link_key_def)

lemma upsert_keys: "map link_key (upsert_link r rows) = js_add (link_key r) (map link_key rows)"
  by (induction rows) (auto simp: same_key_iff js_add_def link_key_def)

lemma upsert_ok: "link_ok r \<Longrightarrow> links_ok rows \<Longrightarrow> links_ok (upsert_link r rows)"
proof -
  assume "link_ok r" "links_ok rows"
  moreover have "list_all link_ok (upsert_link r rows)" if "list_all link_ok rows" "link_ok r" for rows
    using that by (induction rows) (auto simp: link_ok_def)
  ultimately show ?thesis by (simp add: links_ok_def upsert_keys)
qed

lemma clamp_unit: "0 \<le> clampUnit v \<and> clampUnit v \<le> 1"
  by (simp add: clampUnit_def split: option.splits)

lemma add_link_ok: "links_ok rows \<Longrightarrow> add_link known now input rows = Inr (row, rows') \<Longrightarrow> links_ok rows' \<and> row \<in> set rows'"
proof -
  assume ok: "links_ok rows" and add: "add_link known now input rows = Inr (row, rows')"
  then have "link_ok row" "rows' = upsert_link row rows"
    using clamp_unit by (auto simp: add_link_def link_ok_def Let_def split: if_splits option.splits)
  moreover have "r \<in> set (upsert_link r rs)" for r rs
    by (induction rs) (auto simp: same_key_def)
  ultimately show ?thesis using upsert_ok ok by simp
qed

lemma filter_links_ok: "links_ok rows \<Longrightarrow> links_ok (filter P rows)"
  by (auto simp: links_ok_def distinct_map_filter list_all_iff)

datatype link_op = AddLink int add_link_input | RemoveLink int int link_kind | ForgetMemory int

fun link_step :: "(int \<Rightarrow> bool) \<Rightarrow> link_op \<Rightarrow> link_row list \<Rightarrow> link_row list" where
  "link_step known (AddLink now input) rows = (case add_link known now input rows of Inl _ \<Rightarrow> rows | Inr (_, rows') \<Rightarrow> rows')"
| "link_step known (RemoveLink f t kind) rows = snd (remove_link f t kind rows)"
| "link_step known (ForgetMemory m) rows = snd (removeAllForMemory m rows)"

lemma links_ok_step: "links_ok rows \<Longrightarrow> links_ok (link_step known op rows)"
  using add_link_ok by (cases op) (auto simp: remove_link_def removeAllForMemory_def Let_def filter_links_ok split: sum.splits)

lemma links_ok_run: "links_ok rows \<Longrightarrow> links_ok (fold (link_step known) ops rows)"
  by (induction ops arbitrary: rows) (simp_all add: links_ok_step)

section \<open>Hops\<close>

text \<open>The nodes one link away in either direction, and the nodes within \<open>d\<close> hops.\<close>

definition linked :: "link_row list \<Rightarrow> link_kind list option \<Rightarrow> int \<Rightarrow> int \<Rightarrow> bool" where
  "linked rows kinds x y \<longleftrightarrow> (\<exists>r \<in> set rows. of_kinds kinds r \<and> (lr_from r = x \<and> lr_to r = y \<or> lr_to r = x \<and> lr_from r = y))"

fun ball :: "link_row list \<Rightarrow> link_kind list option \<Rightarrow> nat \<Rightarrow> int set \<Rightarrow> int set" where
  "ball rows kinds 0 S = S"
| "ball rows kinds (Suc d) S = ball rows kinds d S \<union> {y. \<exists>x \<in> ball rows kinds d S. linked rows kinds x y}"

lemma set_by_rank [simp]: "set (by_rank rows) = set rows"
  by (simp add: by_rank_def)

lemma linked_ends:
  "set (map lr_to (listOutgoing rows x kinds)) \<union> set (map lr_from (listIncoming rows x kinds)) = {y. linked rows kinds x y}"
  by (auto simp: listOutgoing_def listIncoming_def linked_def)

lemma linked_sym: "linked rows kinds x y = linked rows kinds y x"
  by (auto simp: linked_def)

lemma ball_mono: "d \<le> e \<Longrightarrow> ball rows kinds d S \<subseteq> ball rows kinds e S"
  by (rule lift_Suc_mono_le [of "\<lambda>d. ball rows kinds d S"]) auto

lemma finite_ball: "finite S \<Longrightarrow> finite (ball rows kinds d S)"
proof (induction d)
  case (Suc d)
  have "{y. \<exists>x \<in> ball rows kinds d S. linked rows kinds x y} \<subseteq> lr_from ` set rows \<union> lr_to ` set rows"
    by (auto simp: linked_def)
  then show ?case using Suc by (auto intro: finite_subset)
qed simp

declare ball.simps(2) [simp del]

end
