(* ===== verification/Link_Walk.thy ===== *)
theory Link_Walk
  imports Link_Store
begin

text \<open>The walk over the links, hop by hop: what each loop adds, and what the whole walk returns.\<close>

section \<open>One hop\<close>

definition walk_adds :: "link_walk \<Rightarrow> link_walk \<Rightarrow> int set \<Rightarrow> bool" where
  "walk_adds w w' X \<longleftrightarrow>
     (\<exists>added. wk_seen w' = wk_seen w @ added \<and> wk_result w' = wk_result w @ added \<and> wk_next w' = wk_next w @ added \<and>
        distinct added \<and> set added \<inter> set (wk_seen w) = {} \<and> set added \<subseteq> X)"

lemma walk_adds_refl: "walk_adds w w X"
  by (simp add: walk_adds_def)

lemma walk_adds_mono: "walk_adds w w' X \<Longrightarrow> X \<subseteq> Y \<Longrightarrow> walk_adds w w' Y"
  by (auto simp: walk_adds_def)

lemma walk_adds_trans: "walk_adds w1 w2 X \<Longrightarrow> walk_adds w2 w3 X \<Longrightarrow> walk_adds w1 w3 X"
  unfolding walk_adds_def by (elim exE) (rule_tac x = "added @ addeda" in exI, auto)

lemma walk_adds_seen: "walk_adds w w' X \<Longrightarrow> set (wk_seen w) \<subseteq> set (wk_seen w')"
  by (auto simp: walk_adds_def)

lemma walk_adds_reach: "x \<notin> set (wk_seen w) \<Longrightarrow> x \<in> X \<Longrightarrow> walk_adds w (reach_id x w) X"
  by (auto simp: walk_adds_def reach_id_def)

text \<open>A loop either covers its ends and stays under the cap, or stops at the cap.\<close>

definition hop_walked :: "nat \<Rightarrow> int set \<Rightarrow> link_walk \<Rightarrow> bool \<times> link_walk \<Rightarrow> bool" where
  "hop_walked cap X w res \<longleftrightarrow> walk_adds w (snd res) X \<and>
     (if fst res then length (wk_result (snd res)) = cap
      else length (wk_result (snd res)) < cap \<and> X \<subseteq> set (wk_seen (snd res)))"

lemma walked_then:
  assumes "hop_walked cap X w res" and "\<not> fst res \<Longrightarrow> hop_walked cap Y (snd res) res'"
  shows "hop_walked cap (X \<union> Y) w (if fst res then (True, snd res) else res')"
proof (cases "fst res")
  case True
  then show ?thesis using assms(1) walk_adds_mono by (fastforce simp: hop_walked_def)
next
  case False
  have one: "walk_adds w (snd res) (X \<union> Y)" "X \<subseteq> set (wk_seen (snd res))"
    using assms(1) False walk_adds_mono by (auto simp: hop_walked_def)
  have two: "walk_adds (snd res) (snd res') (X \<union> Y)" "hop_walked cap Y (snd res) res'"
    using assms(2) False walk_adds_mono by (auto simp: hop_walked_def)
  show ?thesis
    using False walk_adds_trans [OF one(1) two(1)] one(2) two(2) walk_adds_seen [OF two(1)]
    by (auto simp: hop_walked_def)
qed

lemma walked_step:
  assumes "walk_adds w w1 (insert x X)" and "x \<in> set (wk_seen w1)" and "hop_walked cap X w1 res"
  shows "hop_walked cap (insert x X) w res"
proof -
  have later: "walk_adds w1 (snd res) X" "walk_adds w1 (snd res) (insert x X)"
    using assms(3) walk_adds_mono [of w1 "snd res" X "insert x X"] by (auto simp: hop_walked_def)
  have "x \<in> set (wk_seen (snd res))" using assms(2) walk_adds_seen [OF later(1)] by blast
  then show ?thesis using assms(3) walk_adds_trans [OF assms(1) later(2)] by (simp add: hop_walked_def)
qed

lemma walk_ends_spec:
  "node \<in> set (wk_seen w) \<Longrightarrow> length (wk_result w) < cap \<Longrightarrow> hop_walked cap (set xs) w (walk_ends cap excl node xs w)"
proof (induction xs arbitrary: w)
  case Nil
  then show ?case by (simp add: hop_walked_def walk_adds_refl)
next
  case (Cons x xs)
  show ?case
  proof (cases "x \<in> set (wk_seen w)")
    case True
    then have "hop_walked cap (insert x (set xs)) w (walk_ends cap excl node xs w)"
      by (rule walked_step [OF walk_adds_refl _ Cons(1) [OF Cons(2,3)]])
    then show ?thesis using True by simp
  next
    case False
    let ?w = "reach_id x w"
    have go: "x \<noteq> node" using False Cons(2) by blast
    have adds: "walk_adds w ?w (insert x (set xs))" using walk_adds_reach False by simp
    have w: "x \<in> set (wk_seen ?w)" "node \<in> set (wk_seen ?w)" "length (wk_result ?w) = Suc (length (wk_result w))"
      using Cons(2) by (simp_all add: reach_id_def)
    show ?thesis
    proof (cases "cap \<le> length (wk_result ?w)")
      case True
      then show ?thesis using False go adds w(3) Cons(3) by (simp add: hop_walked_def)
    next
      case cont: False
      then have "length (wk_result ?w) < cap" by simp
      then have "hop_walked cap (insert x (set xs)) w (walk_ends cap excl node xs ?w)"
        by (rule walked_step [OF adds w(1) Cons(1) [OF w(2)]])
      then show ?thesis using False go cont by simp
    qed
  qed
qed

lemma walk_node_spec:
  assumes "node \<in> set (wk_seen w)" and "length (wk_result w) < walk_cap opts"
  shows "hop_walked (walk_cap opts) {y. linked rows (xo_kinds opts) node y} w (walk_node rows opts node w)"
proof -
  let ?out = "map lr_to (listOutgoing rows node (xo_kinds opts))" and ?inc = "map lr_from (listIncoming rows node (xo_kinds opts))"
  define r1 where "r1 = walk_ends (walk_cap opts) (xo_excludeSelfLoops opts) node ?out w"
  define r2 where "r2 = walk_ends (walk_cap opts) (xo_excludeSelfLoops opts) node ?inc (snd r1)"
  have w1: "hop_walked (walk_cap opts) (set ?out) w r1" unfolding r1_def using walk_ends_spec assms by blast
  have "hop_walked (walk_cap opts) (set ?inc) (snd r1) r2" if "\<not> fst r1"
    unfolding r2_def using w1 that assms(1) walk_adds_seen by (intro walk_ends_spec) (auto simp: hop_walked_def)
  from walked_then [OF w1 this] have "hop_walked (walk_cap opts) (set ?out \<union> set ?inc) w (if fst r1 then (True, snd r1) else r2)" .
  moreover have "walk_node rows opts node w = (if fst r1 then (True, snd r1) else r2)"
    by (cases r1) (auto simp: walk_node_def r2_def r1_def [symmetric])
  ultimately show ?thesis by (simp only: linked_ends)
qed

lemma walk_frontier_spec:
  "set nodes \<subseteq> set (wk_seen w) \<Longrightarrow> length (wk_result w) < walk_cap opts \<Longrightarrow>
     hop_walked (walk_cap opts) {y. \<exists>x \<in> set nodes. linked rows (xo_kinds opts) x y} w (walk_frontier rows opts nodes w)"
proof (induction nodes arbitrary: w)
  case Nil
  then show ?case by (simp add: hop_walked_def walk_adds_refl)
next
  case (Cons node nodes)
  define r where "r = walk_node rows opts node w"
  have w1: "hop_walked (walk_cap opts) {y. linked rows (xo_kinds opts) node y} w r"
    unfolding r_def using Cons by (intro walk_node_spec) auto
  have "hop_walked (walk_cap opts) {y. \<exists>x \<in> set nodes. linked rows (xo_kinds opts) x y} (snd r) (walk_frontier rows opts nodes (snd r))"
    if "\<not> fst r"
    using w1 that Cons(2) walk_adds_seen [of w "snd r"] by (intro Cons(1)) (auto simp: hop_walked_def)
  from walked_then [OF w1 this] have both: "hop_walked (walk_cap opts)
      ({y. linked rows (xo_kinds opts) node y} \<union> {y. \<exists>x \<in> set nodes. linked rows (xo_kinds opts) x y}) w
      (if fst r then (True, snd r) else walk_frontier rows opts nodes (snd r))" .
  have "{y. linked rows (xo_kinds opts) node y} \<union> {y. \<exists>x \<in> set nodes. linked rows (xo_kinds opts) x y} =
      {y. \<exists>x \<in> set (node # nodes). linked rows (xo_kinds opts) x y}" by auto
  moreover have "walk_frontier rows opts (node # nodes) w = (if fst r then (True, snd r) else walk_frontier rows opts nodes (snd r))"
    by (cases r) (auto simp: r_def [symmetric])
  ultimately show ?case using both by simp
qed

section \<open>All hops\<close>

text \<open>The state between two hops: everything within \<open>e\<close> hops is seen, and only the frontier may lead further.\<close>

definition at_hop :: "link_row list \<Rightarrow> expand_options \<Rightarrow> int set \<Rightarrow> nat \<Rightarrow> int list \<Rightarrow> link_walk \<Rightarrow> bool" where
  "at_hop rows opts S e F w \<longleftrightarrow>
     set (wk_seen w) = ball rows (xo_kinds opts) e S \<and> set F \<subseteq> ball rows (xo_kinds opts) e S \<and>
     {y. \<exists>x \<in> ball rows (xo_kinds opts) e S - set F. linked rows (xo_kinds opts) x y} \<subseteq> ball rows (xo_kinds opts) e S \<and>
     set (wk_result w) = ball rows (xo_kinds opts) e S - S \<and> distinct (wk_result w) \<and> length (wk_result w) < walk_cap opts"

text \<open>What a result must be when \<open>D\<close> hops are allowed, of which \<open>e\<close> are done.\<close>

definition hop_result :: "link_row list \<Rightarrow> expand_options \<Rightarrow> int set \<Rightarrow> nat \<Rightarrow> nat \<Rightarrow> int list \<Rightarrow> bool" where
  "hop_result rows opts S e D r \<longleftrightarrow>
     (let near = \<lambda>k. ball rows (xo_kinds opts) k S - S
      in distinct r \<and> set r \<subseteq> near D \<and> length r = min (walk_cap opts) (card (near D)) \<and>
         (\<forall>k. e \<le> k \<longrightarrow> set (take (card (near k)) r) \<subseteq> near k))"

lemma ball_stable:
  assumes "ball rows kinds (Suc e) S = ball rows kinds e S" and "e \<le> d"
  shows "ball rows kinds d S = ball rows kinds e S"
  using assms(2)
proof (induction d rule: dec_induct)
  case (step d)
  have "ball rows kinds (Suc d) S = ball rows kinds d S \<union> {y. \<exists>x \<in> ball rows kinds d S. linked rows kinds x y}" by (rule ball.simps)
  also have "\<dots> = ball rows kinds (Suc e) S" unfolding step.IH by (rule ball.simps(2) [symmetric])
  finally show ?case using assms(1) by simp
qed simp

lemma take_card: "distinct xs \<Longrightarrow> take (card (set xs)) (xs @ ys) = xs"
  by (simp add: distinct_card)

lemma hop_done:
  assumes "at_hop rows opts S e F w" and "ball rows (xo_kinds opts) D S = ball rows (xo_kinds opts) e S"
  shows "hop_result rows opts S e D (wk_result w)"
proof -
  have "length (wk_result w) = card (ball rows (xo_kinds opts) D S - S)"
    using assms(1,2) distinct_card by (force simp: at_hop_def)
  moreover have "set (take n (wk_result w)) \<subseteq> ball rows (xo_kinds opts) k S - S" if "e \<le> k" for n k
    using assms(1) ball_mono [OF that, of rows "xo_kinds opts" S] set_take_subset [of n "wk_result w"] by (auto simp: at_hop_def)
  ultimately show ?thesis using assms unfolding hop_result_def at_hop_def Let_def by simp
qed

lemma hop_grows:
  "F \<subseteq> B \<Longrightarrow> {y. \<exists>x \<in> B - F. L x y} \<subseteq> B \<Longrightarrow> A \<subseteq> {y. \<exists>x \<in> F. L x y} \<Longrightarrow> {y. \<exists>x \<in> F. L x y} \<subseteq> B \<union> A \<Longrightarrow>
     B \<union> {y. \<exists>x \<in> B. L x y} = B \<union> A"
  by blast

lemma walk_hops_spec:
  assumes S: "finite S"
  shows "at_hop rows opts S e F w \<Longrightarrow>
    hop_result rows opts S e (e + d) (walk_hops rows opts d F w) \<and>
    (\<exists>rest. walk_hops rows opts d F w = wk_result w @ rest)"
proof (induction d arbitrary: e F w)
  case 0
  then show ?case using hop_done [of rows opts S e F w e] by simp
next
  case (Suc d)
  let ?ball = "\<lambda>k. ball rows (xo_kinds opts) k S" and ?L = "linked rows (xo_kinds opts)"
  let ?w = "w\<lparr>wk_next := []\<rparr>"
  obtain stop w' where step: "walk_frontier rows opts F ?w = (stop, w')" by fastforce
  have wd: "hop_walked (walk_cap opts) {y. \<exists>x \<in> set F. ?L x y} ?w (stop, w')"
    unfolding step [symmetric] using Suc(2) by (intro walk_frontier_spec) (auto simp: at_hop_def)
  then have outcome: "if stop then length (wk_result w') = walk_cap opts
      else length (wk_result w') < walk_cap opts \<and> {y. \<exists>x \<in> set F. ?L x y} \<subseteq> set (wk_seen w')"
    unfolding hop_walked_def fst_conv snd_conv by (rule conjunct2)
  from wd obtain added where w': "wk_seen w' = wk_seen w @ added" "wk_result w' = wk_result w @ added" "wk_next w' = added"
    and added: "distinct added" "set added \<inter> set (wk_seen w) = {}" "set added \<subseteq> {y. \<exists>x \<in> set F. ?L x y}"
    by (auto simp: hop_walked_def walk_adds_def)
  have hop: "set (wk_seen w) = ?ball e" "set F \<subseteq> ?ball e" "{y. \<exists>x \<in> ?ball e - set F. ?L x y} \<subseteq> ?ball e"
    "set (wk_result w) = ?ball e - S" "distinct (wk_result w)"
    using Suc(2) by (auto simp: at_hop_def)
  have S_in: "S \<subseteq> ?ball k" for k using ball_mono [of 0 k rows "xo_kinds opts" S] by simp
  have dist: "distinct (wk_result w')" using w'(2) hop added by auto
  have "{y. \<exists>x \<in> set F. ?L x y} \<subseteq> {y. \<exists>x \<in> ?ball e. ?L x y}" using hop(2) by blast
  then have "set added \<subseteq> ?ball (Suc e)" unfolding ball.simps using added(3) by (meson Un_upper2 order_trans)
  moreover have "set added \<inter> S = {}" using added(2) hop(1) S_in [of e] by blast
  ultimately have res_in: "set (wk_result w') \<subseteq> ?ball (Suc e) - S" using w'(2) hop(4) ball_mono [of e "Suc e" rows "xo_kinds opts" S] by auto
  have first: "take (card (?ball e - S)) (wk_result w' @ rest) = wk_result w" for rest
    using take_card [OF hop(5), of "added @ rest"] unfolding w'(2) hop(4) append_assoc .
  show ?case
  proof (cases stop)
    case True
    have len: "length (wk_result w') = walk_cap opts" using outcome True by simp
    have far: "set (wk_result w') \<subseteq> ?ball k - S" if "e < k" for k
      using res_in ball_mono [of "Suc e" k rows "xo_kinds opts" S] that by auto
    have "walk_cap opts \<le> card (?ball (e + Suc d) - S)"
    proof -
      have "card (set (wk_result w')) \<le> card (?ball (e + Suc d) - S)"
        using far [of "e + Suc d"] finite_ball [OF S] by (intro card_mono finite_Diff) auto
      then show ?thesis using dist len distinct_card by metis
    qed
    moreover have "set (take (card (?ball k - S)) (wk_result w')) \<subseteq> ?ball k - S" if "e \<le> k" for k
    proof (cases "k = e")
      case True
      then show ?thesis using first [of "[]"] hop(4) by simp
    next
      case False
      then show ?thesis using far [of k] that by (auto dest!: in_set_takeD)
    qed
    ultimately have "hop_result rows opts S e (e + Suc d) (wk_result w')"
      using dist len far [of "e + Suc d"] unfolding hop_result_def Let_def by simp
    then show ?thesis using step True w'(2) by simp
  next
    case False
    then have cover: "{y. \<exists>x \<in> set F. ?L x y} \<subseteq> set (wk_seen w')" and short: "length (wk_result w') < walk_cap opts"
      using outcome by simp_all
    have ball': "?ball (Suc e) = set (wk_seen w')"
      using hop_grows [OF hop(2,3) added(3)] cover hop(1) by (simp add: w'(1) ball.simps(2))
    have at': "at_hop rows opts S (Suc e) added w'"
      unfolding at_hop_def
    proof (intro conjI)
      show "{y. \<exists>x \<in> ?ball (Suc e) - set added. ?L x y} \<subseteq> ?ball (Suc e)"
      proof -
        have "?ball (Suc e) - set added \<subseteq> ?ball e" using hop(1) by (auto simp: ball' w'(1))
        then have "{y. \<exists>x \<in> ?ball (Suc e) - set added. ?L x y} \<subseteq> {y. \<exists>x \<in> ?ball e. ?L x y}" by blast
        also have "\<dots> \<subseteq> ?ball (Suc e)" unfolding ball.simps by (rule Un_upper2)
        finally show ?thesis .
      qed
      show "set (wk_result w') = ?ball (Suc e) - S"
        using hop(1,4) added(2) S_in [of e] by (auto simp: ball' w'(1,2))
    qed (use ball' w' dist short in auto)
    show ?thesis
    proof (cases "added = []")
      case True
      then have same: "?ball (Suc e) = ?ball e" using ball' w'(1) hop(1) by simp
      have "hop_result rows opts S e (e + Suc d) (wk_result w')"
      proof (rule hop_done)
        show "at_hop rows opts S e [] w'"
          using at' True unfolding at_hop_def same by simp
        show "ball rows (xo_kinds opts) (e + Suc d) S = ball rows (xo_kinds opts) e S" by (rule ball_stable [OF same]) simp
      qed
      then show ?thesis using step False True w'(2,3) by simp
    next
      case more_left: False
      obtain rest where ih: "hop_result rows opts S (Suc e) (Suc e + d) (walk_hops rows opts d added w')"
        "walk_hops rows opts d added w' = wk_result w' @ rest"
        using Suc(1) [OF at'] by blast
      have "set (take (card (?ball k - S)) (wk_result w' @ rest)) \<subseteq> ?ball k - S" if "e \<le> k" for k
      proof (cases "k = e")
        case True
        then show ?thesis using first hop(4) by simp
      next
        case False
        then show ?thesis using ih that unfolding hop_result_def Let_def by simp
      qed
      then have "hop_result rows opts S e (e + Suc d) (wk_result w' @ rest)"
        using ih unfolding hop_result_def Let_def by simp
      then show ?thesis using step False more_left w'(2,3) ih(2) by simp
    qed
  qed
qed

end
