(* ===== verification/Memory_Clusters.thy ===== *)
theory Memory_Clusters
  imports Link_Store "HOL-Library.List_Lexorder" "HOL-Library.Char_ord"
begin

text \<open>
  The clusters a consolidation run distils (src/memory/consolidator/clustering.ts): the connected components of
  the link graph over the candidates, trimmed to the tag most of them carry. Of a memory only its id and
  its tags count; tags are compared by character code.
\<close>

record memory_entry =
  me_id :: int
  me_tags :: "string list"

record clustering_options =
  co_minClusterSize :: nat
  co_requireSharedTag :: bool
  co_maxClusters :: int

record memory_cluster =
  mc_members :: "int list"
  mc_sharedTags :: "string list"

section \<open>The graph\<close>

type_synonym adjacency = "(int, int list) jsmap"

definition neighbours :: "adjacency \<Rightarrow> int \<Rightarrow> int list" where
  "neighbours adj x = (case jm_get adj x of None \<Rightarrow> [] | Some ys \<Rightarrow> ys)"

definition add_neighbour :: "int \<Rightarrow> int \<Rightarrow> adjacency \<Rightarrow> adjacency" where
  "add_neighbour x y adj = jm_set x (js_add y (neighbours adj x)) adj"

text \<open>The edges of one node: the far ends inside the candidate set, in both directions.\<close>

definition add_edges :: "int list \<Rightarrow> int \<Rightarrow> int list \<Rightarrow> adjacency \<Rightarrow> adjacency" where
  "add_edges ids x ends adj =
     fold (\<lambda>y adj. if y \<notin> set ids then adj else add_neighbour y x (add_neighbour x y adj)) ends adj"

definition build_adjacency :: "link_row list \<Rightarrow> int list \<Rightarrow> adjacency" where
  "build_adjacency rows ids =
     fold (\<lambda>x adj. add_edges ids x (map lr_from (listIncoming rows x None)) (add_edges ids x (map lr_to (listOutgoing rows x None)) adj))
       ids (map (\<lambda>x. (x, [])) ids)"

section \<open>One component\<close>

fun visit_neighbours :: "int list \<Rightarrow> int list \<Rightarrow> int list \<times> int list" where
  "visit_neighbours [] visited = ([], visited)"
| "visit_neighbours (x # xs) visited =
     (if x \<in> set visited then visit_neighbours xs visited
      else case visit_neighbours xs (visited @ [x]) of (added, visited') \<Rightarrow> (x # added, visited'))"

lemma visit_neighbours_spec:
  "visit_neighbours xs visited = (added, visited') \<Longrightarrow>
     visited' = visited @ added \<and> distinct added \<and> set added = set xs - set visited"
proof (induction xs arbitrary: visited added visited')
  case (Cons x xs)
  show ?case
  proof (cases "x \<in> set visited")
    case True
    then show ?thesis using Cons(1) [of visited added visited'] Cons(2) by auto
  next
    case False
    obtain added1 where rec: "visit_neighbours xs (visited @ [x]) = (added1, visited')" and added: "added = x # added1"
      using False Cons(2) by (auto split: prod.splits)
    show ?thesis using Cons(1) [OF rec] False by (auto simp: added)
  qed
qed simp

definition all_ends :: "adjacency \<Rightarrow> int set" where
  "all_ends adj = (\<Union>(k, ys) \<in> set adj. set ys)"

lemma neighbours_ends: "set (neighbours adj x) \<subseteq> all_ends adj" "finite (all_ends adj)"
proof -
  show "set (neighbours adj x) \<subseteq> all_ends adj"
  proof (cases "jm_get adj x")
    case (Some ys)
    then have "(x, ys) \<in> set adj" by (rule jm_get_Some_in)
    then show ?thesis using Some by (auto simp: neighbours_def all_ends_def)
  qed (simp add: neighbours_def)
  show "finite (all_ends adj)" by (auto simp: all_ends_def)
qed

text \<open>\<open>bfsCc\<close> from a queue: the nodes taken off it in order, and what is visited at the end.\<close>

function bfs_loop :: "adjacency \<Rightarrow> int list \<Rightarrow> int list \<Rightarrow> int list \<times> int list" where
  "bfs_loop adj [] visited = ([], visited)"
| "bfs_loop adj (node # queue) visited =
     (case visit_neighbours (neighbours adj node) visited of
        (added, visited') \<Rightarrow>
          (case bfs_loop adj (queue @ added) visited' of (result, visited'') \<Rightarrow> (node # result, visited'')))"
  by pat_completeness auto
termination
proof (relation "measure (\<lambda>(adj, queue, visited). 2 * card (all_ends adj - set visited) + length queue)")
  fix adj :: adjacency and node :: int and queue visited added visited' :: "int list"
  assume eq: "(added, visited') = visit_neighbours (neighbours adj node) visited"
  then have v: "visited' = visited @ added" "distinct added" "set added = set (neighbours adj node) - set visited"
    using visit_neighbours_spec [of "neighbours adj node" visited added visited'] by simp_all
  then have sub: "set added \<subseteq> all_ends adj - set visited" using neighbours_ends(1) [of adj node] by blast
  have fin: "finite (all_ends adj - set visited)" using neighbours_ends(2) by simp
  have "all_ends adj - set visited' = (all_ends adj - set visited) - set added" using v(1) by auto
  then have "card (all_ends adj - set visited') = card (all_ends adj - set visited) - length added"
    using card_Diff_subset [of "set added" "all_ends adj - set visited"] sub distinct_card [OF v(2)] by simp
  moreover have "length added \<le> card (all_ends adj - set visited)"
    using card_mono [OF fin sub] distinct_card [OF v(2)] by simp
  ultimately show "((adj, queue @ added, visited'), (adj, node # queue, visited))
      \<in> measure (\<lambda>(adj, queue, visited). 2 * card (all_ends adj - set visited) + length queue)"
    by simp
qed simp

definition bfsCc :: "int \<Rightarrow> adjacency \<Rightarrow> int list \<Rightarrow> int list \<times> int list" where
  "bfsCc seed adj visited = bfs_loop adj [seed] (js_add seed visited)"

section \<open>The tag most members carry\<close>

definition tags_of :: "memory_entry list \<Rightarrow> int \<Rightarrow> string list option" where
  "tags_of cands i = map_option me_tags (find (\<lambda>e. me_id e = i) (rev cands))"

definition count_tag :: "string \<Rightarrow> (string, nat) jsmap \<Rightarrow> (string, nat) jsmap" where
  "count_tag tag counts = jm_set tag ((case jm_get counts tag of None \<Rightarrow> 0 | Some n \<Rightarrow> n) + 1) counts"

definition tag_counts :: "memory_entry list \<Rightarrow> int list \<Rightarrow> (string, nat) jsmap" where
  "tag_counts cands ids =
     fold (\<lambda>i counts. case tags_of cands i of None \<Rightarrow> counts | Some tags \<Rightarrow> fold count_tag tags counts) ids []"

fun best_tag :: "(string, nat) jsmap \<Rightarrow> string list \<Rightarrow> string \<Rightarrow> nat \<Rightarrow> string" where
  "best_tag counts [] best n = best"
| "best_tag counts (t # ts) best n =
     (let c = (case jm_get counts t of None \<Rightarrow> 0 | Some c \<Rightarrow> c)
      in if n < c then best_tag counts ts t c else best_tag counts ts best n)"

definition carries :: "memory_entry list \<Rightarrow> string \<Rightarrow> int \<Rightarrow> bool" where
  "carries cands tag i = (case tags_of cands i of None \<Rightarrow> False | Some tags \<Rightarrow> tag \<in> set tags)"

definition trimByMajorityTag :: "memory_entry list \<Rightarrow> int list \<Rightarrow> memory_cluster" where
  "trimByMajorityTag cands ids =
     (let counts = tag_counts cands ids
      in if counts = [] then \<lparr>mc_members = [], mc_sharedTags = []\<rparr>
         else (let best = best_tag counts (sort (jm_keys counts)) [] 0
               in \<lparr>mc_members = sort (filter (carries cands best) ids), mc_sharedTags = (if best \<noteq> [] then [best] else [])\<rparr>))"

section \<open>All clusters\<close>

definition cluster_of :: "memory_entry list \<Rightarrow> bool \<Rightarrow> nat \<Rightarrow> int list \<Rightarrow> memory_cluster list" where
  "cluster_of cands shared minSize component =
     (if length component < minSize then []
      else if \<not> shared then [\<lparr>mc_members = sort component, mc_sharedTags = []\<rparr>]
      else (let trimmed = trimByMajorityTag cands component in if length (mc_members trimmed) < minSize then [] else [trimmed]))"

fun seeds_loop :: "adjacency \<Rightarrow> (int list \<Rightarrow> memory_cluster list) \<Rightarrow> int list \<Rightarrow> int list \<Rightarrow> memory_cluster list" where
  "seeds_loop adj keep [] visited = []"
| "seeds_loop adj keep (seed # seeds) visited =
     (if seed \<in> set visited then seeds_loop adj keep seeds visited
      else case bfsCc seed adj visited of (component, visited') \<Rightarrow> keep component @ seeds_loop adj keep seeds visited')"

definition candidate_ids :: "memory_entry list \<Rightarrow> int list" where
  "candidate_ids cands = fold js_add (map me_id cands) []"

definition clusterEpisodes :: "link_row list \<Rightarrow> memory_entry list \<Rightarrow> clustering_options \<Rightarrow> memory_cluster list" where
  "clusterEpisodes rows cands opts =
     (if cands = [] \<or> co_maxClusters opts \<le> 0 then []
      else (let ids = candidate_ids cands;
                clusters = seeds_loop (build_adjacency rows ids)
                  (cluster_of cands (co_requireSharedTag opts) (max 2 (co_minClusterSize opts))) (sort ids) []
            in take (nat (co_maxClusters opts)) (sort_key (\<lambda>c. hd (mc_members c)) clusters)))"

section \<open>The adjacency is the links between candidates\<close>

lemma neighbours_add: "set (neighbours (add_neighbour a b adj) x) = set (neighbours adj x) \<union> (if x = a then {b} else {})"
proof (cases "x = a")
  case True
  have "jm_get (add_neighbour a b adj) a = Some (js_add b (neighbours adj a))" by (simp add: add_neighbour_def)
  then show ?thesis using True by (simp add: neighbours_def [of "add_neighbour a b adj"])
next
  case False
  have "jm_get (add_neighbour a b adj) x = jm_get adj x" using False by (simp add: add_neighbour_def)
  then have "neighbours (add_neighbour a b adj) x = neighbours adj x" unfolding neighbours_def by (rule arg_cong)
  then show ?thesis using False by simp
qed

lemma neighbours_add_edges:
  "y \<in> set (neighbours (add_edges ids a ends adj) x) \<longleftrightarrow>
     y \<in> set (neighbours adj x) \<or> (x = a \<and> y \<in> set ends \<inter> set ids) \<or> (y = a \<and> x \<in> set ends \<inter> set ids)"
  unfolding add_edges_def by (induction ends arbitrary: adj) (auto simp: neighbours_add split: if_splits)

lemma neighbours_build:
  "y \<in> set (neighbours (build_adjacency rows ids) x) \<longleftrightarrow> x \<in> set ids \<and> y \<in> set ids \<and> linked rows None x y"
proof -
  define step where "step = (\<lambda>x adj. add_edges ids x (map lr_from (listIncoming rows x None)) (add_edges ids x (map lr_to (listOutgoing rows x None)) adj))"
  have ends: "z \<in> lr_to ` set (listOutgoing rows a None) \<or> z \<in> lr_from ` set (listIncoming rows a None) \<longleftrightarrow> linked rows None a z" for a z
    using linked_ends [of rows a None] by auto
  have one: "y \<in> set (neighbours (step a adj) x) \<longleftrightarrow> y \<in> set (neighbours adj x) \<or>
      (x = a \<and> y \<in> set ids \<and> linked rows None a y) \<or> (y = a \<and> x \<in> set ids \<and> linked rows None a x)" for a adj
    using ends [of y a] ends [of x a] by (auto simp: step_def neighbours_add_edges)
  have "y \<in> set (neighbours (fold step xs adj) x) \<longleftrightarrow> y \<in> set (neighbours adj x) \<or>
      (x \<in> set xs \<and> y \<in> set ids \<and> linked rows None x y) \<or> (y \<in> set xs \<and> x \<in> set ids \<and> linked rows None y x)" for xs adj
  proof (induction xs arbitrary: adj)
    case (Cons a xs)
    show ?case using Cons [of "step a adj"] one [of a adj] by (simp only: fold_Cons_rev fold.simps comp_apply list.set insert_iff) blast
  qed simp
  moreover have "neighbours (map (\<lambda>x. (x, [])) ids) x = []"
    by (simp add: neighbours_def jm_get_map_of map_of_map_restrict split: option.splits) (auto simp: restrict_map_def)
  ultimately show ?thesis
    unfolding build_adjacency_def step_def [symmetric] using linked_sym [of rows None x y] by simp blast
qed

lemma candidate_ids_spec: "set (candidate_ids cands) = me_id ` set cands" "distinct (candidate_ids cands)"
proof -
  have "set (fold js_add xs ys) = set xs \<union> set ys \<and> (distinct ys \<longrightarrow> distinct (fold js_add xs ys))" for xs ys :: "int list"
    by (induction xs arbitrary: ys) auto
  then show "set (candidate_ids cands) = me_id ` set cands" "distinct (candidate_ids cands)"
    by (auto simp: candidate_ids_def)
qed

end
