(* ===== verification/Cluster_Components.thy ===== *)
theory Cluster_Components
  imports Memory_Clusters
begin

text \<open>What the search visits: connected components, each once, in the order of their least ids.\<close>

section \<open>The search\<close>

definition edges :: "adjacency \<Rightarrow> (int \<times> int) set" where
  "edges adj = {(x, y). y \<in> set (neighbours adj x)}"

definition closed_under :: "adjacency \<Rightarrow> int set \<Rightarrow> bool" where
  "closed_under adj V \<longleftrightarrow> (\<forall>x \<in> V. set (neighbours adj x) \<subseteq> V)"

lemma closed_reach:
  assumes "closed_under adj V" and "(x, y) \<in> (edges adj)\<^sup>*" and "x \<in> V"
  shows "y \<in> V"
  using assms(2,3) by (induction rule: rtrancl_induct) (use assms(1) in \<open>auto simp: closed_under_def edges_def\<close>)

definition searched :: "adjacency \<Rightarrow> int list \<Rightarrow> int list \<Rightarrow> int list \<Rightarrow> int list \<Rightarrow> bool" where
  "searched adj queue visited result visited' \<longleftrightarrow>
     distinct result \<and> set visited \<subseteq> set visited' \<and> set result = set queue \<union> (set visited' - set visited) \<and>
     closed_under adj (set visited') \<and> set visited' \<subseteq> set visited \<union> (edges adj)\<^sup>* `` set queue"

lemma bfs_loop_spec:
  "bfs_loop adj queue visited = (result, visited') \<Longrightarrow> set queue \<subseteq> set visited \<Longrightarrow> distinct queue \<Longrightarrow>
     \<forall>x \<in> set visited - set queue. set (neighbours adj x) \<subseteq> set visited \<Longrightarrow> searched adj queue visited result visited'"
proof (induction adj queue visited arbitrary: result visited' rule: bfs_loop.induct)
  case (1 adj visited)
  then show ?case by (auto simp: searched_def closed_under_def)
next
  case (2 adj node queue visited)
  obtain added visited1 where vis: "visit_neighbours (neighbours adj node) visited = (added, visited1)" by fastforce
  obtain result1 where rec: "bfs_loop adj (queue @ added) visited1 = (result1, visited')" and result: "result = node # result1"
    using 2(2) vis by (auto split: prod.splits)
  have v: "visited1 = visited @ added" "distinct added" "set added = set (neighbours adj node) - set visited"
    using visit_neighbours_spec [OF vis] by simp_all
  have "searched adj (queue @ added) visited1 result1 visited'"
  proof (rule 2(1) [OF vis [symmetric] rec])
    show "set (queue @ added) \<subseteq> set visited1" "distinct (queue @ added)" using 2(3,4) v by auto
    show "\<forall>x \<in> set visited1 - set (queue @ added). set (neighbours adj x) \<subseteq> set visited1"
    proof
      fix x assume x: "x \<in> set visited1 - set (queue @ added)"
      show "set (neighbours adj x) \<subseteq> set visited1"
      proof (cases "x = node")
        case False
        then have "x \<in> set visited - set (node # queue)" using x v(1) by auto
        then have "set (neighbours adj x) \<subseteq> set visited" using 2(5) by blast
        then show ?thesis using v(1) by auto
      qed (use v in auto)
    qed
  qed
  then have ih: "distinct result1" "set visited1 \<subseteq> set visited'" "set result1 = set (queue @ added) \<union> (set visited' - set visited1)"
    "closed_under adj (set visited')" "set visited' \<subseteq> set visited1 \<union> (edges adj)\<^sup>* `` set (queue @ added)"
    by (auto simp: searched_def)
  have "node \<notin> set result1" using ih(3) 2(3,4) v by auto
  moreover have "set result = set (node # queue) \<union> (set visited' - set visited)"
    using ih(2,3) v(1,3) by (auto simp: result)
  moreover have "set visited' \<subseteq> set visited \<union> (edges adj)\<^sup>* `` set (node # queue)"
  proof -
    have one: "(node, a) \<in> edges adj" if "a \<in> set added" for a using that v(3) by (simp add: edges_def)
    then have "(node, y) \<in> (edges adj)\<^sup>*" if "a \<in> set added" "(a, y) \<in> (edges adj)\<^sup>*" for a y
      using that by (meson converse_rtrancl_into_rtrancl)
    then have "(edges adj)\<^sup>* `` set (queue @ added) \<subseteq> (edges adj)\<^sup>* `` set (node # queue)" by auto
    moreover have "set added \<subseteq> (edges adj)\<^sup>* `` set (node # queue)" using one by auto
    moreover have "set visited' \<subseteq> set visited \<union> set added \<union> (edges adj)\<^sup>* `` set (queue @ added)" using ih(5) v(1) by simp
    ultimately show ?thesis by blast
  qed
  ultimately show ?case using ih v(1) by (auto simp: searched_def result)
qed

definition component_of :: "adjacency \<Rightarrow> int \<Rightarrow> int set" where
  "component_of adj i = (edges adj)\<^sup>* `` {i}"

lemma component_same: "sym (edges adj) \<Longrightarrow> j \<in> component_of adj i \<Longrightarrow> component_of adj j = component_of adj i"
proof -
  assume "sym (edges adj)" and j: "j \<in> component_of adj i"
  then have "(j, i) \<in> (edges adj)\<^sup>*" by (auto simp: component_of_def dest: sym_rtrancl [THEN symD])
  then show ?thesis using j by (auto simp: component_of_def)
qed

lemma bfsCc_spec:
  assumes bfs: "bfsCc seed adj visited = (component, visited')" and new: "seed \<notin> set visited"
    and closed: "closed_under adj (set visited)" and sym: "sym (edges adj)"
  shows "distinct component" and "set component = component_of adj seed"
    and "set visited' = set visited \<union> component_of adj seed" and "closed_under adj (set visited')"
    and "component_of adj seed \<inter> set visited = {}"
proof -
  have "searched adj [seed] (js_add seed visited) component visited'"
    using bfs closed by (intro bfs_loop_spec) (auto simp: bfsCc_def js_add_def closed_under_def)
  then have s: "distinct component" "set component = {seed} \<union> (set visited' - insert seed (set visited))"
    "insert seed (set visited) \<subseteq> set visited'"
    "closed_under adj (set visited')" "set visited' \<subseteq> insert seed (set visited) \<union> component_of adj seed"
    by (auto simp: searched_def component_of_def)
  show disjoint: "component_of adj seed \<inter> set visited = {}"
  proof (rule ccontr)
    assume "component_of adj seed \<inter> set visited \<noteq> {}"
    then obtain y where y: "(seed, y) \<in> (edges adj)\<^sup>*" "y \<in> set visited" by (auto simp: component_of_def)
    then have "(y, seed) \<in> (edges adj)\<^sup>*" using sym by (auto dest: sym_rtrancl [THEN symD])
    then show False using closed_reach [OF closed _ y(2)] new by blast
  qed
  have "component_of adj seed \<subseteq> set visited'" using closed_reach [OF s(4)] s(3) by (auto simp: component_of_def)
  moreover have "seed \<in> component_of adj seed" by (simp add: component_of_def)
  ultimately show "set component = component_of adj seed" "set visited' = set visited \<union> component_of adj seed"
    using s(2,3,5) disjoint by auto
  show "distinct component" "closed_under adj (set visited')" by fact+
qed

section \<open>All seeds\<close>

lemma seeds_loop_spec:
  assumes sym: "sym (edges adj)" and inside: "edges adj \<subseteq> A \<times> A"
    and keep: "\<And>R. distinct R \<Longrightarrow> keep R = keep' (set R)"
  shows "sorted seeds \<Longrightarrow> distinct seeds \<Longrightarrow> closed_under adj (set visited) \<Longrightarrow> A \<subseteq> set seeds \<union> set visited \<Longrightarrow> set seeds \<subseteq> A \<Longrightarrow>
    seeds_loop adj keep seeds visited =
      concat (map (\<lambda>i. keep' (component_of adj i)) (filter (\<lambda>i. i \<notin> set visited \<and> i = Min (component_of adj i)) seeds))"
proof (induction seeds arbitrary: visited)
  case (Cons seed seeds)
  show ?case
  proof (cases "seed \<in> set visited")
    case True
    then show ?thesis using Cons by auto
  next
    case False
    obtain component visited' where bfs: "bfsCc seed adj visited = (component, visited')" by fastforce
    note c = bfsCc_spec [OF bfs False Cons(4) sym]
    have in_A: "component_of adj seed \<subseteq> A"
    proof
      fix y assume "y \<in> component_of adj seed"
      then have "(seed, y) \<in> (edges adj)\<^sup>*" by (simp add: component_of_def)
      then show "y \<in> A" by (rule rtranclE) (use inside Cons(6) in auto)
    qed
    have least: "seed \<le> y" if "y \<in> component_of adj seed" for y
      using that in_A c(5) Cons(2,5) by auto
    have self: "seed \<in> component_of adj seed" by (simp add: component_of_def)
    have "finite (component_of adj seed)" using c(2) by (metis finite_set)
    then have min: "Min (component_of adj seed) = seed" using least self by (intro Min_eqI) auto
    have "i \<notin> set visited' \<and> i = Min (component_of adj i) \<longleftrightarrow> i \<notin> set visited \<and> i = Min (component_of adj i)" if "i \<in> set seeds" for i
    proof (cases "i \<in> component_of adj seed")
      case True
      then have "Min (component_of adj i) = seed" using component_same [OF sym True] min by simp
      then show ?thesis using that Cons(3) by auto
    qed (use c(3) in auto)
    then have "filter (\<lambda>i. i \<notin> set visited' \<and> i = Min (component_of adj i)) seeds =
        filter (\<lambda>i. i \<notin> set visited \<and> i = Min (component_of adj i)) seeds" by (rule filter_cong [OF refl])
    moreover have "seeds_loop adj keep seeds visited' =
        concat (map (\<lambda>i. keep' (component_of adj i)) (filter (\<lambda>i. i \<notin> set visited' \<and> i = Min (component_of adj i)) seeds))"
      using Cons c(3,4) self by (intro Cons(1)) auto
    ultimately show ?thesis using False bfs keep [OF c(1)] c(2) min by simp
  qed
qed simp

text \<open>Every component the loop keeps something of, whatever is kept.\<close>

lemma seeds_loop_from:
  assumes sym: "sym (edges adj)"
  shows "closed_under adj (set visited) \<Longrightarrow> c \<in> set (seeds_loop adj keep seeds visited) \<Longrightarrow>
    \<exists>i \<in> set seeds. \<exists>R. distinct R \<and> set R = component_of adj i \<and> c \<in> set (keep R)"
proof (induction seeds arbitrary: visited)
  case (Cons seed seeds)
  show ?case
  proof (cases "seed \<in> set visited")
    case False
    obtain component visited' where bfs: "bfsCc seed adj visited = (component, visited')" by fastforce
    note c = bfsCc_spec [OF bfs False Cons(2) sym]
    consider "c \<in> set (keep component)" | "c \<in> set (seeds_loop adj keep seeds visited')"
      using Cons(3) False bfs by auto
    then show ?thesis
    proof cases
      case 1
      then show ?thesis using c(1,2) by auto
    next
      case 2
      then show ?thesis using Cons(1) [OF c(4)] by auto
    qed
  qed (use Cons in auto)
qed simp

section \<open>Candidates\<close>

definition link_component :: "link_row list \<Rightarrow> int set \<Rightarrow> int \<Rightarrow> int set" where
  "link_component rows A i = {(x, y). x \<in> A \<and> y \<in> A \<and> linked rows None x y}\<^sup>* `` {i}"

lemma candidate_edges:
  "edges (build_adjacency rows ids) = {(x, y). x \<in> set ids \<and> y \<in> set ids \<and> linked rows None x y}"
  by (auto simp: edges_def neighbours_build)

lemma candidate_component: "component_of (build_adjacency rows ids) i = link_component rows (set ids) i"
  by (simp add: component_of_def link_component_def candidate_edges)

lemma candidate_sym: "sym (edges (build_adjacency rows ids))"
  by (auto simp: candidate_edges sym_def linked_sym)

lemma component_inside: "i \<in> A \<Longrightarrow> link_component rows A i \<subseteq> A"
  by (auto simp: link_component_def elim: rtranclE)

lemma component_min:
  assumes "finite A" and "i \<in> A"
  shows "finite (link_component rows A i)" and "link_component rows A i \<noteq> {}"
  using component_inside [OF assms(2)] assms(1) by (auto simp: link_component_def intro: finite_subset)

section \<open>The majority tag\<close>

definition tag_weight :: "memory_entry list \<Rightarrow> string \<Rightarrow> int \<Rightarrow> nat" where
  "tag_weight cands t i = (case tags_of cands i of None \<Rightarrow> 0 | Some tags \<Rightarrow> count_list tags t)"

definition or_none :: "nat \<Rightarrow> nat option" where
  "or_none n = (if n = 0 then None else Some n)"

lemma count_tags:
  "(\<And>t. jm_get counts t = or_none (f t)) \<Longrightarrow> jm_get (fold count_tag tags counts) t = or_none (f t + count_list tags t)"
proof (induction tags arbitrary: counts f)
  case (Cons x tags)
  have "jm_get (count_tag x counts) t = or_none (f t + (if x = t then 1 else 0))" for t
    using Cons(2) by (auto simp: count_tag_def or_none_def)
  from Cons(1) [OF this] show ?case by (simp add: add.assoc)
qed simp

lemma tag_counts_get: "jm_get (tag_counts cands ids) t = or_none (sum_list (map (tag_weight cands t) ids))"
proof -
  define step where "step = (\<lambda>i counts. case tags_of cands i of None \<Rightarrow> counts | Some tags \<Rightarrow> fold count_tag tags counts)"
  have one: "jm_get (step i counts) t = or_none (f t + tag_weight cands t i)" if "\<And>t. jm_get counts t = or_none (f t)" for i counts f t
    using that count_tags [of counts f] by (simp add: step_def tag_weight_def split: option.splits)
  have "jm_get (fold step ids counts) t = or_none (f t + sum_list (map (tag_weight cands t) ids))"
    if "\<And>t. jm_get counts t = or_none (f t)" for counts f
    using that
  proof (induction ids arbitrary: counts f)
    case (Cons i ids)
    show ?case using Cons(1) [OF one [OF Cons(2)]] by (simp add: add.assoc)
  qed simp
  from this [of "[]" "\<lambda>_. 0"] show ?thesis by (simp add: tag_counts_def step_def or_none_def)
qed

lemma best_tag_spec:
  fixes counts :: "(string, nat) jsmap"
  defines "c \<equiv> \<lambda>t. case jm_get counts t of None \<Rightarrow> 0 | Some n \<Rightarrow> n"
  shows "best_tag counts ts best n = r \<Longrightarrow> (r = best \<and> (\<forall>t \<in> set ts. c t \<le> n)) \<or> (r \<in> set ts \<and> n < c r \<and> (\<forall>t \<in> set ts. c t \<le> c r))"
proof (induction ts arbitrary: best n)
  case (Cons t ts)
  show ?case
  proof (cases "n < c t")
    case True
    then have "best_tag counts ts t (c t) = r" using Cons(2) by (simp add: c_def Let_def)
    from Cons(1) [OF this] show ?thesis using True by auto
  next
    case False
    then have "best_tag counts ts best n = r" using Cons(2) by (simp add: c_def Let_def)
    from Cons(1) [OF this] show ?thesis using False by auto
  qed
qed simp

lemma majority_tag:
  assumes "tag_counts cands ids \<noteq> []" and "r = best_tag (tag_counts cands ids) (sort (jm_keys (tag_counts cands ids))) [] 0"
  shows "sum_list (map (tag_weight cands t) ids) \<le> sum_list (map (tag_weight cands r) ids)"
proof -
  let ?counts = "tag_counts cands ids" and ?w = "\<lambda>t. sum_list (map (tag_weight cands t) ids)"
  have c: "(case jm_get ?counts t of None \<Rightarrow> 0 | Some n \<Rightarrow> n) = ?w t" for t by (simp add: tag_counts_get or_none_def)
  have keys: "t \<in> set (jm_keys ?counts) \<longleftrightarrow> ?w t \<noteq> 0" for t
    using jm_get_None_iff [of ?counts t] by (auto simp: jm_keys_def tag_counts_get or_none_def split: if_splits)
  obtain t0 where "t0 \<in> set (jm_keys ?counts)" using assms(1) by (cases ?counts) (auto simp: jm_keys_def)
  then have "?w t0 \<noteq> 0" "t0 \<in> set (sort (jm_keys ?counts))" using keys by simp_all
  then have "\<forall>t \<in> set (sort (jm_keys ?counts)). ?w t \<le> ?w r"
    using best_tag_spec [OF assms(2) [symmetric]] unfolding c by (metis le_zero_eq)
  then show ?thesis using keys [of t] by (metis le0 set_sort)
qed

end
