(* ===== verification/Memory_Properties.thy ===== *)
theory Memory_Properties
  imports Link_Walk Cluster_Components
begin

text \<open>The graph of memories: what recall reaches over the links, and what a consolidation run groups together.\<close>

section \<open>The walk\<close>

text \<open>C34: Recall reaches the neighbourhood it is allowed to, nearest first. The walk over the links from the seeds
  returns, without repetition and without the seeds, only memories within the allowed number of hops
  over links of the allowed kinds taken in either direction; it returns all of them when the cap leaves
  room and exactly as many as the cap otherwise, and for every number of hops the memories that near
  come before all others.\<close>

theorem expand_is_bounded_neighbourhood:
  "let near = \<lambda>k. ball rows (xo_kinds opts) k (set seeds) - set seeds; r = expand_links rows seeds opts
   in distinct r \<and> set r \<subseteq> near (walk_depth opts) \<and> length r = min (walk_cap opts) (card (near (walk_depth opts))) \<and>
      (\<forall>k. set (take (card (near k)) r) \<subseteq> near k)"
proof (cases "seeds = []")
  case True
  have "ball rows (xo_kinds opts) k {} = {}" for k by (induction k) (simp_all add: ball.simps)
  then show ?thesis using True by (simp add: expand_links_def)
next
  case False
  let ?w = "\<lparr>wk_seen = remdups seeds, wk_result = [], wk_next = []\<rparr>"
  have "at_hop rows opts (set seeds) 0 seeds ?w"
    by (auto simp: at_hop_def walk_cap_def)
  from walk_hops_spec [OF finite_set this, of "walk_depth opts"]
  have "hop_result rows opts (set seeds) 0 (walk_depth opts) (walk_hops rows opts (walk_depth opts) seeds ?w)" by simp
  then show ?thesis using False by (simp add: expand_links_def hop_result_def Let_def)
qed

text \<open>The table the walk reads stays sound: no link to itself, no two rows of one key, weights in the unit interval.\<close>

lemma link_table_stays_sound:
  "distinct (map link_key (fold (link_step known) ops [])) \<and>
   (\<forall>r \<in> set (fold (link_step known) ops []). lr_from r \<noteq> lr_to r \<and> 0 \<le> lr_weight r \<and> lr_weight r \<le> 1)"
proof -
  have "links_ok (fold (link_step known) ops [])" by (rule links_ok_run) (simp add: links_ok_def)
  then show ?thesis by (auto simp: links_ok_def list_all_iff link_ok_def)
qed

section \<open>Clusters\<close>

text \<open>C35: Without the tag filter the clusters are the connected components. The members of the clusters are, in this
  order, the connected components of the link graph over the candidates that have at least two members
  and at least the configured number, each listed in ascending order, the components in the order of
  their least ids, cut after the configured number of clusters; a link counts in both directions, and a
  path may not leave the candidates.\<close>

theorem clusters_are_components:
  "map mc_members (clusterEpisodes rows cands (opts\<lparr>co_requireSharedTag := False\<rparr>)) =
   (let A = me_id ` set cands
    in take (nat (co_maxClusters opts)) (filter (\<lambda>c. max 2 (co_minClusterSize opts) \<le> length c)
         (map (\<lambda>i. sorted_list_of_set (link_component rows A i))
           (filter (\<lambda>i. i = Min (link_component rows A i)) (sorted_list_of_set A)))))"
proof -
  define A where "A = me_id ` set cands"
  define adj where "adj = build_adjacency rows (candidate_ids cands)"
  let ?min = "max 2 (co_minClusterSize opts)" and ?n = "nat (co_maxClusters opts)" and ?C = "link_component rows A"
  define seeds where "seeds = filter (\<lambda>i. i = Min (?C i)) (sorted_list_of_set A)"
  define keep where "keep = (\<lambda>S. if card S < ?min then [] else [\<lparr>mc_members = sorted_list_of_set S, mc_sharedTags = []\<rparr>])"
  have ids: "set (candidate_ids cands) = A" "sort (candidate_ids cands) = sorted_list_of_set A"
    using candidate_ids_spec [of cands] by (simp_all add: A_def sorted_list_of_set_sort_remdups distinct_remdups_id flip: candidate_ids_spec(1) [of cands])
  have fin: "finite A" by (simp add: A_def)
  have comp: "component_of adj i = ?C i" for i using candidate_component [of rows "candidate_ids cands" i] by (simp add: adj_def ids)
  have "seeds_loop adj (cluster_of cands False ?min) (sorted_list_of_set A) [] =
      concat (map (\<lambda>i. keep (component_of adj i)) (filter (\<lambda>i. i \<notin> set [] \<and> i = Min (component_of adj i)) (sorted_list_of_set A)))"
  proof (rule seeds_loop_spec [of _ A])
    show "sym (edges adj)" by (simp add: adj_def candidate_sym)
    show "edges adj \<subseteq> A \<times> A" by (auto simp: adj_def candidate_edges ids)
    show "cluster_of cands False ?min R = keep (set R)" if "distinct R" for R
      using that by (simp add: cluster_of_def keep_def distinct_card sorted_list_of_set_sort_remdups distinct_remdups_id)
  qed (use fin in \<open>auto simp: closed_under_def\<close>)
  then have loop: "seeds_loop adj (cluster_of cands False ?min) (sorted_list_of_set A) [] = concat (map (\<lambda>i. keep (?C i)) seeds)"
    by (simp add: comp seeds_def)
  have kept: "concat (map (\<lambda>i. keep (?C i)) is) = map (\<lambda>i. \<lparr>mc_members = sorted_list_of_set (?C i), mc_sharedTags = []\<rparr>)
      (filter (\<lambda>i. ?min \<le> card (?C i)) is)" for "is"
    by (induction "is") (auto simp: keep_def)
  have first: "hd (sorted_list_of_set (?C i)) = i" if "i \<in> set seeds" for i
    using that component_min [OF fin, of i rows] by (auto simp: seeds_def sorted_list_of_set_nonempty fin)
  have in_order: "sort_key (\<lambda>c. hd (mc_members c)) (concat (map (\<lambda>i. keep (?C i)) seeds)) = concat (map (\<lambda>i. keep (?C i)) seeds)"
  proof (rule sort_key_id_if_sorted)
    have "map (\<lambda>c. hd (mc_members c)) (concat (map (\<lambda>i. keep (?C i)) seeds)) = filter (\<lambda>i. ?min \<le> card (?C i)) seeds"
      using first by (auto simp: kept comp_def intro: map_idI)
    moreover have "sorted seeds" by (simp add: seeds_def sorted_filter [of id, simplified])
    ultimately show "sorted (map (\<lambda>c. hd (mc_members c)) (concat (map (\<lambda>i. keep (?C i)) seeds)))"
      by (simp add: sorted_filter [of id, simplified])
  qed
  have size: "filter (\<lambda>c. ?min \<le> length c) (map (\<lambda>i. sorted_list_of_set (?C i)) is) =
      map (\<lambda>i. sorted_list_of_set (?C i)) (filter (\<lambda>i. ?min \<le> card (?C i)) is)" for "is"
    by (induction "is") auto
  show ?thesis
  proof (cases "cands = [] \<or> co_maxClusters opts \<le> 0")
    case True
    then show ?thesis by (auto simp: clusterEpisodes_def)
  next
    case False
    then show ?thesis using size [of seeds]
      by (simp add: clusterEpisodes_def ids loop in_order flip: adj_def A_def seeds_def) (simp add: kept take_map comp_def)
  qed
qed

text \<open>C36: With the tag filter a cluster holds together by one tag. Its members are, in ascending order, exactly those
  memories of one connected component of the candidates that carry a certain tag; no tag occurs more
  often in that component; the cluster names the tag (unless it is the empty one) and has at least two
  members and at least the configured number.\<close>

theorem tagged_cluster_shares_majority_tag:
  assumes "c \<in> set (clusterEpisodes rows cands (opts\<lparr>co_requireSharedTag := True\<rparr>))"
  defines "A \<equiv> me_id ` set cands"
  shows "\<exists>i \<in> A. \<exists>tag. mc_members c = sorted_list_of_set {j \<in> link_component rows A i. carries cands tag j} \<and>
    (\<forall>t. (\<Sum>j \<in> link_component rows A i. tag_weight cands t j) \<le> (\<Sum>j \<in> link_component rows A i. tag_weight cands tag j)) \<and>
    mc_sharedTags c = (if tag = [] then [] else [tag]) \<and> max 2 (co_minClusterSize opts) \<le> length (mc_members c)"
proof -
  define adj where "adj = build_adjacency rows (candidate_ids cands)"
  let ?min = "max 2 (co_minClusterSize opts)"
  have ids: "set (candidate_ids cands) = A" by (simp add: A_def candidate_ids_spec)
  have "c \<in> set (seeds_loop adj (cluster_of cands True ?min) (sort (candidate_ids cands)) [])"
    using assms(1) by (auto simp: clusterEpisodes_def adj_def Let_def dest!: in_set_takeD split: if_splits)
  from seeds_loop_from [OF _ _ this] obtain i R where i: "i \<in> A" and R: "distinct R" "set R = component_of adj i"
    and c: "c \<in> set (cluster_of cands True ?min R)"
    by (auto simp: adj_def candidate_sym closed_under_def ids)
  have R': "set R = link_component rows A i" using R(2) candidate_component [of rows "candidate_ids cands" i] by (simp add: adj_def ids)
  have trim: "c = trimByMajorityTag cands R" "?min \<le> length (mc_members c)"
    using c by (auto simp: cluster_of_def Let_def split: if_splits)
  then have some: "tag_counts cands R \<noteq> []" by (auto simp: trimByMajorityTag_def Let_def split: if_splits)
  define tag where "tag = best_tag (tag_counts cands R) (sort (jm_keys (tag_counts cands R))) [] 0"
  have fields: "mc_members c = sort (filter (carries cands tag) R)" "mc_sharedTags c = (if tag = [] then [] else [tag])"
    using some trim(1) by (simp_all add: trimByMajorityTag_def Let_def tag_def)
  have "sort (filter (carries cands tag) R) = sorted_list_of_set (set (filter (carries cands tag) R))"
    unfolding sorted_list_of_set_sort_remdups using R(1) by (simp add: distinct_remdups_id)
  moreover have "(\<Sum>j \<in> set R. tag_weight cands t j) = sum_list (map (tag_weight cands t) R)" for t
    using R(1) by (simp add: sum_list_distinct_conv_sum_set)
  ultimately show ?thesis
    using majority_tag [OF some tag_def] fields trim(2) i by (intro bexI [of _ i] exI [of _ tag]) (simp_all flip: R')
qed

definition sample_rows :: "link_row list" where
  "sample_rows =
     [\<lparr>lr_from = 1, lr_to = 2, lr_kind = RelatesTo, lr_weight = 1, lr_at = 5\<rparr>,
      \<lparr>lr_from = 3, lr_to = 2, lr_kind = CausedBy, lr_weight = 1, lr_at = 6\<rparr>]"

definition sample_entries :: "memory_entry list" where
  "sample_entries =
     [\<lparr>me_id = 3, me_tags = [''b'']\<rparr>, \<lparr>me_id = 1, me_tags = [''a'', ''b'']\<rparr>, \<lparr>me_id = 2, me_tags = [''c'']\<rparr>]"

lemma sample_ids: "candidate_ids sample_entries = [3, 1, 2]" "sample_entries \<noteq> []"
  by (simp_all add: candidate_ids_def sample_entries_def js_add_def)

lemma sample_adjacency: "build_adjacency sample_rows [3, 1, 2] = [(3, [2]), (1, [2]), (2, [3, 1])]"
  by (simp add: build_adjacency_def sample_rows_def listOutgoing_def listIncoming_def by_rank_def of_kinds_def add_edges_def
      add_neighbour_def neighbours_def js_add_def jm)

lemma sample_trim: "trimByMajorityTag sample_entries [1, 2, 3] = \<lparr>mc_members = [1, 3], mc_sharedTags = [''b'']\<rparr>"
proof -
  have tags: "tags_of sample_entries 1 = Some [''a'', ''b'']" "tags_of sample_entries 2 = Some [''c'']" "tags_of sample_entries 3 = Some [''b'']"
    by (simp_all add: tags_of_def sample_entries_def)
  have counts: "tag_counts sample_entries [1, 2, 3] = [(''a'', 1), (''b'', 2), (''c'', 1)]"
    by (simp add: tag_counts_def tags count_tag_def jm)
  have "sorted [''a'', ''b'', ''c'']" by (simp add: less_eq_char_def)
  then have keys: "sort [''a'', ''b'', ''c''] = [''a'', ''b'', ''c'']" by (rule sorted_sort_id)
  show ?thesis by (simp add: trimByMajorityTag_def counts jm_keys_def keys jm carries_def tags)
qed

theorem tagged_cluster_shares_majority_tag_witness:
  "\<exists>i \<in> {1, 2, 3}. \<exists>tag. [1, 3] = sorted_list_of_set {j \<in> link_component sample_rows {1, 2, 3} i. carries sample_entries tag j} \<and>
    [''b''] = (if tag = [] then [] else [tag])"
proof -
  let ?opts = "\<lparr>co_minClusterSize = 2, co_requireSharedTag = False, co_maxClusters = 5\<rparr>"
  let ?c = "\<lparr>mc_members = [1, 3], mc_sharedTags = [''b'']\<rparr>"
  have run: "?c \<in> set (clusterEpisodes sample_rows sample_entries (?opts\<lparr>co_requireSharedTag := True\<rparr>))"
    using sample_adjacency sample_trim by (simp add: clusterEpisodes_def sample_ids bfsCc_def js_add_def neighbours_def jm cluster_of_def)
  have A: "me_id ` set sample_entries = {1, 2, 3}" by (auto simp: sample_entries_def)
  obtain i tag where "i \<in> {1, 2, 3}"
    "mc_members ?c = sorted_list_of_set {j \<in> link_component sample_rows {1, 2, 3} i. carries sample_entries tag j}"
    "mc_sharedTags ?c = (if tag = [] then [] else [tag])"
    using tagged_cluster_shares_majority_tag [OF run, unfolded A] by (elim bexE exE conjE) (rule that)
  then show ?thesis by (intro bexI [of _ i] exI [of _ tag]) simp_all
qed

end
