(* ===== verification/Json_Repair.thy ===== *)
theory Json_Repair
  imports Fingerprints
begin

text \<open>
  The mechanical repair of a tool call's JSON (src/llm/grammar/repair-tool-call-json.ts). \<open>JSON.parse\<close> is a
  parameter. Text is ASCII.
\<close>

definition DQUOTE :: char where
  "DQUOTE = CHR 0x22"

definition SQUOTE :: char where
  "SQUOTE = CHR 0x27"

definition ESCAPE :: char where
  "ESCAPE = CHR 0x5C"

definition LINE_FEED :: char where
  "LINE_FEED = CHR 0x0A"

definition RETURN :: char where
  "RETURN = CHR 0x0D"

definition TABULATOR :: char where
  "TABULATOR = CHR 0x09"

datatype json_fix = CodeFence | SingleQuotes | RawControl | TrailingComma | UnclosedString | UnclosedBrackets

record repair_report =
  jr_fixes :: "json_fix list"
  jr_closedString :: bool
  jr_closedBrackets :: bool

record 'v repair_result = repair_report +
  jr_text :: string
  jr_value :: 'v

section \<open>Code fences\<close>

definition fence_char :: "char \<Rightarrow> bool" where
  "fence_char c = (let n = of_char c :: nat
     in 48 \<le> n \<and> n \<le> 57 \<or> 65 \<le> n \<and> n \<le> 90 \<or> 97 \<le> n \<and> n \<le> 122 \<or> n = 95 \<or> n = 45)"

definition FENCE :: string where
  "FENCE = ''```''"

definition skip_one :: "char \<Rightarrow> string \<Rightarrow> string" where
  "skip_one c s = (case s of [] \<Rightarrow> [] | x # xs \<Rightarrow> if x = c then xs else s)"

text \<open>\<open>/^```[A-Za-z0-9_-]*[ \t]*\r?\n?/\<close> removed, and \<open>/\r?\n?```\s*$/\<close> removed.\<close>

definition drop_fence_open :: "string \<Rightarrow> string" where
  "drop_fence_open s =
     (if \<not> js_starts_with FENCE s then s
      else skip_one LINE_FEED (skip_one RETURN
             (dropWhile (\<lambda>c. c = CHR '' '' \<or> c = TABULATOR) (dropWhile fence_char (drop 3 s)))))"

definition drop_fence_close :: "string \<Rightarrow> string" where
  "drop_fence_close s =
     (let r = dropWhile is_space (rev s)
      in if \<not> js_starts_with FENCE r then s else rev (skip_one RETURN (skip_one LINE_FEED (drop 3 r))))"

section \<open>The scan\<close>

text \<open>The closers of the open brackets, innermost first, and the quote an open string began with.\<close>

record repair_state =
  js_out :: string
  js_stack :: string
  js_quote :: "char option"
  js_fixes :: "json_fix list"

definition emit_text :: "string \<Rightarrow> repair_state \<Rightarrow> repair_state" where
  "emit_text cs st = st\<lparr>js_out := js_out st @ cs\<rparr>"

definition note_fix :: "json_fix \<Rightarrow> repair_state \<Rightarrow> repair_state" where
  "note_fix f st = st\<lparr>js_fixes := js_add f (js_fixes st)\<rparr>"

definition trim_end :: "string \<Rightarrow> string" where
  "trim_end s = rev (dropWhile is_space (rev s))"

definition dropTrailingComma :: "repair_state \<Rightarrow> repair_state" where
  "dropTrailingComma st =
     (let trimmed = trim_end (js_out st)
      in if trimmed = [] \<or> last trimmed \<noteq> CHR '','' then st else note_fix TrailingComma (st\<lparr>js_out := butlast trimmed\<rparr>))"

definition closer_of :: "char \<Rightarrow> char" where
  "closer_of c = (if c = CHR ''{'' then CHR ''}'' else CHR '']'')"

text \<open>Inside a string: what one character adds. Outside: a quote, a bracket or anything else.\<close>

definition string_char :: "char \<Rightarrow> char \<Rightarrow> repair_state \<Rightarrow> repair_state" where
  "string_char q c st =
     (if c = q then emit_text [DQUOTE] (st\<lparr>js_quote := None\<rparr>)
      else if c = DQUOTE then emit_text [ESCAPE, DQUOTE] st
      else if c = LINE_FEED then note_fix RawControl (emit_text [ESCAPE, CHR ''n''] st)
      else if c = RETURN then note_fix RawControl (emit_text [ESCAPE, CHR ''r''] st)
      else if c = TABULATOR then note_fix RawControl (emit_text [ESCAPE, CHR ''t''] st)
      else emit_text [c] st)"

definition plain_char :: "char \<Rightarrow> repair_state \<Rightarrow> repair_state option" where
  "plain_char c st =
     (if c = DQUOTE then Some (emit_text [DQUOTE] (st\<lparr>js_quote := Some c\<rparr>))
      else if c = SQUOTE then Some (emit_text [DQUOTE] (note_fix SingleQuotes st\<lparr>js_quote := Some c\<rparr>))
      else if c = CHR ''{'' \<or> c = CHR ''['' then Some (emit_text [c] (st\<lparr>js_stack := closer_of c # js_stack st\<rparr>))
      else if c = CHR ''}'' \<or> c = CHR '']''
      then (case js_stack st of
              [] \<Rightarrow> None
            | k # ks \<Rightarrow> if k \<noteq> c then None else Some (emit_text [c] (dropTrailingComma (st\<lparr>js_stack := ks\<rparr>))))
      else Some (emit_text [c] st))"

definition escaped_pair :: "char \<Rightarrow> char \<Rightarrow> string" where
  "escaped_pair q n = (if q = SQUOTE \<and> n = SQUOTE then [SQUOTE] else [ESCAPE, n])"

text \<open>The loop; a lone escape at the end stops it.\<close>

fun repair_loop :: "string \<Rightarrow> repair_state \<Rightarrow> repair_state option" where
  "repair_loop [] st = Some st"
| "repair_loop (c # cs) st =
     (case js_quote st of
        Some q \<Rightarrow>
          if c = ESCAPE
          then (case cs of [] \<Rightarrow> Some st | n # cs' \<Rightarrow> repair_loop cs' (emit_text (escaped_pair q n) st))
          else repair_loop cs (string_char q c st)
      | None \<Rightarrow> (case plain_char c st of None \<Rightarrow> None | Some st' \<Rightarrow> repair_loop cs st'))"

section \<open>The end of the text\<close>

definition close_string :: "repair_state \<Rightarrow> repair_state" where
  "close_string st = (if js_quote st = None then st else note_fix UnclosedString (emit_text [DQUOTE] (st\<lparr>js_quote := None\<rparr>)))"

text \<open>A key without its value, or a number that may be cut, is not closed.\<close>

definition bad_end :: "string \<Rightarrow> bool" where
  "bad_end out = (let t = trim_end out in t \<noteq> [] \<and> (last t = CHR '':'' \<or> is_digit (last t)))"

definition close_brackets :: "repair_state \<Rightarrow> repair_state option" where
  "close_brackets st =
     (if js_stack st = [] then Some st
      else (let st' = dropTrailingComma st
            in if bad_end (js_out st') then None
               else Some (note_fix UnclosedBrackets (emit_text (js_stack st') (st'\<lparr>js_stack := []\<rparr>)))))"

text \<open>The text the scan starts from, with the fixes already made.\<close>

definition unfenced :: "string \<Rightarrow> string \<times> json_fix list" where
  "unfenced input =
     (let s = js_trim input
      in if js_starts_with FENCE s then (js_trim (drop_fence_close (drop_fence_open s)), [CodeFence]) else (s, []))"

definition repairJsonText :: "(string \<Rightarrow> 'v option) \<Rightarrow> string \<Rightarrow> 'v repair_result option" where
  "repairJsonText parse input =
     (if js_trim input = [] then None
      else (let start = unfenced input
            in case repair_loop (fst start) \<lparr>js_out = [], js_stack = [], js_quote = None, js_fixes = snd start\<rparr> of
                 None \<Rightarrow> None
               | Some st \<Rightarrow>
                   (case close_brackets (close_string st) of
                      None \<Rightarrow> None
                    | Some st' \<Rightarrow>
                        if js_fixes st' = [] then None
                        else (case parse (js_out st') of
                                None \<Rightarrow> None
                              | Some v \<Rightarrow>
                                  Some \<lparr>jr_fixes = js_fixes st', jr_closedString = (js_quote st \<noteq> None),
                                        jr_closedBrackets = (UnclosedBrackets \<in> set (js_fixes st')), jr_text = js_out st', jr_value = v\<rparr>))))"

definition mergeJsonRepair :: "repair_report option \<Rightarrow> repair_report \<Rightarrow> repair_report" where
  "mergeJsonRepair into next_report =
     (case into of
        None \<Rightarrow> next_report
      | Some r \<Rightarrow>
          \<lparr>jr_fixes = fold js_add (jr_fixes r @ jr_fixes next_report) [],
           jr_closedString = (jr_closedString r \<or> jr_closedString next_report),
           jr_closedBrackets = (jr_closedBrackets r \<or> jr_closedBrackets next_report)\<rparr>)"

end
