(* ===== verification/Repair_Scan.thy ===== *)
theory Repair_Scan
  imports Json_Repair
begin

text \<open>The lexical shape of a JSON text, and that the repair produces it.\<close>

text \<open>
  The strict reading of the structure: the open brackets (innermost first) and whether a string is open.
  It fails at a bracket that does not match, a raw line break or tab inside a string, a single quote outside
  one, and an escape at the end of the text.
\<close>

fun json_scan :: "string \<Rightarrow> string \<times> bool \<Rightarrow> (string \<times> bool) option" where
  "json_scan [] st = Some st"
| "json_scan (c # cs) (ks, True) =
     (if c = ESCAPE then (case cs of [] \<Rightarrow> None | n # cs' \<Rightarrow> json_scan cs' (ks, True))
      else if c = DQUOTE then json_scan cs (ks, False)
      else if c = LINE_FEED \<or> c = RETURN \<or> c = TABULATOR then None
      else json_scan cs (ks, True))"
| "json_scan (c # cs) (ks, False) =
     (if c = DQUOTE then json_scan cs (ks, True)
      else if c = SQUOTE then None
      else if c = CHR ''{'' \<or> c = CHR ''['' then json_scan cs (closer_of c # ks, False)
      else if c = CHR ''}'' \<or> c = CHR '']''
      then (case ks of [] \<Rightarrow> None | k # ks' \<Rightarrow> if k \<noteq> c then None else json_scan cs (ks', False))
      else json_scan cs (ks, False))"

lemmas json_chars = DQUOTE_def SQUOTE_def ESCAPE_def LINE_FEED_def RETURN_def TABULATOR_def

lemma scan_append: "json_scan s st = Some st' \<Longrightarrow> json_scan (s @ t) st = json_scan t st'"
  by (induction s st rule: json_scan.induct) (auto split: if_splits list.splits)

definition neutral :: "char \<Rightarrow> bool" where
  "neutral c \<longleftrightarrow> c \<notin> {DQUOTE, SQUOTE, ESCAPE, CHR ''{'', CHR ''['', CHR ''}'', CHR '']''}"

lemma scan_dead_end: "json_scan s st = None \<Longrightarrow> json_scan (s @ [c]) st = Some st' \<Longrightarrow> snd st'"
  by (induction s st rule: json_scan.induct) (auto split: if_splits list.splits)

text \<open>Outside strings, neutral characters at the end can be taken off.\<close>

lemma scan_butlast:
  assumes "json_scan (s @ [c]) st = Some (ks, False)" and "neutral c"
  shows "json_scan s st = Some (ks, False)"
proof (cases "json_scan s st")
  case None
  then show ?thesis using scan_dead_end [OF None assms(1)] by simp
next
  case (Some st')
  obtain ks' b where st': "st' = (ks', b)" by fastforce
  then show ?thesis
    using assms scan_append [OF Some, of "[c]"] Some by (cases b) (auto simp: neutral_def split: if_splits)
qed

lemma scan_take_off:
  "json_scan (s @ t) st = Some (ks, False) \<Longrightarrow> list_all neutral t \<Longrightarrow> json_scan s st = Some (ks, False)"
proof (induction t rule: rev_induct)
  case (snoc c t)
  then show ?case using scan_butlast [of "s @ t" c] by simp
qed simp

lemma neutral_simps: "is_space c \<Longrightarrow> neutral c" "neutral (CHR '','')"
  by (auto simp: neutral_def is_space_def json_chars)

lemma trim_end_split: "\<exists>t. s = trim_end s @ t \<and> list_all is_space t"
proof -
  have "rev s = takeWhile is_space (rev s) @ dropWhile is_space (rev s)" by simp
  then have "s = rev (dropWhile is_space (rev s)) @ rev (takeWhile is_space (rev s))" by (metis rev_append rev_rev_ident)
  moreover have "list_all is_space (rev (takeWhile is_space (rev s)))" by (auto simp: list_all_iff dest: set_takeWhileD)
  ultimately show ?thesis unfolding trim_end_def by blast
qed

text \<open>The state of the scan is what the loop keeps.\<close>

definition fixes_ok :: "repair_state \<Rightarrow> bool" where
  "fixes_ok st \<longleftrightarrow> distinct (js_fixes st) \<and> UnclosedBrackets \<notin> set (js_fixes st)"

definition scanned :: "repair_state \<Rightarrow> bool" where
  "scanned st \<longleftrightarrow> json_scan (js_out st) ([], False) = Some (js_stack st, js_quote st \<noteq> None) \<and>
     (\<forall>q. js_quote st = Some q \<longrightarrow> q = DQUOTE \<or> q = SQUOTE) \<and> fixes_ok st"

lemma note_fix_simps [simp]:
  "js_out (note_fix f st) = js_out st" "js_stack (note_fix f st) = js_stack st" "js_quote (note_fix f st) = js_quote st"
  "js_fixes (note_fix f st) = js_add f (js_fixes st)"
  by (simp_all add: note_fix_def)

lemma emit_simps [simp]:
  "js_out (emit_text cs st) = js_out st @ cs" "js_stack (emit_text cs st) = js_stack st" "js_quote (emit_text cs st) = js_quote st"
  "js_fixes (emit_text cs st) = js_fixes st"
  by (simp_all add: emit_text_def)

lemma drop_comma:
  assumes "json_scan (js_out st) ([], False) = Some (ks, False)"
  shows "json_scan (js_out (dropTrailingComma st)) ([], False) = Some (ks, False)"
proof -
  obtain t where t: "js_out st = trim_end (js_out st) @ t" "list_all is_space t" using trim_end_split by blast
  show ?thesis
  proof (cases "trim_end (js_out st) = [] \<or> last (trim_end (js_out st)) \<noteq> CHR '',''")
    case False
    then have "js_out st = butlast (trim_end (js_out st)) @ (CHR '','' # t)"
      using t(1) by (metis append_Cons append_Nil append_assoc append_butlast_last_id)
    moreover have "list_all neutral (CHR '','' # t)" using t(2) neutral_simps by (auto simp: list_all_iff)
    ultimately have "json_scan (butlast (trim_end (js_out st))) ([], False) = Some (ks, False)"
      using assms scan_take_off by metis
    then show ?thesis using False by (simp add: dropTrailingComma_def Let_def)
  qed (use assms in \<open>auto simp: dropTrailingComma_def Let_def\<close>)
qed

lemma drop_comma_keeps [simp]:
  "js_stack (dropTrailingComma st) = js_stack st" "js_quote (dropTrailingComma st) = js_quote st"
  "fixes_ok (dropTrailingComma st) = fixes_ok st" "fixes_ok (st\<lparr>js_stack := ks\<rparr>) = fixes_ok st" "fixes_ok (emit_text cs st) = fixes_ok st"
  "fixes_ok (st\<lparr>js_quote := q\<rparr>) = fixes_ok st" "f \<noteq> UnclosedBrackets \<Longrightarrow> fixes_ok (note_fix f st) = fixes_ok st"
  by (auto simp: dropTrailingComma_def Let_def fixes_ok_def js_add_def)

lemma scan_char:
  "json_scan [DQUOTE] (ks, True) = Some (ks, False)"
  "json_scan [ESCAPE, c] (ks, True) = Some (ks, True)"
  "c \<notin> {DQUOTE, ESCAPE, LINE_FEED, RETURN, TABULATOR} \<Longrightarrow> json_scan [c] (ks, True) = Some (ks, True)"
  by (simp_all add: json_chars)

lemma scanned_emit:
  assumes "scanned st" and "json_scan cs (js_stack st, js_quote st \<noteq> None) = Some (js_stack st', js_quote st' \<noteq> None)"
    and "js_out st' = js_out st @ cs" and "fixes_ok st'" and "\<forall>q. js_quote st' = Some q \<longrightarrow> q = DQUOTE \<or> q = SQUOTE"
  shows "scanned st'"
proof -
  have "json_scan (js_out st) ([], False) = Some (js_stack st, js_quote st \<noteq> None)" using assms(1) by (simp add: scanned_def)
  then show ?thesis using assms(2-5) scan_append unfolding scanned_def by metis
qed

lemma scanned_string:
  assumes ok: "scanned st" and q: "js_quote st = Some q" and "c \<noteq> ESCAPE"
  shows "scanned (string_char q c st)"
proof -
  have facts: "fixes_ok st" "q = DQUOTE \<or> q = SQUOTE" using ok q by (auto simp: scanned_def)
  consider "c = q" | "c \<noteq> q" "c = DQUOTE" | "c \<noteq> q" "c \<noteq> DQUOTE" "c \<in> {LINE_FEED, RETURN, TABULATOR}"
    | "c \<noteq> q" "c \<notin> {DQUOTE, ESCAPE, LINE_FEED, RETURN, TABULATOR}" using assms(3) by blast
  then show ?thesis
  proof cases
    case 1
    then show ?thesis using facts q by (intro scanned_emit [OF ok, of "[DQUOTE]"]) (simp_all add: string_char_def scan_char del: json_scan.simps)
  next
    case 2
    then show ?thesis using facts q
      by (intro scanned_emit [OF ok, of "[ESCAPE, DQUOTE]"]) (simp_all add: string_char_def scan_char del: json_scan.simps)
  next
    case 3
    then have "\<exists>n. string_char q c st = note_fix RawControl (emit_text [ESCAPE, n] st)" by (auto simp: string_char_def)
    then obtain n where n: "string_char q c st = note_fix RawControl (emit_text [ESCAPE, n] st)" by blast
    show ?thesis unfolding n using facts q
      by (intro scanned_emit [OF ok, of "[ESCAPE, n]"]) (simp_all add: scan_char del: json_scan.simps)
  next
    case 4
    then have "string_char q c st = emit_text [c] st" by (simp add: string_char_def)
    then show ?thesis using facts q 4
      by (intro scanned_emit [OF ok, of "[c]"]) (simp_all add: scan_char(3) [of c] del: json_scan.simps)
  qed
qed

lemma scanned_pair:
  assumes ok: "scanned st" and q: "js_quote st = Some q"
  shows "scanned (emit_text (escaped_pair q n) st)"
proof (rule scanned_emit [OF ok])
  show "json_scan (escaped_pair q n) (js_stack st, js_quote st \<noteq> None) =
      Some (js_stack (emit_text (escaped_pair q n) st), js_quote (emit_text (escaped_pair q n) st) \<noteq> None)"
    using q scan_char(2) scan_char(3) [of SQUOTE] by (simp add: escaped_pair_def json_chars)
qed (use ok q in \<open>auto simp: scanned_def\<close>)

lemma scanned_plain:
  assumes "scanned st" and "js_quote st = None" and "plain_char c st = Some st'"
  shows "scanned st'"
proof -
  have facts: "fixes_ok st" using assms(1) by (simp add: scanned_def)
  consider "c \<in> {DQUOTE, SQUOTE, CHR ''{'', CHR ''[''}" | "c = CHR ''}'' \<or> c = CHR '']''"
    | "c \<notin> {DQUOTE, SQUOTE, CHR ''{'', CHR ''['', CHR ''}'', CHR '']''}" by blast
  then show ?thesis
  proof cases
    case 1
    then have "js_out st' = js_out st @ [if c = SQUOTE then DQUOTE else c]" "fixes_ok st'"
      "js_quote st' = (if c = DQUOTE \<or> c = SQUOTE then Some c else None)"
      "js_stack st' = (if c = DQUOTE \<or> c = SQUOTE then js_stack st else closer_of c # js_stack st)"
      using assms(2,3) facts by (auto simp: plain_char_def json_chars split: if_splits)
    then show ?thesis using 1 assms(2)
      by (intro scanned_emit [OF assms(1), of "[if c = SQUOTE then DQUOTE else c]"]) (auto simp: json_chars)
  next
    case 2
    then obtain ks where k: "js_stack st = c # ks" "st' = emit_text [c] (dropTrailingComma (st\<lparr>js_stack := ks\<rparr>))"
      using assms(3) by (auto simp: plain_char_def json_chars split: list.splits if_splits)
    have out: "js_out (dropTrailingComma (st\<lparr>js_stack := ks\<rparr>)) = js_out (dropTrailingComma st)"
      by (simp add: dropTrailingComma_def Let_def)
    have "json_scan (js_out st) ([], False) = Some (js_stack st, False)" using assms(1,2) by (simp add: scanned_def)
    from drop_comma [OF this] have "json_scan (js_out st') ([], False) = Some (ks, False)"
      using k 2 by (auto simp: out scan_append json_chars)
    then show ?thesis using assms(1,2) k(2) by (auto simp: scanned_def)
  next
    case 3
    then have "st' = emit_text [c] st" using assms(3) by (simp add: plain_char_def)
    then show ?thesis using 3 assms(2) facts by (intro scanned_emit [OF assms(1), of "[c]"]) simp_all
  qed
qed

lemma scanned_loop: "repair_loop s st = Some st' \<Longrightarrow> scanned st \<Longrightarrow> scanned st'"
proof (induction "length s" arbitrary: s st rule: less_induct)
  case less
  show ?case
  proof (cases s)
    case Nil
    then show ?thesis using less(2,3) by simp
  next
    case (Cons c cs)
    show ?thesis
    proof (cases "js_quote st")
      case None
      then obtain st1 where st1: "plain_char c st = Some st1" "repair_loop cs st1 = Some st'"
        using less(2) Cons by (auto split: option.splits)
      show ?thesis using less(1) [OF _ st1(2) scanned_plain [OF less(3) None st1(1)]] Cons by simp
    next
      case (Some q)
      show ?thesis
      proof (cases "c = ESCAPE")
        case False
        then have rest: "repair_loop cs (string_char q c st) = Some st'" using less(2) Cons Some by simp
        show ?thesis using less(1) [OF _ rest scanned_string [OF less(3) Some False]] Cons by simp
      next
        case True
        show ?thesis
        proof (cases cs)
          case Nil
          then show ?thesis using less(2,3) Cons Some True by simp
        next
          case (Cons n cs')
          then have rest: "repair_loop cs' (emit_text (escaped_pair q n) st) = Some st'"
            using less(2) \<open>s = c # cs\<close> Some True by simp
          show ?thesis using less(1) [OF _ rest scanned_pair [OF less(3) Some]] Cons \<open>s = c # cs\<close> by simp
        qed
      qed
    qed
  qed
qed

end
