(* ===== verification/Repair_Verdict.thy ===== *)
theory Repair_Verdict
  imports Json_Repair Batch_Policy
begin

text \<open>Whether a batch whose JSON had to be repaired may run (src/agent/step/step-json-repair.ts).\<close>

definition CONTENT_WRITING_TOOLS :: "string list" where
  "CONTENT_WRITING_TOOLS = [''os.fs.write'', ''os.fs.edit'', ''os.fs.patch'']"

text \<open>Of the completion: whether it was cut, and why it finished. The verdict is the reason of a refusal.\<close>

definition judge_call :: "policy_env \<Rightarrow> repair_report \<Rightarrow> tool_call \<Rightarrow> string option" where
  "judge_call env repair call =
     (if \<not> jm_has (po_registry env) (tc_tool call) then Some (''unknown tool '' @ single_quoted (tc_tool call))
      else if jr_closedBrackets repair \<and> tc_tool call \<in> set CONTENT_WRITING_TOOLS
      then Some (single_quoted (tc_tool call) @ '' was left unclosed'')
      else if \<not> callArgsSchemaValid env call
      then Some (single_quoted (tc_tool call) @ '' arguments do not match its schema'')
      else None)"

fun judge_calls :: "policy_env \<Rightarrow> repair_report \<Rightarrow> tool_call list \<Rightarrow> string option" where
  "judge_calls env repair [] = None"
| "judge_calls env repair (call # calls) =
     (case judge_call env repair call of Some reason \<Rightarrow> Some reason | None \<Rightarrow> judge_calls env repair calls)"

definition judgeRepairedBatch ::
  "policy_env \<Rightarrow> repair_report option \<Rightarrow> tool_call list \<Rightarrow> bool \<Rightarrow> string option \<Rightarrow> string option" where
  "judgeRepairedBatch env jsonRepair calls truncated finishReason =
     (case jsonRepair of
        None \<Rightarrow> None
      | Some repair \<Rightarrow>
          if jr_closedString repair then Some ''a string was left open''
          else if jr_closedBrackets repair \<and> (truncated \<or> finishReason = Some ''length'') then Some ''the completion was cut off''
          else judge_calls env repair calls)"

definition repairRefusedError :: "string \<Rightarrow> string" where
  "repairRefusedError reason = ''invalid tool-call JSON (a mechanical repair was not used: '' @ reason @ '')''"

lemma judge_calls_all: "judge_calls env repair calls = None \<longleftrightarrow> list_all (\<lambda>call. judge_call env repair call = None) calls"
  by (induction calls) (auto split: option.splits)

end
