(* ===== verification/Repair_Properties.thy ===== *)
theory Repair_Properties
  imports Repair_Scan Repair_Verdict
begin

text \<open>What the repair of a tool call's JSON promises: a closed text, sound text untouched, and no guess that runs.\<close>

section \<open>The repaired text\<close>






section \<open>Sound text\<close>

text \<open>
  A text the repair has nothing to do on: the structure matches, strings are closed and double-quoted and hold no
  raw line break or tab, and no comma stands before a closing bracket.
\<close>

fun json_neat :: "string \<Rightarrow> string \<Rightarrow> bool \<Rightarrow> bool \<Rightarrow> bool" where
  "json_neat [] ks in_string comma = (ks = [] \<and> \<not> in_string)"
| "json_neat (c # cs) ks True comma =
     (if c = ESCAPE then (case cs of [] \<Rightarrow> False | n # cs' \<Rightarrow> json_neat cs' ks True False)
      else if c = DQUOTE then json_neat cs ks False False
      else c \<notin> {LINE_FEED, RETURN, TABULATOR} \<and> json_neat cs ks True False)"
| "json_neat (c # cs) ks False comma =
     (if c = DQUOTE then json_neat cs ks True False
      else if c = SQUOTE then False
      else if c = CHR ''{'' \<or> c = CHR ''['' then json_neat cs (closer_of c # ks) False False
      else if c = CHR ''}'' \<or> c = CHR '']''
      then (case ks of [] \<Rightarrow> False | k # ks' \<Rightarrow> k = c \<and> \<not> comma \<and> json_neat cs ks' False False)
      else json_neat cs ks False (c = CHR '','' \<or> is_space c \<and> comma))"

definition ends_comma :: "string \<Rightarrow> bool" where
  "ends_comma out = (trim_end out \<noteq> [] \<and> last (trim_end out) = CHR '','')"

lemma ends_comma_snoc: "ends_comma (out @ [c]) = (if is_space c then ends_comma out else c = CHR '','')"
  by (simp add: ends_comma_def trim_end_def)

lemma no_comma_drop: "\<not> ends_comma (js_out st) \<Longrightarrow> dropTrailingComma st = st"
  by (auto simp: ends_comma_def dropTrailingComma_def Let_def)

definition copied :: "string \<Rightarrow> repair_state \<Rightarrow> repair_state" where
  "copied s st = st\<lparr>js_out := js_out st @ s, js_stack := [], js_quote := None\<rparr>"

lemma neat_copied:
  "json_neat s (js_stack st) (js_quote st \<noteq> None) comma \<Longrightarrow> js_quote st \<in> {None, Some DQUOTE} \<Longrightarrow>
     (js_quote st = None \<Longrightarrow> comma = ends_comma (js_out st)) \<Longrightarrow> repair_loop s st = Some (copied s st)"
proof (induction "length s" arbitrary: s st comma rule: less_induct)
  case less
  show ?case
  proof (cases s)
    case Nil
    then show ?thesis using less(2) by (cases st) (auto simp: copied_def)
  next
    case (Cons c cs)
    have next_round: "repair_loop t st1 = Some (copied t st1)"
      if "length t < length s" "json_neat t (js_stack st1) (js_quote st1 \<noteq> None) m" "js_quote st1 \<in> {None, Some DQUOTE}"
        "js_quote st1 = None \<Longrightarrow> m = ends_comma (js_out st1)" for t st1 m
      using less(1) [OF that(1) that(2-4)] by blast
    show ?thesis
    proof (cases "js_quote st")
      case None
      note neat = less(2) [unfolded Cons None]
      consider "c = DQUOTE" | "c \<in> {CHR ''{'', CHR ''[''}" | "c \<in> {CHR ''}'', CHR '']''}"
        | "c \<notin> {DQUOTE, SQUOTE, CHR ''{'', CHR ''['', CHR ''}'', CHR '']''}"
        using neat by (auto split: if_splits)
      then show ?thesis
      proof cases
        case 1
        have "repair_loop cs (emit_text [c] (st\<lparr>js_quote := Some c\<rparr>)) = Some (copied cs (emit_text [c] (st\<lparr>js_quote := Some c\<rparr>)))"
          using neat 1 Cons by (intro next_round [of _ _ False]) simp_all
        then show ?thesis using Cons None 1 by (simp add: plain_char_def copied_def emit_text_def)
      next
        case 2
        let ?st = "emit_text [c] (st\<lparr>js_stack := closer_of c # js_stack st\<rparr>)"
        have "json_neat cs (closer_of c # js_stack st) False False" using neat 2 by (auto simp: json_chars)
        moreover have "\<not> ends_comma (js_out ?st)" using 2 by (auto simp: ends_comma_snoc is_space_def)
        ultimately have "repair_loop cs ?st = Some (copied cs ?st)"
          using None Cons by (intro next_round [of _ _ False]) simp_all
        then show ?thesis using Cons None 2 by (auto simp: plain_char_def copied_def emit_text_def json_chars)
      next
        case 3
        then obtain ks where ks: "js_stack st = c # ks" "\<not> comma" "json_neat cs ks False False"
          using neat by (auto simp: json_chars split: list.splits)
        let ?st = "emit_text [c] (st\<lparr>js_stack := ks\<rparr>)"
        have "dropTrailingComma (st\<lparr>js_stack := ks\<rparr>) = st\<lparr>js_stack := ks\<rparr>"
          using ks(2) less(4) [OF None] by (intro no_comma_drop) simp
        then have step: "plain_char c st = Some ?st" using 3 ks(1) by (auto simp: plain_char_def json_chars)
        have "\<not> ends_comma (js_out ?st)" using 3 by (auto simp: ends_comma_snoc is_space_def)
        then have "repair_loop cs ?st = Some (copied cs ?st)"
          using None Cons ks(3) by (intro next_round [of _ _ False]) simp_all
        then show ?thesis using Cons None step by (simp add: copied_def emit_text_def)
      next
        case 4
        have "json_neat cs (js_stack st) False (c = CHR '','' \<or> is_space c \<and> comma)" using neat 4 by simp
        moreover have "(c = CHR '','' \<or> is_space c \<and> comma) = ends_comma (js_out st @ [c])"
          using less(4) [OF None] by (auto simp: ends_comma_snoc is_space_def)
        ultimately have "repair_loop cs (emit_text [c] st) = Some (copied cs (emit_text [c] st))"
          using None Cons by (intro next_round [of _ _ "c = CHR '','' \<or> is_space c \<and> comma"]) simp_all
        then show ?thesis using Cons None 4 by (simp add: plain_char_def copied_def emit_text_def)
      qed
    next
      case (Some q)
      then have q: "q = DQUOTE" using less(3) by simp
      note neat = less(2) [unfolded Cons Some]
      consider n cs' where "c = ESCAPE" "cs = n # cs'" | "c = DQUOTE" | "c \<notin> {ESCAPE, DQUOTE, LINE_FEED, RETURN, TABULATOR}"
        using neat by (auto split: if_splits list.splits)
      then show ?thesis
      proof cases
        case 1
        have "repair_loop cs' (emit_text [c, n] st) = Some (copied cs' (emit_text [c, n] st))"
          using neat 1 Cons Some q by (intro next_round [of _ _ False]) simp_all
        moreover have "escaped_pair q n = [c, n]" using 1 q by (simp add: escaped_pair_def json_chars)
        ultimately show ?thesis using Cons Some 1 by (simp add: copied_def emit_text_def)
      next
        case 2
        let ?st = "emit_text [c] (st\<lparr>js_quote := None\<rparr>)"
        have "\<not> ends_comma (js_out ?st)" using 2 by (auto simp: ends_comma_snoc is_space_def json_chars)
        moreover have "json_neat cs (js_stack st) False False" using neat 2 by (simp add: json_chars)
        ultimately have "repair_loop cs ?st = Some (copied cs ?st)"
          using Cons by (intro next_round [of _ _ False]) simp_all
        moreover have "c \<noteq> ESCAPE" "string_char q c st = ?st" using 2 q by (simp_all add: string_char_def json_chars)
        ultimately show ?thesis using Cons Some by (simp add: copied_def emit_text_def)
      next
        case 3
        then have "string_char q c st = emit_text [c] st" using q by (simp add: string_char_def)
        moreover have "repair_loop cs (emit_text [c] st) = Some (copied cs (emit_text [c] st))"
          using neat 3 Cons Some q by (intro next_round [of _ _ False]) simp_all
        ultimately show ?thesis using Cons Some 3 by (simp add: copied_def emit_text_def)
      qed
    qed
  qed
qed

text \<open>C38: Sound text is left to the parser. On a text without a code fence whose brackets match, whose strings are closed,
  double-quoted and free of raw line breaks and tabs, and in which no comma stands before a closing
  bracket, there is nothing to repair: the repair returns nothing, whatever the parser says of the text.\<close>

theorem sound_text_is_left_alone:
  assumes "json_neat (js_trim input) [] False False" and "\<not> js_starts_with FENCE (js_trim input)"
  shows "repairJsonText parse input = None"
proof -
  let ?start = "\<lparr>js_out = [], js_stack = [], js_quote = None, js_fixes = []\<rparr>"
  have "repair_loop (js_trim input) ?start = Some (copied (js_trim input) ?start)"
    using assms(1) by (intro neat_copied [of _ _ False]) (simp_all add: ends_comma_def trim_end_def)
  then show ?thesis
    using assms(2) by (simp add: repairJsonText_def unfenced_def copied_def close_string_def close_brackets_def)
qed

theorem sound_text_is_left_alone_witness: "repairJsonText Some ''{\"a\": [1, 2], \"b\": \"it's\"}'' = None"
proof -
  have "json_neat (js_trim ''{\"a\": [1, 2], \"b\": \"it's\"}'') [] False False" by code_simp
  moreover have "\<not> js_starts_with FENCE (js_trim ''{\"a\": [1, 2], \"b\": \"it's\"}'')" by code_simp
  ultimately show ?thesis by (rule sound_text_is_left_alone)
qed

section \<open>The verdict\<close>

text \<open>A repaired batch runs only when no string was closed, no cut text was closed, and every call is known and valid.\<close>

lemma repaired_batch_runs:
  "judgeRepairedBatch env (Some repair) calls truncated finishReason = None \<longleftrightarrow>
     \<not> jr_closedString repair \<and> \<not> (jr_closedBrackets repair \<and> (truncated \<or> finishReason = Some ''length'')) \<and>
     list_all (\<lambda>call. jm_has (po_registry env) (tc_tool call) \<and> callArgsSchemaValid env call \<and>
       \<not> (jr_closedBrackets repair \<and> tc_tool call \<in> set CONTENT_WRITING_TOOLS)) calls"
  by (auto simp: judgeRepairedBatch_def judge_calls_all judge_call_def list_all_iff)

end
