(* ===== verification/Turn_Controller.thy ===== *)
theory Turn_Controller
  imports Prelude
begin

text \<open>
  Who owns a session's turn (src/runtime/turn-controller.ts). A submission is the number of its \<open>ownTurn\<close> promise;
  what the event loop does between two points where a submission waits is one move, and any interleaving of moves
  is a run. The bodies of the turns and the abort signals are the environment's: a running body may end at any
  time, returning or throwing, and a waiting submission with a signal may be aborted at any time.
\<close>

text \<open>
  Waiting for the submission ahead; past the wait but not yet resumed; in its body; rejected while waiting, but
  standing in until the submission ahead is over; its lock handed on.
\<close>

datatype turn_phase = TurnWaits | TurnAtFront | TurnRuns | TurnGaveUp | TurnOver

record submission =
  su_session :: string
  su_hook :: bool
  su_signal :: bool
  su_previous :: "nat option"
  su_phase :: turn_phase

record turn_controller =
  tu_turns :: "submission list"
  tu_queues :: "(string, nat) jsmap"
  tu_hooks :: "(string, nat) jsmap"
  tu_busy :: "string list"

definition newTurnController :: turn_controller where
  "newTurnController = \<lparr>tu_turns = [], tu_queues = [], tu_hooks = [], tu_busy = []\<rparr>"

section \<open>The moves\<close>

text \<open>\<open>enqueue\<close> up to its first wait; a signal that is already aborted makes it throw at once.\<close>

definition enqueue_turn :: "string \<Rightarrow> bool \<Rightarrow> bool \<Rightarrow> bool \<Rightarrow> turn_controller \<Rightarrow> turn_controller" where
  "enqueue_turn sessionId hook has_signal aborted g =
     (if has_signal \<and> aborted then g
      else g\<lparr>tu_turns := tu_turns g @ [\<lparr>su_session = sessionId, su_hook = hook, su_signal = has_signal,
                                        su_previous = jm_get (tu_queues g) sessionId, su_phase = TurnWaits\<rparr>],
             tu_queues := jm_set sessionId (length (tu_turns g)) (tu_queues g)\<rparr>)"

definition set_phase :: "nat \<Rightarrow> turn_phase \<Rightarrow> turn_controller \<Rightarrow> turn_controller" where
  "set_phase i ph g = g\<lparr>tu_turns := (tu_turns g)[i := (tu_turns g ! i)\<lparr>su_phase := ph\<rparr>]\<rparr>"

definition phase_of :: "turn_controller \<Rightarrow> nat \<Rightarrow> turn_phase" where
  "phase_of g i = su_phase (tu_turns g ! i)"

definition session_of :: "turn_controller \<Rightarrow> nat \<Rightarrow> string" where
  "session_of g i = su_session (tu_turns g ! i)"

text \<open>The promise of the submission ahead is settled.\<close>

definition previous_settled :: "turn_controller \<Rightarrow> nat \<Rightarrow> bool" where
  "previous_settled g i = (case su_previous (tu_turns g ! i) of None \<Rightarrow> True | Some p \<Rightarrow> phase_of g p = TurnOver)"

text \<open>\<open>settle\<close>: the lock is handed on, and the queue entry is dropped when nobody queued behind.\<close>

definition settle_turn :: "nat \<Rightarrow> turn_controller \<Rightarrow> turn_controller" where
  "settle_turn i g =
     (let g' = set_phase i TurnOver g
      in if jm_get (tu_queues g) (session_of g i) = Some i
         then g'\<lparr>tu_queues := jm_delete (session_of g i) (tu_queues g)\<rparr> else g')"

definition begin_turn :: "nat \<Rightarrow> turn_controller \<Rightarrow> turn_controller" where
  "begin_turn i g =
     (let s = session_of g i; g' = set_phase i TurnRuns g
      in g'\<lparr>tu_hooks := (if su_hook (tu_turns g ! i) then jm_set s i (tu_hooks g) else tu_hooks g),
            tu_busy := js_add s (tu_busy g)\<rparr>)"

text \<open>The body returned or threw: both \<open>finally\<close> blocks.\<close>

definition finish_turn :: "nat \<Rightarrow> turn_controller \<Rightarrow> turn_controller" where
  "finish_turn i g =
     (let s = session_of g i
      in settle_turn i (g\<lparr>tu_busy := filter (\<lambda>t. t \<noteq> s) (tu_busy g),
           tu_hooks := (if su_hook (tu_turns g ! i) then jm_delete s (tu_hooks g) else tu_hooks g)\<rparr>))"

datatype turn_move =
    Submit string bool bool bool
  | ReachFront nat
  | BeginRun nat
  | EndRun nat
  | AbortWait nat
  | StandIn nat

fun make_move :: "turn_move \<Rightarrow> turn_controller \<Rightarrow> turn_controller option" where
  "make_move (Submit s hook sig ab) g = Some (enqueue_turn s hook sig ab g)"
| "make_move (ReachFront i) g =
     (if i < length (tu_turns g) \<and> phase_of g i = TurnWaits \<and> previous_settled g i then Some (set_phase i TurnAtFront g) else None)"
| "make_move (BeginRun i) g =
     (if i < length (tu_turns g) \<and> phase_of g i = TurnAtFront then Some (begin_turn i g) else None)"
| "make_move (EndRun i) g =
     (if i < length (tu_turns g) \<and> phase_of g i = TurnRuns then Some (finish_turn i g) else None)"
| "make_move (AbortWait i) g =
     (if i < length (tu_turns g) \<and> phase_of g i = TurnWaits \<and> su_signal (tu_turns g ! i) then Some (set_phase i TurnGaveUp g) else None)"
| "make_move (StandIn i) g =
     (if i < length (tu_turns g) \<and> phase_of g i = TurnGaveUp \<and> previous_settled g i then Some (settle_turn i g) else None)"

inductive turn_runs :: "turn_controller \<Rightarrow> turn_move list \<Rightarrow> turn_controller \<Rightarrow> bool" where
  turn_stays: "turn_runs g [] g"
| turn_moves: "make_move m g = Some g1 \<Longrightarrow> turn_runs g1 ms g2 \<Longrightarrow> turn_runs g (m # ms) g2"

inductive_cases turn_runs_ConsE: "turn_runs g (m # ms) g'"
inductive_cases turn_runs_NilE: "turn_runs g [] g'"

text \<open>\<open>emit\<close>: the submission whose hook an event of the session goes to.\<close>

definition emit_target :: "string \<Rightarrow> turn_controller \<Rightarrow> nat option" where
  "emit_target sessionId g = jm_get (tu_hooks g) sessionId"

definition isBusy :: "string \<Rightarrow> turn_controller \<Rightarrow> bool" where
  "isBusy sessionId g = (sessionId \<in> set (tu_busy g))"

definition busySessionIds :: "turn_controller \<Rightarrow> string list" where
  "busySessionIds g = tu_busy g"

section \<open>What every move keeps\<close>

definition chain_ok :: "turn_controller \<Rightarrow> bool" where
  "chain_ok g \<longleftrightarrow>
     (\<forall>i < length (tu_turns g).
        (case su_previous (tu_turns g ! i) of
           None \<Rightarrow> \<forall>k < i. session_of g k = session_of g i \<longrightarrow> phase_of g k = TurnOver
         | Some p \<Rightarrow> p < i \<and> session_of g p = session_of g i \<and> (\<forall>k. p < k \<and> k < i \<longrightarrow> session_of g k \<noteq> session_of g i)) \<and>
        (phase_of g i \<in> {TurnAtFront, TurnRuns, TurnOver} \<longrightarrow> previous_settled g i))"

definition queues_ok :: "turn_controller \<Rightarrow> bool" where
  "queues_ok g \<longleftrightarrow>
     (\<forall>s. case jm_get (tu_queues g) s of
            None \<Rightarrow> \<forall>i < length (tu_turns g). session_of g i = s \<longrightarrow> phase_of g i = TurnOver
          | Some q \<Rightarrow> q < length (tu_turns g) \<and> session_of g q = s \<and>
              (\<forall>k. q < k \<and> k < length (tu_turns g) \<longrightarrow> session_of g k \<noteq> s))"

definition runs_in :: "turn_controller \<Rightarrow> string \<Rightarrow> nat \<Rightarrow> bool" where
  "runs_in g s i \<longleftrightarrow> i < length (tu_turns g) \<and> session_of g i = s \<and> phase_of g i = TurnRuns"

definition sinks_ok :: "turn_controller \<Rightarrow> bool" where
  "sinks_ok g \<longleftrightarrow>
     (\<forall>s. s \<in> set (tu_busy g) \<longleftrightarrow> (\<exists>i. runs_in g s i)) \<and>
     (\<forall>s i. jm_get (tu_hooks g) s = Some i \<longleftrightarrow> runs_in g s i \<and> su_hook (tu_turns g ! i))"

definition turns_ok :: "turn_controller \<Rightarrow> bool" where
  "turns_ok g \<longleftrightarrow> chain_ok g \<and> queues_ok g \<and> sinks_ok g"

lemma chain_settled: "chain_ok g \<Longrightarrow> i < length (tu_turns g) \<Longrightarrow> phase_of g i \<in> {TurnAtFront, TurnRuns, TurnOver} \<Longrightarrow> previous_settled g i"
  unfolding chain_ok_def by blast

text \<open>Whoever is at the front, in a body or over has all earlier submissions of the session behind it.\<close>

lemma earlier_over:
  assumes "chain_ok g"
  shows "i < length (tu_turns g) \<Longrightarrow> previous_settled g i \<Longrightarrow> k < i \<Longrightarrow> session_of g k = session_of g i \<Longrightarrow> phase_of g k = TurnOver"
proof (induction i arbitrary: k rule: less_induct)
  case (less i)
  show ?case
  proof (cases "su_previous (tu_turns g ! i)")
    case None
    then show ?thesis using assms less(2,4,5) by (auto simp: chain_ok_def)
  next
    case (Some p)
    have p: "p < i" "session_of g p = session_of g i" "\<forall>k. p < k \<and> k < i \<longrightarrow> session_of g k \<noteq> session_of g i"
      using assms less(2) Some unfolding chain_ok_def by fastforce+
    have over: "phase_of g p = TurnOver" using less(3) Some by (simp add: previous_settled_def)
    consider "k = p" | "k < p" | "p < k" by linarith
    then show ?thesis
    proof cases
      case 2
      have "previous_settled g p" using chain_settled [OF assms, of p] over p(1) less(2) by simp
      then show ?thesis using less(1) [OF p(1), of k] less(2,5) p 2 by simp
    qed (use over p less(4,5) in auto)
  qed
qed

lemma one_at_front:
  assumes "chain_ok g" and "i < length (tu_turns g)" and "j < length (tu_turns g)" and "session_of g i = session_of g j"
    and "phase_of g i \<in> {TurnAtFront, TurnRuns}" and "phase_of g j \<in> {TurnAtFront, TurnRuns}"
  shows "i = j"
proof (rule ccontr)
  assume "i \<noteq> j"
  then consider "i < j" | "j < i" by linarith
  then show False
  proof cases
    case 1
    have "previous_settled g j" using chain_settled [OF assms(1,3)] assms(6) by blast
    then show False using earlier_over [OF assms(1,3) _ 1] assms(4,5) by auto
  next
    case 2
    have "previous_settled g i" using chain_settled [OF assms(1,2)] assms(5) by blast
    then show False using earlier_over [OF assms(1,2) _ 2] assms(4,6) by auto
  qed
qed

lemma set_phase_nth:
  "tu_turns (set_phase i ph g) ! k =
     (if k = i \<and> i < length (tu_turns g) then (tu_turns g ! i)\<lparr>su_phase := ph\<rparr> else tu_turns g ! k)"
  by (cases "i < length (tu_turns g)") (auto simp: set_phase_def nth_list_update list_update_beyond)

lemma set_phase_simps [simp]:
  "length (tu_turns (set_phase i ph g)) = length (tu_turns g)" "session_of (set_phase i ph g) k = session_of g k"
  "i < length (tu_turns g) \<Longrightarrow> phase_of (set_phase i ph g) k = (if k = i then ph else phase_of g k)"
  "su_previous (tu_turns (set_phase i ph g) ! k) = su_previous (tu_turns g ! k)"
  "su_hook (tu_turns (set_phase i ph g) ! k) = su_hook (tu_turns g ! k)"
  "su_signal (tu_turns (set_phase i ph g) ! k) = su_signal (tu_turns g ! k)"
  "tu_queues (set_phase i ph g) = tu_queues g" "tu_hooks (set_phase i ph g) = tu_hooks g" "tu_busy (set_phase i ph g) = tu_busy g"
  by (simp_all add: session_of_def phase_of_def set_phase_nth) (simp_all add: set_phase_def)

text \<open>A phase that moves on keeps the chain when what is ahead allows it.\<close>

lemma chain_set_phase:
  assumes "chain_ok g" and i: "i < length (tu_turns g)" and "phase_of g i \<noteq> TurnOver"
    and "ph \<in> {TurnAtFront, TurnRuns, TurnOver} \<Longrightarrow> previous_settled g i"
  shows "chain_ok (set_phase i ph g)"
  unfolding chain_ok_def
proof (intro allI impI)
  fix j assume j: "j < length (tu_turns (set_phase i ph g))"
  have settled: "previous_settled (set_phase i ph g) j" if "previous_settled g j"
    using that assms(3) i by (auto simp: previous_settled_def split: option.splits)
  have old: "case su_previous (tu_turns g ! j) of
           None \<Rightarrow> \<forall>k < j. session_of g k = session_of g j \<longrightarrow> phase_of g k = TurnOver
         | Some p \<Rightarrow> p < j \<and> session_of g p = session_of g j \<and> (\<forall>k. p < k \<and> k < j \<longrightarrow> session_of g k \<noteq> session_of g j)"
    "phase_of g j \<in> {TurnAtFront, TurnRuns, TurnOver} \<longrightarrow> previous_settled g j"
    using assms(1) j unfolding chain_ok_def by simp_all
  have first: "case su_previous (tu_turns (set_phase i ph g) ! j) of
           None \<Rightarrow> \<forall>k < j. session_of (set_phase i ph g) k = session_of (set_phase i ph g) j \<longrightarrow> phase_of (set_phase i ph g) k = TurnOver
         | Some p \<Rightarrow> p < j \<and> session_of (set_phase i ph g) p = session_of (set_phase i ph g) j \<and>
             (\<forall>k. p < k \<and> k < j \<longrightarrow> session_of (set_phase i ph g) k \<noteq> session_of (set_phase i ph g) j)"
    using old(1) assms(3) i by (auto split: option.splits)
  show "(case su_previous (tu_turns (set_phase i ph g) ! j) of
           None \<Rightarrow> \<forall>k < j. session_of (set_phase i ph g) k = session_of (set_phase i ph g) j \<longrightarrow> phase_of (set_phase i ph g) k = TurnOver
         | Some p \<Rightarrow> p < j \<and> session_of (set_phase i ph g) p = session_of (set_phase i ph g) j \<and>
             (\<forall>k. p < k \<and> k < j \<longrightarrow> session_of (set_phase i ph g) k \<noteq> session_of (set_phase i ph g) j)) \<and>
        (phase_of (set_phase i ph g) j \<in> {TurnAtFront, TurnRuns, TurnOver} \<longrightarrow> previous_settled (set_phase i ph g) j)"
    using first settled old(2) assms(4) i by (cases "j = i") auto
qed

lemma queues_set_phase:
  "queues_ok g \<Longrightarrow> i < length (tu_turns g) \<Longrightarrow> phase_of g i \<noteq> TurnOver \<Longrightarrow> queues_ok (set_phase i ph g)"
  unfolding queues_ok_def by (fastforce split: option.splits)

lemma fields_only:
  "tu_turns g' = tu_turns g \<Longrightarrow> chain_ok g' = chain_ok g"
  "tu_turns g' = tu_turns g \<Longrightarrow> tu_queues g' = tu_queues g \<Longrightarrow> queues_ok g' = queues_ok g"
  by (simp_all add: chain_ok_def queues_ok_def session_of_def phase_of_def previous_settled_def cong: option.case_cong)

lemma turns_ok_submit: "turns_ok g \<Longrightarrow> turns_ok (enqueue_turn s hook sig ab g)"
proof (cases "sig \<and> ab")
  case False
  assume ok: "turns_ok g"
  let ?n = "length (tu_turns g)"
  let ?new = "\<lparr>su_session = s, su_hook = hook, su_signal = sig, su_previous = jm_get (tu_queues g) s, su_phase = TurnWaits\<rparr>"
  define h where "h = enqueue_turn s hook sig ab g"
  have turns: "tu_turns h = tu_turns g @ [?new]" and others: "tu_queues h = jm_set s ?n (tu_queues g)" "tu_hooks h = tu_hooks g" "tu_busy h = tu_busy g"
    using False by (auto simp: h_def enqueue_turn_def)
  have old: "session_of h k = session_of g k" "phase_of h k = phase_of g k" "tu_turns h ! k = tu_turns g ! k" if "k < ?n" for k
    using that by (simp_all add: session_of_def phase_of_def turns nth_append)
  have new: "session_of h ?n = s" "phase_of h ?n = TurnWaits" "tu_turns h ! ?n = ?new"
    by (simp_all add: session_of_def phase_of_def turns nth_append)
  have settled: "previous_settled h k = previous_settled g k" if "k < ?n" for k
  proof (cases "su_previous (tu_turns g ! k)")
    case (Some p)
    then have "p < k" using ok that unfolding turns_ok_def chain_ok_def by fastforce
    then show ?thesis using Some that old by (simp add: previous_settled_def)
  qed (use that old in \<open>simp add: previous_settled_def\<close>)
  have q: "case jm_get (tu_queues g) s of
            None \<Rightarrow> \<forall>i < ?n. session_of g i = s \<longrightarrow> phase_of g i = TurnOver
          | Some q \<Rightarrow> q < ?n \<and> session_of g q = s \<and> (\<forall>k. q < k \<and> k < ?n \<longrightarrow> session_of g k \<noteq> s)" for s
    using ok by (simp add: turns_ok_def queues_ok_def)
  have "chain_ok h"
    unfolding chain_ok_def
  proof (intro allI impI)
    fix i assume "i < length (tu_turns h)"
    then have "i < ?n \<or> i = ?n" by (auto simp: turns)
    then consider "i < ?n" | "i = ?n" by blast
    then show "(case su_previous (tu_turns h ! i) of
           None \<Rightarrow> \<forall>k < i. session_of h k = session_of h i \<longrightarrow> phase_of h k = TurnOver
         | Some p \<Rightarrow> p < i \<and> session_of h p = session_of h i \<and> (\<forall>k. p < k \<and> k < i \<longrightarrow> session_of h k \<noteq> session_of h i)) \<and>
        (phase_of h i \<in> {TurnAtFront, TurnRuns, TurnOver} \<longrightarrow> previous_settled h i)"
    proof cases
      case 1
      then have "(case su_previous (tu_turns g ! i) of
           None \<Rightarrow> \<forall>k < i. session_of g k = session_of g i \<longrightarrow> phase_of g k = TurnOver
         | Some p \<Rightarrow> p < i \<and> session_of g p = session_of g i \<and> (\<forall>k. p < k \<and> k < i \<longrightarrow> session_of g k \<noteq> session_of g i)) \<and>
        (phase_of g i \<in> {TurnAtFront, TurnRuns, TurnOver} \<longrightarrow> previous_settled g i)"
        using ok by (simp add: turns_ok_def chain_ok_def)
      then show ?thesis using 1 old settled by (auto split: option.splits)
    next
      case 2
      then show ?thesis using q [of s] new old by (auto split: option.splits)
    qed
  qed
  moreover have "queues_ok h"
    unfolding queues_ok_def
  proof
    fix t
    show "case jm_get (tu_queues h) t of
            None \<Rightarrow> \<forall>i < length (tu_turns h). session_of h i = t \<longrightarrow> phase_of h i = TurnOver
          | Some q \<Rightarrow> q < length (tu_turns h) \<and> session_of h q = t \<and>
              (\<forall>k. q < k \<and> k < length (tu_turns h) \<longrightarrow> session_of h k \<noteq> t)"
      using q [of t] new old by (cases "t = s") (auto simp: others turns less_Suc_eq split: option.splits)
  qed
  moreover have "sinks_ok h"
  proof -
    have "runs_in h t k = runs_in g t k" for t k
      using new old [of k] by (cases "k = ?n") (auto simp: runs_in_def turns less_Suc_eq)
    moreover have "su_hook (tu_turns h ! k) = su_hook (tu_turns g ! k)" if "runs_in g t k" for t k
      using that old by (simp add: runs_in_def)
    ultimately show ?thesis using ok unfolding turns_ok_def sinks_ok_def others by auto
  qed
  ultimately show ?thesis by (simp add: turns_ok_def h_def)
qed (simp add: enqueue_turn_def)

lemma turns_ok_phase:
  assumes "turns_ok g" and "i < length (tu_turns g)" and "phase_of g i \<notin> {TurnOver, TurnRuns}" and "ph \<notin> {TurnRuns, TurnOver}"
    and "ph = TurnAtFront \<Longrightarrow> previous_settled g i"
  shows "turns_ok (set_phase i ph g)"
proof -
  have "chain_ok (set_phase i ph g)" using assms by (intro chain_set_phase) (auto simp: turns_ok_def)
  moreover have "queues_ok (set_phase i ph g)" using assms by (intro queues_set_phase) (auto simp: turns_ok_def)
  moreover have "runs_in (set_phase i ph g) s k = runs_in g s k" for s k using assms by (auto simp: runs_in_def)
  then have "sinks_ok (set_phase i ph g)" using assms(1) by (simp add: turns_ok_def sinks_ok_def)
  ultimately show ?thesis by (simp add: turns_ok_def)
qed

lemma turns_ok_begin:
  assumes ok: "turns_ok g" and i: "i < length (tu_turns g)" and front: "phase_of g i = TurnAtFront"
  shows "turns_ok (begin_turn i g)"
proof -
  let ?s = "session_of g i" and ?g = "set_phase i TurnRuns g"
  have fields: "tu_turns (begin_turn i g) = tu_turns ?g" "tu_queues (begin_turn i g) = tu_queues ?g"
    by (simp_all add: begin_turn_def Let_def)
  have "previous_settled g i" using ok i front by (intro chain_settled) (auto simp: turns_ok_def)
  then have chains: "chain_ok ?g" "queues_ok ?g"
    using ok i front by (auto simp: turns_ok_def intro!: chain_set_phase queues_set_phase)
  have alone: "phase_of g k \<noteq> TurnRuns" if "k < length (tu_turns g)" "session_of g k = ?s" for k
    using one_at_front [of g k i] ok that i front by (auto simp: turns_ok_def)
  have runs: "runs_in (begin_turn i g) s k \<longleftrightarrow> runs_in g s k \<or> k = i \<and> s = ?s" for s k
    using i front by (auto simp: runs_in_def session_of_def phase_of_def fields(1) set_phase_nth)
  have "\<not> runs_in g ?s k" for k using alone by (auto simp: runs_in_def)
  moreover have "su_hook (tu_turns (begin_turn i g) ! k) = su_hook (tu_turns g ! k)" for k by (simp add: fields(1))
  ultimately have "sinks_ok (begin_turn i g)"
    using ok unfolding turns_ok_def sinks_ok_def runs by (auto simp: begin_turn_def Let_def)
  then show ?thesis using chains fields_only [OF fields(1)] fields by (simp add: turns_ok_def)
qed

lemma turns_ok_settle:
  assumes "chain_ok g" and "queues_ok g" and i: "i < length (tu_turns g)" and "phase_of g i \<noteq> TurnOver" and "previous_settled g i"
  shows "chain_ok (settle_turn i g) \<and> queues_ok (settle_turn i g)"
proof -
  let ?g = "set_phase i TurnOver g"
  have ok: "chain_ok ?g" "queues_ok ?g" using assms by (auto intro: chain_set_phase queues_set_phase)
  show ?thesis
  proof (cases "jm_get (tu_queues g) (session_of g i) = Some i")
    case False
    then show ?thesis using ok by (simp add: settle_turn_def)
  next
    case True
    have last: "\<forall>k. i < k \<and> k < length (tu_turns g) \<longrightarrow> session_of g k \<noteq> session_of g i"
      using assms(2) True unfolding queues_ok_def by (metis (no_types, lifting) option.simps(5))
    have over: "phase_of ?g k = TurnOver" if "k < length (tu_turns g)" "session_of g k = session_of g i" for k
      using earlier_over [OF assms(1) i assms(5), of k] last that i by (cases k i rule: linorder_cases) auto
    have settle: "settle_turn i g = ?g\<lparr>tu_queues := jm_delete (session_of g i) (tu_queues g)\<rparr>"
      using True by (simp add: settle_turn_def Let_def)
    have same: "tu_turns (settle_turn i g) = tu_turns ?g" by (simp add: settle)
    have views: "session_of (settle_turn i g) k = session_of g k" "phase_of (settle_turn i g) k = phase_of ?g k" for k
      using set_phase_simps(2) [of i TurnOver g k] by (simp_all add: session_of_def phase_of_def same)
    have "queues_ok (settle_turn i g)"
      unfolding queues_ok_def
    proof
      fix s
      show "case jm_get (tu_queues (settle_turn i g)) s of
            None \<Rightarrow> \<forall>j < length (tu_turns (settle_turn i g)). session_of (settle_turn i g) j = s \<longrightarrow> phase_of (settle_turn i g) j = TurnOver
          | Some q \<Rightarrow> q < length (tu_turns (settle_turn i g)) \<and> session_of (settle_turn i g) q = s \<and>
              (\<forall>k. q < k \<and> k < length (tu_turns (settle_turn i g)) \<longrightarrow> session_of (settle_turn i g) k \<noteq> s)"
      proof (cases "s = session_of g i")
        case True
        then have "jm_get (tu_queues (settle_turn i g)) s = None" by (simp add: settle)
        then show ?thesis using over True by (simp add: views same)
      next
        case False
        then have "jm_get (tu_queues (settle_turn i g)) s = jm_get (tu_queues ?g) s" by (simp add: settle)
        moreover have "case jm_get (tu_queues ?g) s of
            None \<Rightarrow> \<forall>j < length (tu_turns ?g). session_of ?g j = s \<longrightarrow> phase_of ?g j = TurnOver
          | Some q \<Rightarrow> q < length (tu_turns ?g) \<and> session_of ?g q = s \<and> (\<forall>k. q < k \<and> k < length (tu_turns ?g) \<longrightarrow> session_of ?g k \<noteq> s)"
          using ok(2) by (simp only: queues_ok_def)
        ultimately show ?thesis unfolding same views set_phase_simps(2) by (simp only:)
      qed
    qed
    then show ?thesis using ok(1) fields_only(1) [OF same] by simp
  qed
qed

lemma settle_fields:
  "tu_busy (settle_turn i g) = tu_busy g" "tu_hooks (settle_turn i g) = tu_hooks g" "tu_turns (settle_turn i g) = tu_turns (set_phase i TurnOver g)"
  by (simp_all add: settle_turn_def Let_def)

lemma runs_settle: "i < length (tu_turns g) \<Longrightarrow> runs_in (settle_turn i g) s k \<longleftrightarrow> runs_in g s k \<and> k \<noteq> i"
  by (auto simp: runs_in_def settle_fields(3) session_of_def phase_of_def set_phase_nth)

lemma hook_settle: "su_hook (tu_turns (settle_turn i g) ! k) = su_hook (tu_turns g ! k)"
  by (simp add: settle_fields(3))

lemma turns_ok_stand_in:
  assumes "turns_ok g" and "i < length (tu_turns g)" and "phase_of g i = TurnGaveUp" and "previous_settled g i"
  shows "turns_ok (settle_turn i g)"
proof -
  have "\<not> runs_in g s i" for s using assms(3) by (simp add: runs_in_def)
  then have "runs_in (settle_turn i g) s k = runs_in g s k" for s k using runs_settle [OF assms(2)] by blast
  then have "sinks_ok (settle_turn i g)"
    using assms(1) by (simp add: turns_ok_def sinks_ok_def settle_fields(1,2) hook_settle)
  then show ?thesis using turns_ok_settle [of g i] assms by (simp add: turns_ok_def)
qed

lemma turns_ok_finish:
  assumes ok: "turns_ok g" and i: "i < length (tu_turns g)" and running: "phase_of g i = TurnRuns"
  shows "turns_ok (finish_turn i g)"
proof -
  let ?s = "session_of g i"
  let ?g = "g\<lparr>tu_busy := filter (\<lambda>t. t \<noteq> ?s) (tu_busy g),
           tu_hooks := (if su_hook (tu_turns g ! i) then jm_delete ?s (tu_hooks g) else tu_hooks g)\<rparr>"
  have finish: "finish_turn i g = settle_turn i ?g" by (simp add: finish_turn_def Let_def)
  have same: "session_of ?g k = session_of g k" "phase_of ?g k = phase_of g k" "previous_settled ?g k = previous_settled g k"
    "runs_in ?g s k = runs_in g s k" for s k
    by (simp_all add: session_of_def phase_of_def previous_settled_def runs_in_def cong: option.case_cong)
  have settled: "previous_settled g i" using ok i running by (intro chain_settled) (auto simp: turns_ok_def)
  have "chain_ok ?g" "queues_ok ?g" using ok fields_only [of ?g g] by (simp_all add: turns_ok_def)
  then have chains: "chain_ok (finish_turn i g)" "queues_ok (finish_turn i g)"
    unfolding finish using turns_ok_settle [of ?g i] i running settled by (simp_all add: same)
  have mine: "runs_in g ?s k \<longleftrightarrow> k = i" for k
    using one_at_front [of g k i] ok i running by (auto simp: turns_ok_def runs_in_def)
  have runs: "runs_in (finish_turn i g) s k \<longleftrightarrow> runs_in g s k \<and> s \<noteq> ?s" for s k
  proof -
    have "runs_in (finish_turn i g) s k \<longleftrightarrow> runs_in g s k \<and> k \<noteq> i"
      unfolding finish using runs_settle [of i ?g s k] i by (simp add: same)
    then show ?thesis using mine [of k] by (auto simp: runs_in_def)
  qed
  have fields: "tu_busy (finish_turn i g) = tu_busy ?g" "tu_hooks (finish_turn i g) = tu_hooks ?g"
    "su_hook (tu_turns (finish_turn i g) ! k) = su_hook (tu_turns g ! k)" for k
    by (simp_all add: finish settle_fields hook_settle)
  have old: "s \<in> set (tu_busy g) \<longleftrightarrow> (\<exists>k. runs_in g s k)"
    "jm_get (tu_hooks g) s = Some k \<longleftrightarrow> runs_in g s k \<and> su_hook (tu_turns g ! k)" for s k
    using ok by (simp_all add: turns_ok_def sinks_ok_def)
  have "sinks_ok (finish_turn i g)"
    unfolding sinks_ok_def
  proof (intro conjI allI)
    show "s \<in> set (tu_busy (finish_turn i g)) \<longleftrightarrow> (\<exists>k. runs_in (finish_turn i g) s k)" for s
      unfolding runs fields using old(1) [of s] by auto
    show "jm_get (tu_hooks (finish_turn i g)) s = Some k \<longleftrightarrow>
        runs_in (finish_turn i g) s k \<and> su_hook (tu_turns (finish_turn i g) ! k)" for s k
      unfolding runs fields using old(2) [of s k] mine [of k] by auto
  qed
  then show ?thesis using chains by (simp add: turns_ok_def)
qed

lemma turns_ok_move: "turns_ok g \<Longrightarrow> make_move m g = Some g' \<Longrightarrow> turns_ok g'"
proof (cases m)
  case (ReachFront i)
  assume "turns_ok g" "make_move m g = Some g'"
  then show ?thesis using ReachFront turns_ok_phase [of g i TurnAtFront] by (auto split: if_splits)
next
  case (AbortWait i)
  assume "turns_ok g" "make_move m g = Some g'"
  then show ?thesis using AbortWait turns_ok_phase [of g i TurnGaveUp] by (auto split: if_splits)
qed (auto simp: turns_ok_submit turns_ok_begin turns_ok_finish turns_ok_stand_in split: if_splits)

lemma turns_ok_run: "turn_runs g ms g' \<Longrightarrow> turns_ok g \<Longrightarrow> turns_ok g'"
  by (induction rule: turn_runs.induct) (blast intro: turns_ok_move)+

lemma turns_ok_new: "turns_ok newTurnController"
  by (simp add: newTurnController_def turns_ok_def chain_ok_def queues_ok_def sinks_ok_def runs_in_def)

section \<open>Progress\<close>

text \<open>The moves a submission has left.\<close>

fun phase_work :: "turn_phase \<Rightarrow> nat" where
  "phase_work TurnWaits = 3"
| "phase_work TurnAtFront = 2"
| "phase_work TurnRuns = 1"
| "phase_work TurnGaveUp = 1"
| "phase_work TurnOver = 0"

definition work_left :: "turn_controller \<Rightarrow> nat" where
  "work_left g = sum_list (map (\<lambda>u. phase_work (su_phase u)) (tu_turns g))"

definition is_submit :: "turn_move \<Rightarrow> bool" where
  "is_submit m = (case m of Submit s h sig ab \<Rightarrow> True | _ \<Rightarrow> False)"

lemma work_phase:
  assumes "i < length (tu_turns g)" and "phase_work ph < phase_work (phase_of g i)"
  shows "work_left (set_phase i ph g) < work_left g"
proof -
  let ?w = "\<lambda>u. phase_work (su_phase u)"
  have "sum_list ((map ?w (tu_turns g))[i := phase_work ph]) + phase_work (phase_of g i) = sum_list (map ?w (tu_turns g)) + phase_work ph"
    using assms(1) sum_list_update [of i "map ?w (tu_turns g)" "phase_work ph"] elem_le_sum_list [of i "map ?w (tu_turns g)"]
    by (simp add: phase_of_def)
  then show ?thesis using assms(2) by (simp add: work_left_def set_phase_def map_update)
qed

lemma work_same: "tu_turns g' = tu_turns g \<Longrightarrow> work_left g' = work_left g"
  by (simp add: work_left_def)

lemma move_works: "make_move m g = Some g' \<Longrightarrow> \<not> is_submit m \<Longrightarrow> work_left g' < work_left g"
proof (cases m)
  case (EndRun i)
  assume move: "make_move m g = Some g'"
  let ?g = "g\<lparr>tu_busy := filter (\<lambda>t. t \<noteq> session_of g i) (tu_busy g),
           tu_hooks := (if su_hook (tu_turns g ! i) then jm_delete (session_of g i) (tu_hooks g) else tu_hooks g)\<rparr>"
  have g: "g' = settle_turn i ?g" "i < length (tu_turns g)" "phase_of g i = TurnRuns"
    using move EndRun by (auto simp: finish_turn_def Let_def split: if_splits)
  have "work_left g' = work_left (set_phase i TurnOver ?g)" by (rule work_same) (simp add: g(1) settle_fields)
  also have "\<dots> < work_left ?g" by (rule work_phase) (use g in \<open>simp_all add: phase_of_def\<close>)
  finally show ?thesis by (simp add: work_left_def)
next
  case (StandIn i)
  assume move: "make_move m g = Some g'"
  then have g: "g' = settle_turn i g" "i < length (tu_turns g)" "phase_of g i = TurnGaveUp" using StandIn by (auto split: if_splits)
  have "work_left g' = work_left (set_phase i TurnOver g)" by (rule work_same) (simp add: g(1) settle_fields)
  also have "\<dots> < work_left g" by (rule work_phase) (use g in simp_all)
  finally show ?thesis .
next
  case (BeginRun i)
  assume move: "make_move m g = Some g'"
  then have g: "g' = begin_turn i g" "i < length (tu_turns g)" "phase_of g i = TurnAtFront" using BeginRun by (auto split: if_splits)
  have "work_left g' = work_left (set_phase i TurnRuns g)" by (rule work_same) (simp add: g(1) begin_turn_def Let_def)
  also have "\<dots> < work_left g" by (rule work_phase) (use g in simp_all)
  finally show ?thesis .
qed (auto simp: is_submit_def intro!: work_phase split: if_splits)

lemma some_move:
  assumes ok: "turns_ok g" and "i < length (tu_turns g)" and "phase_of g i \<noteq> TurnOver"
  shows "\<exists>m g'. \<not> is_submit m \<and> make_move m g = Some g'"
proof -
  define j where "j = (LEAST j. j < length (tu_turns g) \<and> phase_of g j \<noteq> TurnOver)"
  have j: "j < length (tu_turns g)" "phase_of g j \<noteq> TurnOver"
    using LeastI [of "\<lambda>j. j < length (tu_turns g) \<and> phase_of g j \<noteq> TurnOver" i] assms by (simp_all add: j_def)
  have earlier: "phase_of g k = TurnOver" if "k < j" for k
    using not_less_Least [of k "\<lambda>j. j < length (tu_turns g) \<and> phase_of g j \<noteq> TurnOver"] that j(1) by (auto simp: j_def)
  have "previous_settled g j"
  proof (cases "su_previous (tu_turns g ! j)")
    case (Some p)
    then have "p < j" using ok j(1) unfolding turns_ok_def chain_ok_def by fastforce
    then show ?thesis using Some earlier by (simp add: previous_settled_def)
  qed (simp add: previous_settled_def)
  then show ?thesis
    using j by (cases "phase_of g j")
      (auto simp: is_submit_def intro: exI [of _ "ReachFront j"] exI [of _ "BeginRun j"] exI [of _ "EndRun j"] exI [of _ "StandIn j"])
qed

end
