(* ===== verification/Turn_Properties.thy ===== *)
theory Turn_Properties
  imports Turn_Controller
begin

text \<open>What the turn controller promises: one turn per session, in order; events to that turn only; nobody left waiting.\<close>

text \<open>C39: A session has one turn at a time, in the order of submission. In every state the controller can reach, with
  any interleaving of submissions, aborts, ends of bodies and microtasks, a submission is at the front or in
  its body, or has handed its lock on, only when every earlier submission of the session has handed its lock
  on; so two submissions of one session never run together, also when one of them was aborted while
  it waited, and a session counts as busy exactly while one of its bodies runs.\<close>

theorem one_turn_per_session:
  assumes "turn_runs newTurnController ms g" and "i < j" and "j < length (tu_turns g)" and "session_of g i = session_of g j"
    and "phase_of g j \<in> {TurnAtFront, TurnRuns, TurnOver}"
  shows "phase_of g i = TurnOver \<and> (isBusy s g \<longleftrightarrow> (\<exists>k < length (tu_turns g). session_of g k = s \<and> phase_of g k = TurnRuns))"
proof -
  have ok: "turns_ok g" using turns_ok_run [OF assms(1) turns_ok_new] .
  then have chain: "chain_ok g" by (simp add: turns_ok_def)
  have "phase_of g i = TurnOver"
    by (rule earlier_over [OF chain assms(3) chain_settled [OF chain assms(3,5)] assms(2,4)])
  then show ?thesis using ok by (auto simp: turns_ok_def sinks_ok_def isBusy_def runs_in_def)
qed

definition two_turns :: "turn_move list" where
  "two_turns =
     [Submit ''a'' True False False, Submit ''a'' True True False, Submit ''a'' True False False, ReachFront 0, BeginRun 0,
      AbortWait 1, EndRun 0, StandIn 1, ReachFront 2, BeginRun 2]"

definition after_two_turns :: turn_controller where
  "after_two_turns = fold (\<lambda>m g. the (make_move m g)) two_turns newTurnController"

lemma two_turns_run: "turn_runs newTurnController two_turns after_two_turns"
proof -
  have "turn_runs g ms (fold (\<lambda>m g. the (make_move m g)) ms g)"
    if "list_all (\<lambda>k. make_move (ms ! k) (fold (\<lambda>m g. the (make_move m g)) (take k ms) g) \<noteq> None) [0..<length ms]" for ms g
    using that
  proof (induction ms arbitrary: g)
    case (Cons m ms)
    have all: "make_move ((m # ms) ! k) (fold (\<lambda>m g. the (make_move m g)) (take k (m # ms)) g) \<noteq> None" if "k < Suc (length ms)" for k
      using Cons(2) that by (auto simp: list_all_iff simp del: upt_Suc)
    obtain g1 where g1: "make_move m g = Some g1" using all [of 0] by auto
    have "turn_runs g1 ms (fold (\<lambda>m g. the (make_move m g)) ms g1)"
      using all [of "Suc _"] g1 by (intro Cons(1)) (auto simp: list_all_iff)
    then show ?case using g1 by (auto intro: turn_moves)
  qed (simp add: turn_stays)
  moreover have "list_all (\<lambda>k. make_move (two_turns ! k) (fold (\<lambda>m g. the (make_move m g)) (take k two_turns) newTurnController) \<noteq> None)
      [0..<length two_turns]" by code_simp
  ultimately show ?thesis unfolding after_two_turns_def by blast
qed

theorem one_turn_per_session_witness:
  "phase_of after_two_turns 0 = TurnOver \<and> phase_of after_two_turns 2 = TurnRuns"
proof -
  have facts: "2 < length (tu_turns after_two_turns)" "session_of after_two_turns 0 = session_of after_two_turns 2"
    "phase_of after_two_turns 2 = TurnRuns" by code_simp+
  have "phase_of after_two_turns 0 = TurnOver"
    using one_turn_per_session [OF two_turns_run, of 0 2 "''a''"] facts by simp
  then show ?thesis using facts by simp
qed

text \<open>An event of a session goes to the hook of the submission whose body runs, and to none when there is none.\<close>

lemma events_reach_the_running_turn:
  assumes "turn_runs newTurnController ms g"
  shows "emit_target s g = Some i \<longleftrightarrow>
    i < length (tu_turns g) \<and> session_of g i = s \<and> phase_of g i = TurnRuns \<and> su_hook (tu_turns g ! i)"
  using turns_ok_run [OF assms turns_ok_new] by (auto simp: turns_ok_def sinks_ok_def emit_target_def runs_in_def)



text \<open>A move in one session leaves the submissions of another, their queue and their sinks as they were.\<close>

fun move_session :: "turn_move \<Rightarrow> turn_controller \<Rightarrow> string" where
  "move_session (Submit s hook sig ab) g = s"
| "move_session (ReachFront i) g = session_of g i"
| "move_session (BeginRun i) g = session_of g i"
| "move_session (EndRun i) g = session_of g i"
| "move_session (AbortWait i) g = session_of g i"
| "move_session (StandIn i) g = session_of g i"

definition next_state :: "turn_move \<Rightarrow> turn_controller \<Rightarrow> turn_controller" where
  "next_state m g = (case make_move m g of None \<Rightarrow> g | Some g' \<Rightarrow> g')"

type_synonym session_turns = "submission list \<times> nat option \<times> nat option \<times> bool"

definition turns_view :: "turn_controller \<Rightarrow> string \<Rightarrow> session_turns" where
  "turns_view g s =
     (filter (\<lambda>u. su_session u = s) (tu_turns g), jm_get (tu_queues g) s, jm_get (tu_hooks g) s, s \<in> set (tu_busy g))"

lemma filter_update: "i < length xs \<Longrightarrow> \<not> P (xs ! i) \<Longrightarrow> \<not> P x \<Longrightarrow> filter P (xs[i := x]) = filter P xs"
  by (induction xs arbitrary: i) (auto split: nat.splits)

lemma view_phase: "i < length (tu_turns g) \<Longrightarrow> session_of g i \<noteq> s \<Longrightarrow>
    filter (\<lambda>u. su_session u = s) (tu_turns (set_phase i ph g)) = filter (\<lambda>u. su_session u = s) (tu_turns g)"
  unfolding set_phase_def session_of_def by (simp add: filter_update)

lemma turns_untouched: "move_session m g \<noteq> s \<Longrightarrow> turns_view (next_state m g) s = turns_view g s"
proof (cases m)
  case (EndRun i)
  assume other: "move_session m g \<noteq> s"
  show ?thesis
  proof (cases "make_move m g")
    case (Some g')
    have i: "i < length (tu_turns g)" "session_of g i \<noteq> s" "g' = finish_turn i g"
      using Some EndRun other by (auto split: if_splits)
    have same: "session_of (g\<lparr>tu_busy := b, tu_hooks := h\<rparr>) k = session_of g k" for b h k by (simp add: session_of_def)
    have turns: "tu_turns (set_phase i ph (g\<lparr>tu_busy := b, tu_hooks := h\<rparr>)) = tu_turns (set_phase i ph g)" for ph b h
      by (simp add: set_phase_def)
    show ?thesis
      using i Some view_phase [of i g s TurnOver]
      by (auto simp: next_state_def turns_view_def finish_turn_def settle_turn_def Let_def same turns)
  qed (simp add: next_state_def)
qed (auto simp: next_state_def turns_view_def enqueue_turn_def begin_turn_def settle_turn_def Let_def view_phase split: if_splits)

interpretation turn_book: session_book next_state turns_view "\<lambda>m g s. move_session m g = s"
  by unfold_locales (rule turns_untouched)

lemma sessions_do_not_disturb: "turn_book.quiet ms g s \<Longrightarrow> turns_view (fold next_state ms g) s = turns_view g s"
  by (rule turn_book.quiet_view)

end
