(* ===== verification/Spec2Isabelle.thy ===== *)
theory Spec2Isabelle
  imports Loop_Properties Approval_Properties Fallback_Properties Task_Properties
    Scheduler_Properties Dispatch_Properties Policy_Properties Conversation_Properties Stream_Properties
    Slot_Properties Memory_Properties Repair_Properties Turn_Properties
begin

text \<open>
  A verification library of the atomic agent, a local-first agent written in TypeScript: a loop that builds a
  prompt from the conversation, asks a model, reads the tool calls out of its answer, asks the operator where a
  call needs approval, runs the calls and stores what they returned. The library models the parts that decide:
  what the prompt shows, what the stream of an answer means, which calls of a batch may run and in what order,
  when the loop is going in circles, who must be asked, which provider is tried next, which scheduled task runs,
  and what recall reaches. All paths below are under src/src/.

  \<^bold>\<open>How the parts interact.\<close> Every entry point submits a turn to the one owner of its session (\<open>Turn_Controller\<close>). A step
  of the turn packs the transcript (\<open>Conversation_Pack\<close>) within the window (\<open>Token_Budget\<close>),
  on top of the checkpoint of an earlier compaction (\<open>Session_Compaction\<close>), and sends it in the slot of its session
  (\<open>Slot_Manager\<close>) or along the chain of providers (\<open>Fallback_Chain\<close>). The answer arrives in chunks and is shown while
  it does (\<open>Stream_Parser\<close>); its JSON is repaired when it must be (\<open>Json_Repair\<close>, \<open>Repair_Verdict\<close>). The batch of calls
  passes the policy (\<open>Batch_Policy\<close>: resource classes from \<open>Tool_Classes\<close>, modes from \<open>Tool_Policies\<close>, names from
  \<open>Tool_Names\<close> and \<open>Unknown_Tool\<close>), then the gates of each call (\<open>Batch_Gates\<close>) and the executor
  (\<open>Batch_Executor\<close>, or in segments \<open>Batch_Barriers\<close>). Every call and its outcome is told to the loop detector
  (\<open>Loop_Detector\<close>), which answers with a verdict the gates turn into a notice or a veto (\<open>Loop_Notices\<close>,
  \<open>Compressor\<close>). A call that needs approval goes through the ladder and the gate (\<open>Approval_Level\<close>,
  \<open>Approval_Gate\<close>). Beside the loop runs the task queue (\<open>Task_Store\<close>, \<open>Task_Runner\<close>), ticked by the one process that
  leads (\<open>Scheduler\<close>, \<open>Scheduler_Leadership\<close>). Memories form a graph (\<open>Link_Store\<close>) that recall walks and
  consolidation clusters (\<open>Memory_Clusters\<close>).

  \<^bold>\<open>Layout.\<close> \<open>Prelude\<close> holds JavaScript's \<open>Map\<close> and \<open>Set\<close> in insertion order, arrays and strings, the collections of
  simplification rules and two contracts: \<open>keyed_map\<close> (a map with its laws) and \<open>session_book\<close> (state kept per key: an
  operation that does not touch a key leaves its view alone). Every locale is interpreted on the model's own
  definitions in the theory that provides them. The properties stand in the \<open>_Properties\<close> theories, each with a witness
  where it has a hypothesis; the theories before them hold the model and the lemmas.

  \<^item> Loop detector. \<open>Read_Coverage\<close> (agent/progress/read-coverage.ts), \<open>Read_Observation\<close>, \<open>Wandering_Spread\<close>
    (wandering-spread.ts), \<open>Fingerprints\<close> (loop-fingerprints.ts, canonical JSON), \<open>Mutation_Epochs\<close>, \<open>Test_Command\<close>,
    \<open>Loop_Detector\<close> (agent/loop-detector.ts: the tracker record and each public method), \<open>Loop_Notices\<close>. \<open>Loop_Invariant\<close>
    shows that every method keeps the tracker's invariant, \<open>Loop_Behaviour\<close> what the detectors answer.
  \<^item> Approval. \<open>Approval_Level\<close> (approval/approval-level.ts), \<open>Posix_Path\<close>, \<open>Approval_Gate\<close> (approval-gate.ts with the
    fan-out and read scopes), \<open>Approval_Runs\<close>: sequences of operations, grants and refusals per session.
  \<^item> Providers. \<open>Fallback_Config\<close>, \<open>Fallback_Chain\<close> (llm/fallback/: the breaker, the choice of the next link, the attempt
    loop), \<open>Fallback_Runs\<close>: partitions do not disturb each other, the loop ends, cooldowns climb the ladder.
  \<^item> Tasks. \<open>Turn_Owner\<close>, \<open>Task_Schedule\<close>, \<open>Task_Store\<close> (tasks/task-store.ts, one definition per SQL statement),
    \<open>Task_Runner\<close> (task-runner.ts). \<open>Task_Table\<close> reads the table one row at a time, \<open>Task_System\<close> is the step relation of
    several processes on one table with the legal moves of a row, \<open>Task_Drain\<close> why a drain ends.
  \<^item> Scheduling. \<open>Scheduler_Leadership\<close> (the lock as a directory with a holder file, processes as interleaved steps) and
    \<open>Scheduler\<close>.
  \<^item> Dispatch. \<open>Tool_Classes\<close>, \<open>Compressor\<close>, \<open>Unknown_Tool\<close>, \<open>Tool_Policies\<close>, \<open>Control_Markers\<close>, \<open>Batch_Gates\<close>
    (agent/dispatch/batch-gates.ts, batch-call.ts), \<open>Batch_Executor\<close> (batch-scheduler.ts): one thread per group, calls
    begun and settled as separate steps, so every interleaving of settlements is a run. \<open>Batch_Invariant\<close>,
    \<open>Batch_Groups\<close> and \<open>Batch_Reach\<close> carry the invariant through every step, \<open>Batch_Termination\<close> bounds every run,
    \<open>Batch_Fanout\<close> bounds what is in flight, \<open>Batch_Tracker\<close> shows that the executor reaches only trackers the
    loop detector's invariant knows; \<open>Batch_Samples\<close> are the batches of the witnesses.
  \<^item> Step policy. \<open>Progress_Note\<close>, \<open>Tool_Names\<close>, \<open>Batch_Policy\<close> and \<open>Batch_Barriers\<close> (agent/step/step-batch-policy.ts).
  \<^item> Conversation. \<open>Token_Budget\<close> (prompt/token-budget.ts), \<open>Conversation_Turn\<close> and \<open>Conversation_Pack\<close>
    (session/conversation-turn.ts), \<open>Conversation_Cuts\<close> (the account of the token walk equals the cost of the suffix as
    rendered), \<open>Session_Compaction\<close> (session/session-compaction.ts).
  \<^item> Streams. \<open>Stream_Parser\<close> (llm/grammar/stream-parser.ts, text as UTF-16 code units), \<open>Stream_Scans\<close> (what a scan found
    stays found when text is added), \<open>Stream_Chunks\<close> (a round on a longer buffer), \<open>Stream_Runs\<close> (a push followed by
    the rest is a push of both). The hypotheses of the chunking theorem are decidable and weak: tags without brackets
    (the default ones), no complete start of a tool call inside a reasoning block before its closing tag, and no
    undecided candidate longer than the probe cap. Both exceptions are real differences of the code, recorded as a
    finding.
  \<^item> Slots. \<open>Slot_Manager\<close> (llm/slot-manager.ts): the pool is every slot but the reserved one, and a session's slot is an
    instance of \<open>session_book\<close>.
  \<^item> Turns. \<open>Turn_Controller\<close> (runtime/turn-controller.ts): what happens between two waits of a submission is one move,
    and any interleaving of moves, aborts and ends of bodies is a run; sessions are an instance of \<open>session_book\<close>.
  \<^item> JSON repair. \<open>Json_Repair\<close> (llm/grammar/repair-tool-call-json.ts), \<open>Repair_Scan\<close> (a strict reading of the structure,
    in step with the loop's state), \<open>Repair_Verdict\<close> (agent/step/step-json-repair.ts).
  \<^item> Memory. \<open>Link_Store\<close> (memory/links/link-store.ts), \<open>Link_Walk\<close> (what a hop adds; the walk against the balls around the
    seeds), \<open>Memory_Clusters\<close> (memory/consolidator/clustering.ts), \<open>Cluster_Components\<close> (the search against the
    reflexive transitive closure of the links).

  \<^bold>\<open>Bounds and termination.\<close> Loops of the code are structural recursions or functions with a measure: the cut search by
  the interval left, the search for compaction cuts by the rows left, the breadth-first search by the unvisited nodes
  twice and the queue once. The attempt loop of the provider chain carries fuel, one unit per link asked; as many as
  there are links are shown to be enough for a chain without repetitions (\<open>fallback_run_terminates\<close>), and the
  properties of the loop give it at least that. The parser's loop is a partial function, since with two empty tags the
  code itself does not end; for tags that are not empty it is shown total (\<open>advance_total\<close>). The runs of a batch and of
  a drain are bounded by explicit measures. Numbers are whole: counts and indices are naturals, times and sizes
  integers; the double arithmetic of the budgets is written out over whole numbers, and weights of links are rationals.
  Strings of the components other than the stream parser are ASCII.

  \<^bold>\<open>Parameters.\<close> What is not under src/, or is an effect of the machine, is an argument of the definitions that use it: the
  cron parser, the probe of a process owner and the clock; the URL parser; \<open>JSON.parse\<close> and the JSON-schema check; the digests
  (SHA-256) of prefixes and checkpoints; the outcome of an attempt at a provider and of a call; the approval posture of a
  session; the class resolver of external tools; the cost of a read pointer remembered from an earlier prompt; the
  product a low-water fraction makes; which memories exist when a link is added. Rows the link table ranks alike come in
  table order, which SQL leaves open.

  \<^bold>\<open>Not modelled.\<close> Logs, events, metrics and traces. The agent loop and the step executor as orchestration of
  completions; the tools' own effects on files, processes, browser and network; the clients of providers, of the local
  server and of MCP servers; SQL and embeddings of the memory store beyond the link graph; the runners that ask a model
  to reflect, vote or link; prompt texts, configuration schemas and files, session files; the terminal interface, the
  command line, the HTTP server, channels, skills, imports, the sidecar and telemetry. Each is listed in the manifest with
  its reason.
\<close>

end
